(* ===== verification/Prelude.thy ===== *)
theory Prelude
  imports Main "HOL-Library.Word"
begin

text \<open>
  Shared vocabulary of the development: the machine-integer types of the C sources, byte
  buffers with \<open>memcpy\<close> at an offset, cyclic indices as the ring buffers use them, the
  collections of rewrite rules the component theories add to, and two interfaces that several
  components implement: a codec (an encoder with its decoder) and a transition system with an
  invariant.
\<close>

unbundle bit_operations_syntax

section \<open>Machine integers\<close>

type_synonym byte = "8 word"
type_synonym u16 = "16 word"
type_synonym u32 = "32 word"
type_synonym u64 = "64 word"

text \<open>
  Rule collections: \<open>codec_simps\<close> holds the round-trip and length equations of the byte
  codecs, \<open>buf_simps\<close> the equations of buffer reads over buffer writes.
\<close>

named_theorems codec_simps \<open>round-trip and length equations of the byte codecs\<close>
named_theorems buf_simps \<open>reads of a buffer after a write to it\<close>

definition SIZE_MAX :: nat where
  "SIZE_MAX = 2 ^ 64 - 1"

lemma bit_word_eq_by_bytes:
  fixes v w :: "'a::len word"
  assumes "\<And>k i. k * 8 + i < LENGTH('a) \<Longrightarrow> i < 8 \<Longrightarrow> bit v (k * 8 + i) = bit w (k * 8 + i)"
  shows "v = w"
proof (rule bit_word_eqI)
  fix n assume n: "n < LENGTH('a)"
  have "n div 8 * 8 + n mod 8 = n" by simp
  with assms [of "n div 8" "n mod 8"] n show "bit v n = bit w n" by simp
qed

lemma xor_right_cancel [simp]: "x XOR z = y XOR z \<longleftrightarrow> x = y" for x :: "'a::len word"
  by (metis xor.assoc xor_self_eq xor.right_neutral)

lemma xor_left_cancel [simp]: "z XOR x = z XOR y \<longleftrightarrow> x = y" for x :: "'a::len word"
  by (metis xor.assoc xor_self_eq xor.left_neutral)

section \<open>Byte buffers\<close>

text \<open>
  \<open>write_at off src buf\<close> is \<open>memcpy(buf + off, src, n)\<close> with \<open>n\<close> the length of
  \<open>src\<close>; \<open>slice off n buf\<close> is the run of \<open>n\<close> bytes at \<open>buf + off\<close>.
\<close>

definition write_at :: "nat \<Rightarrow> 'a list \<Rightarrow> 'a list \<Rightarrow> 'a list" where
  "write_at off src buf = take off buf @ src @ drop (off + length src) buf"

definition slice :: "nat \<Rightarrow> nat \<Rightarrow> 'a list \<Rightarrow> 'a list" where
  "slice off n buf = take n (drop off buf)"

lemma length_write_at [simp]:
  "off + length src \<le> length buf \<Longrightarrow> length (write_at off src buf) = length buf"
  by (simp add: write_at_def)

lemma length_slice [simp]: "off + n \<le> length buf \<Longrightarrow> length (slice off n buf) = n"
  by (simp add: slice_def)

lemma slice_write_at_same [buf_simps]:
  "off + length src \<le> length buf \<Longrightarrow> n = length src \<Longrightarrow> slice off n (write_at off src buf) = src"
  by (simp add: slice_def write_at_def)

lemma write_at_append [buf_simps]:
  "length xs = off \<Longrightarrow> write_at off src (xs @ ys) = xs @ src @ drop (length src) ys"
  by (simp add: write_at_def)

lemma nth_write_at:
  assumes "off + length src \<le> length buf" "i < length buf"
  shows "write_at off src buf ! i =
    (if off \<le> i \<and> i < off + length src then src ! (i - off) else buf ! i)"
  using assms by (auto simp: write_at_def nth_append)

lemma slice_write_at_disjoint [buf_simps]:
  assumes "off + length src \<le> length buf" "a + n \<le> length buf"
    and "a + n \<le> off \<or> off + length src \<le> a"
  shows "slice a n (write_at off src buf) = slice a n buf"
proof (rule nth_equalityI)
  show "length (slice a n (write_at off src buf)) = length (slice a n buf)"
    using assms by simp
next
  fix i assume "i < length (slice a n (write_at off src buf))"
  then have i: "i < n" "a + i < length buf" using assms by simp_all
  then show "slice a n (write_at off src buf) ! i = slice a n buf ! i"
    using assms by (auto simp: slice_def nth_write_at)
qed

lemma take_write_at_end [buf_simps]:
  assumes "length xs = off" "take off buf = xs" "off + length src \<le> length buf"
  shows "take (off + length src) (write_at off src buf) = xs @ src"
  using assms by (simp add: write_at_def)

lemma slice_slice [simp]: "a + n \<le> m \<Longrightarrow> slice a n (slice b m xs) = slice (b + a) n xs"
  by (simp add: slice_def take_drop min_def) (simp add: ac_simps)

lemma slice_append_left [simp]: "a + n \<le> length xs \<Longrightarrow> slice a n (xs @ ys) = slice a n xs"
  by (simp add: slice_def)

lemma slice_append_right [simp]:
  "length xs \<le> a \<Longrightarrow> slice a n (xs @ ys) = slice (a - length xs) n ys"
  by (simp add: slice_def)

text \<open>The element a search finds, with what stands before and behind it.\<close>

lemma find_block:
  assumes "find P xs = Some c"
  obtains us vs where "xs = us @ c # vs" "P c"
  using assms by (metis find_Some_iff nth_mem split_list)

lemma card_le_1_member:
  assumes "finite A" "q \<in> A"
  shows "card A \<le> 1 \<longleftrightarrow> A = {q}"
  using assms by (auto simp: card_le_Suc0_iff_eq)

section \<open>Cyclic indices\<close>

text \<open>
  The rings of the program advance a cursor by \<open>(i + 1) % capacity\<close>. An index at distance
  \<open>d\<close> from a cursor is \<open>(i + d) mod cap\<close>; within one lap the distance determines the
  index.
\<close>

lemma mod_add_inj_le:
  fixes c :: nat
  assumes "i \<le> j" "j < c" "(a + i) mod c = (a + j) mod c"
  shows "i = j"
proof -
  from assms(1,3) have "c dvd (a + j) - (a + i)" by (metis mod_eq_dvd_iff_nat add_le_cancel_left)
  then have "c dvd j - i" by simp
  with assms(1,2) show ?thesis by (auto dest: dvd_imp_le)
qed

lemma mod_add_inj:
  fixes c :: nat
  assumes "i < c" "j < c" "(a + i) mod c = (a + j) mod c"
  shows "i = j"
  using mod_add_inj_le [of i j c a] mod_add_inj_le [of j i c a] assms by (cases "i \<le> j") auto

lemma mod_Suc_shift [simp]: "(Suc a mod c + i) mod c = (a + Suc i) mod (c::nat)"
  by (simp add: mod_add_left_eq)

lemma mod_shift_shift [simp]: "((a + i) mod c + j) mod c = (a + (i + j)) mod (c::nat)"
  by (simp add: mod_add_left_eq add.assoc)

lemma Suc_mod_shift [simp]: "Suc ((a + i) mod c) mod c = (a + Suc i) mod (c::nat)"
  by (simp add: mod_Suc_eq)

text \<open>Every index of the ring lies at exactly one distance from the cursor.\<close>

lemma cyclic_distance:
  fixes c :: nat
  assumes "i < c" "a < c"
  obtains d where "d < c" "(a + d) mod c = i"
proof
  let ?d = "(i + c - a) mod c"
  show "?d < c" using assms by simp
  have "(a + ?d) mod c = (a + (i + c - a)) mod c" by (simp add: mod_add_right_eq)
  also have "\<dots> = i" using assms by simp
  finally show "(a + ?d) mod c = i" .
qed

text \<open>
  The slots of a ring in the order in which a cursor meets them: writing at a distance is an
  update of the view, advancing the cursor rotates it.
\<close>

definition ring_view :: "'a list \<Rightarrow> nat \<Rightarrow> nat \<Rightarrow> 'a list" where
  "ring_view xs start cap = map (\<lambda>i. xs ! ((start + i) mod cap)) [0..<cap]"

lemma length_ring_view [simp]: "length (ring_view xs start cap) = cap"
  by (simp add: ring_view_def)

lemma nth_ring_view [simp]: "i < cap \<Longrightarrow> ring_view xs start cap ! i = xs ! ((start + i) mod cap)"
  by (simp add: ring_view_def)

lemma ring_view_update:
  assumes "i < cap" "cap \<le> length xs"
  shows "ring_view (xs[(start + i) mod cap := v]) start cap = (ring_view xs start cap)[i := v]"
proof (rule nth_equalityI)
  show "length (ring_view (xs[(start + i) mod cap := v]) start cap) =
      length ((ring_view xs start cap)[i := v])" by simp
next
  fix j assume "j < length (ring_view (xs[(start + i) mod cap := v]) start cap)"
  then have j: "j < cap" by simp
  then have "(start + j) mod cap < cap" by simp
  then have "(start + j) mod cap < length xs" using assms(2) by simp
  then show "ring_view (xs[(start + i) mod cap := v]) start cap ! j = (ring_view xs start cap)[i := v] ! j"
  proof (cases "i = j")
    case False
    then have "(start + i) mod cap \<noteq> (start + j) mod cap" using mod_add_inj assms(1) j by blast
    with False j show ?thesis by simp
  qed (use j in simp)
qed

lemma ring_view_advance:
  assumes "0 < cap"
  shows "ring_view xs (Suc start mod cap) cap = rotate1 (ring_view xs start cap)"
proof (rule nth_equalityI)
  fix j assume "j < length (ring_view xs (Suc start mod cap) cap)"
  then show "ring_view xs (Suc start mod cap) cap ! j = rotate1 (ring_view xs start cap) ! j"
    by (simp add: nth_rotate1 mod_add_right_eq)
qed simp

section \<open>Interfaces shared by several components\<close>

text \<open>
  A codec: every well-formed value has an encoding of known length, and decoding an encoding
  that is followed by anything returns the value.
\<close>

locale codec =
  fixes enc :: "'v \<Rightarrow> byte list"
    and dec :: "byte list \<Rightarrow> 'v option"
    and wf :: "'v \<Rightarrow> bool"
  assumes dec_enc: "wf v \<Longrightarrow> dec (enc v @ rest) = Some v"
begin

lemma dec_enc_exact: "wf v \<Longrightarrow> dec (enc v) = Some v"
  using dec_enc [of v "[]"] by simp

lemma enc_inj: "wf v \<Longrightarrow> wf w \<Longrightarrow> enc v = enc w \<Longrightarrow> v = w"
  by (metis dec_enc_exact option.inject)

lemma enc_prefix_free:
  assumes "wf v" "wf w" "enc v @ xs = enc w @ ys"
  shows "v = w \<and> xs = ys"
proof -
  from assms have "Some v = Some w" by (metis dec_enc)
  with assms(3) show ?thesis by simp
qed

end

text \<open>
  A transition system with an invariant: \<open>step\<close> takes an event (what a caller or the
  environment does next) and a state. A run is a sequence of events.
\<close>

locale invariant_system =
  fixes step :: "'e \<Rightarrow> 's \<Rightarrow> 's"
    and inv :: "'s \<Rightarrow> bool"
  assumes step_inv: "inv s \<Longrightarrow> inv (step e s)"
begin

lemma run_inv: "inv s \<Longrightarrow> inv (fold step es s)"
  by (induction es arbitrary: s) (auto intro: step_inv)

lemma prefix_inv: "inv s \<Longrightarrow> inv (fold step (take n es) s)"
  by (rule run_inv)

end

text \<open>
  Forward simulation between two machines that answer the same events: what a component shows
  to its callers, event by event, is what its specification shows.
\<close>

fun trace :: "('e \<Rightarrow> 's \<Rightarrow> 'o \<times> 's) \<Rightarrow> 'e list \<Rightarrow> 's \<Rightarrow> 'o list \<times> 's" where
  "trace step [] s = ([], s)"
| "trace step (e # es) s =
     (let (out, s1) = step e s; (outs, s2) = trace step es s1 in (out # outs, s2))"

lemma trace_length: "length (fst (trace step es s)) = length es"
  by (induction es arbitrary: s) (simp_all add: Let_def case_prod_unfold)

lemma trace_Cons_simps:
  "fst (trace step (e # es) s) = fst (step e s) # fst (trace step es (snd (step e s)))"
  "snd (trace step (e # es) s) = snd (trace step es (snd (step e s)))"
  by (simp_all add: Let_def case_prod_unfold)

lemma trace_append:
  "trace step (xs @ ys) s =
     (let (o1, s1) = trace step xs s; (o2, s2) = trace step ys s1 in (o1 @ o2, s2))"
  by (induction xs arbitrary: s) (simp_all add: Let_def case_prod_unfold)

lemma trace_state: "snd (trace step es s) = fold (\<lambda>e s. snd (step e s)) es s"
proof (induction es arbitrary: s)
  case (Cons e es)
  then show ?case by (simp add: trace_Cons_simps del: trace.simps)
qed simp

text \<open>
  The balance of a descriptor in a log of events, where \<open>d fd e\<close> is how often the event opens the
  descriptor minus how often it closes it. A balance of zero: closed exactly as often as opened.
\<close>

definition fd_balance :: "(int \<Rightarrow> 'e \<Rightarrow> int) \<Rightarrow> int \<Rightarrow> 'e list \<Rightarrow> int" where
  "fd_balance d fd lg = sum_list (map (d fd) lg)"

lemma fd_balance_simps [simp]:
  "fd_balance d fd [] = 0"
  "fd_balance d fd (e # es) = d fd e + fd_balance d fd es"
  "fd_balance d fd (xs @ ys) = fd_balance d fd xs + fd_balance d fd ys"
  by (simp_all add: fd_balance_def)

lemma fd_balance_opens: "(\<And>f. d fd (opn f) = (if f = fd then 1 else 0)) \<Longrightarrow> fd_balance d fd (map opn xs) = int (count_list xs fd)"
  by (induction xs) auto

lemma fd_balance_closes: "(\<And>f. d fd (cls f) = (if f = fd then -1 else 0)) \<Longrightarrow> fd_balance d fd (map cls xs) = - int (count_list xs fd)"
  by (induction xs) auto

locale simulation =
  fixes cstep :: "'e \<Rightarrow> 'c \<Rightarrow> 'o \<times> 'c"
    and astep :: "'e \<Rightarrow> 'a \<Rightarrow> 'o \<times> 'a"
    and R :: "'c \<Rightarrow> 'a \<Rightarrow> bool"
    and ok :: "'e \<Rightarrow> bool"
  assumes sim_out: "R c a \<Longrightarrow> ok e \<Longrightarrow> fst (cstep e c) = fst (astep e a)"
    and sim_next: "R c a \<Longrightarrow> ok e \<Longrightarrow> R (snd (cstep e c)) (snd (astep e a))"
begin

lemma trace_sim:
  "R c a \<Longrightarrow> list_all ok es \<Longrightarrow>
    fst (trace cstep es c) = fst (trace astep es a) \<and> R (snd (trace cstep es c)) (snd (trace astep es a))"
proof (induction es arbitrary: c a)
  case (Cons e es)
  then show ?case
    using Cons.IH [of "snd (cstep e c)" "snd (astep e a)"] sim_out [of c a e] sim_next [of c a e]
    by (simp add: trace_Cons_simps del: trace.simps)
qed simp

end

end
