(* ===== verification/Posix_IO.thy ===== *)
theory Posix_IO
  imports Prelude "HOL-Library.Sublist"
begin

text \<open>
  What the sources use of \<open>read(2)\<close>, \<open>recv(2)\<close>, \<open>write(2)\<close> and \<open>send(2)\<close>. A descriptor
  open for reading is the byte stream its peer sends before closing; a descriptor open for
  writing is the list of bytes accepted so far. How the kernel serves each call is not
  determined by the program, so every loop takes a schedule: the outcomes of its successive
  calls, one event per call. A schedule that runs out means the thread is still blocked in its
  next call, and the loop's value is \<open>None\<close>. A positive return is between one byte and the
  bytes asked for or available; zero from a read means end of file.

  The same retry loop occurs several times in the sources, with different return codes. The
  locales \<open>exact_reader\<close> and \<open>exact_writer\<close> state what all these loops share; the
  component theories interpret them for \<open>read_all\<close>, \<open>recv_all\<close>, \<open>write_all\<close>, \<open>send_all\<close> and
  the other copies.
\<close>

section \<open>Reading\<close>

datatype rd_event = RdChunk nat | RdEintr | RdFail

datatype rd_result = RdData "byte list" | RdIntr | RdErr

fun sys_read :: "rd_event \<Rightarrow> nat \<Rightarrow> byte list \<Rightarrow> rd_result" where
  "sys_read (RdChunk k) len inp = RdData (take (min (Suc k) len) inp)"
| "sys_read RdEintr len inp = RdIntr"
| "sys_read RdFail len inp = RdErr"

definition rd_chunks :: "rd_event list \<Rightarrow> nat" where
  "rd_chunks es = length (filter (\<lambda>e. e \<noteq> RdEintr \<and> e \<noteq> RdFail) es)"

lemma rd_chunks_simps [simp]:
  "rd_chunks [] = 0"
  "rd_chunks (RdChunk k # es) = Suc (rd_chunks es)"
  "rd_chunks (RdEintr # es) = rd_chunks es"
  "rd_chunks (RdFail # es) = rd_chunks es"
  by (simp_all add: rd_chunks_def)

lemma chunk_length:
  fixes inp :: "byte list"
  assumes "n = Suc m" "inp \<noteq> []"
  obtains j where "0 < j" "j \<le> n" "j \<le> length inp" "take (min (Suc k) n) inp = take j inp"
proof
  let ?j = "min (min (Suc k) n) (length inp)"
  show "0 < ?j" "?j \<le> n" "?j \<le> length inp" "take (min (Suc k) n) inp = take ?j inp"
    using assms by (auto simp: min_def)
qed

text \<open>
  The contract of a retry loop that reads exactly \<open>n\<close> bytes: \<open>rdall es n inp\<close> is the
  return code, the bytes stored in the buffer, the rest of the stream and the rest of the
  schedule.
\<close>

locale exact_reader =
  fixes rdall :: "rd_event list \<Rightarrow> nat \<Rightarrow> byte list \<Rightarrow>
      ('r \<times> byte list \<times> byte list \<times> rd_event list) option"
    and ok eof err :: 'r
  assumes rdall_zero: "rdall es 0 inp = Some (ok, [], inp, es)"
    and rdall_blocked: "rdall [] (Suc n) inp = None"
    and rdall_call: "rdall (e # es) (Suc n) inp =
      (case sys_read e (Suc n) inp of
         RdIntr \<Rightarrow> rdall es (Suc n) inp
       | RdErr \<Rightarrow> Some (err, [], inp, es)
       | RdData bs \<Rightarrow>
           if bs = [] then Some (eof, [], inp, es)
           else map_option (\<lambda>(r, got, rest, es'). (r, bs @ got, rest, es'))
                  (rdall es (Suc n - length bs) (drop (length bs) inp)))"
    and codes: "ok \<noteq> eof" "ok \<noteq> err"
begin

lemma rdall_ok:
  assumes "rdall es n inp = Some (r, got, rest, es')" and "r = ok"
  shows "got = take n inp \<and> rest = drop n inp \<and> n \<le> length inp \<and>
    rd_chunks es \<le> rd_chunks es' + n \<and> set es' \<subseteq> set es"
  using assms(1)
proof (induction es arbitrary: n inp got)
  case Nil
  with assms(2) codes show ?case by (cases n) (auto simp: rdall_zero rdall_blocked)
next
  case (Cons e es)
  show ?case
  proof (cases n)
    case 0
    with Cons.prems assms(2) show ?thesis by (auto simp: rdall_zero)
  next
    case (Suc m)
    show ?thesis
    proof (cases e)
      case (RdChunk k)
      from Cons.prems RdChunk Suc assms(2) codes have "inp \<noteq> []"
        by (auto simp: rdall_call split: if_splits)
      with Suc obtain j where j: "0 < j" "j \<le> n" "j \<le> length inp"
        and bs: "take (min (Suc k) n) inp = take j inp"
        by (rule chunk_length)
      from Cons.prems RdChunk Suc j bs obtain got' where
        rec: "rdall es (n - j) (drop j inp) = Some (r, got', rest, es')"
        and got: "got = take j inp @ got'"
        by (auto simp: rdall_call min_absorb2 split: if_splits)
      from Cons.IH [OF rec] have "got' = take (n - j) (drop j inp)" "rest = drop n inp"
        "n \<le> length inp" "rd_chunks es \<le> rd_chunks es' + (n - j)" "set es' \<subseteq> set es"
        using j by auto
      then show ?thesis using j RdChunk got take_add [of j "n - j" inp] by auto
    next
      case RdEintr
      with Cons.prems Suc have "rdall es n inp = Some (r, got, rest, es')"
        by (simp add: rdall_call)
      from Cons.IH [OF this] RdEintr show ?thesis by auto
    next
      case RdFail
      with Cons.prems Suc assms(2) codes show ?thesis by (auto simp: rdall_call)
    qed
  qed
qed

text \<open>Every call uses up an event.\<close>

lemma rdall_shorter:
  "rdall es n inp = Some (r, got, rest, es') \<Longrightarrow> length es' \<le> length es \<and> (0 < n \<longrightarrow> length es' < length es)"
proof (induction es arbitrary: n inp got)
  case Nil
  then show ?case by (cases n) (auto simp: rdall_zero rdall_blocked)
next
  case (Cons e es)
  show ?case
  proof (cases n)
    case 0
    with Cons.prems show ?thesis by (simp add: rdall_zero)
  next
    case (Suc m)
    with Cons.prems show ?thesis
      using Cons.IH by (fastforce simp: rdall_call split: rd_result.splits if_splits)
  qed
qed

text \<open>Whatever the chunking, enough successful calls read the whole run.\<close>

lemma rdall_complete:
  assumes "RdFail \<notin> set es" "n \<le> rd_chunks es" "n \<le> length inp"
  shows "\<exists>es'. rdall es n inp = Some (ok, take n inp, drop n inp, es')"
proof -
  have "\<exists>got rest es'. rdall es n inp = Some (ok, got, rest, es')"
    using assms
  proof (induction es arbitrary: n inp)
    case Nil
    then show ?case by (simp add: rdall_zero)
  next
    case (Cons e es)
    show ?case
    proof (cases n)
      case 0
      then show ?thesis by (simp add: rdall_zero)
    next
      case (Suc m)
      show ?thesis
      proof (cases e)
        case (RdChunk k)
        have "inp \<noteq> []" using Suc Cons.prems by auto
        with Suc obtain j where j: "0 < j" "j \<le> n" "j \<le> length inp"
          and bs: "take (min (Suc k) n) inp = take j inp"
          by (rule chunk_length)
        have "\<exists>got rest es'. rdall es (n - j) (drop j inp) = Some (ok, got, rest, es')"
          using Cons.prems RdChunk j by (intro Cons.IH) auto
        then show ?thesis using RdChunk Suc j bs by (auto simp: rdall_call min_absorb2)
      next
        case RdEintr
        with Cons Suc show ?thesis by (auto simp: rdall_call)
      next
        case RdFail
        with Cons.prems show ?thesis by simp
      qed
    qed
  qed
  then show ?thesis using rdall_ok by blast
qed

text \<open>A stream that is shorter than the run is reported as end of file.\<close>

lemma rdall_short:
  assumes "RdFail \<notin> set es" "length inp < rd_chunks es" "length inp < n"
  shows "\<exists>es'. rdall es n inp = Some (eof, inp, [], es')"
  using assms
proof (induction es arbitrary: n inp)
  case Nil
  then show ?case by simp
next
  case (Cons e es)
  then obtain m where n: "n = Suc m" by (cases n) auto
  show ?case
  proof (cases e)
    case (RdChunk k)
    show ?thesis
    proof (cases "inp = []")
      case True
      with RdChunk n show ?thesis by (simp add: rdall_call)
    next
      case False
      with n obtain j where j: "0 < j" "j \<le> n" "j \<le> length inp"
        and bs: "take (min (Suc k) n) inp = take j inp"
        by (rule chunk_length)
      have "\<exists>es'. rdall es (n - j) (drop j inp) = Some (eof, drop j inp, [], es')"
        using Cons.prems RdChunk j by (intro Cons.IH) auto
      with RdChunk n j bs show ?thesis by (auto simp: rdall_call min_absorb2)
    qed
  next
    case RdEintr
    with Cons n show ?thesis by (auto simp: rdall_call)
  next
    case RdFail
    with Cons.prems show ?thesis by simp
  qed
qed

end

section \<open>Writing\<close>

datatype wr_event = WrChunk nat | WrZero | WrEintr | WrFail

datatype wr_result = WrCount nat | WrIntr | WrErr

fun sys_write :: "wr_event \<Rightarrow> byte list \<Rightarrow> wr_result" where
  "sys_write (WrChunk k) buf = WrCount (min (Suc k) (length buf))"
| "sys_write WrZero buf = WrCount 0"
| "sys_write WrEintr buf = WrIntr"
| "sys_write WrFail buf = WrErr"

definition wr_chunks :: "wr_event list \<Rightarrow> nat" where
  "wr_chunks es = length (filter (\<lambda>e. e \<noteq> WrEintr \<and> e \<noteq> WrFail \<and> e \<noteq> WrZero) es)"

definition wr_reliable :: "wr_event list \<Rightarrow> bool" where
  "wr_reliable es \<longleftrightarrow> WrFail \<notin> set es \<and> WrZero \<notin> set es"

lemma wr_chunks_simps [simp]:
  "wr_chunks [] = 0"
  "wr_chunks (WrChunk k # es) = Suc (wr_chunks es)"
  "wr_chunks (WrZero # es) = wr_chunks es"
  "wr_chunks (WrEintr # es) = wr_chunks es"
  "wr_chunks (WrFail # es) = wr_chunks es"
  by (simp_all add: wr_chunks_def)

lemma wr_reliable_simps [simp]:
  "wr_reliable []"
  "wr_reliable (e # es) \<longleftrightarrow> e \<noteq> WrFail \<and> e \<noteq> WrZero \<and> wr_reliable es"
  by (auto simp: wr_reliable_def)

text \<open>
  The contract of a retry loop that writes a whole buffer: \<open>wrall es buf\<close> is the return
  code, the bytes the descriptor accepted and the rest of the schedule.
\<close>

locale exact_writer =
  fixes wrall :: "wr_event list \<Rightarrow> byte list \<Rightarrow> ('r \<times> byte list \<times> wr_event list) option"
    and ok err :: 'r
  assumes wrall_empty: "wrall es [] = Some (ok, [], es)"
    and wrall_blocked: "wrall [] (b # buf) = None"
    and wrall_count: "sys_write (WrChunk k) (b # buf) = WrCount n \<Longrightarrow>
      wrall (WrChunk k # es) (b # buf) =
        map_option (\<lambda>(r, out, es'). (r, take n (b # buf) @ out, es'))
          (wrall es (drop n (b # buf)))"
    and wrall_eintr: "wrall (WrEintr # es) (b # buf) = wrall es (b # buf)"
    and wrall_fail: "wrall (WrFail # es) (b # buf) = Some (err, [], es)"
    and wrall_zero: "wrall (WrZero # es) (b # buf) \<noteq> None \<Longrightarrow>
      wrall (WrZero # es) (b # buf) = Some (err, [], es) \<or>
      wrall (WrZero # es) (b # buf) = wrall es (b # buf)"
    and wr_codes: "ok \<noteq> err"
begin

lemma wrall_chunk:
  "wrall (WrChunk k # es) (b # buf) =
     map_option (\<lambda>(r, out, es'). (r, take (Suc k) (b # buf) @ out, es'))
       (wrall es (drop (Suc k) (b # buf)))"
proof (cases "k \<le> length buf")
  case True
  then show ?thesis by (subst wrall_count [of k b buf "Suc k"]) (auto simp: min_def)
next
  case False
  then show ?thesis by (subst wrall_count [of k b buf "Suc (length buf)"]) (auto simp: min_def)
qed

lemma wrall_prefix:
  "wrall es buf = Some (r, out, es') \<Longrightarrow> prefix out buf \<and> (r = ok \<longrightarrow> out = buf)"
proof (induction es arbitrary: buf out)
  case Nil
  then show ?case by (cases buf) (auto simp: wrall_empty wrall_blocked)
next
  case (Cons e es)
  show ?case
  proof (cases buf)
    case Nil
    with Cons.prems show ?thesis by (auto simp: wrall_empty)
  next
    case (Cons b bs)
    show ?thesis
    proof (cases e)
      case (WrChunk k)
      with Cons Cons.prems obtain out' where
        rec: "wrall es (drop (Suc k) buf) = Some (r, out', es')"
        and out: "out = take (Suc k) buf @ out'"
        by (auto simp: wrall_chunk)
      from Cons.IH [OF rec] out show ?thesis
        by (metis append_take_drop_id same_prefix_prefix)
    next
      case WrZero
      with Cons Cons.prems wrall_zero [of es b bs] wr_codes Cons.IH show ?thesis by auto
    qed (use Cons Cons.prems wr_codes Cons.IH in \<open>auto simp: wrall_eintr wrall_fail\<close>)
  qed
qed

lemma wrall_complete:
  assumes "wr_reliable es" "length buf \<le> wr_chunks es"
  shows "\<exists>es'. wrall es buf = Some (ok, buf, es')"
  using assms
proof (induction es arbitrary: buf)
  case Nil
  then show ?case by (simp add: wrall_empty)
next
  case (Cons e es)
  show ?case
  proof (cases buf)
    case Nil
    then show ?thesis by (simp add: wrall_empty)
  next
    case (Cons b bs)
    show ?thesis
    proof (cases e)
      case (WrChunk k)
      with Cons Cons.prems have "\<exists>es'. wrall es (drop (Suc k) buf) = Some (ok, drop (Suc k) buf, es')"
        by (intro Cons.IH) auto
      with WrChunk Cons show ?thesis by (auto simp: wrall_chunk)
    qed (use Cons Cons.prems Cons.IH in \<open>auto simp: wrall_eintr\<close>)
  qed
qed

lemma wrall_used:
  assumes "wrall es buf = Some (r, out, es')" "r = ok"
  shows "wr_chunks es \<le> wr_chunks es' + length buf \<and> set es' \<subseteq> set es"
  using assms
proof (induction es arbitrary: buf out)
  case Nil
  then show ?case by (cases buf) (auto simp: wrall_empty wrall_blocked)
next
  case (Cons e es)
  show ?case
  proof (cases buf)
    case Nil
    with Cons.prems show ?thesis by (auto simp: wrall_empty)
  next
    case (Cons b bs)
    show ?thesis
    proof (cases e)
      case (WrChunk k)
      with Cons Cons.prems obtain out' where
        rec: "wrall es (drop (Suc k) buf) = Some (r, out', es')"
        by (auto simp: wrall_chunk)
      from Cons.IH [OF rec Cons.prems(2)] WrChunk Cons show ?thesis by auto
    next
      case WrZero
      with Cons Cons.prems wrall_zero [of es b bs] wr_codes have "wrall es buf = Some (r, out, es')"
        by auto
      from Cons.IH [OF this Cons.prems(2)] WrZero show ?thesis by auto
    next
      case WrEintr
      with Cons Cons.prems have "wrall es buf = Some (r, out, es')" by (simp add: wrall_eintr)
      from Cons.IH [OF this Cons.prems(2)] WrEintr show ?thesis by auto
    qed (use Cons Cons.prems wr_codes in \<open>auto simp: wrall_fail\<close>)
  qed
qed

end

end
