(* ===== verification/Crc32.thy ===== *)
theory Crc32
  imports Prelude
begin

text \<open>
  The CRC-32 of \<open>protocol/embedded_protocol.c\<close>, used by the packet protocol and by the firmware
  images. The lemmas show that the checksum can be computed in pieces, that each turn of its
  loop is linear and injective, and that it detects every corruption confined to four
  consecutive bytes.
\<close>

section \<open>CRC-32\<close>

definition mlrt_crc32_begin :: u32 where
  "mlrt_crc32_begin = 0xFFFFFFFF"

text \<open>One turn of the inner loop; \<open>mask\<close> is all ones exactly when the low bit is set.\<close>

definition crc32_bit :: "u32 \<Rightarrow> u32" where
  "crc32_bit state =
     (let mask = - (state AND 1) in drop_bit 1 state XOR (0xEDB88320 AND mask))"

definition crc32_byte :: "u32 \<Rightarrow> byte \<Rightarrow> u32" where
  "crc32_byte state b = (crc32_bit ^^ 8) (state XOR ucast b)"

definition mlrt_crc32_update :: "u32 \<Rightarrow> byte list \<Rightarrow> u32" where
  "mlrt_crc32_update state data = foldl crc32_byte state data"

definition mlrt_crc32_end :: "u32 \<Rightarrow> u32" where
  "mlrt_crc32_end state = state XOR 0xFFFFFFFF"

definition mlrt_crc32 :: "byte list \<Rightarrow> u32" where
  "mlrt_crc32 data = mlrt_crc32_end (mlrt_crc32_update mlrt_crc32_begin data)"

section \<open>The bit step is linear and injective\<close>

lemma crc32_bit_alt:
  "crc32_bit s = (if odd s then drop_bit 1 s XOR 0xEDB88320 else drop_bit 1 s)"
proof -
  have "s AND 1 = (if odd s then 1 else 0)"
    by (simp add: and_one_eq odd_iff_mod_2_eq_one)
  then show ?thesis by (simp add: crc32_bit_def)
qed

lemma crc32_byte_unroll:
  "crc32_byte s b = crc32_bit (crc32_bit (crc32_bit (crc32_bit (crc32_bit (crc32_bit
     (crc32_bit (crc32_bit (s XOR ucast b))))))))"
  by (simp add: crc32_byte_def eval_nat_numeral)

text \<open>Equations by which a closed checksum evaluates.\<close>

lemmas crc32_eval = mlrt_crc32_def mlrt_crc32_begin_def mlrt_crc32_update_def mlrt_crc32_end_def
  crc32_byte_unroll crc32_bit_alt

lemma crc32_bit_xor: "crc32_bit (s XOR t) = crc32_bit s XOR crc32_bit t"
proof (rule bit_word_eqI)
  fix n
  show "bit (crc32_bit (s XOR t)) n = bit (crc32_bit s XOR crc32_bit t) n"
    by (auto simp: crc32_bit_alt bit_simps even_xor_iff simp flip: bit_0)
qed

lemma crc32_bit_top: "bit (crc32_bit s) 31 = odd s"
  using bit_imp_le_length [of s 32] by (auto simp: crc32_bit_alt bit_simps)

lemma crc32_bit_inj: "crc32_bit s = crc32_bit t \<Longrightarrow> s = t"
proof -
  assume eq: "crc32_bit s = crc32_bit t"
  then have odd: "odd s = odd t" by (metis crc32_bit_top)
  with eq have shift: "drop_bit 1 s = drop_bit 1 t"
    by (auto simp: crc32_bit_alt split: if_splits)
  show "s = t"
  proof (rule bit_word_eqI)
    fix n
    show "bit s n = bit t n"
    proof (cases n)
      case 0
      with odd show ?thesis by (simp add: bit_0)
    next
      case (Suc m)
      with arg_cong [OF shift, of "\<lambda>w. bit w m"] show ?thesis by (simp add: bit_simps)
    qed
  qed
qed

lemma crc32_bits_inj: "(crc32_bit ^^ n) s = (crc32_bit ^^ n) t \<Longrightarrow> s = t"
  by (induction n arbitrary: s t) (auto dest: crc32_bit_inj)

lemma crc32_bits_xor: "(crc32_bit ^^ n) (s XOR t) = (crc32_bit ^^ n) s XOR (crc32_bit ^^ n) t"
  by (induction n) (simp_all add: crc32_bit_xor)

lemma bit_double: "bit (v * 2) i \<longleftrightarrow> 0 < i \<and> i < 32 \<and> bit v (i - 1)" for v :: u32
  using bit_push_bit_iff [of 1 v i] bit_imp_le_length [of "v * 2" i] by (auto simp: not_less)

lemma crc32_bit_push:
  assumes "\<not> bit v 31"
  shows "crc32_bit (push_bit 1 v) = v"
proof (rule bit_word_eqI)
  fix n assume n: "n < LENGTH(32)"
  show "bit (crc32_bit (push_bit 1 v)) n = bit v n"
    using assms n by (cases "n = 31") (auto simp: crc32_bit_alt bit_drop_bit_eq bit_double)
qed

lemma crc32_bits_push:
  assumes "\<And>i. 32 - n \<le> i \<Longrightarrow> \<not> bit v i"
  shows "(crc32_bit ^^ n) (push_bit n v) = v"
  using assms
proof (induction n arbitrary: v)
  case 0
  then show ?case by simp
next
  case (Suc n)
  have "(crc32_bit ^^ n) (push_bit n (push_bit 1 v)) = push_bit 1 v"
  proof (rule Suc.IH)
    fix i assume "32 - n \<le> i"
    with Suc.prems [of "i - 1"] show "\<not> bit (push_bit 1 v) i" by (auto simp: bit_double)
  qed
  moreover have "\<not> bit v 31" using Suc.prems by simp
  ultimately show ?case
    using crc32_bit_push [of v] by (simp add: push_bit_push_bit add.commute)
qed

section \<open>Checksums of concatenations\<close>

lemma mlrt_crc32_update_append:
  "mlrt_crc32_update s (xs @ ys) = mlrt_crc32_update (mlrt_crc32_update s xs) ys"
  by (simp add: mlrt_crc32_update_def)

lemma crc32_byte_inj_state: "crc32_byte s b = crc32_byte t b \<Longrightarrow> s = t"
proof -
  assume "crc32_byte s b = crc32_byte t b"
  then have "s XOR ucast b = t XOR ucast b"
    unfolding crc32_byte_def by (rule crc32_bits_inj)
  then show "s = t" by simp
qed

lemma mlrt_crc32_update_inj: "mlrt_crc32_update s xs = mlrt_crc32_update t xs \<Longrightarrow> s = t"
  by (induction xs arbitrary: s t) (auto simp: mlrt_crc32_update_def dest: crc32_byte_inj_state)

text \<open>
  A run of at most four bytes acts as one word XORed into the state: \<open>le_word\<close> is that word,
  its first byte in the low bits.
\<close>

fun le_word :: "byte list \<Rightarrow> u32" where
  "le_word [] = 0"
| "le_word (b # bs) = ucast b XOR push_bit 8 (le_word bs)"

lemma le_word_bits: "8 * length bs \<le> i \<Longrightarrow> \<not> bit (le_word bs) i"
  by (induction bs arbitrary: i) (auto simp: bit_simps dest: bit_imp_le_length)

lemma mlrt_crc32_update_word:
  "length bs \<le> 4 \<Longrightarrow>
     mlrt_crc32_update s bs = (crc32_bit ^^ (8 * length bs)) (s XOR le_word bs)"
proof (induction bs arbitrary: s)
  case Nil
  then show ?case by (simp add: mlrt_crc32_update_def)
next
  case (Cons b bs)
  have low: "(crc32_bit ^^ 8) (push_bit 8 (le_word bs)) = le_word bs"
    using Cons.prems by (intro crc32_bits_push le_word_bits) auto
  have "mlrt_crc32_update s (b # bs) = mlrt_crc32_update (crc32_byte s b) bs"
    by (simp add: mlrt_crc32_update_def)
  also have "\<dots> = (crc32_bit ^^ (8 * length bs)) (crc32_byte s b XOR le_word bs)"
    using Cons by simp
  also have "crc32_byte s b XOR le_word bs = (crc32_bit ^^ 8) (s XOR le_word (b # bs))"
    using low by (simp add: crc32_byte_def crc32_bits_xor flip: xor.assoc)
  finally show ?case by (simp add: funpow_add add.commute [of 8])
qed

lemma le_word_inj:
  "length xs = length ys \<Longrightarrow> length xs \<le> 4 \<Longrightarrow> le_word xs = le_word ys \<Longrightarrow> xs = ys"
proof (induction xs ys rule: list_induct2)
  case Nil
  then show ?case by simp
next
  case (Cons x xs y ys)
  have eq: "bit (ucast x XOR push_bit 8 (le_word xs)) i = bit (ucast y XOR push_bit 8 (le_word ys)) i" for i
    using Cons.prems by simp
  have "x = y"
  proof (rule bit_word_eqI)
    fix n assume "n < LENGTH(8)"
    with eq [of n] show "bit x n = bit y n" by (auto simp: bit_simps)
  qed
  moreover have "le_word xs = le_word ys"
  proof (rule bit_word_eqI)
    fix n assume n: "n < LENGTH(32)"
    show "bit (le_word xs) n = bit (le_word ys) n"
    proof (cases "n < 24")
      case True
      with eq [of "n + 8"] show ?thesis by (auto simp: bit_simps dest: bit_imp_le_length)
    next
      case False
      then show ?thesis using Cons.prems Cons.hyps le_word_bits [of xs n] le_word_bits [of ys n] by auto
    qed
  qed
  ultimately show ?case using Cons by simp
qed

lemma crc32_burst_detected:
  assumes "length xs = length ys" "length xs \<le> 4" "xs \<noteq> ys"
  shows "mlrt_crc32 (pre @ xs @ post) \<noteq> mlrt_crc32 (pre @ ys @ post)"
proof
  assume eq: "mlrt_crc32 (pre @ xs @ post) = mlrt_crc32 (pre @ ys @ post)"
  let ?s = "mlrt_crc32_update mlrt_crc32_begin pre"
  from eq have "mlrt_crc32_update mlrt_crc32_begin (pre @ xs @ post)
      = mlrt_crc32_update mlrt_crc32_begin (pre @ ys @ post)"
    by (simp add: mlrt_crc32_def mlrt_crc32_end_def)
  then have "mlrt_crc32_update ?s xs = mlrt_crc32_update ?s ys"
    by (auto simp: mlrt_crc32_update_append dest: mlrt_crc32_update_inj)
  then have "?s XOR le_word xs = ?s XOR le_word ys"
    using assms by (auto simp: mlrt_crc32_update_word dest: crc32_bits_inj)
  then have "le_word xs = le_word ys" by simp
  with assms show False using le_word_inj [of xs ys] by simp
qed

section \<open>Changes that reach into a stored checksum\<close>

text \<open>
  A change of the last bytes of the data changes the checksum by a word that depends linearly on the
  change. The next lemmas show how few of these words vanish in their low bytes: the images of the
  eight bits of a byte span all others.
\<close>

abbreviation pick :: "bool \<Rightarrow> u32 \<Rightarrow> u32" where
  "pick a c \<equiv> (if a then c else 0)"

lemma pick_bit: "bit (pick a c) n \<longleftrightarrow> a \<and> bit c n"
  by simp

lemma byte_span:
  fixes b :: u32
  assumes "\<And>i. 8 \<le> i \<Longrightarrow> \<not> bit b i"
  shows "b = pick (bit b 0) 0x1 XOR pick (bit b 1) 0x2 XOR pick (bit b 2) 0x4 XOR pick (bit b 3) 0x8 XOR pick (bit b 4) 0x10 XOR pick (bit b 5) 0x20 XOR pick (bit b 6) 0x40 XOR pick (bit b 7) 0x80"
proof (rule bit_word_eqI)
  fix n assume "n < LENGTH(32)"
  show "bit b n = bit (pick (bit b 0) 0x1 XOR pick (bit b 1) 0x2 XOR pick (bit b 2) 0x4 XOR pick (bit b 3) 0x8 XOR pick (bit b 4) 0x10 XOR pick (bit b 5) 0x20 XOR pick (bit b 6) 0x40 XOR pick (bit b 7) 0x80) n"
  proof (cases "n < 8")
    case True
    then have "n \<in> {0, 1, 2, 3, 4, 5, 6, 7}" by auto
    then show ?thesis by (elim insertE) (simp_all only: bit_xor_iff pick_bit, simp_all)
  next
    case False
    with assms have "\<not> bit b n" by simp
    moreover have "\<not> bit (take_bit 8 c) n" for c :: u32 using False by (simp add: bit_take_bit_iff)
    from this [of 1] this [of 2] this [of 4] this [of 8] this [of 16] this [of 32] this [of 64] this [of 128]
    have "\<not> bit (1 :: u32) n" "\<not> bit (2 :: u32) n" "\<not> bit (4 :: u32) n" "\<not> bit (8 :: u32) n" "\<not> bit (16 :: u32) n"
      "\<not> bit (32 :: u32) n" "\<not> bit (64 :: u32) n" "\<not> bit (128 :: u32) n" by simp_all
    ultimately show ?thesis by (simp only: bit_xor_iff pick_bit) simp
  qed
qed

lemma crc32_bits_zero: "(crc32_bit ^^ n) 0 = 0"
  by (induction n) (simp_all add: crc32_bit_alt)

lemma pick_bits: "(crc32_bit ^^ n) (pick a c) = pick a ((crc32_bit ^^ n) c)"
  by (cases a) (simp_all add: crc32_bits_zero)

lemma crc32_bits_eval: "(crc32_bit ^^ numeral k) x = (crc32_bit ^^ pred_numeral k) (crc32_bit x)"
    "(crc32_bit ^^ Suc n) x = (crc32_bit ^^ n) (crc32_bit x)" "(crc32_bit ^^ 0) x = x"
  by (simp_all add: numeral_eq_Suc funpow_Suc_right del: funpow.simps(2))

lemma crc32_images8: "(crc32_bit ^^ 8) 0x1 = 0x77073096" "(crc32_bit ^^ 8) 0x2 = 0xEE0E612C" "(crc32_bit ^^ 8) 0x4 = 0x76DC419" "(crc32_bit ^^ 8) 0x8 = 0xEDB8832" "(crc32_bit ^^ 8) 0x10 = 0x1DB71064" "(crc32_bit ^^ 8) 0x20 = 0x3B6E20C8" "(crc32_bit ^^ 8) 0x40 = 0x76DC4190" "(crc32_bit ^^ 8) 0x80 = 0xEDB88320"
  by (simp_all add: crc32_bits_eval crc32_bit_alt del: funpow.simps)
lemma crc32_images16: "(crc32_bit ^^ 16) 0xCACF972A = 0x1000000" "(crc32_bit ^^ 16) 0x4EEE2815 = 0x2000000" "(crc32_bit ^^ 16) 0x9DDC502A = 0x4000000" "(crc32_bit ^^ 16) 0xE0C9A615 = 0x8000000" "(crc32_bit ^^ 16) 0x1AE24A6B = 0x10000000" "(crc32_bit ^^ 16) 0x35C494D6 = 0x20000000" "(crc32_bit ^^ 16) 0x6B8929AC = 0x40000000" "(crc32_bit ^^ 16) 0xD7125358 = 0x80000000"
  by (simp_all add: crc32_bits_eval crc32_bit_alt del: funpow.simps)
lemma crc32_images24: "(crc32_bit ^^ 24) 0x7555A0F1 = 0x1000000" "(crc32_bit ^^ 24) 0xEAAB41E2 = 0x2000000" "(crc32_bit ^^ 24) 0xE278585 = 0x4000000" "(crc32_bit ^^ 24) 0x1C4F0B0A = 0x8000000" "(crc32_bit ^^ 24) 0x389E1614 = 0x10000000" "(crc32_bit ^^ 24) 0x713C2C28 = 0x20000000" "(crc32_bit ^^ 24) 0xE2785850 = 0x40000000" "(crc32_bit ^^ 24) 0x1F81B6E1 = 0x80000000"
  by (simp_all add: crc32_bits_eval crc32_bit_alt del: funpow.simps)

lemma crc32_span8: "(pick a0 0x77073096 XOR pick a1 0xEE0E612C XOR pick a2 0x76DC419 XOR pick a3 0xEDB8832 XOR pick a4 0x1DB71064 XOR pick a5 0x3B6E20C8 XOR pick a6 0x76DC4190 XOR pick a7 0xEDB88320) AND 0xFF = 0 \<Longrightarrow> \<not> a0 \<and> \<not> a1 \<and> \<not> a2 \<and> \<not> a3 \<and> \<not> a4 \<and> \<not> a5 \<and> \<not> a6 \<and> \<not> a7"
  by (cases a0; cases a1; cases a2; cases a3; cases a4; cases a5; cases a6; cases a7; simp)
lemma crc32_span16: "(pick a0 0xCACF972A XOR pick a1 0x4EEE2815 XOR pick a2 0x9DDC502A XOR pick a3 0xE0C9A615 XOR pick a4 0x1AE24A6B XOR pick a5 0x35C494D6 XOR pick a6 0x6B8929AC XOR pick a7 0xD7125358) AND 0xFFFF0000 = 0 \<Longrightarrow> \<not> a0 \<and> \<not> a1 \<and> \<not> a2 \<and> \<not> a3 \<and> \<not> a4 \<and> \<not> a5 \<and> \<not> a6 \<and> \<not> a7"
  by (cases a0; cases a1; cases a2; cases a3; cases a4; cases a5; cases a6; cases a7; simp)
lemma crc32_span24: "(pick a0 0x7555A0F1 XOR pick a1 0xEAAB41E2 XOR pick a2 0xE278585 XOR pick a3 0x1C4F0B0A XOR pick a4 0x389E1614 XOR pick a5 0x713C2C28 XOR pick a6 0xE2785850 XOR pick a7 0x1F81B6E1) AND 0xFF000000 = 0 \<Longrightarrow> \<not> a0 \<and> \<not> a1 \<and> \<not> a2 \<and> \<not> a3 \<and> \<not> a4 \<and> \<not> a5 \<and> \<not> a6 \<and> \<not> a7"
  by (cases a0; cases a1; cases a2; cases a3; cases a4; cases a5; cases a6; cases a7; simp)

text \<open>Which changes of the last one, two or three bytes leave the low byte or the low three bytes alone: none.\<close>

lemma low_byte: "take_bit 8 w = w AND 0xFF" for w :: u32
  by (simp add: take_bit_eq_mask mask_eq_exp_minus_1)

lemma pick_push: "push_bit n (pick a c) = pick a (push_bit n c)"
  by simp

lemma no_bits_above: "32 \<le> i \<Longrightarrow> \<not> bit w i" for w :: u32
  using bit_imp_le_length [of w i] by auto

lemma crc32_tail1:
  assumes "\<And>i. 8 \<le> i \<Longrightarrow> \<not> bit d i" "take_bit 8 ((crc32_bit ^^ 8) d) = 0"
  shows "d = 0"
proof -
  have "(crc32_bit ^^ 8) d = pick (bit d 0) 0x77073096 XOR pick (bit d 1) 0xEE0E612C XOR pick (bit d 2) 0x76DC419 XOR pick (bit d 3) 0xEDB8832 XOR pick (bit d 4) 0x1DB71064 XOR pick (bit d 5) 0x3B6E20C8 XOR pick (bit d 6) 0x76DC4190 XOR pick (bit d 7) 0xEDB88320"
    by (subst byte_span [OF assms(1)]) (simp_all only: crc32_bits_xor pick_bits crc32_images8)
  with assms(2) have "(pick (bit d 0) 0x77073096 XOR pick (bit d 1) 0xEE0E612C XOR pick (bit d 2) 0x76DC419 XOR pick (bit d 3) 0xEDB8832 XOR pick (bit d 4) 0x1DB71064 XOR pick (bit d 5) 0x3B6E20C8 XOR pick (bit d 6) 0x76DC4190 XOR pick (bit d 7) 0xEDB88320) AND 0xFF = 0" by (simp only: low_byte)
  from crc32_span8 [OF this] show ?thesis by (subst byte_span [OF assms(1)]) simp_all
qed

lemma crc32_tail2:
  assumes "\<And>i. 16 \<le> i \<Longrightarrow> \<not> bit d i" "take_bit 24 ((crc32_bit ^^ 16) d) = 0"
  shows "d = 0"
proof -
  define b where "b = drop_bit 24 ((crc32_bit ^^ 16) d)"
  have b: "\<not> bit b i" if "8 \<le> i" for i using that by (simp add: b_def bit_drop_bit_eq no_bits_above)
  have z: "(crc32_bit ^^ 16) d = push_bit 24 b"
    using assms(2) bits_ident [of 24 "(crc32_bit ^^ 16) d"] by (simp add: b_def)
  have "push_bit 24 b = (crc32_bit ^^ 16) (pick (bit b 0) 0xCACF972A XOR pick (bit b 1) 0x4EEE2815 XOR pick (bit b 2) 0x9DDC502A XOR pick (bit b 3) 0xE0C9A615 XOR pick (bit b 4) 0x1AE24A6B XOR pick (bit b 5) 0x35C494D6 XOR pick (bit b 6) 0x6B8929AC XOR pick (bit b 7) 0xD7125358)"
    by (subst byte_span [OF b]) (simp_all only: crc32_bits_xor pick_bits crc32_images16, simp_all add: pick_push)
  with z have d: "d = pick (bit b 0) 0xCACF972A XOR pick (bit b 1) 0x4EEE2815 XOR pick (bit b 2) 0x9DDC502A XOR pick (bit b 3) 0xE0C9A615 XOR pick (bit b 4) 0x1AE24A6B XOR pick (bit b 5) 0x35C494D6 XOR pick (bit b 6) 0x6B8929AC XOR pick (bit b 7) 0xD7125358" by (metis crc32_bits_inj)
  have "take_bit 16 d = d" using assms(1) by (intro bit_word_eqI) (auto simp: bit_take_bit_iff not_less [symmetric])
  then have "d = d AND 0xFFFF" by (simp add: take_bit_eq_mask mask_eq_exp_minus_1)
  then have "d AND 0xFFFF0000 = (d AND 0xFFFF) AND 0xFFFF0000" by simp
  then have "d AND 0xFFFF0000 = 0" by (simp add: and.assoc)
  with crc32_span16 [of "bit b 0" "bit b 1" "bit b 2" "bit b 3" "bit b 4" "bit b 5" "bit b 6" "bit b 7"] d show ?thesis by simp
qed

lemma crc32_tail3:
  assumes "\<And>i. 24 \<le> i \<Longrightarrow> \<not> bit d i" "take_bit 24 ((crc32_bit ^^ 24) d) = 0"
  shows "d = 0"
proof -
  define b where "b = drop_bit 24 ((crc32_bit ^^ 24) d)"
  have b: "\<not> bit b i" if "8 \<le> i" for i using that by (simp add: b_def bit_drop_bit_eq no_bits_above)
  have z: "(crc32_bit ^^ 24) d = push_bit 24 b"
    using assms(2) bits_ident [of 24 "(crc32_bit ^^ 24) d"] by (simp add: b_def)
  have "push_bit 24 b = (crc32_bit ^^ 24) (pick (bit b 0) 0x7555A0F1 XOR pick (bit b 1) 0xEAAB41E2 XOR pick (bit b 2) 0xE278585 XOR pick (bit b 3) 0x1C4F0B0A XOR pick (bit b 4) 0x389E1614 XOR pick (bit b 5) 0x713C2C28 XOR pick (bit b 6) 0xE2785850 XOR pick (bit b 7) 0x1F81B6E1)"
    by (subst byte_span [OF b]) (simp_all only: crc32_bits_xor pick_bits crc32_images24, simp_all add: pick_push)
  with z have d: "d = pick (bit b 0) 0x7555A0F1 XOR pick (bit b 1) 0xEAAB41E2 XOR pick (bit b 2) 0xE278585 XOR pick (bit b 3) 0x1C4F0B0A XOR pick (bit b 4) 0x389E1614 XOR pick (bit b 5) 0x713C2C28 XOR pick (bit b 6) 0xE2785850 XOR pick (bit b 7) 0x1F81B6E1" by (metis crc32_bits_inj)
  have "take_bit 24 d = d" using assms(1) by (intro bit_word_eqI) (auto simp: bit_take_bit_iff not_less [symmetric])
  then have "d = d AND 0xFFFFFF" by (simp add: take_bit_eq_mask mask_eq_exp_minus_1)
  then have "d AND 0xFF000000 = (d AND 0xFFFFFF) AND 0xFF000000" by simp
  then have "d AND 0xFF000000 = 0" by (simp add: and.assoc)
  with crc32_span24 [of "bit b 0" "bit b 1" "bit b 2" "bit b 3" "bit b 4" "bit b 5" "bit b 6" "bit b 7"] d show ?thesis by simp
qed

text \<open>The checksums of two pieces of data that differ in their last bytes.\<close>

lemma crc32_tail_diff:
  assumes "length xs = length ys" "length xs \<le> 4"
  shows "mlrt_crc32 (pre @ xs) XOR mlrt_crc32 (pre @ ys) = (crc32_bit ^^ (8 * length xs)) (le_word xs XOR le_word ys)"
proof -
  let ?s = "mlrt_crc32_update mlrt_crc32_begin pre" and ?f = "crc32_bit ^^ (8 * length xs)"
  have "mlrt_crc32 (pre @ xs) = ?f ?s XOR ?f (le_word xs) XOR 0xFFFFFFFF" "mlrt_crc32 (pre @ ys) = ?f ?s XOR ?f (le_word ys) XOR 0xFFFFFFFF"
    using assms by (simp_all add: mlrt_crc32_def mlrt_crc32_end_def mlrt_crc32_update_append mlrt_crc32_update_word crc32_bits_xor xor.assoc)
  then show ?thesis by (simp add: crc32_bits_xor xor.left_commute xor.commute)
qed

lemma crc32_tail_detected:
  assumes len: "length xs = length ys" and k: "length xs = 1 \<and> m = 8 \<or> length xs = 2 \<and> m = 24 \<or> length xs = 3 \<and> m = 24"
    and eq: "take_bit m (mlrt_crc32 (pre @ xs)) = take_bit m (mlrt_crc32 (pre @ ys))"
  shows "xs = ys"
proof -
  let ?d = "le_word xs XOR le_word ys"
  have z: "take_bit m ((crc32_bit ^^ (8 * length xs)) ?d) = 0"
    using crc32_tail_diff [OF len, of pre, symmetric] k eq by (auto simp: take_bit_xor)
  have b: "\<not> bit ?d i" if "8 * length xs \<le> i" for i using that len le_word_bits [of xs i] le_word_bits [of ys i] by (simp add: bit_xor_iff)
  have "?d = 0" using k
  proof (elim disjE conjE)
    assume "length xs = 1" "m = 8" then show ?thesis using crc32_tail1 [of ?d] b z by simp
  next
    assume "length xs = 2" "m = 24" then show ?thesis using crc32_tail2 [of ?d] b z by simp
  next
    assume "length xs = 3" "m = 24" then show ?thesis using crc32_tail3 [of ?d] b z by simp
  qed
  then have "le_word xs = le_word ys" by (metis xor.left_neutral xor.right_neutral xor_self_eq xor.assoc)
  then show ?thesis using le_word_inj [OF len] k by auto
qed

end
