(* ===== verification/Embedded_Protocol.thy ===== *)
theory Embedded_Protocol
  imports Posix_IO Crc32
begin

text \<open>
  \<open>protocol/embedded_protocol.c\<close> with \<open>include/embedded_protocol.h\<close>: the CRC-32 framed packet
  protocol between host and target. The lemmas show the frame layout, the round trip through
  \<open>mlrt_packet_encode\<close>/\<open>mlrt_packet_decode\<close>, that decoding accepts nothing but encodings,
  and that a packet survives any chunking of the byte stream.
\<close>

section \<open>Big-endian integers\<close>

definition put_u16_be :: "u16 \<Rightarrow> byte list" where
  "put_u16_be v = [ucast (drop_bit 8 v), ucast v]"

definition put_u32_be :: "u32 \<Rightarrow> byte list" where
  "put_u32_be v =
     [ucast (drop_bit 24 v), ucast (drop_bit 16 v), ucast (drop_bit 8 v), ucast v]"

definition get_u16_be :: "byte list \<Rightarrow> u16" where
  "get_u16_be p = push_bit 8 (ucast (p ! 0)) OR ucast (p ! 1)"

definition get_u32_be :: "byte list \<Rightarrow> u32" where
  "get_u32_be p =
     push_bit 24 (ucast (p ! 0)) OR push_bit 16 (ucast (p ! 1)) OR
     push_bit 8 (ucast (p ! 2)) OR ucast (p ! 3)"

section \<open>Packets\<close>

definition MLRT_PROTO_MAGIC :: u16 where "MLRT_PROTO_MAGIC = 0xA55A"
definition MLRT_PROTO_VERSION :: byte where "MLRT_PROTO_VERSION = 1"
definition MLRT_PROTO_MAX_PAYLOAD :: nat where "MLRT_PROTO_MAX_PAYLOAD = 512"
definition MLRT_PROTO_HEADER_SIZE :: nat where "MLRT_PROTO_HEADER_SIZE = 10"
definition MLRT_PROTO_CRC_SIZE :: nat where "MLRT_PROTO_CRC_SIZE = 4"

definition MLRT_PROTO_MAX_FRAME :: nat where
  "MLRT_PROTO_MAX_FRAME = MLRT_PROTO_HEADER_SIZE + MLRT_PROTO_MAX_PAYLOAD + MLRT_PROTO_CRC_SIZE"

lemmas proto_consts = MLRT_PROTO_MAGIC_def MLRT_PROTO_VERSION_def MLRT_PROTO_MAX_PAYLOAD_def
  MLRT_PROTO_HEADER_SIZE_def MLRT_PROTO_CRC_SIZE_def MLRT_PROTO_MAX_FRAME_def

record mlrt_packet =
  pkt_version :: byte
  pkt_type :: byte
  pkt_length :: u16
  pkt_seq :: u32
  pkt_payload :: "byte list"

datatype mlrt_proto_status =
  MLRT_PROTO_OK | MLRT_PROTO_EINVAL | MLRT_PROTO_ETOOBIG | MLRT_PROTO_EFORMAT
| MLRT_PROTO_ECRC | MLRT_PROTO_EIO | MLRT_PROTO_EOF

text \<open>\<open>memset(packet, 0, sizeof(*packet))\<close>\<close>

definition zero_packet :: mlrt_packet where
  "zero_packet = \<lparr>pkt_version = 0, pkt_type = 0, pkt_length = 0, pkt_seq = 0,
     pkt_payload = replicate MLRT_PROTO_MAX_PAYLOAD 0\<rparr>"

text \<open>
  \<open>mlrt_packet_encode\<close>: a null pointer is \<open>None\<close>; \<open>has_out_len\<close> says whether the pointer
  \<open>out_len\<close> is not null. The result is the status, the output buffer and the value stored
  through \<open>out_len\<close>. The writes follow the source one by one.
\<close>

definition mlrt_packet_encode ::
  "mlrt_packet option \<Rightarrow> byte list option \<Rightarrow> nat \<Rightarrow> bool \<Rightarrow>
     mlrt_proto_status \<times> byte list option \<times> nat option" where
  "mlrt_packet_encode packet out out_cap has_out_len =
     (case (packet, out) of
        (Some p, Some buf) \<Rightarrow>
          if \<not> has_out_len then (MLRT_PROTO_EINVAL, out, None)
          else if unat (pkt_length p) > MLRT_PROTO_MAX_PAYLOAD then (MLRT_PROTO_ETOOBIG, out, None)
          else
            let len = unat (pkt_length p);
                total = MLRT_PROTO_HEADER_SIZE + len + MLRT_PROTO_CRC_SIZE
            in if out_cap < total then (MLRT_PROTO_ETOOBIG, out, None)
            else
              let b1 = write_at 0 (put_u16_be MLRT_PROTO_MAGIC) buf;
                  b2 = b1[2 := (if pkt_version p \<noteq> 0 then pkt_version p else MLRT_PROTO_VERSION)];
                  b3 = b2[3 := pkt_type p];
                  b4 = write_at 4 (put_u16_be (pkt_length p)) b3;
                  b5 = write_at 6 (put_u32_be (pkt_seq p)) b4;
                  b6 = (if len \<noteq> 0
                        then write_at MLRT_PROTO_HEADER_SIZE (take len (pkt_payload p)) b5 else b5);
                  crc = mlrt_crc32 (take (MLRT_PROTO_HEADER_SIZE + len) b6);
                  b7 = write_at (MLRT_PROTO_HEADER_SIZE + len) (put_u32_be crc) b6
              in (MLRT_PROTO_OK, Some b7, Some total)
      | _ \<Rightarrow> (MLRT_PROTO_EINVAL, out, None))"

text \<open>
  \<open>mlrt_packet_decode\<close>: \<open>has_packet\<close> says whether the result pointer is not null; a packet is
  stored only on success.
\<close>

definition mlrt_packet_decode ::
  "byte list option \<Rightarrow> nat \<Rightarrow> bool \<Rightarrow> mlrt_proto_status \<times> mlrt_packet option" where
  "mlrt_packet_decode frame_ptr frame_len has_packet =
     (case frame_ptr of
        None \<Rightarrow> (MLRT_PROTO_EINVAL, None)
      | Some frame \<Rightarrow>
          if \<not> has_packet \<or> frame_len < MLRT_PROTO_HEADER_SIZE + MLRT_PROTO_CRC_SIZE
          then (MLRT_PROTO_EINVAL, None)
          else if get_u16_be frame \<noteq> MLRT_PROTO_MAGIC then (MLRT_PROTO_EFORMAT, None)
          else if frame ! 2 \<noteq> MLRT_PROTO_VERSION then (MLRT_PROTO_EFORMAT, None)
          else
            let payload_len = get_u16_be (drop 4 frame); n = unat payload_len
            in if n > MLRT_PROTO_MAX_PAYLOAD then (MLRT_PROTO_ETOOBIG, None)
            else if frame_len \<noteq> MLRT_PROTO_HEADER_SIZE + n + MLRT_PROTO_CRC_SIZE
            then (MLRT_PROTO_EFORMAT, None)
            else
              let expected_crc = get_u32_be (drop (MLRT_PROTO_HEADER_SIZE + n) frame);
                  actual_crc = mlrt_crc32 (take (MLRT_PROTO_HEADER_SIZE + n) frame)
              in if expected_crc \<noteq> actual_crc then (MLRT_PROTO_ECRC, None)
              else
                (MLRT_PROTO_OK,
                 Some (zero_packet
                   \<lparr>pkt_version := frame ! 2, pkt_type := frame ! 3, pkt_length := payload_len,
                    pkt_seq := get_u32_be (drop 6 frame),
                    pkt_payload := (if n \<noteq> 0
                      then write_at 0 (slice MLRT_PROTO_HEADER_SIZE n frame)
                             (pkt_payload zero_packet)
                      else pkt_payload zero_packet)\<rparr>)))"

fun write_all ::
  "wr_event list \<Rightarrow> byte list \<Rightarrow> (mlrt_proto_status \<times> byte list \<times> wr_event list) option" where
  "write_all es [] = Some (MLRT_PROTO_OK, [], es)"
| "write_all [] (b # buf) = None"
| "write_all (e # es) (b # buf) =
     (case sys_write e (b # buf) of
        WrIntr \<Rightarrow> write_all es (b # buf)
      | WrErr \<Rightarrow> Some (MLRT_PROTO_EIO, [], es)
      | WrCount n \<Rightarrow>
          if n = 0 then Some (MLRT_PROTO_EIO, [], es)
          else map_option (\<lambda>(r, out, es'). (r, take n (b # buf) @ out, es'))
                 (write_all es (drop n (b # buf))))"

fun read_all ::
  "rd_event list \<Rightarrow> nat \<Rightarrow> byte list \<Rightarrow>
     (mlrt_proto_status \<times> byte list \<times> byte list \<times> rd_event list) option" where
  "read_all es 0 inp = Some (MLRT_PROTO_OK, [], inp, es)"
| "read_all [] (Suc len) inp = None"
| "read_all (e # es) (Suc len) inp =
     (case sys_read e (Suc len) inp of
        RdIntr \<Rightarrow> read_all es (Suc len) inp
      | RdErr \<Rightarrow> Some (MLRT_PROTO_EIO, [], inp, es)
      | RdData bs \<Rightarrow>
          if bs = [] then Some (MLRT_PROTO_EOF, [], inp, es)
          else map_option (\<lambda>(r, got, rest, es'). (r, bs @ got, rest, es'))
                 (read_all es (Suc len - length bs) (drop (length bs) inp)))"

text \<open>
  \<open>mlrt_packet_write_fd\<close>: the local frame buffer starts with arbitrary contents \<open>junk\<close>.
  The result is the status, the bytes the descriptor accepted and the rest of the schedule.
\<close>

definition mlrt_packet_write_fd ::
  "byte list \<Rightarrow> wr_event list \<Rightarrow> mlrt_packet option \<Rightarrow>
     (mlrt_proto_status \<times> byte list \<times> wr_event list) option" where
  "mlrt_packet_write_fd junk es packet =
     (case mlrt_packet_encode packet (Some junk) MLRT_PROTO_MAX_FRAME True of
        (MLRT_PROTO_OK, Some frame, Some frame_len) \<Rightarrow> write_all es (take frame_len frame)
      | (rc, _, _) \<Rightarrow> Some (rc, [], es))"

definition mlrt_packet_read_fd ::
  "byte list \<Rightarrow> rd_event list \<Rightarrow> bool \<Rightarrow> byte list \<Rightarrow>
     (mlrt_proto_status \<times> mlrt_packet option \<times> byte list \<times> rd_event list) option" where
  "mlrt_packet_read_fd junk es has_packet inp =
     (case read_all es MLRT_PROTO_HEADER_SIZE inp of
        None \<Rightarrow> None
      | Some (rc, hdr, inp1, es1) \<Rightarrow>
          if rc \<noteq> MLRT_PROTO_OK then Some (rc, None, inp1, es1)
          else
            let frame = write_at 0 hdr junk
            in if get_u16_be frame \<noteq> MLRT_PROTO_MAGIC \<or> frame ! 2 \<noteq> MLRT_PROTO_VERSION
            then Some (MLRT_PROTO_EFORMAT, None, inp1, es1)
            else
              let n = unat (get_u16_be (drop 4 frame))
              in if n > MLRT_PROTO_MAX_PAYLOAD then Some (MLRT_PROTO_ETOOBIG, None, inp1, es1)
              else
                let tail = n + MLRT_PROTO_CRC_SIZE
                in (case read_all es1 tail inp1 of
                      None \<Rightarrow> None
                    | Some (rc2, rest, inp2, es2) \<Rightarrow>
                        if rc2 \<noteq> MLRT_PROTO_OK then Some (rc2, None, inp2, es2)
                        else
                          let frame2 = write_at MLRT_PROTO_HEADER_SIZE rest frame;
                              (rc3, pkt) = mlrt_packet_decode (Some frame2)
                                             (MLRT_PROTO_HEADER_SIZE + tail) has_packet
                          in Some (rc3, pkt, inp2, es2)))"

datatype mlrt_message_type =
  MLRT_MSG_HEARTBEAT | MLRT_MSG_SENSOR_DATA | MLRT_MSG_STATUS_REQ | MLRT_MSG_STATUS_RSP
| MLRT_MSG_CONFIG_SET | MLRT_MSG_CONFIG_ACK | MLRT_MSG_ERROR | MLRT_MSG_FW_INFO_REQ
| MLRT_MSG_FW_INFO_RSP | MLRT_MSG_FAULT_INJECT | MLRT_MSG_RESET | MLRT_MSG_RESET_ACK

text \<open>The enumerators' values, as they travel in the type field of a packet.\<close>

fun msg_code :: "mlrt_message_type \<Rightarrow> byte" where
  "msg_code MLRT_MSG_HEARTBEAT = 1"
| "msg_code MLRT_MSG_SENSOR_DATA = 2"
| "msg_code MLRT_MSG_STATUS_REQ = 3"
| "msg_code MLRT_MSG_STATUS_RSP = 4"
| "msg_code MLRT_MSG_CONFIG_SET = 5"
| "msg_code MLRT_MSG_CONFIG_ACK = 6"
| "msg_code MLRT_MSG_ERROR = 7"
| "msg_code MLRT_MSG_FW_INFO_REQ = 8"
| "msg_code MLRT_MSG_FW_INFO_RSP = 9"
| "msg_code MLRT_MSG_FAULT_INJECT = 10"
| "msg_code MLRT_MSG_RESET = 11"
| "msg_code MLRT_MSG_RESET_ACK = 12"

definition mlrt_message_type_name :: "byte \<Rightarrow> string" where
  "mlrt_message_type_name t =
     (if t = 1 then ''HEARTBEAT'' else if t = 2 then ''SENSOR_DATA''
      else if t = 3 then ''STATUS_REQ'' else if t = 4 then ''STATUS_RSP''
      else if t = 5 then ''CONFIG_SET'' else if t = 6 then ''CONFIG_ACK''
      else if t = 7 then ''ERROR'' else if t = 8 then ''FW_INFO_REQ''
      else if t = 9 then ''FW_INFO_RSP'' else if t = 10 then ''FAULT_INJECT''
      else if t = 11 then ''RESET'' else if t = 12 then ''RESET_ACK'' else ''UNKNOWN'')"

section \<open>Integer codecs\<close>

lemma length_put_be [simp]: "length (put_u16_be v) = 2" "length (put_u32_be w) = 4"
  by (simp_all add: put_u16_be_def put_u32_be_def)

lemma get_put_u16_be [simp, codec_simps]: "get_u16_be (put_u16_be v @ rest) = v"
proof (rule bit_word_eqI)
  fix n assume "n < LENGTH(16)"
  then show "bit (get_u16_be (put_u16_be v @ rest)) n = bit v n"
    by (cases "n < 8") (auto simp: get_u16_be_def put_u16_be_def bit_simps)
qed

lemma get_put_u32_be [simp, codec_simps]: "get_u32_be (put_u32_be v @ rest) = v"
proof (rule bit_word_eqI)
  fix n assume n: "n < LENGTH(32)"
  then have "n < 8 \<or> 8 \<le> n \<and> n < 16 \<or> 16 \<le> n \<and> n < 24 \<or> 24 \<le> n \<and> n < 32" by auto
  then show "bit (get_u32_be (put_u32_be v @ rest)) n = bit v n"
    using n by (auto simp: get_u32_be_def put_u32_be_def bit_simps)
qed

lemma put_get_u16_be [codec_simps]: "put_u16_be (get_u16_be (a # b # rest)) = [a, b]"
  unfolding get_u16_be_def put_u16_be_def
  by (simp, intro conjI bit_word_eqI) (auto simp: bit_simps dest: bit_imp_le_length)

lemma put_get_u32_be [codec_simps]: "put_u32_be (get_u32_be (a # b # c # d # rest)) = [a, b, c, d]"
  unfolding get_u32_be_def put_u32_be_def
  by (simp, intro conjI bit_word_eqI) (auto simp: bit_simps dest: bit_imp_le_length)

interpretation be16: codec put_u16_be "\<lambda>p. if length p < 2 then None else Some (get_u16_be p)"
    "\<lambda>_. True"
  by unfold_locales simp

interpretation be32: codec put_u32_be "\<lambda>p. if length p < 4 then None else Some (get_u32_be p)"
    "\<lambda>_. True"
  by unfold_locales simp

section \<open>The frame of a packet\<close>

text \<open>
  The frame layout of the protocol's documentation,
  \<open>MAGIC | VERSION | TYPE | LENGTH | SEQUENCE | PAYLOAD | CRC32\<close>, independent of the order in which
  \<open>mlrt_packet_encode\<close> stores its parts.
\<close>

definition frame_head :: "mlrt_packet \<Rightarrow> byte list" where
  "frame_head p = put_u16_be MLRT_PROTO_MAGIC
     @ [if pkt_version p \<noteq> 0 then pkt_version p else MLRT_PROTO_VERSION, pkt_type p]
     @ put_u16_be (pkt_length p) @ put_u32_be (pkt_seq p)
     @ take (unat (pkt_length p)) (pkt_payload p)"

definition frame_bytes :: "mlrt_packet \<Rightarrow> byte list" where
  "frame_bytes p = frame_head p @ put_u32_be (mlrt_crc32 (frame_head p))"

text \<open>The payload array has its full size, and the length field fits it.\<close>

definition packet_wf :: "mlrt_packet \<Rightarrow> bool" where
  "packet_wf p \<longleftrightarrow> length (pkt_payload p) = MLRT_PROTO_MAX_PAYLOAD
     \<and> unat (pkt_length p) \<le> MLRT_PROTO_MAX_PAYLOAD"

lemma length_frame_head:
  "packet_wf p \<Longrightarrow> length (frame_head p) = MLRT_PROTO_HEADER_SIZE + unat (pkt_length p)"
  by (simp add: frame_head_def packet_wf_def proto_consts)

lemma length_frame_bytes:
  "packet_wf p \<Longrightarrow> length (frame_bytes p) =
     MLRT_PROTO_HEADER_SIZE + unat (pkt_length p) + MLRT_PROTO_CRC_SIZE"
  by (simp add: frame_bytes_def length_frame_head) (simp add: proto_consts)

lemma ten_elements:
  assumes "10 \<le> length xs"
  obtains a b c d e f g h i j ys where "xs = [a, b, c, d, e, f, g, h, i, j] @ ys"
proof -
  from assms have "10 \<le> length xs" .
  then show ?thesis
    using that by (auto simp: numeral_eq_Suc Suc_le_length_iff)
qed

lemma encode_ok:
  assumes "packet_wf p" "length buf \<ge> cap"
    and "MLRT_PROTO_HEADER_SIZE + unat (pkt_length p) + MLRT_PROTO_CRC_SIZE \<le> cap"
  shows "mlrt_packet_encode (Some p) (Some buf) cap True =
    (MLRT_PROTO_OK, Some (write_at 0 (frame_bytes p) buf), Some (length (frame_bytes p)))"
proof -
  let ?n = "unat (pkt_length p)"
  have len: "14 + ?n \<le> length buf" "?n \<le> 512" "length (pkt_payload p) = 512"
    using assms by (auto simp: proto_consts packet_wf_def)
  then obtain a b c d e f g h i j ys where buf: "buf = [a, b, c, d, e, f, g, h, i, j] @ ys"
    by (rule_tac xs = buf in ten_elements) auto
  have ys: "ys = drop 10 buf" by (simp add: buf)
  define hdr where "hdr = put_u16_be MLRT_PROTO_MAGIC
     @ [if pkt_version p \<noteq> 0 then pkt_version p else MLRT_PROTO_VERSION, pkt_type p]
     @ put_u16_be (pkt_length p) @ put_u32_be (pkt_seq p)"
  have hdr: "length hdr = 10" by (simp add: hdr_def)
  let ?pay = "take ?n (pkt_payload p)"
  have head: "frame_head p = hdr @ ?pay" by (simp add: frame_head_def hdr_def)
  let ?b5 = "write_at 6 (put_u32_be (pkt_seq p)) (write_at 4 (put_u16_be (pkt_length p))
      ((write_at 0 (put_u16_be MLRT_PROTO_MAGIC) buf)
        [2 := if pkt_version p \<noteq> 0 then pkt_version p else MLRT_PROTO_VERSION, 3 := pkt_type p]))"
  have b5: "?b5 = hdr @ ys"
    by (simp add: buf hdr_def write_at_def put_u16_be_def put_u32_be_def)
  have b6: "(if ?n \<noteq> 0 then write_at MLRT_PROTO_HEADER_SIZE ?pay ?b5 else ?b5)
      = frame_head p @ drop ?n ys"
    using len hdr unfolding b5 by (auto simp: head write_at_append MLRT_PROTO_HEADER_SIZE_def)
  have hl: "length (frame_head p) = 10 + ?n" using len hdr by (simp add: head)
  have b7: "write_at (10 + ?n) (put_u32_be crc) (frame_head p @ drop ?n ys)
      = frame_head p @ put_u32_be crc @ drop 4 (drop ?n ys)" for crc
    by (simp add: write_at_append hl)
  have out: "write_at 0 (frame_bytes p) buf
      = frame_head p @ put_u32_be (mlrt_crc32 (frame_head p)) @ drop 4 (drop ?n ys)"
    using hl by (simp add: write_at_def frame_bytes_def ys add.commute)
  show ?thesis
    using len assms length_frame_bytes [OF assms(1)]
    by (simp only: mlrt_packet_encode_def Let_def prod.case option.case b6)
      (simp add: b7 hl out proto_consts)
qed

text \<open>
  What a receiver gets: the version the sender meant, and the unused part of the payload array
  cleared.
\<close>

definition packet_canon :: "mlrt_packet \<Rightarrow> mlrt_packet" where
  "packet_canon p = p\<lparr>pkt_version := MLRT_PROTO_VERSION,
     pkt_payload := take (unat (pkt_length p)) (pkt_payload p)
       @ replicate (MLRT_PROTO_MAX_PAYLOAD - unat (pkt_length p)) 0\<rparr>"

lemma frame_bytes_fields:
  fixes p rest
  defines "f \<equiv> frame_bytes p @ rest"
  shows "get_u16_be f = MLRT_PROTO_MAGIC"
    and "f ! 2 = (if pkt_version p \<noteq> 0 then pkt_version p else MLRT_PROTO_VERSION)"
    and "f ! 3 = pkt_type p"
    and "get_u16_be (drop 4 f) = pkt_length p"
    and "get_u32_be (drop 6 f) = pkt_seq p"
  by (simp_all add: f_def frame_bytes_def frame_head_def nth_append)

text \<open>When decoding succeeds, and with what.\<close>

lemma decode_ok_iff:
  assumes "n \<le> length f"
  shows "mlrt_packet_decode (Some f) n True = (MLRT_PROTO_OK, r) \<longleftrightarrow>
    get_u16_be f = MLRT_PROTO_MAGIC \<and> f ! 2 = MLRT_PROTO_VERSION \<and>
    (let L = unat (get_u16_be (drop 4 f)) in
      n = 14 + L \<and> L \<le> 512 \<and>
      get_u32_be (drop (10 + L) f) = mlrt_crc32 (take (10 + L) f) \<and>
      r = Some \<lparr>pkt_version = MLRT_PROTO_VERSION, pkt_type = f ! 3,
        pkt_length = get_u16_be (drop 4 f), pkt_seq = get_u32_be (drop 6 f),
        pkt_payload = slice 10 L f @ replicate (512 - L) 0\<rparr>)"
proof -
  have "slice 10 0 f = []" by (simp add: slice_def)
  with assms show ?thesis
    by (auto simp: mlrt_packet_decode_def Let_def proto_consts zero_packet_def write_at_def)
qed

lemma decode_ok_crc:
  assumes "mlrt_packet_decode (Some f) n True = (MLRT_PROTO_OK, r)" "n \<le> length f"
  shows "14 \<le> n \<and> get_u32_be (drop (n - 4) f) = mlrt_crc32 (take (n - 4) f)"
  using assms(1) by (auto simp: decode_ok_iff [OF assms(2)] Let_def)

lemma decode_frame_bytes:
  assumes "packet_wf p" "pkt_version p = 0 \<or> pkt_version p = MLRT_PROTO_VERSION"
  shows "mlrt_packet_decode (Some (frame_bytes p @ rest)) (length (frame_bytes p)) True =
    (MLRT_PROTO_OK, Some (packet_canon p))"
proof -
  let ?n = "unat (pkt_length p)"
  define f where "f = frame_bytes p @ rest"
  have len: "?n \<le> 512" "length (pkt_payload p) = 512" "length (frame_bytes p) = 14 + ?n"
    "length (frame_head p) = 10 + ?n"
    using assms(1) length_frame_bytes [OF assms(1)] length_frame_head [OF assms(1)]
    by (auto simp: packet_wf_def proto_consts)
  have crc: "get_u32_be (drop (10 + ?n) f) = mlrt_crc32 (take (10 + ?n) f)"
    using len by (simp add: f_def frame_bytes_def)
  have pay: "slice 10 ?n f = take ?n (pkt_payload p)"
    using len by (simp add: f_def slice_def frame_bytes_def frame_head_def)
  have v: "f ! 2 = MLRT_PROTO_VERSION"
    using assms(2) by (auto simp: f_def frame_bytes_fields)
  have fits: "length (frame_bytes p) \<le> length f" by (simp add: f_def)
  show ?thesis
    using crc v pay len unfolding f_def [symmetric] decode_ok_iff [OF fits]
    by (simp add: frame_bytes_fields [of p rest, folded f_def] packet_canon_def proto_consts)
qed

text \<open>A version other than the current one is encoded, and refused by the decoder.\<close>

lemma decode_other_version:
  assumes "packet_wf p" "pkt_version p \<notin> {0, MLRT_PROTO_VERSION}"
  shows "mlrt_packet_decode (Some (frame_bytes p @ rest)) (length (frame_bytes p)) True = (MLRT_PROTO_EFORMAT, None)"
  using assms length_frame_bytes [OF assms(1)]
  by (simp add: mlrt_packet_decode_def frame_bytes_fields proto_consts del: append.simps)

lemma put_get_slices:
  assumes "length f \<ge> 10"
  shows "put_u16_be (get_u16_be f) @ [f ! 2, f ! 3] @ put_u16_be (get_u16_be (drop 4 f))
    @ put_u32_be (get_u32_be (drop 6 f)) = take 10 f"
proof -
  from assms obtain a b c d e g h i j k ys where "f = [a, b, c, d, e, g, h, i, j, k] @ ys"
    by (rule ten_elements)
  then show ?thesis by (simp add: put_get_u16_be put_get_u32_be)
qed

lemma put_get_u32_slice: "4 \<le> length f \<Longrightarrow> put_u32_be (get_u32_be f) = take 4 f"
  by (auto simp: numeral_eq_Suc Suc_le_length_iff put_get_u32_be)

lemma decode_sound:
  assumes dec: "mlrt_packet_decode (Some f) n True = (MLRT_PROTO_OK, Some p)"
    and len: "n \<le> length f"
  shows "packet_wf p \<and> frame_bytes p = take n f \<and> pkt_version p = MLRT_PROTO_VERSION
    \<and> packet_canon p = p"
proof -
  define L where "L = unat (get_u16_be (drop 4 f))"
  from dec have n: "n = 14 + L" "L \<le> 512"
    and magic: "get_u16_be f = MLRT_PROTO_MAGIC" and v: "f ! 2 = MLRT_PROTO_VERSION"
    and crc: "get_u32_be (drop (10 + L) f) = mlrt_crc32 (take (10 + L) f)"
    and p: "p = \<lparr>pkt_version = MLRT_PROTO_VERSION, pkt_type = f ! 3,
        pkt_length = get_u16_be (drop 4 f), pkt_seq = get_u32_be (drop 6 f),
        pkt_payload = slice 10 L f @ replicate (512 - L) 0\<rparr>"
    by (simp_all add: decode_ok_iff [OF len] Let_def L_def)
  have pay: "length (slice 10 L f) = L" using n len by simp
  have head: "frame_head p = take (10 + L) f"
    using put_get_slices [of f] magic v n len pay take_add [of 10 L f]
    by (simp add: frame_head_def p proto_consts slice_def flip: L_def)
  have "frame_bytes p = take (10 + L) f @ take 4 (drop (10 + L) f)"
    using n len put_get_u32_slice [of "drop (10 + L) f"]
    by (simp add: frame_bytes_def head flip: crc)
  also have "\<dots> = take n f" using n take_add [of "10 + L" 4 f] by (simp add: ac_simps)
  finally show ?thesis
    using n pay by (simp add: packet_wf_def packet_canon_def p proto_consts flip: L_def)
qed

interpretation packet_codec: codec frame_bytes
    "\<lambda>f. if length f < 14 then None
      else snd (mlrt_packet_decode (Some f) (14 + unat (get_u16_be (drop 4 f))) True)"
    "\<lambda>p. packet_wf p \<and> packet_canon p = p"
proof
  fix p rest assume wf: "packet_wf p \<and> packet_canon p = p"
  have v: "pkt_version p = MLRT_PROTO_VERSION"
    using arg_cong [OF conjunct2 [OF wf], of pkt_version] by (simp add: packet_canon_def)
  have len: "length (frame_bytes p) = 14 + unat (pkt_length p)"
    using wf length_frame_bytes [of p] by (simp add: proto_consts)
  then have n: "14 + unat (get_u16_be (drop 4 (frame_bytes p @ rest))) = length (frame_bytes p)"
    by (simp only: frame_bytes_fields)
  show "(if length (frame_bytes p @ rest) < 14 then None
      else snd (mlrt_packet_decode (Some (frame_bytes p @ rest))
        (14 + unat (get_u16_be (drop 4 (frame_bytes p @ rest)))) True)) = Some p"
    unfolding n using wf v len decode_frame_bytes [of p rest] by simp
qed

section \<open>Packets on a byte stream\<close>

interpretation proto_reader: exact_reader read_all MLRT_PROTO_OK MLRT_PROTO_EOF MLRT_PROTO_EIO
  by unfold_locales simp_all

interpretation proto_writer: exact_writer write_all MLRT_PROTO_OK MLRT_PROTO_EIO
  by unfold_locales auto

lemma write_fd_encodes:
  assumes "packet_wf p" "length junk = MLRT_PROTO_MAX_FRAME"
  shows "mlrt_packet_write_fd junk es (Some p) = write_all es (frame_bytes p)"
proof -
  have "MLRT_PROTO_HEADER_SIZE + unat (pkt_length p) + MLRT_PROTO_CRC_SIZE \<le> MLRT_PROTO_MAX_FRAME"
    using assms(1) by (simp add: packet_wf_def proto_consts)
  with assms show ?thesis
    by (simp add: mlrt_packet_write_fd_def encode_ok write_at_def)
qed

lemma frame_bytes_split:
  assumes "packet_wf p"
  shows "take 10 (frame_bytes p) @ drop 10 (frame_bytes p) = frame_bytes p"
    and "length (drop 10 (frame_bytes p)) = unat (pkt_length p) + 4"
    and "length (take 10 (frame_bytes p)) = 10"
  using length_frame_bytes [OF assms] by (simp_all add: proto_consts)

lemma read_fd_frame:
  assumes wf: "packet_wf p" and v: "pkt_version p = 0 \<or> pkt_version p = MLRT_PROTO_VERSION"
    and junk: "length junk = MLRT_PROTO_MAX_FRAME"
    and es: "RdFail \<notin> set es" "length (frame_bytes p) \<le> rd_chunks es"
  shows "\<exists>es'. mlrt_packet_read_fd junk es True (frame_bytes p @ rest) =
    Some (MLRT_PROTO_OK, Some (packet_canon p), rest, es')"
proof -
  let ?n = "unat (pkt_length p)" and ?f = "frame_bytes p"
  have n: "?n \<le> 512" and len: "length ?f = 14 + ?n"
    using wf length_frame_bytes [OF wf] by (auto simp: packet_wf_def proto_consts)
  obtain es1 where r1: "read_all es 10 (?f @ rest) = Some (MLRT_PROTO_OK, take 10 ?f, drop 10 ?f @ rest, es1)"
    using proto_reader.rdall_complete [of es 10 "?f @ rest"] es len by auto
  have es1: "rd_chunks es \<le> rd_chunks es1 + 10" "set es1 \<subseteq> set es"
    using proto_reader.rdall_ok [OF r1] by auto
  have "\<exists>es2. read_all es1 (?n + 4) (drop 10 ?f @ rest) =
      Some (MLRT_PROTO_OK, take (?n + 4) (drop 10 ?f @ rest), drop (?n + 4) (drop 10 ?f @ rest), es2)"
    using es es1 len by (intro proto_reader.rdall_complete) auto
  then obtain es2 where r2: "read_all es1 (?n + 4) (drop 10 ?f @ rest) =
      Some (MLRT_PROTO_OK, drop 10 ?f, rest, es2)"
    using len by auto
  define frame where "frame = write_at 0 (take 10 ?f) junk"
  have frame: "frame = take 10 ?f @ drop 10 junk"
    using len by (simp add: frame_def write_at_def min_def)
  have hd: "get_u16_be frame = MLRT_PROTO_MAGIC" "frame ! 2 = MLRT_PROTO_VERSION"
    "get_u16_be (drop 4 frame) = pkt_length p"
    using v by (auto simp: frame frame_bytes_def frame_head_def nth_append)
  have full: "write_at 10 (drop 10 ?f) frame = ?f @ drop (length ?f) junk"
    using len junk n by (simp add: frame write_at_append min_def proto_consts)
  have "mlrt_packet_decode (Some (?f @ drop (length ?f) junk)) (14 + ?n) True =
      (MLRT_PROTO_OK, Some (packet_canon p))"
    using decode_frame_bytes [OF wf v, of "drop (length ?f) junk"] len by simp
  then show ?thesis
    using n hd full
    by (simp add: mlrt_packet_read_fd_def r1 r2 Let_def MLRT_PROTO_HEADER_SIZE_def
        MLRT_PROTO_CRC_SIZE_def MLRT_PROTO_MAX_PAYLOAD_def add.assoc flip: frame_def)
qed

lemma read_fd_other_version:
  assumes wf: "packet_wf p" and v: "pkt_version p \<notin> {0, MLRT_PROTO_VERSION}"
    and es: "RdFail \<notin> set es" "length (frame_bytes p) \<le> rd_chunks es"
  shows "\<exists>es'. mlrt_packet_read_fd junk es True (frame_bytes p @ rest) =
    Some (MLRT_PROTO_EFORMAT, None, drop MLRT_PROTO_HEADER_SIZE (frame_bytes p) @ rest, es')"
proof -
  let ?f = "frame_bytes p"
  have len: "10 \<le> length ?f" using length_frame_bytes [OF wf] by (simp add: proto_consts)
  then obtain es1 where r1: "read_all es 10 (?f @ rest) = Some (MLRT_PROTO_OK, take 10 ?f, drop 10 ?f @ rest, es1)"
    using proto_reader.rdall_complete [of es 10 "?f @ rest"] es by auto
  have "write_at 0 (take 10 ?f) junk ! 2 \<noteq> MLRT_PROTO_VERSION"
    using v len by (auto simp: write_at_def nth_append frame_bytes_def frame_head_def)
  then show ?thesis by (simp add: mlrt_packet_read_fd_def r1 Let_def MLRT_PROTO_HEADER_SIZE_def)
qed

lemma read_fd_truncated_frame:
  assumes wf: "packet_wf p" and v: "pkt_version p = 0 \<or> pkt_version p = MLRT_PROTO_VERSION"
    and junk: "length junk = MLRT_PROTO_MAX_FRAME"
    and k: "k < length (frame_bytes p)"
    and es: "RdFail \<notin> set es" "length (frame_bytes p) \<le> rd_chunks es"
  shows "\<exists>es'. mlrt_packet_read_fd junk es True (take k (frame_bytes p)) =
    Some (MLRT_PROTO_EOF, None, [], es')"
proof (cases "k < 10")
  case True
  then have "\<exists>es'. read_all es 10 (take k (frame_bytes p))
      = Some (MLRT_PROTO_EOF, take k (frame_bytes p), [], es')"
    using es k by (intro proto_reader.rdall_short) auto
  then show ?thesis by (auto simp: mlrt_packet_read_fd_def MLRT_PROTO_HEADER_SIZE_def)
next
  case False
  let ?n = "unat (pkt_length p)" and ?f = "frame_bytes p"
  have n: "?n \<le> 512" and len: "length ?f = 14 + ?n"
    using wf length_frame_bytes [OF wf] by (auto simp: packet_wf_def proto_consts)
  obtain es1 where r1: "read_all es 10 (take k ?f)
      = Some (MLRT_PROTO_OK, take 10 ?f, drop 10 (take k ?f), es1)"
    using proto_reader.rdall_complete [of es 10 "take k ?f"] es k len False
    by (auto simp: min_def)
  have es1: "rd_chunks es \<le> rd_chunks es1 + 10" "set es1 \<subseteq> set es"
    using proto_reader.rdall_ok [OF r1] by auto
  have "RdFail \<notin> set es1" "k - 10 < rd_chunks es1" "k - 10 < ?n + 4"
    using es es1 len k False by auto
  then obtain es2 where r2: "read_all es1 (?n + 4) (drop 10 (take k ?f))
      = Some (MLRT_PROTO_EOF, drop 10 (take k ?f), [], es2)"
    using proto_reader.rdall_short [of es1 "drop 10 (take k ?f)" "?n + 4"] len k by auto
  define frame where "frame = write_at 0 (take 10 ?f) junk"
  have hd: "get_u16_be frame = MLRT_PROTO_MAGIC" "frame ! 2 = MLRT_PROTO_VERSION"
    "get_u16_be (drop 4 frame) = pkt_length p"
    using v len by (auto simp: frame_def write_at_def frame_bytes_def frame_head_def nth_append)
  show ?thesis
    using n hd
    by (simp add: mlrt_packet_read_fd_def r1 r2 Let_def MLRT_PROTO_HEADER_SIZE_def
        MLRT_PROTO_CRC_SIZE_def MLRT_PROTO_MAX_PAYLOAD_def add.assoc flip: frame_def)
qed

section \<open>Properties\<close>

text \<open>
  C1. Encoding and decoding, for every packet and every buffer: when the length field fits the
  payload and the frame fits the buffer, encoding succeeds, stores the length of the frame and
  changes nothing behind it; decoding the frame gives the packet with its type, sequence number,
  length and payload, the version field set to the current version and the unused payload cleared,
  if the version was 0 or the current one, and a format error for every other version. When it does
  not fit, encoding reports this and leaves the buffer alone.
\<close>

theorem packet_encode_decode:
  assumes "length (pkt_payload p) = MLRT_PROTO_MAX_PAYLOAD" and "cap \<le> length buf"
    and "flen = MLRT_PROTO_HEADER_SIZE + unat (pkt_length p) + MLRT_PROTO_CRC_SIZE"
  shows "case mlrt_packet_encode (Some p) (Some buf) cap True of (st, out, n) \<Rightarrow>
    if unat (pkt_length p) \<le> MLRT_PROTO_MAX_PAYLOAD \<and> flen \<le> cap
    then st = MLRT_PROTO_OK \<and> n = Some flen \<and>
      (\<exists>frame. out = Some frame \<and> length frame = length buf \<and> drop flen frame = drop flen buf \<and>
        mlrt_packet_decode (Some frame) flen True =
          (if pkt_version p \<in> {0, MLRT_PROTO_VERSION} then (MLRT_PROTO_OK, Some (packet_canon p))
           else (MLRT_PROTO_EFORMAT, None)))
    else st = MLRT_PROTO_ETOOBIG \<and> out = Some buf \<and> n = None"
proof (cases "unat (pkt_length p) \<le> MLRT_PROTO_MAX_PAYLOAD \<and> flen \<le> cap")
  case True
  let ?f = "frame_bytes p"
  have wf: "packet_wf p" using assms(1) True by (simp add: packet_wf_def)
  have fl: "length ?f = flen" using length_frame_bytes [OF wf] assms(3) by simp
  have out: "write_at 0 ?f buf = ?f @ drop (length ?f) buf" by (simp add: write_at_def)
  show ?thesis
    using True assms(2,3) fl encode_ok [OF wf assms(2)] decode_frame_bytes [OF wf, of "drop flen buf"]
      decode_other_version [OF wf, of "drop flen buf"]
    by (auto simp: out)
next
  case False
  then show ?thesis using assms(3) by (auto simp: mlrt_packet_encode_def Let_def)
qed

definition sample_packet :: mlrt_packet where
  "sample_packet = \<lparr>pkt_version = 0, pkt_type = 5, pkt_length = 2, pkt_seq = 42,
     pkt_payload = [0, 50] @ replicate 510 7\<rparr>"

lemma sample_packet_wf: "packet_wf sample_packet"
  by (simp add: packet_wf_def sample_packet_def proto_consts)

lemma sample_packet_length: "length (frame_bytes sample_packet) = 16"
  using length_frame_bytes [OF sample_packet_wf] by (simp add: sample_packet_def proto_consts)

theorem packet_encode_decode_witness:
  "\<exists>frame. mlrt_packet_encode (Some sample_packet) (Some (replicate 20 9)) 20 True
      = (MLRT_PROTO_OK, Some frame, Some 16) \<and> length frame = 20
    \<and> mlrt_packet_decode (Some frame) 16 True = (MLRT_PROTO_OK, Some (packet_canon sample_packet))"
  using packet_encode_decode [of sample_packet 20 "replicate 20 9" 16]
  by (auto simp: sample_packet_def proto_consts split: prod.splits)

text \<open>
  C2. Decoding accepts nothing but encodings: when a frame of \<open>n\<close> bytes is accepted, the
  resulting packet is well formed and encoding it again produces exactly these \<open>n\<close> bytes.
\<close>

theorem decode_accepts_only_encodings:
  assumes "mlrt_packet_decode (Some frame) n True = (MLRT_PROTO_OK, Some p)"
    and "n \<le> length frame" and "n \<le> cap" and "cap \<le> length buf"
  shows "packet_wf p \<and> pkt_version p = MLRT_PROTO_VERSION
    \<and> (\<exists>out. mlrt_packet_encode (Some p) (Some buf) cap True = (MLRT_PROTO_OK, Some out, Some n)
          \<and> take n out = take n frame)"
proof -
  from decode_sound [OF assms(1,2)] have wf: "packet_wf p"
    and f: "frame_bytes p = take n frame" and v: "pkt_version p = MLRT_PROTO_VERSION" by auto
  have n: "length (frame_bytes p) = n" using f assms(2) by simp
  then have "MLRT_PROTO_HEADER_SIZE + unat (pkt_length p) + MLRT_PROTO_CRC_SIZE \<le> cap"
    using assms(3) length_frame_bytes [OF wf] by simp
  with encode_ok [OF wf assms(4)] n have
    "mlrt_packet_encode (Some p) (Some buf) cap True
      = (MLRT_PROTO_OK, Some (write_at 0 (frame_bytes p) buf), Some n)" by simp
  moreover have "take n (write_at 0 (frame_bytes p) buf) = take n frame"
    using n f by (simp add: write_at_def)
  ultimately show ?thesis using wf v by blast
qed

theorem decode_accepts_only_encodings_witness:
  "\<exists>out. mlrt_packet_encode (Some (packet_canon sample_packet)) (Some (replicate 20 9)) 20 True
      = (MLRT_PROTO_OK, Some out, Some 16) \<and> take 16 out = frame_bytes sample_packet"
proof -
  have dec: "mlrt_packet_decode (Some (frame_bytes sample_packet)) 16 True
      = (MLRT_PROTO_OK, Some (packet_canon sample_packet))"
    using decode_frame_bytes [OF sample_packet_wf, of "[]"] sample_packet_length
    by (simp add: sample_packet_def)
  show ?thesis
    using decode_accepts_only_encodings [OF dec, of 20 "replicate 20 9"] sample_packet_length
    by auto
qed

text \<open>
  The last bytes of a stored checksum are the low bytes of its value.
\<close>

lemma put_u32_be_low:
  assumes "drop j (put_u32_be a) = drop j (put_u32_be b)" "j \<le> 3"
  shows "take_bit (32 - 8 * j) a = take_bit (32 - 8 * j) b"
proof (rule bit_word_eqI)
  fix n assume n: "n < LENGTH(32)"
  have eq: "put_u32_be a ! k = put_u32_be b ! k" if "j \<le> k" "k < 4" for k
    using arg_cong [OF assms(1), of "\<lambda>l. l ! (k - j)"] that by simp
  show "bit (take_bit (32 - 8 * j) a) n = bit (take_bit (32 - 8 * j) b) n"
  proof (cases "n < 32 - 8 * j")
    case True
    let ?k = "3 - n div 8"
    have "j \<le> ?k" "n div 8 \<le> 3" using True assms(2) by auto
    then have "bit (put_u32_be a ! ?k) (n mod 8) = bit (put_u32_be b ! ?k) (n mod 8)" using eq [of ?k] by simp
    moreover have "bit (put_u32_be v ! ?k) (n mod 8) = bit v n" for v
    proof -
      obtain q m where q: "n = 8 * q + m" "m < 8" "q < 4" using n by (intro that [of "n div 8" "n mod 8"]) auto
      then have "n div 8 = q" "n mod 8 = m" "q = 0 \<or> q = 1 \<or> q = 2 \<or> q = 3" by auto
      moreover from this(3) have "bit (put_u32_be v ! (3 - q)) m = bit v (8 * q + m)"
        using q(2) by (elim disjE) (simp_all add: put_u32_be_def bit_simps)
      ultimately show ?thesis using q(1) by simp
    qed
    ultimately show ?thesis using True by (simp add: bit_take_bit_iff)
  qed (simp add: bit_take_bit_iff)
qed

text \<open>
  Two sequences of bytes that both end in their own checksum and differ in at most four consecutive
  bytes differ in two bytes of the data and two of the checksum.
\<close>

lemma burst_seen:
  assumes f: "pre @ xs @ post = h @ put_u32_be (mlrt_crc32 h)" and g: "pre @ ys @ post = h' @ put_u32_be (mlrt_crc32 h')"
    and len: "length h' = length h" "length ys = length xs" "length xs \<le> 4" "ys \<noteq> xs" "\<not> (length xs = 4 \<and> length post = 2)"
  shows False
proof (cases "4 \<le> length post")
  case True
  define k where "k = length post - 4"
  have "length (pre @ xs @ post) = length h + 4" using f by simp
  then have hl: "length h = length pre + length xs + k" using True by (simp add: k_def)
  have "h = pre @ xs @ take k post" "h' = pre @ ys @ take k post"
    using arg_cong [OF f, of "take (length h)"] arg_cong [OF g, of "take (length h)"] hl len by simp_all
  moreover have "drop k post = put_u32_be (mlrt_crc32 h)" "drop k post = put_u32_be (mlrt_crc32 h')"
    using arg_cong [OF f, of "drop (length h)"] arg_cong [OF g, of "drop (length h)"] hl len by simp_all
  ultimately have "mlrt_crc32 (pre @ xs @ take k post) = mlrt_crc32 (pre @ ys @ take k post)"
    by (metis append_Nil2 get_put_u32_be)
  then show False using crc32_burst_detected [of xs ys pre "take k post"] len by auto
next
  case False
  define j where "j = 4 - length post"
  have hl: "length pre + length xs = length h + j" using arg_cong [OF f, of length] False by (simp add: j_def)
  have d: "drop j (put_u32_be (mlrt_crc32 h)) = post" "drop j (put_u32_be (mlrt_crc32 h')) = post"
    using arg_cong [OF f, of "drop (length h + j)"] arg_cong [OF g, of "drop (length h + j)"] len hl by simp_all
  define k where "k = length xs - j"
  show False
  proof (cases "length xs \<le> j")
    case True
    then have "length h \<le> length pre" using hl by simp
    then have "take (length h) pre = h" "take (length h) pre = h'"
      using arg_cong [OF f, of "take (length h)"] arg_cong [OF g, of "take (length h)"] len(1) by simp_all
    then have "h = h'" by simp
    with f g have "pre @ xs @ post = pre @ ys @ post" by (simp only:)
    then show False using len by simp
  next
    case gt: False
    then have k: "1 \<le> k" "k + j \<le> 4" "1 \<le> j" using len False by (auto simp: k_def j_def)
    have kk: "length h - length pre = k" "length pre \<le> length h" "k - length xs = 0" using hl gt by (simp_all add: k_def)
    have h: "h = pre @ take k xs" "h' = pre @ take k ys"
      using arg_cong [OF f, of "take (length h)"] arg_cong [OF g, of "take (length h)"] len(1,2) kk by simp_all
    have kj: "k = 1 \<and> j \<le> 3 \<or> k = 2 \<and> j = 1 \<or> k = 3 \<and> j = 1" using k len(3,5) gt False by (auto simp: k_def j_def)
    have eq: "take_bit (32 - 8 * j) (mlrt_crc32 h) = take_bit (32 - 8 * j) (mlrt_crc32 h')"
      using d kj by (intro put_u32_be_low) auto
    have m: "take_bit m (mlrt_crc32 h) = take_bit m (mlrt_crc32 h')" if "m \<le> 32 - 8 * j" for m
      using arg_cong [OF eq, of "take_bit m"] by (simp only: take_bit_take_bit min_absorb1 [OF that])
    have "take k xs = take k ys"
    proof (rule crc32_tail_detected [of _ _ "if k = 1 then 8 else 24" pre])
      show "length (take k xs) = length (take k ys)" using len by simp
      show "length (take k xs) = 1 \<and> (if k = 1 then 8 else 24) = 8 \<or> length (take k xs) = 2 \<and> (if k = 1 then 8 else 24) = 24 \<or>
          length (take k xs) = 3 \<and> (if k = 1 then 8 else (24::nat)) = 24" using kj gt by (auto simp: k_def)
      show "take_bit (if k = 1 then 8 else 24) (mlrt_crc32 (pre @ take k xs)) = take_bit (if k = 1 then 8 else 24) (mlrt_crc32 (pre @ take k ys))"
        using m [of "if k = 1 then 8 else 24"] kj by (auto simp flip: h)
    qed
    with h have "h = h'" by (simp only:)
    with f g have "pre @ xs @ post = pre @ ys @ post" by (simp only:)
    then show False using len by simp
  qed
qed

text \<open>
  C3. Integrity: when at most four consecutive bytes of a frame are altered, whatever they are and
  wherever they lie in header, payload or checksum, decoding does not accept the frame and stores no
  packet. The one exception are four bytes of which two belong to the data and two to the checksum.
\<close>

theorem decode_rejects_burst:
  assumes "packet_wf p" and "frame_bytes p = pre @ xs @ post"
    and "length ys = length xs" and "length xs \<le> 4" and "ys \<noteq> xs" and "\<not> (length xs = 4 \<and> length post = 2)"
    and "mlrt_packet_decode (Some (pre @ ys @ post)) (length (frame_bytes p)) True = (st, r)"
  shows "st \<noteq> MLRT_PROTO_OK \<and> r = None"
proof -
  let ?h = "frame_head p" and ?g = "pre @ ys @ post"
  have ok: "st \<noteq> MLRT_PROTO_OK"
  proof
    assume "st = MLRT_PROTO_OK"
    with assms(2,3,7) have "mlrt_packet_decode (Some ?g) (length ?g) True = (MLRT_PROTO_OK, r)" by simp
    from decode_ok_crc [OF this] have g: "14 \<le> length ?g"
      "put_u32_be (mlrt_crc32 (take (length ?g - 4) ?g)) = drop (length ?g - 4) ?g"
      using put_get_u32_slice [of "drop (length ?g - 4) ?g"] by auto
    then obtain h' where g': "?g = h' @ put_u32_be (mlrt_crc32 h')" by (metis append_take_drop_id)
    have f: "pre @ xs @ post = ?h @ put_u32_be (mlrt_crc32 ?h)" using assms(2) by (simp add: frame_bytes_def)
    have len: "length h' = length ?h" using arg_cong [OF g', of length] arg_cong [OF f, of length] assms(3) by simp
    from burst_seen [OF f g' len assms(3-6)] show False .
  qed
  moreover have "r = None" using assms(7) ok by (auto simp: mlrt_packet_decode_def Let_def split: if_splits)
  ultimately show ?thesis by blast
qed

theorem decode_rejects_burst_witness:
  "fst (mlrt_packet_decode (Some (put_u16_be MLRT_PROTO_MAGIC @ [1, 6] @ put_u16_be 2
      @ put_u32_be 42 @ [0, 50] @ put_u32_be (mlrt_crc32 (frame_head sample_packet)))) 16 True)
    \<noteq> MLRT_PROTO_OK"
proof -
  let ?pre = "put_u16_be MLRT_PROTO_MAGIC @ [1]"
    and ?post = "put_u16_be 2 @ put_u32_be 42 @ [0, 50] @ put_u32_be (mlrt_crc32 (frame_head sample_packet))"
  have f: "frame_bytes sample_packet = ?pre @ [5] @ ?post"
    by (simp add: frame_bytes_def frame_head_def sample_packet_def proto_consts)
  show ?thesis
    using decode_rejects_burst [OF sample_packet_wf f, of "[6]"] sample_packet_length
    by (auto simp: prod_eq_iff)
qed

text \<open>
  The exception is real: the checksum runs from the low bit, but is stored with its high byte first,
  so the frame is no code word of a cyclic code. Two frames that differ in four consecutive bytes,
  two of them in the checksum, are both accepted.
\<close>

lemma xor_cancel: "(u XOR v) XOR ((u XOR c) XOR (v XOR d)) = c XOR d" for u :: u32
  by (rule bit_word_eqI) (auto simp: bit_xor_iff)

lemma xor_move: "u XOR v = c \<Longrightarrow> v = u XOR c" for u :: u32
  by (auto simp flip: xor.assoc)

lemma burst_escapes:
  fixes a b :: byte
  assumes "packet_wf p" "packet_wf q" "frame_head p = h @ [a, b]" "frame_head q = h @ [a XOR 0x61, b XOR 0xD8]"
    and "pkt_version p = MLRT_PROTO_VERSION" "pkt_version q = MLRT_PROTO_VERSION"
  shows "\<exists>xs ys post. frame_bytes p = h @ xs @ post \<and> frame_bytes q = h @ ys @ post \<and> xs \<noteq> ys \<and> length xs = 4 \<and> length ys = 4 \<and>
    mlrt_packet_decode (Some (h @ xs @ post)) (length (h @ xs @ post)) True = (MLRT_PROTO_OK, Some (packet_canon p)) \<and>
    mlrt_packet_decode (Some (h @ ys @ post)) (length (h @ ys @ post)) True = (MLRT_PROTO_OK, Some (packet_canon q))"
proof -
  let ?c = "\<lambda>p. put_u32_be (mlrt_crc32 (frame_head p))"
  have "mlrt_crc32 (h @ [a, b]) XOR mlrt_crc32 (h @ [a XOR 0x61, b XOR 0xD8]) = (crc32_bit ^^ 16) (le_word [a, b] XOR le_word [a XOR 0x61, b XOR 0xD8])"
    using crc32_tail_diff [of "[a, b]" "[a XOR 0x61, b XOR 0xD8]" h] by simp
  also have "le_word [a, b] XOR le_word [a XOR 0x61, b XOR 0xD8] = 0xD861"
    using xor_cancel [of "ucast a" "push_bit 8 (ucast b)" "0x61" "0xD800"] by (simp add: unsigned_xor_eq push_bit_xor)
  also have "(crc32_bit ^^ 16) 0xD861 = 0xF4EE0000" by (simp add: crc32_bits_eval crc32_bit_alt del: funpow.simps)
  finally have "mlrt_crc32 (h @ [a XOR 0x61, b XOR 0xD8]) = mlrt_crc32 (h @ [a, b]) XOR 0xF4EE0000"
    by (rule xor_move)
  moreover have z: "(16051712 :: byte) = 0" "(4109238272 :: byte) = 0" by (simp_all add: word_eq_iff_unsigned)
  ultimately have eq: "drop 2 (?c p) = drop 2 (?c q)" using assms(3,4) by (simp add: put_u32_be_def drop_bit_xor unsigned_xor_eq z)
  let ?xs = "[a, b] @ take 2 (?c p)" and ?ys = "[a XOR 0x61, b XOR 0xD8] @ take 2 (?c q)"
  have f: "frame_bytes p = h @ ?xs @ drop 2 (?c p)" "frame_bytes q = h @ ?ys @ drop 2 (?c p)"
    using append_take_drop_id [of 2 "?c q", folded eq] by (simp_all add: frame_bytes_def assms(3,4))
  have "bit a 5 \<noteq> bit (a XOR 0x61) 5" by (simp add: bit_xor_iff)
  then have "a \<noteq> a XOR 0x61" by metis
  moreover note decode_frame_bytes [OF assms(1), of "[]"] decode_frame_bytes [OF assms(2), of "[]"]
  ultimately show ?thesis using assms(5,6) f by (intro exI [of _ ?xs] exI [of _ ?ys] exI [of _ "drop 2 (?c p)"]) simp
qed

text \<open>
  C6. Transfer: a packet written by \<open>mlrt_packet_write_fd\<close> is read by \<open>mlrt_packet_read_fd\<close>, however
  the kernel splits the transfers and interrupts the calls. With version 0 or the current version
  it arrives with its type, sequence number, length and payload, the version field set to the current
  version and the unused payload cleared, and the reader consumes exactly the frame, leaving what
  follows in the stream. Any other version is written, and the reader refuses it as a format error
  after the header, leaving the rest of the frame in the stream.
\<close>

theorem packet_stream_transfer:
  assumes "packet_wf p"
    and "length wbuf = MLRT_PROTO_MAX_FRAME" and "length rbuf = MLRT_PROTO_MAX_FRAME"
    and "wr_reliable ws" and "MLRT_PROTO_MAX_FRAME \<le> wr_chunks ws"
    and "RdFail \<notin> set rs" and "MLRT_PROTO_MAX_FRAME \<le> rd_chunks rs"
  shows "\<exists>sent ws' rs'. mlrt_packet_write_fd wbuf ws (Some p) = Some (MLRT_PROTO_OK, sent, ws')
    \<and> mlrt_packet_read_fd rbuf rs True (sent @ rest) =
        (if pkt_version p \<in> {0, MLRT_PROTO_VERSION}
         then Some (MLRT_PROTO_OK, Some (packet_canon p), rest, rs')
         else Some (MLRT_PROTO_EFORMAT, None, drop MLRT_PROTO_HEADER_SIZE sent @ rest, rs'))"
proof -
  have len: "length (frame_bytes p) \<le> MLRT_PROTO_MAX_FRAME"
    using assms(1) length_frame_bytes [OF assms(1)] by (simp add: packet_wf_def proto_consts)
  with assms obtain ws' where "write_all ws (frame_bytes p) = Some (MLRT_PROTO_OK, frame_bytes p, ws')"
    using proto_writer.wrall_complete [of ws "frame_bytes p"] by auto
  moreover obtain rs' where "mlrt_packet_read_fd rbuf rs True (frame_bytes p @ rest)
      = (if pkt_version p \<in> {0, MLRT_PROTO_VERSION}
         then Some (MLRT_PROTO_OK, Some (packet_canon p), rest, rs')
         else Some (MLRT_PROTO_EFORMAT, None, drop MLRT_PROTO_HEADER_SIZE (frame_bytes p) @ rest, rs'))"
    using read_fd_frame [OF assms(1) _ assms(3,6), of rest] read_fd_other_version [OF assms(1) _ assms(6), of rbuf rest] assms(7) len
    by (cases "pkt_version p \<in> {0, MLRT_PROTO_VERSION}") auto
  ultimately show ?thesis using write_fd_encodes [OF assms(1,2)] by auto
qed

theorem packet_stream_transfer_witness:
  "\<exists>sent ws' rs'. mlrt_packet_write_fd (replicate 526 0) (WrEintr # replicate 526 (WrChunk 2))
        (Some sample_packet) = Some (MLRT_PROTO_OK, sent, ws')
    \<and> mlrt_packet_read_fd (replicate 526 0) (RdEintr # replicate 526 (RdChunk 0)) True (sent @ [1])
        = Some (MLRT_PROTO_OK, Some (packet_canon sample_packet), [1], rs')"
  using packet_stream_transfer [OF sample_packet_wf, of "replicate 526 0" "replicate 526 0" "WrEintr # replicate 526 (WrChunk 2)"
      "RdEintr # replicate 526 (RdChunk 0)" "[1]"]
  by (simp add: sample_packet_def proto_consts wr_reliable_def wr_chunks_def rd_chunks_def)

text \<open>
  Truncation: when the peer closes the stream before the last byte of a frame, reading
  reports end of file and stores no packet, at whatever byte the stream stops.
\<close>

theorem read_fd_truncated:
  assumes "packet_wf p" and "pkt_version p = 0 \<or> pkt_version p = MLRT_PROTO_VERSION"
    and "length rbuf = MLRT_PROTO_MAX_FRAME" and "k < length (frame_bytes p)"
    and "RdFail \<notin> set rs" and "MLRT_PROTO_MAX_FRAME \<le> rd_chunks rs"
  shows "\<exists>rs'. mlrt_packet_read_fd rbuf rs True (take k (frame_bytes p))
    = Some (MLRT_PROTO_EOF, None, [], rs')"
proof -
  have "length (frame_bytes p) \<le> MLRT_PROTO_MAX_FRAME"
    using assms(1) length_frame_bytes [OF assms(1)] by (simp add: packet_wf_def proto_consts)
  with assms show ?thesis by (intro read_fd_truncated_frame) auto
qed

theorem read_fd_truncated_witness:
  "\<exists>rs'. mlrt_packet_read_fd (replicate 526 0) (replicate 526 (RdChunk 3)) True
      (take 13 (frame_bytes sample_packet)) = Some (MLRT_PROTO_EOF, None, [], rs')"
  by (rule read_fd_truncated [OF sample_packet_wf])
    (simp_all add: sample_packet_length, simp_all add: sample_packet_def proto_consts rd_chunks_def)

end
