(* ===== verification/Queue_Spec.thy ===== *)
theory Queue_Spec
  imports Prelude "HOL-Library.Sublist"
begin

text \<open>
  The contract of a bounded first-in first-out queue as the producers and consumers of the
  program rely on it: a push into a full queue either is rejected or displaces the oldest
  element, and each such loss is counted. The lemmas of the locale are about whole sequences of
  operations by any number of callers, in any order.
\<close>

datatype 'a qop = QPush 'a bool | QPop

text \<open>
  A run of operations: the elements whose push was accepted, the elements popped, in order, and
  the final queue.
\<close>

fun qrun :: "('q \<Rightarrow> 'a \<Rightarrow> bool \<Rightarrow> int \<times> 'q) \<Rightarrow> ('q \<Rightarrow> int \<times> 'a option \<times> 'q) \<Rightarrow>
    'a qop list \<Rightarrow> 'q \<Rightarrow> 'a list \<times> 'a list \<times> 'q" where
  "qrun push pop [] q = ([], [], q)"
| "qrun push pop (QPush x ow # ops) q =
     (let (rc, q1) = push q x ow; (acc, popped, q2) = qrun push pop ops q1
      in (if rc = 0 then x # acc else acc, popped, q2))"
| "qrun push pop (QPop # ops) q =
     (let (rc, r, q1) = pop q; (acc, popped, q2) = qrun push pop ops q1
      in (acc, (case r of None \<Rightarrow> popped | Some x \<Rightarrow> x # popped), q2))"

fun qstep :: "('q \<Rightarrow> 'a \<Rightarrow> bool \<Rightarrow> int \<times> 'q) \<Rightarrow> ('q \<Rightarrow> int \<times> 'a option \<times> 'q) \<Rightarrow>
    'a qop \<Rightarrow> 'q \<Rightarrow> 'q" where
  "qstep push pop (QPush x ow) q = snd (push q x ow)"
| "qstep push pop QPop q = snd (snd (pop q))"

lemma qrun_state: "snd (snd (qrun push pop ops q)) = fold (qstep push pop) ops q"
proof (induction ops arbitrary: q)
  case (Cons opn ops)
  then show ?case by (cases opn) (simp_all add: case_prod_unfold Let_def)
qed simp

fun qop_ok :: "('a \<Rightarrow> bool) \<Rightarrow> 'a qop \<Rightarrow> bool" where
  "qop_ok P (QPush x ow) = P x"
| "qop_ok P QPop = True"

fun overwrites :: "'a qop \<Rightarrow> bool" where
  "overwrites (QPush x ow) = ow"
| "overwrites QPop = False"

locale bounded_queue =
  fixes push :: "'q \<Rightarrow> 'a \<Rightarrow> bool \<Rightarrow> int \<times> 'q"
    and pop :: "'q \<Rightarrow> int \<times> 'a option \<times> 'q"
    and items :: "'q \<Rightarrow> 'a list"
    and cap :: "'q \<Rightarrow> nat"
    and drops :: "'q \<Rightarrow> u64"
    and inv :: "'q \<Rightarrow> bool"
    and item_ok :: "'q \<Rightarrow> 'a \<Rightarrow> bool"
  assumes bounded: "inv q \<Longrightarrow> length (items q) \<le> cap q"
    and cap_pos: "inv q \<Longrightarrow> 0 < cap q"
    and push_room: "inv q \<Longrightarrow> item_ok q x \<Longrightarrow> length (items q) < cap q \<Longrightarrow>
      push q x ow = (rc, q') \<Longrightarrow>
      rc = 0 \<and> inv q' \<and> items q' = items q @ [x] \<and> drops q' = drops q"
    and push_reject: "inv q \<Longrightarrow> item_ok q x \<Longrightarrow> length (items q) = cap q \<Longrightarrow>
      push q x False = (rc, q') \<Longrightarrow>
      rc = 1 \<and> inv q' \<and> items q' = items q \<and> drops q' = drops q + 1"
    and push_displace: "inv q \<Longrightarrow> item_ok q x \<Longrightarrow> length (items q) = cap q \<Longrightarrow>
      push q x True = (rc, q') \<Longrightarrow>
      rc = 0 \<and> inv q' \<and> items q' = tl (items q) @ [x] \<and> drops q' = drops q + 1"
    and pop_empty: "inv q \<Longrightarrow> items q = [] \<Longrightarrow> pop q = (rc, r, q') \<Longrightarrow>
      rc = 1 \<and> r = None \<and> q' = q"
    and pop_some: "inv q \<Longrightarrow> items q \<noteq> [] \<Longrightarrow> pop q = (rc, r, q') \<Longrightarrow>
      rc = 0 \<and> r = Some (hd (items q)) \<and> inv q' \<and> items q' = tl (items q) \<and> drops q' = drops q"
    and push_frame: "push q x ow = (rc, q') \<Longrightarrow> cap q' = cap q \<and> item_ok q' = item_ok q"
    and pop_frame: "pop q = (rc, r, q') \<Longrightarrow> cap q' = cap q \<and> item_ok q' = item_ok q"
begin

lemma push_inv:
  assumes "inv q" "item_ok q x" "push q x ow = (rc, q')"
  shows "inv q'"
proof (cases "length (items q) < cap q")
  case True
  then show ?thesis using push_room assms by blast
next
  case False
  then have "length (items q) = cap q" using bounded [OF assms(1)] by simp
  then show ?thesis
    using push_reject [OF assms(1,2), of rc q'] push_displace [OF assms(1,2), of rc q'] assms(3)
    by (cases "ow = True") simp_all
qed

lemma pop_inv: "inv q \<Longrightarrow> pop q = (rc, r, q') \<Longrightarrow> inv q'"
  using pop_empty pop_some by (cases "items q = []") blast+

text \<open>
  A push that never displaces appends to the queue or loses its own element, and the loss
  is counted.
\<close>

lemma push_keep_cases:
  assumes "inv q" "item_ok q x" "push q x False = (rc, q')"
  shows "rc = 0 \<and> items q' = items q @ [x] \<and> drops q' = drops q
    \<or> rc = 1 \<and> items q' = items q \<and> drops q' = drops q + 1 \<and> length (items q) = cap q"
proof (cases "length (items q) < cap q")
  case True
  then show ?thesis using push_room assms by blast
next
  case False
  then have "length (items q) = cap q" using bounded [OF assms(1)] by simp
  then show ?thesis using push_reject assms by blast
qed

text \<open>
  FIFO with conservation: when no push displaces, what was in the queue followed by what was
  accepted is what was popped followed by what is left, and the drop counter has advanced by
  the number of rejected pushes.
\<close>

lemma run_fifo:
  assumes "inv q" "list_all (qop_ok (item_ok q)) ops" "\<not> list_ex overwrites ops"
    and "qrun push pop ops q = (acc, popped, q')"
  shows "items q @ acc = popped @ items q' \<and> inv q' \<and>
    drops q' + of_nat (length acc) =
      drops q + of_nat (length (filter (\<lambda>opn. opn \<noteq> QPop) ops))"
  using assms
proof (induction ops arbitrary: q acc popped)
  case Nil
  then show ?case by simp
next
  case (Cons opn ops)
  show ?case
  proof (cases opn)
    case (QPush x ow)
    with Cons.prems have ow: "\<not> ow" and x: "item_ok q x" by auto
    obtain rc q1 where p: "push q x False = (rc, q1)" by fastforce
    obtain acc1 popped1 where r: "qrun push pop ops q1 = (acc1, popped1, q')"
      using Cons.prems(4) p QPush ow by (auto split: prod.splits)
    have "item_ok q1 = item_ok q" using push_frame [OF p] by simp
    then have IH: "items q1 @ acc1 = popped1 @ items q' \<and> inv q' \<and>
        drops q' + of_nat (length acc1) =
          drops q1 + of_nat (length (filter (\<lambda>opn. opn \<noteq> QPop) ops))"
      using Cons.prems r push_inv [OF Cons.prems(1) x p] by (intro Cons.IH) auto
    have out: "popped = popped1" "acc = (if rc = 0 then x # acc1 else acc1)"
      using Cons.prems(4) p r QPush ow by auto
    from push_keep_cases [OF Cons.prems(1) x p] IH out QPush show ?thesis
      by (auto simp: algebra_simps)
  next
    case QPop
    obtain rc r q1 where p: "pop q = (rc, r, q1)" by (cases "pop q") auto
    obtain acc1 popped1 where rr: "qrun push pop ops q1 = (acc1, popped1, q')"
      using Cons.prems(4) p QPop by (auto split: prod.splits)
    have "item_ok q1 = item_ok q" using pop_frame [OF p] by simp
    then have IH: "items q1 @ acc1 = popped1 @ items q' \<and> inv q' \<and>
        drops q' + of_nat (length acc1) =
          drops q1 + of_nat (length (filter (\<lambda>opn. opn \<noteq> QPop) ops))"
      using Cons.prems rr pop_inv [OF Cons.prems(1) p] by (intro Cons.IH) auto
    have out: "acc = acc1" "popped = (case r of None \<Rightarrow> popped1 | Some x \<Rightarrow> x # popped1)"
      using Cons.prems(4) p rr QPop by auto
    show ?thesis
    proof (cases "items q = []")
      case True
      with pop_empty [OF Cons.prems(1) True p] IH out QPop show ?thesis by auto
    next
      case False
      with pop_some [OF Cons.prems(1) False p] IH out QPop show ?thesis
        by (auto simp: neq_Nil_conv)
    qed
  qed
qed

text \<open>With displacing pushes, order is still kept: nothing is duplicated or reordered.\<close>

lemma run_order:
  assumes "inv q" "list_all (qop_ok (item_ok q)) ops"
    and "qrun push pop ops q = (acc, popped, q')"
  shows "subseq (popped @ items q') (items q @ acc) \<and> inv q' \<and> cap q' = cap q"
  using assms
proof (induction ops arbitrary: q acc popped)
  case Nil
  then show ?case by simp
next
  case (Cons opn ops)
  show ?case
  proof (cases opn)
    case (QPush x ow)
    with Cons.prems have x: "item_ok q x" by auto
    obtain rc q1 where p: "push q x ow = (rc, q1)" by fastforce
    obtain acc1 popped1 where r: "qrun push pop ops q1 = (acc1, popped1, q')"
      using Cons.prems(3) p QPush by (auto split: prod.splits)
    have fr: "item_ok q1 = item_ok q" "cap q1 = cap q" using push_frame [OF p] by simp_all
    then have IH: "subseq (popped1 @ items q') (items q1 @ acc1)" "inv q'" "cap q' = cap q"
      using Cons.IH [of q1 acc1 popped1] Cons.prems r push_inv [OF Cons.prems(1) x p] by auto
    have out: "popped = popped1" "acc = (if rc = 0 then x # acc1 else acc1)"
      using Cons.prems(3) p r QPush by auto
    have "subseq (items q1 @ acc1) (items q @ acc)"
    proof (cases "length (items q) < cap q")
      case True
      from push_room [OF Cons.prems(1) x True p] out show ?thesis by simp
    next
      case False
      then have full: "length (items q) = cap q" using bounded [OF Cons.prems(1)] by simp
      show ?thesis
      proof (cases ow)
        case True
        with push_displace [OF Cons.prems(1) x full] p out cap_pos [OF Cons.prems(1)] full
        show ?thesis by (cases "items q") auto
      next
        case False
        with push_reject [OF Cons.prems(1) x full] p out show ?thesis by auto
      qed
    qed
    with IH out show ?thesis using subseq_order.trans by blast
  next
    case QPop
    obtain rc r q1 where p: "pop q = (rc, r, q1)" by (cases "pop q") auto
    obtain acc1 popped1 where rr: "qrun push pop ops q1 = (acc1, popped1, q')"
      using Cons.prems(3) p QPop by (auto split: prod.splits)
    have fr: "item_ok q1 = item_ok q" "cap q1 = cap q" using pop_frame [OF p] by simp_all
    then have IH: "subseq (popped1 @ items q') (items q1 @ acc1)" "inv q'" "cap q' = cap q"
      using Cons.IH [of q1 acc1 popped1] Cons.prems rr pop_inv [OF Cons.prems(1) p] by auto
    have out: "acc = acc1" "popped = (case r of None \<Rightarrow> popped1 | Some x \<Rightarrow> x # popped1)"
      using Cons.prems(3) p rr QPop by auto
    show ?thesis
    proof (cases "items q = []")
      case True
      with pop_empty [OF Cons.prems(1) True p] IH out show ?thesis by auto
    next
      case False
      with pop_some [OF Cons.prems(1) False p] IH out show ?thesis
        by (auto simp: neq_Nil_conv)
    qed
  qed
qed

text \<open>A burst of displacing pushes leaves the most recent elements, oldest first.\<close>

lemma run_latest:
  assumes "inv q" "list_all (item_ok q) xs"
    and "qrun push pop (map (\<lambda>x. QPush x True) xs) q = (acc, popped, q')"
  shows "items q' = drop (length (items q) + length xs - cap q) (items q @ xs) \<and> inv q' \<and>
    drops q' = drops q + of_nat (length (items q) + length xs - cap q) \<and> acc = xs \<and> popped = []"
  using assms
proof (induction xs arbitrary: q acc popped)
  case Nil
  then show ?case using bounded [of q] by auto
next
  case (Cons x xs)
  from Cons.prems have x: "item_ok q x" by simp
  obtain rc q1 where p: "push q x True = (rc, q1)" by fastforce
  obtain acc1 popped1 where r: "qrun push pop (map (\<lambda>x. QPush x True) xs) q1 = (acc1, popped1, q')"
    using Cons.prems(3) p by (auto split: prod.splits)
  have fr: "item_ok q1 = item_ok q" "cap q1 = cap q" using push_frame [OF p] by simp_all
  then have IH: "items q' = drop (length (items q1) + length xs - cap q) (items q1 @ xs)" "inv q'"
      "drops q' = drops q1 + of_nat (length (items q1) + length xs - cap q)" "acc1 = xs" "popped1 = []"
    using Cons.IH [of q1 acc1 popped1] Cons.prems r push_inv [OF Cons.prems(1) x p] by auto
  have out: "popped = popped1" "acc = (if rc = 0 then x # acc1 else acc1)"
    using Cons.prems(3) p r by auto
  show ?case
  proof (cases "length (items q) < cap q")
    case True
    from push_room [OF Cons.prems(1) x True p] out IH show ?thesis by simp
  next
    case False
    then have full: "length (items q) = cap q" using bounded [OF Cons.prems(1)] by simp
    then obtain y ys where ys: "items q = y # ys" using cap_pos [OF Cons.prems(1)]
      by (cases "items q") auto
    have c: "cap q = Suc (length ys)" using full ys by simp
    from push_displace [OF Cons.prems(1) x full p] out IH ys show ?thesis
      by (simp add: c)
  qed
qed

end

end
