(* ===== verification/Ring_Buffer.thy ===== *)
theory Ring_Buffer
  imports Queue_Spec
begin

text \<open>
  The bounded ring of \<^verbatim>\<open>realtime/ring_buffer.c\<close> over the caller's byte storage. Every
  operation is one critical section of the ring's mutex, so an operation is one step on the
  state; only \<open>pthread_cond_wait\<close> and \<open>pthread_cond_timedwait\<close> release the mutex in the
  middle, and there the operations of the other threads appear explicitly. A null pointer is
  \<open>None\<close>. \<open>size_t\<close> fields are natural numbers; that none of their sums and products leaves
  the range of \<open>size_t\<close> is part of what is proved. The drop counter is 64 bits wide and wraps.
\<close>

section \<open>State and operations\<close>

record mlrt_ring_buffer =
  rb_storage :: "byte list"
  rb_capacity :: nat
  rb_item_size :: nat
  rb_head :: nat
  rb_tail :: nat
  rb_count :: nat
  rb_high_water :: nat
  rb_dropped :: u64
  rb_lock :: bool
  rb_not_empty :: bool

record mlrt_ring_stats =
  st_count :: nat
  st_capacity :: nat
  st_high_water :: nat
  st_dropped :: u64

definition slot :: "mlrt_ring_buffer \<Rightarrow> nat \<Rightarrow> nat" where
  "slot rb index = index * rb_item_size rb"

text \<open>
  \<open>mlrt_ring_init\<close>: the results of the four \<open>pthread\<close> calls are parameters. The fields
  \<open>rb_lock\<close> and \<open>rb_not_empty\<close> say whether the mutex and the condition variable are
  initialised; the last component of the result says whether the attribute object is left
  initialised.
\<close>

record pthread_results =
  mutex_init_rc :: int
  condattr_init_rc :: int
  condattr_setclock_rc :: int
  cond_init_rc :: int

definition ring_reset :: "byte list \<Rightarrow> nat \<Rightarrow> nat \<Rightarrow> mlrt_ring_buffer" where
  "ring_reset mem capacity item_size =
     \<lparr>rb_storage = mem, rb_capacity = capacity, rb_item_size = item_size,
      rb_head = 0, rb_tail = 0, rb_count = 0, rb_high_water = 0, rb_dropped = 0,
      rb_lock = False, rb_not_empty = False\<rparr>"

definition mlrt_ring_init ::
  "pthread_results \<Rightarrow> mlrt_ring_buffer option \<Rightarrow> byte list option \<Rightarrow> nat \<Rightarrow> nat \<Rightarrow>
    int \<times> mlrt_ring_buffer option \<times> bool" where
  "mlrt_ring_init os rb storage capacity item_size =
     (case (rb, storage) of
        (Some old, Some mem) \<Rightarrow>
          if capacity = 0 \<or> item_size = 0 \<or> capacity > SIZE_MAX div item_size then (-1, rb, False)
          else
            let rb0 = ring_reset mem capacity item_size
            in if mutex_init_rc os \<noteq> 0 then (-1, Some rb0, False)
               else if condattr_init_rc os \<noteq> 0 then (-1, Some (rb0\<lparr>rb_lock := False\<rparr>), False)
               else
                 let rb1 = rb0\<lparr>rb_lock := True\<rparr>;
                     rc = condattr_setclock_rc os;
                     (rc, rb2) = (if rc = 0
                                  then (cond_init_rc os, rb1\<lparr>rb_not_empty := (cond_init_rc os = 0)\<rparr>)
                                  else (rc, rb1))
                 in if rc \<noteq> 0 then (-1, Some (rb2\<lparr>rb_lock := False\<rparr>), False)
                    else (0, Some rb2, False)
      | _ \<Rightarrow> (-1, rb, False))"

definition mlrt_ring_destroy :: "mlrt_ring_buffer option \<Rightarrow> mlrt_ring_buffer option" where
  "mlrt_ring_destroy rb = map_option (\<lambda>r. r\<lparr>rb_not_empty := False, rb_lock := False\<rparr>) rb"

text \<open>The critical section of \<open>mlrt_ring_push\<close>, then the function with its null checks.\<close>

definition ring_drop_oldest :: "mlrt_ring_buffer \<Rightarrow> mlrt_ring_buffer" where
  "ring_drop_oldest rb =
     rb\<lparr>rb_tail := (rb_tail rb + 1) mod rb_capacity rb, rb_count := rb_count rb - 1,
        rb_dropped := rb_dropped rb + 1\<rparr>"

definition ring_store :: "mlrt_ring_buffer \<Rightarrow> byte list \<Rightarrow> mlrt_ring_buffer" where
  "ring_store rb item =
     rb\<lparr>rb_storage := write_at (slot rb (rb_head rb)) (take (rb_item_size rb) item) (rb_storage rb),
        rb_head := (rb_head rb + 1) mod rb_capacity rb,
        rb_count := rb_count rb + 1,
        rb_high_water := (if rb_count rb + 1 > rb_high_water rb then rb_count rb + 1
                          else rb_high_water rb)\<rparr>"

definition ring_push_cs :: "mlrt_ring_buffer \<Rightarrow> byte list \<Rightarrow> bool \<Rightarrow> int \<times> mlrt_ring_buffer" where
  "ring_push_cs rb item overwrite_oldest =
     (if rb_count rb = rb_capacity rb \<and> \<not> overwrite_oldest
      then (1, rb\<lparr>rb_dropped := rb_dropped rb + 1\<rparr>)
      else
        let rb1 = (if rb_count rb = rb_capacity rb then ring_drop_oldest rb else rb)
        in (0, ring_store rb1 item))"

definition mlrt_ring_push ::
  "mlrt_ring_buffer option \<Rightarrow> byte list option \<Rightarrow> int \<Rightarrow> int \<times> mlrt_ring_buffer option" where
  "mlrt_ring_push rb item overwrite_oldest =
     (case (rb, item) of
        (Some r, Some x) \<Rightarrow>
          let (rc, r') = ring_push_cs r x (overwrite_oldest \<noteq> 0) in (rc, Some r')
      | _ \<Rightarrow> (-1, rb))"

definition ring_take :: "mlrt_ring_buffer \<Rightarrow> byte list \<times> mlrt_ring_buffer" where
  "ring_take rb =
     (slice (slot rb (rb_tail rb)) (rb_item_size rb) (rb_storage rb),
      rb\<lparr>rb_tail := (rb_tail rb + 1) mod rb_capacity rb, rb_count := rb_count rb - 1\<rparr>)"

definition ring_pop_cs :: "mlrt_ring_buffer \<Rightarrow> int \<times> byte list option \<times> mlrt_ring_buffer" where
  "ring_pop_cs rb =
     (if rb_count rb = 0 then (1, None, rb)
      else let (item, rb') = ring_take rb in (0, Some item, rb'))"

text \<open>
  \<open>mlrt_ring_pop\<close>: \<open>out\<close> says whether the caller gave a buffer; the second component of the
  result is what is copied into it, if anything.
\<close>

definition mlrt_ring_pop ::
  "mlrt_ring_buffer option \<Rightarrow> bool \<Rightarrow> int \<times> byte list option \<times> mlrt_ring_buffer option" where
  "mlrt_ring_pop rb out =
     (case rb of
        Some r \<Rightarrow> if \<not> out then (-1, None, rb)
                  else let (rc, item, r') = ring_pop_cs r in (rc, item, Some r')
      | None \<Rightarrow> (-1, None, rb))"

record timespec =
  tv_sec :: int
  tv_nsec :: int

text \<open>C's division and remainder truncate towards zero; the caller has \<open>timeout_ms >= 0\<close>.\<close>

definition deadline_from_now :: "timespec \<Rightarrow> int \<Rightarrow> timespec" where
  "deadline_from_now now timeout_ms =
     (let sec = tv_sec now + sgn timeout_ms * (\<bar>timeout_ms\<bar> div 1000);
          nsec = tv_nsec now + sgn timeout_ms * (\<bar>timeout_ms\<bar> mod 1000) * 1000000
      in if nsec \<ge> 1000000000 then \<lparr>tv_sec = sec + 1, tv_nsec = nsec - 1000000000\<rparr>
         else \<lparr>tv_sec = sec, tv_nsec = nsec\<rparr>)"

definition ETIMEDOUT :: int where "ETIMEDOUT = 110"

text \<open>
  One wait on \<open>not_empty\<close>: while the mutex is released the other threads run their pushes and
  pops, then the wait returns its code at some time of the monotonic clock. A wait that is not
  in the schedule has not returned: \<open>wait_loop\<close> is then \<open>None\<close>.
\<close>

record wait_event =
  we_others :: "byte list qop list"
  we_rc :: int
  we_time :: timespec

definition ring_run :: "byte list qop list \<Rightarrow> mlrt_ring_buffer \<Rightarrow> mlrt_ring_buffer" where
  "ring_run ops rb = fold (qstep ring_push_cs ring_pop_cs) ops rb"

fun wait_loop ::
  "bool \<Rightarrow> wait_event list \<Rightarrow> mlrt_ring_buffer \<Rightarrow>
    (int \<times> byte list option \<times> mlrt_ring_buffer) option" where
  "wait_loop timed evs rb =
     (if rb_count rb = 0 then
        (case evs of
           [] \<Rightarrow> None
         | ev # evs' \<Rightarrow>
             let rb' = ring_run (we_others ev) rb in
             if \<not> timed then
               (if we_rc ev \<noteq> 0 then Some (-1, None, rb') else wait_loop timed evs' rb')
             else if we_rc ev = ETIMEDOUT then Some (1, None, rb')
             else if we_rc ev \<noteq> 0 then Some (-1, None, rb')
             else wait_loop timed evs' rb')
      else let (item, rb') = ring_take rb in Some (0, Some item, rb'))"

declare wait_loop.simps [simp del]

text \<open>
  \<open>mlrt_ring_wait_pop\<close>. The deadline it computes is handed to every timed wait; the schedule of
  a timed wait is a function of it.
\<close>

definition mlrt_ring_wait_pop ::
  "timespec \<Rightarrow> (timespec option \<Rightarrow> wait_event list) \<Rightarrow> mlrt_ring_buffer option \<Rightarrow> bool \<Rightarrow> int \<Rightarrow>
    (int \<times> byte list option \<times> mlrt_ring_buffer option) option" where
  "mlrt_ring_wait_pop now waits rb out timeout_ms =
     (case rb of
        None \<Rightarrow> Some (-1, None, rb)
      | Some r \<Rightarrow>
          if \<not> out then Some (-1, None, rb)
          else
            let deadline = (if timeout_ms \<ge> 0 then Some (deadline_from_now now timeout_ms) else None)
            in map_option (\<lambda>(rc, item, r'). (rc, item, Some r'))
                 (wait_loop (timeout_ms \<ge> 0) (waits deadline) r))"

definition mlrt_ring_get_stats ::
  "mlrt_ring_buffer option \<Rightarrow> mlrt_ring_stats option \<Rightarrow> mlrt_ring_stats option" where
  "mlrt_ring_get_stats rb stats =
     (case (rb, stats) of
        (Some r, Some s) \<Rightarrow>
          Some \<lparr>st_count = rb_count r, st_capacity = rb_capacity r,
                st_high_water = rb_high_water r, st_dropped = rb_dropped r\<rparr>
      | _ \<Rightarrow> stats)"

section \<open>Invariant and abstraction\<close>

definition ring_inv :: "mlrt_ring_buffer \<Rightarrow> bool" where
  "ring_inv rb \<longleftrightarrow> 0 < rb_capacity rb \<and> 0 < rb_item_size rb \<and>
     rb_capacity rb * rb_item_size rb \<le> SIZE_MAX \<and>
     rb_capacity rb * rb_item_size rb \<le> length (rb_storage rb) \<and>
     rb_tail rb < rb_capacity rb \<and> rb_count rb \<le> rb_capacity rb \<and>
     rb_head rb = (rb_tail rb + rb_count rb) mod rb_capacity rb \<and>
     rb_count rb \<le> rb_high_water rb \<and> rb_high_water rb \<le> rb_capacity rb \<and>
     rb_lock rb \<and> rb_not_empty rb"

definition ring_items :: "mlrt_ring_buffer \<Rightarrow> byte list list" where
  "ring_items rb =
     map (\<lambda>i. slice (slot rb ((rb_tail rb + i) mod rb_capacity rb)) (rb_item_size rb) (rb_storage rb))
       [0..<rb_count rb]"

definition ring_item_ok :: "mlrt_ring_buffer \<Rightarrow> byte list \<Rightarrow> bool" where
  "ring_item_ok rb item \<longleftrightarrow> length item = rb_item_size rb"

lemma length_ring_items [simp]: "length (ring_items rb) = rb_count rb"
  by (simp add: ring_items_def)

lemma ring_items_Nil_iff [simp]: "ring_items rb = [] \<longleftrightarrow> rb_count rb = 0"
  by (simp add: ring_items_def)

lemma slot_end_le:
  assumes "ring_inv rb" "i < rb_capacity rb"
  shows "slot rb i + rb_item_size rb \<le> rb_capacity rb * rb_item_size rb"
proof -
  have "slot rb i + rb_item_size rb = Suc i * rb_item_size rb" by (simp add: slot_def)
  also have "\<dots> \<le> rb_capacity rb * rb_item_size rb" using assms(2) by (intro mult_le_mono1) simp
  finally show ?thesis .
qed

lemma slot_in_storage:
  "ring_inv rb \<Longrightarrow> i < rb_capacity rb \<Longrightarrow> slot rb i + rb_item_size rb \<le> length (rb_storage rb)"
  using slot_end_le [of rb i] by (auto simp: ring_inv_def)

lemma slots_disjoint:
  assumes "i \<noteq> j"
  shows "slot rb i + rb_item_size rb \<le> slot rb j \<or> slot rb j + rb_item_size rb \<le> slot rb i"
proof -
  have "Suc i \<le> j \<or> Suc j \<le> i" using assms by linarith
  then have "Suc i * rb_item_size rb \<le> j * rb_item_size rb \<or> Suc j * rb_item_size rb \<le> i * rb_item_size rb"
    using mult_le_mono1 by blast
  then show ?thesis by (simp add: slot_def add.commute)
qed

lemma ring_store_spec:
  assumes inv: "ring_inv rb" and room: "rb_count rb < rb_capacity rb"
    and len: "length item = rb_item_size rb"
  shows "ring_inv (ring_store rb item) \<and> ring_items (ring_store rb item) = ring_items rb @ [item]"
proof -
  let ?c = "rb_capacity rb" and ?h = "rb_head rb" and ?sz = "rb_item_size rb"
  let ?st = "write_at (slot rb ?h) item (rb_storage rb)"
  have h: "?h < ?c" "?h = (rb_tail rb + rb_count rb) mod ?c" using inv by (auto simp: ring_inv_def)
  have fit: "slot rb ?h + ?sz \<le> length (rb_storage rb)" using slot_in_storage inv h by blast
  have same: "slice (slot rb ?h) ?sz ?st = item"
    using fit len by (simp add: slice_write_at_same)
  have old: "slice (slot rb ((rb_tail rb + i) mod ?c)) ?sz ?st =
      slice (slot rb ((rb_tail rb + i) mod ?c)) ?sz (rb_storage rb)" if i: "i < rb_count rb" for i
  proof -
    have lt: "(rb_tail rb + i) mod ?c < ?c" using inv by (simp add: ring_inv_def)
    have "(rb_tail rb + i) mod ?c \<noteq> ?h"
      using mod_add_inj [of i ?c "rb_count rb" "rb_tail rb"] h(2) i room by auto
    then show ?thesis
      using slots_disjoint [of "(rb_tail rb + i) mod ?c" ?h rb] fit len slot_in_storage [OF inv lt]
      by (intro slice_write_at_disjoint) auto
  qed
  have "ring_items (ring_store rb item) = ring_items rb @ [item]"
    using same old h(2) len by (simp add: ring_items_def ring_store_def slot_def)
  moreover have "ring_inv (ring_store rb item)"
    using inv room len fit by (auto simp: ring_inv_def ring_store_def)
  ultimately show ?thesis by simp
qed

lemma ring_items_Cons:
  assumes "ring_inv rb" "0 < rb_count rb"
  shows "ring_items rb = fst (ring_take rb) # ring_items (snd (ring_take rb))"
proof -
  obtain n where n: "rb_count rb = Suc n" using assms(2) gr0_implies_Suc by blast
  have "[0..<Suc n] = 0 # map Suc [0..<n]" by (simp add: map_Suc_upt upt_conv_Cons del: upt_Suc)
  then show ?thesis
    using assms(1) n
    by (simp add: ring_items_def ring_take_def slot_def ring_inv_def comp_def del: upt_Suc)
qed

lemma ring_advance_inv:
  assumes "ring_inv rb" "0 < rb_count rb"
  shows "ring_inv (snd (ring_take rb))"
proof -
  obtain n where "rb_count rb = Suc n" using assms(2) gr0_implies_Suc by blast
  with assms(1) show ?thesis by (auto simp: ring_inv_def ring_take_def)
qed

lemma ring_drop_oldest_take:
  "ring_drop_oldest rb = (snd (ring_take rb))\<lparr>rb_dropped := rb_dropped rb + 1\<rparr>"
  by (simp add: ring_drop_oldest_def ring_take_def)

lemma ring_dropped_irrelevant [simp]:
  "ring_inv (rb\<lparr>rb_dropped := d\<rparr>) = ring_inv rb"
  "ring_items (rb\<lparr>rb_dropped := d\<rparr>) = ring_items rb"
  by (simp_all add: ring_inv_def ring_items_def slot_def)

lemma ring_drop_oldest_spec:
  assumes "ring_inv rb" "rb_count rb = rb_capacity rb"
  shows "ring_inv (ring_drop_oldest rb) \<and> ring_items (ring_drop_oldest rb) = tl (ring_items rb)"
proof -
  have "0 < rb_count rb" using assms by (simp add: ring_inv_def)
  then show ?thesis
    using ring_items_Cons [OF assms(1)] ring_advance_inv [OF assms(1)]
    by (simp add: ring_drop_oldest_take)
qed

lemma ring_op_frame [simp]:
  "rb_capacity (ring_store rb x) = rb_capacity rb" "rb_item_size (ring_store rb x) = rb_item_size rb"
  "rb_dropped (ring_store rb x) = rb_dropped rb"
  "rb_capacity (ring_drop_oldest rb) = rb_capacity rb"
  "rb_item_size (ring_drop_oldest rb) = rb_item_size rb"
  "rb_dropped (ring_drop_oldest rb) = rb_dropped rb + 1"
  "rb_count (ring_drop_oldest rb) = rb_count rb - 1"
  "rb_capacity (snd (ring_take rb)) = rb_capacity rb"
  "rb_item_size (snd (ring_take rb)) = rb_item_size rb"
  "rb_dropped (snd (ring_take rb)) = rb_dropped rb"
  by (simp_all add: ring_store_def ring_drop_oldest_def ring_take_def)

text \<open>The ring is the bounded queue of its items.\<close>

interpretation ring: bounded_queue ring_push_cs ring_pop_cs ring_items rb_capacity rb_dropped
    ring_inv ring_item_ok
proof unfold_locales
  show "length (ring_items q) \<le> rb_capacity q" if "ring_inv q" for q
    using that by (simp add: ring_inv_def)
  show "0 < rb_capacity q" if "ring_inv q" for q
    using that by (simp add: ring_inv_def)
  show "rc = 0 \<and> ring_inv q' \<and> ring_items q' = ring_items q @ [x] \<and> rb_dropped q' = rb_dropped q"
    if "ring_inv q" "ring_item_ok q x" "length (ring_items q) < rb_capacity q"
      "ring_push_cs q x ow = (rc, q')" for q x ow rc q'
    using that ring_store_spec [of q x] by (auto simp: ring_push_cs_def ring_item_ok_def)
  show "rc = 1 \<and> ring_inv q' \<and> ring_items q' = ring_items q \<and> rb_dropped q' = rb_dropped q + 1"
    if "ring_inv q" "length (ring_items q) = rb_capacity q"
      "ring_push_cs q x False = (rc, q')" for q x rc q'
    using that by (auto simp: ring_push_cs_def)
  show "rc = 0 \<and> ring_inv q' \<and> ring_items q' = tl (ring_items q) @ [x] \<and>
      rb_dropped q' = rb_dropped q + 1"
    if "ring_inv q" "ring_item_ok q x" "length (ring_items q) = rb_capacity q"
      "ring_push_cs q x True = (rc, q')" for q x rc q'
  proof -
    have d: "ring_inv (ring_drop_oldest q)" "ring_items (ring_drop_oldest q) = tl (ring_items q)"
      using ring_drop_oldest_spec that by simp_all
    have "0 < rb_capacity q" using that(1) by (simp add: ring_inv_def)
    then show ?thesis
      using that d ring_store_spec [of "ring_drop_oldest q" x]
      by (auto simp: ring_push_cs_def ring_item_ok_def)
  qed
  show "rc = 1 \<and> r = None \<and> q' = q"
    if "ring_items q = []" "ring_pop_cs q = (rc, r, q')" for q rc r q'
    using that by (auto simp: ring_pop_cs_def)
  show "rc = 0 \<and> r = Some (hd (ring_items q)) \<and> ring_inv q' \<and> ring_items q' = tl (ring_items q) \<and>
      rb_dropped q' = rb_dropped q"
    if "ring_inv q" "ring_items q \<noteq> []" "ring_pop_cs q = (rc, r, q')" for q rc r q'
    using that ring_items_Cons [of q] ring_advance_inv [of q]
    by (auto simp: ring_pop_cs_def split: prod.splits)
       (metis fst_conv snd_conv list.sel(1) list.sel(3) ring_op_frame(10))+
  show "rb_capacity q' = rb_capacity q \<and> ring_item_ok q' = ring_item_ok q"
    if "ring_push_cs q x ow = (rc, q')" for q x ow rc q'
    using that by (auto simp: ring_push_cs_def ring_item_ok_def fun_eq_iff Let_def split: if_splits)
  show "rb_capacity q' = rb_capacity q \<and> ring_item_ok q' = ring_item_ok q"
    if "ring_pop_cs q = (rc, r, q')" for q rc r q'
    using that
    by (auto simp: ring_pop_cs_def ring_take_def ring_item_ok_def fun_eq_iff Let_def split: if_splits)
qed

section \<open>Lemmas the properties share\<close>

lemma ring_reset_flags [simp]:
  "(ring_reset mem c n)\<lparr>rb_lock := False\<rparr> = ring_reset mem c n"
  "\<not> rb_lock (ring_reset mem c n)" "\<not> rb_not_empty (ring_reset mem c n)"
  "(ring_reset mem c n)\<lparr>rb_lock := False, rb_not_empty := False\<rparr> = ring_reset mem c n"
  by (simp_all add: ring_reset_def)

definition pthread_ok :: "pthread_results \<Rightarrow> bool" where
  "pthread_ok os \<longleftrightarrow> mutex_init_rc os = 0 \<and> condattr_init_rc os = 0 \<and>
     condattr_setclock_rc os = 0 \<and> cond_init_rc os = 0"

definition ring_args_ok :: "nat \<Rightarrow> nat \<Rightarrow> bool" where
  "ring_args_ok capacity item_size \<longleftrightarrow> 0 < capacity \<and> 0 < item_size \<and> capacity * item_size \<le> SIZE_MAX"

lemma ring_args_check:
  "ring_args_ok capacity item_size \<longleftrightarrow>
     \<not> (capacity = 0 \<or> item_size = 0 \<or> capacity > SIZE_MAX div item_size)"
  by (auto simp: ring_args_ok_def not_less less_eq_div_iff_mult_less_eq)

lemma mlrt_ring_init_eq:
  "mlrt_ring_init os (Some old) (Some mem) capacity item_size =
     (if \<not> ring_args_ok capacity item_size then (-1, Some old, False)
      else if pthread_ok os
      then (0, Some ((ring_reset mem capacity item_size)\<lparr>rb_lock := True, rb_not_empty := True\<rparr>), False)
      else (-1, Some (ring_reset mem capacity item_size), False))"
  unfolding ring_args_check mlrt_ring_init_def pthread_ok_def
  by (cases "mutex_init_rc os = 0"; cases "condattr_init_rc os = 0";
      cases "condattr_setclock_rc os = 0"; cases "cond_init_rc os = 0") (simp_all add: Let_def)

lemma ring_init_ok:
  assumes "mlrt_ring_init os (Some old) (Some mem) capacity item_size = (0, Some rb0, attr)"
    and "capacity * item_size \<le> length mem"
  shows "ring_inv rb0 \<and> ring_items rb0 = [] \<and> rb_dropped rb0 = 0 \<and> rb_capacity rb0 = capacity \<and>
    rb_item_size rb0 = item_size \<and> rb_storage rb0 = mem"
proof -
  have "ring_args_ok capacity item_size"
    "rb0 = (ring_reset mem capacity item_size)\<lparr>rb_lock := True, rb_not_empty := True\<rparr>"
    using assms(1) by (simp_all add: mlrt_ring_init_eq split: if_splits)
  with assms(2) show ?thesis
    by (simp add: ring_inv_def ring_items_def ring_args_ok_def ring_reset_def)
qed

lemma ring_run_inv:
  assumes "ring_inv rb" "list_all (qop_ok (ring_item_ok rb)) ops"
  shows "ring_inv (ring_run ops rb)"
  using ring.run_order [OF assms, of "fst (qrun ring_push_cs ring_pop_cs ops rb)"
    "fst (snd (qrun ring_push_cs ring_pop_cs ops rb))" "ring_run ops rb"]
  by (simp add: ring_run_def flip: qrun_state)

lemma ring_store_frame:
  assumes "rb_head rb < rb_capacity rb" "length x = rb_item_size rb"
    and "rb_capacity rb * rb_item_size rb \<le> length (rb_storage rb)"
  shows "length (rb_storage (ring_store rb x)) = length (rb_storage rb) \<and>
    drop (rb_capacity rb * rb_item_size rb) (rb_storage (ring_store rb x)) =
      drop (rb_capacity rb * rb_item_size rb) (rb_storage rb)"
proof -
  have "slot rb (rb_head rb) + rb_item_size rb = Suc (rb_head rb) * rb_item_size rb"
    by (simp add: slot_def)
  also have "\<dots> \<le> rb_capacity rb * rb_item_size rb" using assms(1) by (intro mult_le_mono1) simp
  finally have *: "slot rb (rb_head rb) + rb_item_size rb \<le> rb_capacity rb * rb_item_size rb" .
  with assms(2,3) show ?thesis by (simp add: ring_store_def write_at_def)
qed

lemma ring_push_cs_frame:
  assumes inv: "ring_inv rb" and x: "ring_item_ok rb x" and p: "ring_push_cs rb x ow = (rc, rb')"
  shows "length (rb_storage rb') = length (rb_storage rb) \<and>
    drop (rb_capacity rb * rb_item_size rb) (rb_storage rb') =
      drop (rb_capacity rb * rb_item_size rb) (rb_storage rb) \<and> rb_item_size rb' = rb_item_size rb"
proof (cases "rb_count rb = rb_capacity rb \<and> \<not> ow")
  case True
  with p show ?thesis by (auto simp: ring_push_cs_def)
next
  case False
  define rb1 where "rb1 = (if rb_count rb = rb_capacity rb then ring_drop_oldest rb else rb)"
  have rb': "rb' = ring_store rb1 x" using p False by (simp add: ring_push_cs_def rb1_def)
  have same: "rb_storage rb1 = rb_storage rb" "rb_capacity rb1 = rb_capacity rb"
      "rb_item_size rb1 = rb_item_size rb" "rb_head rb1 = rb_head rb"
    by (simp_all add: rb1_def ring_drop_oldest_def)
  have "rb_head rb < rb_capacity rb" using inv by (auto simp: ring_inv_def)
  with ring_store_frame [of rb1 x] x inv show ?thesis
    by (simp add: rb' same ring_item_ok_def ring_inv_def)
qed

lemma ring_push_api:
  "mlrt_ring_push (Some q) (Some x) 0 = (fst (ring_push_cs q x False), Some (snd (ring_push_cs q x False)))"
  by (simp add: mlrt_ring_push_def case_prod_unfold Let_def)

lemma push_counts:
  "ring_push_cs q x False =
     (if rb_count q = rb_capacity q then (1, q\<lparr>rb_dropped := rb_dropped q + 1\<rparr>) else (0, ring_store q x))"
  by (simp add: ring_push_cs_def)

lemma ring_store_counts [simp]: "rb_count (ring_store q x) = rb_count q + 1"
  by (simp add: ring_store_def)

lemma push_sample:
  assumes "ring_inv q" "rb_item_size q = n" "length x = n"
  shows "ring_inv (snd (ring_push_cs q x False)) \<and> rb_item_size (snd (ring_push_cs q x False)) = n"
proof -
  have x: "ring_item_ok q x" using assms by (simp add: ring_item_ok_def)
  obtain rc q' where p: "ring_push_cs q x False = (rc, q')" by fastforce
  from ring.push_inv [OF assms(1) x p] ring_push_cs_frame [OF assms(1) x p] assms(2) p show ?thesis by simp
qed

lemma ring_pop_cs_frame:
  "ring_pop_cs rb = (rc, r, rb') \<Longrightarrow> rb_storage rb' = rb_storage rb \<and> rb_item_size rb' = rb_item_size rb"
  by (auto simp: ring_pop_cs_def ring_take_def split: if_splits)

lemma ring_run_frame:
  assumes "ring_inv rb" "list_all (qop_ok (ring_item_ok rb)) ops"
  shows "length (rb_storage (ring_run ops rb)) = length (rb_storage rb) \<and>
    drop (rb_capacity rb * rb_item_size rb) (rb_storage (ring_run ops rb)) =
      drop (rb_capacity rb * rb_item_size rb) (rb_storage rb) \<and>
    rb_item_size (ring_run ops rb) = rb_item_size rb \<and> rb_capacity (ring_run ops rb) = rb_capacity rb"
  using assms
proof (induction ops arbitrary: rb)
  case Nil
  then show ?case by (simp add: ring_run_def)
next
  case (Cons opn ops)
  show ?case
  proof (cases opn)
    case (QPush x ow)
    obtain rc rb1 where p: "ring_push_cs rb x ow = (rc, rb1)" by fastforce
    have x: "ring_item_ok rb x" using Cons.prems QPush by simp
    have "ring_run (opn # ops) rb = ring_run ops rb1"
      using p QPush by (simp add: ring_run_def)
    with Cons.IH [of rb1] Cons.prems ring.push_inv [OF Cons.prems(1) x p] ring.push_frame [OF p]
      ring_push_cs_frame [OF Cons.prems(1) x p] show ?thesis by simp
  next
    case QPop
    obtain rc r rb1 where p: "ring_pop_cs rb = (rc, r, rb1)" by (cases "ring_pop_cs rb") auto
    have "ring_run (opn # ops) rb = ring_run ops rb1"
      using p QPop by (simp add: ring_run_def)
    with Cons.IH [of rb1] Cons.prems ring.pop_inv [OF Cons.prems(1) p] ring.pop_frame [OF p]
      ring_pop_cs_frame [OF p] show ?thesis by simp
  qed
qed

lemma wait_loop_Nil_count: "rb_count rb = 0 \<Longrightarrow> wait_loop timed [] rb = None"
  by (simp add: wait_loop.simps)

lemma wait_loop_Cons:
  "rb_count rb = 0 \<Longrightarrow> wait_loop timed (ev # evs) rb =
     (let rb' = ring_run (we_others ev) rb in
      if we_rc ev = 0 then wait_loop timed evs rb'
      else if timed \<and> we_rc ev = ETIMEDOUT then Some (1, None, rb')
      else Some (-1, None, rb'))"
  by (subst wait_loop.simps) (cases timed; simp add: ETIMEDOUT_def Let_def)

lemma wait_loop_ready:
  "rb_count rb \<noteq> 0 \<Longrightarrow> wait_loop timed evs rb =
     Some (0, Some (fst (ring_take rb)), snd (ring_take rb))"
  by (subst wait_loop.simps) (simp split: prod.splits)

text \<open>
  The other threads' operations over a prefix of the waits, and what a finished wait tells:
  it has seen all earlier waits return 0 on an empty ring.
\<close>

lemma ring_run_Nil [simp]: "ring_run [] rb = rb"
  by (simp add: ring_run_def)

definition others_before :: "nat \<Rightarrow> wait_event list \<Rightarrow> byte list qop list" where
  "others_before n evs = concat (map we_others (take n evs))"

lemma ring_run_append: "ring_run (xs @ ys) rb = ring_run ys (ring_run xs rb)"
  by (simp add: ring_run_def)

lemma wait_loop_result:
  assumes "wait_loop timed evs rb = Some (rc, item, rb')"
  shows "\<exists>n \<le> length evs. let now = ring_run (others_before n evs) rb in
     rc = 0 \<and> rb_count now \<noteq> 0 \<and> item = Some (fst (ring_take now)) \<and> rb' = snd (ring_take now)
   \<or> rc = 1 \<and> timed \<and> item = None \<and> rb' = now \<and> 0 < n \<and> we_rc (evs ! (n - 1)) = ETIMEDOUT
   \<or> rc = -1 \<and> item = None \<and> rb' = now \<and> 0 < n \<and> we_rc (evs ! (n - 1)) \<noteq> 0"
  using assms
proof (induction evs arbitrary: rb)
  case Nil
  then show ?case
    by (cases "rb_count rb = 0") (auto simp: wait_loop_Nil_count wait_loop_ready others_before_def)
next
  case (Cons ev evs)
  show ?case
  proof (cases "rb_count rb = 0")
    case False
    with Cons.prems show ?thesis by (intro exI [of _ 0]) (auto simp: wait_loop_ready others_before_def)
  next
    case True
    show ?thesis
    proof (cases "we_rc ev = 0")
      case rc0: True
      with Cons.prems True have "wait_loop timed evs (ring_run (we_others ev) rb) = Some (rc, item, rb')"
        by (simp add: wait_loop_Cons Let_def)
      from Cons.IH [OF this] obtain n where n: "n \<le> length evs"
        "let now = ring_run (others_before n evs) (ring_run (we_others ev) rb) in
           rc = 0 \<and> rb_count now \<noteq> 0 \<and> item = Some (fst (ring_take now)) \<and> rb' = snd (ring_take now)
         \<or> rc = 1 \<and> timed \<and> item = None \<and> rb' = now \<and> 0 < n \<and> we_rc (evs ! (n - 1)) = ETIMEDOUT
         \<or> rc = -1 \<and> item = None \<and> rb' = now \<and> 0 < n \<and> we_rc (evs ! (n - 1)) \<noteq> 0" by blast
      have "others_before (Suc n) (ev # evs) = we_others ev @ others_before n evs"
        by (simp add: others_before_def)
      with n show ?thesis
        by (intro exI [of _ "Suc n"]) (auto simp: ring_run_append Let_def nth_Cons' simp del: One_nat_def)
    next
      case False
      with Cons.prems True show ?thesis
        by (intro exI [of _ 1]) (auto simp: wait_loop_Cons Let_def others_before_def split: if_splits)
    qed
  qed
qed

text \<open>A wait in whose course the other threads leave something in the ring returns an item.\<close>

lemma wait_loop_returns:
  assumes "n < length evs" "\<forall>i \<le> n. we_rc (evs ! i) = 0"
    and "rb_count (ring_run (others_before (Suc n) evs) rb) \<noteq> 0"
  shows "\<exists>item rb'. wait_loop timed evs rb = Some (0, Some item, rb')"
  using assms
proof (induction evs arbitrary: n rb)
  case (Cons ev evs)
  show ?case
  proof (cases "rb_count rb = 0")
    case True
    let ?rb = "ring_run (we_others ev) rb"
    have "we_rc ev = 0" using Cons.prems(2) by (metis le0 nth_Cons_0)
    then have eq: "wait_loop timed (ev # evs) rb = wait_loop timed evs ?rb"
      using True by (simp add: wait_loop_Cons Let_def)
    show ?thesis
    proof (cases n)
      case 0
      then have "rb_count ?rb \<noteq> 0" using Cons.prems(3) by (simp add: others_before_def)
      then show ?thesis by (simp add: eq wait_loop_ready)
    next
      case (Suc m)
      have "rb_count (ring_run (others_before (Suc m) evs) ?rb) \<noteq> 0"
        using Cons.prems(3) Suc by (simp add: others_before_def flip: ring_run_append)
      moreover have "\<forall>i \<le> m. we_rc (evs ! i) = 0" using Cons.prems(2) Suc
        by (metis Suc_le_mono nth_Cons_Suc)
      ultimately show ?thesis using Cons.IH [of m ?rb] Cons.prems(1) Suc eq by simp
    qed
  qed (simp add: wait_loop_ready)
qed simp

definition ts_ns :: "timespec \<Rightarrow> int" where
  "ts_ns t = tv_sec t * 1000000000 + tv_nsec t"

lemma deadline_ns:
  assumes "0 \<le> timeout_ms"
  shows "ts_ns (deadline_from_now now timeout_ms) = ts_ns now + timeout_ms * 1000000"
proof -
  have "timeout_ms = timeout_ms div 1000 * 1000 + timeout_ms mod 1000" by simp
  then have "(timeout_ms div 1000) * 1000000000 + (timeout_ms mod 1000) * 1000000 = timeout_ms * 1000000"
    by linarith
  with assms show ?thesis
    by (cases "timeout_ms = 0") (simp_all add: ts_ns_def deadline_from_now_def Let_def sgn_if algebra_simps)
qed

lemma deadline_normalised:
  assumes "0 \<le> timeout_ms" "0 \<le> tv_nsec now" "tv_nsec now < 1000000000"
  shows "0 \<le> tv_nsec (deadline_from_now now timeout_ms) \<and>
    tv_nsec (deadline_from_now now timeout_ms) < 1000000000"
proof -
  have "0 \<le> timeout_ms mod 1000" "timeout_ms mod 1000 < 1000" by simp_all
  with assms show ?thesis
    by (auto simp: deadline_from_now_def Let_def sgn_if)
qed

section \<open>Properties\<close>

text \<open>
  C5. FIFO and conservation: from a freshly initialised ring, after any sequence of pushes
  without overwriting and pops by any threads, the accepted items are exactly the popped items
  followed by the items still stored, in order; and the drop counter is the number of pushes
  that were rejected.
\<close>

theorem ring_fifo:
  assumes "mlrt_ring_init os (Some old) (Some mem) capacity item_size = (0, Some rb0, attr)"
    and "capacity * item_size \<le> length mem"
    and "list_all (qop_ok (\<lambda>x. length x = item_size)) ops" and "\<not> list_ex overwrites ops"
    and "qrun ring_push_cs ring_pop_cs ops rb0 = (accepted, popped, rb)"
  shows "accepted = popped @ ring_items rb \<and>
    rb_dropped rb + of_nat (length accepted) = of_nat (length (filter (\<lambda>opn. opn \<noteq> QPop) ops)) \<and>
    length (ring_items rb) \<le> capacity"
proof -
  have init: "ring_inv rb0" "ring_items rb0 = []" "rb_dropped rb0 = 0" "rb_capacity rb0 = capacity"
      "rb_item_size rb0 = item_size"
    using ring_init_ok [OF assms(1,2)] by simp_all
  have ok: "list_all (qop_ok (ring_item_ok rb0)) ops"
    using assms(3) init(5) by (simp add: ring_item_ok_def [abs_def])
  show ?thesis
    using ring.run_fifo [OF init(1) ok assms(4,5)] ring.run_order [OF init(1) ok assms(5)] init
      ring.bounded [of rb] by auto
qed

definition sample_ring :: mlrt_ring_buffer where
  "sample_ring = (ring_reset [0, 0, 0, 0, 9] 2 2)\<lparr>rb_lock := True, rb_not_empty := True\<rparr>"

definition pthread_all_ok :: pthread_results where
  "pthread_all_ok =
     \<lparr>mutex_init_rc = 0, condattr_init_rc = 0, condattr_setclock_rc = 0, cond_init_rc = 0\<rparr>"

lemma sample_ring_init:
  "mlrt_ring_init pthread_all_ok (Some (ring_reset [] 0 0)) (Some [0, 0, 0, 0, 9]) 2 2 =
     (0, Some sample_ring, False)"
  by (simp add: mlrt_ring_init_eq ring_args_ok_def pthread_ok_def pthread_all_ok_def sample_ring_def
      SIZE_MAX_def)

lemmas ring_eval = ring_push_cs_def ring_pop_cs_def ring_store_def ring_drop_oldest_def ring_take_def
  slot_def write_at_def slice_def ring_items_def sample_ring_def ring_reset_def

theorem ring_fifo_witness:
  "let ops = [QPush [1, 2] False, QPush [3, 4] False, QPush [5, 6] False, QPop];
       (accepted, popped, rb) = qrun ring_push_cs ring_pop_cs ops sample_ring
   in accepted = [[1, 2], [3, 4]] \<and> popped = [[1, 2]] \<and> accepted = popped @ ring_items rb \<and>
      rb_dropped rb = 1"
  using ring_fifo [OF sample_ring_init, of "[QPush [1, 2] False, QPush [3, 4] False, QPush [5, 6] False, QPop]"]
  by (simp add: ring_eval)

text \<open>
  A producer that overwrites keeps the latest data: after a burst of overwriting pushes the
  ring holds the last items of what it held followed by the burst, as many as fit, oldest
  first; every push succeeds, and the drop counter grows by the number of displaced items.
\<close>

theorem ring_overwrite_keeps_latest:
  assumes "ring_inv rb" "list_all (\<lambda>x. length x = rb_item_size rb) xs"
    and "qrun ring_push_cs ring_pop_cs (map (\<lambda>x. QPush x True) xs) rb = (accepted, popped, rb')"
  shows "accepted = xs \<and>
    ring_items rb' = drop (rb_count rb + length xs - rb_capacity rb) (ring_items rb @ xs) \<and>
    rb_dropped rb' = rb_dropped rb + of_nat (rb_count rb + length xs - rb_capacity rb) \<and> ring_inv rb'"
  using ring.run_latest [OF assms(1) _ assms(3)] assms(2) by (simp add: ring_item_ok_def [abs_def])

theorem ring_overwrite_keeps_latest_witness:
  "let xs = [[1, 2], [3, 4], [5, 6]];
       (accepted, popped, rb) = qrun ring_push_cs ring_pop_cs (map (\<lambda>x. QPush x True) xs) sample_ring
   in ring_items rb = [[3, 4], [5, 6]] \<and> rb_dropped rb = 1"
proof -
  have "ring_inv sample_ring" using ring_init_ok [OF sample_ring_init] by simp
  from ring_overwrite_keeps_latest [OF this, of "[[1, 2], [3, 4], [5, 6]]"] show ?thesis
    by (simp add: ring_eval)
qed

text \<open>
  C7. Memory safety: whatever pushes and pops have run since initialisation, the slot the next
  push writes and the slot the next pop reads lie inside the capacity * item_size bytes the caller
  gave, the index arithmetic stays within \<open>size_t\<close>, the count and the high-water mark stay
  within the capacity, and no byte behind the ring's area has changed.
\<close>

theorem ring_memory_safe:
  assumes "mlrt_ring_init os (Some old) (Some mem) capacity item_size = (0, Some rb0, attr)"
    and "capacity * item_size \<le> length mem"
    and "list_all (qop_ok (\<lambda>x. length x = item_size)) ops"
  shows "let rb = ring_run ops rb0 in
    slot rb (rb_head rb) + item_size \<le> capacity * item_size \<and>
    slot rb (rb_tail rb) + item_size \<le> capacity * item_size \<and>
    rb_head rb + 1 \<le> SIZE_MAX \<and> rb_tail rb + 1 \<le> SIZE_MAX \<and> capacity * item_size \<le> SIZE_MAX \<and>
    rb_count rb \<le> rb_high_water rb \<and> rb_high_water rb \<le> capacity \<and>
    length (rb_storage rb) = length mem \<and>
    drop (capacity * item_size) (rb_storage rb) = drop (capacity * item_size) mem"
proof -
  have init: "ring_inv rb0" "rb_capacity rb0 = capacity" "rb_item_size rb0 = item_size"
      "rb_storage rb0 = mem"
    using ring_init_ok [OF assms(1,2)] by simp_all
  have ok: "list_all (qop_ok (ring_item_ok rb0)) ops"
    using assms(3) init(3) by (simp add: ring_item_ok_def [abs_def])
  define rb where "rb = ring_run ops rb0"
  have inv: "ring_inv rb" using ring_run_inv [OF init(1) ok] by (simp add: rb_def)
  have fr: "length (rb_storage rb) = length mem" "rb_item_size rb = item_size" "rb_capacity rb = capacity"
      "drop (capacity * item_size) (rb_storage rb) = drop (capacity * item_size) mem"
    using ring_run_frame [OF init(1) ok] init by (simp_all add: rb_def)
  have idx: "rb_head rb < capacity" "rb_tail rb < capacity" using inv fr by (auto simp: ring_inv_def)
  have "capacity * 1 \<le> capacity * item_size" using inv fr by (intro mult_le_mono2) (auto simp: ring_inv_def)
  moreover have le: "capacity * item_size \<le> SIZE_MAX" using inv fr by (simp add: ring_inv_def)
  ultimately have "rb_head rb + 1 \<le> SIZE_MAX" "rb_tail rb + 1 \<le> SIZE_MAX" using idx by linarith+
  with slot_end_le [OF inv, of "rb_head rb"] slot_end_le [OF inv, of "rb_tail rb"] idx fr inv le
  show ?thesis by (simp add: ring_inv_def flip: rb_def)
qed

theorem ring_memory_safe_witness:
  "let rb = ring_run [QPush [1, 2] False, QPush [3, 4] True, QPop, QPush [5, 6] True] sample_ring in
   slot rb (rb_head rb) + 2 \<le> 4 \<and> drop 4 (rb_storage rb) = [9]"
  using ring_memory_safe [OF sample_ring_init,
      of "[QPush [1, 2] False, QPush [3, 4] True, QPop, QPush [5, 6] True]"]
  by (simp add: Let_def)

text \<open>
  Initialisation is all or nothing: it succeeds exactly when both pointers are given, the
  sizes are positive, their product fits in \<open>size_t\<close> and all four system calls succeed; on
  failure no mutex, condition variable or attribute object it created is left initialised.
\<close>

theorem ring_init_all_or_nothing:
  assumes "mlrt_ring_init os rb storage capacity item_size = (rc, rb', attr)"
  shows "(rc = 0 \<longleftrightarrow> rb \<noteq> None \<and> storage \<noteq> None \<and> 0 < capacity \<and> 0 < item_size \<and>
        capacity * item_size \<le> SIZE_MAX \<and> pthread_ok os) \<and>
    (rc \<noteq> 0 \<longrightarrow> rc = -1 \<and> \<not> attr \<and> (rb' = rb \<or> rb' = Some (ring_reset (the storage) capacity item_size))) \<and>
    (rc = 0 \<longrightarrow> \<not> attr \<and>
       rb' = Some ((ring_reset (the storage) capacity item_size)\<lparr>rb_lock := True, rb_not_empty := True\<rparr>))"
proof (cases "rb = None \<or> storage = None")
  case True
  with assms show ?thesis by (cases rb; cases storage) (auto simp: mlrt_ring_init_def)
next
  case False
  then obtain old mem where "rb = Some old" "storage = Some mem" by auto
  with assms show ?thesis
    by (cases "ring_args_ok capacity item_size"; cases "pthread_ok os")
       (auto simp: mlrt_ring_init_eq ring_args_ok_def)
qed

theorem ring_init_all_or_nothing_witness:
  "mlrt_ring_init (pthread_all_ok\<lparr>cond_init_rc := 12\<rparr>) (Some sample_ring) (Some [0, 0]) 2 1 =
     (-1, Some (ring_reset [0, 0] 2 1), False)"
proof -
  obtain rc rb attr where *: "mlrt_ring_init (pthread_all_ok\<lparr>cond_init_rc := 12\<rparr>) (Some sample_ring)
      (Some [0, 0]) 2 1 = (rc, rb, attr)" by (metis prod_cases3)
  have "rb = Some (ring_reset [0, 0] 2 1)"
    using * by (auto simp: mlrt_ring_init_eq ring_args_ok_def pthread_ok_def SIZE_MAX_def pthread_all_ok_def)
  with ring_init_all_or_nothing [OF *] * show ?thesis by (simp add: pthread_ok_def)
qed

text \<open>
  What a blocking pop reports: 0 with the oldest item of the ring as the other threads left
  it, which is then removed; 1 only if it was given a timeout and that many milliseconds have
  passed on the monotonic clock since the call; -1 only if a wait failed. The deadline it waits
  for is a normalised time. (The condition variable is assumed not to report a timeout before
  the deadline it was given.)
\<close>

theorem wait_pop_outcome:
  assumes "mlrt_ring_wait_pop now waits (Some rb) True timeout_ms = Some (rc, item, Some rb')"
    and "ring_inv rb" and "0 \<le> tv_nsec now" "tv_nsec now < 1000000000"
    and ops: "\<forall>d. \<forall>ev \<in> set (waits d). list_all (qop_ok (ring_item_ok rb)) (we_others ev)"
    and timed: "\<forall>d. \<forall>ev \<in> set (waits (Some d)). we_rc ev = ETIMEDOUT \<longrightarrow> ts_ns d \<le> ts_ns (we_time ev)"
  shows "\<exists>evs n. evs \<in> range waits \<and> n \<le> length evs \<and>
    (let here = ring_run (others_before n evs) rb; deadline = deadline_from_now now timeout_ms in
     rc = 0 \<and> item = Some (hd (ring_items here)) \<and> ring_items rb' = tl (ring_items here) \<and> ring_inv rb'
   \<or> rc = 1 \<and> item = None \<and> rb' = here \<and> 0 \<le> timeout_ms \<and> 0 < n \<and>
       ts_ns now + timeout_ms * 1000000 \<le> ts_ns (we_time (evs ! (n - 1))) \<and>
       0 \<le> tv_nsec deadline \<and> tv_nsec deadline < 1000000000
   \<or> rc = -1 \<and> item = None \<and> rb' = here \<and> 0 < n \<and> we_rc (evs ! (n - 1)) \<noteq> 0)"
proof -
  let ?d = "if timeout_ms \<ge> 0 then Some (deadline_from_now now timeout_ms) else None"
  let ?evs = "waits ?d"
  have "wait_loop (timeout_ms \<ge> 0) ?evs rb = Some (rc, item, rb')"
    using assms(1) by (auto simp: mlrt_ring_wait_pop_def Let_def)
  from wait_loop_result [OF this] obtain n where n: "n \<le> length ?evs"
    and cases: "let here = ring_run (others_before n ?evs) rb in
       rc = 0 \<and> rb_count here \<noteq> 0 \<and> item = Some (fst (ring_take here)) \<and> rb' = snd (ring_take here)
     \<or> rc = 1 \<and> timeout_ms \<ge> 0 \<and> item = None \<and> rb' = here \<and> 0 < n \<and> we_rc (?evs ! (n - 1)) = ETIMEDOUT
     \<or> rc = -1 \<and> item = None \<and> rb' = here \<and> 0 < n \<and> we_rc (?evs ! (n - 1)) \<noteq> 0" by blast
  let ?here = "ring_run (others_before n ?evs) rb"
  have "list_all (qop_ok (ring_item_ok rb)) (others_before n ?evs)"
    using ops by (auto simp: others_before_def list_all_iff dest!: in_set_takeD)
  then have inv: "ring_inv ?here" using ring_run_inv [OF assms(2)] by simp
  from cases consider
      (got) "rc = 0" "rb_count ?here \<noteq> 0" "item = Some (fst (ring_take ?here))" "rb' = snd (ring_take ?here)"
    | (timeout) "rc = 1" "0 \<le> timeout_ms" "item = None" "rb' = ?here" "0 < n"
        "we_rc (?evs ! (n - 1)) = ETIMEDOUT"
    | (failed) "rc = -1" "item = None" "rb' = ?here" "0 < n" "we_rc (?evs ! (n - 1)) \<noteq> 0"
    unfolding Let_def by blast
  then show ?thesis
  proof cases
    case got
    then show ?thesis
      using ring_items_Cons [OF inv] ring_advance_inv [OF inv] n
      by (intro exI [of _ ?evs] exI [of _ n]) (simp add: Let_def)
  next
    case timeout
    then have "?evs ! (n - 1) \<in> set ?evs" using n by simp
    then have "ts_ns (deadline_from_now now timeout_ms) \<le> ts_ns (we_time (?evs ! (n - 1)))"
      using timed timeout by auto
    then show ?thesis
      using timeout n deadline_ns [of timeout_ms now] deadline_normalised [of timeout_ms now] assms(3,4)
      by (intro exI [of _ ?evs] exI [of _ n]) (simp add: Let_def)
  next
    case failed
    then show ?thesis using n by (intro exI [of _ ?evs] exI [of _ n]) (simp add: Let_def)
  qed
qed

definition sample_wait :: "timespec option \<Rightarrow> wait_event list" where
  "sample_wait d = (case d of None \<Rightarrow> []
     | Some t \<Rightarrow> [\<lparr>we_others = [QPush [7, 8] False, QPop], we_rc = 0, we_time = t\<rparr>,
                  \<lparr>we_others = [QPush [1, 2] False], we_rc = 0, we_time = t\<rparr>])"

lemma sample_ring_inv: "ring_inv sample_ring"
  using ring_init_ok [OF sample_ring_init] by simp

lemma sample_wait_pop:
  "mlrt_ring_wait_pop \<lparr>tv_sec = 1, tv_nsec = 999000000\<rparr> sample_wait (Some sample_ring) True 2 =
     Some (0, Some [1, 2], Some (snd (ring_take (ring_run [QPush [7, 8] False, QPop, QPush [1, 2] False]
       sample_ring))))"
  by (simp add: mlrt_ring_wait_pop_def sample_wait_def wait_loop_Cons wait_loop_ready ring_run_def ring_eval
      Let_def)

lemma sample_wait_ok:
  "\<forall>d. \<forall>ev \<in> set (sample_wait d). list_all (qop_ok (ring_item_ok sample_ring)) (we_others ev)"
  "\<forall>d. \<forall>ev \<in> set (sample_wait (Some d)). we_rc ev = ETIMEDOUT \<longrightarrow> ts_ns d \<le> ts_ns (we_time ev)"
  by (auto simp: sample_wait_def ring_item_ok_def sample_ring_def ring_reset_def split: option.splits)

theorem wait_pop_outcome_witness:
  "\<exists>evs n. evs \<in> range sample_wait \<and> n \<le> length evs \<and>
     Some [1, 2] = Some (hd (ring_items (ring_run (others_before n evs) sample_ring)))"
  using wait_pop_outcome [OF sample_wait_pop sample_ring_inv _ _ sample_wait_ok]
  unfolding Let_def by simp blast

text \<open>
  A blocking pop does return: as soon as a wait comes back without error and the other
  threads have left at least one item, the pop delivers an item, with or without a timeout.
\<close>

theorem wait_pop_returns:
  assumes "n < length evs" "\<forall>i \<le> n. we_rc (evs ! i) = 0"
    and "rb_count (ring_run (others_before (Suc n) evs) rb) \<noteq> 0"
    and "waits (if timeout_ms \<ge> 0 then Some (deadline_from_now now timeout_ms) else None) = evs"
  shows "\<exists>item rb'. mlrt_ring_wait_pop now waits (Some rb) True timeout_ms = Some (0, Some item, Some rb')"
proof -
  obtain item rb' where "wait_loop (timeout_ms \<ge> 0) evs rb = Some (0, Some item, rb')"
    using wait_loop_returns [OF assms(1-3)] by blast
  with assms(4) show ?thesis by (simp add: mlrt_ring_wait_pop_def)
qed

theorem wait_pop_returns_witness:
  "\<exists>item rb'. mlrt_ring_wait_pop \<lparr>tv_sec = 1, tv_nsec = 0\<rparr>
      (\<lambda>d. [\<lparr>we_others = [QPush [1, 2] False], we_rc = 0, we_time = \<lparr>tv_sec = 1, tv_nsec = 5\<rparr>\<rparr>])
      (Some sample_ring) True (-1) = Some (0, Some item, Some rb')"
  by (rule wait_pop_returns [where n = 0 and
        evs = "[\<lparr>we_others = [QPush [1, 2] False], we_rc = 0, we_time = \<lparr>tv_sec = 1, tv_nsec = 5\<rparr>\<rparr>]"])
     (simp_all add: others_before_def ring_run_def ring_eval)

end
