(* ===== verification/Nic_Model.thy ===== *)
theory Nic_Model
  imports Prelude "HOL-Library.Sublist"
begin

text \<open>
  The software network card of \<^verbatim>\<open>firmware/nic_model.c\<close>: two descriptor rings shared by one
  driver thread (submit, reclaim, receive) and one device thread (step), with an owner word per
  descriptor. The two loops are split at their iterations, so that driver calls can fall between
  two iterations of the device. The specification is a loopback with two bounded queues; the
  rings simulate it event by event.
\<close>

section \<open>State\<close>

datatype nic_owner = NIC_FREE | NIC_DEVICE | NIC_DONE

definition NIC_MAX_RING :: nat where "NIC_MAX_RING = 64"
definition NIC_MTU :: nat where "NIC_MTU = 1536"
definition NIC_IRQ_TX :: u32 where "NIC_IRQ_TX = 1"
definition NIC_IRQ_RX :: u32 where "NIC_IRQ_RX = 2"
definition NIC_IRQ_ERROR :: u32 where "NIC_IRQ_ERROR = 4"

record nic_descriptor =
  owner :: nic_owner
  d_length :: nat
  d_error :: u32
  d_buffer :: "byte list"

record nic_model =
  tx :: "nic_descriptor list"
  rx :: "nic_descriptor list"
  capacity :: nat
  tx_submit_cursor :: nat
  tx_reclaim_cursor :: nat
  device_tx_cursor :: nat
  device_rx_cursor :: nat
  rx_consume_cursor :: nat
  tx_head :: nat
  tx_tail :: nat
  rx_head :: nat
  rx_tail :: nat
  irq_status :: u32
  inject_fault :: u32
  tx_completed :: u64
  rx_completed :: u64
  rx_no_buffer :: u64
  tx_errors :: u64

section \<open>Operations\<close>

definition zero_descriptor :: "nic_owner \<Rightarrow> nic_descriptor" where
  "zero_descriptor own =
     \<lparr>owner = own, d_length = 0, d_error = 0, d_buffer = replicate NIC_MTU 0\<rparr>"

definition nic_reset :: "nat \<Rightarrow> nic_model" where
  "nic_reset cap =
     \<lparr>tx = replicate NIC_MAX_RING (zero_descriptor NIC_FREE),
      rx = replicate NIC_MAX_RING (zero_descriptor NIC_DEVICE),
      capacity = cap, tx_submit_cursor = 0, tx_reclaim_cursor = 0, device_tx_cursor = 0,
      device_rx_cursor = 0, rx_consume_cursor = 0, tx_head = 0, tx_tail = 0, rx_head = 0,
      rx_tail = 0, irq_status = 0, inject_fault = 0, tx_completed = 0, rx_completed = 0,
      rx_no_buffer = 0, tx_errors = 0\<rparr>"

definition nic_model_init :: "nic_model option \<Rightarrow> nat \<Rightarrow> int \<times> nic_model option" where
  "nic_model_init n cap =
     (if n = None \<or> cap = 0 \<or> cap > NIC_MAX_RING then (-1, n)
      else (0, Some (nic_reset cap)))"

definition nic_tx_submit ::
  "nic_model option \<Rightarrow> byte list option \<Rightarrow> nat \<Rightarrow> int \<times> nic_model option" where
  "nic_tx_submit n packet len =
     (case (n, packet) of
        (Some m, Some p) \<Rightarrow>
          if len = 0 \<or> len > NIC_MTU then (-1, n)
          else
            let i = tx_submit_cursor m; d = tx m ! i
            in if owner d \<noteq> NIC_FREE then (1, n)
               else
                 let d' = d\<lparr>d_buffer := write_at 0 (take len p) (d_buffer d), d_length := len,
                            d_error := 0, owner := NIC_DEVICE\<rparr>;
                     cur = (tx_submit_cursor m + 1) mod capacity m
                 in (0, Some (m\<lparr>tx := (tx m)[i := d'], tx_submit_cursor := cur, tx_tail := cur\<rparr>))
      | _ \<Rightarrow> (-1, n))"

text \<open>
  One iteration of the loop of \<open>nic_device_step\<close>: \<open>None\<close> when it leaves the loop at the owner
  test.
\<close>

definition nic_deliver :: "nic_model \<Rightarrow> nic_descriptor \<Rightarrow> nic_model" where
  "nic_deliver m t =
     (let j = device_rx_cursor m; r = rx m ! j
      in if owner r \<noteq> NIC_DEVICE then m\<lparr>rx_no_buffer := rx_no_buffer m + 1\<rparr>
         else
           let r' = r\<lparr>d_buffer := write_at 0 (take (d_length t) (d_buffer t)) (d_buffer r),
                      d_length := d_length t, d_error := 0, owner := NIC_DONE\<rparr>;
               cur = (device_rx_cursor m + 1) mod capacity m
           in m\<lparr>rx := (rx m)[j := r'], device_rx_cursor := cur, rx_tail := cur,
                rx_completed := rx_completed m + 1, irq_status := irq_status m OR NIC_IRQ_RX\<rparr>)"

definition nic_device_iter :: "nic_model \<Rightarrow> nic_model option" where
  "nic_device_iter m =
     (let i = device_tx_cursor m; t = tx m ! i
      in if owner t \<noteq> NIC_DEVICE then None
         else
           let error = inject_fault m;
               m1 = m\<lparr>inject_fault := 0\<rparr>;
               m2 = (if error \<noteq> 0 \<or> d_length t = 0 \<or> d_length t > NIC_MTU
                     then m1\<lparr>tx := (tx m1)[i := t\<lparr>d_error := 1\<rparr>], tx_errors := tx_errors m1 + 1,
                             irq_status := irq_status m1 OR NIC_IRQ_ERROR\<rparr>
                     else nic_deliver m1 t);
               cur = (device_tx_cursor m2 + 1) mod capacity m2
           in Some (m2\<lparr>tx_completed := tx_completed m2 + 1,
                       tx := (tx m2)[i := (tx m2 ! i)\<lparr>owner := NIC_DONE\<rparr>],
                       device_tx_cursor := cur, tx_head := cur,
                       irq_status := irq_status m2 OR NIC_IRQ_TX\<rparr>))"

fun device_loop :: "nat \<Rightarrow> nat \<Rightarrow> nic_model \<Rightarrow> nat \<times> nic_model" where
  "device_loop 0 finished m = (finished, m)"
| "device_loop (Suc left) finished m =
     (case nic_device_iter m of
        None \<Rightarrow> (finished, m)
      | Some m' \<Rightarrow> device_loop left (finished + 1) m')"

definition nic_device_step :: "nic_model option \<Rightarrow> nat \<Rightarrow> nat \<times> nic_model option" where
  "nic_device_step n budget =
     (case n of
        None \<Rightarrow> (0, n)
      | Some m \<Rightarrow>
          let budget = (if budget > capacity m then capacity m else budget);
              (finished, m') = device_loop budget 0 m
          in (finished, Some m'))"

text \<open>One iteration of \<open>nic_tx_reclaim\<close> also returns the error word of the descriptor.\<close>

definition nic_reclaim_iter :: "nic_model \<Rightarrow> (u32 \<times> nic_model) option" where
  "nic_reclaim_iter m =
     (let i = tx_reclaim_cursor m; d = tx m ! i
      in if owner d \<noteq> NIC_DONE then None
         else Some (d_error d,
           m\<lparr>tx := (tx m)[i := d\<lparr>owner := NIC_FREE\<rparr>],
             tx_reclaim_cursor := (tx_reclaim_cursor m + 1) mod capacity m\<rparr>))"

fun reclaim_loop :: "nat \<Rightarrow> nat \<Rightarrow> nat option \<Rightarrow> nic_model \<Rightarrow> nat \<times> nat option \<times> nic_model" where
  "reclaim_loop 0 finished errors m = (finished, errors, m)"
| "reclaim_loop (Suc left) finished errors m =
     (case nic_reclaim_iter m of
        None \<Rightarrow> (finished, errors, m)
      | Some (err, m') \<Rightarrow>
          reclaim_loop left (finished + 1)
            (case errors of None \<Rightarrow> None | Some k \<Rightarrow> Some (if err \<noteq> 0 then k + 1 else k)) m')"

text \<open>\<open>errors\<close> is the caller's out-parameter, \<open>None\<close> for a null pointer.\<close>

definition nic_tx_reclaim ::
  "nic_model option \<Rightarrow> nat option \<Rightarrow> nat \<times> nat option \<times> nic_model option" where
  "nic_tx_reclaim n errors =
     (let errors = (case errors of None \<Rightarrow> None | Some _ \<Rightarrow> Some 0)
      in case n of
           None \<Rightarrow> (0, errors, n)
         | Some m \<Rightarrow>
             let (finished, errors, m') = reclaim_loop (capacity m) 0 errors m
             in (finished, errors, Some m'))"

text \<open>
  \<open>ptrs\<close> says that the caller gave both a buffer and a length pointer; on success the frame is
  what is copied into the buffer, its length what is stored through the pointer.
\<close>

definition nic_rx_receive ::
  "nic_model option \<Rightarrow> bool \<Rightarrow> nat \<Rightarrow> int \<times> byte list option \<times> nic_model option" where
  "nic_rx_receive n ptrs cap =
     (case n of
        None \<Rightarrow> (-1, None, n)
      | Some m \<Rightarrow>
          if \<not> ptrs then (-1, None, n)
          else
            let i = rx_consume_cursor m; d = rx m ! i
            in if owner d \<noteq> NIC_DONE then (1, None, n)
               else if cap < d_length d then (-1, None, n)
               else
                 let cur = (rx_consume_cursor m + 1) mod capacity m
                 in (0, Some (take (d_length d) (d_buffer d)),
                     Some (m\<lparr>rx := (rx m)[i := d\<lparr>owner := NIC_DEVICE\<rparr>],
                             rx_consume_cursor := cur, rx_head := cur\<rparr>)))"

definition nic_take_interrupts :: "nic_model option \<Rightarrow> u32 \<times> nic_model option" where
  "nic_take_interrupts n =
     (case n of None \<Rightarrow> (0, n) | Some m \<Rightarrow> (irq_status m, Some (m\<lparr>irq_status := 0\<rparr>)))"

definition nic_inject_tx_error :: "nic_model option \<Rightarrow> nic_model option" where
  "nic_inject_tx_error n = map_option (\<lambda>m. m\<lparr>inject_fault := 1\<rparr>) n"

section \<open>The card as an event machine\<close>

datatype nic_event = Submit "byte list" | DeviceIter | ReclaimIter | Receive nat | TakeIrq | Inject

datatype nic_out = Rc int | Worked bool | Reclaimed "bool option" | Frame int "byte list option"
  | Irq u32 | Unit

fun nic_event_step :: "nic_event \<Rightarrow> nic_model \<Rightarrow> nic_out \<times> nic_model" where
  "nic_event_step (Submit p) m =
     (let (rc, n) = nic_tx_submit (Some m) (Some p) (length p) in (Rc rc, the n))"
| "nic_event_step DeviceIter m =
     (case nic_device_iter m of None \<Rightarrow> (Worked False, m) | Some m' \<Rightarrow> (Worked True, m'))"
| "nic_event_step ReclaimIter m =
     (case nic_reclaim_iter m of
        None \<Rightarrow> (Reclaimed None, m) | Some (e, m') \<Rightarrow> (Reclaimed (Some (e \<noteq> 0)), m'))"
| "nic_event_step (Receive cap) m =
     (let (rc, f, n) = nic_rx_receive (Some m) True cap in (Frame rc f, the n))"
| "nic_event_step TakeIrq m = (let (v, n) = nic_take_interrupts (Some m) in (Irq v, the n))"
| "nic_event_step Inject m = (Unit, the (nic_inject_tx_error (Some m)))"

section \<open>Specification: a loopback with bounded queues\<close>

record nic_spec =
  sp_cap :: nat
  sp_done :: "bool list"
  sp_pending :: "byte list list"
  sp_ready :: "byte list list"
  sp_irq :: u32
  sp_fault :: bool
  sp_completed :: nat
  sp_delivered :: nat
  sp_no_buffer :: nat
  sp_errors :: nat

definition spec_init :: "nat \<Rightarrow> nic_spec" where
  "spec_init cap = \<lparr>sp_cap = cap, sp_done = [], sp_pending = [], sp_ready = [], sp_irq = 0,
     sp_fault = False, sp_completed = 0, sp_delivered = 0, sp_no_buffer = 0, sp_errors = 0\<rparr>"

definition spec_device :: "nic_spec \<Rightarrow> nic_spec" where
  "spec_device s =
     (let p = hd (sp_pending s);
          s1 = s\<lparr>sp_pending := tl (sp_pending s), sp_done := sp_done s @ [sp_fault s],
                 sp_completed := sp_completed s + 1, sp_fault := False\<rparr>
      in if sp_fault s
         then s1\<lparr>sp_errors := sp_errors s + 1, sp_irq := sp_irq s OR NIC_IRQ_ERROR OR NIC_IRQ_TX\<rparr>
         else if length (sp_ready s) = sp_cap s
         then s1\<lparr>sp_no_buffer := sp_no_buffer s + 1, sp_irq := sp_irq s OR NIC_IRQ_TX\<rparr>
         else s1\<lparr>sp_ready := sp_ready s @ [p], sp_delivered := sp_delivered s + 1,
                 sp_irq := sp_irq s OR NIC_IRQ_RX OR NIC_IRQ_TX\<rparr>)"

fun spec_step :: "nic_event \<Rightarrow> nic_spec \<Rightarrow> nic_out \<times> nic_spec" where
  "spec_step (Submit p) s =
     (if p = [] \<or> length p > NIC_MTU then (Rc (-1), s)
      else if length (sp_done s) + length (sp_pending s) = sp_cap s then (Rc 1, s)
      else (Rc 0, s\<lparr>sp_pending := sp_pending s @ [p]\<rparr>))"
| "spec_step DeviceIter s =
     (if sp_pending s = [] then (Worked False, s) else (Worked True, spec_device s))"
| "spec_step ReclaimIter s =
     (case sp_done s of [] \<Rightarrow> (Reclaimed None, s)
      | e # es \<Rightarrow> (Reclaimed (Some e), s\<lparr>sp_done := es\<rparr>))"
| "spec_step (Receive cap) s =
     (case sp_ready s of
        [] \<Rightarrow> (Frame 1 None, s)
      | f # fs \<Rightarrow> if cap < length f then (Frame (-1) None, s)
                  else (Frame 0 (Some f), s\<lparr>sp_ready := fs\<rparr>))"
| "spec_step TakeIrq s = (Irq (sp_irq s), s\<lparr>sp_irq := 0\<rparr>)"
| "spec_step Inject s = (Unit, s\<lparr>sp_fault := True\<rparr>)"

section \<open>Simulation\<close>

definition done_desc :: "bool \<Rightarrow> nic_descriptor \<Rightarrow> bool" where
  "done_desc e d \<longleftrightarrow> owner d = NIC_DONE \<and> (d_error d \<noteq> 0) = e"

definition frame_desc :: "nic_owner \<Rightarrow> byte list \<Rightarrow> nic_descriptor \<Rightarrow> bool" where
  "frame_desc own p d \<longleftrightarrow> owner d = own \<and> d_error d = 0 \<and> d_length d = length p \<and>
     take (length p) (d_buffer d) = p \<and> p \<noteq> [] \<and> length p \<le> NIC_MTU"

definition tx_rel :: "nic_model \<Rightarrow> nic_spec \<Rightarrow> bool" where
  "tx_rel m s \<longleftrightarrow> (\<exists>D P F. ring_view (tx m) (tx_reclaim_cursor m) (capacity m) = D @ P @ F \<and>
     list_all2 done_desc (sp_done s) D \<and> list_all2 (frame_desc NIC_DEVICE) (sp_pending s) P \<and>
     list_all (\<lambda>d. owner d = NIC_FREE) F \<and>
     device_tx_cursor m = (tx_reclaim_cursor m + length D) mod capacity m \<and>
     tx_submit_cursor m = (tx_reclaim_cursor m + (length D + length P)) mod capacity m)"

definition rx_rel :: "nic_model \<Rightarrow> nic_spec \<Rightarrow> bool" where
  "rx_rel m s \<longleftrightarrow> (\<exists>R F. ring_view (rx m) (rx_consume_cursor m) (capacity m) = R @ F \<and>
     list_all2 (frame_desc NIC_DONE) (sp_ready s) R \<and> list_all (\<lambda>d. owner d = NIC_DEVICE) F \<and>
     device_rx_cursor m = (rx_consume_cursor m + length R) mod capacity m)"

definition reg_rel :: "nic_model \<Rightarrow> nic_spec \<Rightarrow> bool" where
  "reg_rel m s \<longleftrightarrow> capacity m = sp_cap s \<and> 0 < capacity m \<and> capacity m \<le> NIC_MAX_RING \<and>
     length (tx m) = NIC_MAX_RING \<and> length (rx m) = NIC_MAX_RING \<and>
     list_all (\<lambda>d. length (d_buffer d) = NIC_MTU) (tx m) \<and>
     list_all (\<lambda>d. length (d_buffer d) = NIC_MTU) (rx m) \<and>
     tx_reclaim_cursor m < capacity m \<and> rx_consume_cursor m < capacity m \<and>
     tx_tail m = tx_submit_cursor m \<and> tx_head m = device_tx_cursor m \<and>
     rx_tail m = device_rx_cursor m \<and> rx_head m = rx_consume_cursor m \<and>
     irq_status m = sp_irq s \<and> (inject_fault m \<noteq> 0) = sp_fault s \<and>
     tx_completed m = of_nat (sp_completed s) \<and> rx_completed m = of_nat (sp_delivered s) \<and>
     rx_no_buffer m = of_nat (sp_no_buffer s) \<and> tx_errors m = of_nat (sp_errors s)"

definition nic_rel :: "nic_model \<Rightarrow> nic_spec \<Rightarrow> bool" where
  "nic_rel m s \<longleftrightarrow> reg_rel m s \<and> tx_rel m s \<and> rx_rel m s"

lemma list_all_update: "list_all P xs \<Longrightarrow> P v \<Longrightarrow> list_all P (xs[i := v])"
  by (auto simp: list_all_iff dest!: set_update_subset_insert [THEN subsetD])

lemma buffer_fill: "length p \<le> length b \<Longrightarrow> take (length p) (write_at 0 p b) = p"
  by (simp add: write_at_def)

text \<open>What each cursor points at.\<close>

lemma view_at:
  assumes "ring_view xs start cap = A @ B" "B \<noteq> []"
  shows "xs ! ((start + length A) mod cap) = hd B" "length A < cap"
proof -
  have "length A + length B = cap" using assms(1) length_ring_view by (metis length_append)
  then show "length A < cap" using assms(2) by (cases B) auto
  then have "ring_view xs start cap ! length A = xs ! ((start + length A) mod cap)" by simp
  with assms show "xs ! ((start + length A) mod cap) = hd B" by (simp add: nth_append hd_conv_nth)
qed

lemma view_full:
  assumes "ring_view xs start cap = A" "0 < cap" "start < cap"
  shows "xs ! ((start + length A) mod cap) = hd A" "A \<noteq> []"
proof -
  have len: "length A = cap" using assms(1) by auto
  then show ne: "A \<noteq> []" using assms(2) by auto
  then have "hd A = xs ! ((start + 0) mod cap)"
    using nth_ring_view [of 0 cap xs start] assms(1,2) by (simp add: hd_conv_nth)
  then show "xs ! ((start + length A) mod cap) = hd A" using assms(3) len by simp
qed

lemma view_replace:
  assumes "ring_view xs start cap = A @ b # B" "cap \<le> length xs"
  shows "ring_view (xs[(start + length A) mod cap := v]) start cap = A @ v # B"
proof -
  have "length A < cap" using view_at(2) [OF assms(1)] by simp
  then show ?thesis using ring_view_update [of "length A" cap xs start v] assms by simp
qed

lemma view_pop:
  assumes "ring_view xs start cap = a # B" "cap \<le> length xs" "start < cap"
  shows "ring_view (xs[start := v]) (Suc start mod cap) cap = B @ [v]"
  using view_replace [of xs start cap "[]" a B v] assms
  by (simp add: ring_view_advance)

lemma submit_sim:
  assumes "nic_rel m s"
  shows "fst (nic_event_step (Submit p) m) = fst (spec_step (Submit p) s) \<and>
    nic_rel (snd (nic_event_step (Submit p) m)) (snd (spec_step (Submit p) s))"
proof -
  obtain D P F where v: "ring_view (tx m) (tx_reclaim_cursor m) (capacity m) = D @ P @ F"
    and D: "list_all2 done_desc (sp_done s) D" and P: "list_all2 (frame_desc NIC_DEVICE) (sp_pending s) P"
    and F: "list_all (\<lambda>d. owner d = NIC_FREE) F"
    and dc: "device_tx_cursor m = (tx_reclaim_cursor m + length D) mod capacity m"
    and sc: "tx_submit_cursor m = (tx_reclaim_cursor m + (length D + length P)) mod capacity m"
    and reg: "reg_rel m s" and rxr: "rx_rel m s"
    using assms unfolding nic_rel_def tx_rel_def by blast
  have cap: "0 < capacity m" "tx_reclaim_cursor m < capacity m" "capacity m \<le> length (tx m)"
      "capacity m = sp_cap s"
    using reg by (auto simp: reg_rel_def)
  have len: "length (sp_done s) = length D" "length (sp_pending s) = length P"
    using D P by (auto dest: list_all2_lengthD)
  have total: "length D + length P + length F = capacity m"
    using length_ring_view [of "tx m" "tx_reclaim_cursor m" "capacity m"] v by simp
  show ?thesis
  proof (cases "p = [] \<or> length p > NIC_MTU")
    case True
    with assms show ?thesis by (auto simp: nic_tx_submit_def)
  next
    case small: False
    let ?i = "tx_submit_cursor m"
    show ?thesis
    proof (cases F)
      case Nil
      have "tx m ! ?i = hd (D @ P)" and ne: "D @ P \<noteq> []"
        using view_full [of "tx m" "tx_reclaim_cursor m" "capacity m" "D @ P"] v Nil cap sc by simp_all
      then have "owner (tx m ! ?i) \<noteq> NIC_FREE"
        using D P by (cases D; cases P)
          (auto simp: done_desc_def frame_desc_def list_all2_Cons2)
      moreover have "length (sp_done s) + length (sp_pending s) = sp_cap s" using len total Nil cap by simp
      ultimately show ?thesis using small assms by (auto simp: nic_tx_submit_def)
    next
      case (Cons f F')
      have f: "tx m ! ?i = f"
        using view_at(1) [of "tx m" "tx_reclaim_cursor m" "capacity m" "D @ P" F] v Cons sc by simp
      define d' where "d' = f\<lparr>d_buffer := write_at 0 p (d_buffer f), d_length := length p,
          d_error := 0, owner := NIC_DEVICE\<rparr>"
      define m' where "m' = m\<lparr>tx := (tx m)[?i := d'], tx_submit_cursor := Suc ?i mod capacity m,
          tx_tail := Suc ?i mod capacity m\<rparr>"
      have "?i < capacity m" using sc cap by simp
      then have "f \<in> set (tx m)" using f cap by (metis nth_mem order_less_le_trans)
      then have buf: "length (d_buffer f) = NIC_MTU" using reg by (auto simp: reg_rel_def list_all_iff)
      have fd: "frame_desc NIC_DEVICE p d'"
        using small buf by (simp add: d'_def frame_desc_def buffer_fill)
      have v': "ring_view ((tx m)[?i := d']) (tx_reclaim_cursor m) (capacity m) = D @ (P @ [d']) @ F'"
        using view_replace [of "tx m" "tx_reclaim_cursor m" "capacity m" "D @ P" f F' d'] v Cons cap sc
        by simp
      have "tx_rel m' (s\<lparr>sp_pending := sp_pending s @ [p]\<rparr>)"
        unfolding tx_rel_def using v' D P F fd dc sc Cons
        by (intro exI [of _ D] exI [of _ "P @ [d']"] exI [of _ F'])
           (auto simp: m'_def intro: list_all2_appendI)
      moreover have "reg_rel m' (s\<lparr>sp_pending := sp_pending s @ [p]\<rparr>)"
        using reg buf small by (auto simp: reg_rel_def m'_def d'_def intro!: list_all_update)
      moreover have "rx_rel m' (s\<lparr>sp_pending := sp_pending s @ [p]\<rparr>)"
        using rxr by (simp add: rx_rel_def m'_def)
      moreover have "owner f = NIC_FREE" using F Cons by simp
      then have "nic_event_step (Submit p) m = (Rc 0, m')"
        using small f by (auto simp: nic_tx_submit_def m'_def d'_def Let_def)
      moreover have "length D + length P < sp_cap s" using total Cons cap by simp
      ultimately show ?thesis using small len by (simp add: nic_rel_def)
    qed
  qed
qed

lemma reclaim_sim:
  assumes "nic_rel m s"
  shows "fst (nic_event_step ReclaimIter m) = fst (spec_step ReclaimIter s) \<and>
    nic_rel (snd (nic_event_step ReclaimIter m)) (snd (spec_step ReclaimIter s))"
proof -
  obtain D P F where v: "ring_view (tx m) (tx_reclaim_cursor m) (capacity m) = D @ P @ F"
    and D: "list_all2 done_desc (sp_done s) D" and P: "list_all2 (frame_desc NIC_DEVICE) (sp_pending s) P"
    and F: "list_all (\<lambda>d. owner d = NIC_FREE) F"
    and dc: "device_tx_cursor m = (tx_reclaim_cursor m + length D) mod capacity m"
    and sc: "tx_submit_cursor m = (tx_reclaim_cursor m + (length D + length P)) mod capacity m"
    and reg: "reg_rel m s" and rxr: "rx_rel m s"
    using assms unfolding nic_rel_def tx_rel_def by blast
  let ?i = "tx_reclaim_cursor m"
  have cap: "0 < capacity m" "?i < capacity m" "capacity m \<le> length (tx m)"
    using reg by (auto simp: reg_rel_def)
  have PF: "D @ P @ F \<noteq> []" and here: "tx m ! ?i = hd (D @ P @ F)"
    using view_full [OF v cap(1,2)] length_ring_view [of "tx m" ?i "capacity m"] v cap by auto
  show ?thesis
  proof (cases D)
    case Nil
    have "owner (hd (P @ F)) \<noteq> NIC_DONE"
      using PF P F Nil by (cases P; cases F) (auto simp: frame_desc_def list_all2_Cons2)
    then have "nic_reclaim_iter m = None" using here Nil by (simp add: nic_reclaim_iter_def)
    with assms D Nil show ?thesis by simp
  next
    case (Cons d D')
    then obtain e es where s: "sp_done s = e # es" and e: "done_desc e d" and es: "list_all2 done_desc es D'"
      using D by (auto simp: list_all2_Cons2)
    define d' where "d' = d\<lparr>owner := NIC_FREE\<rparr>"
    define m' where "m' = m\<lparr>tx := (tx m)[?i := d'], tx_reclaim_cursor := Suc ?i mod capacity m\<rparr>"
    have it: "nic_reclaim_iter m = Some (d_error d, m')"
      using here Cons e by (simp add: nic_reclaim_iter_def m'_def d'_def done_desc_def Let_def)
    have "d \<in> set (tx m)" using here Cons cap by (metis append_Cons list.sel(1) nth_mem order_less_le_trans)
    then have buf: "length (d_buffer d') = NIC_MTU"
      using reg by (auto simp: reg_rel_def list_all_iff d'_def)
    have "ring_view ((tx m)[?i := d']) (Suc ?i mod capacity m) (capacity m) = D' @ P @ F @ [d']"
      using view_pop [of "tx m" ?i "capacity m" d "D' @ P @ F" d'] v Cons cap by simp
    then have "tx_rel m' (s\<lparr>sp_done := es\<rparr>)"
      unfolding tx_rel_def using es P F dc sc Cons
      by (intro exI [of _ D'] exI [of _ P] exI [of _ "F @ [d']"]) (auto simp: m'_def d'_def)
    moreover have "reg_rel m' (s\<lparr>sp_done := es\<rparr>)"
      using reg buf cap by (auto simp: reg_rel_def m'_def intro!: list_all_update)
    moreover have "rx_rel m' (s\<lparr>sp_done := es\<rparr>)" using rxr by (simp add: rx_rel_def m'_def)
    ultimately show ?thesis using it s e by (simp add: nic_rel_def done_desc_def)
  qed
qed

lemma receive_sim:
  assumes "nic_rel m s"
  shows "fst (nic_event_step (Receive c) m) = fst (spec_step (Receive c) s) \<and>
    nic_rel (snd (nic_event_step (Receive c) m)) (snd (spec_step (Receive c) s))"
proof -
  obtain R F where v: "ring_view (rx m) (rx_consume_cursor m) (capacity m) = R @ F"
    and R: "list_all2 (frame_desc NIC_DONE) (sp_ready s) R"
    and F: "list_all (\<lambda>d. owner d = NIC_DEVICE) F"
    and dc: "device_rx_cursor m = (rx_consume_cursor m + length R) mod capacity m"
    and reg: "reg_rel m s" and txr: "tx_rel m s"
    using assms unfolding nic_rel_def rx_rel_def by blast
  let ?i = "rx_consume_cursor m"
  have cap: "0 < capacity m" "?i < capacity m" "capacity m \<le> length (rx m)"
    using reg by (auto simp: reg_rel_def)
  have ne: "R @ F \<noteq> []" and here: "rx m ! ?i = hd (R @ F)"
    using view_full [OF v cap(1,2)] length_ring_view [of "rx m" ?i "capacity m"] v cap by auto
  show ?thesis
  proof (cases R)
    case Nil
    then have "owner (hd (R @ F)) = NIC_DEVICE" using ne F by (cases F) auto
    then show ?thesis using here assms R Nil by (auto simp: nic_rx_receive_def)
  next
    case (Cons d R')
    then obtain f fs where s: "sp_ready s = f # fs" and f: "frame_desc NIC_DONE f d"
      and fs: "list_all2 (frame_desc NIC_DONE) fs R'"
      using R by (auto simp: list_all2_Cons2)
    have hd: "rx m ! ?i = d" using here Cons by simp
    show ?thesis
    proof (cases "c < length f")
      case True
      then show ?thesis using assms s f hd by (auto simp: nic_rx_receive_def frame_desc_def)
    next
      case False
      define d' where "d' = d\<lparr>owner := NIC_DEVICE\<rparr>"
      define m' where "m' = m\<lparr>rx := (rx m)[?i := d'], rx_consume_cursor := Suc ?i mod capacity m,
          rx_head := Suc ?i mod capacity m\<rparr>"
      have it: "nic_rx_receive (Some m) True c = (0, Some f, Some m')"
        using hd False f by (simp add: nic_rx_receive_def m'_def d'_def frame_desc_def Let_def)
      have "d \<in> set (rx m)" using hd cap by (metis nth_mem order_less_le_trans)
      then have buf: "length (d_buffer d') = NIC_MTU"
        using reg by (auto simp: reg_rel_def list_all_iff d'_def)
      have "ring_view ((rx m)[?i := d']) (Suc ?i mod capacity m) (capacity m) = R' @ F @ [d']"
        using view_pop [of "rx m" ?i "capacity m" d "R' @ F" d'] v Cons cap by simp
      then have "rx_rel m' (s\<lparr>sp_ready := fs\<rparr>)"
        unfolding rx_rel_def using fs F dc Cons
        by (intro exI [of _ R'] exI [of _ "F @ [d']"]) (auto simp: m'_def d'_def)
      moreover have "reg_rel m' (s\<lparr>sp_ready := fs\<rparr>)"
        using reg buf cap by (auto simp: reg_rel_def m'_def intro!: list_all_update)
      moreover have "tx_rel m' (s\<lparr>sp_ready := fs\<rparr>)" using txr by (simp add: tx_rel_def m'_def)
      ultimately show ?thesis using it s False by (simp add: nic_rel_def)
    qed
  qed
qed

text \<open>The relations look only at their own part of the state.\<close>

lemma rel_cong:
  "tx m' = tx m \<Longrightarrow> tx_reclaim_cursor m' = tx_reclaim_cursor m \<Longrightarrow> capacity m' = capacity m \<Longrightarrow>
   device_tx_cursor m' = device_tx_cursor m \<Longrightarrow> tx_submit_cursor m' = tx_submit_cursor m \<Longrightarrow>
   sp_done s' = sp_done s \<Longrightarrow> sp_pending s' = sp_pending s \<Longrightarrow> tx_rel m' s' = tx_rel m s"
  "rx m' = rx m \<Longrightarrow> rx_consume_cursor m' = rx_consume_cursor m \<Longrightarrow> capacity m' = capacity m \<Longrightarrow>
   device_rx_cursor m' = device_rx_cursor m \<Longrightarrow> sp_ready s' = sp_ready s \<Longrightarrow> rx_rel m' s' = rx_rel m s"
  by (simp_all only: tx_rel_def rx_rel_def)

lemma irq_inject_sim:
  assumes "nic_rel m s"
  shows "nic_rel (m\<lparr>irq_status := 0\<rparr>) (s\<lparr>sp_irq := 0\<rparr>)"
    and "nic_rel (m\<lparr>inject_fault := 1\<rparr>) (s\<lparr>sp_fault := True\<rparr>)"
proof -
  have "reg_rel (m\<lparr>irq_status := 0\<rparr>) (s\<lparr>sp_irq := 0\<rparr>)" "reg_rel (m\<lparr>inject_fault := 1\<rparr>) (s\<lparr>sp_fault := True\<rparr>)"
    using assms by (auto simp: nic_rel_def reg_rel_def)
  moreover have "tx_rel (m\<lparr>irq_status := 0\<rparr>) (s\<lparr>sp_irq := 0\<rparr>) = tx_rel m s"
      "rx_rel (m\<lparr>irq_status := 0\<rparr>) (s\<lparr>sp_irq := 0\<rparr>) = rx_rel m s"
      "tx_rel (m\<lparr>inject_fault := 1\<rparr>) (s\<lparr>sp_fault := True\<rparr>) = tx_rel m s"
      "rx_rel (m\<lparr>inject_fault := 1\<rparr>) (s\<lparr>sp_fault := True\<rparr>) = rx_rel m s"
    by (rule rel_cong; simp)+
  ultimately show "nic_rel (m\<lparr>irq_status := 0\<rparr>) (s\<lparr>sp_irq := 0\<rparr>)"
      "nic_rel (m\<lparr>inject_fault := 1\<rparr>) (s\<lparr>sp_fault := True\<rparr>)"
    using assms by (simp_all add: nic_rel_def)
qed

text \<open>
  The device iteration: first the outcome of the frame (an error, a delivery or a drop), then
  the completion of the descriptor.
\<close>

definition nic_outcome :: "nic_model \<Rightarrow> nic_descriptor \<Rightarrow> nic_model" where
  "nic_outcome m t =
     (if inject_fault m \<noteq> 0
      then m\<lparr>inject_fault := 0, tx_errors := tx_errors m + 1, irq_status := irq_status m OR NIC_IRQ_ERROR\<rparr>
      else nic_deliver (m\<lparr>inject_fault := 0\<rparr>) t)"

definition spec_outcome :: "nic_spec \<Rightarrow> nic_spec" where
  "spec_outcome s =
     (if sp_fault s
      then s\<lparr>sp_fault := False, sp_errors := sp_errors s + 1, sp_irq := sp_irq s OR NIC_IRQ_ERROR\<rparr>
      else if length (sp_ready s) = sp_cap s
      then s\<lparr>sp_fault := False, sp_no_buffer := sp_no_buffer s + 1\<rparr>
      else s\<lparr>sp_fault := False, sp_ready := sp_ready s @ [hd (sp_pending s)],
             sp_delivered := sp_delivered s + 1, sp_irq := sp_irq s OR NIC_IRQ_RX\<rparr>)"

lemma deliver_sim:
  assumes reg: "reg_rel m s" and rxr: "rx_rel m s" and nf: "\<not> sp_fault s" "inject_fault m = 0"
    and t: "frame_desc NIC_DEVICE (hd (sp_pending s)) t"
  shows "reg_rel (nic_deliver m t) (spec_outcome s) \<and> rx_rel (nic_deliver m t) (spec_outcome s)"
proof -
  let ?p = "hd (sp_pending s)"
  obtain R F where v: "ring_view (rx m) (rx_consume_cursor m) (capacity m) = R @ F"
    and R: "list_all2 (frame_desc NIC_DONE) (sp_ready s) R"
    and F: "list_all (\<lambda>d. owner d = NIC_DEVICE) F"
    and dc: "device_rx_cursor m = (rx_consume_cursor m + length R) mod capacity m"
    using rxr unfolding rx_rel_def by blast
  let ?i = "device_rx_cursor m"
  have cap: "0 < capacity m" "rx_consume_cursor m < capacity m" "capacity m \<le> length (rx m)"
      "capacity m = sp_cap s"
    using reg by (auto simp: reg_rel_def)
  have len: "length R + length F = capacity m" "length (sp_ready s) = length R"
    using length_ring_view [of "rx m" "rx_consume_cursor m" "capacity m"] v R
    by (auto dest: list_all2_lengthD)
  show ?thesis
  proof (cases F)
    case Nil
    have "rx m ! ?i = hd R" "R \<noteq> []"
      using view_full [of "rx m" "rx_consume_cursor m" "capacity m" R] v Nil cap dc by auto
    then have "owner (rx m ! ?i) \<noteq> NIC_DEVICE"
      using R by (cases R) (auto simp: frame_desc_def list_all2_Cons2)
    then have eq: "nic_deliver m t = m\<lparr>rx_no_buffer := rx_no_buffer m + 1\<rparr>" by (simp add: nic_deliver_def)
    have so: "spec_outcome s = s\<lparr>sp_fault := False, sp_no_buffer := sp_no_buffer s + 1\<rparr>"
      using len Nil cap nf by (simp add: spec_outcome_def)
    have "rx_rel (nic_deliver m t) (spec_outcome s) = rx_rel m s"
      unfolding eq so by (rule rel_cong; simp)
    then show ?thesis using reg rxr nf by (auto simp: eq so reg_rel_def)
  next
    case (Cons r F')
    have r: "rx m ! ?i = r"
      using view_at(1) [of "rx m" "rx_consume_cursor m" "capacity m" R F] v Cons dc by simp
    define r' where "r' = r\<lparr>d_buffer := write_at 0 ?p (d_buffer r), d_length := length ?p,
        d_error := 0, owner := NIC_DONE\<rparr>"
    have "?i < capacity m" using dc cap by simp
    then have "r \<in> set (rx m)" using r cap by (metis nth_mem order_less_le_trans)
    then have buf: "length (d_buffer r) = NIC_MTU" using reg by (auto simp: reg_rel_def list_all_iff)
    have small: "length ?p \<le> NIC_MTU" and t': "d_length t = length ?p" "take (length ?p) (d_buffer t) = ?p"
      using t by (simp_all add: frame_desc_def)
    have fd: "frame_desc NIC_DONE ?p r'" using t buf by (simp add: r'_def frame_desc_def buffer_fill)
    have eq: "nic_deliver m t = m\<lparr>rx := (rx m)[?i := r'], device_rx_cursor := Suc ?i mod capacity m,
        rx_tail := Suc ?i mod capacity m, rx_completed := rx_completed m + 1,
        irq_status := irq_status m OR NIC_IRQ_RX\<rparr>"
      using r F Cons t' by (simp add: nic_deliver_def r'_def Let_def)
    have so: "spec_outcome s = s\<lparr>sp_fault := False, sp_ready := sp_ready s @ [?p],
        sp_delivered := sp_delivered s + 1, sp_irq := sp_irq s OR NIC_IRQ_RX\<rparr>"
      using len Cons cap nf by (simp add: spec_outcome_def)
    have "ring_view ((rx m)[?i := r']) (rx_consume_cursor m) (capacity m) = (R @ [r']) @ F'"
      using view_replace [of "rx m" "rx_consume_cursor m" "capacity m" R r F' r'] v Cons cap dc by simp
    then have "rx_rel (nic_deliver m t) (spec_outcome s)"
      unfolding rx_rel_def eq so using R F fd dc Cons
      by (intro exI [of _ "R @ [r']"] exI [of _ F']) (auto intro: list_all2_appendI)
    moreover have "reg_rel (nic_deliver m t) (spec_outcome s)"
      using reg buf small nf by (auto simp: reg_rel_def eq so r'_def intro!: list_all_update)
    ultimately show ?thesis by simp
  qed
qed

lemma outcome_sim:
  assumes "reg_rel m s" "rx_rel m s" "frame_desc NIC_DEVICE (hd (sp_pending s)) t"
  shows "reg_rel (nic_outcome m t) (spec_outcome s) \<and> rx_rel (nic_outcome m t) (spec_outcome s)"
proof (cases "sp_fault s")
  case True
  then have f: "inject_fault m \<noteq> 0" using assms(1) by (simp add: reg_rel_def)
  have "rx_rel (nic_outcome m t) (spec_outcome s) = rx_rel m s"
    using True f by (intro rel_cong) (simp_all add: nic_outcome_def spec_outcome_def)
  with True f assms show ?thesis by (auto simp: nic_outcome_def spec_outcome_def reg_rel_def)
next
  case False
  then have f: "inject_fault m = 0" using assms(1) by (simp add: reg_rel_def)
  then have same: "m\<lparr>inject_fault := 0\<rparr> = m" by (cases m) simp
  have "nic_outcome m t = nic_deliver m t" by (simp add: nic_outcome_def f same)
  with deliver_sim [OF assms(1,2) False f assms(3)] show ?thesis by simp
qed

lemma deliver_frame [simp]:
  "tx (nic_deliver m t) = tx m" "capacity (nic_deliver m t) = capacity m"
  "device_tx_cursor (nic_deliver m t) = device_tx_cursor m"
  "tx_submit_cursor (nic_deliver m t) = tx_submit_cursor m"
  "tx_reclaim_cursor (nic_deliver m t) = tx_reclaim_cursor m"
  "tx_completed (nic_deliver m t) = tx_completed m"
  by (simp_all add: nic_deliver_def Let_def)

lemma outcome_frame [simp]:
  "tx (nic_outcome m t) = tx m" "capacity (nic_outcome m t) = capacity m"
  "device_tx_cursor (nic_outcome m t) = device_tx_cursor m"
  "tx_submit_cursor (nic_outcome m t) = tx_submit_cursor m"
  "tx_reclaim_cursor (nic_outcome m t) = tx_reclaim_cursor m"
  "tx_completed (nic_outcome m t) = tx_completed m"
  by (simp_all add: nic_outcome_def)

lemma device_iter_eq:
  assumes "tx m ! device_tx_cursor m = t" "device_tx_cursor m < length (tx m)"
    and "owner t = NIC_DEVICE" "d_length t \<noteq> 0" "d_length t \<le> NIC_MTU"
  shows "nic_device_iter m = Some ((nic_outcome m t)\<lparr>
     tx_completed := tx_completed m + 1,
     tx := (tx m)[device_tx_cursor m :=
        t\<lparr>d_error := (if inject_fault m \<noteq> 0 then 1 else d_error t), owner := NIC_DONE\<rparr>],
     device_tx_cursor := Suc (device_tx_cursor m) mod capacity m,
     tx_head := Suc (device_tx_cursor m) mod capacity m,
     irq_status := irq_status (nic_outcome m t) OR NIC_IRQ_TX\<rparr>)"
  using assms by (auto simp: nic_device_iter_def nic_outcome_def Let_def)

lemma spec_device_alt:
  "spec_device s = (spec_outcome s)\<lparr>sp_pending := tl (sp_pending s), sp_done := sp_done s @ [sp_fault s],
     sp_completed := sp_completed s + 1, sp_irq := sp_irq (spec_outcome s) OR NIC_IRQ_TX\<rparr>"
  by (simp add: spec_device_def spec_outcome_def Let_def or.assoc)

lemma spec_outcome_frame [simp]:
  "sp_done (spec_outcome s) = sp_done s" "sp_pending (spec_outcome s) = sp_pending s"
  "sp_completed (spec_outcome s) = sp_completed s" "sp_cap (spec_outcome s) = sp_cap s"
  by (simp_all add: spec_outcome_def)

lemma device_sim:
  assumes "nic_rel m s"
  shows "fst (nic_event_step DeviceIter m) = fst (spec_step DeviceIter s) \<and>
    nic_rel (snd (nic_event_step DeviceIter m)) (snd (spec_step DeviceIter s))"
proof -
  obtain D P F where v: "ring_view (tx m) (tx_reclaim_cursor m) (capacity m) = D @ P @ F"
    and D: "list_all2 done_desc (sp_done s) D" and P: "list_all2 (frame_desc NIC_DEVICE) (sp_pending s) P"
    and F: "list_all (\<lambda>d. owner d = NIC_FREE) F"
    and dc: "device_tx_cursor m = (tx_reclaim_cursor m + length D) mod capacity m"
    and sc: "tx_submit_cursor m = (tx_reclaim_cursor m + (length D + length P)) mod capacity m"
    and reg: "reg_rel m s" and rxr: "rx_rel m s"
    using assms unfolding nic_rel_def tx_rel_def by blast
  let ?i = "device_tx_cursor m"
  have cap: "0 < capacity m" "tx_reclaim_cursor m < capacity m" "capacity m \<le> length (tx m)"
    using reg by (auto simp: reg_rel_def)
  show ?thesis
  proof (cases P)
    case Nil
    have "tx m ! ?i = hd (D @ F) \<or> tx m ! ?i = hd F \<and> F \<noteq> []" "D @ F \<noteq> []"
      using view_full [OF v cap(1,2)] view_at(1) [of "tx m" "tx_reclaim_cursor m" "capacity m" D F]
        v Nil dc by (cases F; auto)+
    then have "owner (tx m ! ?i) \<noteq> NIC_DEVICE"
      using D F by (cases D; cases F) (auto simp: done_desc_def list_all2_Cons2)
    with assms P Nil show ?thesis by (auto simp: nic_device_iter_def)
  next
    case (Cons t P')
    then obtain p ps where s: "sp_pending s = p # ps" and p: "frame_desc NIC_DEVICE p t"
      and ps: "list_all2 (frame_desc NIC_DEVICE) ps P'"
      using P by (auto simp: list_all2_Cons2)
    define d' where "d' = t\<lparr>d_error := (if inject_fault m \<noteq> 0 then 1 else d_error t), owner := NIC_DONE\<rparr>"
    have lt: "?i < length (tx m)" using dc cap by (metis mod_less_divisor order_less_le_trans)
    have t: "tx m ! ?i = t"
      using view_at(1) [of "tx m" "tx_reclaim_cursor m" "capacity m" D "P @ F"] v Cons dc by simp
    define m' where "m' = (nic_outcome m t)\<lparr>tx_completed := tx_completed m + 1, tx := (tx m)[?i := d'],
       device_tx_cursor := Suc ?i mod capacity m, tx_head := Suc ?i mod capacity m,
       irq_status := irq_status (nic_outcome m t) OR NIC_IRQ_TX\<rparr>"
    have it: "nic_device_iter m = Some m'"
      using device_iter_eq [OF t lt] p by (simp add: m'_def d'_def frame_desc_def)
    have out: "reg_rel (nic_outcome m t) (spec_outcome s)" "rx_rel (nic_outcome m t) (spec_outcome s)"
      using outcome_sim [OF reg rxr] p s by simp_all
    have "t \<in> set (tx m)" using t lt nth_mem by blast
    then have buf: "length (d_buffer d') = NIC_MTU" using reg by (auto simp: reg_rel_def list_all_iff d'_def)
    have fault: "(inject_fault m \<noteq> 0) = sp_fault s" using reg by (simp add: reg_rel_def)
    have "done_desc (sp_fault s) d'" using p fault by (auto simp: done_desc_def d'_def frame_desc_def)
    moreover have "ring_view ((tx m)[?i := d']) (tx_reclaim_cursor m) (capacity m) = (D @ [d']) @ P' @ F"
      using view_replace [of "tx m" "tx_reclaim_cursor m" "capacity m" D t "P' @ F" d'] v Cons cap dc by simp
    ultimately have "tx_rel m' (spec_device s)"
      unfolding tx_rel_def spec_device_alt using D ps F dc sc Cons s
      by (intro exI [of _ "D @ [d']"] exI [of _ P'] exI [of _ F])
         (auto simp: m'_def intro: list_all2_appendI)
    moreover have "reg_rel m' (spec_device s)"
      using out(1) buf reg by (auto simp: reg_rel_def m'_def spec_device_alt intro!: list_all_update)
    moreover have "rx_rel m' (spec_device s) = rx_rel (nic_outcome m t) (spec_outcome s)"
      by (rule rel_cong) (simp_all add: m'_def spec_device_alt)
    ultimately show ?thesis using it s out(2) by (simp add: nic_rel_def)
  qed
qed

interpretation nic: simulation nic_event_step spec_step nic_rel "\<lambda>_. True"
proof unfold_locales
  fix m s e assume rel: "nic_rel m s"
  have "fst (nic_event_step e m) = fst (spec_step e s) \<and>
      nic_rel (snd (nic_event_step e m)) (snd (spec_step e s))"
  proof (cases e)
    case TakeIrq
    have "irq_status m = sp_irq s" using rel by (simp add: nic_rel_def reg_rel_def)
    with TakeIrq irq_inject_sim [OF rel] show ?thesis by (simp add: nic_take_interrupts_def)
  next
    case Inject
    with irq_inject_sim [OF rel] show ?thesis by (simp add: nic_inject_tx_error_def)
  qed (simp_all only: submit_sim [OF rel] reclaim_sim [OF rel] receive_sim [OF rel] device_sim [OF rel])
  then show "fst (nic_event_step e m) = fst (spec_step e s)"
    and "nic_rel (snd (nic_event_step e m)) (snd (spec_step e s))" by simp_all
qed

lemma nic_init_rel:
  assumes "nic_model_init n cap = (0, Some m)"
  shows "nic_rel m (spec_init cap) \<and> 0 < cap \<and> cap \<le> NIC_MAX_RING"
proof -
  have c: "0 < cap" "cap \<le> NIC_MAX_RING" using assms by (auto simp: nic_model_init_def split: if_splits)
  have view: "ring_view (replicate NIC_MAX_RING d) 0 cap = replicate cap d" for d :: nic_descriptor
    using c by (intro nth_equalityI) auto
  have "tx_rel m (spec_init cap)"
    unfolding tx_rel_def using assms view
    by (intro exI [of _ "[]"] exI [of _ "replicate cap (zero_descriptor NIC_FREE)"])
       (auto simp: nic_model_init_def nic_reset_def spec_init_def zero_descriptor_def list_all_iff split: if_splits)
  moreover have "rx_rel m (spec_init cap)"
    unfolding rx_rel_def using assms view
    by (intro exI [of _ "[]"] exI [of _ "replicate cap (zero_descriptor NIC_DEVICE)"])
       (auto simp: nic_model_init_def nic_reset_def spec_init_def zero_descriptor_def list_all_iff split: if_splits)
  moreover have "reg_rel m (spec_init cap)"
    using assms by (auto simp: reg_rel_def nic_model_init_def nic_reset_def spec_init_def zero_descriptor_def list_all_iff
        split: if_splits)
  ultimately show ?thesis using c by (simp add: nic_rel_def)
qed

section \<open>What the specification guarantees\<close>

definition spec_inv :: "nic_spec \<Rightarrow> bool" where
  "spec_inv s \<longleftrightarrow> length (sp_done s) + length (sp_pending s) \<le> sp_cap s \<and> length (sp_ready s) \<le> sp_cap s \<and>
     sp_completed s = sp_delivered s + sp_no_buffer s + sp_errors s"

interpretation loopback: invariant_system "\<lambda>e s. snd (spec_step e s)" spec_inv
proof unfold_locales
  fix s e assume "spec_inv s"
  then show "spec_inv (snd (spec_step e s))"
    by (cases e) (auto simp: spec_inv_def spec_device_def Let_def neq_Nil_conv split: list.splits)
qed

definition nic_accepted :: "nic_event \<Rightarrow> nic_out \<Rightarrow> byte list list" where
  "nic_accepted e out = (case (e, out) of (Submit p, Rc rc) \<Rightarrow> if rc = 0 then [p] else [] | _ \<Rightarrow> [])"

definition nic_submitted :: "nic_event list \<Rightarrow> nic_out list \<Rightarrow> byte list list" where
  "nic_submitted es outs = concat (map2 nic_accepted es outs)"

definition nic_delivered :: "nic_out \<Rightarrow> byte list list" where
  "nic_delivered out = (case out of Frame rc (Some f) \<Rightarrow> [f] | _ \<Rightarrow> [])"

definition nic_received :: "nic_out list \<Rightarrow> byte list list" where
  "nic_received outs = concat (map nic_delivered outs)"

lemma subseq_skip: "subseq (xs @ ys) (xs @ y # ys)"
  by (rule list_emb_append_mono) auto

text \<open>One step: what is in the card afterwards comes, in order, from what was in it before.\<close>

lemma spec_step_order:
  assumes "spec_step e s = (out, s')"
  shows "subseq (nic_delivered out @ sp_ready s' @ sp_pending s')
    (sp_ready s @ sp_pending s @ nic_accepted e out)"
  using assms subseq_skip
  by (cases e)
     (auto simp: nic_delivered_def nic_accepted_def spec_device_def Let_def neq_Nil_conv
       split: list.splits if_splits)

lemma spec_step_count:
  assumes "spec_step e s = (out, s')"
  shows "length (nic_delivered out) + length (sp_ready s') + length (sp_pending s') +
      sp_errors s' + sp_no_buffer s' =
    length (sp_ready s) + length (sp_pending s) + length (nic_accepted e out) + sp_errors s + sp_no_buffer s"
  using assms
  by (cases e)
     (auto simp: nic_delivered_def nic_accepted_def spec_device_def Let_def neq_Nil_conv
       split: list.splits if_splits)

lemma trace_flows:
  "nic_received (out # outs) = nic_delivered out @ nic_received outs"
  "nic_submitted (e # es) (out # outs) = nic_accepted e out @ nic_submitted es outs"
  by (simp_all add: nic_received_def nic_submitted_def)

lemma spec_trace_order:
  assumes "trace spec_step es s = (outs, s')"
  shows "subseq (nic_received outs @ sp_ready s' @ sp_pending s')
    (sp_ready s @ sp_pending s @ nic_submitted es outs)"
  using assms
proof (induction es arbitrary: s outs)
  case Nil
  then show ?case by (auto simp: nic_received_def nic_submitted_def)
next
  case (Cons e es)
  obtain out s1 where st: "spec_step e s = (out, s1)" by fastforce
  obtain outs1 where tr: "trace spec_step es s1 = (outs1, s')" and outs: "outs = out # outs1"
    using Cons.prems st by (auto split: prod.splits)
  have "subseq (nic_delivered out @ nic_received outs1 @ sp_ready s' @ sp_pending s')
      ((nic_delivered out @ sp_ready s1 @ sp_pending s1) @ nic_submitted es outs1)"
    using Cons.IH [OF tr] by (simp add: list_emb_append_mono)
  also have "subseq ((nic_delivered out @ sp_ready s1 @ sp_pending s1) @ nic_submitted es outs1)
      ((sp_ready s @ sp_pending s @ nic_accepted e out) @ nic_submitted es outs1)"
    using spec_step_order [OF st] by (rule list_emb_append_mono) simp
  finally show ?case by (simp add: outs trace_flows)
qed

lemma spec_trace_count:
  assumes "trace spec_step es s = (outs, s')"
  shows "length (nic_received outs) + length (sp_ready s') + length (sp_pending s') +
      sp_errors s' + sp_no_buffer s' =
    length (sp_ready s) + length (sp_pending s) + length (nic_submitted es outs) + sp_errors s + sp_no_buffer s"
  using assms
proof (induction es arbitrary: s outs)
  case Nil
  then show ?case by (auto simp: nic_received_def nic_submitted_def)
next
  case (Cons e es)
  obtain out s1 where st: "spec_step e s = (out, s1)" by fastforce
  obtain outs1 where tr: "trace spec_step es s1 = (outs1, s')" and outs: "outs = out # outs1"
    using Cons.prems st by (auto split: prod.splits)
  show ?case
    using Cons.IH [OF tr] spec_step_count [OF st] by (simp add: outs trace_flows)
qed

lemma trace_state_fold: "snd (trace step es s) = fold (\<lambda>e s. snd (step e s)) es s"
  by (induction es arbitrary: s) (simp_all add: Let_def case_prod_unfold)

lemma spec_trace_inv: "spec_inv s \<Longrightarrow> spec_inv (snd (trace spec_step es s))"
  by (simp add: trace_state_fold loopback.run_inv)

lemma spec_init_inv: "spec_inv (spec_init cap)"
  by (simp add: spec_inv_def spec_init_def)

text \<open>The two loops of the code are runs of their iterations.\<close>

lemma spec_device_lengths:
  "length (sp_pending (spec_device s)) = length (sp_pending s) - 1"
  by (simp add: spec_device_def Let_def)

lemma device_loop_sim:
  assumes "nic_rel m s"
  shows "\<exists>m'. device_loop n k m = (k + min n (length (sp_pending s)), m') \<and>
    nic_rel m' ((spec_device ^^ min n (length (sp_pending s))) s)"
  using assms
proof (induction n arbitrary: k m s)
  case (Suc n)
  note sim = device_sim [OF Suc.prems]
  show ?case
  proof (cases "sp_pending s = []")
    case True
    then have "nic_device_iter m = None" using sim by (auto split: option.splits)
    with True Suc.prems show ?thesis by simp
  next
    case False
    then obtain m1 where it: "nic_device_iter m = Some m1" and rel: "nic_rel m1 (spec_device s)"
      using sim by (auto split: option.splits)
    obtain l where l: "length (sp_pending s) = Suc l" using False by (cases "sp_pending s") auto
    from Suc.IH [OF rel, of "k + 1"] it l show ?thesis
      by (auto simp: spec_device_lengths funpow_swap1)
  qed
qed simp

lemma reclaim_loop_sim:
  assumes "nic_rel m s" "length (sp_done s) \<le> n"
  shows "\<exists>m'. reclaim_loop n k (Some e) m =
      (k + length (sp_done s), Some (e + length (filter id (sp_done s))), m') \<and>
    nic_rel m' (s\<lparr>sp_done := []\<rparr>)"
  using assms
proof (induction n arbitrary: k e m s)
  case 0
  then have "s\<lparr>sp_done := []\<rparr> = s" by (cases s) simp
  with 0 show ?case by (metis add.right_neutral filter.simps(1) le_zero_eq length_0_conv list.size(3) reclaim_loop.simps(1))
next
  case (Suc n)
  note sim = reclaim_sim [OF Suc.prems(1)]
  show ?case
  proof (cases "sp_done s")
    case Nil
    then have "nic_reclaim_iter m = None" using sim by (auto split: option.splits)
    moreover have "s\<lparr>sp_done := []\<rparr> = s" using Nil by (cases s) simp
    ultimately show ?thesis using Nil Suc.prems by (metis (no_types, lifting) add.right_neutral
        filter.simps(1) list.size(3) option.simps(4) reclaim_loop.simps(2))
  next
    case (Cons d ds)
    then obtain err m1 where it: "nic_reclaim_iter m = Some (err, m1)" "(err \<noteq> 0) = d"
      and rel: "nic_rel m1 (s\<lparr>sp_done := ds\<rparr>)"
      using sim by (auto split: option.splits)
    from Suc.IH [OF rel, of "k + 1" "if d then e + 1 else e"] it Cons Suc.prems(2) show ?thesis
      by (auto simp del: One_nat_def)
  qed
qed

text \<open>A batch of frames through the specification.\<close>

definition frame_ok :: "byte list \<Rightarrow> bool" where
  "frame_ok p \<longleftrightarrow> p \<noteq> [] \<and> length p \<le> NIC_MTU"

lemma spec_submit_batch:
  assumes "list_all frame_ok ps" "length (sp_done s) + length (sp_pending s) + length ps \<le> sp_cap s"
  shows "trace spec_step (map Submit ps) s = (map (\<lambda>_. Rc 0) ps, s\<lparr>sp_pending := sp_pending s @ ps\<rparr>)"
  using assms
proof (induction ps arbitrary: s)
  case (Cons p ps)
  then have "spec_step (Submit p) s = (Rc 0, s\<lparr>sp_pending := sp_pending s @ [p]\<rparr>)"
    by (simp add: frame_ok_def)
  moreover have "trace spec_step (map Submit ps) (s\<lparr>sp_pending := sp_pending s @ [p]\<rparr>) =
      (map (\<lambda>_. Rc 0) ps, s\<lparr>sp_pending := sp_pending s @ p # ps\<rparr>)"
    using Cons.IH [of "s\<lparr>sp_pending := sp_pending s @ [p]\<rparr>"] Cons.prems by simp
  ultimately show ?case by (simp del: spec_step.simps)
qed simp

lemma spec_device_batch:
  assumes "\<not> sp_fault s" "length (sp_ready s) + length (sp_pending s) \<le> sp_cap s"
  shows "\<exists>s'. trace spec_step (replicate (length (sp_pending s)) DeviceIter) s =
      (replicate (length (sp_pending s)) (Worked True), s') \<and>
    sp_ready s' = sp_ready s @ sp_pending s \<and> sp_pending s' = []"
  using assms
proof (induction "sp_pending s" arbitrary: s)
  case (Cons p ps)
  let ?s = "spec_device s"
  have "sp_pending ?s = ps" "sp_ready ?s = sp_ready s @ [p]" "\<not> sp_fault ?s" "sp_cap ?s = sp_cap s"
    using Cons.prems Cons.hyps(2) [symmetric] by (auto simp: spec_device_def Let_def)
  moreover have "spec_step DeviceIter s = (Worked True, ?s)" using Cons.hyps(2) by auto
  ultimately show ?case
    using Cons.hyps(1) [of ?s] Cons.prems Cons.hyps(2) [symmetric]
    by (auto simp del: spec_step.simps simp: case_prod_unfold)
qed simp

lemma spec_receive_batch:
  assumes "list_all frame_ok (sp_ready s)"
  shows "fst (trace spec_step (replicate (length (sp_ready s)) (Receive NIC_MTU)) s) =
    map (\<lambda>f. Frame 0 (Some f)) (sp_ready s)"
  using assms
proof (induction "sp_ready s" arbitrary: s)
  case (Cons f fs)
  have "spec_step (Receive NIC_MTU) s = (Frame 0 (Some f), s\<lparr>sp_ready := fs\<rparr>)"
    using Cons.prems Cons.hyps(2) [symmetric] by (simp add: frame_ok_def)
  then show ?case
    using Cons.hyps(1) [of "s\<lparr>sp_ready := fs\<rparr>"] Cons.prems Cons.hyps(2) [symmetric]
    by (simp del: spec_step.simps add: case_prod_unfold)
qed simp

section \<open>Properties\<close>

text \<open>
  C4. The descriptor rings implement the loopback specification: from initialisation on,
  whatever sequence of driver calls and device iterations runs, in any interleaving, every
  return value, frame, error report and interrupt word is that of the specification with its
  two bounded queues; and the rings stay in the simulation relation.
\<close>

theorem nic_refines_loopback:
  assumes "nic_model_init n cap = (0, Some m)"
  shows "fst (trace nic_event_step evs m) = fst (trace spec_step evs (spec_init cap)) \<and>
    nic_rel (snd (trace nic_event_step evs m)) (snd (trace spec_step evs (spec_init cap)))"
  using nic.trace_sim [of m "spec_init cap" evs] nic_init_rel [OF assms] by (simp add: list_all_iff)

definition sample_nic :: nic_model where
  "sample_nic = nic_reset 2"

lemma sample_nic_init: "nic_model_init (Some (nic_reset 1)) 2 = (0, Some sample_nic)"
  by (simp add: sample_nic_def nic_model_init_def NIC_MAX_RING_def)

definition sample_events :: "nic_event list" where
  "sample_events = [Submit [1, 2], Submit [3], Submit [4], DeviceIter, Inject, DeviceIter, Receive 1,
     Receive 9, TakeIrq, ReclaimIter, ReclaimIter, ReclaimIter]"

lemma sample_events_spec:
  "fst (trace spec_step sample_events (spec_init 2)) =
     [Rc 0, Rc 0, Rc 1, Worked True, Unit, Worked True, Frame (-1) None, Frame 0 (Some [1, 2]), Irq 7,
      Reclaimed (Some False), Reclaimed (Some True), Reclaimed None]"
  by (simp add: sample_events_def spec_init_def spec_device_def NIC_MTU_def NIC_IRQ_TX_def NIC_IRQ_RX_def
      NIC_IRQ_ERROR_def)

theorem nic_refines_loopback_witness:
  "fst (trace nic_event_step sample_events sample_nic) =
     [Rc 0, Rc 0, Rc 1, Worked True, Unit, Worked True, Frame (-1) None, Frame 0 (Some [1, 2]), Irq 7,
      Reclaimed (Some False), Reclaimed (Some True), Reclaimed None]"
  using nic_refines_loopback [OF sample_nic_init, of sample_events] sample_events_spec by simp

text \<open>
  Frames are neither invented nor reordered: in every interleaving the received frames are a
  subsequence of the accepted ones; every completed transmission is counted exactly once as
  delivered, dropped for lack of a receive buffer, or failed; and as long as none was dropped or
  failed, what has been received is a prefix of what was accepted.
\<close>

theorem nic_loopback_order:
  assumes init: "nic_model_init n cap = (0, Some m)"
    and run: "trace nic_event_step evs m = (outs, m')" and short: "length evs < 2 ^ 64"
  shows "subseq (nic_received outs) (nic_submitted evs outs) \<and>
    tx_completed m' = rx_completed m' + rx_no_buffer m' + tx_errors m' \<and>
    (rx_no_buffer m' = 0 \<and> tx_errors m' = 0 \<longrightarrow> prefix (nic_received outs) (nic_submitted evs outs))"
proof -
  obtain outs' s' where tr: "trace spec_step evs (spec_init cap) = (outs', s')" by fastforce
  have outs: "outs' = outs" and rel: "nic_rel m' s'"
    using nic.trace_sim [of m "spec_init cap" evs] nic_init_rel [OF init] run tr
    by (simp_all add: list_all_iff)
  have inv: "spec_inv s'" using spec_trace_inv [OF spec_init_inv, of evs cap] tr by simp
  have ord: "subseq (nic_received outs @ sp_ready s' @ sp_pending s') (nic_submitted evs outs)"
    using spec_trace_order [OF tr] by (simp add: spec_init_def outs)
  have cnt: "length (nic_received outs) + length (sp_ready s') + length (sp_pending s') +
      sp_errors s' + sp_no_buffer s' = length (nic_submitted evs outs)"
    using spec_trace_count [OF tr] by (simp add: spec_init_def outs)
  have "length (nic_submitted evs outs) \<le> length evs"
  proof -
    have "length (concat (map2 nic_accepted es os)) \<le> length es" for es os
      by (induction es os rule: list_induct2') (auto simp: nic_accepted_def split: nic_event.splits nic_out.splits)
    then show ?thesis by (simp add: nic_submitted_def)
  qed
  then have small: "sp_errors s' < 2 ^ 64" "sp_no_buffer s' < 2 ^ 64" using cnt short by linarith+
  have words: "rx_no_buffer m' = of_nat (sp_no_buffer s')" "tx_errors m' = of_nat (sp_errors s')"
      "tx_completed m' = of_nat (sp_completed s')" "rx_completed m' = of_nat (sp_delivered s')"
    using rel by (simp_all add: nic_rel_def reg_rel_def)
  have "prefix (nic_received outs) (nic_submitted evs outs)" if "rx_no_buffer m' = 0" "tx_errors m' = 0"
  proof -
    have "sp_no_buffer s' = 0" "sp_errors s' = 0"
      using that small words by (simp_all add: of_nat_eq_0_iff word_of_nat_eq_0_iff nat_dvd_not_less)
        (metis dvd_imp_le gr0I not_less)+
    then have "nic_received outs @ sp_ready s' @ sp_pending s' = nic_submitted evs outs"
      using cnt by (intro subseq_same_length [OF ord]) simp
    then show ?thesis by (metis prefixI)
  qed
  moreover have "subseq (nic_received outs) (nic_submitted evs outs)"
    using ord subseq_order.trans by (metis list_emb_append2 subseq_rev_drop_many append_Nil2 subseq_order.refl)
  ultimately show ?thesis using inv words by (simp add: spec_inv_def)
qed

theorem nic_loopback_order_witness:
  "subseq (nic_received (fst (trace nic_event_step sample_events sample_nic)))
     (nic_submitted sample_events (fst (trace nic_event_step sample_events sample_nic)))"
  using nic_loopback_order [OF sample_nic_init, of sample_events]
  by (cases "trace nic_event_step sample_events sample_nic") (simp add: sample_events_def)

text \<open>
  Transmission succeeds: a batch of valid frames, no more than the ring holds, submitted to
  a fresh card, worked off by the device and received with a buffer of the maximal frame size,
  is accepted completely and comes back byte for byte in the same order.
\<close>

theorem nic_batch_roundtrip:
  assumes "nic_model_init n cap = (0, Some m)" "list_all frame_ok ps" "length ps \<le> cap"
  shows "fst (trace nic_event_step
      (map Submit ps @ replicate (length ps) DeviceIter @ replicate (length ps) (Receive NIC_MTU)) m) =
    map (\<lambda>_. Rc 0) ps @ replicate (length ps) (Worked True) @ map (\<lambda>p. Frame 0 (Some p)) ps"
proof -
  let ?s = "(spec_init cap)\<lparr>sp_pending := ps\<rparr>"
  have sub: "trace spec_step (map Submit ps) (spec_init cap) = (map (\<lambda>_. Rc 0) ps, ?s)"
    using spec_submit_batch [of ps "spec_init cap"] assms(2,3) by (simp add: spec_init_def)
  obtain s' where dev: "trace spec_step (replicate (length ps) DeviceIter) ?s =
      (replicate (length ps) (Worked True), s')" and s': "sp_ready s' = ps"
    using spec_device_batch [of ?s] assms(3) by (auto simp: spec_init_def)
  have "fst (trace spec_step (replicate (length ps) (Receive NIC_MTU)) s') = map (\<lambda>p. Frame 0 (Some p)) ps"
    using spec_receive_batch [of s'] assms(2) s' by simp
  then have "fst (trace spec_step
      (map Submit ps @ replicate (length ps) DeviceIter @ replicate (length ps) (Receive NIC_MTU))
      (spec_init cap)) =
      map (\<lambda>_. Rc 0) ps @ replicate (length ps) (Worked True) @ map (\<lambda>p. Frame 0 (Some p)) ps"
    by (simp add: trace_append sub dev case_prod_unfold)
  then show ?thesis
    using nic.trace_sim [of m "spec_init cap"] nic_init_rel [OF assms(1)] by (simp add: list_all_iff)
qed

theorem nic_batch_roundtrip_witness:
  "fst (trace nic_event_step
      ([Submit [1, 2], Submit [3]] @ replicate 2 DeviceIter @ replicate 2 (Receive NIC_MTU)) sample_nic) =
    [Rc 0, Rc 0, Worked True, Worked True, Frame 0 (Some [1, 2]), Frame 0 (Some [3])]"
  using nic_batch_roundtrip [OF sample_nic_init, of "[[1, 2], [3]]"]
  by (simp add: frame_ok_def NIC_MTU_def numeral_2_eq_2)

text \<open>
  Each poll is bounded and does all the work there is: a device step completes exactly as
  many frames as are pending, up to its budget and the ring's capacity; a reclaim frees every
  completed descriptor and reports exactly the failed ones. Both leave the rings well formed.
\<close>

theorem nic_poll_amounts:
  assumes "nic_rel m s"
  shows "\<exists>m' m''. nic_device_step (Some m) budget =
      (min (min budget (sp_cap s)) (length (sp_pending s)), Some m') \<and>
    nic_rel m' ((spec_device ^^ min (min budget (sp_cap s)) (length (sp_pending s))) s) \<and>
    nic_tx_reclaim (Some m) (Some old) = (length (sp_done s), Some (length (filter id (sp_done s))), Some m'') \<and>
    nic_rel m'' (s\<lparr>sp_done := []\<rparr>)"
proof -
  have cap: "capacity m = sp_cap s" using assms by (simp add: nic_rel_def reg_rel_def)
  have "length (sp_done s) \<le> capacity m"
  proof -
    obtain D P F where v: "ring_view (tx m) (tx_reclaim_cursor m) (capacity m) = D @ P @ F"
      and D: "list_all2 done_desc (sp_done s) D"
      using assms unfolding nic_rel_def tx_rel_def by blast
    then show ?thesis
      using length_ring_view [of "tx m" "tx_reclaim_cursor m" "capacity m"] list_all2_lengthD [OF D] by simp
  qed
  from reclaim_loop_sim [OF assms this, of 0 0] obtain m'' where
    r: "reclaim_loop (capacity m) 0 (Some 0) m =
      (length (sp_done s), Some (length (filter id (sp_done s))), m'')" "nic_rel m'' (s\<lparr>sp_done := []\<rparr>)"
    by auto
  have "(if budget > capacity m then capacity m else budget) = min budget (sp_cap s)"
    using cap by simp
  with device_loop_sim [OF assms, of "min budget (sp_cap s)" 0] r show ?thesis
    by (auto simp: nic_device_step_def nic_tx_reclaim_def Let_def)
qed

theorem nic_poll_amounts_witness:
  "\<exists>m'. nic_device_step (Some (snd (trace nic_event_step [Submit [1], Submit [2]] sample_nic))) 5 = (2, Some m')"
proof -
  have "nic_rel (snd (trace nic_event_step [Submit [1], Submit [2]] sample_nic))
      (snd (trace spec_step [Submit [1], Submit [2]] (spec_init 2)))"
    using nic.trace_sim [of sample_nic "spec_init 2" "[Submit [1], Submit [2]]"] nic_init_rel [OF sample_nic_init]
    by simp
  from nic_poll_amounts [OF this, of 5 0] show ?thesis
    by (auto simp: spec_init_def NIC_MTU_def simp del: trace.simps(2) simp: trace_Cons_simps)
qed

end
