(* ===== verification/Net_Protocol.thy ===== *)
theory Net_Protocol
  imports Posix_IO Embedded_Protocol
begin

text \<open>
  The length-prefixed frames of the remote shell, \<^verbatim>\<open>network/protocol.c\<close>. Its two retry loops
  satisfy the same contracts as those of the packet protocol. A length after \<open>htonl\<close> is its
  four bytes, most significant first.
\<close>

section \<open>Operations\<close>

definition MLRT_MAX_COMMAND :: u32 where "MLRT_MAX_COMMAND = 4096"
definition MLRT_MAX_RESPONSE :: u32 where "MLRT_MAX_RESPONSE = 1024 * 1024"

fun send_all :: "wr_event list \<Rightarrow> byte list \<Rightarrow> (int \<times> byte list \<times> wr_event list) option" where
  "send_all es [] = Some (0, [], es)"
| "send_all [] (b # buf) = None"
| "send_all (e # es) (b # buf) =
     (case sys_write e (b # buf) of
        WrIntr \<Rightarrow> send_all es (b # buf)
      | WrErr \<Rightarrow> Some (-1, [], es)
      | WrCount n \<Rightarrow>
          if n = 0 then Some (-1, [], es)
          else map_option (\<lambda>(r, out, es'). (r, take n (b # buf) @ out, es'))
                 (send_all es (drop n (b # buf))))"

fun recv_all ::
  "rd_event list \<Rightarrow> nat \<Rightarrow> byte list \<Rightarrow> (int \<times> byte list \<times> byte list \<times> rd_event list) option" where
  "recv_all es 0 inp = Some (1, [], inp, es)"
| "recv_all [] (Suc len) inp = None"
| "recv_all (e # es) (Suc len) inp =
     (case sys_read e (Suc len) inp of
        RdIntr \<Rightarrow> recv_all es (Suc len) inp
      | RdErr \<Rightarrow> Some (-1, [], inp, es)
      | RdData bs \<Rightarrow>
          if bs = [] then Some (0, [], inp, es)
          else map_option (\<lambda>(r, got, rest, es'). (r, bs @ got, rest, es'))
                 (recv_all es (Suc len - length bs) (drop (length bs) inp)))"

definition htonl :: "u32 \<Rightarrow> byte list" where
  "htonl v = [ucast (drop_bit 24 v), ucast (drop_bit 16 v), ucast (drop_bit 8 v), ucast v]"

definition ntohl :: "byte list \<Rightarrow> u32" where
  "ntohl p = push_bit 24 (ucast (p ! 0)) OR push_bit 16 (ucast (p ! 1)) OR
     push_bit 8 (ucast (p ! 2)) OR ucast (p ! 3)"

text \<open>The result: return code, bytes the socket accepted, rest of the schedule.\<close>

definition net_send_frame ::
  "wr_event list \<Rightarrow> byte list \<Rightarrow> u32 \<Rightarrow> (int \<times> byte list \<times> wr_event list) option" where
  "net_send_frame es data len =
     (case send_all es (htonl len) of
        None \<Rightarrow> None
      | Some (rc, sent, es1) \<Rightarrow>
          if rc < 0 then Some (-1, sent, es1)
          else if len \<noteq> 0
          then map_option (\<lambda>(rc2, sent2, es2). (rc2, sent @ sent2, es2))
                 (send_all es1 (take (unat len) data))
          else Some (0, sent, es1))"

text \<open>
  \<open>mem\<close> says whether \<open>malloc\<close> succeeds for the requested size. On success the buffer handed
  out holds the frame and a terminating zero.
\<close>

definition net_recv_frame ::
  "(nat \<Rightarrow> bool) \<Rightarrow> rd_event list \<Rightarrow> u32 \<Rightarrow> byte list \<Rightarrow>
     (int \<times> (byte list \<times> u32) option \<times> byte list \<times> rd_event list) option" where
  "net_recv_frame mem es max_length inp =
     (case recv_all es 4 inp of
        None \<Rightarrow> None
      | Some (rc, hdr, inp1, es1) \<Rightarrow>
          if rc \<le> 0 then Some (rc, None, inp1, es1)
          else
            let host_length = ntohl hdr
            in if host_length > max_length then Some (-1, None, inp1, es1)
               else if \<not> mem (unat host_length + 1) then Some (-1, None, inp1, es1)
               else if host_length \<noteq> 0
               then (case recv_all es1 (unat host_length) inp1 of
                       None \<Rightarrow> None
                     | Some (rc2, buf, inp2, es2) \<Rightarrow>
                         if rc2 \<le> 0 then Some (rc2, None, inp2, es2)
                         else Some (1, Some (buf @ [0], host_length), inp2, es2))
               else Some (1, Some ([0], host_length), inp1, es1))"

section \<open>Contracts\<close>

interpretation net_reader: exact_reader recv_all "1 :: int" 0 "-1"
  by unfold_locales simp_all

interpretation net_writer: exact_writer send_all "0 :: int" "-1"
  by unfold_locales auto

lemma htonl_be [simp]: "htonl v = put_u32_be v"
  by (simp add: htonl_def put_u32_be_def)

lemma ntohl_be: "ntohl p = get_u32_be p"
  by (simp add: ntohl_def get_u32_be_def)

lemma ntohl_htonl [simp, codec_simps]: "ntohl (put_u32_be v) = v"
  using get_put_u32_be [of v "[]"] by (simp add: ntohl_be)

interpretation net_length: codec htonl "\<lambda>p. if length p < 4 then None else Some (ntohl p)" "\<lambda>_. True"
  by unfold_locales (simp add: ntohl_be)

lemma recv_frame_header:
  assumes "RdFail \<notin> set es" "4 \<le> rd_chunks es"
  shows "\<exists>es1. recv_all es 4 (put_u32_be len @ rest) = Some (1, put_u32_be len, rest, es1) \<and>
    set es1 \<subseteq> set es \<and> rd_chunks es \<le> rd_chunks es1 + 4"
proof -
  obtain es1 where r: "recv_all es 4 (put_u32_be len @ rest) = Some (1, put_u32_be len, rest, es1)"
    using net_reader.rdall_complete [of es 4 "put_u32_be len @ rest"] assms by auto
  with net_reader.rdall_ok [OF r] show ?thesis by auto
qed

lemma recv_frame_complete:
  assumes "RdFail \<notin> set es" "unat len + 4 \<le> rd_chunks es" "len \<le> max_length"
    and "length data = unat len" "mem (unat len + 1)"
  shows "\<exists>es'. net_recv_frame mem es max_length (put_u32_be len @ data @ rest) =
    Some (1, Some (data @ [0], len), rest, es')"
proof -
  obtain es1 where h: "recv_all es 4 (put_u32_be len @ data @ rest) = Some (1, put_u32_be len, data @ rest, es1)"
    and es1: "set es1 \<subseteq> set es" "rd_chunks es \<le> rd_chunks es1 + 4"
    using recv_frame_header [of es len "data @ rest"] assms(1,2) by auto
  have "RdFail \<notin> set es1" "unat len \<le> rd_chunks es1" using es1 assms(1,2) by auto
  then obtain es2 where b: "recv_all es1 (unat len) (data @ rest) = Some (1, data, rest, es2)"
    using net_reader.rdall_complete [of es1 "unat len" "data @ rest"] assms(4) by auto
  show ?thesis
  proof (cases "len = 0")
    case True
    with assms(4) have "data = []" by simp
    with h True assms(5) show ?thesis by (simp add: net_recv_frame_def)
  next
    case False
    with assms(3,5) show ?thesis by (simp add: net_recv_frame_def h b not_less)
  qed
qed

lemma send_frame_complete:
  assumes "wr_reliable es" "unat len + 4 \<le> wr_chunks es" "length data = unat len"
  shows "\<exists>es'. net_send_frame es data len = Some (0, put_u32_be len @ data, es')"
proof -
  obtain es1 where h: "send_all es (put_u32_be len) = Some (0, put_u32_be len, es1)"
    using net_writer.wrall_complete [of es "put_u32_be len"] assms(1,2) by auto
  have "wr_chunks es \<le> wr_chunks es1 + 4" "wr_reliable es1"
    using net_writer.wrall_used [OF h] assms(1) by (auto simp: wr_reliable_def)
  then obtain es2 where "send_all es1 data = Some (0, data, es2)"
    using net_writer.wrall_complete [of es1 data] assms(2,3) by auto
  with h assms(3) show ?thesis by (cases "len = 0") (auto simp: net_send_frame_def)
qed

section \<open>Properties\<close>

text \<open>
  Transfer of a frame of the remote shell: what \<open>net_send_frame\<close> puts on the socket is
  received by \<open>net_recv_frame\<close> as the same bytes, zero-terminated, with the same length, however
  the kernel splits and interrupts the transfers; exactly the frame is consumed.
\<close>

theorem net_frame_transfer:
  assumes "length data = unat len" "len \<le> max_length" "mem (unat len + 1)"
    and "wr_reliable ws" "unat len + 4 \<le> wr_chunks ws"
    and "RdFail \<notin> set rs" "unat len + 4 \<le> rd_chunks rs"
  shows "\<exists>sent ws' rs'. net_send_frame ws data len = Some (0, sent, ws') \<and>
    net_recv_frame mem rs max_length (sent @ rest) = Some (1, Some (data @ [0], len), rest, rs')"
proof -
  obtain ws' where "net_send_frame ws data len = Some (0, put_u32_be len @ data, ws')"
    using send_frame_complete [OF assms(4,5,1)] by blast
  moreover obtain rs' where "net_recv_frame mem rs max_length ((put_u32_be len @ data) @ rest) =
      Some (1, Some (data @ [0], len), rest, rs')"
    using recv_frame_complete [OF assms(6,7,2,1), where mem = mem and rest = rest] assms(3) by auto
  ultimately show ?thesis by blast
qed

theorem net_frame_transfer_witness:
  "\<exists>sent ws' rs'. net_send_frame (WrEintr # replicate 7 (WrChunk 4)) [104, 105, 10] 3 = Some (0, sent, ws') \<and>
    net_recv_frame (\<lambda>_. True) (replicate 7 (RdChunk 1)) MLRT_MAX_COMMAND (sent @ [1]) =
      Some (1, Some ([104, 105, 10] @ [0], 3), [1], rs')"
  by (rule net_frame_transfer)
     (simp_all add: MLRT_MAX_COMMAND_def wr_reliable_def wr_chunks_def rd_chunks_def)

text \<open>
  A peer cannot make the receiver allocate or read more than it allows: when the announced
  length exceeds the limit the receiver returns an error after the four header bytes, with
  nothing handed out and the rest of the stream untouched.
\<close>

theorem net_recv_rejects_oversize:
  assumes "len > max_length" "RdFail \<notin> set rs" "4 \<le> rd_chunks rs"
  shows "\<exists>rs'. net_recv_frame mem rs max_length (htonl len @ rest) = Some (-1, None, rest, rs')"
  using recv_frame_header [OF assms(2,3), of len rest] assms(1) by (auto simp: net_recv_frame_def)

theorem net_recv_rejects_oversize_witness:
  "\<exists>rs'. net_recv_frame (\<lambda>_. True) (replicate 4 (RdChunk 0)) MLRT_MAX_COMMAND (htonl 4097 @ [7, 8]) =
     Some (-1, None, [7, 8], rs')"
  by (rule net_recv_rejects_oversize) (simp_all add: MLRT_MAX_COMMAND_def rd_chunks_def)

end
