(* ===== verification/C_Strings.thy ===== *)
theory C_Strings
  imports Prelude
begin

text \<open>
  What the sources use of the C library on strings: character tests, decimal numbers as
  \<open>strtol\<close> with base 10 reads them, and the decimal text of a number for the round trips. A C
  string is the list of its characters before the terminating zero.
\<close>

section \<open>Characters and numbers\<close>

definition c_isspace :: "char \<Rightarrow> bool" where
  "c_isspace c \<longleftrightarrow> (let n = of_char c :: nat in n = 32 \<or> 9 \<le> n \<and> n \<le> 13)"

definition c_isdigit :: "char \<Rightarrow> bool" where
  "c_isdigit c \<longleftrightarrow> (let n = of_char c :: nat in 48 \<le> n \<and> n \<le> 57)"

definition dec_value :: "string \<Rightarrow> nat" where
  "dec_value ds = foldl (\<lambda>n c. 10 * n + (of_char c - 48)) 0 ds"

text \<open>
  \<open>strtol(s, &end, 10)\<close>: the value and the text \<open>end\<close> points to. Without a digit the value is
  zero and \<open>end\<close> is the start; a value outside \<open>long\<close> is clamped.
\<close>

definition strtol10 :: "string \<Rightarrow> int \<times> string" where
  "strtol10 s =
     (let s1 = dropWhile c_isspace s;
          neg = (s1 \<noteq> [] \<and> hd s1 = CHR ''-'');
          s2 = (if s1 \<noteq> [] \<and> (hd s1 = CHR ''-'' \<or> hd s1 = CHR ''+'') then tl s1 else s1);
          ds = takeWhile c_isdigit s2;
          n = int (dec_value ds)
      in if ds = [] then (0, s)
         else (max (- (2 ^ 63)) (min (2 ^ 63 - 1) (if neg then - n else n)), dropWhile c_isdigit s2))"

text \<open>The conversion of \<open>long\<close> to \<open>int\<close> keeps the low 32 bits.\<close>

definition to_c_int :: "int \<Rightarrow> int" where
  "to_c_int v = signed_take_bit 31 v"

text \<open>\<open>atoi\<close> of the C library: the value \<open>strtol\<close> reads, converted to \<open>int\<close>.\<close>

definition atoi :: "string \<Rightarrow> int" where
  "atoi s = to_c_int (fst (strtol10 s))"

definition digit :: "nat \<Rightarrow> char" where
  "digit d = char_of (48 + d)"

fun dec :: "nat \<Rightarrow> string" where
  "dec n = (if n < 10 then [digit n] else dec (n div 10) @ [digit (n mod 10)])"

declare dec.simps [simp del]

lemma digit_code [simp]: "d < 10 \<Longrightarrow> (of_char (digit d) :: nat) = 48 + d"
  by (simp add: digit_def)

lemma dec_digits: "list_all c_isdigit (dec n)"
proof (induction n rule: dec.induct)
  case (1 n)
  have "c_isdigit (digit d)" if "d < 10" for d using that by (simp add: c_isdigit_def)
  with 1 show ?case by (subst dec.simps) simp
qed

lemma dec_nonempty [simp]: "dec n \<noteq> []"
  by (subst dec.simps) simp

lemma dec_value_dec: "dec_value (dec n) = n"
  by (induction n rule: dec.induct) (subst dec.simps, auto simp: dec_value_def)

lemma length_dec: "n < 10 ^ Suc k \<Longrightarrow> length (dec n) \<le> Suc k"
proof (induction k arbitrary: n)
  case 0
  then show ?case by (subst dec.simps) simp
next
  case (Suc k)
  then have "n div 10 < 10 ^ Suc k" by (simp add: less_mult_imp_div_less mult.commute)
  with Suc.IH show ?case by (subst dec.simps) fastforce
qed

text \<open>The decimal text of a number starts with a digit, which is neither space nor sign.\<close>

lemma dec_first:
  obtains d ds where "dec n = d # ds" "c_isdigit d" "\<not> c_isspace d" "d \<noteq> CHR ''-''" "d \<noteq> CHR ''+''"
proof -
  obtain d ds where d: "dec n = d # ds" by (cases "dec n") auto
  then have dd: "c_isdigit d" using dec_digits [of n] by simp
  then have code: "48 \<le> (of_char d :: nat)" "(of_char d :: nat) \<le> 57" by (simp_all add: c_isdigit_def Let_def)
  then have "\<not> c_isspace d" "d \<noteq> CHR ''-''" "d \<noteq> CHR ''+''" by (auto simp: c_isspace_def Let_def)
  with d dd that show ?thesis by blast
qed

lemma dec_span:
  assumes "rest = [] \<or> \<not> c_isdigit (hd rest)"
  shows "takeWhile c_isdigit (dec n @ rest) = dec n" "dropWhile c_isdigit (dec n @ rest) = rest"
  using dec_digits [of n] assms by (cases rest; simp add: list_all_iff)+

lemma strtol10_dec: "n < 2 ^ 63 \<Longrightarrow> strtol10 (dec n) = (int n, [])"
proof -
  assume n: "n < 2 ^ 63"
  obtain d ds where d: "dec n = d # ds" "c_isdigit d" "\<not> c_isspace d" "d \<noteq> CHR ''-''" "d \<noteq> CHR ''+''"
    by (rule dec_first)
  have tw: "takeWhile c_isdigit ds = ds" using dec_span(1) [of "[]" n] d by simp
  show ?thesis
    using n d dec_value_dec [of n] dec_span(2) [of "[]" n] by (simp add: strtol10_def Let_def tw)
qed

end
