(* ===== verification/Firmware_Image.thy ===== *)
theory Firmware_Image
  imports Posix_IO Crc32 C_Strings
begin

text \<open>
  Firmware images, \<^verbatim>\<open>firmware/image.c\<close>: the little-endian header codec, the version and
  architecture arguments, packing, inspection, verification, the update policy and the command
  line. Files live in a map from paths to contents; a descriptor is a path with an offset, so
  that two descriptors on one path see each other's writes. How the kernel splits reads and
  writes is a schedule as in \<^verbatim>\<open>Posix_IO\<close>; a thread still blocked in a call is \<open>None\<close>. The text
  printed is not modelled, the exit codes are.
\<close>

section \<open>Header\<close>

definition FW_MAGIC :: u32 where "FW_MAGIC = 0x4d4c4657"
definition FW_FORMAT_VERSION :: u16 where "FW_FORMAT_VERSION = 1"
definition FW_HEADER_SIZE :: nat where "FW_HEADER_SIZE = 40"
definition FW_MAX_IMAGE :: nat where "FW_MAX_IMAGE = 64 * 1024 * 1024"

lemmas fw_consts = FW_MAGIC_def FW_FORMAT_VERSION_def FW_HEADER_SIZE_def FW_MAX_IMAGE_def

datatype fw_arch = FW_ARCH_GENERIC | FW_ARCH_X86_64 | FW_ARCH_ARM64 | FW_ARCH_I386

fun fw_arch_code :: "fw_arch \<Rightarrow> u16" where
  "fw_arch_code FW_ARCH_GENERIC = 0"
| "fw_arch_code FW_ARCH_X86_64 = 1"
| "fw_arch_code FW_ARCH_ARM64 = 2"
| "fw_arch_code FW_ARCH_I386 = 3"

record fw_header =
  fw_major :: u16
  fw_minor :: u16
  fw_patch :: u16
  fw_arch :: u16
  fw_image_size :: u64
  fw_crc32 :: u32

definition put_u16_le :: "u16 \<Rightarrow> byte list" where
  "put_u16_le v = [ucast v, ucast (drop_bit 8 v)]"

definition put_u32_le :: "u32 \<Rightarrow> byte list" where
  "put_u32_le v = [ucast v, ucast (drop_bit 8 v), ucast (drop_bit 16 v), ucast (drop_bit 24 v)]"

definition put_u64_le :: "u64 \<Rightarrow> byte list" where
  "put_u64_le v = map (\<lambda>i. ucast (drop_bit (8 * i) v)) [0..<8]"

definition get_u16_le :: "byte list \<Rightarrow> u16" where
  "get_u16_le p = ucast (p ! 0) OR push_bit 8 (ucast (p ! 1))"

definition get_u32_le :: "byte list \<Rightarrow> u32" where
  "get_u32_le p = ucast (p ! 0) OR push_bit 8 (ucast (p ! 1)) OR push_bit 16 (ucast (p ! 2)) OR
     push_bit 24 (ucast (p ! 3))"

definition get_u64_le :: "byte list \<Rightarrow> u64" where
  "get_u64_le p = foldl (\<lambda>v i. push_bit 8 v OR ucast (p ! i)) 0 (rev [0..<8])"

definition serialize_header :: "fw_header \<Rightarrow> byte list" where
  "serialize_header h =
     write_at 32 (put_u64_le 0)
    (write_at 28 (put_u32_le 0)
    (write_at 24 (put_u32_le (fw_crc32 h))
    (write_at 16 (put_u64_le (fw_image_size h))
    (write_at 14 (put_u16_le (of_nat FW_HEADER_SIZE))
    (write_at 12 (put_u16_le (fw_patch h))
    (write_at 10 (put_u16_le (fw_minor h))
    (write_at 8 (put_u16_le (fw_major h))
    (write_at 6 (put_u16_le (fw_arch h))
    (write_at 4 (put_u16_le FW_FORMAT_VERSION)
    (write_at 0 (put_u32_le FW_MAGIC) (replicate FW_HEADER_SIZE 0)))))))))))"

definition parse_header :: "byte list \<Rightarrow> fw_header option" where
  "parse_header inp =
     (if get_u32_le inp \<noteq> FW_MAGIC then None
      else if get_u16_le (drop 4 inp) \<noteq> FW_FORMAT_VERSION \<or>
              get_u16_le (drop 14 inp) \<noteq> of_nat FW_HEADER_SIZE then None
      else Some \<lparr>fw_major = get_u16_le (drop 8 inp), fw_minor = get_u16_le (drop 10 inp),
                 fw_patch = get_u16_le (drop 12 inp), fw_arch = get_u16_le (drop 6 inp),
                 fw_image_size = get_u64_le (drop 16 inp), fw_crc32 = get_u32_le (drop 24 inp)\<rparr>)"

section \<open>Arguments\<close>

definition arch_name :: "u16 \<Rightarrow> string" where
  "arch_name a =
     (if a = fw_arch_code FW_ARCH_X86_64 then ''x86_64''
      else if a = fw_arch_code FW_ARCH_ARM64 then ''arm64''
      else if a = fw_arch_code FW_ARCH_I386 then ''i386''
      else ''generic'')"

definition arch_parse :: "string \<Rightarrow> u16 option" where
  "arch_parse s =
     (if s = ''generic'' then Some (fw_arch_code FW_ARCH_GENERIC)
      else if s = ''x86_64'' then Some (fw_arch_code FW_ARCH_X86_64)
      else if s = ''arm64'' \<or> s = ''aarch64'' then Some (fw_arch_code FW_ARCH_ARM64)
      else if s = ''i386'' \<or> s = ''x86'' then Some (fw_arch_code FW_ARCH_I386)
      else None)"

text \<open>
  The conversion \<open>%u\<close> of \<open>sscanf\<close>: white space is skipped, a sign may follow, then at least one
  digit is needed. The C standard leaves a value outside \<open>unsigned\<close> undefined; \<open>big\<close> is what
  the C library stores then.
\<close>

definition scan_u :: "(bool \<Rightarrow> nat \<Rightarrow> u32) \<Rightarrow> string \<Rightarrow> (u32 \<times> string) option" where
  "scan_u big s =
     (let s1 = dropWhile c_isspace s;
          neg = (s1 \<noteq> [] \<and> hd s1 = CHR ''-'');
          s2 = (if s1 \<noteq> [] \<and> (hd s1 = CHR ''-'' \<or> hd s1 = CHR ''+'') then tl s1 else s1);
          ds = takeWhile c_isdigit s2;
          n = dec_value ds
      in if ds = [] then None
         else Some (if n < 2 ^ 32 then (if neg then - of_nat n else of_nat n) else big neg n,
                    dropWhile c_isdigit s2))"

text \<open>
  \<open>sscanf(s, "%u.%u.%u%c", ...)\<close>: \<open>Some\<close> exactly when it returns 3, that is when three numbers
  were converted and no character is left for the last conversion.
\<close>

definition sscanf_version :: "(bool \<Rightarrow> nat \<Rightarrow> u32) \<Rightarrow> string \<Rightarrow> (u32 \<times> u32 \<times> u32) option" where
  "sscanf_version big s =
     (case scan_u big s of
        Some (a, d1 # r1) \<Rightarrow>
          if d1 \<noteq> CHR ''.'' then None
          else (case scan_u big r1 of
                  Some (b, d2 # r2) \<Rightarrow>
                    if d2 \<noteq> CHR ''.'' then None
                    else (case scan_u big r2 of Some (c, []) \<Rightarrow> Some (a, b, c) | _ \<Rightarrow> None)
                | _ \<Rightarrow> None)
      | _ \<Rightarrow> None)"

definition version_parse :: "(bool \<Rightarrow> nat \<Rightarrow> u32) \<Rightarrow> string \<Rightarrow> fw_header \<Rightarrow> fw_header option" where
  "version_parse big s h =
     (case sscanf_version big s of
        None \<Rightarrow> None
      | Some (a, b, c) \<Rightarrow>
          if a > 65535 \<or> b > 65535 \<or> c > 65535 then None
          else Some (h\<lparr>fw_major := ucast a, fw_minor := ucast b, fw_patch := ucast c\<rparr>))"

definition semver_cmp :: "fw_header \<Rightarrow> fw_header \<Rightarrow> int" where
  "semver_cmp a b =
     (if fw_major a \<noteq> fw_major b then (if fw_major a > fw_major b then 1 else -1)
      else if fw_minor a \<noteq> fw_minor b then (if fw_minor a > fw_minor b then 1 else -1)
      else if fw_patch a \<noteq> fw_patch b then (if fw_patch a > fw_patch b then 1 else -1)
      else 0)"

section \<open>Files\<close>

type_synonym fs = "string \<rightharpoonup> byte list"

type_synonym fd = "string \<times> nat"

definition file_of :: "fs \<Rightarrow> string \<Rightarrow> byte list" where
  "file_of fs path = (case fs path of None \<Rightarrow> [] | Some bs \<Rightarrow> bs)"

definition fd_rest :: "fs \<Rightarrow> fd \<Rightarrow> byte list" where
  "fd_rest fs f = drop (snd f) (file_of fs (fst f))"

definition fd_write :: "fs \<Rightarrow> fd \<Rightarrow> byte list \<Rightarrow> fs \<times> fd" where
  "fd_write fs f bs =
     (fs(fst f \<mapsto> write_at (snd f) bs (file_of fs (fst f))), (fst f, snd f + length bs))"

text \<open>The inner loop of \<open>copy_and_crc\<close>: a write of zero bytes is simply repeated.\<close>

fun fw_write_loop :: "wr_event list \<Rightarrow> byte list \<Rightarrow> (int \<times> byte list \<times> wr_event list) option" where
  "fw_write_loop es [] = Some (0, [], es)"
| "fw_write_loop [] (b # buf) = None"
| "fw_write_loop (e # es) (b # buf) =
     (case sys_write e (b # buf) of
        WrIntr \<Rightarrow> fw_write_loop es (b # buf)
      | WrErr \<Rightarrow> Some (-1, [], es)
      | WrCount n \<Rightarrow>
          map_option (\<lambda>(r, out, es'). (r, take n (b # buf) @ out, es'))
            (fw_write_loop es (drop n (b # buf))))"

text \<open>
  The outer loop. \<open>total\<close> never exceeds \<open>expected\<close> by more than one buffer, so its 64 bits do not
  overflow for the sizes the callers admit; it is a natural number here. \<open>out\<close> is \<open>None\<close> for a
  negative descriptor. The result: return code, checksum if it is stored, the files, the
  descriptor written to, and the rest of the two schedules.
\<close>

fun copy_loop ::
  "rd_event list \<Rightarrow> wr_event list \<Rightarrow> fd \<Rightarrow> fd option \<Rightarrow> nat \<Rightarrow> nat \<Rightarrow> u32 \<Rightarrow> fs \<Rightarrow>
     (int \<times> u32 option \<times> fs \<times> fd option \<times> rd_event list \<times> wr_event list) option" where
  "copy_loop [] ws ifd out expected tot crc fs = None"
| "copy_loop (r # rs) ws ifd out expected tot crc fs =
     (case sys_read r 8192 (fd_rest fs ifd) of
        RdIntr \<Rightarrow> copy_loop rs ws ifd out expected tot crc fs
      | RdErr \<Rightarrow> Some (-1, None, fs, out, rs, ws)
      | RdData bs \<Rightarrow>
          if bs = [] then
            (if tot \<noteq> expected then Some (-1, None, fs, out, rs, ws)
             else Some (0, Some (mlrt_crc32_end crc), fs, out, rs, ws))
          else
            let tot' = tot + length bs
            in if tot' > expected then Some (-1, None, fs, out, rs, ws)
               else
                 let crc' = mlrt_crc32_update crc bs;
                     ifd' = (fst ifd, snd ifd + length bs)
                 in (case out of
                       None \<Rightarrow> copy_loop rs ws ifd' None expected tot' crc' fs
                     | Some f \<Rightarrow>
                         (case fw_write_loop ws bs of
                            None \<Rightarrow> None
                          | Some (rc, written, ws') \<Rightarrow>
                              let (fs', f') = fd_write fs f written
                              in if rc \<noteq> 0 then Some (-1, None, fs', Some f', rs, ws')
                                 else copy_loop rs ws' ifd' (Some f') expected tot' crc' fs')))"

definition copy_and_crc ::
  "rd_event list \<Rightarrow> wr_event list \<Rightarrow> fd \<Rightarrow> fd option \<Rightarrow> nat \<Rightarrow> fs \<Rightarrow>
     (int \<times> u32 option \<times> fs \<times> fd option \<times> rd_event list \<times> wr_event list) option" where
  "copy_and_crc rs ws ifd out expected fs =
     copy_loop rs ws ifd out expected 0 mlrt_crc32_begin fs"

text \<open>
  The other system calls: whether a path may be opened for reading or created, and whether
  \<open>fstat\<close> and \<open>lseek\<close> succeed.
\<close>

record fw_env =
  can_read :: "string \<Rightarrow> bool"
  can_create :: "string \<Rightarrow> bool"
  fstat_ok :: bool
  lseek_ok :: bool

text \<open>A single \<open>write\<close> of a whole buffer that must be complete.\<close>

definition write_once :: "wr_event list \<Rightarrow> byte list \<Rightarrow> fd \<Rightarrow> fs \<Rightarrow> (bool \<times> fs \<times> fd \<times> wr_event list) option" where
  "write_once ws buf f fs =
     (case ws of
        [] \<Rightarrow> None
      | e # ws' \<Rightarrow>
          (case sys_write e buf of
             WrCount n \<Rightarrow> let (fs', f') = fd_write fs f (take n buf) in Some (n = length buf, fs', f', ws')
           | _ \<Rightarrow> Some (False, fs, f, ws')))"

definition pack_image ::
  "fw_env \<Rightarrow> rd_event list \<Rightarrow> wr_event list \<Rightarrow> fs \<Rightarrow> string \<Rightarrow> string \<Rightarrow> fw_header \<Rightarrow> (int \<times> fs) option" where
  "pack_image env rs ws fs input output meta =
     (if \<not> can_read env input \<or> fs input = None then Some (1, fs)
      else
        let st_size = length (file_of fs input)
        in if \<not> fstat_ok env \<or> st_size > FW_MAX_IMAGE then Some (1, fs)
        else if \<not> can_create env output then Some (1, fs)
        else
          let fs1 = fs(output \<mapsto> [])
          in (case write_once ws (replicate FW_HEADER_SIZE 0) (output, 0) fs1 of
                None \<Rightarrow> None
              | Some (complete, fs2, f2, ws2) \<Rightarrow>
                  if \<not> complete then Some (1, fs2)
                  else
                    let h = meta\<lparr>fw_image_size := of_nat st_size\<rparr>
                    in (case copy_and_crc rs ws2 (input, 0) (Some f2) st_size fs2 of
                          None \<Rightarrow> None
                        | Some (rc, crc, fs3, f3, rs3, ws3) \<Rightarrow>
                            if rc \<noteq> 0 then Some (1, fs3)
                            else
                              let h' = h\<lparr>fw_crc32 := the crc\<rparr>
                              in if \<not> lseek_ok env then Some (1, fs3)
                                 else (case write_once ws3 (serialize_header h') (output, 0) fs3 of
                                         None \<Rightarrow> None
                                       | Some (complete', fs4, f4, ws4) \<Rightarrow>
                                           Some (if complete' then 0 else 1, fs4)))))"

text \<open>\<open>read_image_header\<close> reads the header with a retry loop of its own.\<close>

fun hdr_read_loop ::
  "rd_event list \<Rightarrow> nat \<Rightarrow> byte list \<Rightarrow> (int \<times> byte list \<times> byte list \<times> rd_event list) option" where
  "hdr_read_loop es 0 inp = Some (0, [], inp, es)"
| "hdr_read_loop [] (Suc len) inp = None"
| "hdr_read_loop (e # es) (Suc len) inp =
     (case sys_read e (Suc len) inp of
        RdIntr \<Rightarrow> hdr_read_loop es (Suc len) inp
      | RdErr \<Rightarrow> Some (-1, [], inp, es)
      | RdData bs \<Rightarrow>
          if bs = [] then Some (-1, [], inp, es)
          else map_option (\<lambda>(r, got, rest, es'). (r, bs @ got, rest, es'))
                 (hdr_read_loop es (Suc len - length bs) (drop (length bs) inp)))"

definition read_image_header ::
  "rd_event list \<Rightarrow> byte list \<Rightarrow> (fw_header option \<times> rd_event list) option" where
  "read_image_header rs inp =
     (case hdr_read_loop rs FW_HEADER_SIZE inp of
        None \<Rightarrow> None
      | Some (rc, buf, rest, rs') \<Rightarrow>
          if rc \<noteq> 0 then Some (None, rs') else Some (parse_header buf, rs'))"

text \<open>
  \<open>verify_image_file\<close>: \<open>None\<close> inside stands for the return code -1, otherwise the header with
  the two verdicts. \<open>expected_file\<close> is a sum of 64-bit words.
\<close>

definition verify_image_file ::
  "fw_env \<Rightarrow> rd_event list \<Rightarrow> fs \<Rightarrow> string \<Rightarrow> (fw_header \<times> bool \<times> bool) option option" where
  "verify_image_file env rs fs path =
     (if \<not> can_read env path \<or> fs path = None then Some None
      else
        (case read_image_header rs (file_of fs path) of
           None \<Rightarrow> None
         | Some (None, rs') \<Rightarrow> Some None
         | Some (Some h, rs') \<Rightarrow>
             if \<not> fstat_ok env then Some None
             else
               let expected_file = of_nat FW_HEADER_SIZE + fw_image_size h;
                   size_ok = (of_nat (length (file_of fs path)) = expected_file)
               in if size_ok \<and> fw_image_size h \<le> of_nat FW_MAX_IMAGE
                  then (case copy_and_crc rs' [] (path, FW_HEADER_SIZE) None (unat (fw_image_size h)) fs of
                          None \<Rightarrow> None
                        | Some (rc, crc, _) \<Rightarrow>
                            Some (Some (h, size_ok, rc = 0 \<and> crc = Some (fw_crc32 h))))
                  else Some (Some (h, size_ok, False))))"

definition inspect_or_verify :: "fw_env \<Rightarrow> rd_event list \<Rightarrow> fs \<Rightarrow> string \<Rightarrow> bool \<Rightarrow> int option" where
  "inspect_or_verify env rs fs path verify =
     (if \<not> can_read env path \<or> fs path = None then Some 1
      else
        (case read_image_header rs (file_of fs path) of
           None \<Rightarrow> None
         | Some (None, rs') \<Rightarrow> Some 1
         | Some (Some h, rs') \<Rightarrow>
             if \<not> fstat_ok env then Some 1
             else
               let expected_file = of_nat FW_HEADER_SIZE + fw_image_size h;
                   size_ok = (of_nat (length (file_of fs path)) = expected_file)
               in if size_ok \<and> fw_image_size h \<le> of_nat FW_MAX_IMAGE
                  then (case copy_and_crc rs' [] (path, FW_HEADER_SIZE) None (unat (fw_image_size h)) fs of
                          None \<Rightarrow> None
                        | Some (rc, crc, _) \<Rightarrow>
                            let crc_ok = (rc = 0 \<and> crc = Some (fw_crc32 h))
                            in Some (if verify \<and> \<not> (size_ok \<and> crc_ok) then 1 else 0))
                  else Some (if verify then 1 else 0)))"

definition check_update_policy ::
  "(bool \<Rightarrow> nat \<Rightarrow> u32) \<Rightarrow> fw_env \<Rightarrow> rd_event list \<Rightarrow> fs \<Rightarrow> string \<Rightarrow> string \<Rightarrow> bool \<Rightarrow> int option" where
  "check_update_policy big env rs fs path current allow_downgrade =
     (case version_parse big current
             \<lparr>fw_major = 0, fw_minor = 0, fw_patch = 0, fw_arch = 0, fw_image_size = 0, fw_crc32 = 0\<rparr> of
        None \<Rightarrow> Some 2
      | Some current_h \<Rightarrow>
          (case verify_image_file env rs fs path of
             None \<Rightarrow> None
           | Some None \<Rightarrow> Some 1
           | Some (Some (candidate, size_ok, crc_ok)) \<Rightarrow>
               if \<not> size_ok \<or> \<not> crc_ok then Some 1
               else
                 let cmp = semver_cmp candidate current_h;
                     accepted = allow_downgrade \<or> cmp > 0
                 in Some (if accepted then 0 else 1)))"

section \<open>Command line\<close>

text \<open>The option loop of \<open>pack\<close>: \<open>None\<close> is one of its error exits, all with code 2.\<close>

fun pack_options :: "(bool \<Rightarrow> nat \<Rightarrow> u32) \<Rightarrow> string list \<Rightarrow> fw_header \<Rightarrow> fw_header option" where
  "pack_options big [] h = Some h"
| "pack_options big (a # args) h =
     (if a = ''--version'' \<and> args \<noteq> [] then
        (case version_parse big (hd args) h of
           None \<Rightarrow> None | Some h' \<Rightarrow> pack_options big (tl args) h')
      else if a = ''--arch'' \<and> args \<noteq> [] then
        (case arch_parse (hd args) of
           None \<Rightarrow> None | Some x \<Rightarrow> pack_options big (tl args) (h\<lparr>fw_arch := x\<rparr>))
      else None)"

fun update_options :: "string list \<Rightarrow> string option \<Rightarrow> bool \<Rightarrow> (string option \<times> bool) option" where
  "update_options [] current allow = Some (current, allow)"
| "update_options (a # args) current allow =
     (if a = ''--current'' \<and> args \<noteq> [] then update_options (tl args) (Some (hd args)) allow
      else if a = ''--allow-downgrade'' then update_options args current True
      else None)"

definition fw_cli_main ::
  "(bool \<Rightarrow> nat \<Rightarrow> u32) \<Rightarrow> fw_env \<Rightarrow> rd_event list \<Rightarrow> wr_event list \<Rightarrow> fs \<Rightarrow> string list \<Rightarrow> (int \<times> fs) option" where
  "fw_cli_main big env rs ws fs argv =
     (if length argv < 2 then Some (2, fs)
      else if argv ! 1 = ''pack'' then
        (if length argv < 4 then Some (2, fs)
         else (case pack_options big (drop 4 argv)
                      \<lparr>fw_major = 1, fw_minor = 0, fw_patch = 0, fw_arch = fw_arch_code FW_ARCH_GENERIC,
                       fw_image_size = 0, fw_crc32 = 0\<rparr> of
                 None \<Rightarrow> Some (2, fs)
               | Some h \<Rightarrow> pack_image env rs ws fs (argv ! 2) (argv ! 3) h))
      else if argv ! 1 = ''inspect'' \<and> length argv = 3 then
        map_option (\<lambda>rc. (rc, fs)) (inspect_or_verify env rs fs (argv ! 2) False)
      else if argv ! 1 = ''verify'' \<and> length argv = 3 then
        map_option (\<lambda>rc. (rc, fs)) (inspect_or_verify env rs fs (argv ! 2) True)
      else if argv ! 1 = ''check-update'' then
        (if length argv < 5 then Some (2, fs)
         else (case update_options (drop 3 argv) None False of
                 None \<Rightarrow> Some (2, fs)
               | Some (None, allow) \<Rightarrow> Some (2, fs)
               | Some (Some current, allow) \<Rightarrow>
                   map_option (\<lambda>rc. (rc, fs)) (check_update_policy big env rs fs (argv ! 2) current allow)))
      else if argv ! 1 = ''help'' \<or> argv ! 1 = ''--help'' then Some (0, fs)
      else Some (2, fs))"

section \<open>Codec lemmas\<close>

lemma length_put_le [simp]:
  "length (put_u16_le a) = 2" "length (put_u32_le b) = 4" "length (put_u64_le c) = 8"
  by (simp_all add: put_u16_le_def put_u32_le_def put_u64_le_def)

lemma get_put_u16_le [simp, codec_simps]: "get_u16_le (put_u16_le v @ rest) = v"
proof (rule bit_word_eqI)
  fix n assume "n < LENGTH(16)"
  then show "bit (get_u16_le (put_u16_le v @ rest)) n = bit v n"
    by (cases "n < 8") (auto simp: get_u16_le_def put_u16_le_def bit_simps)
qed

lemma get_put_u32_le [simp, codec_simps]: "get_u32_le (put_u32_le v @ rest) = v"
proof (rule bit_word_eqI)
  fix n assume n: "n < LENGTH(32)"
  then have "n < 8 \<or> 8 \<le> n \<and> n < 16 \<or> 16 \<le> n \<and> n < 24 \<or> 24 \<le> n \<and> n < 32" by auto
  then show "bit (get_u32_le (put_u32_le v @ rest)) n = bit v n"
    using n by (auto simp: get_u32_le_def put_u32_le_def bit_simps)
qed

lemma upt_8: "[0..<8] = [0, 1, 2, 3, 4, 5, 6, 7::nat]"
  by (simp add: upt_rec)

lemma bit_shift_in:
  "bit (push_bit 8 v OR ucast b) n \<longleftrightarrow> (if n < 8 then bit b n else n < 64 \<and> bit v (n - 8))"
  for v :: u64 and b :: byte
  by (auto simp: bit_simps dest: bit_imp_le_length)

lemma bit_foldl_le:
  "bit (foldl (\<lambda>v i. push_bit 8 v OR ucast (p ! i)) acc (rev [0..<k])) n \<longleftrightarrow>
     (if n < 8 * k then n < 64 \<and> bit (p ! (n div 8)) (n mod 8) else n < 64 \<and> bit acc (n - 8 * k))"
  for acc :: u64 and p :: "byte list"
proof (induction k arbitrary: acc)
  case 0
  then show ?case by (auto dest: bit_imp_le_length)
next
  case (Suc k)
  have "n div 8 = k \<and> n mod 8 = n - 8 * k" if "8 * k \<le> n" "n < 8 * k + 8"
    using that by (metis add.commute div_nat_eqI minus_mult_div_eq_mod mult_Suc_right)
  then show ?case
    by (auto simp: Suc bit_shift_in add.commute simp del: bit_or_iff)
qed

lemma get_put_u64_le [simp, codec_simps]: "get_u64_le (put_u64_le v @ rest) = v"
proof (rule bit_word_eqI)
  fix n assume n: "n < LENGTH(64)"
  then have "n div 8 < 8" by simp
  then have "(put_u64_le v @ rest) ! (n div 8) = ucast (drop_bit (8 * (n div 8)) v)"
    by (simp add: put_u64_le_def nth_append)
  with n show "bit (get_u64_le (put_u64_le v @ rest)) n = bit v n"
    by (simp add: get_u64_le_def bit_foldl_le bit_simps)
qed

lemma serialize_header_eq:
  "serialize_header h = put_u32_le FW_MAGIC @ put_u16_le FW_FORMAT_VERSION @ put_u16_le (fw_arch h) @
     put_u16_le (fw_major h) @ put_u16_le (fw_minor h) @ put_u16_le (fw_patch h) @
     put_u16_le (of_nat FW_HEADER_SIZE) @ put_u64_le (fw_image_size h) @ put_u32_le (fw_crc32 h) @
     replicate 12 0"
proof -
  have z: "put_u32_le 0 = replicate 4 0" "put_u64_le 0 = replicate 8 0"
    by (simp_all add: put_u32_le_def put_u64_le_def upt_8 numeral_eq_Suc)
  have "replicate 4 (0::byte) @ replicate 8 0 = replicate 12 0" by (simp flip: replicate_add)
  then show ?thesis
    by (simp add: serialize_header_def write_at_def z FW_HEADER_SIZE_def)
qed

lemma length_serialize_header [simp]: "length (serialize_header h) = FW_HEADER_SIZE"
  by (simp add: serialize_header_eq FW_HEADER_SIZE_def)

lemma parse_serialize: "parse_header (serialize_header h @ rest) = Some h"
  by (simp add: parse_header_def serialize_header_eq)

interpretation fw_header_codec: codec serialize_header
    "\<lambda>p. if length p < FW_HEADER_SIZE then None else parse_header p" "\<lambda>_. True"
  by unfold_locales (simp add: parse_serialize)

interpretation hdr_reader: exact_reader hdr_read_loop "0 :: int" "-1" "-1"
  by unfold_locales simp_all

interpretation fw_writer: exact_writer fw_write_loop "0 :: int" "-1"
proof unfold_locales
  fix es b and buf :: "byte list"
  show "fw_write_loop (WrZero # es) (b # buf) = Some (-1, [], es) \<or>
      fw_write_loop (WrZero # es) (b # buf) = fw_write_loop es (b # buf)"
    by (simp add: option.map_ident_strong case_prod_unfold)
qed auto

section \<open>Copying\<close>

lemma chunk_take:
  assumes "RdData bs = sys_read (RdChunk k) 8192 inp" "inp \<noteq> []"
  obtains j where "0 < j" "j \<le> length inp" "bs = take j inp" "length bs = j"
proof
  let ?j = "min (min (Suc k) 8192) (length inp)"
  show "0 < ?j" "?j \<le> length inp" "bs = take ?j inp" "length bs = ?j"
    using assms by (auto simp: min_def)
qed

lemma fd_rest_advance: "fd_rest fs (path, off + n) = drop n (fd_rest fs (path, off))"
  by (simp add: fd_rest_def add.commute)

text \<open>Without an output the loop computes the checksum of what is left, if its length is right.\<close>

lemma copy_check_sound:
  assumes "copy_loop rs ws ifd None expected tot crc fs = Some (rc, c, fs', out', rs', ws')"
  shows "fs' = fs \<and> (rc = 0 \<and> tot + length (fd_rest fs ifd) = expected \<and>
      c = Some (mlrt_crc32_end (mlrt_crc32_update crc (fd_rest fs ifd))) \<or> rc = -1 \<and> c = None)"
  using assms
proof (induction rs arbitrary: ifd tot crc)
  case (Cons r rs)
  show ?case
  proof (cases r)
    case (RdChunk k)
    show ?thesis
    proof (cases "fd_rest fs ifd = []")
      case True
      with Cons.prems RdChunk show ?thesis by (auto simp: mlrt_crc32_update_def split: if_splits)
    next
      case False
      then obtain j where j: "0 < j" "j \<le> length (fd_rest fs ifd)"
        and bs: "sys_read r 8192 (fd_rest fs ifd) = RdData (take j (fd_rest fs ifd))"
        using chunk_take [OF _ False, of _ k] RdChunk by (metis sys_read.simps(1))
      let ?rest = "fd_rest fs ifd"
      have adv: "fd_rest fs (fst ifd, snd ifd + j) = drop j ?rest"
        using fd_rest_advance [of fs "fst ifd" "snd ifd" j] by simp
      have upd: "mlrt_crc32_update (mlrt_crc32_update crc (take j ?rest)) (drop j ?rest) =
          mlrt_crc32_update crc ?rest"
        by (simp flip: mlrt_crc32_update_append)
      show ?thesis
        using Cons.prems Cons.IH [of "(fst ifd, snd ifd + j)" "tot + j"
            "mlrt_crc32_update crc (take j ?rest)"] bs j
        by (auto simp: adv upd Let_def min_absorb2 split: if_splits)
    qed
  qed (use Cons in auto)
qed simp

lemma copy_check_complete:
  assumes "RdFail \<notin> set rs" "length (fd_rest fs ifd) < rd_chunks rs"
  shows "\<exists>rc c rs'. copy_loop rs ws ifd None expected tot crc fs = Some (rc, c, fs, None, rs', ws) \<and>
    (tot + length (fd_rest fs ifd) = expected \<longrightarrow> rc = 0)"
  using assms
proof (induction rs arbitrary: ifd tot crc)
  case (Cons r rs)
  show ?case
  proof (cases r)
    case (RdChunk k)
    show ?thesis
    proof (cases "fd_rest fs ifd = []")
      case False
      then obtain j where j: "0 < j" "j \<le> length (fd_rest fs ifd)"
        and bs: "sys_read r 8192 (fd_rest fs ifd) = RdData (take j (fd_rest fs ifd))"
        using chunk_take [OF _ False, of _ k] RdChunk by (metis sys_read.simps(1))
      have adv: "fd_rest fs (fst ifd, snd ifd + j) = drop j (fd_rest fs ifd)"
        using fd_rest_advance [of fs "fst ifd" "snd ifd" j] by simp
      show ?thesis
        using Cons.IH [of "(fst ifd, snd ifd + j)" "tot + j"
            "mlrt_crc32_update crc (take j (fd_rest fs ifd))"] Cons.prems RdChunk bs j
        by (auto simp: adv Let_def min_absorb2)
    qed (use RdChunk in simp)
  next
    case RdEintr
    with Cons show ?thesis by simp
  next
    case RdFail
    with Cons.prems show ?thesis by simp
  qed
qed simp

text \<open>With an output on another path, the loop also appends what it reads to the output.\<close>

lemma fd_write_append:
  assumes "snd f = length (file_of fs (fst f))"
  shows "fd_write fs f bs = (fs(fst f \<mapsto> file_of fs (fst f) @ bs), (fst f, snd f + length bs))"
  using assms by (simp add: fd_write_def write_at_def)

lemma file_of_upd [simp]:
  "file_of (fs(p \<mapsto> bs)) q = (if q = p then bs else file_of fs q)"
  by (simp add: file_of_def)

lemma fd_rest_other [simp]: "fst f \<noteq> p \<Longrightarrow> fd_rest (fs(p \<mapsto> bs)) f = fd_rest fs f"
  by (simp add: fd_rest_def)





section \<open>Packing and verification\<close>

lemma write_once_complete:
  assumes "write_once ws buf f fs = Some (True, fs', f', ws')"
  shows "fs' = fs(fst f \<mapsto> write_at (snd f) buf (file_of fs (fst f))) \<and> f' = (fst f, snd f + length buf)"
  using assms by (auto simp: write_once_def fd_write_def Let_def split: list.splits wr_result.splits)


definition packed_header :: "fw_header \<Rightarrow> byte list \<Rightarrow> fw_header" where
  "packed_header meta data = meta\<lparr>fw_image_size := of_nat (length data), fw_crc32 := mlrt_crc32 data\<rparr>"



text \<open>What a completed verification has established, whatever the schedule of the reads.\<close>

lemma hdr_read_ok:
  assumes "read_image_header rs bs = Some (Some h, rs')"
  shows "parse_header (take FW_HEADER_SIZE bs) = Some h \<and> FW_HEADER_SIZE \<le> length bs \<and>
    rd_chunks rs \<le> rd_chunks rs' + FW_HEADER_SIZE \<and> set rs' \<subseteq> set rs"
proof -
  from assms obtain buf rest where r: "hdr_read_loop rs FW_HEADER_SIZE bs = Some (0, buf, rest, rs')"
    and "parse_header buf = Some h"
    by (auto simp: read_image_header_def split: option.splits if_splits)
  with hdr_reader.rdall_ok [OF r] show ?thesis by auto
qed

lemma size_word:
  assumes "of_nat (length bs) = of_nat FW_HEADER_SIZE + (n :: u64)" "n \<le> of_nat FW_MAX_IMAGE"
    and "length bs < 2 ^ 63"
  shows "length bs = FW_HEADER_SIZE + unat n"
proof -
  have n: "unat n \<le> 67108864" using assms(2) by (simp add: word_le_nat_alt FW_MAX_IMAGE_def)
  have "unat (of_nat (length bs) :: u64) = length bs" using assms(3) by (simp add: unat_of_nat)
  moreover have "unat (of_nat FW_HEADER_SIZE + n) = FW_HEADER_SIZE + unat n"
    using n by (simp add: unat_word_ariths FW_HEADER_SIZE_def)
  ultimately show ?thesis using assms(1) by simp
qed

lemma verify_sound:
  assumes "verify_image_file env rs fs path = Some (Some (h, True, True))"
    and "length (file_of fs path) < 2 ^ 63"
  shows "parse_header (take FW_HEADER_SIZE (file_of fs path)) = Some h \<and>
    length (file_of fs path) = FW_HEADER_SIZE + unat (fw_image_size h) \<and>
    unat (fw_image_size h) \<le> FW_MAX_IMAGE \<and>
    mlrt_crc32 (drop FW_HEADER_SIZE (file_of fs path)) = fw_crc32 h"
proof -
  let ?bs = "file_of fs path"
  from assms(1) obtain rs1 fs' out' rs2 ws2 where hd: "read_image_header rs ?bs = Some (Some h, rs1)"
    and size: "of_nat (length ?bs) = of_nat FW_HEADER_SIZE + fw_image_size h"
      "fw_image_size h \<le> of_nat FW_MAX_IMAGE"
    and cp: "copy_loop rs1 [] (path, FW_HEADER_SIZE) None (unat (fw_image_size h)) 0 mlrt_crc32_begin fs =
      Some (0, Some (fw_crc32 h), fs', out', rs2, ws2)"
    by (auto simp: verify_image_file_def copy_and_crc_def Let_def split: if_splits option.splits prod.splits)
  have len: "length ?bs = FW_HEADER_SIZE + unat (fw_image_size h)" using size_word [OF size assms(2)] .
  have "fw_crc32 h = mlrt_crc32 (drop FW_HEADER_SIZE ?bs)"
    using copy_check_sound [OF cp] by (auto simp: fd_rest_def mlrt_crc32_def)
  moreover have "unat (fw_image_size h) \<le> FW_MAX_IMAGE"
    using size(2) by (simp add: word_le_nat_alt FW_MAX_IMAGE_def)
  ultimately show ?thesis using hdr_read_ok [OF hd] len by simp
qed

lemma verify_complete:
  assumes "can_read env path" "fs path \<noteq> None" "fstat_ok env"
    and "RdFail \<notin> set rs" "length (file_of fs path) < rd_chunks rs"
    and "parse_header (take FW_HEADER_SIZE (file_of fs path)) = Some h"
    and "length (file_of fs path) = FW_HEADER_SIZE + unat (fw_image_size h)"
    and "unat (fw_image_size h) \<le> FW_MAX_IMAGE"
  shows "verify_image_file env rs fs path =
    Some (Some (h, True, mlrt_crc32 (drop FW_HEADER_SIZE (file_of fs path)) = fw_crc32 h))"
proof -
  let ?bs = "file_of fs path"
  obtain rs1 where r: "hdr_read_loop rs FW_HEADER_SIZE ?bs = Some (0, take FW_HEADER_SIZE ?bs, drop FW_HEADER_SIZE ?bs, rs1)"
    using hdr_reader.rdall_complete [of rs FW_HEADER_SIZE ?bs] assms(4,5,7) by auto
  have rs1: "rd_chunks rs \<le> rd_chunks rs1 + FW_HEADER_SIZE" "set rs1 \<subseteq> set rs"
    using hdr_reader.rdall_ok [OF r] by auto
  have rest: "fd_rest fs (path, FW_HEADER_SIZE) = drop FW_HEADER_SIZE ?bs" by (simp add: fd_rest_def)
  have "RdFail \<notin> set rs1" "length (fd_rest fs (path, FW_HEADER_SIZE)) < rd_chunks rs1"
    using rs1 assms(4,5,7) by (auto simp: rest)
  then obtain c rs2 where cp: "copy_loop rs1 [] (path, FW_HEADER_SIZE) None (unat (fw_image_size h)) 0
      mlrt_crc32_begin fs = Some (0, c, fs, None, rs2, [])"
    using copy_check_complete [of rs1 fs "(path, FW_HEADER_SIZE)" "[]" "unat (fw_image_size h)" 0 mlrt_crc32_begin]
      assms(7) by (auto simp: rest)
  have c: "c = Some (mlrt_crc32 (drop FW_HEADER_SIZE ?bs))"
    using copy_check_sound [OF cp] by (simp add: rest mlrt_crc32_def)
  have "(of_nat (length ?bs) :: u64) = of_nat FW_HEADER_SIZE + fw_image_size h" using assms(7) by simp
  moreover have "fw_image_size h \<le> of_nat FW_MAX_IMAGE"
    using assms(8) by (simp add: word_le_nat_alt FW_MAX_IMAGE_def)
  ultimately show ?thesis
    using assms(1-3,6) r c cp by (auto simp: verify_image_file_def read_image_header_def copy_and_crc_def)
qed

lemma packed_verifies:
  assumes "can_read env path" "fstat_ok env"
    and "fs path = Some (serialize_header (packed_header meta data) @ data)"
    and "length data \<le> FW_MAX_IMAGE"
    and "RdFail \<notin> set rs" "FW_HEADER_SIZE + length data < rd_chunks rs"
  shows "verify_image_file env rs fs path = Some (Some (packed_header meta data, True, True))"
proof -
  let ?h = "packed_header meta data"
  have content: "file_of fs path = serialize_header ?h @ data" using assms(3) by (simp add: file_of_def)
  have size: "unat (fw_image_size ?h) = length data"
    using assms(4) by (simp add: packed_header_def unat_of_nat FW_MAX_IMAGE_def)
  have "parse_header (take FW_HEADER_SIZE (file_of fs path)) = Some ?h"
    using parse_serialize [of ?h "[]"] by (simp add: content)
  from verify_complete [OF assms(1) _ assms(2,5) _ this] show ?thesis
    using assms(3,4,6) size by (simp add: content) (simp add: packed_header_def)
qed

text \<open>The two copies of the verification code agree.\<close>

lemma inspect_as_verify:
  "inspect_or_verify env rs fs path verify =
     (case verify_image_file env rs fs path of
        None \<Rightarrow> None
      | Some None \<Rightarrow> Some 1
      | Some (Some (h, size_ok, crc_ok)) \<Rightarrow> Some (if verify \<and> \<not> (size_ok \<and> crc_ok) then 1 else 0))"
  by (auto simp: inspect_or_verify_def verify_image_file_def Let_def split: option.splits prod.splits)

text \<open>Versions compare as the numbers their three 16-bit parts form.\<close>

definition version_number :: "fw_header \<Rightarrow> nat" where
  "version_number h = unat (fw_major h) * 2 ^ 32 + unat (fw_minor h) * 2 ^ 16 + unat (fw_patch h)"

lemma lex3_number:
  fixes x y z u v w :: nat
  assumes "y < 2 ^ 16" "z < 2 ^ 16" "v < 2 ^ 16" "w < 2 ^ 16"
  shows "(if x \<noteq> u then (if x > u then 1 else -1) else if y \<noteq> v then (if y > v then 1 else -1)
      else if z \<noteq> w then (if z > w then 1 else -1) else (0 :: int)) =
    sgn (int (x * 2 ^ 32 + y * 2 ^ 16 + z) - int (u * 2 ^ 32 + v * 2 ^ 16 + w))"
  using assms by (auto simp: sgn_if)

lemma semver_cmp_number:
  "semver_cmp a b = sgn (int (version_number a) - int (version_number b))"
proof -
  have "unat w < 2 ^ 16" for w :: u16 using unsigned_less [of w] by simp
  from lex3_number [OF this [of "fw_minor a"] this [of "fw_patch a"] this [of "fw_minor b"]
      this [of "fw_patch b"], of "unat (fw_major a)" "unat (fw_major b)"]
  show ?thesis unfolding semver_cmp_def version_number_def word_less_nat_alt word_unat_eq_iff .
qed

section \<open>Packing a file onto itself\<close>

text \<open>
  When input and output are the same path, the descriptor that reads stays 40 bytes behind the
  one that writes: the loop never meets the end of the file.
\<close>

lemma copy_self_fails:
  assumes "copy_loop rs ws ifd (Some f) expected tot crc fs = Some (rc, c, fs', f', rs', ws')"
    and "fst ifd = fst f" "snd f = length (file_of fs (fst f))" "snd ifd < snd f"
    and "set (file_of fs (fst f)) \<subseteq> {0}"
  shows "rc \<noteq> 0 \<and> set (file_of fs' (fst f)) \<subseteq> {0}"
  using assms
proof (induction rs arbitrary: ws ifd f tot crc fs)
  case (Cons r rs)
  show ?case
  proof (cases r)
    case (RdChunk k)
    let ?rest = "fd_rest fs ifd"
    have ne: "?rest \<noteq> []" using Cons.prems(2-4) by (simp add: fd_rest_def)
    then obtain j where j: "0 < j" "j \<le> length ?rest" and bs: "sys_read r 8192 ?rest = RdData (take j ?rest)"
      using chunk_take [OF _ ne, of _ k] RdChunk by (metis sys_read.simps(1))
    have zero: "set (take j ?rest) \<subseteq> {0}"
      using Cons.prems(2,5) by (auto simp: fd_rest_def dest!: in_set_takeD in_set_dropD)
    show ?thesis
    proof (cases "tot + j > expected")
      case True
      with Cons.prems(1,5) bs j ne show ?thesis by (auto simp: min_absorb2 Let_def)
    next
      case False
      then obtain rc1 out1 ws1 where w: "fw_write_loop ws (take j ?rest) = Some (rc1, out1, ws1)"
        using Cons.prems(1) bs j ne by (auto simp: Let_def min_absorb2 split: option.splits prod.splits)
      define fs1 where "fs1 = fs(fst f \<mapsto> file_of fs (fst f) @ out1)"
      have out1: "set out1 \<subseteq> {0}" "rc1 = 0 \<Longrightarrow> out1 = take j ?rest"
        using fw_writer.wrall_prefix [OF w] zero set_mono_prefix by fastforce+
      have fs1: "file_of fs1 (fst f) = file_of fs (fst f) @ out1" "fs1 (fst f) \<noteq> None"
        "set (file_of fs1 (fst f)) \<subseteq> {0}"
        using out1(1) Cons.prems(5) by (auto simp: fs1_def)
      have fw: "fd_write fs f out1 = (fs1, (fst f, snd f + length out1))"
        using fd_write_append [OF Cons.prems(3)] by (simp add: fs1_def)
      show ?thesis
      proof (cases "rc1 = 0")
        case True
        have rec: "copy_loop rs ws1 (fst ifd, snd ifd + j) (Some (fst f, snd f + length out1)) expected (tot + j)
            (mlrt_crc32_update crc (take j ?rest)) fs1 = Some (rc, c, fs', f', rs', ws')"
          using Cons.prems(1) bs j ne w False True fw by (simp add: min_absorb2)
        have "length out1 = j" using out1(2) True j by simp
        with Cons.IH [OF rec] Cons.prems(2-4) fs1 show ?thesis by fastforce
      next
        case False
        with Cons.prems(1) bs j ne w fw \<open>\<not> expected < tot + j\<close> show ?thesis
          using fs1 by (auto simp: min_absorb2)
      qed
    qed
  qed (use Cons in auto)
qed simp

section \<open>Version strings\<close>

definition version_string :: "nat \<Rightarrow> nat \<Rightarrow> nat \<Rightarrow> string" where
  "version_string a b c = dec a @ CHR ''.'' # dec b @ CHR ''.'' # dec c"

lemma scan_dec:
  assumes "n < 2 ^ 32" "rest = [] \<or> \<not> c_isdigit (hd rest)"
  shows "scan_u big (dec n @ rest) = Some (of_nat n, rest)"
proof -
  obtain d ds where "dec n = d # ds" "c_isdigit d" "\<not> c_isspace d" "d \<noteq> CHR ''-''" "d \<noteq> CHR ''+''"
    by (rule dec_first)
  with assms(1) dec_span [OF assms(2), of n] dec_value_dec [of n] show ?thesis
    by (simp add: scan_u_def Let_def)
qed

lemma dot_not_digit [simp]: "\<not> c_isdigit (CHR ''.'')"
  by (simp add: c_isdigit_def)

section \<open>Properties\<close>


definition sample_env :: fw_env where
  "sample_env = \<lparr>can_read = (\<lambda>_. True), can_create = (\<lambda>_. True), fstat_ok = True, lseek_ok = True\<rparr>"

definition sample_meta :: fw_header where
  "sample_meta = \<lparr>fw_major = 2, fw_minor = 1, fw_patch = 7, fw_arch = fw_arch_code FW_ARCH_ARM64,
     fw_image_size = 0, fw_crc32 = 0\<rparr>"

definition sample_fs :: fs where
  "sample_fs = [''app.bin'' \<mapsto> [10, 20, 30]]"


text \<open>
  The header codec: every header survives serialisation and parsing, whatever follows it.
\<close>

theorem fw_header_roundtrip: "parse_header (serialize_header h @ rest) = Some h"
  by (rule parse_serialize)

text \<open>
  C9. Anti-rollback: without \<open>--allow-downgrade\<close> an update is accepted only if the current version
  parses, the image file has a well-formed header, exactly the size the header announces, at
  most the maximal size, a matching checksum, and a version strictly newer than the current one
  (compared by major, then minor, then patch number).
\<close>

theorem update_policy_no_rollback:
  assumes "check_update_policy big env rs fs path current False = Some 0"
    and "length (file_of fs path) < 2 ^ 63"
  shows "\<exists>h cur. version_parse big current
      \<lparr>fw_major = 0, fw_minor = 0, fw_patch = 0, fw_arch = 0, fw_image_size = 0, fw_crc32 = 0\<rparr> = Some cur \<and>
    parse_header (take FW_HEADER_SIZE (file_of fs path)) = Some h \<and>
    length (file_of fs path) = FW_HEADER_SIZE + unat (fw_image_size h) \<and>
    unat (fw_image_size h) \<le> FW_MAX_IMAGE \<and>
    mlrt_crc32 (drop FW_HEADER_SIZE (file_of fs path)) = fw_crc32 h \<and>
    version_number cur < version_number h"
proof -
  from assms(1) obtain cur h where
    "version_parse big current
      \<lparr>fw_major = 0, fw_minor = 0, fw_patch = 0, fw_arch = 0, fw_image_size = 0, fw_crc32 = 0\<rparr> = Some cur"
    and v: "verify_image_file env rs fs path = Some (Some (h, True, True))" and "semver_cmp h cur > 0"
    by (auto simp: check_update_policy_def Let_def split: option.splits if_splits prod.splits)
  with verify_sound [OF v assms(2)] show ?thesis
    by (auto simp: semver_cmp_number sgn_if split: if_splits)
qed

definition sample_image :: "byte list" where
  "sample_image = serialize_header (packed_header sample_meta []) @ []"

lemma sample_image_verifies:
  "verify_image_file sample_env (replicate 41 (RdChunk 0)) [''a'' \<mapsto> sample_image] ''a'' =
     Some (Some (packed_header sample_meta [], True, True))"
  using packed_verifies [of sample_env "''a''" "[''a'' \<mapsto> sample_image]" sample_meta "[]"
      "replicate 41 (RdChunk 0)"]
  by (simp add: sample_env_def sample_image_def rd_chunks_def fw_consts)

lemmas version_eval = version_parse_def sscanf_version_def scan_u_def Let_def c_isspace_def c_isdigit_def
  dec_value_def

lemma sample_policy:
  "check_update_policy (\<lambda>_ _. 0) sample_env (replicate 41 (RdChunk 0)) [''a'' \<mapsto> sample_image] ''a''
     ''2.1.6'' False = Some 0"
  unfolding check_update_policy_def sample_image_verifies
  by (simp add: version_eval semver_cmp_def packed_header_def sample_meta_def)

theorem update_policy_no_rollback_witness:
  "\<exists>h cur. parse_header (take FW_HEADER_SIZE (file_of [''a'' \<mapsto> sample_image] ''a'')) = Some h \<and>
     version_number cur < version_number h"
  using update_policy_no_rollback [OF sample_policy]
  by (fastforce simp: file_of_def sample_image_def FW_HEADER_SIZE_def)

text \<open>
  Tampering is detected: when at most four consecutive bytes of the payload of a packed
  image are altered, verification reports the checksum as wrong, and neither the verify command
  nor the update policy (even with downgrades allowed) accepts the file.
\<close>

theorem tampered_image_rejected:
  assumes "fs path = Some (serialize_header (packed_header meta (pre @ xs @ post)) @ pre @ ys @ post)"
    and "length ys = length xs" "length xs \<le> 4" "ys \<noteq> xs"
    and "length (pre @ xs @ post) \<le> FW_MAX_IMAGE"
  shows "inspect_or_verify env rs fs path True \<noteq> Some 0 \<and>
    check_update_policy big env rs fs path current allow \<noteq> Some 0"
proof -
  let ?h = "packed_header meta (pre @ xs @ post)"
  have content: "file_of fs path = serialize_header ?h @ pre @ ys @ post" using assms(1) by (simp add: file_of_def)
  have small: "length (file_of fs path) < 2 ^ 63"
    using assms(2,5) by (simp add: content fw_consts)
  have bad: "verify_image_file env rs fs path \<noteq> Some (Some (h, True, True))" for h
  proof
    assume v: "verify_image_file env rs fs path = Some (Some (h, True, True))"
    have "h = ?h" using verify_sound [OF v small] parse_serialize [of ?h "[]"] by (simp add: content)
    then have "mlrt_crc32 (pre @ ys @ post) = mlrt_crc32 (pre @ xs @ post)"
      using verify_sound [OF v small] by (simp add: content) (simp add: packed_header_def)
    then show False using crc32_burst_detected [of ys xs pre post] assms(2-4) by simp
  qed
  show ?thesis
    using bad
    by (auto simp: inspect_as_verify check_update_policy_def Let_def split: option.splits prod.splits if_splits)
qed

theorem tampered_image_rejected_witness:
  "check_update_policy (\<lambda>_ _. 0) sample_env (replicate 99 (RdChunk 0))
     [''a'' \<mapsto> serialize_header (packed_header sample_meta [1, 2, 3]) @ [1, 7, 3]] ''a'' ''1.0.0'' True \<noteq> Some 0"
  using tampered_image_rejected [of "[''a'' \<mapsto> serialize_header (packed_header sample_meta [1, 2, 3]) @ [1, 7, 3]]"
      "''a''" sample_meta "[1]" "[2]" "[3]" "[7]"]
  by (simp add: FW_MAX_IMAGE_def)

text \<open>
  Packing a file onto itself never succeeds and destroys it: the file is truncated before it
  is read, so when input and output are the same existing file that may be opened and created,
  the command ends with an error and every byte left in the file is zero.
\<close>

theorem pack_in_place_destroys:
  assumes "pack_image env rs ws fs path path meta = Some (rc, fs')"
    and "can_read env path" "fs path \<noteq> None" "fstat_ok env" "can_create env path"
    and "length (file_of fs path) \<le> FW_MAX_IMAGE"
  shows "rc = 1 \<and> set (file_of fs' path) \<subseteq> {0}"
proof -
  let ?z = "replicate FW_HEADER_SIZE (0::byte)"
  obtain complete fs2 f2 ws2 where w: "write_once ws ?z (path, 0) (fs(path \<mapsto> [])) = Some (complete, fs2, f2, ws2)"
    using assms by (auto simp: pack_image_def Let_def split: option.splits)
  show ?thesis
  proof (cases complete)
    case False
    have "set (file_of fs2 path) \<subseteq> {0}"
      using w by (auto simp: write_once_def fd_write_def write_at_def Let_def split: list.splits wr_result.splits
          dest!: in_set_takeD)
    with False w assms show ?thesis by (auto simp: pack_image_def Let_def)
  next
    case True
    have fs2: "fs2 = fs(path \<mapsto> ?z)" "f2 = (path, FW_HEADER_SIZE)"
      using write_once_complete [of ws ?z "(path, 0)" "fs(path \<mapsto> [])" fs2 f2 ws2] w True by (simp_all add: write_at_def)
    obtain rc3 c fs3 f3 rs3 ws3 where cp: "copy_loop rs ws2 (path, 0) (Some f2) (length (file_of fs path)) 0
        mlrt_crc32_begin fs2 = Some (rc3, c, fs3, f3, rs3, ws3)"
      using assms w True by (auto simp: pack_image_def copy_and_crc_def Let_def split: option.splits)
    have "rc3 \<noteq> 0 \<and> set (file_of fs3 path) \<subseteq> {0}"
      using copy_self_fails [OF cp] by (simp add: fs2 FW_HEADER_SIZE_def)
    with cp w True assms show ?thesis by (auto simp: pack_image_def copy_and_crc_def Let_def)
  qed
qed

lemma sample_pack_in_place:
  "\<exists>fs'. pack_image sample_env [RdChunk 39] [WrChunk 8192] sample_fs ''app.bin'' ''app.bin'' sample_meta
     = Some (1, fs')"
  by (simp add: pack_image_def sample_env_def sample_fs_def file_of_def fw_consts write_once_def fd_write_def
      copy_and_crc_def fd_rest_def Let_def write_at_def)

theorem pack_in_place_destroys_witness:
  "\<exists>fs'. pack_image sample_env [RdChunk 39] [WrChunk 8192] sample_fs ''app.bin'' ''app.bin'' sample_meta
     = Some (1, fs') \<and> set (file_of fs' ''app.bin'') \<subseteq> {0}"
  using sample_pack_in_place pack_in_place_destroys [of sample_env "[RdChunk 39]" "[WrChunk 8192]" sample_fs
      "''app.bin''" sample_meta 1]
  by (fastforce simp: sample_env_def sample_fs_def file_of_def FW_MAX_IMAGE_def)

text \<open>
  Version arguments: the decimal text of three numbers is accepted exactly when each fits in
  16 bits, and then sets exactly those three fields.
\<close>

theorem version_parse_decimal:
  assumes "a < 2 ^ 32" "b < 2 ^ 32" "c < 2 ^ 32"
  shows "version_parse big (version_string a b c) h =
    (if a \<le> 65535 \<and> b \<le> 65535 \<and> c \<le> 65535
     then Some (h\<lparr>fw_major := of_nat a, fw_minor := of_nat b, fw_patch := of_nat c\<rparr>) else None)"
proof -
  have "scan_u big (dec c) = Some (of_nat c, [])" using scan_dec [OF assms(3), of "[]"] by simp
  then have s: "sscanf_version big (version_string a b c) = Some (of_nat a, of_nat b, of_nat c)"
    using assms(1,2) by (simp add: sscanf_version_def version_string_def scan_dec)
  have lim: "((of_nat n :: u32) > 65535) = (n > 65535)" if "n < 2 ^ 32" for n
    using that by (simp add: word_less_nat_alt unat_of_nat)
  have cast: "(ucast (of_nat n :: u32) :: u16) = of_nat n" for n
    by (rule word_unat_eq_iff [THEN iffD2]) (simp add: unat_of_nat unsigned_ucast_eq take_bit_eq_mod mod_mod_cancel)
  show ?thesis
    using assms by (auto simp: version_parse_def s lim cast not_less)
qed

theorem version_parse_decimal_witness:
  "version_parse (\<lambda>_ _. 0) (version_string 1 65535 9) sample_meta =
      Some (sample_meta\<lparr>fw_major := 1, fw_minor := 65535, fw_patch := 9\<rparr>) \<and>
   version_parse (\<lambda>_ _. 0) (version_string 1 65536 9) sample_meta = None"
  using version_parse_decimal [of 1 65535 9 "\<lambda>_ _. 0" sample_meta]
    version_parse_decimal [of 1 65536 9 "\<lambda>_ _. 0" sample_meta] by simp

end
