(* ===== verification/Target_Core.thy ===== *)
theory Target_Core
  imports Embedded_Protocol Ring_Buffer Firmware_Image
begin

text \<open>
  The simulated target of \<^verbatim>\<open>target/target_core.c\<close>: a context of atomic variables and a sample
  queue, shared by a sensor thread, a processing thread, a watchdog thread and the thread that
  handles packets. The first half holds the functions as they are called; the second half the
  threads as a transition system, one step per access to a shared variable, with a monotonic
  clock that may advance at any point.
\<close>

section \<open>State\<close>

datatype mlrt_target_state =
  MLRT_TARGET_BOOT | MLRT_TARGET_INIT | MLRT_TARGET_READY | MLRT_TARGET_RUNNING
| MLRT_TARGET_FAULT | MLRT_TARGET_RECOVERY

fun target_state_code :: "mlrt_target_state \<Rightarrow> nat" where
  "target_state_code MLRT_TARGET_BOOT = 0"
| "target_state_code MLRT_TARGET_INIT = 1"
| "target_state_code MLRT_TARGET_READY = 2"
| "target_state_code MLRT_TARGET_RUNNING = 3"
| "target_state_code MLRT_TARGET_FAULT = 4"
| "target_state_code MLRT_TARGET_RECOVERY = 5"

definition mlrt_target_state_name :: "int \<Rightarrow> string" where
  "mlrt_target_state_name state =
     (if state = 0 then ''BOOT'' else if state = 1 then ''INIT'' else if state = 2 then ''READY''
      else if state = 3 then ''RUNNING'' else if state = 4 then ''FAULT''
      else if state = 5 then ''RECOVERY'' else ''UNKNOWN'')"

text \<open>A sample as it lies in memory: two 64-bit fields, a 32-bit one and four bytes of padding.\<close>

record mlrt_target_sample =
  sm_seq :: u64
  sm_timestamp_ns :: u64
  sm_milli_value :: int

definition sample_size :: nat where "sample_size = 24"

definition sample_bytes :: "mlrt_target_sample \<Rightarrow> byte list" where
  "sample_bytes s = put_u64_le (sm_seq s) @ put_u64_le (sm_timestamp_ns s) @
     put_u32_le (of_int (sm_milli_value s)) @ replicate 4 0"

record mlrt_target_ctx =
  tg_queue :: mlrt_ring_buffer
  tg_running :: bool
  tg_state :: mlrt_target_state
  tg_sample_rate_hz :: u32
  tg_started_ns :: u64
  tg_produced :: u64
  tg_processed :: u64
  tg_last_processed_ns :: u64
  tg_worker_heartbeat_ns :: u64
  tg_watchdog_recoveries :: u64
  tg_crc_errors :: u64
  tg_freeze_until_ns :: u64
  tg_threads_started :: nat

definition target_now_ns :: "timespec \<Rightarrow> u64" where
  "target_now_ns ts = of_int (tv_sec ts) * 1000000000 + of_int (tv_nsec ts)"

definition clamp_u64_u32 :: "u64 \<Rightarrow> u32" where
  "clamp_u64_u32 v = (if v > 0xffffffff then 0xffffffff else ucast v)"

definition synth_value :: "u64 \<Rightarrow> int" where
  "synth_value seq = 25000 + int (unat (seq mod 200)) * 5 - 500"

section \<open>Life cycle\<close>

text \<open>\<open>nows k\<close> is what the \<open>k\<close>-th reading of the clock within a call returns.\<close>

definition mlrt_target_init ::
  "pthread_results \<Rightarrow> (nat \<Rightarrow> u64) \<Rightarrow> mlrt_target_ctx option \<Rightarrow> u32 \<Rightarrow> int \<times> mlrt_target_ctx option" where
  "mlrt_target_init os nows ctx rate_hz =
     (if ctx = None \<or> rate_hz = 0 \<or> rate_hz > 1000 then (-1, ctx)
      else
        let zero = \<lparr>tg_queue = ring_reset [] 0 0, tg_running = False, tg_state = MLRT_TARGET_BOOT,
                    tg_sample_rate_hz = 0, tg_started_ns = 0, tg_produced = 0, tg_processed = 0,
                    tg_last_processed_ns = 0, tg_worker_heartbeat_ns = 0, tg_watchdog_recoveries = 0,
                    tg_crc_errors = 0, tg_freeze_until_ns = 0, tg_threads_started = 0\<rparr>;
            (rc, q, _) = mlrt_ring_init os (Some (tg_queue zero)) (Some (replicate (128 * sample_size) 0))
                           128 sample_size
        in if rc \<noteq> 0 then (-1, Some (zero\<lparr>tg_queue := the q\<rparr>))
           else (0, Some (zero\<lparr>tg_queue := the q, tg_sample_rate_hz := rate_hz, tg_started_ns := nows 0,
                               tg_last_processed_ns := nows 1, tg_worker_heartbeat_ns := nows 2\<rparr>)))"

text \<open>
  \<open>mlrt_target_start\<close>: the three booleans say which \<open>pthread_create\<close> calls succeed. What the
  started threads do meanwhile is in the transition system below.
\<close>

definition mlrt_target_start ::
  "bool \<Rightarrow> bool \<Rightarrow> bool \<Rightarrow> mlrt_target_ctx option \<Rightarrow> int \<times> mlrt_target_ctx option" where
  "mlrt_target_start c1 c2 c3 ctx =
     (case ctx of
        None \<Rightarrow> (-1, None)
      | Some t \<Rightarrow>
          let t1 = t\<lparr>tg_state := MLRT_TARGET_INIT\<rparr>;
              t2 = t1\<lparr>tg_running := True\<rparr>;
              t3 = t2\<lparr>tg_state := MLRT_TARGET_READY\<rparr>;
              fail = (\<lambda>t. (-1, Some (t\<lparr>tg_running := False, tg_threads_started := 0\<rparr>)))
          in if \<not> c1 then fail t3
             else if \<not> c2 then fail (t3\<lparr>tg_threads_started := 1\<rparr>)
             else if \<not> c3 then fail (t3\<lparr>tg_threads_started := 2\<rparr>)
             else (0, Some (t3\<lparr>tg_threads_started := 3, tg_state := MLRT_TARGET_RUNNING\<rparr>)))"

definition mlrt_target_stop :: "mlrt_target_ctx option \<Rightarrow> mlrt_target_ctx option" where
  "mlrt_target_stop ctx =
     map_option (\<lambda>t. t\<lparr>tg_running := False, tg_threads_started := 0,
                       tg_queue := the (mlrt_ring_destroy (Some (tg_queue t)))\<rparr>) ctx"

section \<open>Packet handling\<close>

definition text_bytes :: "string \<Rightarrow> byte list" where
  "text_bytes s = map of_char s"

definition make_error :: "mlrt_packet option \<Rightarrow> string \<Rightarrow> mlrt_packet" where
  "make_error req txt =
     (let n = length txt;
          n' = (if n > MLRT_PROTO_MAX_PAYLOAD then MLRT_PROTO_MAX_PAYLOAD else n)
      in zero_packet\<lparr>pkt_version := MLRT_PROTO_VERSION, pkt_type := msg_code MLRT_MSG_ERROR,
           pkt_seq := (case req of None \<Rightarrow> 0 | Some r \<Rightarrow> pkt_seq r), pkt_length := of_nat n',
           pkt_payload := write_at 0 (take n' (text_bytes txt)) (pkt_payload zero_packet)\<rparr>)"

definition make_status :: "u64 \<Rightarrow> mlrt_target_ctx \<Rightarrow> mlrt_packet \<Rightarrow> mlrt_packet" where
  "make_status now t req =
     (let uptime_ms = (now - tg_started_ns t) div 1000000;
          qs = the (mlrt_ring_get_stats (Some (tg_queue t))
                 (Some \<lparr>st_count = 0, st_capacity = 0, st_high_water = 0, st_dropped = 0\<rparr>));
          p0 = (pkt_payload zero_packet)[0 := of_nat (target_state_code (tg_state t))];
          p1 = write_at 1 (put_u16_be (ucast (tg_sample_rate_hz t))) p0;
          p2 = write_at 3 (put_u32_be (clamp_u64_u32 uptime_ms)) p1;
          p3 = write_at 7 (put_u32_be (clamp_u64_u32 (tg_produced t))) p2;
          p4 = write_at 11 (put_u32_be (clamp_u64_u32 (tg_processed t))) p3;
          p5 = write_at 15 (put_u32_be (clamp_u64_u32 (st_dropped qs))) p4;
          p6 = write_at 19 (put_u32_be (clamp_u64_u32 (tg_crc_errors t))) p5;
          p7 = write_at 23 (put_u32_be (clamp_u64_u32 (tg_watchdog_recoveries t))) p6
      in zero_packet\<lparr>pkt_version := MLRT_PROTO_VERSION, pkt_type := msg_code MLRT_MSG_STATUS_RSP,
           pkt_seq := pkt_seq req, pkt_length := 27, pkt_payload := p7\<rparr>)"

text \<open>
  \<open>reset_runtime\<close> as the sequence of its ten atomic stores; the clock is read for three of them.
\<close>

definition reset_store :: "nat \<Rightarrow> u64 \<Rightarrow> mlrt_target_ctx \<Rightarrow> mlrt_target_ctx" where
  "reset_store k now t =
     (if k = 0 then t\<lparr>tg_state := MLRT_TARGET_INIT\<rparr>
      else if k = 1 then t\<lparr>tg_produced := 0\<rparr>
      else if k = 2 then t\<lparr>tg_processed := 0\<rparr>
      else if k = 3 then t\<lparr>tg_watchdog_recoveries := 0\<rparr>
      else if k = 4 then t\<lparr>tg_crc_errors := 0\<rparr>
      else if k = 5 then t\<lparr>tg_freeze_until_ns := 0\<rparr>
      else if k = 6 then t\<lparr>tg_started_ns := now\<rparr>
      else if k = 7 then t\<lparr>tg_last_processed_ns := now\<rparr>
      else if k = 8 then t\<lparr>tg_worker_heartbeat_ns := now\<rparr>
      else t\<lparr>tg_state := MLRT_TARGET_RUNNING\<rparr>)"

definition reset_runtime :: "(nat \<Rightarrow> u64) \<Rightarrow> mlrt_target_ctx \<Rightarrow> mlrt_target_ctx" where
  "reset_runtime nows t = fold (\<lambda>k. reset_store k (nows k)) [0..<10] t"

definition ack :: "mlrt_message_type \<Rightarrow> mlrt_packet \<Rightarrow> mlrt_packet" where
  "ack ty req = zero_packet\<lparr>pkt_version := MLRT_PROTO_VERSION, pkt_type := msg_code ty,
     pkt_seq := pkt_seq req\<rparr>"

text \<open>
  \<open>arch\<close> is the architecture name the file was compiled with. \<open>snprintf\<close> stores at most all but
  one byte of the payload and returns the length of the whole text.
\<close>

definition fw_info_response :: "string \<Rightarrow> mlrt_packet \<Rightarrow> mlrt_packet" where
  "fw_info_response arch req =
     (let info = text_bytes (''target-sim/1.0 arch='' @ arch);
          n = length info;
          n' = (if n > MLRT_PROTO_MAX_PAYLOAD then MLRT_PROTO_MAX_PAYLOAD else n)
      in (ack MLRT_MSG_FW_INFO_RSP req)\<lparr>pkt_length := of_nat n',
           pkt_payload := write_at 0 (take (MLRT_PROTO_MAX_PAYLOAD - 1) info) (pkt_payload zero_packet)\<rparr>)"

definition mlrt_target_handle_packet ::
  "string \<Rightarrow> (nat \<Rightarrow> u64) \<Rightarrow> mlrt_target_ctx option \<Rightarrow> mlrt_packet option \<Rightarrow> bool \<Rightarrow>
     int \<times> mlrt_packet option \<times> mlrt_target_ctx option" where
  "mlrt_target_handle_packet arch nows ctx request has_rsp =
     (case (ctx, request) of
        (Some t, Some req) \<Rightarrow>
          if \<not> has_rsp then (-1, None, ctx)
          else if pkt_type req = msg_code MLRT_MSG_STATUS_REQ then (0, Some (make_status (nows 0) t req), ctx)
          else if pkt_type req = msg_code MLRT_MSG_CONFIG_SET then
            (if pkt_length req \<noteq> 2
             then (0, Some (make_error (Some req) ''CONFIG_SET requires 2-byte rate''), ctx)
             else
               let rate = ucast (get_u16_be (pkt_payload req)) :: u32
               in if rate = 0 \<or> rate > 1000
                  then (0, Some (make_error (Some req) ''rate must be 1..1000 Hz''), ctx)
                  else (0, Some ((ack MLRT_MSG_CONFIG_ACK req)\<lparr>pkt_length := 2,
                               pkt_payload := write_at 0 (put_u16_be (ucast rate)) (pkt_payload zero_packet)\<rparr>),
                        Some (t\<lparr>tg_sample_rate_hz := rate\<rparr>)))
          else if pkt_type req = msg_code MLRT_MSG_FAULT_INJECT then
            (if pkt_length req \<noteq> 1 \<or> pkt_payload req ! 0 \<noteq> 1
             then (0, Some (make_error (Some req) ''supported fault: freeze-worker''), ctx)
             else (0, Some ((ack MLRT_MSG_CONFIG_ACK req)\<lparr>pkt_length := 1,
                          pkt_payload := (pkt_payload zero_packet)[0 := 1]\<rparr>),
                   Some (t\<lparr>tg_freeze_until_ns := nows 0 + 900000000\<rparr>)))
          else if pkt_type req = msg_code MLRT_MSG_RESET then
            (0, Some (ack MLRT_MSG_RESET_ACK req), Some (reset_runtime nows t))
          else if pkt_type req = msg_code MLRT_MSG_FW_INFO_REQ then
            (0, Some (fw_info_response arch req), ctx)
          else (0, Some (make_error (Some req) ''unsupported message type''), ctx)
      | _ \<Rightarrow> (-1, None, ctx))"

section \<open>The threads as a transition system\<close>

text \<open>
  Program counters: where a thread is about to continue, with its local variables. The
  sensor's \<open>seq\<close> and \<open>next\<close> live in the system state.
\<close>

datatype sensor_pc = SOff | SHead | SSleep u64 | SPush u64 u64 | SCount u64 | SAdvance u64 | SCatch | SExit

datatype proc_pc = POff | PHead | PFreeze u64 | PClear u64 | PPop | PCount | PLast | PBeat | PStore u64 | PExit

datatype wd_pc = WOff | WHead | WSample | WNow u64 | WHb u64 | WAge u64 | WFault1 | WFault2 | WRecov | WExit

datatype ctl_pc = CIdle | CStart nat | CReset nat

record target_sys =
  sy_ctx :: mlrt_target_ctx
  sy_clock :: u64
  sy_sensor :: sensor_pc
  sy_seq :: u64
  sy_next :: u64
  sy_proc :: proc_pc
  sy_wd :: wd_pc
  sy_ctl :: ctl_pc

text \<open>
  Events. \<open>Proc b\<close>: where the processing thread waits on the queue, \<open>b\<close> says whether the wait
  ends with an item (only possible when there is one) or without. \<open>Watchdog b\<close>: C leaves open
  which operand of the subtraction is read first; \<open>b\<close> chooses the clock.
\<close>

datatype target_event =
  Tick u64 | Sensor | Proc bool | Watchdog bool | Start | Packet mlrt_packet | CrcError | Control

definition sensor_step :: "target_sys \<Rightarrow> target_sys option" where
  "sensor_step s =
     (let t = sy_ctx s in
      case sy_sensor s of
        SHead \<Rightarrow>
          if \<not> tg_running t then Some (s\<lparr>sy_sensor := SExit\<rparr>)
          else
            let rate = tg_sample_rate_hz t;
                rate = (if rate = 0 then 1 else rate);
                period = 1000000000 div ucast rate
            in Some (s\<lparr>sy_next := sy_next s + period, sy_sensor := SSleep period\<rparr>)
      | SSleep period \<Rightarrow>
          if sy_clock s < sy_next s then None
          else if \<not> tg_running t then Some (s\<lparr>sy_sensor := SExit\<rparr>)
          else Some (s\<lparr>sy_sensor := SPush period (sy_clock s)\<rparr>)
      | SPush period now \<Rightarrow>
          let smp = \<lparr>sm_seq = sy_seq s, sm_timestamp_ns = now, sm_milli_value = synth_value (sy_seq s)\<rparr>;
              (rc, q) = mlrt_ring_push (Some (tg_queue t)) (Some (sample_bytes smp)) 0
          in Some (s\<lparr>sy_ctx := t\<lparr>tg_queue := the q\<rparr>,
                     sy_sensor := (if rc = 0 then SCount period else SAdvance period)\<rparr>)
      | SCount period \<Rightarrow> Some (s\<lparr>sy_ctx := t\<lparr>tg_produced := tg_produced t + 1\<rparr>, sy_sensor := SAdvance period\<rparr>)
      | SAdvance period \<Rightarrow>
          Some (s\<lparr>sy_seq := sy_seq s + 1,
                  sy_sensor := (if sy_clock s > sy_next s + period * 4 then SCatch else SHead)\<rparr>)
      | SCatch \<Rightarrow> Some (s\<lparr>sy_next := sy_clock s, sy_sensor := SHead\<rparr>)
      | _ \<Rightarrow> None)"

definition proc_step :: "bool \<Rightarrow> target_sys \<Rightarrow> target_sys option" where
  "proc_step got s =
     (let t = sy_ctx s in
      case sy_proc s of
        PHead \<Rightarrow>
          if \<not> tg_running t then Some (s\<lparr>sy_proc := PExit\<rparr>)
          else Some (s\<lparr>sy_proc := PFreeze (tg_freeze_until_ns t)\<rparr>)
      | PFreeze f \<Rightarrow>
          if f \<noteq> 0 \<and> sy_clock s < f then Some (s\<lparr>sy_proc := PHead\<rparr>)
          else Some (s\<lparr>sy_proc := PClear f\<rparr>)
      | PClear f \<Rightarrow>
          Some (s\<lparr>sy_ctx := (if f \<noteq> 0 \<and> sy_clock s \<ge> f then t\<lparr>tg_freeze_until_ns := 0\<rparr> else t),
                  sy_proc := PPop\<rparr>)
      | PPop \<Rightarrow>
          if got then
            (if rb_count (tg_queue t) = 0 then None
             else Some (s\<lparr>sy_ctx := t\<lparr>tg_queue := snd (ring_take (tg_queue t))\<rparr>, sy_proc := PCount\<rparr>))
          else Some (s\<lparr>sy_proc := PBeat\<rparr>)
      | PCount \<Rightarrow> Some (s\<lparr>sy_ctx := t\<lparr>tg_processed := tg_processed t + 1\<rparr>, sy_proc := PLast\<rparr>)
      | PLast \<Rightarrow> Some (s\<lparr>sy_ctx := t\<lparr>tg_last_processed_ns := sy_clock s\<rparr>, sy_proc := PBeat\<rparr>)
      | PBeat \<Rightarrow> Some (s\<lparr>sy_proc := PStore (sy_clock s)\<rparr>)
      | PStore now \<Rightarrow> Some (s\<lparr>sy_ctx := t\<lparr>tg_worker_heartbeat_ns := now\<rparr>, sy_proc := PHead\<rparr>)
      | _ \<Rightarrow> None)"

definition watchdog_step :: "bool \<Rightarrow> target_sys \<Rightarrow> target_sys option" where
  "watchdog_step clock_first s =
     (let t = sy_ctx s in
      case sy_wd s of
        WHead \<Rightarrow> Some (s\<lparr>sy_wd := (if tg_running t then WSample else WExit)\<rparr>)
      | WSample \<Rightarrow>
          Some (s\<lparr>sy_wd := (if clock_first then WNow (sy_clock s) else WHb (tg_worker_heartbeat_ns t))\<rparr>)
      | WNow now \<Rightarrow> Some (s\<lparr>sy_wd := WAge (now - tg_worker_heartbeat_ns t)\<rparr>)
      | WHb hb \<Rightarrow> Some (s\<lparr>sy_wd := WAge (sy_clock s - hb)\<rparr>)
      | WAge age \<Rightarrow>
          if age > 500000000 \<and> tg_state t = MLRT_TARGET_RUNNING
          then Some (s\<lparr>sy_ctx := t\<lparr>tg_state := MLRT_TARGET_FAULT\<rparr>, sy_wd := WFault1\<rparr>)
          else if age < 200000000 \<and> tg_state t = MLRT_TARGET_RECOVERY
          then Some (s\<lparr>sy_ctx := t\<lparr>tg_state := MLRT_TARGET_RUNNING\<rparr>, sy_wd := WRecov\<rparr>)
          else Some (s\<lparr>sy_wd := WHead\<rparr>)
      | WFault1 \<Rightarrow> Some (s\<lparr>sy_ctx := t\<lparr>tg_freeze_until_ns := 0\<rparr>, sy_wd := WFault2\<rparr>)
      | WFault2 \<Rightarrow> Some (s\<lparr>sy_ctx := t\<lparr>tg_state := MLRT_TARGET_RECOVERY\<rparr>, sy_wd := WHead\<rparr>)
      | WRecov \<Rightarrow>
          Some (s\<lparr>sy_ctx := t\<lparr>tg_watchdog_recoveries := tg_watchdog_recoveries t + 1\<rparr>, sy_wd := WHead\<rparr>)
      | _ \<Rightarrow> None)"

text \<open>
  The thread that starts the target and handles its packets, store by store: \<open>CStart k\<close> is the
  next action of a start that succeeds, \<open>CReset k\<close> the next store of a reset. The other packets
  touch at most one shared variable and are handled in one step.
\<close>

definition start_step :: "nat \<Rightarrow> target_sys \<Rightarrow> target_sys" where
  "start_step k s =
     (let t = sy_ctx s in
      if k = 0 then s\<lparr>sy_ctx := t\<lparr>tg_state := MLRT_TARGET_INIT\<rparr>, sy_ctl := CStart 1\<rparr>
      else if k = 1 then s\<lparr>sy_ctx := t\<lparr>tg_running := True\<rparr>, sy_ctl := CStart 2\<rparr>
      else if k = 2 then s\<lparr>sy_ctx := t\<lparr>tg_state := MLRT_TARGET_READY\<rparr>, sy_ctl := CStart 3\<rparr>
      else if k = 3 then s\<lparr>sy_ctx := t\<lparr>tg_threads_started := 1\<rparr>, sy_sensor := SHead, sy_seq := 0,
                           sy_next := sy_clock s, sy_ctl := CStart 4\<rparr>
      else if k = 4 then s\<lparr>sy_ctx := t\<lparr>tg_threads_started := 2\<rparr>, sy_proc := PHead, sy_ctl := CStart 5\<rparr>
      else if k = 5 then s\<lparr>sy_ctx := t\<lparr>tg_threads_started := 3\<rparr>, sy_wd := WHead, sy_ctl := CStart 6\<rparr>
      else s\<lparr>sy_ctx := t\<lparr>tg_state := MLRT_TARGET_RUNNING\<rparr>, sy_ctl := CIdle\<rparr>)"

definition control_step :: "target_event \<Rightarrow> target_sys \<Rightarrow> target_sys option" where
  "control_step e s =
     (let t = sy_ctx s in
      case (e, sy_ctl s) of
        (Start, CIdle) \<Rightarrow> if tg_threads_started t = 0 then Some (s\<lparr>sy_ctl := CStart 0\<rparr>) else None
      | (Packet req, CIdle) \<Rightarrow>
          if pkt_type req = msg_code MLRT_MSG_RESET then Some (s\<lparr>sy_ctl := CReset 0\<rparr>)
          else Some (s\<lparr>sy_ctx := the (snd (snd
            (mlrt_target_handle_packet ''x86_64'' (\<lambda>_. sy_clock s) (Some t) (Some req) True)))\<rparr>)
      | (CrcError, CIdle) \<Rightarrow> Some (s\<lparr>sy_ctx := t\<lparr>tg_crc_errors := tg_crc_errors t + 1\<rparr>\<rparr>)
      | (Control, CStart k) \<Rightarrow> Some (start_step k s)
      | (Control, CReset k) \<Rightarrow>
          Some (s\<lparr>sy_ctx := reset_store k (sy_clock s) t, sy_ctl := (if k \<ge> 9 then CIdle else CReset (k + 1))\<rparr>)
      | _ \<Rightarrow> None)"

fun target_step :: "target_event \<Rightarrow> target_sys \<Rightarrow> target_sys option" where
  "target_step (Tick d) s = Some (s\<lparr>sy_clock := sy_clock s + d\<rparr>)"
| "target_step Sensor s = sensor_step s"
| "target_step (Proc got) s = proc_step got s"
| "target_step (Watchdog clock_first) s = watchdog_step clock_first s"
| "target_step e s = control_step e s"

definition target_boot :: "u64 \<Rightarrow> mlrt_target_ctx \<Rightarrow> target_sys" where
  "target_boot clk ctx = \<lparr>sy_ctx = ctx, sy_clock = clk, sy_sensor = SOff, sy_seq = 0, sy_next = 0,
     sy_proc = POff, sy_wd = WOff, sy_ctl = CIdle\<rparr>"

inductive target_reach :: "target_sys \<Rightarrow> target_event list \<Rightarrow> target_sys \<Rightarrow> bool" for s0 where
  reach_start: "target_reach s0 [] s0"
| reach_step: "target_reach s0 es s \<Longrightarrow> target_step e s = Some s' \<Longrightarrow> target_reach s0 (es @ [e]) s'"

inductive_cases reach_NilE [elim!]: "target_reach s0 [] s"
inductive_cases reach_snocE: "target_reach s0 (es @ [e]) s"

fun target_run :: "target_event list \<Rightarrow> target_sys \<Rightarrow> target_sys option" where
  "target_run [] s = Some s"
| "target_run (e # es) s = (case target_step e s of None \<Rightarrow> None | Some s' \<Rightarrow> target_run es s')"

lemma target_run_append:
  "target_run (xs @ ys) s = (case target_run xs s of None \<Rightarrow> None | Some s' \<Rightarrow> target_run ys s')"
  by (induction xs arbitrary: s) (auto split: option.splits)

lemma run_reach: "target_run es s0 = Some s \<Longrightarrow> target_reach s0 es s"
proof (induction es arbitrary: s rule: rev_induct)
  case Nil
  then show ?case by (simp add: target_reach.reach_start)
next
  case (snoc e es)
  then show ?case
    by (auto simp: target_run_append split: option.splits intro: target_reach.reach_step)
qed

section \<open>Invariant\<close>

lemma length_sample_bytes [simp]: "length (sample_bytes smp) = sample_size"
  by (simp add: sample_bytes_def sample_size_def)

definition queue_ok :: "mlrt_target_ctx \<Rightarrow> bool" where
  "queue_ok t \<longleftrightarrow> ring_inv (tg_queue t) \<and> rb_item_size (tg_queue t) = sample_size"

definition rate_ok :: "mlrt_target_ctx \<Rightarrow> bool" where
  "rate_ok t \<longleftrightarrow> 1 \<le> tg_sample_rate_hz t \<and> tg_sample_rate_hz t \<le> 1000"

definition mode_ok :: "target_sys \<Rightarrow> bool" where
  "mode_ok s \<longleftrightarrow>
     (tg_state (sy_ctx s) = MLRT_TARGET_FAULT \<longrightarrow> sy_wd s = WFault1 \<or> sy_wd s = WFault2) \<and>
     (tg_state (sy_ctx s) = MLRT_TARGET_INIT \<longrightarrow> sy_ctl s \<noteq> CIdle) \<and>
     (tg_state (sy_ctx s) = MLRT_TARGET_READY \<longrightarrow> (\<exists>k. sy_ctl s = CStart k))"

definition threads_ok :: "target_sys \<Rightarrow> bool" where
  "threads_ok s \<longleftrightarrow>
     (sy_wd s \<noteq> WOff \<longrightarrow> tg_threads_started (sy_ctx s) = 3) \<and>
     (\<forall>k. sy_ctl s = CStart k \<longrightarrow> tg_threads_started (sy_ctx s) = k - 3 \<and> k \<le> 6) \<and>
     (tg_threads_started (sy_ctx s) = 0 \<longrightarrow> sy_sensor s = SOff \<and> sy_seq s = 0) \<and>
     (tg_threads_started (sy_ctx s) \<le> 1 \<longrightarrow> sy_proc s = POff) \<and>
     (\<forall>k. sy_ctl s = CReset k \<longrightarrow> k \<le> 9)"

definition target_inv :: "target_sys \<Rightarrow> bool" where
  "target_inv s \<longleftrightarrow> queue_ok (sy_ctx s) \<and> rate_ok (sy_ctx s) \<and> mode_ok s \<and> threads_ok s"

lemmas target_inv_defs = target_inv_def queue_ok_def rate_ok_def mode_ok_def threads_ok_def

text \<open>What each thread can change.\<close>

lemma sensor_frame:
  assumes "sensor_step s = Some s'"
  shows "sy_wd s' = sy_wd s \<and> sy_ctl s' = sy_ctl s \<and> sy_proc s' = sy_proc s \<and> sy_sensor s \<noteq> SOff \<and>
    sy_sensor s' \<noteq> SOff \<and>
    tg_state (sy_ctx s') = tg_state (sy_ctx s) \<and> tg_threads_started (sy_ctx s') = tg_threads_started (sy_ctx s) \<and>
    tg_sample_rate_hz (sy_ctx s') = tg_sample_rate_hz (sy_ctx s) \<and>
    tg_processed (sy_ctx s') = tg_processed (sy_ctx s) \<and>
    (tg_queue (sy_ctx s') = tg_queue (sy_ctx s) \<or> (\<exists>x. length x = sample_size \<and>
       tg_queue (sy_ctx s') = snd (ring_push_cs (tg_queue (sy_ctx s)) x False)))"
  using assms
  by (cases "sy_sensor s")
     (auto simp: sensor_step_def Let_def ring_push_api split: if_splits intro: exI [of _ "sample_bytes _"])

lemma proc_frame:
  assumes "proc_step got s = Some s'"
  shows "sy_wd s' = sy_wd s \<and> sy_ctl s' = sy_ctl s \<and> sy_sensor s' = sy_sensor s \<and> sy_seq s' = sy_seq s \<and>
    sy_proc s \<noteq> POff \<and> tg_state (sy_ctx s') = tg_state (sy_ctx s) \<and> tg_threads_started (sy_ctx s') = tg_threads_started (sy_ctx s) \<and>
    tg_sample_rate_hz (sy_ctx s') = tg_sample_rate_hz (sy_ctx s) \<and>
    (tg_queue (sy_ctx s') = tg_queue (sy_ctx s) \<or>
     rb_count (tg_queue (sy_ctx s)) \<noteq> 0 \<and> tg_queue (sy_ctx s') = snd (ring_take (tg_queue (sy_ctx s))))"
  using assms by (cases "sy_proc s") (auto simp: proc_step_def Let_def split: if_splits)

lemma watchdog_frame:
  assumes "watchdog_step b s = Some s'"
  shows "sy_ctl s' = sy_ctl s \<and> sy_sensor s' = sy_sensor s \<and> sy_proc s' = sy_proc s \<and> sy_wd s \<noteq> WOff \<and>
    sy_seq s' = sy_seq s \<and>
    tg_queue (sy_ctx s') = tg_queue (sy_ctx s) \<and> tg_threads_started (sy_ctx s') = tg_threads_started (sy_ctx s) \<and>
    tg_sample_rate_hz (sy_ctx s') = tg_sample_rate_hz (sy_ctx s) \<and>
    (tg_state (sy_ctx s') = tg_state (sy_ctx s) \<and> sy_wd s \<noteq> WFault2 \<and> (sy_wd s = WFault1 \<longrightarrow> sy_wd s' = WFault2)
     \<or> tg_state (sy_ctx s') = MLRT_TARGET_FAULT \<and> sy_wd s' = WFault1
     \<or> tg_state (sy_ctx s') = MLRT_TARGET_RUNNING \<or> tg_state (sy_ctx s') = MLRT_TARGET_RECOVERY)"
  using assms by (cases "sy_wd s") (auto simp: watchdog_step_def Let_def split: if_splits)

lemma sensor_inv:
  assumes "target_inv s" "sensor_step s = Some s'"
  shows "target_inv s'"
proof -
  note fr = sensor_frame [OF assms(2)]
  have "queue_ok (sy_ctx s')"
    using fr push_sample assms(1) by (auto simp: target_inv_def queue_ok_def)
  then show ?thesis
    using fr assms(1) by (simp add: target_inv_def rate_ok_def mode_ok_def threads_ok_def)
qed

lemma proc_inv:
  assumes "target_inv s" "proc_step got s = Some s'"
  shows "target_inv s'"
proof -
  note fr = proc_frame [OF assms(2)]
  have "queue_ok (sy_ctx s')"
    using fr ring_advance_inv [of "tg_queue (sy_ctx s)"] assms(1) by (auto simp: target_inv_def queue_ok_def)
  then show ?thesis
    using fr assms(1) by (simp add: target_inv_def rate_ok_def mode_ok_def threads_ok_def)
qed

lemma watchdog_inv:
  assumes "target_inv s" "watchdog_step b s = Some s'"
  shows "target_inv s'"
proof -
  note fr = watchdog_frame [OF assms(2)]
  have "mode_ok s'" using fr assms(1) by (auto simp: target_inv_def mode_ok_def)
  moreover have "threads_ok s'" using fr assms(1) by (auto simp: target_inv_def threads_ok_def)
  ultimately show ?thesis
    using fr assms(1) by (simp add: target_inv_def rate_ok_def queue_ok_def)
qed

lemma word_one_le: "x \<noteq> 0 \<Longrightarrow> 1 \<le> x" for x :: u32
  by (metis word_gt_0 word_le_nat_alt word_less_nat_alt Suc_le_eq unsigned_1 unsigned_0 One_nat_def)

lemma handle_frame:
  assumes "pkt_type req \<noteq> msg_code MLRT_MSG_RESET"
    and "t' = the (snd (snd (mlrt_target_handle_packet arch nows (Some t) (Some req) True)))"
  shows "tg_queue t' = tg_queue t \<and> tg_state t' = tg_state t \<and> tg_threads_started t' = tg_threads_started t \<and>
    tg_produced t' = tg_produced t \<and> tg_processed t' = tg_processed t \<and> tg_running t' = tg_running t \<and>
    tg_watchdog_recoveries t' = tg_watchdog_recoveries t \<and>
    (tg_sample_rate_hz t' = tg_sample_rate_hz t \<or> 1 \<le> tg_sample_rate_hz t' \<and> tg_sample_rate_hz t' \<le> 1000)"
proof -
  have "\<not> (r = 0 \<or> r > 1000) \<Longrightarrow> 1 \<le> r \<and> r \<le> 1000" for r :: u32 using word_one_le by auto
  then show ?thesis
    using assms(1) unfolding assms(2) mlrt_target_handle_packet_def Let_def by simp
qed

lemma control_inv:
  assumes inv: "target_inv s" and step: "control_step e s = Some s'"
  shows "target_inv s'"
proof (cases "sy_ctl s")
  case CIdle
  show ?thesis
  proof (cases e)
    case (Packet req)
    show ?thesis
    proof (cases "pkt_type req = msg_code MLRT_MSG_RESET")
      case True
      then have "s' = s\<lparr>sy_ctl := CReset 0\<rparr>" using step CIdle Packet by (simp add: control_step_def Let_def)
      with inv CIdle show ?thesis by (simp add: target_inv_defs)
    next
      case False
      define t' where "t' = the (snd (snd (mlrt_target_handle_packet ''x86_64'' (\<lambda>_. sy_clock s)
          (Some (sy_ctx s)) (Some req) True)))"
      have s': "s' = s\<lparr>sy_ctx := t'\<rparr>" using step CIdle Packet False by (simp add: control_step_def Let_def t'_def)
      note fr = handle_frame [OF False t'_def]
      have "queue_ok t'" using inv fr by (simp add: target_inv_def queue_ok_def)
      moreover have "rate_ok t'" using inv fr by (simp add: target_inv_def rate_ok_def) fastforce
      ultimately show ?thesis
        using inv fr by (simp add: s' target_inv_def mode_ok_def threads_ok_def)
    qed
  next
    case Start
    with inv step CIdle show ?thesis
      by (auto simp: target_inv_def mode_ok_def threads_ok_def control_step_def Let_def split: if_splits)
  next
    case CrcError
    with step CIdle have s': "s' = s\<lparr>sy_ctx := (sy_ctx s)\<lparr>tg_crc_errors := tg_crc_errors (sy_ctx s) + 1\<rparr>\<rparr>"
      by (simp add: control_step_def Let_def)
    show ?thesis using inv by (simp add: s' target_inv_defs)
  qed (use step CIdle in \<open>simp_all add: control_step_def Let_def\<close>)
next
  case (CStart k)
  then have e: "e = Control" and s': "s' = start_step k s"
    using step by (auto simp: control_step_def Let_def split: target_event.splits)
  have "k \<le> 6" using inv CStart by (auto simp: target_inv_defs)
  then have "k \<in> {0, 1, 2, 3, 4, 5, 6}" by auto
  then show ?thesis
    using inv CStart unfolding s' by (auto simp: target_inv_defs start_step_def Let_def)
next
  case (CReset k)
  then have s': "s' = s\<lparr>sy_ctx := reset_store k (sy_clock s) (sy_ctx s),
      sy_ctl := (if k \<ge> 9 then CIdle else CReset (k + 1))\<rparr>"
    using step by (auto simp: control_step_def Let_def split: target_event.splits)
  have "k \<le> 9" using inv CReset by (auto simp: target_inv_defs)
  then have "k \<in> {0, 1, 2, 3, 4, 5, 6, 7, 8, 9}" by auto
  then show ?thesis
    using inv CReset unfolding s' by (auto simp: target_inv_defs reset_store_def)
qed

lemma target_step_inv: "target_inv s \<Longrightarrow> target_step e s = Some s' \<Longrightarrow> target_inv s'"
  by (cases e) (auto intro: sensor_inv proc_inv watchdog_inv control_inv, auto simp: target_inv_defs)

interpretation target: invariant_system "\<lambda>e s. case target_step e s of None \<Rightarrow> s | Some s' \<Rightarrow> s'" target_inv
  by unfold_locales (auto split: option.splits intro: target_step_inv)

section \<open>Accounting of samples\<close>

definition in_count :: "target_sys \<Rightarrow> u64" where
  "in_count s = (case sy_sensor s of SCount _ \<Rightarrow> 1 | _ \<Rightarrow> 0)"

definition in_push :: "target_sys \<Rightarrow> u64" where
  "in_push s = (case sy_sensor s of SCount _ \<Rightarrow> 1 | SAdvance _ \<Rightarrow> 1 | _ \<Rightarrow> 0)"

definition in_proc :: "target_sys \<Rightarrow> u64" where
  "in_proc s = (if sy_proc s = PCount then 1 else 0)"

text \<open>
  Every sample in the queue has been or is just about to be counted as produced, every sample
  taken out as processed; every sequence number used is a sample produced or one dropped.
\<close>

definition accounts :: "target_sys \<Rightarrow> bool" where
  "accounts s \<longleftrightarrow>
     tg_produced (sy_ctx s) + in_count s =
       tg_processed (sy_ctx s) + in_proc s + of_nat (rb_count (tg_queue (sy_ctx s))) \<and>
     sy_seq s + in_push s = tg_produced (sy_ctx s) + in_count s + rb_dropped (tg_queue (sy_ctx s))"

definition no_reset :: "target_event \<Rightarrow> bool" where
  "no_reset e \<longleftrightarrow> (case e of Packet req \<Rightarrow> pkt_type req \<noteq> msg_code MLRT_MSG_RESET | _ \<Rightarrow> True)"

definition not_resetting :: "target_sys \<Rightarrow> bool" where
  "not_resetting s \<longleftrightarrow> (\<forall>k. sy_ctl s \<noteq> CReset k)"

lemma sensor_accounts:
  assumes "accounts s" "sensor_step s = Some s'"
  shows "accounts s'"
  using assms
  by (cases "sy_sensor s")
     (auto simp: accounts_def in_count_def in_push_def in_proc_def sensor_step_def Let_def ring_push_api
        push_counts algebra_simps split: if_splits)

lemma proc_accounts:
  assumes "accounts s" "proc_step got s = Some s'"
  shows "accounts s'"
proof (cases "sy_proc s = PPop \<and> got")
  case True
  with assms(2) obtain n where n: "rb_count (tg_queue (sy_ctx s)) = Suc n"
    by (cases "rb_count (tg_queue (sy_ctx s))") (auto simp: proc_step_def Let_def)
  with True assms show ?thesis
    by (auto simp: accounts_def in_count_def in_push_def in_proc_def proc_step_def Let_def ring_take_def)
next
  case False
  with assms show ?thesis
    by (cases "sy_proc s")
       (auto simp: accounts_def in_count_def in_push_def in_proc_def proc_step_def Let_def split: if_splits)
qed

lemma watchdog_accounts:
  assumes "accounts s" "watchdog_step b s = Some s'"
  shows "accounts s'"
  using assms
  by (cases "sy_wd s")
     (auto simp: accounts_def in_count_def in_push_def in_proc_def watchdog_step_def Let_def split: if_splits)

lemma control_accounts:
  assumes acc: "accounts s" and ok: "not_resetting s" "no_reset e" "threads_ok s"
    and step: "control_step e s = Some s'"
  shows "accounts s' \<and> not_resetting s'"
proof (cases "sy_ctl s")
  case CIdle
  show ?thesis
  proof (cases e)
    case (Packet req)
    then have ty: "pkt_type req \<noteq> msg_code MLRT_MSG_RESET" using ok(2) by (simp add: no_reset_def)
    define t' where "t' = the (snd (snd (mlrt_target_handle_packet ''x86_64'' (\<lambda>_. sy_clock s)
        (Some (sy_ctx s)) (Some req) True)))"
    note handle_frame [OF ty t'_def]
    moreover have "s' = s\<lparr>sy_ctx := t'\<rparr>"
      using step CIdle Packet ty by (auto simp: control_step_def t'_def Let_def)
    ultimately show ?thesis
      using acc ok(1) by (simp add: accounts_def in_count_def in_push_def in_proc_def not_resetting_def)
  qed (use step CIdle acc in \<open>auto simp: control_step_def Let_def accounts_def in_count_def in_push_def
      in_proc_def not_resetting_def split: if_splits\<close>)
next
  case (CStart k)
  have s': "s' = start_step k s"
    using step CStart by (auto simp: control_step_def Let_def split: target_event.splits)
  have k: "k \<in> {0, 1, 2, 3, 4, 5, 6}" "tg_threads_started (sy_ctx s) = k - 3"
    using ok(3) CStart by (auto simp: threads_ok_def)
  have "k = 3 \<Longrightarrow> sy_sensor s = SOff \<and> sy_seq s = 0" "k = 4 \<Longrightarrow> sy_proc s = POff"
    using ok(3) k(2) by (auto simp: threads_ok_def)
  with k(1) acc CStart show ?thesis unfolding s'
    by (auto simp: start_step_def accounts_def in_count_def in_push_def in_proc_def not_resetting_def Let_def)
next
  case (CReset k)
  with ok(1) show ?thesis by (simp add: not_resetting_def)
qed

lemma target_step_accounts:
  assumes "accounts s" "not_resetting s" "no_reset e" "target_inv s" "target_step e s = Some s'"
  shows "accounts s' \<and> not_resetting s'"
proof (cases e)
  case (Tick d)
  with assms show ?thesis
    by (auto simp: accounts_def in_count_def in_push_def in_proc_def not_resetting_def)
next
  case Sensor
  with assms show ?thesis using sensor_accounts sensor_frame [of s s'] by (auto simp: not_resetting_def)
next
  case (Proc got)
  with assms show ?thesis using proc_accounts proc_frame [of got s s'] by (auto simp: not_resetting_def)
next
  case (Watchdog b)
  with assms show ?thesis using watchdog_accounts watchdog_frame [of b s s'] by (auto simp: not_resetting_def)
qed (use assms control_accounts [of s e s'] in \<open>auto simp: target_inv_def\<close>)

section \<open>Booting\<close>

lemma target_init_cases:
  assumes "mlrt_target_init os nows (Some old) rate = (0, Some t)"
  shows "1 \<le> rate \<and> rate \<le> 1000 \<and> tg_sample_rate_hz t = rate \<and> tg_state t = MLRT_TARGET_BOOT \<and>
    tg_threads_started t = 0 \<and> tg_produced t = 0 \<and> tg_processed t = 0 \<and> \<not> tg_running t \<and>
    ring_inv (tg_queue t) \<and> ring_items (tg_queue t) = [] \<and> rb_item_size (tg_queue t) = sample_size \<and>
    rb_dropped (tg_queue t) = 0 \<and> rb_capacity (tg_queue t) = 128 \<and> pthread_ok os"
proof -
  let ?mem = "replicate (128 * sample_size) (0::byte)"
  have rate: "rate \<noteq> 0" "\<not> 1000 < rate" "rate \<le> 1000"
    using assms by (auto simp: mlrt_target_init_def split: if_splits)
  then have one: "1 \<le> rate" using word_one_le by blast
  obtain rc q a where r: "mlrt_ring_init os (Some (ring_reset [] 0 0)) (Some ?mem) 128 sample_size = (rc, q, a)"
    by (metis prod_cases3)
  have "rc = 0" using assms rate(1,2) r by (auto simp: mlrt_target_init_def Let_def split: if_splits)
  moreover from this r obtain q' where q: "q = Some q'"
    by (auto simp: mlrt_ring_init_eq split: if_splits)
  ultimately have r': "mlrt_ring_init os (Some (ring_reset [] 0 0)) (Some ?mem) 128 sample_size = (0, Some q', a)"
    using r by simp
  have ok: "pthread_ok os" using r' by (simp add: mlrt_ring_init_eq split: if_splits)
  have t: "tg_queue t = q'" "tg_sample_rate_hz t = rate" "tg_state t = MLRT_TARGET_BOOT"
      "tg_threads_started t = 0" "tg_produced t = 0" "tg_processed t = 0" "\<not> tg_running t"
    using assms rate(1,2) by (auto simp: mlrt_target_init_def Let_def r')
  from ring_init_ok [OF r'] t rate one ok show ?thesis by simp
qed

lemma boot_inv:
  assumes "mlrt_target_init os nows (Some old) rate = (0, Some t)"
  shows "target_inv (target_boot clk t) \<and> accounts (target_boot clk t) \<and> not_resetting (target_boot clk t)"
  using target_init_cases [OF assms]
  by (auto simp: target_inv_defs target_boot_def accounts_def in_count_def in_push_def in_proc_def
      not_resetting_def)

lemma reach_inv:
  assumes "target_reach s0 es s" "target_inv s0"
  shows "target_inv s"
  using assms by (induction rule: target_reach.induct) (auto intro: target_step_inv)

lemma reach_accounts:
  assumes "target_reach s0 es s" "target_inv s0" "accounts s0" "not_resetting s0" "list_all no_reset es"
  shows "accounts s \<and> not_resetting s"
  using assms
proof (induction rule: target_reach.induct)
  case (reach_step es s e s')
  then have "accounts s" "not_resetting s" "no_reset e" "target_inv s" using reach_inv by auto
  with reach_step.hyps(2) target_step_accounts show ?case by blast
qed simp

section \<open>Responses\<close>

lemma zero_packet_fields [simp]:
  "length (pkt_payload zero_packet) = 512" "pkt_length zero_packet = 0"
  by (simp_all add: zero_packet_def MLRT_PROTO_MAX_PAYLOAD_def)

lemma make_error_wf: "packet_wf (make_error req txt) \<and> pkt_type (make_error req txt) = msg_code MLRT_MSG_ERROR"
  by (simp add: make_error_def packet_wf_def MLRT_PROTO_MAX_PAYLOAD_def text_bytes_def Let_def unat_of_nat)

lemma make_status_wf: "packet_wf (make_status now t req)"
  by (simp add: make_status_def packet_wf_def MLRT_PROTO_MAX_PAYLOAD_def Let_def)

definition good_response :: "mlrt_packet \<Rightarrow> mlrt_packet \<Rightarrow> bool" where
  "good_response req rsp \<longleftrightarrow>
     packet_wf rsp \<and> pkt_version rsp = MLRT_PROTO_VERSION \<and> pkt_seq rsp = pkt_seq req"

lemma good_responses:
  "good_response req (make_error (Some req) txt)"
  "good_response req (make_status now t req)"
  "length pay = 512 \<Longrightarrow> n \<le> 512 \<Longrightarrow>
    good_response req ((ack ty req)\<lparr>pkt_length := of_nat n, pkt_payload := pay\<rparr>)"
  "good_response req (ack ty req)"
proof -
  show "good_response req (make_error (Some req) txt)"
    using make_error_wf by (simp add: good_response_def) (simp add: make_error_def Let_def)
  show "good_response req (make_status now t req)"
    using make_status_wf by (simp add: good_response_def) (simp add: make_status_def Let_def)
  show "length pay = 512 \<Longrightarrow> n \<le> 512 \<Longrightarrow>
      good_response req ((ack ty req)\<lparr>pkt_length := of_nat n, pkt_payload := pay\<rparr>)"
    by (simp add: good_response_def ack_def packet_wf_def MLRT_PROTO_MAX_PAYLOAD_def unat_of_nat)
  show "good_response req (ack ty req)"
    by (simp add: good_response_def ack_def packet_wf_def MLRT_PROTO_MAX_PAYLOAD_def)
qed

lemma fw_info_good: "good_response req (fw_info_response arch req)"
  unfolding fw_info_response_def Let_def
  by (rule good_responses(3)) (simp_all add: MLRT_PROTO_MAX_PAYLOAD_def)

lemma handle_good:
  "\<exists>rsp t'. mlrt_target_handle_packet arch nows (Some t) (Some req) True = (0, Some rsp, Some t') \<and>
     good_response req rsp"
proof -
  note two = good_responses(3) [of _ 2, simplified] and one = good_responses(3) [of _ 1, simplified]
  note good = good_responses(1,2,4) one two fw_info_good
  let ?rate = "ucast (get_u16_be (pkt_payload req)) :: u32"
  consider "pkt_type req = msg_code MLRT_MSG_STATUS_REQ"
    | "pkt_type req = msg_code MLRT_MSG_CONFIG_SET" "pkt_length req \<noteq> 2"
    | "pkt_type req = msg_code MLRT_MSG_CONFIG_SET" "pkt_length req = 2" "?rate = 0 \<or> ?rate > 1000"
    | "pkt_type req = msg_code MLRT_MSG_CONFIG_SET" "pkt_length req = 2" "\<not> (?rate = 0 \<or> ?rate > 1000)"
    | "pkt_type req = msg_code MLRT_MSG_FAULT_INJECT" "pkt_length req \<noteq> 1 \<or> pkt_payload req ! 0 \<noteq> 1"
    | "pkt_type req = msg_code MLRT_MSG_FAULT_INJECT" "\<not> (pkt_length req \<noteq> 1 \<or> pkt_payload req ! 0 \<noteq> 1)"
    | "pkt_type req = msg_code MLRT_MSG_RESET"
    | "pkt_type req = msg_code MLRT_MSG_FW_INFO_REQ"
    | "pkt_type req \<notin> msg_code ` {MLRT_MSG_STATUS_REQ, MLRT_MSG_CONFIG_SET, MLRT_MSG_FAULT_INJECT,
         MLRT_MSG_RESET, MLRT_MSG_FW_INFO_REQ}"
    by (auto simp del: msg_code.simps)
  then show ?thesis
    by cases (simp_all add: mlrt_target_handle_packet_def Let_def good)
qed

section \<open>Properties\<close>

text \<open>
  C10. In every interleaving of the sensor, processing, watchdog and packet-handling threads, from
  a successful initialisation on: the sampling rate stays between 1 and 1000 Hz, the sample queue
  stays well formed with at most 128 samples, the mode FAULT is only seen while the watchdog is
  in the middle of handling it, INIT only during a start or a reset, READY only during a start.
\<close>

theorem target_modes_safe:
  assumes "mlrt_target_init os nows (Some old) rate = (0, Some t)"
    and "target_reach (target_boot clk t) es s"
  shows "1 \<le> tg_sample_rate_hz (sy_ctx s) \<and> tg_sample_rate_hz (sy_ctx s) \<le> 1000 \<and>
    ring_inv (tg_queue (sy_ctx s)) \<and>
    (tg_state (sy_ctx s) = MLRT_TARGET_FAULT \<longrightarrow> sy_wd s = WFault1 \<or> sy_wd s = WFault2) \<and>
    (tg_state (sy_ctx s) = MLRT_TARGET_INIT \<longrightarrow> sy_ctl s \<noteq> CIdle) \<and>
    (tg_state (sy_ctx s) = MLRT_TARGET_READY \<longrightarrow> (\<exists>k. sy_ctl s = CStart k))"
proof -
  have "target_inv s" using reach_inv [OF assms(2)] boot_inv [OF assms(1), of clk] by blast
  then show ?thesis unfolding target_inv_defs by blast
qed

definition sample_target :: mlrt_target_ctx where
  "sample_target = the (snd (mlrt_target_init pthread_all_ok (\<lambda>_. 1000)
     (Some \<lparr>tg_queue = ring_reset [] 0 0, tg_running = False, tg_state = MLRT_TARGET_BOOT,
            tg_sample_rate_hz = 0, tg_started_ns = 0, tg_produced = 0, tg_processed = 0,
            tg_last_processed_ns = 0, tg_worker_heartbeat_ns = 0, tg_watchdog_recoveries = 0,
            tg_crc_errors = 0, tg_freeze_until_ns = 0, tg_threads_started = 0\<rparr>) 100))"

lemma sample_target_init:
  "mlrt_target_init pthread_all_ok (\<lambda>_. 1000)
     (Some \<lparr>tg_queue = ring_reset [] 0 0, tg_running = False, tg_state = MLRT_TARGET_BOOT,
            tg_sample_rate_hz = 0, tg_started_ns = 0, tg_produced = 0, tg_processed = 0,
            tg_last_processed_ns = 0, tg_worker_heartbeat_ns = 0, tg_watchdog_recoveries = 0,
            tg_crc_errors = 0, tg_freeze_until_ns = 0, tg_threads_started = 0\<rparr>) 100 = (0, Some sample_target)"
  by (simp add: sample_target_def mlrt_target_init_def mlrt_ring_init_eq ring_args_ok_def pthread_ok_def
      pthread_all_ok_def SIZE_MAX_def sample_size_def Let_def)

lemma sample_target_fields:
  "tg_state sample_target = MLRT_TARGET_BOOT" "tg_threads_started sample_target = 0"
  "tg_sample_rate_hz sample_target = 100" "tg_worker_heartbeat_ns sample_target = 1000"
  "tg_freeze_until_ns sample_target = 0"
  by (simp_all add: sample_target_def mlrt_target_init_def mlrt_ring_init_eq ring_args_ok_def pthread_ok_def
      pthread_all_ok_def SIZE_MAX_def sample_size_def Let_def)

definition boot_events :: "target_event list" where
  "boot_events = Start # replicate 7 Control"

lemma sample_boot_run:
  "\<exists>s. target_run boot_events (target_boot 2000 sample_target) = Some s \<and>
     sy_wd s = WHead \<and> sy_proc s = PHead \<and> sy_sensor s = SHead \<and> sy_ctl s = CIdle \<and> sy_clock s = 2000 \<and>
     tg_state (sy_ctx s) = MLRT_TARGET_RUNNING \<and> tg_running (sy_ctx s) \<and>
     tg_worker_heartbeat_ns (sy_ctx s) = 1000 \<and> tg_sample_rate_hz (sy_ctx s) = 100 \<and>
     tg_freeze_until_ns (sy_ctx s) = 0"
  by (simp add: boot_events_def numeral_eq_Suc target_boot_def control_step_def start_step_def
      sample_target_fields Let_def)

theorem target_modes_safe_witness:
  "\<exists>s. target_reach (target_boot 2000 sample_target) boot_events s \<and>
     tg_state (sy_ctx s) = MLRT_TARGET_RUNNING \<and> tg_sample_rate_hz (sy_ctx s) \<le> 1000"
  using sample_boot_run run_reach target_modes_safe [OF sample_target_init] by blast

text \<open>
  Sample accounting, in every interleaving without a reset: when the sensor and processing
  threads are between two counter updates, the samples produced are the samples processed plus
  those waiting in the queue, and every sequence number used so far is a produced or a dropped
  sample.
\<close>

theorem target_sample_accounting:
  assumes "mlrt_target_init os nows (Some old) rate = (0, Some t)"
    and "target_reach (target_boot clk t) es s" and "list_all no_reset es"
    and "sy_sensor s = SHead" and "sy_proc s = PHead"
  shows "tg_produced (sy_ctx s) = tg_processed (sy_ctx s) + of_nat (length (ring_items (tg_queue (sy_ctx s)))) \<and>
    sy_seq s = tg_produced (sy_ctx s) + rb_dropped (tg_queue (sy_ctx s))"
  using reach_accounts [OF assms(2)] boot_inv [OF assms(1), of clk] assms(3-5)
  by (simp add: accounts_def in_count_def in_push_def in_proc_def)

theorem target_sample_accounting_witness:
  "\<exists>s. target_reach (target_boot 2000 sample_target) boot_events s \<and>
     sy_seq s = tg_produced (sy_ctx s) + rb_dropped (tg_queue (sy_ctx s))"
proof -
  obtain s where s: "target_run boot_events (target_boot 2000 sample_target) = Some s"
      "sy_proc s = PHead" "sy_sensor s = SHead" using sample_boot_run by blast
  have "list_all no_reset boot_events" by (simp add: boot_events_def no_reset_def list_all_iff)
  from target_sample_accounting [OF sample_target_init run_reach [OF s(1)] this s(3,2)] run_reach [OF s(1)]
  show ?thesis by blast
qed

text \<open>
  A stretch of a run in which the worker stores no heartbeat and every age measured satisfies \<open>P\<close>;
  the target is neither started nor reset in it. All threads may take steps, also the worker.
\<close>

fun calm :: "target_event \<Rightarrow> bool" where
  "calm Start = False"
| "calm Control = False"
| "calm (Packet req) = (pkt_type req \<noteq> msg_code MLRT_MSG_RESET)"
| "calm _ = True"

definition age_ok :: "(u64 \<Rightarrow> bool) \<Rightarrow> u64 \<Rightarrow> target_sys \<Rightarrow> bool" where
  "age_ok P hb s \<longleftrightarrow> tg_worker_heartbeat_ns (sy_ctx s) = hb \<and> P (sy_clock s - hb)"

fun steady :: "(u64 \<Rightarrow> bool) \<Rightarrow> u64 \<Rightarrow> target_event list \<Rightarrow> target_sys \<Rightarrow> bool" where
  "steady P hb [] s = age_ok P hb s"
| "steady P hb (e # es) s =
     (age_ok P hb s \<and> calm e \<and> (case target_step e s of None \<Rightarrow> True | Some s' \<Rightarrow> steady P hb es s'))"

fun is_watchdog :: "target_event \<Rightarrow> bool" where
  "is_watchdog (Watchdog b) = True"
| "is_watchdog _ = False"

abbreviation watchdog_steps :: "target_event list \<Rightarrow> nat" where
  "watchdog_steps es \<equiv> length (filter is_watchdog es)"

text \<open>What the watchdog sees of the system, and that the others leave it alone.\<close>

definition wd_view :: "target_sys \<Rightarrow> wd_pc \<times> mlrt_target_state \<times> u64 \<times> bool" where
  "wd_view s = (sy_wd s, tg_state (sy_ctx s), tg_watchdog_recoveries (sy_ctx s), tg_running (sy_ctx s))"

lemma others_keep_view:
  assumes "calm e" "\<not> is_watchdog e" "target_step e s = Some s'"
  shows "wd_view s' = wd_view s"
proof (cases e)
  case Sensor
  then show ?thesis using assms(3) by (cases "sy_sensor s") (auto simp: sensor_step_def Let_def wd_view_def split: if_splits prod.splits)
next
  case (Proc b)
  then show ?thesis using assms(3) by (cases "sy_proc s") (auto simp: proc_step_def Let_def wd_view_def split: if_splits)
next
  case (Packet req)
  with assms(1) have "pkt_type req \<noteq> msg_code MLRT_MSG_RESET" by simp
  from handle_frame [OF this refl, of "''x86_64''" "\<lambda>_. sy_clock s" "sy_ctx s"] this Packet assms(3) show ?thesis
    by (cases "sy_ctl s") (auto simp: control_step_def wd_view_def)
qed (use assms in \<open>auto simp: control_step_def Let_def wd_view_def split: ctl_pc.splits\<close>)

text \<open>Progress of the watchdog over a stretch, in every interleaving.\<close>

lemma steady_progress:
  assumes adv: "\<And>n s b s'. D n (wd_view s) \<Longrightarrow> age_ok P hb s \<Longrightarrow> watchdog_step b s = Some s' \<Longrightarrow> D (Suc n) (wd_view s')"
    and "D n (wd_view s)" "steady P hb es s" "target_run es s = Some s'"
  shows "D (n + watchdog_steps es) (wd_view s')"
  using assms(2-)
proof (induction es arbitrary: s n)
  case (Cons e es)
  then obtain s1 where s1: "target_step e s = Some s1" "target_run es s1 = Some s'" by (auto split: option.splits)
  have st: "steady P hb es s1" "calm e" "age_ok P hb s" using Cons.prems(2) s1(1) by auto
  show ?case
  proof (cases e)
    case (Watchdog b)
    with s1 st adv [OF Cons.prems(1) st(3)] Cons.IH [of "Suc n" s1] show ?thesis by simp
  next
    case (Packet req)
    with s1 st others_keep_view [OF st(2) _ s1(1)] Cons.prems(1) Cons.IH [of n s1] show ?thesis by simp
  qed (use s1 st others_keep_view [OF st(2) _ s1(1)] Cons.prems(1) Cons.IH [of n s1] in simp_all)
qed simp

text \<open>The \<open>n\<close>-th point of an iteration before its decision; the readings give an age with \<open>P\<close>.\<close>

fun reading :: "(u64 \<Rightarrow> bool) \<Rightarrow> u64 \<Rightarrow> nat \<Rightarrow> wd_pc \<Rightarrow> bool" where
  "reading P hb n WHead = (n = 0)"
| "reading P hb n WSample = (n = 1)"
| "reading P hb n (WNow now) = (n = 2 \<and> P (now - hb))"
| "reading P hb n (WHb h) = (n = 2 \<and> h = hb)"
| "reading P hb n (WAge age) = (n = 3 \<and> P age)"
| "reading P hb n _ = False"

definition detecting :: "u64 \<Rightarrow> nat \<Rightarrow> wd_pc \<times> mlrt_target_state \<times> u64 \<times> bool \<Rightarrow> bool" where
  "detecting hb n v = (case v of (pc, st, r, run) \<Rightarrow> run \<and>
     (if n < 4 then reading (\<lambda>a. a > 500000000) hb n pc \<and> st = MLRT_TARGET_RUNNING
      else if n = 4 then pc = WFault1 \<and> st = MLRT_TARGET_FAULT
      else if n = 5 then pc = WFault2 \<and> st = MLRT_TARGET_FAULT
      else (\<exists>k. reading (\<lambda>a. a > 500000000) hb k pc) \<and> st = MLRT_TARGET_RECOVERY))"

definition recovering :: "u64 \<Rightarrow> u64 \<Rightarrow> nat \<Rightarrow> wd_pc \<times> mlrt_target_state \<times> u64 \<times> bool \<Rightarrow> bool" where
  "recovering r0 hb n v = (case v of (pc, st, r, run) \<Rightarrow> run \<and>
     (if n < 4 then reading (\<lambda>a. a < 200000000) hb n pc \<and> st = MLRT_TARGET_RECOVERY \<and> r = r0
      else if n = 4 then pc = WRecov \<and> st = MLRT_TARGET_RUNNING \<and> r = r0
      else (\<exists>k. reading (\<lambda>a. a < 200000000) hb k pc) \<and> st = MLRT_TARGET_RUNNING \<and> r = r0 + 1))"

definition alive :: "u64 \<Rightarrow> u64 \<Rightarrow> nat \<Rightarrow> wd_pc \<times> mlrt_target_state \<times> u64 \<times> bool \<Rightarrow> bool" where
  "alive r0 hb n v = (case v of (pc, st, r, run) \<Rightarrow> run \<and>
     (\<exists>k. reading (\<lambda>a. a \<le> 500000000) hb k pc) \<and> st = MLRT_TARGET_RUNNING \<and> r = r0)"

lemma age_apart: "500000000 < x \<Longrightarrow> x < 200000000 \<Longrightarrow> False" for x :: u64
  using less_trans [of 500000000 x 200000000] by simp

lemma detecting_step:
  "detecting hb n (wd_view s) \<Longrightarrow> age_ok (\<lambda>a. a > 500000000) hb s \<Longrightarrow> watchdog_step b s = Some s' \<Longrightarrow> detecting hb (Suc n) (wd_view s')"
  by (cases "sy_wd s") (auto simp: detecting_def wd_view_def age_ok_def watchdog_step_def Let_def split: if_splits dest: age_apart)

lemma recovering_step:
  "recovering r0 hb n (wd_view s) \<Longrightarrow> age_ok (\<lambda>a. a < 200000000) hb s \<Longrightarrow> watchdog_step b s = Some s' \<Longrightarrow> recovering r0 hb (Suc n) (wd_view s')"
  by (cases "sy_wd s") (auto simp: recovering_def wd_view_def age_ok_def watchdog_step_def Let_def split: if_splits dest: age_apart)

lemma alive_step:
  "alive r0 hb n (wd_view s) \<Longrightarrow> age_ok (\<lambda>a. a \<le> 500000000) hb s \<Longrightarrow> watchdog_step b s = Some s' \<Longrightarrow> alive r0 hb (Suc n) (wd_view s')"
  by (cases "sy_wd s") (auto simp: alive_def wd_view_def age_ok_def watchdog_step_def Let_def split: if_splits)

text \<open>
  C11. The watchdog in every interleaving with the sensor, the worker, ticks of the clock and
  requests other than a reset, over a stretch in which no heartbeat is stored, starting at the head of
  its loop. While the last heartbeat is more than 500 ms old, six of its steps take a running target
  to RECOVERY, where it stays; while the heartbeat is less than 200 ms old, five of its steps take a
  recovering target back to RUNNING, where it stays, and the recovery is counted once; while the
  heartbeat is at most 500 ms old, a running target is left RUNNING and nothing is counted.
\<close>

theorem watchdog_cycle:
  assumes "sy_wd s = WHead" "tg_running (sy_ctx s)" and run: "target_run es s = Some s'"
  shows "(steady (\<lambda>age. age > 500000000) hb es s \<and> tg_state (sy_ctx s) = MLRT_TARGET_RUNNING \<and> 6 \<le> watchdog_steps es \<longrightarrow>
      tg_state (sy_ctx s') = MLRT_TARGET_RECOVERY) \<and>
    (steady (\<lambda>age. age < 200000000) hb es s \<and> tg_state (sy_ctx s) = MLRT_TARGET_RECOVERY \<and> 5 \<le> watchdog_steps es \<longrightarrow>
      tg_state (sy_ctx s') = MLRT_TARGET_RUNNING \<and>
      tg_watchdog_recoveries (sy_ctx s') = tg_watchdog_recoveries (sy_ctx s) + 1) \<and>
    (steady (\<lambda>age. age \<le> 500000000) hb es s \<and> tg_state (sy_ctx s) = MLRT_TARGET_RUNNING \<longrightarrow>
      tg_state (sy_ctx s') = MLRT_TARGET_RUNNING \<and>
      tg_watchdog_recoveries (sy_ctx s') = tg_watchdog_recoveries (sy_ctx s))"
proof (intro conjI impI; elim conjE)
  assume st: "steady (\<lambda>age. age > 500000000) hb es s" "tg_state (sy_ctx s) = MLRT_TARGET_RUNNING" and n: "6 \<le> watchdog_steps es"
  have "detecting hb 0 (wd_view s)" using assms st by (simp add: detecting_def wd_view_def)
  from steady_progress [of "detecting hb", OF detecting_step this st(1) run] n
  show "tg_state (sy_ctx s') = MLRT_TARGET_RECOVERY" by (simp add: detecting_def wd_view_def)
next
  let ?r = "tg_watchdog_recoveries (sy_ctx s)"
  assume st: "steady (\<lambda>age. age < 200000000) hb es s" "tg_state (sy_ctx s) = MLRT_TARGET_RECOVERY" and n: "5 \<le> watchdog_steps es"
  have "recovering ?r hb 0 (wd_view s)" using assms st by (simp add: recovering_def wd_view_def)
  from steady_progress [of "recovering ?r hb", OF recovering_step this st(1) run] n
  show "tg_state (sy_ctx s') = MLRT_TARGET_RUNNING" "tg_watchdog_recoveries (sy_ctx s') = ?r + 1"
    by (simp_all add: recovering_def wd_view_def)
next
  let ?r = "tg_watchdog_recoveries (sy_ctx s)"
  assume st: "steady (\<lambda>age. age \<le> 500000000) hb es s" "tg_state (sy_ctx s) = MLRT_TARGET_RUNNING"
  have "alive ?r hb 0 (wd_view s)" using assms st by (auto simp: alive_def wd_view_def)
  from steady_progress [of "alive ?r hb", OF alive_step this st(1) run]
  show "tg_state (sy_ctx s') = MLRT_TARGET_RUNNING" "tg_watchdog_recoveries (sy_ctx s') = ?r"
    by (simp_all add: alive_def wd_view_def)
qed

definition silent_events :: "target_event list" where
  "silent_events = [Watchdog True, Sensor, Watchdog True, Tick 7, Watchdog True, Watchdog False, Proc False, Watchdog False, Watchdog True]"

text \<open>A target that was booted, then silent for 600 ms, is found; the worker and the sensor move meanwhile.\<close>

theorem watchdog_cycle_witness:
  "\<exists>s s'. target_run (boot_events @ [Tick 600000000]) (target_boot 2000 sample_target) = Some s \<and>
     tg_state (sy_ctx s) = MLRT_TARGET_RUNNING \<and>
     target_run silent_events s = Some s' \<and> tg_state (sy_ctx s') = MLRT_TARGET_RECOVERY"
proof -
  obtain s0 where s0: "target_run boot_events (target_boot 2000 sample_target) = Some s0"
      "sy_wd s0 = WHead" "sy_proc s0 = PHead" "sy_sensor s0 = SHead" "sy_clock s0 = 2000"
      "tg_running (sy_ctx s0)" "tg_state (sy_ctx s0) = MLRT_TARGET_RUNNING"
      "tg_worker_heartbeat_ns (sy_ctx s0) = 1000" using sample_boot_run by blast
  define s where "s = s0\<lparr>sy_clock := 600002000\<rparr>"
  have run: "target_run (boot_events @ [Tick 600000000]) (target_boot 2000 sample_target) = Some s"
    using s0 by (simp add: target_run_append s_def)
  obtain s' where s': "target_run silent_events s = Some s'"
    using s0 by (simp add: silent_events_def s_def watchdog_step_def sensor_step_def proc_step_def Let_def)
  have "steady (\<lambda>age. age > 500000000) 1000 silent_events s"
    using s0 by (simp add: silent_events_def s_def watchdog_step_def sensor_step_def proc_step_def Let_def age_ok_def)
  moreover have "6 \<le> watchdog_steps silent_events" by (simp add: silent_events_def)
  ultimately have "tg_state (sy_ctx s') = MLRT_TARGET_RECOVERY"
    using watchdog_cycle [OF _ _ s', of 1000] s0 by (simp add: s_def)
  with run s' s0 show ?thesis by (auto simp: s_def)
qed

text \<open>
  The age is computed from two readings of which the first may be the clock. When the worker
  stores a heartbeat between the two, the 64-bit difference is negative and wraps to a huge age:
  a running target whose worker has just been heard is put into FAULT.
\<close>

theorem watchdog_clock_wrap:
  assumes "sy_wd s = WNow now" "tg_state (sy_ctx s) = MLRT_TARGET_RUNNING"
    and "unat now < unat (tg_worker_heartbeat_ns (sy_ctx s))"
    and "unat (tg_worker_heartbeat_ns (sy_ctx s)) \<le> unat now + 1000000000"
  shows "\<exists>s'. target_run [Watchdog b, Watchdog b] s = Some s' \<and> tg_state (sy_ctx s') = MLRT_TARGET_FAULT"
proof -
  let ?hb = "tg_worker_heartbeat_ns (sy_ctx s)"
  have "unat (now - ?hb) = unat now + 2 ^ 64 - unat ?hb"
    using assms(3) by (simp add: unat_sub_if_size word_size)
  then have "unat (now - ?hb) > 500000000" using assms(3,4) by simp
  then have "now - ?hb > 500000000" by (simp add: word_less_nat_alt)
  with assms(1,2) show ?thesis by (simp add: watchdog_step_def Let_def)
qed

definition wrap_events :: "target_event list" where
  "wrap_events = [Watchdog True, Watchdog True, Tick 1, Proc False, Proc False, Proc False, Proc False,
     Proc False, Proc False]"

lemma sample_wrap_run:
  assumes "sy_wd s = WHead" "sy_proc s = PHead" "tg_running (sy_ctx s)" "sy_clock s = 2000"
    and "tg_freeze_until_ns (sy_ctx s) = 0"
  shows "\<exists>s'. target_run wrap_events s = Some s' \<and> sy_wd s' = WNow 2000 \<and>
    tg_state (sy_ctx s') = tg_state (sy_ctx s) \<and> tg_worker_heartbeat_ns (sy_ctx s') = 2001"
  using assms by (simp add: wrap_events_def watchdog_step_def proc_step_def Let_def)

theorem watchdog_clock_wrap_witness:
  "\<exists>s. target_reach (target_boot 2000 sample_target) (boot_events @ wrap_events @ [Watchdog True, Watchdog True]) s \<and>
     tg_state (sy_ctx s) = MLRT_TARGET_FAULT"
proof -
  obtain s where s: "target_run boot_events (target_boot 2000 sample_target) = Some s" "sy_wd s = WHead"
      "sy_proc s = PHead" "tg_running (sy_ctx s)" "sy_clock s = 2000" "tg_freeze_until_ns (sy_ctx s) = 0"
      "tg_state (sy_ctx s) = MLRT_TARGET_RUNNING" using sample_boot_run by blast
  then obtain s1 where s1: "target_run wrap_events s = Some s1" "sy_wd s1 = WNow 2000"
      "tg_state (sy_ctx s1) = MLRT_TARGET_RUNNING" "tg_worker_heartbeat_ns (sy_ctx s1) = 2001"
    using sample_wrap_run [of s] by auto
  obtain s2 where s2: "target_run [Watchdog True, Watchdog True] s1 = Some s2"
      "tg_state (sy_ctx s2) = MLRT_TARGET_FAULT"
    using watchdog_clock_wrap [OF s1(2,3), of True] s1(4) by auto
  have "target_run (boot_events @ wrap_events @ [Watchdog True, Watchdog True]) (target_boot 2000 sample_target)
      = Some s2"
    using s(1) s1(1) s2(1) by (simp only: target_run_append option.case)
  with s2(2) run_reach show ?thesis by blast
qed

text \<open>
  C12. Every request gets exactly one response, which can be sent: its length fits the payload, it
  carries the protocol version and the sequence number of the request. A reset leaves the rate and
  the queue, clears every counter and the freeze, takes the three times from the clock and ends in
  RUNNING. Any other request changes at most two variables of the target: the rate, to a valid
  one and only by a CONFIG_SET, and the end of the freeze, only by a FAULT_INJECT.
\<close>

theorem handle_packet_response:
  "\<exists>rsp t'. mlrt_target_handle_packet arch nows (Some t) (Some req) True = (0, Some rsp, Some t') \<and>
    good_response req rsp \<and>
    (if pkt_type req = msg_code MLRT_MSG_RESET
     then t' = t\<lparr>tg_state := MLRT_TARGET_RUNNING, tg_produced := 0, tg_processed := 0, tg_watchdog_recoveries := 0,
       tg_crc_errors := 0, tg_freeze_until_ns := 0, tg_started_ns := nows 6, tg_last_processed_ns := nows 7,
       tg_worker_heartbeat_ns := nows 8\<rparr>
     else \<exists>rate freeze. t' = t\<lparr>tg_sample_rate_hz := rate, tg_freeze_until_ns := freeze\<rparr> \<and>
       (rate = tg_sample_rate_hz t \<or> pkt_type req = msg_code MLRT_MSG_CONFIG_SET \<and> 1 \<le> rate \<and> rate \<le> 1000) \<and>
       (freeze = tg_freeze_until_ns t \<or> pkt_type req = msg_code MLRT_MSG_FAULT_INJECT \<and> freeze = nows 0 + 900000000))"
proof -
  obtain rsp t' where h: "mlrt_target_handle_packet arch nows (Some t) (Some req) True = (0, Some rsp, Some t')"
    and good: "good_response req rsp" using handle_good by blast
  show ?thesis
  proof (cases "pkt_type req = msg_code MLRT_MSG_RESET")
    case True
    then have t': "t' = reset_runtime nows t" using h by (auto simp: mlrt_target_handle_packet_def)
    have ks: "[0..<10] = [0, 1, 2, 3, 4, 5, 6, 7, 8, 9::nat]" by (simp add: upt_rec)
    show ?thesis using h good True by (auto simp: t' reset_runtime_def ks reset_store_def)
  next
    case False
    have "\<not> (r = 0 \<or> r > 1000) \<Longrightarrow> 1 \<le> r \<and> r \<le> 1000" for r :: u32 using word_one_le by auto
    then have "\<exists>rate freeze. t' = t\<lparr>tg_sample_rate_hz := rate, tg_freeze_until_ns := freeze\<rparr> \<and>
       (rate = tg_sample_rate_hz t \<or> pkt_type req = msg_code MLRT_MSG_CONFIG_SET \<and> 1 \<le> rate \<and> rate \<le> 1000) \<and>
       (freeze = tg_freeze_until_ns t \<or> pkt_type req = msg_code MLRT_MSG_FAULT_INJECT \<and> freeze = nows 0 + 900000000)"
      using h False unfolding mlrt_target_handle_packet_def Let_def
      by (intro exI [of _ "tg_sample_rate_hz t'"] exI [of _ "tg_freeze_until_ns t'"]) (auto split: if_splits)
    with h good False show ?thesis by auto
  qed
qed

end
