(* ===== verification/Target_Link.thy ===== *)
theory Target_Link
  imports Target_Core C_Strings
begin

text \<open>
  The two ends of the target's socket: the server loop of \<^verbatim>\<open>target/target_server.c\<close> and the
  command-line client of \<^verbatim>\<open>target/target_client.c\<close>. A connection is the byte stream the client
  sends and the bytes the server answers; the sockets are in \<open>Target_Server\<close>.
\<close>

section \<open>Server\<close>

lemma read_fd_shorter:
  assumes "mlrt_packet_read_fd junk es p inp = Some (rc, pkt, inp', es')"
  shows "length es' < length es"
proof -
  obtain rc1 hdr inp1 es1 where r1: "read_all es MLRT_PROTO_HEADER_SIZE inp = Some (rc1, hdr, inp1, es1)"
    using assms by (auto simp: mlrt_packet_read_fd_def split: option.splits)
  have "length es1 < length es" using proto_reader.rdall_shorter [OF r1] by (simp add: MLRT_PROTO_HEADER_SIZE_def)
  moreover have "length es' \<le> length es1"
    using assms r1 proto_reader.rdall_shorter
    by (auto simp: mlrt_packet_read_fd_def Let_def split: option.splits if_splits prod.splits)
  ultimately show ?thesis by simp
qed

text \<open>
  How a session ends: it returns a code, or a write to a connection the peer has closed ends the
  whole process by SIGPIPE, whose disposition the program leaves at the default. \<open>epipe\<close> says whether
  the failing writes of the connection are of this kind.
\<close>

datatype session_end = Returned int | Sigpipe

definition gets_sigpipe :: "bool \<Rightarrow> wr_event list \<Rightarrow> wr_event list \<Rightarrow> bool" where
  "gets_sigpipe epipe ws ws' \<longleftrightarrow> epipe \<and> length ws' < length ws \<and> ws ! (length ws - Suc (length ws')) = WrFail"

text \<open>
  \<open>serve_client\<close>: the result is the end of the session, the context and the bytes sent. \<open>nows i k\<close> is
  the \<open>k\<close>-th clock reading while the \<open>i\<close>-th request is handled; \<open>threads i\<close> is what the sensor, worker and
  watchdog threads have done to the context when the \<open>i\<close>-th read returns, whatever that is;
  \<open>rj\<close> and \<open>wj\<close> are what the frame buffers on the stack hold beforehand.
\<close>

function serve_client ::
  "string \<Rightarrow> byte list \<Rightarrow> byte list \<Rightarrow> (nat \<Rightarrow> nat \<Rightarrow> u64) \<Rightarrow> (nat \<Rightarrow> mlrt_target_ctx \<Rightarrow> mlrt_target_ctx) \<Rightarrow> bool \<Rightarrow>
     rd_event list \<Rightarrow> wr_event list \<Rightarrow> byte list \<Rightarrow> mlrt_target_ctx \<Rightarrow> (session_end \<times> mlrt_target_ctx \<times> byte list) option" where
  "serve_client arch rj wj nows threads epipe rs ws inp t0 =
     (case mlrt_packet_read_fd rj rs True inp of
        None \<Rightarrow> None
      | Some (rc, req, inp', rs') \<Rightarrow>
          let t = threads 0 t0
          in if rc = MLRT_PROTO_EOF then Some (Returned 0, t, [])
          else if rc = MLRT_PROTO_ECRC then Some (Returned 0, t\<lparr>tg_crc_errors := tg_crc_errors t + 1\<rparr>, [])
          else if rc \<noteq> MLRT_PROTO_OK then Some (Returned (-1), t, [])
          else
            (case mlrt_target_handle_packet arch (nows 0) (Some t) req True of
               (hrc, rsp, t') \<Rightarrow>
                 if hrc \<noteq> 0 then Some (Returned (-1), the t', [])
                 else
                   (case mlrt_packet_write_fd wj ws rsp of
                      None \<Rightarrow> None
                    | Some (wrc, sent, ws') \<Rightarrow>
                        if wrc \<noteq> MLRT_PROTO_OK
                        then Some (if gets_sigpipe epipe ws ws' then Sigpipe else Returned (-1), the t', sent)
                        else map_option (\<lambda>(r, t'', out). (r, t'', sent @ out))
                               (serve_client arch rj wj (\<lambda>i. nows (Suc i)) (\<lambda>i. threads (Suc i)) epipe rs' ws' inp' (the t')))))"
  by pat_completeness auto
termination
  by (relation "measure (\<lambda>(arch, rj, wj, nows, threads, epipe, rs, ws, inp, t). length rs)") (auto dest: read_fd_shorter)

declare serve_client.simps [simp del]

definition DEFAULT_SOCKET :: string where "DEFAULT_SOCKET = ''/tmp/mlrt-target.sock''"

section \<open>Client\<close>

fun client_socket :: "string list \<Rightarrow> string \<Rightarrow> string" where
  "client_socket [] path = path"
| "client_socket (a # args) path =
     (if a = ''--socket'' \<and> args \<noteq> [] then client_socket (tl args) (hd args)
      else client_socket args path)"

definition base_request :: mlrt_packet where
  "base_request = zero_packet\<lparr>pkt_version := MLRT_PROTO_VERSION, pkt_seq := 1\<rparr>"

datatype client_action = SendRequest mlrt_packet | SendCorruptCrc | ClientExit int

text \<open>The request a command line stands for.\<close>

definition client_request :: "string list \<Rightarrow> client_action" where
  "client_request argv =
     (if length argv < 2 then ClientExit 2
      else if argv ! 1 = ''status'' then
        SendRequest (base_request\<lparr>pkt_type := msg_code MLRT_MSG_STATUS_REQ\<rparr>)
      else if argv ! 1 = ''set-rate'' then
        (if length argv < 3 then ClientExit 2
         else
           let (rate, rest) = strtol10 (argv ! 2)
           in if rest \<noteq> [] \<or> rate < 1 \<or> rate > 1000 then ClientExit 2
              else SendRequest (base_request\<lparr>pkt_type := msg_code MLRT_MSG_CONFIG_SET, pkt_length := 2,
                     pkt_payload := write_at 0 (put_u16_be (of_int rate)) (pkt_payload base_request)\<rparr>))
      else if argv ! 1 = ''inject-fault'' then
        (if length argv < 3 then ClientExit 2
         else if argv ! 2 = ''corrupt-crc'' then SendCorruptCrc
         else if argv ! 2 \<noteq> ''freeze-worker'' then ClientExit 2
         else SendRequest (base_request\<lparr>pkt_type := msg_code MLRT_MSG_FAULT_INJECT, pkt_length := 1,
                pkt_payload := (pkt_payload base_request)[0 := 1]\<rparr>))
      else if argv ! 1 = ''reset'' then SendRequest (base_request\<lparr>pkt_type := msg_code MLRT_MSG_RESET\<rparr>)
      else if argv ! 1 = ''fw-info'' then SendRequest (base_request\<lparr>pkt_type := msg_code MLRT_MSG_FW_INFO_REQ\<rparr>)
      else if argv ! 1 = ''--help'' \<or> argv ! 1 = ''help'' then ClientExit 0
      else ClientExit 2)"

text \<open>
  \<open>transact\<close> on an open connection: what is sent, and, given the stream the server answers with,
  the exit code and the response.
\<close>

definition transact ::
  "byte list \<Rightarrow> byte list \<Rightarrow> wr_event list \<Rightarrow> rd_event list \<Rightarrow> mlrt_packet \<Rightarrow> (byte list \<Rightarrow> byte list) \<Rightarrow>
     (int \<times> mlrt_packet option) option" where
  "transact wj rj ws rs req peer =
     (case mlrt_packet_write_fd wj ws (Some req) of
        None \<Rightarrow> None
      | Some (rc, sent, ws') \<Rightarrow>
          if rc \<noteq> MLRT_PROTO_OK then Some (1, None)
          else
            (case mlrt_packet_read_fd rj rs True (peer sent) of
               None \<Rightarrow> None
             | Some (rc2, rsp, _) \<Rightarrow>
                 if rc2 \<noteq> MLRT_PROTO_OK then Some (1, rsp)
                 else if pkt_type (the rsp) = msg_code MLRT_MSG_ERROR then Some (1, rsp)
                 else Some (0, rsp)))"

text \<open>The fields \<open>print_status\<close> takes out of a status response.\<close>

record status_report =
  sr_state :: string
  sr_rate :: u16
  sr_uptime :: u32
  sr_produced :: u32
  sr_processed :: u32
  sr_dropped :: u32
  sr_crc_errors :: u32
  sr_recoveries :: u32

definition print_status :: "mlrt_packet \<Rightarrow> status_report option" where
  "print_status rsp =
     (if pkt_type rsp \<noteq> msg_code MLRT_MSG_STATUS_RSP \<or> pkt_length rsp \<noteq> 27 then None
      else Some \<lparr>sr_state = mlrt_target_state_name (uint (pkt_payload rsp ! 0)),
                 sr_rate = get_u16_be (drop 1 (pkt_payload rsp)),
                 sr_uptime = get_u32_be (drop 3 (pkt_payload rsp)),
                 sr_produced = get_u32_be (drop 7 (pkt_payload rsp)),
                 sr_processed = get_u32_be (drop 11 (pkt_payload rsp)),
                 sr_dropped = get_u32_be (drop 15 (pkt_payload rsp)),
                 sr_crc_errors = get_u32_be (drop 19 (pkt_payload rsp)),
                 sr_recoveries = get_u32_be (drop 23 (pkt_payload rsp))\<rparr>)"

text \<open>\<open>send_corrupt_crc\<close>: the bytes it sends (its write loop is one more exact writer).\<close>

definition corrupt_request :: mlrt_packet where
  "corrupt_request = zero_packet\<lparr>pkt_version := MLRT_PROTO_VERSION,
     pkt_type := msg_code MLRT_MSG_STATUS_REQ, pkt_seq := 0xBAD\<rparr>"

definition corrupt_frame :: "byte list \<Rightarrow> byte list option" where
  "corrupt_frame junk =
     (case mlrt_packet_encode (Some corrupt_request) (Some junk) MLRT_PROTO_MAX_FRAME True of
        (MLRT_PROTO_OK, Some frame, Some n) \<Rightarrow> Some (take n (frame[n - 1 := frame ! (n - 1) XOR 1]))
      | _ \<Rightarrow> None)"

fun corrupt_write_loop :: "wr_event list \<Rightarrow> byte list \<Rightarrow> (int \<times> byte list \<times> wr_event list) option" where
  "corrupt_write_loop es [] = Some (0, [], es)"
| "corrupt_write_loop [] (b # buf) = None"
| "corrupt_write_loop (e # es) (b # buf) =
     (case sys_write e (b # buf) of
        WrIntr \<Rightarrow> corrupt_write_loop es (b # buf)
      | WrErr \<Rightarrow> Some (1, [], es)
      | WrCount n \<Rightarrow>
          if n = 0 then Some (1, [], es)
          else map_option (\<lambda>(r, out, es'). (r, take n (b # buf) @ out, es'))
                 (corrupt_write_loop es (drop n (b # buf))))"

definition send_corrupt_crc :: "byte list \<Rightarrow> wr_event list \<Rightarrow> (int \<times> byte list) option" where
  "send_corrupt_crc junk ws =
     (case corrupt_frame junk of
        None \<Rightarrow> Some (1, [])
      | Some frame \<Rightarrow> map_option (\<lambda>(rc, sent, _). (rc, sent)) (corrupt_write_loop ws frame))"

interpretation corrupt_writer: exact_writer corrupt_write_loop "0 :: int" 1
  by unfold_locales auto

text \<open>What the client prints for a response.\<close>

datatype client_shown =
    ShowStatus "status_report option"
  | ShowRate u16
  | ShowFault
  | ShowReset
  | ShowFirmware "byte list"
  | ShowOther string

definition client_output :: "mlrt_packet \<Rightarrow> mlrt_packet \<Rightarrow> client_shown" where
  "client_output req rsp =
     (if pkt_type rsp = msg_code MLRT_MSG_STATUS_RSP then ShowStatus (print_status rsp)
      else if pkt_type rsp = msg_code MLRT_MSG_CONFIG_ACK then
        (if pkt_type req = msg_code MLRT_MSG_CONFIG_SET \<and> pkt_length rsp = 2
         then ShowRate (get_u16_be (pkt_payload rsp)) else ShowFault)
      else if pkt_type rsp = msg_code MLRT_MSG_RESET_ACK then ShowReset
      else if pkt_type rsp = msg_code MLRT_MSG_FW_INFO_RSP then ShowFirmware (take (unat (pkt_length rsp)) (pkt_payload rsp))
      else ShowOther (mlrt_message_type_name (pkt_type rsp)))"

text \<open>
  The whole client command against a server: \<open>server\<close> is what is listening on a path (\<open>None\<close>:
  no connection), mapping the bytes of the request to the bytes of the answer.
\<close>

definition sun_path_size :: nat where
  "sun_path_size = 108"

definition connect_target :: "(string \<Rightarrow> 'peer option) \<Rightarrow> string \<Rightarrow> 'peer option" where
  "connect_target server path = (if length path \<ge> sun_path_size then None else server path)"

definition target_client_cli_main ::
  "byte list \<Rightarrow> byte list \<Rightarrow> wr_event list \<Rightarrow> rd_event list \<Rightarrow> (string \<Rightarrow> (byte list \<Rightarrow> byte list) option) \<Rightarrow>
     string list \<Rightarrow> (int \<times> client_shown option) option" where
  "target_client_cli_main wj rj ws rs server argv =
     (let peer = connect_target server (client_socket (drop 2 argv) DEFAULT_SOCKET)
      in case client_request argv of
           ClientExit n \<Rightarrow> Some (n, None)
         | SendCorruptCrc \<Rightarrow>
             if peer = None then Some (1, None) else map_option (\<lambda>(rc, _). (rc, None)) (send_corrupt_crc wj ws)
         | SendRequest req \<Rightarrow>
             (case peer of
                None \<Rightarrow> Some (1, None)
              | Some peer \<Rightarrow>
                  map_option (\<lambda>(rc, rsp). if rc \<noteq> 0 then (1, None) else (0, Some (client_output req (the rsp))))
                    (transact wj rj ws rs req peer)))"

section \<open>Sessions\<close>

lemma read_fd_used:
  assumes "mlrt_packet_read_fd junk es True inp = Some (MLRT_PROTO_OK, pkt, rest, es')"
  shows "rd_chunks es + length rest \<le> rd_chunks es' + length inp \<and> set es' \<subseteq> set es"
proof -
  from assms obtain hdr inp1 es1 where
    r1: "read_all es MLRT_PROTO_HEADER_SIZE inp = Some (MLRT_PROTO_OK, hdr, inp1, es1)"
    by (auto simp: mlrt_packet_read_fd_def split: option.splits if_splits)
  define n where "n = unat (get_u16_be (drop 4 (write_at 0 hdr junk))) + MLRT_PROTO_CRC_SIZE"
  from assms r1 obtain got2 where r2: "read_all es1 n inp1 = Some (MLRT_PROTO_OK, got2, rest, es')"
    by (auto simp: mlrt_packet_read_fd_def Let_def n_def split: option.splits if_splits prod.splits)
  have a: "inp1 = drop MLRT_PROTO_HEADER_SIZE inp" "MLRT_PROTO_HEADER_SIZE \<le> length inp"
      "rd_chunks es \<le> rd_chunks es1 + MLRT_PROTO_HEADER_SIZE" "set es1 \<subseteq> set es"
    using proto_reader.rdall_ok [OF r1] by auto
  have b: "rest = drop n inp1" "n \<le> length inp1" "rd_chunks es1 \<le> rd_chunks es' + n" "set es' \<subseteq> set es1"
    using proto_reader.rdall_ok [OF r2] by auto
  show ?thesis using a b by auto
qed

lemma read_fd_eof:
  assumes "RdFail \<notin> set es" "0 < rd_chunks es"
  shows "\<exists>es'. mlrt_packet_read_fd junk es True [] = Some (MLRT_PROTO_EOF, None, [], es')"
  using proto_reader.rdall_short [of es "[]" MLRT_PROTO_HEADER_SIZE] assms
  by (auto simp: mlrt_packet_read_fd_def MLRT_PROTO_HEADER_SIZE_def)

text \<open>
  What the handler answers to a sequence of requests, with the steps of the threads in between, and
  the context at the end.
\<close>

fun answers ::
  "string \<Rightarrow> (nat \<Rightarrow> nat \<Rightarrow> u64) \<Rightarrow> (nat \<Rightarrow> mlrt_target_ctx \<Rightarrow> mlrt_target_ctx) \<Rightarrow> mlrt_packet list \<Rightarrow> mlrt_target_ctx \<Rightarrow>
     mlrt_packet list \<times> mlrt_target_ctx" where
  "answers arch nows threads [] t = ([], threads 0 t)"
| "answers arch nows threads (req # reqs) t =
     (case mlrt_target_handle_packet arch (nows 0) (Some (threads 0 t)) (Some (packet_canon req)) True of
        (_, rsp, t') \<Rightarrow>
          (case answers arch (\<lambda>i. nows (Suc i)) (\<lambda>i. threads (Suc i)) reqs (the t') of (rsps, t'') \<Rightarrow> (the rsp # rsps, t'')))"

definition request_ok :: "mlrt_packet \<Rightarrow> bool" where
  "request_ok req \<longleftrightarrow> packet_wf req \<and> (pkt_version req = 0 \<or> pkt_version req = MLRT_PROTO_VERSION)"

lemma frame_size: "packet_wf p \<Longrightarrow> length (frame_bytes p) \<le> MLRT_PROTO_MAX_FRAME"
  by (simp add: length_frame_bytes) (simp add: packet_wf_def proto_consts)

lemma serve_session:
  assumes "list_all request_ok reqs"
    and "length rj = MLRT_PROTO_MAX_FRAME" "length wj = MLRT_PROTO_MAX_FRAME"
    and "RdFail \<notin> set rs" "length (concat (map frame_bytes reqs)) < rd_chunks rs"
    and "wr_reliable ws" "length reqs * MLRT_PROTO_MAX_FRAME \<le> wr_chunks ws"
    and "answers arch nows threads reqs t = (rsps, t')"
  shows "serve_client arch rj wj nows threads epipe rs ws (concat (map frame_bytes reqs)) t =
    Some (Returned 0, t', concat (map frame_bytes rsps))"
  using assms(1,4-8)
proof (induction reqs arbitrary: nows threads rs ws t rsps)
  case Nil
  then obtain es' where "mlrt_packet_read_fd rj rs True [] = Some (MLRT_PROTO_EOF, None, [], es')"
    using read_fd_eof by auto
  with Nil show ?case by (subst serve_client.simps) (simp add: Let_def)
next
  case (Cons req reqs)
  let ?rest = "concat (map frame_bytes reqs)"
  have ok: "packet_wf req" "pkt_version req = 0 \<or> pkt_version req = MLRT_PROTO_VERSION"
    using Cons.prems(1) by (auto simp: request_ok_def)
  obtain rs1 where rd: "mlrt_packet_read_fd rj rs True (frame_bytes req @ ?rest) =
      Some (MLRT_PROTO_OK, Some (packet_canon req), ?rest, rs1)"
    using read_fd_frame [OF ok assms(2) Cons.prems(2), of ?rest] Cons.prems(3) by auto
  have rs1: "RdFail \<notin> set rs1" "length ?rest < rd_chunks rs1"
    using read_fd_used [OF rd] Cons.prems(2,3) by auto
  obtain rsp t1 where h: "mlrt_target_handle_packet arch (nows 0) (Some (threads 0 t)) (Some (packet_canon req)) True =
      (0, Some rsp, Some t1)" and good: "good_response (packet_canon req) rsp" using handle_good by blast
  have wf: "packet_wf rsp" using good by (simp add: good_response_def)
  obtain ws1 where w: "write_all ws (frame_bytes rsp) = Some (MLRT_PROTO_OK, frame_bytes rsp, ws1)"
    using proto_writer.wrall_complete [of ws "frame_bytes rsp"] Cons.prems(4,5) frame_size [OF wf] by auto
  have ws1: "wr_reliable ws1" "length reqs * MLRT_PROTO_MAX_FRAME \<le> wr_chunks ws1"
    using proto_writer.wrall_used [OF w] frame_size [OF wf] Cons.prems(4,5) by (auto simp: wr_reliable_def)
  obtain rsps1 where a: "answers arch (\<lambda>i. nows (Suc i)) (\<lambda>i. threads (Suc i)) reqs t1 = (rsps1, t')" "rsps = rsp # rsps1"
    using Cons.prems(6) h by (auto split: prod.splits)
  have "serve_client arch rj wj (\<lambda>i. nows (Suc i)) (\<lambda>i. threads (Suc i)) epipe rs1 ws1 ?rest t1 = Some (Returned 0, t', concat (map frame_bytes rsps1))"
    using Cons.prems(1) rs1 ws1 a by (intro Cons.IH) auto
  then show ?case
    using rd h w write_fd_encodes [OF wf assms(3), of ws] a by (subst serve_client.simps) (simp add: Let_def)
qed

section \<open>A corrupted frame\<close>

lemma decode_bad_crc:
  assumes "packet_wf p" "pkt_version p = 0 \<or> pkt_version p = MLRT_PROTO_VERSION" "c \<noteq> mlrt_crc32 (frame_head p)"
  shows "mlrt_packet_decode (Some (frame_head p @ put_u32_be c @ rest)) (14 + unat (pkt_length p)) True =
    (MLRT_PROTO_ECRC, None)"
proof -
  let ?n = "unat (pkt_length p)" and ?f = "frame_head p @ put_u32_be c @ rest"
  have hl: "length (frame_head p) = 10 + ?n" and n: "?n \<le> 512"
    using assms(1) length_frame_head [OF assms(1)] by (auto simp: packet_wf_def proto_consts)
  have "get_u16_be ?f = MLRT_PROTO_MAGIC" "?f ! 2 = MLRT_PROTO_VERSION" "get_u16_be (drop 4 ?f) = pkt_length p"
    using assms(2) by (auto simp: frame_head_def nth_append)
  moreover have "get_u32_be (drop (10 + ?n) ?f) = c" "take (10 + ?n) ?f = frame_head p" using hl by simp_all
  ultimately show ?thesis
    using n assms(3) unfolding mlrt_packet_decode_def Let_def option.case
    by (simp add: MLRT_PROTO_HEADER_SIZE_def MLRT_PROTO_CRC_SIZE_def MLRT_PROTO_MAX_PAYLOAD_def)
qed

lemma read_fd_bad_crc:
  assumes wf: "packet_wf p" and v: "pkt_version p = 0 \<or> pkt_version p = MLRT_PROTO_VERSION"
    and c: "c \<noteq> mlrt_crc32 (frame_head p)" and junk: "length junk = MLRT_PROTO_MAX_FRAME"
    and es: "RdFail \<notin> set es" "length (frame_bytes p) \<le> rd_chunks es"
  shows "\<exists>es'. mlrt_packet_read_fd junk es True (frame_head p @ put_u32_be c) =
    Some (MLRT_PROTO_ECRC, None, [], es')"
proof -
  let ?n = "unat (pkt_length p)"
  define f where f: "f = frame_head p @ put_u32_be c"
  have n: "?n \<le> 512" and len: "length f = 14 + ?n" "length (frame_bytes p) = 14 + ?n"
    using wf length_frame_bytes [OF wf] length_frame_head [OF wf] by (auto simp: packet_wf_def proto_consts f)
  obtain es1 where r1: "read_all es 10 f = Some (MLRT_PROTO_OK, take 10 f, drop 10 f, es1)"
    using proto_reader.rdall_complete [of es 10 f] es len by auto
  have es1: "rd_chunks es \<le> rd_chunks es1 + 10" "set es1 \<subseteq> set es"
    using proto_reader.rdall_ok [OF r1] by auto
  have "\<exists>es2. read_all es1 (?n + 4) (drop 10 f) =
      Some (MLRT_PROTO_OK, take (?n + 4) (drop 10 f), drop (?n + 4) (drop 10 f), es2)"
    using es es1 len by (intro proto_reader.rdall_complete) auto
  then obtain es2 where r2: "read_all es1 (?n + 4) (drop 10 f) = Some (MLRT_PROTO_OK, drop 10 f, [], es2)"
    using len by auto
  define frame where "frame = write_at 0 (take 10 f) junk"
  have frame: "frame = take 10 f @ drop 10 junk" using len by (simp add: frame_def write_at_def min_def)
  have hd: "get_u16_be frame = MLRT_PROTO_MAGIC" "frame ! 2 = MLRT_PROTO_VERSION"
      "get_u16_be (drop 4 frame) = pkt_length p"
    using v by (auto simp: frame f frame_head_def nth_append)
  have full: "write_at 10 (drop 10 f) frame = frame_head p @ put_u32_be c @ drop (length f) junk"
    using len junk n by (simp add: frame write_at_append min_def proto_consts) (simp add: f)
  show ?thesis
    unfolding f [symmetric]
    using n hd full decode_bad_crc [OF wf v c, of "drop (length f) junk"]
    by (simp add: mlrt_packet_read_fd_def r1 r2 Let_def MLRT_PROTO_HEADER_SIZE_def
        MLRT_PROTO_CRC_SIZE_def MLRT_PROTO_MAX_PAYLOAD_def add.assoc flip: frame_def)
qed

lemma corrupt_request_wf: "packet_wf corrupt_request"
  by (simp add: corrupt_request_def packet_wf_def proto_consts zero_packet_def)

lemma put_u32_be_flip: "(put_u32_be c)[3 := put_u32_be c ! 3 XOR 1] = put_u32_be (c XOR 1)"
  unfolding put_u32_be_def
  by (simp, intro conjI bit_word_eqI) (auto simp: bit_simps bit_1_iff)

lemma corrupt_frame_eq:
  assumes "length junk = MLRT_PROTO_MAX_FRAME"
  shows "corrupt_frame junk =
    Some (frame_head corrupt_request @ put_u32_be (mlrt_crc32 (frame_head corrupt_request) XOR 1))"
proof -
  let ?p = corrupt_request and ?c = "mlrt_crc32 (frame_head corrupt_request)"
  have z: "pkt_length ?p = 0" by (simp add: corrupt_request_def zero_packet_def)
  have hl: "length (frame_head ?p) = 10" "length (frame_bytes ?p) = 14"
    using length_frame_head [OF corrupt_request_wf] length_frame_bytes [OF corrupt_request_wf] z
    by (simp_all add: proto_consts)
  have enc: "mlrt_packet_encode (Some ?p) (Some junk) MLRT_PROTO_MAX_FRAME True =
      (MLRT_PROTO_OK, Some (write_at 0 (frame_bytes ?p) junk), Some 14)"
    using encode_ok [OF corrupt_request_wf, of MLRT_PROTO_MAX_FRAME junk] assms hl z by (simp add: proto_consts)
  have out: "write_at 0 (frame_bytes ?p) junk = frame_head ?p @ put_u32_be ?c @ drop 14 junk"
    using hl by (simp add: write_at_def frame_bytes_def)
  have "take 14 ((frame_head ?p @ put_u32_be ?c @ drop 14 junk)
        [13 := (frame_head ?p @ put_u32_be ?c @ drop 14 junk) ! 13 XOR 1]) =
      frame_head ?p @ (put_u32_be ?c)[3 := put_u32_be ?c ! 3 XOR 1]"
    using hl by (simp add: list_update_append nth_append)
  then show ?thesis using enc out unfolding corrupt_frame_def
    by (simp add: put_u32_be_flip)
qed

lemma xor_one_neq: "c XOR 1 \<noteq> c" for c :: u32
proof
  assume "c XOR 1 = c"
  then have "bit (c XOR 1) 0 = bit c 0" by simp
  then show False by (simp add: bit_simps)
qed

lemma write_next:
  "length xs = off \<Longrightarrow> length src \<le> m \<Longrightarrow>
    write_at off src (xs @ replicate m z) = (xs @ src) @ replicate (m - length src) z"
  by (simp add: write_at_append)

section \<open>Properties\<close>

text \<open>
  A session with the target: whatever valid requests the client has sent when it closes its
  end, and however the kernel splits the transfers, the server answers each of them in order
  with the response of the packet handler applied to the context the previous ones and the steps
  of the threads in between left, ends
  the session without error and keeps the final context.
\<close>

theorem target_session:
  assumes "list_all request_ok reqs"
    and "length rj = MLRT_PROTO_MAX_FRAME" "length wj = MLRT_PROTO_MAX_FRAME"
    and "RdFail \<notin> set rs" "length (concat (map frame_bytes reqs)) < rd_chunks rs"
    and "wr_reliable ws" "length reqs * MLRT_PROTO_MAX_FRAME \<le> wr_chunks ws"
  shows "serve_client arch rj wj nows threads epipe rs ws (concat (map frame_bytes reqs)) t =
    Some (Returned 0, snd (answers arch nows threads reqs t), concat (map frame_bytes (fst (answers arch nows threads reqs t))))"
  by (rule serve_session [OF assms]) simp

lemma base_request_ok: "request_ok (base_request\<lparr>pkt_type := ty\<rparr>)"
  by (simp add: request_ok_def base_request_def packet_wf_def proto_consts zero_packet_def)

theorem target_session_witness:
  "serve_client ''arm64'' (replicate 526 0) (replicate 526 0) (\<lambda>_ _. 5000000) (\<lambda>_ t. t) True (replicate 29 (RdChunk 0))
     (replicate 1052 (WrChunk 3))
     (concat (map frame_bytes [base_request\<lparr>pkt_type := 3\<rparr>, base_request\<lparr>pkt_type := 11\<rparr>])) sample_target =
   Some (Returned 0, snd (answers ''arm64'' (\<lambda>_ _. 5000000) (\<lambda>_ t. t) [base_request\<lparr>pkt_type := 3\<rparr>, base_request\<lparr>pkt_type := 11\<rparr>]
          sample_target),
     concat (map frame_bytes (fst (answers ''arm64'' (\<lambda>_ _. 5000000) (\<lambda>_ t. t)
       [base_request\<lparr>pkt_type := 3\<rparr>, base_request\<lparr>pkt_type := 11\<rparr>] sample_target))))"
proof -
  have l: "length (frame_bytes (base_request\<lparr>pkt_type := ty\<rparr>)) = 14" for ty
    using base_request_ok [of ty] length_frame_bytes
    by (simp add: request_ok_def) (simp add: base_request_def zero_packet_def proto_consts)
  show ?thesis
    by (rule target_session)
       (simp_all add: base_request_ok l proto_consts rd_chunks_def wr_chunks_def wr_reliable_def)
qed

text \<open>
  The fault injection of the client is counted: the frame that \<open>send_corrupt_crc\<close> sends makes
  the server end the session without a response, without error, and with the counter of
  checksum errors one higher; the server changes nothing else of the context.
\<close>

theorem corrupt_crc_counted:
  assumes "length wj = MLRT_PROTO_MAX_FRAME" "length rj = MLRT_PROTO_MAX_FRAME"
    and "wr_reliable ws" "14 \<le> wr_chunks ws" "RdFail \<notin> set rs" "14 \<le> rd_chunks rs"
  shows "\<exists>sent. send_corrupt_crc wj ws = Some (0, sent) \<and>
    serve_client arch rj wj2 nows threads epipe rs ws2 sent t = Some (Returned 0, (threads 0 t)\<lparr>tg_crc_errors := tg_crc_errors (threads 0 t) + 1\<rparr>, [])"
proof -
  let ?p = corrupt_request
  let ?f = "frame_head ?p @ put_u32_be (mlrt_crc32 (frame_head ?p) XOR 1)"
  have len: "length (frame_head ?p) = 10" "length (frame_bytes ?p) = 14"
    using length_frame_head [OF corrupt_request_wf] length_frame_bytes [OF corrupt_request_wf]
    by (simp_all add: corrupt_request_def zero_packet_def proto_consts)
  obtain ws' where "corrupt_write_loop ws ?f = Some (0, ?f, ws')"
    using corrupt_writer.wrall_complete [of ws ?f] assms(3,4) len by auto
  then have "send_corrupt_crc wj ws = Some (0, ?f)"
    by (simp add: send_corrupt_crc_def corrupt_frame_eq [OF assms(1)])
  moreover obtain rs' where "mlrt_packet_read_fd rj rs True ?f = Some (MLRT_PROTO_ECRC, None, [], rs')"
    using read_fd_bad_crc [OF corrupt_request_wf _ xor_one_neq assms(2,5)] assms(6) len
    by (auto simp: corrupt_request_def)
  then have "serve_client arch rj wj2 nows threads epipe rs ws2 ?f t = Some (Returned 0, (threads 0 t)\<lparr>tg_crc_errors := tg_crc_errors (threads 0 t) + 1\<rparr>, [])"
    by (subst serve_client.simps) (simp add: Let_def)
  ultimately show ?thesis by blast
qed

theorem corrupt_crc_counted_witness:
  "\<exists>sent. send_corrupt_crc (replicate 526 0) (replicate 14 (WrChunk 0)) = Some (0, sent) \<and>
    serve_client ''x86_64'' (replicate 526 1) [] (\<lambda>_ _. 0) (\<lambda>_ t. t) False (replicate 14 (RdChunk 5)) [] sent sample_target =
      Some (Returned 0, sample_target\<lparr>tg_crc_errors := tg_crc_errors sample_target + 1\<rparr>, [])"
  by (rule corrupt_crc_counted [where threads = "\<lambda>_ t. t", simplified])
     (simp_all add: proto_consts rd_chunks_def wr_chunks_def wr_reliable_def)

text \<open>
  Status round trip: what the client prints from a status response are the mode, the rate,
  and the counters of the context, each counter clamped to 32 bits.
\<close>

theorem status_report_accurate:
  assumes "tg_sample_rate_hz t \<le> 1000"
  shows "print_status (make_status now t req) = Some
    \<lparr>sr_state = mlrt_target_state_name (int (target_state_code (tg_state t))),
     sr_rate = ucast (tg_sample_rate_hz t),
     sr_uptime = clamp_u64_u32 ((now - tg_started_ns t) div 1000000),
     sr_produced = clamp_u64_u32 (tg_produced t), sr_processed = clamp_u64_u32 (tg_processed t),
     sr_dropped = clamp_u64_u32 (rb_dropped (tg_queue t)), sr_crc_errors = clamp_u64_u32 (tg_crc_errors t),
     sr_recoveries = clamp_u64_u32 (tg_watchdog_recoveries t)\<rparr>"
proof -
  define st where "st = (of_nat (target_state_code (tg_state t)) :: byte)"
  have st: "uint st = int (target_state_code (tg_state t))"
    unfolding st_def by (cases "tg_state t") simp_all
  have pay: "pkt_payload (make_status now t req) =
      st # put_u16_be (ucast (tg_sample_rate_hz t)) @
      put_u32_be (clamp_u64_u32 ((now - tg_started_ns t) div 1000000)) @
      put_u32_be (clamp_u64_u32 (tg_produced t)) @ put_u32_be (clamp_u64_u32 (tg_processed t)) @
      put_u32_be (clamp_u64_u32 (rb_dropped (tg_queue t))) @ put_u32_be (clamp_u64_u32 (tg_crc_errors t)) @
      put_u32_be (clamp_u64_u32 (tg_watchdog_recoveries t)) @ replicate 485 0"
  proof -
    have p0: "(replicate 512 0)[0 := st] = [st] @ replicate 511 0" by (simp add: numeral_eq_Suc)
    have "pkt_payload (make_status now t req) =
        (((((((([st] @ put_u16_be (ucast (tg_sample_rate_hz t))) @
        put_u32_be (clamp_u64_u32 ((now - tg_started_ns t) div 1000000))) @
        put_u32_be (clamp_u64_u32 (tg_produced t))) @ put_u32_be (clamp_u64_u32 (tg_processed t))) @
        put_u32_be (clamp_u64_u32 (rb_dropped (tg_queue t)))) @ put_u32_be (clamp_u64_u32 (tg_crc_errors t))) @
        put_u32_be (clamp_u64_u32 (tg_watchdog_recoveries t))) @ replicate 485 0)"
      by (simp add: make_status_def zero_packet_def MLRT_PROTO_MAX_PAYLOAD_def p0 write_next
          mlrt_ring_get_stats_def Let_def del: append_assoc append_Cons append_Nil flip: st_def)
    then show ?thesis by simp
  qed
  have "pkt_type (make_status now t req) = msg_code MLRT_MSG_STATUS_RSP" "pkt_length (make_status now t req) = 27"
    by (simp_all add: make_status_def Let_def)
  then show ?thesis by (simp add: print_status_def pay st)
qed

theorem status_report_accurate_witness:
  "\<exists>r. print_status (make_status 5000000 sample_target base_request) = Some r \<and> sr_state r = ''BOOT'' \<and> sr_rate r = 100"
  using status_report_accurate [of sample_target 5000000 base_request]
  by (simp add: sample_target_fields mlrt_target_state_name_def)

end
