(* ===== verification/Target_Server.thy ===== *)
theory Target_Server
  imports Target_Link
begin

text \<open>
  The server program of \<^verbatim>\<open>target/target_server.c\<close> around the session loop of \<open>Target_Link\<close>: creation of
  the listening socket, start of the target, the loop over accepted connections, and the exit that
  stops the target and removes the socket. The answers of the system are arguments; opening and
  closing of descriptors and changes of the file system are events of a log. A run ends with an exit
  code, or by SIGPIPE when a response is written to a connection the peer has closed.
\<close>

section \<open>The server\<close>

record connection =
  cn_input :: "byte list"
  cn_reads :: "rd_event list"
  cn_writes :: "wr_event list"
  cn_clock :: "nat \<Rightarrow> nat \<Rightarrow> u64"
  cn_threads :: "nat \<Rightarrow> mlrt_target_ctx \<Rightarrow> mlrt_target_ctx"
  cn_epipe :: bool

datatype accept_answer = AcceptConn int connection | AcceptIntr | AcceptFail

datatype ts_event = TsOpen int | TsClose int | TsBind string | TsUnlink string | TsBanner string string

text \<open>
  What \<open>accept4\<close> answers, each time with the stop flag as the loop reads it before the call. The
  result says whether the loop was left or the process ended in it.
\<close>

fun accept_loop ::
  "string \<Rightarrow> byte list \<Rightarrow> byte list \<Rightarrow> (bool \<times> accept_answer) list \<Rightarrow> mlrt_target_ctx \<Rightarrow>
     (bool \<times> mlrt_target_ctx \<times> byte list list \<times> ts_event list) option" where
  "accept_loop arch rj wj [] t = None"
| "accept_loop arch rj wj ((g_stop, a) # as) t =
     (if g_stop then Some (True, t, [], [])
      else
        (case a of
           AcceptIntr \<Rightarrow> accept_loop arch rj wj as t
         | AcceptFail \<Rightarrow> Some (True, t, [], [])
         | AcceptConn client c \<Rightarrow>
             (case serve_client arch rj wj (cn_clock c) (cn_threads c) (cn_epipe c) (cn_reads c) (cn_writes c) (cn_input c) t of
                None \<Rightarrow> None
              | Some (Sigpipe, t', out) \<Rightarrow> Some (False, t', [out], [TsOpen client])
              | Some (Returned rc, t', out) \<Rightarrow>
                  map_option (\<lambda>(left, t'', outs, lg). (left, t'', out # outs, [TsOpen client, TsClose client] @ lg))
                    (accept_loop arch rj wj as t'))))"

record ts_os =
  so_socket :: int
  so_bind :: bool
  so_listen :: bool
  so_pthread :: pthread_results
  so_create :: "bool \<times> bool \<times> bool"
  so_clock :: "nat \<Rightarrow> u64"
  so_uninit :: mlrt_target_ctx
  so_idle :: "mlrt_target_ctx \<Rightarrow> mlrt_target_ctx"

text \<open>
  \<open>so_idle\<close> is what the threads still do to the context behind the last session, until they are joined.
  \<open>mlrt_target_init\<close> and, if that succeeds, \<open>mlrt_target_start\<close>:
\<close>

definition start_target :: "ts_os \<Rightarrow> int \<times> mlrt_target_ctx option" where
  "start_target os =
     (case mlrt_target_init (so_pthread os) (so_clock os) (Some (so_uninit os)) 100 of
        (rc, ctx) \<Rightarrow> if rc \<noteq> 0 then (rc, ctx) else (case so_create os of (c1, c2, c3) \<Rightarrow> mlrt_target_start c1 c2 c3 ctx))"

definition run_server ::
  "string \<Rightarrow> byte list \<Rightarrow> byte list \<Rightarrow> ts_os \<Rightarrow> (bool \<times> accept_answer) list \<Rightarrow> string \<Rightarrow> bool \<Rightarrow>
     (session_end \<times> mlrt_target_ctx option \<times> byte list list \<times> ts_event list) option" where
  "run_server arch rj wj os accepts path quiet =
     (let fd = so_socket os
      in if fd < 0 then Some (Returned 1, None, [], [])
         else if length path \<ge> sun_path_size then Some (Returned 2, None, [], [TsOpen fd, TsClose fd])
         else if \<not> so_bind os then Some (Returned 1, None, [], [TsOpen fd, TsUnlink path, TsClose fd])
         else
           let up = [TsOpen fd, TsUnlink path, TsBind path];
               down = [TsClose fd, TsUnlink path]
           in if \<not> so_listen os then Some (Returned 1, None, [], up @ down)
              else
                (case start_target os of
                   (rc, ctx) \<Rightarrow>
                     if rc \<noteq> 0 then Some (Returned 1, ctx, [], up @ down)
                     else
                       let banner = (if quiet then [] else [TsBanner path (mlrt_target_state_name (int (target_state_code (tg_state (the ctx)))))])
                       in (case accept_loop arch rj wj accepts (the ctx) of
                             None \<Rightarrow> None
                           | Some (left, t, outs, lg) \<Rightarrow>
                               if left then Some (Returned 0, mlrt_target_stop (Some (so_idle os t)), outs, up @ banner @ lg @ down)
                               else Some (Sigpipe, Some t, outs, up @ banner @ lg))))"

section \<open>Self-test and command line\<close>

definition target_server_self_test ::
  "string \<Rightarrow> (nat \<Rightarrow> u64) \<Rightarrow> pthread_results \<Rightarrow> bool \<Rightarrow> bool \<Rightarrow> bool \<Rightarrow> mlrt_target_ctx \<Rightarrow> int" where
  "target_server_self_test arch nows os c1 c2 c3 uninit =
     (case mlrt_target_init os nows (Some uninit) 100 of
        (rc, ctx) \<Rightarrow>
          if rc \<noteq> 0 then 1
          else
            (case mlrt_target_start c1 c2 c3 ctx of
               (rc, ctx) \<Rightarrow>
                 if rc \<noteq> 0 then 1
                 else
                   (case mlrt_target_handle_packet arch nows ctx
                           (Some (zero_packet\<lparr>pkt_version := MLRT_PROTO_VERSION,
                                    pkt_type := msg_code MLRT_MSG_STATUS_REQ, pkt_seq := 7\<rparr>)) True of
                      (rc, rsp, ctx) \<Rightarrow>
                        if rc = 0 \<and> pkt_type (the rsp) = msg_code MLRT_MSG_STATUS_RSP \<and> pkt_length (the rsp) = 27
                        then 0 else 1)))"

datatype server_action = RunServer string bool | ServerSelfTest | ServerExit int

fun server_args :: "string list \<Rightarrow> string \<Rightarrow> bool \<Rightarrow> server_action" where
  "server_args [] path quiet = RunServer path quiet"
| "server_args (a # args) path quiet =
     (if a = ''--socket'' \<and> args \<noteq> [] then server_args (tl args) (hd args) quiet
      else if a = ''--quiet'' then server_args args path True
      else if a = ''--self-test'' then ServerSelfTest
      else if a = ''--help'' then ServerExit 0
      else ServerExit 2)"

definition target_server_cli_main ::
  "string \<Rightarrow> byte list \<Rightarrow> byte list \<Rightarrow> ts_os \<Rightarrow> (bool \<times> accept_answer) list \<Rightarrow> string list \<Rightarrow>
     (session_end \<times> mlrt_target_ctx option \<times> byte list list \<times> ts_event list) option" where
  "target_server_cli_main arch rj wj os accepts argv =
     (case server_args (drop 1 argv) DEFAULT_SOCKET False of
        ServerExit code \<Rightarrow> Some (Returned code, None, [], [])
      | ServerSelfTest \<Rightarrow>
          (case so_create os of (c1, c2, c3) \<Rightarrow>
             Some (Returned (target_server_self_test arch (so_clock os) (so_pthread os) c1 c2 c3 (so_uninit os)), None, [], []))
      | RunServer path quiet \<Rightarrow> run_server arch rj wj os accepts path quiet)"

section \<open>What a run leaves\<close>


text \<open>Whether a socket file of the server exists at a path after the events, given before.\<close>

fun socket_left :: "string \<Rightarrow> bool \<Rightarrow> ts_event list \<Rightarrow> bool" where
  "socket_left path b [] = b"
| "socket_left path b (TsBind p # es) = socket_left path (p = path \<or> b) es"
| "socket_left path b (TsUnlink p # es) = socket_left path (p \<noteq> path \<and> b) es"
| "socket_left path b (_ # es) = socket_left path b es"

lemma socket_left_append [simp]: "socket_left path b (xs @ ys) = socket_left path (socket_left path b xs) ys"
  by (induction path b xs rule: socket_left.induct) auto







section \<open>Sessions\<close>





lemma zero_payload_canon:
  assumes "pkt_version p = MLRT_PROTO_VERSION" "unat (pkt_length p) = length xs" "length xs \<le> MLRT_PROTO_MAX_PAYLOAD"
    and "pkt_payload p = xs @ replicate (MLRT_PROTO_MAX_PAYLOAD - length xs) 0"
  shows "request_ok p \<and> packet_canon p = p"
  using assms by (simp add: request_ok_def packet_wf_def packet_canon_def)

lemma client_request_ok:
  assumes "client_request argv = SendRequest req"
  shows "request_ok req \<and> packet_canon req = req"
proof -
  have b: "pkt_payload base_request = replicate MLRT_PROTO_MAX_PAYLOAD 0" "pkt_version base_request = MLRT_PROTO_VERSION"
      "pkt_length base_request = 0"
    by (simp_all add: base_request_def zero_packet_def)
  have w: "write_at 0 (put_u16_be r) (replicate MLRT_PROTO_MAX_PAYLOAD 0) = put_u16_be r @ replicate (MLRT_PROTO_MAX_PAYLOAD - 2) 0" for r
    by (simp add: write_at_def MLRT_PROTO_MAX_PAYLOAD_def)
  have o: "(replicate MLRT_PROTO_MAX_PAYLOAD 0)[0 := 1] = [1] @ replicate (MLRT_PROTO_MAX_PAYLOAD - 1) (0 :: byte)"
    by (simp add: MLRT_PROTO_MAX_PAYLOAD_def numeral_eq_Suc)
  have l: "2 \<le> MLRT_PROTO_MAX_PAYLOAD" by (simp add: MLRT_PROTO_MAX_PAYLOAD_def)
  from assms consider (plain) ty where "req = base_request\<lparr>pkt_type := ty\<rparr>"
    | (rate) ty r where "req = base_request\<lparr>pkt_type := ty, pkt_length := 2, pkt_payload := write_at 0 (put_u16_be r) (pkt_payload base_request)\<rparr>"
    | (fault) ty where "req = base_request\<lparr>pkt_type := ty, pkt_length := 1, pkt_payload := (pkt_payload base_request)[0 := 1]\<rparr>"
    unfolding client_request_def Let_def by (auto split: if_splits prod.splits)
  then show ?thesis
  proof cases
    case plain
    then show ?thesis by (intro zero_payload_canon [of _ "[]"]) (simp_all add: b)
  next
    case (rate ty r)
    then show ?thesis using l by (intro zero_payload_canon [of _ "put_u16_be r"]) (simp_all add: b w)
  next
    case fault
    then show ?thesis using l by (intro zero_payload_canon [of _ "[1]"]) (simp_all add: b o)
  qed
qed

section \<open>Properties\<close>



text \<open>
  C14. A client command against the server. When the command line stands for a request and no transfer
  fails, the client prints what the packet handler answers to exactly that request on the context of
  the server as its threads have left it, or returns 1 when that is an error message; the server keeps
  the context the handler leaves, and what the threads make of it.
\<close>

theorem client_command_answered:
  assumes "client_request argv = SendRequest req" "length (client_socket (drop 2 argv) DEFAULT_SOCKET) < sun_path_size"
    and "server (client_socket (drop 2 argv) DEFAULT_SOCKET) = Some peer"
    and "\<And>sent. peer sent = (case serve_client arch srj swj nows threads epipe srs sws sent t of None \<Rightarrow> [] | Some (rc, t', out) \<Rightarrow> out)"
    and "mlrt_target_handle_packet arch (nows 0) (Some (threads 0 t)) (Some req) True = (0, Some rsp, Some t')"
    and "length srj = MLRT_PROTO_MAX_FRAME" "length swj = MLRT_PROTO_MAX_FRAME" "length rj = MLRT_PROTO_MAX_FRAME" "length wj = MLRT_PROTO_MAX_FRAME"
    and "RdFail \<notin> set srs" "MLRT_PROTO_MAX_FRAME < rd_chunks srs" "wr_reliable sws" "MLRT_PROTO_MAX_FRAME \<le> wr_chunks sws"
    and "RdFail \<notin> set rs" "MLRT_PROTO_MAX_FRAME < rd_chunks rs" "wr_reliable ws" "MLRT_PROTO_MAX_FRAME \<le> wr_chunks ws"
  shows "target_client_cli_main wj rj ws rs server argv =
      Some (if pkt_type rsp = msg_code MLRT_MSG_ERROR then (1, None) else (0, Some (client_output req (packet_canon rsp)))) \<and>
    serve_client arch srj swj nows threads epipe srs sws (frame_bytes req) t = Some (Returned 0, threads 1 t', frame_bytes rsp)"
proof -
  have req: "request_ok req" "packet_canon req = req" using client_request_ok [OF assms(1)] by auto
  then have wf: "packet_wf req" by (simp add: request_ok_def)
  have rsp: "packet_wf rsp" "pkt_version rsp = MLRT_PROTO_VERSION"
    using handle_good [of arch "nows 0" "threads 0 t" req] assms(5) by (auto simp: good_response_def)
  have s: "serve_client arch srj swj nows threads epipe srs sws (frame_bytes req) t = Some (Returned 0, threads 1 t', frame_bytes rsp)"
    using serve_session [of "[req]" srj swj srs sws arch nows threads t "[rsp]" "threads 1 t'" epipe] assms(5-7,10-13) req frame_size [OF wf] by simp
  obtain ws' where w: "mlrt_packet_write_fd wj ws (Some req) = Some (MLRT_PROTO_OK, frame_bytes req, ws')"
    using write_fd_encodes [OF wf assms(9), of ws] proto_writer.wrall_complete [of ws "frame_bytes req"] assms(16,17) frame_size [OF wf] by auto
  obtain rs' where r: "mlrt_packet_read_fd rj rs True (frame_bytes rsp) = Some (MLRT_PROTO_OK, Some (packet_canon rsp), [], rs')"
    using read_fd_frame [OF rsp(1) disjI2 [OF rsp(2)] assms(8,14), of "[]"] assms(15) frame_size [OF rsp(1)] by auto
  have "transact wj rj ws rs req peer = Some (if pkt_type rsp = msg_code MLRT_MSG_ERROR then 1 else 0, Some (packet_canon rsp))"
    using w r s assms(4) by (simp add: transact_def packet_canon_def)
  with assms(1-3) s show ?thesis
    by (simp add: target_client_cli_main_def connect_target_def)
qed

theorem client_command_answered_witness:
  "let j = replicate 526 0; rs = replicate 527 (RdChunk 0); ws = replicate 526 (WrChunk 0);
       server = (\<lambda>_. Some (\<lambda>sent. case serve_client ''arm64'' j j (\<lambda>_ _. 9) (\<lambda>_ t. t) True rs ws sent sample_target of None \<Rightarrow> [] | Some (rc, t', out) \<Rightarrow> out))
   in target_client_cli_main j j ws rs server [''target'', ''set-rate'', ''50''] = Some (0, Some (ShowRate 50))"
proof -
  let ?j = "replicate 526 (0 :: byte)" and ?rs = "replicate 527 (RdChunk 0)" and ?ws = "replicate 526 (WrChunk 0)"
  let ?peer = "\<lambda>sent. case serve_client ''arm64'' ?j ?j (\<lambda>_ _. 9) (\<lambda>_ t. t) True ?rs ?ws sent sample_target of None \<Rightarrow> [] | Some (rc, t', out) \<Rightarrow> out"
  let ?req = "base_request\<lparr>pkt_type := msg_code MLRT_MSG_CONFIG_SET, pkt_length := 2, pkt_payload := write_at 0 (put_u16_be 50) (pkt_payload base_request)\<rparr>"
  let ?rsp = "(ack MLRT_MSG_CONFIG_ACK ?req)\<lparr>pkt_length := 2, pkt_payload := write_at 0 (put_u16_be 50) (pkt_payload zero_packet)\<rparr>"
  have "strtol10 ''50'' = (50, [])" by (simp add: strtol10_def c_isspace_def c_isdigit_def dec_value_def)
  then have q: "client_request [''target'', ''set-rate'', ''50''] = SendRequest ?req" by (simp add: client_request_def)
  have w: "write_at 0 (put_u16_be r) (replicate 512 0) = put_u16_be r @ replicate 510 0" for r by (simp add: write_at_def)
  have h: "mlrt_target_handle_packet ''arm64'' (\<lambda>_. 9) (Some sample_target) (Some ?req) True = (0, Some ?rsp, Some (sample_target\<lparr>tg_sample_rate_hz := 50\<rparr>))"
    by (simp add: mlrt_target_handle_packet_def base_request_def zero_packet_def MLRT_PROTO_MAX_PAYLOAD_def w)
  have o: "client_output ?req (packet_canon ?rsp) = ShowRate 50"
    by (simp add: client_output_def packet_canon_def ack_def zero_packet_def MLRT_PROTO_MAX_PAYLOAD_def w)
  show ?thesis
    unfolding Let_def
    using client_command_answered [OF q, of "\<lambda>_. Some ?peer" ?peer "''arm64''" ?j ?j "\<lambda>_ _. 9" "\<lambda>_ t. t" True ?rs ?ws sample_target ?rsp _ ?j ?j ?rs ?ws, OF _ _ _ h] o
    by (simp add: sun_path_size_def DEFAULT_SOCKET_def proto_consts rd_chunks_def wr_chunks_def wr_reliable_def ack_def)
qed

text \<open>The self-test succeeds whenever the target can be started.\<close>

lemma self_test_passes:
  assumes "mlrt_target_init os nows (Some uninit) 100 = (0, Some t)"
  shows "target_server_self_test arch nows os True True True uninit = 0"
  using assms
  by (simp add: target_server_self_test_def mlrt_target_start_def mlrt_target_handle_packet_def make_status_def zero_packet_def Let_def)

end
