(* ===== verification/Heap_Spec.thy ===== *)
theory Heap_Spec
  imports Prelude
begin

text \<open>
  The contract of a memory allocator as its callers rely on it. \<open>holds s L\<close>: the allocator is in the
  well-formed state \<open>s\<close> and \<open>L\<close> are the payloads in use, address and size. A request returns, and
  hands out a payload that overlaps none in use, or nothing; a release returns and takes exactly
  that payload out of use.
\<close>

locale heap_contract =
  fixes alloc :: "'env \<Rightarrow> nat \<Rightarrow> 's \<Rightarrow> (nat option \<times> 's) option"
    and release :: "nat option \<Rightarrow> 's \<Rightarrow> 's option"
    and holds :: "'s \<Rightarrow> (nat \<times> nat) set \<Rightarrow> bool"
    and env_ok :: "'env \<Rightarrow> 's \<Rightarrow> bool"
  assumes alloc_law: "\<lbrakk>holds s L; env_ok e s; 0 < n; n \<le> 2 ^ 63\<rbrakk> \<Longrightarrow>
      \<exists>r s'. alloc e n s = Some (r, s') \<and>
        (case r of
           None \<Rightarrow> holds s' L
         | Some p \<Rightarrow> \<exists>k\<ge>n. holds s' (insert (p, k) L) \<and> (\<forall>(q, j)\<in>L. p + k \<le> q \<or> q + j \<le> p))"
    and release_law: "\<lbrakk>holds s L; (p, k) \<in> L\<rbrakk> \<Longrightarrow> \<exists>s'. release (Some p) s = Some s' \<and> holds s' (L - {(p, k)})"
    and release_null: "release None s = Some s"
begin

lemma alloc_cases:
  assumes "holds s L" "env_ok e s" "0 < n" "n \<le> 2 ^ 63"
  obtains (null) s' where "alloc e n s = Some (None, s')" "holds s' L"
  | (payload) p k s' where "alloc e n s = Some (Some p, s')" "n \<le> k" "holds s' (insert (p, k) L)"
      "\<forall>(q, j)\<in>L. p + k \<le> q \<or> q + j \<le> p"
proof -
  obtain r s' where r: "alloc e n s = Some (r, s')" "case r of None \<Rightarrow> holds s' L
      | Some p \<Rightarrow> \<exists>k\<ge>n. holds s' (insert (p, k) L) \<and> (\<forall>(q, j)\<in>L. p + k \<le> q \<or> q + j \<le> p)"
    using alloc_law [OF assms] by blast
  then show thesis by (cases r) (auto intro: null payload)
qed

end

end
