(* ===== verification/Common.thy ===== *)
theory Common
  imports C_Strings
begin

text \<open>
  The helpers of \<^verbatim>\<open>common/common.c\<close>: rounding up in \<open>size_t\<close> arithmetic, with its wrap-around,
  number parsing through \<open>strtoull\<close> with base 0, and the allocation wrappers, which end the
  process instead of returning a null pointer.
\<close>

section \<open>Operations\<close>

text \<open>\<open>size_t\<close> arithmetic is modulo \<open>2 ^ 64\<close>.\<close>

definition wrap64 :: "nat \<Rightarrow> nat" where
  "wrap64 n = n mod 2 ^ 64"

definition mlrt_round_up :: "nat \<Rightarrow> nat \<Rightarrow> nat" where
  "mlrt_round_up v alignment =
     (if alignment = 0 then v
      else
        let r = v mod alignment
        in if r \<noteq> 0 then wrap64 (v + (alignment - r)) else v)"

text \<open>
  \<open>strtoull(s, &end, 0)\<close>: white space, a sign, then \<open>0x\<close> and hexadecimal digits, \<open>0\<close> and octal
  digits, or decimal digits. The result: value, text after the number, and whether \<open>errno\<close> was
  set because the value does not fit.
\<close>

definition digit_of :: "char \<Rightarrow> nat" where
  "digit_of c =
     (let n = of_char c :: nat
      in if 48 \<le> n \<and> n \<le> 57 then n - 48
         else if 97 \<le> n \<and> n \<le> 122 then n - 87
         else if 65 \<le> n \<and> n \<le> 90 then n - 55
         else 36)"

definition base_value :: "nat \<Rightarrow> string \<Rightarrow> nat" where
  "base_value base ds = foldl (\<lambda>n c. base * n + digit_of c) 0 ds"

definition strtoull0 :: "string \<Rightarrow> nat \<times> string \<times> bool" where
  "strtoull0 s =
     (let s1 = dropWhile c_isspace s;
          neg = (s1 \<noteq> [] \<and> hd s1 = CHR ''-'');
          s2 = (if s1 \<noteq> [] \<and> (hd s1 = CHR ''-'' \<or> hd s1 = CHR ''+'') then tl s1 else s1);
          hex = (length s2 \<ge> 3 \<and> s2 ! 0 = CHR ''0'' \<and> (s2 ! 1 = CHR ''x'' \<or> s2 ! 1 = CHR ''X'') \<and>
                 digit_of (s2 ! 2) < 16);
          base = (if hex then 16 else if s2 \<noteq> [] \<and> hd s2 = CHR ''0'' then 8 else 10);
          s3 = (if hex then drop 2 s2 else s2);
          ds = takeWhile (\<lambda>c. digit_of c < base) s3;
          n = base_value base ds
      in if ds = [] then (0, s, False)
         else if n \<ge> 2 ^ 64 then (2 ^ 64 - 1, dropWhile (\<lambda>c. digit_of c < base) s3, True)
         else (if neg then wrap64 (2 ^ 64 - n) else n, dropWhile (\<lambda>c. digit_of c < base) s3, False))"

text \<open>\<open>mlrt_parse_u64\<close>: \<open>None\<close> is the return value -1; \<open>out\<close> says that the result pointer is given.\<close>

definition mlrt_parse_u64 :: "string option \<Rightarrow> bool \<Rightarrow> nat option" where
  "mlrt_parse_u64 txt out =
     (case txt of
        None \<Rightarrow> None
      | Some s \<Rightarrow>
          if s = [] \<or> \<not> out then None
          else
            let (parsed, rest, range_error) = strtoull0 s
            in if range_error \<or> rest \<noteq> [] then None else Some parsed)"

text \<open>
  The message functions: the text that goes to the error output, where \<open>msg\<close> is the formatted
  message, if a format was given; \<open>mlrt_die\<close> also has the exit code.
\<close>

definition vmessage :: "string option \<Rightarrow> string option \<Rightarrow> string" where
  "vmessage prefix msg =
     (case prefix of None \<Rightarrow> [] | Some p \<Rightarrow> p) @ (case msg of None \<Rightarrow> ''(no message)'' | Some m \<Rightarrow> m) @ [CHR 0x0A]"

definition mlrt_die :: "string option \<Rightarrow> int \<times> string" where
  "mlrt_die msg = (1, vmessage (Some ''mlrt: error: '') msg)"

definition mlrt_warn :: "string option \<Rightarrow> string" where
  "mlrt_warn msg = vmessage (Some ''mlrt: warning: '') msg"

datatype 'a or_die = Die string | Ret 'a

definition mlrt_xmalloc :: "(nat \<Rightarrow> nat option) \<Rightarrow> nat \<Rightarrow> nat or_die" where
  "mlrt_xmalloc malloc_fn n =
     (case malloc_fn n of None \<Rightarrow> Die ''out of memory allocating'' | Some p \<Rightarrow> Ret p)"

definition mlrt_xcalloc :: "(nat \<Rightarrow> nat \<Rightarrow> nat option) \<Rightarrow> nat \<Rightarrow> nat \<Rightarrow> nat or_die" where
  "mlrt_xcalloc calloc_fn count n =
     (case calloc_fn count n of None \<Rightarrow> Die ''out of memory allocating'' | Some p \<Rightarrow> Ret p)"

definition mlrt_xstrdup :: "(string \<Rightarrow> string option) \<Rightarrow> string \<Rightarrow> string or_die" where
  "mlrt_xstrdup strdup_fn s =
     (case strdup_fn s of None \<Rightarrow> Die ''out of memory duplicating string'' | Some c \<Rightarrow> Ret c)"

section \<open>Rounding\<close>

lemma wrap64_id [simp]: "n < 2 ^ 64 \<Longrightarrow> wrap64 n = n"
  by (simp add: wrap64_def)

lemma round_up_exact:
  assumes "0 < a" "v + a \<le> 2 ^ 64"
  shows "mlrt_round_up v a = (v + a - 1) div a * a"
proof -
  obtain q r where v: "v = q * a + r" and r: "r < a"
    using assms(1) by (metis div_mult_mod_eq mod_less_divisor)
  have m: "v mod a = r" using v r by simp
  show ?thesis
  proof (cases "r = 0")
    case True
    then have "(v + a - 1) div a = q"
      using v assms(1) by (intro div_nat_eqI) (auto simp: algebra_simps)
    with True v m show ?thesis by (simp add: mlrt_round_up_def)
  next
    case False
    then have "(v + a - 1) div a = q + 1"
      using v r by (intro div_nat_eqI) (auto simp: algebra_simps)
    moreover have "v + (a - r) = (q + 1) * a" using v r by (simp add: algebra_simps)
    moreover have "v + (a - r) < 2 ^ 64" using assms(2) False r by linarith
    ultimately show ?thesis using False assms(1) m by (simp add: mlrt_round_up_def)
  qed
qed

text \<open>
  Rounding up inside the range of \<open>size_t\<close> gives the least multiple that is not smaller.
\<close>

lemma round_up_least:
  assumes "0 < a" "v + a \<le> 2 ^ 64"
  shows "v \<le> mlrt_round_up v a" "mlrt_round_up v a < v + a" "a dvd mlrt_round_up v a"
    "a dvd w \<Longrightarrow> v \<le> w \<Longrightarrow> mlrt_round_up v a \<le> w"
proof -
  let ?q = "(v + a - 1) div a"
  have e: "v + a - 1 = ?q * a + (v + a - 1) mod a" by simp
  have lt: "(v + a - 1) mod a < a" using assms(1) by simp
  show "v \<le> mlrt_round_up v a" "mlrt_round_up v a < v + a"
    unfolding round_up_exact [OF assms] using e lt assms(1) by linarith+
  show "a dvd mlrt_round_up v a" by (simp add: round_up_exact [OF assms])
  assume "a dvd w" "v \<le> w"
  then obtain k where k: "w = k * a" by (metis dvd_def mult.commute)
  have "v + a - 1 < (k + 1) * a" using \<open>v \<le> w\<close> k assms(1) by (simp add: algebra_simps)
  then have "?q < k + 1" using assms(1) by (simp add: less_mult_imp_div_less)
  then have "?q * a \<le> k * a" by simp
  then show "mlrt_round_up v a \<le> w" using k by (simp add: round_up_exact [OF assms])
qed

text \<open>A value within one alignment of the end of the range wraps to zero.\<close>

lemma round_up_wraps:
  assumes "a dvd 2 ^ 64" "2 ^ 64 - a < v" "v < 2 ^ 64"
  shows "mlrt_round_up v a = 0"
proof -
  obtain k where k: "2 ^ 64 = k * a" using assms(1) by (metis dvd_def mult.commute)
  have a: "0 < a" using k by (cases a) auto
  have k0: "0 < k" using k by (cases k) auto
  have "v div a = k - 1"
    using assms(2,3) k k0 by (intro div_nat_eqI) (auto simp: algebra_simps diff_mult_distrib)
  then have v: "v = (k - 1) * a + v mod a" by (metis div_mult_mod_eq)
  have "(k - 1) * a = 2 ^ 64 - a" using k by (simp add: diff_mult_distrib)
  moreover have "a \<le> 2 ^ 64" using assms(1) by (rule dvd_imp_le) simp
  ultimately have "v mod a \<noteq> 0" "v + (a - v mod a) = 2 ^ 64"
    using v assms(2,3) a mod_less_divisor [OF a, of v] by linarith+
  then show ?thesis using a by (simp add: mlrt_round_up_def wrap64_def)
qed

end
