(* ===== verification/Allocator.thy ===== *)
theory Allocator
  imports Heap_Spec Common "HOL-Library.Monad_Syntax"
begin

text \<open>
  The free-list allocator of \<^verbatim>\<open>allocator/allocator.c\<close>. The store maps the address of a block
  header to its contents; a read or write through a pointer at which no header was ever written
  is a fault, the result \<open>None\<close>, and so is a walk of the list that never ends. Every operation
  runs under the allocator's mutex, so operations of several threads are a sequence of the
  functions below. Payload bytes are not part of the store: headers are written as a whole,
  which is exact as long as headers do not overlap, and the invariant below shows that they
  never do for sizes up to \<open>2 ^ 63\<close>.
\<close>

section \<open>Data\<close>

definition ALIGNMENT :: nat where
  "ALIGNMENT = 16"

definition ARENA_MIN :: nat where
  "ARENA_MIN = 64 * 1024"

definition BLOCK_MAGIC :: u64 where
  "BLOCK_MAGIC = 0x4d4c5254424c4f43"

record block_header =
  bh_magic :: u64
  bh_size :: nat
  bh_free :: bool
  bh_prev :: "nat option"
  bh_next :: "nat option"

text \<open>\<open>sizeof(BlockHeader)\<close> on a machine with 64-bit pointers and a 32-bit \<open>int\<close>, padded to 8.\<close>

definition sizeof_BlockHeader :: nat where
  "sizeof_BlockHeader = 8 + 8 + (4 + 4) + 8 + 8"

record allocator =
  al_head :: "nat option"
  al_heap :: "nat \<rightharpoonup> block_header"
  al_mapped :: nat

definition allocator_init :: allocator where
  "allocator_init = \<lparr>al_head = None, al_heap = Map.empty, al_mapped = 0\<rparr>"

section \<open>Access to the store\<close>

definition load_block :: "nat \<Rightarrow> allocator \<Rightarrow> block_header option" where
  "load_block a s = al_heap s a"

definition store_block :: "nat \<Rightarrow> block_header \<Rightarrow> allocator \<Rightarrow> allocator" where
  "store_block a b s = s\<lparr>al_heap := (al_heap s)(a \<mapsto> b)\<rparr>"

definition modify_block :: "nat \<Rightarrow> (block_header \<Rightarrow> block_header) \<Rightarrow> allocator \<Rightarrow> allocator option" where
  "modify_block a f s =
     (case load_block a s of None \<Rightarrow> None | Some b \<Rightarrow> Some (store_block a (f b) s))"

text \<open>\<open>if (p) p->prev = q;\<close>\<close>

definition link_prev :: "nat option \<Rightarrow> nat \<Rightarrow> allocator \<Rightarrow> allocator option" where
  "link_prev p q s =
     (case p of None \<Rightarrow> Some s | Some n \<Rightarrow> modify_block n (\<lambda>b. b\<lparr>bh_prev := Some q\<rparr>) s)"

definition sub64 :: "nat \<Rightarrow> nat \<Rightarrow> nat" where
  "sub64 a b = wrap64 (a + 2 ^ 64 - b)"

section \<open>Operations\<close>

definition aligned_size :: "nat \<Rightarrow> nat" where
  "aligned_size n = mlrt_round_up n ALIGNMENT"

partial_function (option) insert_walk :: "(nat \<rightharpoonup> block_header) \<Rightarrow> nat \<Rightarrow> nat \<Rightarrow> nat option" where
  "insert_walk h block cur =
     do {
       c \<leftarrow> h cur;
       case bh_next c of
         None \<Rightarrow> Some cur
       | Some n \<Rightarrow> if n < block then insert_walk h block n else Some cur
     }"

definition insert_sorted :: "nat \<Rightarrow> allocator \<Rightarrow> allocator option" where
  "insert_sorted block s =
     (if (case al_head s of None \<Rightarrow> True | Some h0 \<Rightarrow> block < h0)
      then do {
        s1 \<leftarrow> modify_block block (\<lambda>b. b\<lparr>bh_next := al_head s, bh_prev := None\<rparr>) s;
        s2 \<leftarrow> link_prev (al_head s1) block s1;
        Some (s2\<lparr>al_head := Some block\<rparr>)
      }
      else do {
        cur \<leftarrow> insert_walk (al_heap s) block (the (al_head s));
        c \<leftarrow> load_block cur s;
        s1 \<leftarrow> modify_block block (\<lambda>b. b\<lparr>bh_next := bh_next c, bh_prev := Some cur\<rparr>) s;
        c1 \<leftarrow> load_block cur s1;
        s2 \<leftarrow> link_prev (bh_next c1) block s1;
        modify_block cur (\<lambda>b. b\<lparr>bh_next := Some block\<rparr>) s2
      })"

text \<open>
  \<open>page_long\<close> is the answer of \<open>sysconf(_SC_PAGESIZE)\<close> and \<open>mm\<close> the answer of \<open>mmap\<close> to a
  request of the given length, \<open>None\<close> for \<open>MAP_FAILED\<close>.
\<close>

definition page_size :: "int \<Rightarrow> nat" where
  "page_size page_long = (if page_long > 0 then nat page_long else 4096)"

definition arena_total :: "int \<Rightarrow> nat \<Rightarrow> nat" where
  "arena_total page_long minimum_payload =
     (let total = wrap64 (aligned_size sizeof_BlockHeader + minimum_payload);
          total1 = (if total < ARENA_MIN then ARENA_MIN else total)
      in mlrt_round_up total1 (page_size page_long))"

definition map_arena ::
    "int \<Rightarrow> (nat \<Rightarrow> nat option) \<Rightarrow> nat \<Rightarrow> allocator \<Rightarrow> (nat option \<times> allocator) option" where
  "map_arena page_long mm minimum_payload s =
     (let total = arena_total page_long minimum_payload
      in case mm total of
           None \<Rightarrow> Some (None, s)
         | Some block \<Rightarrow>
             do {
               s1 \<leftarrow> insert_sorted block
                 (store_block block
                   \<lparr>bh_magic = BLOCK_MAGIC, bh_size = sub64 total (aligned_size sizeof_BlockHeader),
                    bh_free = True, bh_prev = None, bh_next = None\<rparr>
                   (s\<lparr>al_mapped := wrap64 (al_mapped s + total)\<rparr>));
               Some (Some block, s1)
             })"

partial_function (option) find_fit :: "(nat \<rightharpoonup> block_header) \<Rightarrow> nat \<Rightarrow> nat option \<Rightarrow> nat option option" where
  "find_fit h n b =
     (case b of
        None \<Rightarrow> Some None
      | Some a \<Rightarrow>
          do {
            x \<leftarrow> h a;
            if bh_free x \<and> n \<le> bh_size x then Some (Some a) else find_fit h n (bh_next x)
          })"

definition split_block :: "nat \<Rightarrow> nat \<Rightarrow> allocator \<Rightarrow> allocator option" where
  "split_block block n s =
     (let header_size = aligned_size sizeof_BlockHeader
      in do {
           b \<leftarrow> load_block block s;
           if bh_size b < wrap64 (n + header_size + ALIGNMENT) then Some s
           else
             let tl = wrap64 (block + header_size + n);
                 s1 = store_block tl
                   \<lparr>bh_magic = BLOCK_MAGIC, bh_size = sub64 (sub64 (bh_size b) n) header_size,
                    bh_free = True, bh_prev = Some block, bh_next = bh_next b\<rparr> s
             in do {
                  s2 \<leftarrow> link_prev (bh_next b) tl s1;
                  modify_block block (\<lambda>c. c\<lparr>bh_next := Some tl, bh_size := n\<rparr>) s2
                }
         })"

definition adjacent :: "nat \<Rightarrow> nat \<Rightarrow> allocator \<Rightarrow> bool option" where
  "adjacent a b s =
     do {
       x \<leftarrow> load_block a s;
       Some (wrap64 (a + aligned_size sizeof_BlockHeader + bh_size x) = b)
     }"

definition coalesce_with_next :: "nat \<Rightarrow> allocator \<Rightarrow> allocator option" where
  "coalesce_with_next block s =
     do {
       b \<leftarrow> load_block block s;
       case bh_next b of
         None \<Rightarrow> Some s
       | Some nx \<Rightarrow>
           do {
             n \<leftarrow> load_block nx s;
             adj \<leftarrow> adjacent block nx s;
             if \<not> bh_free n \<or> \<not> adj then Some s
             else do {
               s1 \<leftarrow> modify_block block
                 (\<lambda>c. c\<lparr>bh_size := wrap64 (bh_size c + (aligned_size sizeof_BlockHeader + bh_size n)),
                        bh_next := bh_next n\<rparr>) s;
               link_prev (bh_next n) block s1
             }
           }
     }"

definition my_malloc ::
    "int \<Rightarrow> (nat \<Rightarrow> nat option) \<Rightarrow> nat \<Rightarrow> allocator \<Rightarrow> (nat option \<times> allocator) option" where
  "my_malloc page_long mm n s =
     (if n = 0 then Some (None, s)
      else
        let sz = aligned_size n
        in do {
             fit \<leftarrow> find_fit (al_heap s) sz (al_head s);
             (block, s1) \<leftarrow> (case fit of None \<Rightarrow> map_arena page_long mm sz s | Some b \<Rightarrow> Some (Some b, s));
             case block of
               None \<Rightarrow> Some (None, s1)
             | Some b \<Rightarrow>
                 do {
                   s2 \<leftarrow> split_block b sz s1;
                   s3 \<leftarrow> modify_block b (\<lambda>c. c\<lparr>bh_free := False\<rparr>) s2;
                   Some (Some (wrap64 (b + aligned_size sizeof_BlockHeader)), s3)
                 }
           })"

definition my_free :: "nat option \<Rightarrow> allocator \<Rightarrow> allocator option" where
  "my_free ptr s =
     (case ptr of
        None \<Rightarrow> Some s
      | Some p \<Rightarrow>
          let block = sub64 p (aligned_size sizeof_BlockHeader)
          in do {
               b \<leftarrow> load_block block s;
               if bh_magic b \<noteq> BLOCK_MAGIC then Some s
               else do {
                 s1 \<leftarrow> modify_block block (\<lambda>c. c\<lparr>bh_free := True\<rparr>) s;
                 s2 \<leftarrow> coalesce_with_next block s1;
                 b2 \<leftarrow> load_block block s2;
                 case bh_prev b2 of
                   None \<Rightarrow> Some s2
                 | Some pv \<Rightarrow>
                     do {
                       x \<leftarrow> load_block pv s2;
                       adj \<leftarrow> adjacent pv block s2;
                       if bh_free x \<and> adj then coalesce_with_next pv s2 else Some s2
                     }
               }
             })"

record MyAllocatorStats =
  st_mapped_bytes :: nat
  st_allocated_bytes :: nat
  st_free_bytes :: nat
  st_allocated_blocks :: nat
  st_free_blocks :: nat

partial_function (option) stats_loop ::
    "(nat \<rightharpoonup> block_header) \<Rightarrow> nat option \<Rightarrow> MyAllocatorStats \<Rightarrow> MyAllocatorStats option" where
  "stats_loop h b st =
     (case b of
        None \<Rightarrow> Some st
      | Some a \<Rightarrow>
          do {
            x \<leftarrow> h a;
            stats_loop h (bh_next x)
              (if bh_free x
               then st\<lparr>st_free_blocks := wrap64 (st_free_blocks st + 1),
                       st_free_bytes := wrap64 (st_free_bytes st + bh_size x)\<rparr>
               else st\<lparr>st_allocated_blocks := wrap64 (st_allocated_blocks st + 1),
                       st_allocated_bytes := wrap64 (st_allocated_bytes st + bh_size x)\<rparr>)
          })"

definition my_allocator_get_stats :: "allocator \<Rightarrow> MyAllocatorStats option" where
  "my_allocator_get_stats s =
     stats_loop (al_heap s) (al_head s)
       \<lparr>st_mapped_bytes = al_mapped s, st_allocated_bytes = 0, st_free_bytes = 0,
        st_allocated_blocks = 0, st_free_blocks = 0\<rparr>"

section \<open>The block list in the store\<close>

text \<open>
  The abstract view of the arena: the blocks in address order, each with its address, payload
  size and whether it is free. \<open>seg h pv xs nx\<close> says that the store holds exactly the headers of
  \<open>xs\<close>, linked in both directions, entered from \<open>pv\<close> and left to \<open>nx\<close>.
\<close>

datatype blk = Blk (ba: nat) (bs: nat) (bf: bool)

definition hdr :: "blk \<Rightarrow> nat option \<Rightarrow> nat option \<Rightarrow> block_header" where
  "hdr x pv nx = \<lparr>bh_magic = BLOCK_MAGIC, bh_size = bs x, bh_free = bf x, bh_prev = pv, bh_next = nx\<rparr>"

fun first_ptr :: "blk list \<Rightarrow> nat option \<Rightarrow> nat option" where
  "first_ptr [] nx = nx"
| "first_ptr (x # xs) nx = Some (ba x)"

definition last_ptr :: "nat option \<Rightarrow> blk list \<Rightarrow> nat option" where
  "last_ptr pv xs = (if xs = [] then pv else Some (ba (last xs)))"

fun seg :: "(nat \<rightharpoonup> block_header) \<Rightarrow> nat option \<Rightarrow> blk list \<Rightarrow> nat option \<Rightarrow> bool" where
  "seg h pv [] nx \<longleftrightarrow> True"
| "seg h pv (x # xs) nx \<longleftrightarrow> h (ba x) = Some (hdr x pv (first_ptr xs nx)) \<and> seg h (Some (ba x)) xs nx"

definition rep :: "allocator \<Rightarrow> blk list \<Rightarrow> bool" where
  "rep s xs \<longleftrightarrow> al_head s = first_ptr xs None \<and> seg (al_heap s) None xs None"

definition bend :: "blk \<Rightarrow> nat" where
  "bend x = ba x + 48 + bs x"

definition wf_blk :: "blk \<Rightarrow> bool" where
  "wf_blk x \<longleftrightarrow> 0 < ba x \<and> 16 dvd ba x \<and> 16 dvd bs x \<and> bend x < 2 ^ 64"

definition wf_blocks :: "blk list \<Rightarrow> bool" where
  "wf_blocks xs \<longleftrightarrow> list_all wf_blk xs \<and> sorted_wrt (\<lambda>x y. bend x \<le> ba y) xs"

definition arena_bytes :: "blk list \<Rightarrow> nat" where
  "arena_bytes xs = (\<Sum>x\<leftarrow>xs. 48 + bs x)"

text \<open>The invariant of the allocator, between the store and the block list it represents.\<close>

definition alloc_inv :: "allocator \<Rightarrow> blk list \<Rightarrow> bool" where
  "alloc_inv s xs \<longleftrightarrow> rep s xs \<and> wf_blocks xs \<and> al_mapped s = arena_bytes xs"

lemma hdr_sel [simp]:
  "bh_magic (hdr x pv nx) = BLOCK_MAGIC" "bh_size (hdr x pv nx) = bs x" "bh_free (hdr x pv nx) = bf x"
  "bh_prev (hdr x pv nx) = pv" "bh_next (hdr x pv nx) = nx"
  by (simp_all add: hdr_def)

lemma hdr_upd [simp]:
  "(hdr x pv nx)\<lparr>bh_prev := pv'\<rparr> = hdr x pv' nx"
  "(hdr x pv nx)\<lparr>bh_next := nx'\<rparr> = hdr x pv nx'"
  "(hdr x pv nx)\<lparr>bh_size := n\<rparr> = hdr (Blk (ba x) n (bf x)) pv nx"
  "(hdr x pv nx)\<lparr>bh_free := f\<rparr> = hdr (Blk (ba x) (bs x) f) pv nx"
  by (simp_all add: hdr_def)

lemma hdr_fold:
  "\<lparr>bh_magic = BLOCK_MAGIC, bh_size = n, bh_free = f, bh_prev = pv, bh_next = nx\<rparr> = hdr (Blk a n f) pv nx"
  by (simp add: hdr_def)

lemma header_size [simp]: "aligned_size sizeof_BlockHeader = 48"
  by (simp add: aligned_size_def sizeof_BlockHeader_def ALIGNMENT_def mlrt_round_up_def)

lemma sub64_id [simp]:
  assumes "b \<le> a" "a < 2 ^ 64"
  shows "sub64 a b = a - b"
proof -
  have e: "a + 2 ^ 64 - b = (a - b) + 2 ^ 64" using assms(1) by simp
  have "a - b < 2 ^ 64" using assms(2) by simp
  then show ?thesis by (simp only: sub64_def wrap64_def e mod_add_self2 mod_less)
qed

lemma first_ptr_append [simp]: "first_ptr (xs @ ys) nx = first_ptr xs (first_ptr ys nx)"
  by (cases xs) auto

lemma last_ptr_simps [simp]:
  "last_ptr pv [] = pv" "last_ptr pv (xs @ [x]) = Some (ba x)" "last_ptr (Some (ba x)) xs = last_ptr pv (x # xs)"
  by (simp_all add: last_ptr_def)

lemma seg_append [simp]:
  "seg h pv (xs @ ys) nx \<longleftrightarrow> seg h pv xs (first_ptr ys nx) \<and> seg h (last_ptr pv xs) ys nx"
  by (induction xs arbitrary: pv) (auto simp: last_ptr_def)

lemma seg_frame [simp]: "a \<notin> ba ` set xs \<Longrightarrow> seg (h(a \<mapsto> v)) pv xs nx = seg h pv xs nx"
  by (induction xs arbitrary: pv) auto

lemma load_store [simp]: "load_block a (store_block a b s) = Some b"
  by (simp add: load_block_def store_block_def)

lemma load_store_other [simp]: "a \<noteq> c \<Longrightarrow> load_block a (store_block c b s) = load_block a s"
  by (simp add: load_block_def store_block_def)

lemma store_sel [simp]:
  "al_heap (store_block a b s) = (al_heap s)(a \<mapsto> b)" "al_head (store_block a b s) = al_head s"
  "al_mapped (store_block a b s) = al_mapped s"
  by (simp_all add: store_block_def)

text \<open>What the list order gives: addresses are distinct and blocks do not overlap.\<close>

lemma wf_blocks_Cons [simp]:
  "wf_blocks (x # xs) \<longleftrightarrow> wf_blk x \<and> (\<forall>y\<in>set xs. bend x \<le> ba y) \<and> wf_blocks xs"
  by (auto simp: wf_blocks_def)

lemma wf_blocks_Nil [simp]: "wf_blocks []"
  by (simp add: wf_blocks_def)

lemma wf_blocks_append [simp]:
  "wf_blocks (xs @ ys) \<longleftrightarrow> wf_blocks xs \<and> wf_blocks ys \<and> (\<forall>x\<in>set xs. \<forall>y\<in>set ys. bend x \<le> ba y)"
  by (auto simp: wf_blocks_def sorted_wrt_append)

lemma wf_addr_lt: "wf_blocks (us @ x # vs) \<Longrightarrow> y \<in> set us \<Longrightarrow> ba y < ba x"
  "wf_blocks (us @ x # vs) \<Longrightarrow> y \<in> set vs \<Longrightarrow> ba x < ba y"
  by (auto simp: bend_def)

lemma wf_addr_notin:
  assumes "wf_blocks (us @ x # vs)"
  shows "ba x \<notin> ba ` set us" "ba x \<notin> ba ` set vs"
  using wf_addr_lt [OF assms] by (metis imageE less_irrefl)+

lemma arena_bytes_simps [simp]:
  "arena_bytes [] = 0" "arena_bytes (x # xs) = 48 + bs x + arena_bytes xs"
  "arena_bytes (xs @ ys) = arena_bytes xs + arena_bytes ys"
  by (simp_all add: arena_bytes_def)

lemma arena_bytes_bound:
  "wf_blocks xs \<Longrightarrow> \<forall>x\<in>set xs. lo \<le> ba x \<Longrightarrow> xs \<noteq> [] \<Longrightarrow> lo + arena_bytes xs < 2 ^ 64"
proof (induction xs arbitrary: lo)
  case (Cons x xs)
  show ?case
  proof (cases "xs = []")
    case True
    then show ?thesis using Cons.prems by (simp add: wf_blk_def bend_def)
  next
    case False
    then have "bend x + arena_bytes xs < 2 ^ 64" using Cons by simp
    then show ?thesis using Cons.prems by (simp add: bend_def)
  qed
qed simp

section \<open>Each operation on the block list\<close>

lemma find_fit_rep:
  "seg h pv xs None \<Longrightarrow> find_fit h n (first_ptr xs None) = Some (map_option ba (find (\<lambda>x. bf x \<and> n \<le> bs x) xs))"
proof (induction xs arbitrary: pv)
  case Nil
  show ?case by (subst find_fit.simps) simp
next
  case (Cons x xs)
  then show ?case using Cons.IH [of "Some (ba x)"] by (subst find_fit.simps) simp
qed

lemma insert_walk_rep:
  "seg h pv (x # xs) None \<Longrightarrow>
    insert_walk h b (ba x) = Some (ba (last (x # takeWhile (\<lambda>y. ba y < b) xs)))"
proof (induction xs arbitrary: pv x)
  case Nil
  then show ?case by (subst insert_walk.simps) simp
next
  case (Cons y xs)
  then show ?case by (subst insert_walk.simps) simp
qed

definition ins_blk :: "blk \<Rightarrow> blk list \<Rightarrow> blk list" where
  "ins_blk x xs = takeWhile (\<lambda>y. ba y < ba x) xs @ x # dropWhile (\<lambda>y. ba y < ba x) xs"

text \<open>Linking a block behind the last block of a prefix, or in front of all blocks.\<close>

lemma link_prev_seg:
  assumes "seg (al_heap s) pv vs None" "distinct (map ba vs)"
  obtains s' where "link_prev (first_ptr vs None) q s = Some s'"
    "seg (al_heap s') (Some q) vs None" "al_head s' = al_head s" "al_mapped s' = al_mapped s"
    "\<forall>a. a \<notin> ba ` set vs \<longrightarrow> al_heap s' a = al_heap s a"
proof (cases vs)
  case Nil
  then show ?thesis using that [of s] by (simp add: link_prev_def)
next
  case (Cons v vs')
  then show ?thesis
    using assms that [of "store_block (ba v) (hdr v (Some q) (first_ptr vs' None)) s"]
    by (simp add: link_prev_def modify_block_def load_block_def)
qed

lemma seg_cong: "(\<And>a. a \<in> ba ` set xs \<Longrightarrow> h a = h' a) \<Longrightarrow> seg h pv xs nx = seg h' pv xs nx"
  by (induction xs arbitrary: pv) auto

lemma frame_prefix:
  assumes "\<forall>a. a \<notin> A \<longrightarrow> h' a = (h(b \<mapsto> v)) a" "b \<notin> U" "U \<inter> A = {}"
  shows "\<forall>a\<in>U. h' a = h a"
proof
  fix a assume "a \<in> U"
  with assms(2,3) have "a \<notin> A" "a \<noteq> b" by blast+
  with assms(1) show "h' a = h a" by simp
qed

lemma wf_distinct: "wf_blocks xs \<Longrightarrow> distinct (map ba xs)"
  by (induction xs) (auto simp: bend_def)

lemma insert_front_rep:
  assumes r: "rep s vs" and w: "wf_blocks vs" and x: "ba x \<notin> ba ` set vs"
    and h: "al_heap s (ba x) = Some (hdr x pv nx)"
    and below: "case first_ptr vs None of None \<Rightarrow> True | Some h0 \<Rightarrow> ba x < h0"
  obtains s' where "insert_sorted (ba x) s = Some s'" "rep s' (x # vs)" "al_mapped s' = al_mapped s"
proof -
  let ?s1 = "store_block (ba x) (hdr x None (first_ptr vs None)) s"
  have hd: "al_head s = first_ptr vs None" and sg: "seg (al_heap ?s1) None vs None"
    using r x by (simp_all add: rep_def)
  obtain s2 where s2: "link_prev (first_ptr vs None) (ba x) ?s1 = Some s2"
    "seg (al_heap s2) (Some (ba x)) vs None" "al_mapped s2 = al_mapped ?s1"
    "\<forall>a. a \<notin> ba ` set vs \<longrightarrow> al_heap s2 a = al_heap ?s1 a"
    by (rule link_prev_seg [where q = "ba x", OF sg wf_distinct [OF w]]) blast
  show ?thesis
  proof (rule that [of "s2\<lparr>al_head := Some (ba x)\<rparr>"])
    show "insert_sorted (ba x) s = Some (s2\<lparr>al_head := Some (ba x)\<rparr>)"
      using below h hd s2(1) by (simp add: insert_sorted_def modify_block_def load_block_def)
    show "rep (s2\<lparr>al_head := Some (ba x)\<rparr>) (x # vs)"
      using s2(2) s2(4) x by (simp add: rep_def)
  qed (simp add: s2(3))
qed

lemma insert_behind_rep:
  assumes r: "rep s (us @ c # vs)" and w: "wf_blocks (us @ c # vs)" and x: "ba x \<notin> ba ` set (us @ c # vs)"
    and h: "al_heap s (ba x) = Some (hdr x pv nx)"
    and hd: "al_head s = Some u" "\<not> ba x < u" and walk: "insert_walk (al_heap s) (ba x) u = Some (ba c)"
  obtains s' where "insert_sorted (ba x) s = Some s'" "rep s' (us @ c # x # vs)" "al_mapped s' = al_mapped s"
proof -
  let ?s1 = "store_block (ba x) (hdr x (Some (ba c)) (first_ptr vs None)) s"
  have ne: "ba c \<noteq> ba x" "ba c \<notin> ba ` set vs" "ba c \<notin> ba ` set us" "distinct (map ba vs)"
    "ba x \<notin> ba ` set vs" "ba ` set us \<inter> ba ` set vs = {}" "ba x \<notin> ba ` set us"
    using x wf_distinct [OF w] by auto
  have sg: "seg (al_heap ?s1) (Some (ba c)) vs None"
    and hc: "al_heap s (ba c) = Some (hdr c (last_ptr None us) (first_ptr vs None))"
    and su: "seg (al_heap s) None us (Some (ba c))"
    using r ne by (simp_all add: rep_def)
  obtain s2 where s2: "link_prev (first_ptr vs None) (ba x) ?s1 = Some s2"
    "seg (al_heap s2) (Some (ba x)) vs None" "al_head s2 = al_head ?s1" "al_mapped s2 = al_mapped ?s1"
    "\<forall>a. a \<notin> ba ` set vs \<longrightarrow> al_heap s2 a = al_heap ?s1 a"
    by (rule link_prev_seg [where q = "ba x", OF sg ne(4)]) blast
  let ?s3 = "store_block (ba c) (hdr c (last_ptr None us) (Some (ba x))) s2"
  have c2: "al_heap s2 (ba c) = Some (hdr c (last_ptr None us) (first_ptr vs None))"
    using s2(5) ne hc by simp
  have fr: "\<forall>a\<in>ba ` set us. al_heap s2 a = al_heap s a"
    using s2(5) ne by (intro frame_prefix [where b = "ba x"]) simp_all
  have "seg (al_heap s2) None us (Some (ba c)) = seg (al_heap s) None us (Some (ba c))"
    using fr by (intro seg_cong) blast
  then have su2: "seg (al_heap s2) None us (Some (ba c))" using su by simp
  show ?thesis
  proof (rule that [of ?s3])
    show "insert_sorted (ba x) s = Some ?s3"
      using hd walk h hc ne s2(1) c2
      by (simp add: insert_sorted_def modify_block_def load_block_def)
    have "first_ptr (us @ c # x # vs) None = al_head s" using r by (cases us) (simp_all add: rep_def)
    then show "rep ?s3 (us @ c # x # vs)"
      using su2 ne s2(2,3) s2(5) by (auto simp: rep_def)
  qed (simp add: s2(4))
qed

text \<open>A header that is not yet linked is put at its place in the address order.\<close>

lemma insert_sorted_rep:
  assumes r: "rep s xs" and w: "wf_blocks xs" and x: "ba x \<notin> ba ` set xs"
    and h: "al_heap s (ba x) = Some (hdr x pv nx)"
  obtains s' where "insert_sorted (ba x) s = Some s'" "rep s' (ins_blk x xs)" "al_mapped s' = al_mapped s"
proof -
  define us vs where "us = takeWhile (\<lambda>y. ba y < ba x) xs" and "vs = dropWhile (\<lambda>y. ba y < ba x) xs"
  have xs: "xs = us @ vs" and ins: "ins_blk x xs = us @ x # vs" by (simp_all add: us_def vs_def ins_blk_def)
  have lt: "ba y < ba x" if "y \<in> set us" for y using that us_def set_takeWhileD by fast
  show ?thesis
  proof (cases us rule: rev_cases)
    case Nil
    have "case first_ptr vs None of None \<Rightarrow> True | Some h0 \<Rightarrow> ba x < h0"
    proof (cases vs)
      case (Cons v vs')
      then have "\<not> ba v < ba x" using hd_dropWhile [of "\<lambda>y. ba y < ba x" xs] by (simp add: vs_def)
      with Cons x xs show ?thesis by auto
    qed simp
    then show ?thesis using insert_front_rep [of s vs x pv nx] r w x h xs Nil ins that by auto
  next
    case (snoc us' c)
    obtain u ur where u: "us = u # ur" by (cases us) (use snoc in auto)
    have tw: "takeWhile (\<lambda>y. ba y < ba x) (ur @ vs) = ur"
      using us_def xs u by (simp split: if_splits)
    have "seg (al_heap s) None (u # (ur @ vs)) None" using r xs u by (simp add: rep_def)
    from insert_walk_rep [OF this, of "ba x"] tw u snoc
    have walk: "insert_walk (al_heap s) (ba x) (ba u) = Some (ba c)" by (metis last_snoc)
    have hd: "al_head s = Some (ba u)" "\<not> ba x < ba u"
      using r xs u lt [of u] by (simp_all add: rep_def)
    show ?thesis
      using insert_behind_rep [of s us' c vs x pv nx "ba u"] r w x h hd walk xs snoc ins that by auto
  qed
qed

lemma ins_blk_split:
  assumes "wf_blocks xs" "\<forall>y\<in>set xs. bend y \<le> ba x \<or> bend x \<le> ba y" "wf_blk x"
  obtains us vs where "xs = us @ vs" "ins_blk x xs = us @ x # vs" "wf_blocks (us @ x # vs)"
proof
  let ?us = "takeWhile (\<lambda>y. ba y < ba x) xs" and ?vs = "dropWhile (\<lambda>y. ba y < ba x) xs"
  show "xs = ?us @ ?vs" "ins_blk x xs = ?us @ x # ?vs" by (simp_all add: ins_blk_def)
  have w: "wf_blocks ?us" "wf_blocks ?vs" "\<forall>y\<in>set ?us. \<forall>z\<in>set ?vs. bend y \<le> ba z"
    using assms(1) wf_blocks_append [of ?us ?vs] by simp_all
  have up: "bend y \<le> ba x" if "y \<in> set ?us" for y
    using set_takeWhileD [OF that] assms(2) by (auto simp: bend_def)
  have dn: "bend x \<le> ba z" if z: "z \<in> set ?vs" for z
  proof (cases ?vs)
    case (Cons v vs')
    then have "\<not> ba v < ba x" using hd_dropWhile [of "\<lambda>y. ba y < ba x" xs] by simp
    moreover have "ba v \<le> ba z" using z Cons w(2) by (auto simp: bend_def)
    moreover have "z \<in> set xs" using z by (rule set_dropWhileD)
    ultimately show ?thesis using assms(2) by (auto simp: bend_def)
  next
    case Nil
    then show ?thesis using z by (metis empty_iff list.set(1))
  qed
  show "wf_blocks (?us @ x # ?vs)" using w assms(3) up dn by simp
qed

text \<open>A field update of one header replaces that block of the list.\<close>

lemma modify_rep:
  assumes r: "rep s (us @ c # vs)" and w: "wf_blocks (us @ c # vs)"
    and f: "\<And>pv nx. f (hdr c pv nx) = hdr d pv nx" and d: "ba d = ba c"
  obtains s' where "modify_block (ba c) f s = Some s'" "rep s' (us @ d # vs)" "al_mapped s' = al_mapped s"
proof
  let ?s = "store_block (ba c) (hdr d (last_ptr None us) (first_ptr vs None)) s"
  show "modify_block (ba c) f s = Some ?s"
    using r by (simp add: modify_block_def load_block_def rep_def f)
  show "rep ?s (us @ d # vs)" using r wf_addr_notin [OF w] by (simp add: rep_def d)
qed simp

lemma load_rep:
  "rep s (us @ c # vs) \<Longrightarrow> load_block (ba c) s = Some (hdr c (last_ptr None us) (first_ptr vs None))"
  by (simp add: rep_def load_block_def)

text \<open>
  Changing a block and the link behind it: the store afterwards holds the prefix, the changed
  block and the blocks behind it.
\<close>

lemma relink_rep:
  assumes sg: "seg h None us (Some (ba c))" "seg h pv vs None"
    and h: "h' (ba c) = Some (hdr d (last_ptr None us) nx)" "\<forall>a\<in>ba ` set us. h' a = h a"
    and b: "ba d = ba c" and hd: "al_head s = first_ptr (us @ c # vs) None" and s: "al_heap s = h'"
    and ms: "seg h' (Some (ba c)) ms None" "nx = first_ptr ms None"
  shows "rep s (us @ d # ms)"
proof -
  have "seg h' None us (Some (ba c))" using sg(1) seg_cong [of us h' h None "Some (ba c)"] h(2) by simp
  moreover have "al_head s = first_ptr (us @ d # ms) None" using hd b by (cases us) simp_all
  ultimately show ?thesis using h(1) b s ms by (simp add: rep_def)
qed

definition split_blk :: "nat \<Rightarrow> blk \<Rightarrow> blk list" where
  "split_blk n c =
     (if bs c < n + 64 then [c]
      else [Blk (ba c) n (bf c), Blk (ba c + 48 + n) (bs c - n - 48) True])"

lemma split_block_rep:
  assumes r: "rep s (us @ c # vs)" and w: "wf_blocks (us @ c # vs)" and n: "n \<le> bs c"
  obtains s' where "split_block (ba c) n s = Some s'" "rep s' (us @ split_blk n c @ vs)"
    "al_mapped s' = al_mapped s"
proof -
  have lc: "load_block (ba c) s = Some (hdr c (last_ptr None us) (first_ptr vs None))" by (rule load_rep [OF r])
  have cb: "0 < ba c" "16 dvd ba c" "ba c + 48 + bs c < 2 ^ 64" using w by (simp_all add: wf_blk_def bend_def)
  then have "16 \<le> ba c" by (auto dest: dvd_imp_le)
  then have n64: "n + 64 < 2 ^ 64" using cb(3) n by simp
  show ?thesis
  proof (cases "bs c < n + 64")
    case True
    then have "split_block (ba c) n s = Some s"
      using lc n64 by (simp add: split_block_def ALIGNMENT_def)
    with True r that show ?thesis by (simp add: split_blk_def)
  next
    case False
    define t where "t = Blk (ba c + 48 + n) (bs c - n - 48) True"
    let ?s1 = "store_block (ba t) (hdr t (Some (ba c)) (first_ptr vs None)) s"
    have bt: "ba t = wrap64 (ba c + 48 + n)" "bs t = sub64 (sub64 (bs c) n) 48" "bf t"
      using cb n False by (simp_all add: t_def)
    then have te: "Blk (wrap64 (ba c + 48 + n)) (sub64 (sub64 (bs c) n) 48) True = t" by (cases t) simp
    have tn: "ba t \<notin> ba ` set us" "ba t \<notin> ba ` set vs" "ba t \<noteq> ba c"
      using w False by (auto simp: t_def bend_def)
    have cn: "ba c \<notin> ba ` set vs" "ba c \<notin> ba ` set us" using wf_addr_notin [OF w] by simp_all
    have dv: "distinct (map ba vs)" "ba ` set us \<inter> ba ` set vs = {}" using wf_distinct [OF w] by auto
    have sg: "seg (al_heap s) None us (Some (ba c))" "seg (al_heap s) (Some (ba c)) vs None"
      using r by (simp_all add: rep_def)
    then have sg1: "seg (al_heap ?s1) (Some (ba c)) vs None" using tn by simp
    obtain s2 where s2: "link_prev (first_ptr vs None) (ba t) ?s1 = Some s2"
      "seg (al_heap s2) (Some (ba t)) vs None" "al_head s2 = al_head ?s1" "al_mapped s2 = al_mapped ?s1"
      "\<forall>a. a \<notin> ba ` set vs \<longrightarrow> al_heap s2 a = al_heap ?s1 a"
      by (rule link_prev_seg [where q = "ba t", OF sg1 dv(1)]) blast
    let ?d = "Blk (ba c) n (bf c)"
    let ?s3 = "store_block (ba c) (hdr ?d (last_ptr None us) (Some (ba t))) s2"
    show ?thesis
    proof (rule that [of ?s3])
      have "load_block (ba c) s2 = Some (hdr c (last_ptr None us) (first_ptr vs None))"
        using s2(5) cn tn lc by (simp add: load_block_def)
      then show "split_block (ba c) n s = Some ?s3"
        using lc n64 False bt(1) te s2(1)
        by (simp add: split_block_def ALIGNMENT_def modify_block_def hdr_fold [of _ _ _ _ "ba t"] Let_def)
      have "rep ?s3 (us @ ?d # t # vs)"
      proof (rule relink_rep [OF sg])
        have "\<forall>a\<in>ba ` set us. al_heap s2 a = al_heap s a"
          using s2(5) tn dv(2) by (intro frame_prefix [where b = "ba t"]) simp_all
        then show "\<forall>a\<in>ba ` set us. al_heap ?s3 a = al_heap s a"
          using cn(2) by (metis fun_upd_other store_sel(1))
        show "seg (al_heap ?s3) (Some (ba c)) (t # vs) None" using s2 tn cn by simp
      qed (use s2 tn cn r in \<open>auto simp: rep_def\<close>)
      then show "rep ?s3 (us @ split_blk n c @ vs)" using False by (simp add: split_blk_def t_def)
    qed (simp add: s2(4))
  qed
qed

text \<open>Merging a block with the next one, and freeing.\<close>

fun coal_blk :: "blk \<Rightarrow> blk list \<Rightarrow> blk list" where
  "coal_blk c [] = [c]"
| "coal_blk c (v # vs) =
     (if bf v \<and> bend c = ba v then Blk (ba c) (bs c + 48 + bs v) (bf c) # vs else c # v # vs)"

lemma coalesce_rep:
  assumes r: "rep s (us @ c # vs)" and w: "wf_blocks (us @ c # vs)"
  obtains s' where "coalesce_with_next (ba c) s = Some s'" "rep s' (us @ coal_blk c vs)"
    "al_mapped s' = al_mapped s"
proof (cases vs)
  case Nil
  then show ?thesis using that [of s] r load_rep [OF r] by (simp add: coalesce_with_next_def)
next
  case (Cons v ws)
  have lc: "load_block (ba c) s = Some (hdr c (last_ptr None us) (Some (ba v)))"
    using load_rep [OF r] Cons by simp
  have lv: "load_block (ba v) s = Some (hdr v (Some (ba c)) (first_ptr ws None))"
    using r Cons by (simp add: rep_def load_block_def)
  have adj: "adjacent (ba c) (ba v) s = Some (bend c = ba v)"
    using lc w by (simp add: adjacent_def bend_def wf_blk_def)
  show ?thesis
  proof (cases "bf v \<and> bend c = ba v")
    case False
    then have "coalesce_with_next (ba c) s = Some s"
      using lc lv adj by (auto simp: coalesce_with_next_def)
    with False that [of s] r Cons show ?thesis by auto
  next
    case True
    let ?d = "Blk (ba c) (bs c + 48 + bs v) (bf c)"
    let ?s1 = "store_block (ba c) (hdr ?d (last_ptr None us) (first_ptr ws None)) s"
    have sz: "wrap64 (bs c + (48 + bs v)) = bs c + 48 + bs v"
      using w True Cons by (simp add: wf_blk_def bend_def)
    have sg: "seg (al_heap s) None us (Some (ba c))" "seg (al_heap s) (Some (ba c)) vs None"
      using r by (simp_all add: rep_def)
    have cn: "ba c \<notin> ba ` set ws" "ba c \<notin> ba ` set us" using wf_addr_notin [OF w] Cons by simp_all
    have dv: "distinct (map ba ws)" "ba ` set us \<inter> ba ` set ws = {}" using wf_distinct [OF w] Cons by auto
    have sg1: "seg (al_heap ?s1) (Some (ba v)) ws None" using sg(2) Cons cn by simp
    obtain s2 where s2: "link_prev (first_ptr ws None) (ba c) ?s1 = Some s2"
      "seg (al_heap s2) (Some (ba c)) ws None" "al_head s2 = al_head ?s1" "al_mapped s2 = al_mapped ?s1"
      "\<forall>a. a \<notin> ba ` set ws \<longrightarrow> al_heap s2 a = al_heap ?s1 a"
      by (rule link_prev_seg [where q = "ba c", OF sg1 dv(1)]) blast
    show ?thesis
    proof (rule that [of s2])
      show "coalesce_with_next (ba c) s = Some s2"
        using lc lv adj True s2(1) sz by (simp add: coalesce_with_next_def modify_block_def)
      have "rep s2 (us @ ?d # ws)"
      proof (rule relink_rep [OF sg])
        show "\<forall>a\<in>ba ` set us. al_heap s2 a = al_heap s a"
          using s2(5) cn dv(2) by (intro frame_prefix [where b = "ba c"]) simp_all
      qed (use s2 cn r in \<open>auto simp: rep_def\<close>)
      then show "rep s2 (us @ coal_blk c vs)" using True Cons by simp
    qed (simp add: s2(4))
  qed
qed

lemma coal_wf:
  "wf_blocks (us @ c # vs) \<Longrightarrow> wf_blocks (us @ coal_blk c vs)"
  by (cases vs) (auto simp: wf_blk_def bend_def)

lemma coal_hd: "\<exists>d ws. coal_blk c vs = d # ws \<and> ba d = ba c \<and> bf d = bf c"
  by (cases vs) auto

lemma coal_bytes [simp]: "arena_bytes (coal_blk c vs) = arena_bytes (c # vs)"
  by (cases vs) auto

definition free_blk :: "blk list \<Rightarrow> blk \<Rightarrow> blk list \<Rightarrow> blk list" where
  "free_blk us c vs =
     (let ws = coal_blk (Blk (ba c) (bs c) True) vs
      in if us \<noteq> [] \<and> bf (last us) \<and> bend (last us) = ba c then butlast us @ coal_blk (last us) ws
         else us @ ws)"

lemma my_free_rep:
  assumes r: "rep s (us @ c # vs)" and w: "wf_blocks (us @ c # vs)"
  obtains s' where "my_free (Some (ba c + 48)) s = Some s'" "rep s' (free_blk us c vs)"
    "wf_blocks (free_blk us c vs)" "al_mapped s' = al_mapped s"
proof -
  let ?c = "Blk (ba c) (bs c) True" and ?ws = "coal_blk (Blk (ba c) (bs c) True) vs"
  have cb: "ba c + 48 < 2 ^ 64" using w by (simp add: wf_blk_def bend_def)
  have w1: "wf_blocks (us @ ?c # vs)" using w by (simp add: wf_blk_def bend_def)
  obtain s1 where s1: "modify_block (ba c) (\<lambda>x. x\<lparr>bh_free := True\<rparr>) s = Some s1" "rep s1 (us @ ?c # vs)"
    "al_mapped s1 = al_mapped s"
    by (rule modify_rep [OF r w, where f = "\<lambda>x. x\<lparr>bh_free := True\<rparr>" and d = ?c]) auto
  obtain s2 where s2: "coalesce_with_next (ba c) s1 = Some s2" "rep s2 (us @ ?ws)" "al_mapped s2 = al_mapped s1"
    using coalesce_rep [OF s1(2) w1] by auto
  note w2 = coal_wf [OF w1]
  obtain d ds where d: "?ws = d # ds" "ba d = ba c" using coal_hd [of ?c vs] by auto
  have ld: "load_block (ba c) s2 = Some (hdr d (last_ptr None us) (first_ptr ds None))"
    using load_rep [of s2 us d ds] s2(2) d by simp
  have fr: "my_free (Some (ba c + 48)) s =
      (case last_ptr None us of None \<Rightarrow> Some s2
       | Some pv \<Rightarrow> do { x \<leftarrow> load_block pv s2; adj \<leftarrow> adjacent pv (ba c) s2;
                        if bh_free x \<and> adj then coalesce_with_next pv s2 else Some s2 })"
    using load_rep [OF r] cb s1(1) s2(1) ld by (simp add: my_free_def)
  show ?thesis
  proof (cases us rule: rev_cases)
    case Nil
    then show ?thesis using that [of s2] fr s2 s1(3) w2 by (simp add: free_blk_def)
  next
    case (snoc us' p)
    have r2: "rep s2 (us' @ p # ?ws)" and w3: "wf_blocks (us' @ p # ?ws)" using s2(2) w2 snoc by simp_all
    have lp: "load_block (ba p) s2 = Some (hdr p (last_ptr None us') (first_ptr ?ws None))" by (rule load_rep [OF r2])
    have adj: "adjacent (ba p) (ba c) s2 = Some (bend p = ba c)"
      using lp w snoc by (simp add: adjacent_def bend_def wf_blk_def)
    obtain s3 where "coalesce_with_next (ba p) s2 = Some s3" "rep s3 (us' @ coal_blk p ?ws)" "al_mapped s3 = al_mapped s2"
      using coalesce_rep [OF r2 w3] by auto
    then show ?thesis
      using that [of s2] that [of s3] fr lp adj snoc s2 s1(3) w2 coal_wf [OF w3]
      by (cases "bf p \<and> bend p = ba c") (auto simp: free_blk_def)
  qed
qed

section \<open>What the client sees\<close>

text \<open>The payloads in use: address and size of every block that is not free.\<close>

definition live :: "blk list \<Rightarrow> (nat \<times> nat) set" where
  "live xs = (\<lambda>x. (ba x + 48, bs x)) ` {x \<in> set xs. \<not> bf x}"

text \<open>No two neighbours are both free and touch each other.\<close>

definition coalesced :: "blk list \<Rightarrow> bool" where
  "coalesced xs \<longleftrightarrow> successively (\<lambda>x y. \<not> (bf x \<and> bf y \<and> bend x = ba y)) xs"

lemma live_simps [simp]:
  "live [] = {}"
  "live (x # xs) = (if bf x then live xs else insert (ba x + 48, bs x) (live xs))"
  "live (xs @ ys) = live xs \<union> live ys"
  by (auto simp: live_def)

lemma live_bound: "wf_blocks (us @ x # vs) \<Longrightarrow> (ba x + 48, n) \<notin> live us \<union> live vs"
  by (auto simp: live_def bend_def)

lemma live_apart:
  assumes "wf_blocks (us @ x # vs)" "(q, k) \<in> live us \<union> live vs"
  shows "q + k \<le> ba x \<or> bend x \<le> q"
  using assms by (auto simp: live_def bend_def)

lemma coal_live [simp]: "bf c \<Longrightarrow> live (coal_blk c vs) = live vs"
  by (cases vs) auto

lemma free_live:
  assumes "wf_blocks (us @ c # vs)"
  shows "live (free_blk us c vs) = live us \<union> live vs"
proof (cases us rule: rev_cases)
  case (snoc us' p)
  then show ?thesis by (auto simp: free_blk_def Let_def)
qed (simp add: free_blk_def)

lemma free_bytes: "arena_bytes (free_blk us c vs) = arena_bytes (us @ c # vs)"
  by (cases us rule: rev_cases) (simp_all add: free_blk_def Let_def)

lemma split_wf:
  assumes "wf_blocks (us @ c # vs)" "16 dvd n" "n \<le> bs c"
  shows "wf_blocks (us @ split_blk n c @ vs)"
proof -
  have "16 dvd bs c - n - 48" if "n + 64 \<le> bs c"
    using assms that by (auto simp: wf_blk_def intro!: dvd_diff_nat)
  moreover have "16 dvd ba c + 48 + n" using assms by (auto simp: wf_blk_def intro!: dvd_add)
  ultimately show ?thesis using assms by (auto simp: split_blk_def wf_blk_def bend_def)
qed

lemma split_bytes: "n \<le> bs c \<Longrightarrow> arena_bytes (split_blk n c) = arena_bytes [c]"
  by (simp add: split_blk_def)

text \<open>The block handed out: the split block marked as used.\<close>

definition take_blk :: "nat \<Rightarrow> blk \<Rightarrow> blk list" where
  "take_blk n c =
     (case split_blk n c of [] \<Rightarrow> [] | d # ds \<Rightarrow> Blk (ba d) (bs d) False # ds)"

lemma take_blk_cases:
  assumes "n \<le> bs c"
  obtains d ds where "split_blk n c = d # ds" "take_blk n c = Blk (ba c) (bs d) False # ds" "ba d = ba c"
    "n \<le> bs d" "list_all bf ds"
proof (cases "bs c < n + 64")
  case True
  then show ?thesis using assms by (intro that [of c "[]"]) (simp_all add: split_blk_def take_blk_def)
next
  case False
  then show ?thesis
    by (intro that [of "Blk (ba c) n (bf c)" "[Blk (ba c + 48 + n) (bs c - n - 48) True]"])
       (simp_all add: split_blk_def take_blk_def)
qed

lemma malloc_block_rep:
  assumes r: "rep s (us @ c # vs)" and w: "wf_blocks (us @ c # vs)" and n: "n \<le> bs c" "16 dvd n"
  obtains s2 s3 where "split_block (ba c) n s = Some s2"
    "modify_block (ba c) (\<lambda>x. x\<lparr>bh_free := False\<rparr>) s2 = Some s3"
    "rep s3 (us @ take_blk n c @ vs)" "wf_blocks (us @ take_blk n c @ vs)"
    "al_mapped s3 = al_mapped s"
proof -
  obtain s2 where s2: "split_block (ba c) n s = Some s2" "rep s2 (us @ split_blk n c @ vs)"
    "al_mapped s2 = al_mapped s"
    using split_block_rep [OF r w n(1)] by blast
  obtain d ds where d: "split_blk n c = d # ds" "take_blk n c = Blk (ba c) (bs d) False # ds" "ba d = ba c"
    using take_blk_cases [OF n(1)] by metis
  have w2: "wf_blocks (us @ d # ds @ vs)" using split_wf [OF w n(2,1)] d by simp
  obtain s3 where "modify_block (ba d) (\<lambda>x. x\<lparr>bh_free := False\<rparr>) s2 = Some s3"
    "rep s3 (us @ Blk (ba d) (bs d) False # ds @ vs)" "al_mapped s3 = al_mapped s2"
    by (rule modify_rep [of s2 us d "ds @ vs" "\<lambda>x. x\<lparr>bh_free := False\<rparr>" "Blk (ba d) (bs d) False"])
       (use s2 w2 d in auto)
  moreover have "wf_blocks (us @ take_blk n c @ vs)" using w2 d by (auto simp: wf_blk_def bend_def)
  ultimately show ?thesis using that s2 d by simp
qed

text \<open>
  What the allocator relies on: the page size is a multiple of 16 of a sensible magnitude, and
  \<open>mmap\<close> answers with a page-aligned region that overlaps no block of an earlier arena.
\<close>

definition page_ok :: "int \<Rightarrow> bool" where
  "page_ok page_long \<longleftrightarrow> 16 dvd page_size page_long \<and> page_size page_long \<le> 2 ^ 32"

definition mmap_fresh :: "int \<Rightarrow> (nat \<Rightarrow> nat option) \<Rightarrow> blk list \<Rightarrow> bool" where
  "mmap_fresh page_long mm xs \<longleftrightarrow>
     (\<forall>len p. mm len = Some p \<longrightarrow>
        0 < p \<and> page_size page_long dvd p \<and> p + len < 2 ^ 64 \<and>
        (\<forall>x\<in>set xs. p + len \<le> ba x \<or> bend x \<le> p))"

lemma page_size_pos [simp]: "0 < page_size page_long"
  by (simp add: page_size_def)

lemma aligned_size_ok:
  assumes "n \<le> 2 ^ 63"
  shows "n \<le> aligned_size n" "aligned_size n < n + 16" "16 dvd aligned_size n"
  using assms round_up_least [of 16 n] by (simp_all add: aligned_size_def ALIGNMENT_def)

lemma arena_total_ok:
  assumes "page_ok page_long" "n < 2 ^ 63 + 16"
  shows "n + 48 \<le> arena_total page_long n" "16 dvd arena_total page_long n" "ARENA_MIN \<le> arena_total page_long n"
proof -
  let ?pg = "page_size page_long"
  define t where "t = (if n + 48 < ARENA_MIN then ARENA_MIN else n + 48)"
  have tot: "arena_total page_long n = mlrt_round_up t ?pg"
    using assms(2) by (simp add: arena_total_def t_def Let_def add.commute)
  have "t + ?pg \<le> 2 ^ 64" using assms by (simp add: t_def page_ok_def ARENA_MIN_def)
  note ru = round_up_least [OF page_size_pos this]
  show "n + 48 \<le> arena_total page_long n" "ARENA_MIN \<le> arena_total page_long n"
    using ru(1) tot by (auto simp: t_def split: if_splits)
  show "16 dvd arena_total page_long n"
    using ru(3) tot assms(1) by (auto simp: page_ok_def intro: dvd_trans)
qed

lemma map_arena_rep:
  assumes inv: "alloc_inv s xs" and pg: "page_ok page_long" and mm: "mmap_fresh page_long mm xs"
    and n: "n < 2 ^ 63 + 16" and p: "mm (arena_total page_long n) = Some p"
  obtains s' us c vs where "map_arena page_long mm n s = Some (Some p, s')"
    "xs = us @ vs" "rep s' (us @ c # vs)" "wf_blocks (us @ c # vs)" "al_mapped s' = arena_bytes (us @ c # vs)"
    "ba c = p" "bf c" "n \<le> bs c"
proof -
  let ?t = "arena_total page_long n"
  define c where "c = Blk p (?t - 48) True"
  note t = arena_total_ok [OF pg n]
  have ph: "0 < p" "page_size page_long dvd p" "p + ?t < 2 ^ 64" "\<forall>x\<in>set xs. p + ?t \<le> ba x \<or> bend x \<le> p"
    using mm p by (simp_all add: mmap_fresh_def)
  have c: "ba c = p" "bf c" "n \<le> bs c" "bend c = p + ?t" using t(1) by (simp_all add: c_def bend_def)
  have "16 dvd p" using ph(2) pg by (auto simp: page_ok_def intro: dvd_trans)
  moreover have "16 dvd ?t - 48" by (rule dvd_diff_nat [OF t(2)]) simp
  ultimately have wc: "wf_blk c" using ph c by (simp add: wf_blk_def c_def)
  have apart: "\<forall>y\<in>set xs. bend y \<le> ba c \<or> bend c \<le> ba y" using ph(4) c by auto
  have w: "wf_blocks xs" and r: "rep s xs" and m: "al_mapped s = arena_bytes xs" using inv by (simp_all add: alloc_inv_def)
  obtain us vs where uv: "xs = us @ vs" "ins_blk c xs = us @ c # vs" "wf_blocks (us @ c # vs)"
    by (rule ins_blk_split [OF w apart wc])
  have cn: "ba c \<notin> ba ` set xs" using apart wc by (auto simp: bend_def)
  let ?s1 = "store_block p (hdr c None None) (s\<lparr>al_mapped := wrap64 (al_mapped s + ?t)\<rparr>)"
  have r1: "rep ?s1 xs" using r cn c by (simp add: rep_def)
  obtain s' where s': "insert_sorted (ba c) ?s1 = Some s'" "rep s' (ins_blk c xs)" "al_mapped s' = al_mapped ?s1"
    using insert_sorted_rep [OF r1 w cn, of None None] c by auto
  have "arena_bytes (us @ c # vs) < 2 ^ 64" using arena_bytes_bound [OF uv(3), of 0] by simp
  moreover have "arena_bytes (us @ c # vs) = al_mapped s + ?t" using uv(1) m t(1) by (simp add: c_def)
  ultimately have "al_mapped s' = arena_bytes (us @ c # vs)" using s'(3) by simp
  moreover have "sub64 ?t 48 = ?t - 48" using ph(3) t(1) by simp
  then have "map_arena page_long mm n s = Some (Some p, s')"
    using p s'(1) c by (simp add: map_arena_def Let_def hdr_fold [of _ _ _ _ p] flip: c_def)
  ultimately show ?thesis using that [of s' us vs c] uv s'(2) c by simp
qed

lemma take_live:
  assumes "wf_blocks (us @ c # vs)" "bf c" "n \<le> bs c"
  shows "\<exists>k\<ge>n. live (us @ take_blk n c @ vs) = insert (ba c + 48, k) (live (us @ c # vs)) \<and>
    (\<forall>(q, j)\<in>live (us @ c # vs). ba c + 48 + k \<le> q \<or> q + j \<le> ba c)"
proof -
  obtain d ds where d: "split_blk n c = d # ds" "take_blk n c = Blk (ba c) (bs d) False # ds" "n \<le> bs d" "list_all bf ds"
    using take_blk_cases [OF assms(3)] by metis
  have "live ds = {}" using d(4) by (auto simp: live_def list_all_iff)
  then have "live (us @ take_blk n c @ vs) = insert (ba c + 48, bs d) (live (us @ c # vs))" using d(2) assms(2) by simp
  moreover have "bs d \<le> bs c" using d(1) assms(3) by (auto simp: split_blk_def split: if_splits)
  then have "\<forall>(q, j)\<in>live (us @ c # vs). ba c + 48 + bs d \<le> q \<or> q + j \<le> ba c"
    using live_apart [OF assms(1)] assms(2) by (fastforce simp: bend_def)
  ultimately show ?thesis using d(3) by blast
qed

lemma take_bytes: "n \<le> bs c \<Longrightarrow> arena_bytes (take_blk n c) = arena_bytes [c]"
  using split_bytes [of n c] by (auto simp: take_blk_def split: list.splits)

text \<open>
  Handing out a free block \<open>c\<close> of the list, whether the search found it or a new arena: \<open>s0\<close> is
  the state at the call, \<open>s\<close> the state in which the block was chosen.
\<close>

lemma malloc_from_block:
  assumes r: "rep s (us @ c # vs)" and w: "wf_blocks (us @ c # vs)" and m: "al_mapped s = arena_bytes (us @ c # vs)"
    and c: "bf c" "aligned_size n \<le> bs c" and n: "0 < n" "n \<le> 2 ^ 63"
    and fit: "find_fit (al_heap s0) (aligned_size n) (al_head s0) = Some fit"
      "(case fit of None \<Rightarrow> map_arena page_long mm (aligned_size n) s0 | Some b \<Rightarrow> Some (Some b, s0)) = Some (Some (ba c), s)"
    and L: "L = live (us @ vs)"
  shows "\<exists>p s' xs' k. my_malloc page_long mm n s0 = Some (Some p, s') \<and> alloc_inv s' xs' \<and> 16 dvd p \<and>
    n \<le> k \<and> live xs' = insert (p, k) L \<and> (\<forall>(q, j)\<in>L. p + k \<le> q \<or> q + j \<le> p)"
proof -
  note a = aligned_size_ok [OF n(2)]
  let ?xs = "us @ take_blk (aligned_size n) c @ vs"
  obtain s2 s3 where s: "split_block (ba c) (aligned_size n) s = Some s2"
    "modify_block (ba c) (\<lambda>x. x\<lparr>bh_free := False\<rparr>) s2 = Some s3"
    "rep s3 ?xs" "wf_blocks ?xs" "al_mapped s3 = al_mapped s"
    using malloc_block_rep [OF r w c(2) a(3)] by blast
  have inv: "alloc_inv s3 ?xs" using s m take_bytes [OF c(2)] by (simp add: alloc_inv_def)
  have "wf_blk c" using w by simp
  then have p: "wrap64 (ba c + 48) = ba c + 48" "16 dvd ba c + 48"
    by (auto simp: wf_blk_def bend_def intro!: dvd_add)
  have run: "my_malloc page_long mm n s0 = Some (Some (ba c + 48), s3)"
    using n(1) fit s(1,2) p(1) by (simp add: my_malloc_def)
  have lv: "live (us @ c # vs) = L" using c(1) L by simp
  obtain k where k: "aligned_size n \<le> k" "live ?xs = insert (ba c + 48, k) L"
    "\<forall>(q, j)\<in>L. ba c + 48 + k \<le> q \<or> q + j \<le> ba c"
    using take_live [OF w c] unfolding lv by blast
  from k(3) have "\<forall>(q, j)\<in>L. ba c + 48 + k \<le> q \<or> q + j \<le> ba c + 48" by auto
  moreover have "n \<le> k" using k(1) a(1) by simp
  ultimately show ?thesis using run inv p(2) k(2) by blast
qed

lemma coal_coalesced:
  assumes "coalesced vs" "bf c"
  shows "coalesced (coal_blk c vs)"
  using assms by (cases vs; cases "tl vs") (auto simp: coalesced_def bend_def successively_Cons)

lemma coalesced_append:
  "coalesced (xs @ ys) \<longleftrightarrow>
    coalesced xs \<and> coalesced ys \<and> (xs = [] \<or> ys = [] \<or> \<not> (bf (last xs) \<and> bf (hd ys) \<and> bend (last xs) = ba (hd ys)))"
  by (auto simp: coalesced_def successively_append_iff)

lemma coalesced_Cons [simp]:
  "coalesced (x # y # xs) \<longleftrightarrow> \<not> (bf x \<and> bf y \<and> bend x = ba y) \<and> coalesced (y # xs)"
  by (simp add: coalesced_def)

lemma coal_bend: "\<exists>d ws. coal_blk c vs = d # ws \<and> ba d = ba c \<and> bf d = bf c \<and> bend c \<le> bend d"
  by (cases vs) (auto simp: bend_def)

text \<open>Freeing keeps free neighbours merged: a block touches at most one free block on each side.\<close>

lemma free_coalesced:
  assumes "coalesced (us @ c # vs)"
  shows "coalesced (free_blk us c vs)"
proof -
  let ?ws = "coal_blk (Blk (ba c) (bs c) True) vs"
  have u: "coalesced us" and v: "coalesced vs"
    using assms coalesced_append [of us "c # vs"] coalesced_append [of "[c]" vs] by simp_all
  have ws: "coalesced ?ws" using coal_coalesced [OF v] by simp
  obtain d ds where d: "?ws = d # ds" "ba d = ba c" "bf d"
    using coal_bend [of "Blk (ba c) (bs c) True" vs] by auto
  show ?thesis
  proof (cases us rule: rev_cases)
    case (snoc us' p)
    show ?thesis
    proof (cases "bf p \<and> bend p = ba c")
      case True
      obtain e es where e: "coal_blk p ?ws = e # es" "ba e = ba p" "bf e = bf p" using coal_bend [of p ?ws] by auto
      have "coalesced (coal_blk p ?ws)" using coal_coalesced [OF ws] True by simp
      with True snoc u e show ?thesis by (simp add: free_blk_def Let_def coalesced_append)
    next
      case False
      with snoc u ws d show ?thesis by (auto simp: free_blk_def Let_def coalesced_append)
    qed
  qed (simp add: free_blk_def ws)
qed

lemma free_covers:
  "\<exists>x\<in>set (free_blk us c vs). bf x \<and> ba x \<le> ba c \<and> bend c \<le> bend x"
proof -
  let ?ws = "coal_blk (Blk (ba c) (bs c) True) vs"
  obtain d ds where d: "?ws = d # ds" "ba d = ba c" "bf d" "bend c \<le> bend d"
    using coal_bend [of "Blk (ba c) (bs c) True" vs] by (auto simp: bend_def)
  show ?thesis
  proof (cases "us \<noteq> [] \<and> bf (last us) \<and> bend (last us) = ba c")
    case True
    then have "free_blk us c vs = butlast us @ coal_blk (last us) (d # ds)" using d by (simp add: free_blk_def)
    moreover have "coal_blk (last us) (d # ds) = Blk (ba (last us)) (bs (last us) + 48 + bs d) True # ds"
      using True d by simp
    ultimately show ?thesis using True d by (auto simp: bend_def)
  next
    case False
    then have "free_blk us c vs = us @ d # ds" using d by (auto simp: free_blk_def Let_def)
    with d show ?thesis by auto
  qed
qed

lemma stats_loop_rep:
  "seg h pv xs None \<Longrightarrow>
   arena_bytes xs + st_free_bytes st + st_allocated_bytes st + st_free_blocks st + st_allocated_blocks st < 2 ^ 64 \<Longrightarrow>
   stats_loop h (first_ptr xs None) st =
     Some (st\<lparr>st_free_blocks := st_free_blocks st + length (filter bf xs),
              st_free_bytes := st_free_bytes st + (\<Sum>x\<leftarrow>filter bf xs. bs x),
              st_allocated_blocks := st_allocated_blocks st + length (filter (\<lambda>x. \<not> bf x) xs),
              st_allocated_bytes := st_allocated_bytes st + (\<Sum>x\<leftarrow>filter (\<lambda>x. \<not> bf x) xs. bs x)\<rparr>)"
proof (induction xs arbitrary: pv st)
  case Nil
  show ?case by (subst stats_loop.simps) simp
next
  case (Cons x xs)
  then show ?case using Cons.IH [of "Some (ba x)"] by (subst stats_loop.simps) simp
qed

lemma arena_bytes_split:
  "arena_bytes xs =
     (\<Sum>x\<leftarrow>filter (\<lambda>x. \<not> bf x) xs. bs x) + (\<Sum>x\<leftarrow>filter bf xs. bs x) +
     48 * (length (filter (\<lambda>x. \<not> bf x) xs) + length (filter bf xs))"
  by (induction xs) auto

text \<open>A used block that is linked to itself traps the search.\<close>

lemma find_fit_cycle:
  assumes "h a = Some x" "bh_next x = Some a" "\<not> bh_free x"
  shows "find_fit h n (Some a) = None"
proof -
  have "hh a = Some x \<longrightarrow> b \<noteq> Some a" if "find_fit hh n b = Some y" for hh n b y
    using that
  proof (rule find_fit.raw_induct [rotated])
    fix f :: "(nat \<Rightarrow> block_header option) \<Rightarrow> nat \<Rightarrow> nat option \<Rightarrow> nat option option" and hh n b y
    assume ih: "\<And>hh n b y. f hh n b = Some y \<Longrightarrow> hh a = Some x \<longrightarrow> b \<noteq> Some a"
      and run: "(case b of None \<Rightarrow> Some None
        | Some c \<Rightarrow> hh c \<bind> (\<lambda>z. if bh_free z \<and> n \<le> bh_size z then Some (Some c) else f hh n (bh_next z))) = Some y"
    show "hh a = Some x \<longrightarrow> b \<noteq> Some a"
    proof (intro impI notI)
      assume "hh a = Some x" "b = Some a"
      with run assms have "f hh n (Some a) = Some y" by simp
      with ih \<open>hh a = Some x\<close> show False by blast
    qed
  qed
  with assms(1) show ?thesis by (metis not_None_eq)
qed

lemma malloc_spec:
  assumes inv: "alloc_inv s xs" and n: "0 < n" "n \<le> 2 ^ 63"
    and pg: "page_ok page_long" and mm: "mmap_fresh page_long mm xs"
  shows "\<exists>r s' xs'. my_malloc page_long mm n s = Some (r, s') \<and> alloc_inv s' xs' \<and>
    (case r of
       None \<Rightarrow> s' = s \<and> xs' = xs \<and> mm (arena_total page_long (aligned_size n)) = None \<and>
         (\<forall>x\<in>set xs. bf x \<longrightarrow> bs x < aligned_size n)
     | Some p \<Rightarrow> 16 dvd p \<and>
         (\<exists>k\<ge>n. live xs' = insert (p, k) (live xs) \<and> (\<forall>(q, j)\<in>live xs. p + k \<le> q \<or> q + j \<le> p)))"
proof -
  let ?n = "aligned_size n"
  let ?fits = "\<lambda>x. bf x \<and> ?n \<le> bs x"
  note a = aligned_size_ok [OF n(2)]
  have r: "rep s xs" and w: "wf_blocks xs" and m: "al_mapped s = arena_bytes xs" using inv by (simp_all add: alloc_inv_def)
  have ff: "find_fit (al_heap s) ?n (al_head s) = Some (map_option ba (find ?fits xs))"
    using r find_fit_rep [of "al_heap s" None xs] by (simp add: rep_def)
  show ?thesis
  proof (cases "find ?fits xs")
    case (Some c)
    then obtain us vs where xs: "xs = us @ c # vs" and c: "bf c" "?n \<le> bs c" by (rule find_block) auto
    have "\<exists>p s' xs' k. my_malloc page_long mm n s = Some (Some p, s') \<and> alloc_inv s' xs' \<and> 16 dvd p \<and>
        n \<le> k \<and> live xs' = insert (p, k) (live xs) \<and> (\<forall>(q, j)\<in>live xs. p + k \<le> q \<or> q + j \<le> p)"
      using r w m ff Some n c by (intro malloc_from_block [of s us c vs n s "Some (ba c)"]) (simp_all add: xs)
    then obtain p s' xs' k where "my_malloc page_long mm n s = Some (Some p, s')" "alloc_inv s' xs'"
      "16 dvd p \<and> (\<exists>k\<ge>n. live xs' = insert (p, k) (live xs) \<and> (\<forall>(q, j)\<in>live xs. p + k \<le> q \<or> q + j \<le> p))"
      by blast
    then show ?thesis by (intro exI [of _ "Some p"] exI [of _ s'] exI [of _ xs']) simp
  next
    case None
    then have small: "\<forall>x\<in>set xs. bf x \<longrightarrow> bs x < ?n" by (auto simp: find_None_iff not_le)
    show ?thesis
    proof (cases "mm (arena_total page_long ?n)")
      case mf: None
      then have "my_malloc page_long mm n s = Some (None, s)"
        using ff None n(1) by (simp add: my_malloc_def map_arena_def)
      with inv small mf show ?thesis by auto
    next
      case (Some p)
      have "?n < 2 ^ 63 + 16" using a(2) n(2) by simp
      from map_arena_rep [OF inv pg mm this Some] obtain s1 us c vs where
        s1: "map_arena page_long mm ?n s = Some (Some p, s1)" "xs = us @ vs" "rep s1 (us @ c # vs)"
          "wf_blocks (us @ c # vs)" "al_mapped s1 = arena_bytes (us @ c # vs)" "ba c = p" "bf c" "?n \<le> bs c"
        by metis
      have "\<exists>p s' xs' k. my_malloc page_long mm n s = Some (Some p, s') \<and> alloc_inv s' xs' \<and> 16 dvd p \<and>
          n \<le> k \<and> live xs' = insert (p, k) (live xs) \<and> (\<forall>(q, j)\<in>live xs. p + k \<le> q \<or> q + j \<le> p)"
        using ff None s1(1,2,6) by (intro malloc_from_block [OF s1(3-5,7,8) n, of s None]) simp_all
      then obtain p s' xs' k where "my_malloc page_long mm n s = Some (Some p, s')" "alloc_inv s' xs'"
      "16 dvd p \<and> (\<exists>k\<ge>n. live xs' = insert (p, k) (live xs) \<and> (\<forall>(q, j)\<in>live xs. p + k \<le> q \<or> q + j \<le> p))"
      by blast
    then show ?thesis by (intro exI [of _ "Some p"] exI [of _ s'] exI [of _ xs']) simp
    qed
  qed
qed

lemma free_spec:
  assumes inv: "alloc_inv s xs" and p: "(p, k) \<in> live xs"
  shows "\<exists>s' xs'. my_free (Some p) s = Some s' \<and> alloc_inv s' xs' \<and> al_mapped s' = al_mapped s \<and>
    live xs' = live xs - {(p, k)} \<and> (\<exists>x\<in>set xs'. bf x \<and> ba x + 48 \<le> p \<and> p + k \<le> bend x) \<and>
    (coalesced xs \<longrightarrow> coalesced xs')"
proof -
  obtain c where c: "c \<in> set xs" "\<not> bf c" "p = ba c + 48" "k = bs c" using p by (auto simp: live_def)
  then obtain us vs where xs: "xs = us @ c # vs" by (meson split_list)
  have r: "rep s (us @ c # vs)" and w: "wf_blocks (us @ c # vs)" and m: "al_mapped s = arena_bytes xs"
    using inv xs by (simp_all add: alloc_inv_def)
  obtain s' where s': "my_free (Some p) s = Some s'" "rep s' (free_blk us c vs)" "wf_blocks (free_blk us c vs)"
    "al_mapped s' = al_mapped s"
    using my_free_rep [OF r w] c(3) by metis
  have "alloc_inv s' (free_blk us c vs)" using s' m free_bytes xs by (simp add: alloc_inv_def)
  moreover have "live (free_blk us c vs) = live xs - {(p, k)}"
    using free_live [OF w] live_bound [OF w, of k] xs c by auto
  moreover have "\<exists>x\<in>set (free_blk us c vs). bf x \<and> ba x + 48 \<le> p \<and> p + k \<le> bend x"
    using free_covers [of us c vs] c by (auto simp: bend_def)
  moreover have "coalesced xs \<longrightarrow> coalesced (free_blk us c vs)" using free_coalesced xs by simp
  ultimately show ?thesis using s'(1,4) by blast
qed

section \<open>The contract\<close>

text \<open>The allocator implements the contract of \<open>Heap_Spec\<close>; its environment is the page size and the answers of \<open>mmap\<close>.\<close>

definition alloc_holds :: "allocator \<Rightarrow> (nat \<times> nat) set \<Rightarrow> bool" where
  "alloc_holds s L \<longleftrightarrow> (\<exists>xs. alloc_inv s xs \<and> live xs = L)"

definition alloc_env_ok :: "int \<times> (nat \<Rightarrow> nat option) \<Rightarrow> allocator \<Rightarrow> bool" where
  "alloc_env_ok e s \<longleftrightarrow> page_ok (fst e) \<and> (\<forall>xs. alloc_inv s xs \<longrightarrow> mmap_fresh (fst e) (snd e) xs)"

interpretation mlrt_heap: heap_contract "\<lambda>e. my_malloc (fst e) (snd e)" my_free alloc_holds alloc_env_ok
proof
  fix s L e and n :: nat
  assume h: "alloc_holds s L" "alloc_env_ok e s" "0 < n" "n \<le> 2 ^ 63"
  then obtain xs where xs: "alloc_inv s xs" "live xs = L" by (auto simp: alloc_holds_def)
  have "page_ok (fst e)" "mmap_fresh (fst e) (snd e) xs" using h(2) xs(1) by (auto simp: alloc_env_ok_def)
  then show "\<exists>r s'. my_malloc (fst e) (snd e) n s = Some (r, s') \<and>
      (case r of None \<Rightarrow> alloc_holds s' L
       | Some p \<Rightarrow> \<exists>k\<ge>n. alloc_holds s' (insert (p, k) L) \<and> (\<forall>(q, j)\<in>L. p + k \<le> q \<or> q + j \<le> p))"
    using malloc_spec [OF xs(1) h(3,4), of "fst e" "snd e"] xs by (fastforce simp: alloc_holds_def split: option.splits)
next
  fix s L p k
  assume "alloc_holds s L" "(p, k) \<in> L"
  then show "\<exists>s'. my_free (Some p) s = Some s' \<and> alloc_holds s' (L - {(p, k)})"
    using free_spec by (fastforce simp: alloc_holds_def)
qed (simp add: my_free_def)

section \<open>Properties\<close>

text \<open>
  C21. \<open>my_malloc\<close> on a well-formed arena, for every size up to \<open>2 ^ 63\<close>: it returns, neither
  faulting nor looping, and leaves a well-formed arena whose blocks add up to the mapped bytes.
  A null pointer is returned for the size 0, and otherwise only when no free block is large enough and
  \<open>mmap\<close> failed; then nothing changed. In all other cases the pointer is a multiple of 16, the payload
  behind it has at least the requested size and overlaps no payload in use, and all payloads in use
  stay as they were.
\<close>

theorem my_malloc_ok:
  assumes inv: "alloc_inv s xs" and n: "n \<le> 2 ^ 63"
    and pg: "page_ok page_long" and mm: "mmap_fresh page_long mm xs"
  shows "\<exists>r s' xs'. my_malloc page_long mm n s = Some (r, s') \<and> alloc_inv s' xs' \<and>
    (case r of
       None \<Rightarrow> s' = s \<and> xs' = xs \<and>
         (n = 0 \<or> mm (arena_total page_long (aligned_size n)) = None \<and> (\<forall>x\<in>set xs. bf x \<longrightarrow> bs x < aligned_size n))
     | Some p \<Rightarrow> n \<noteq> 0 \<and> 16 dvd p \<and>
         (\<exists>k\<ge>n. live xs' = insert (p, k) (live xs) \<and> (\<forall>(q, j)\<in>live xs. p + k \<le> q \<or> q + j \<le> p)))"
proof (cases "n = 0")
  case True
  then show ?thesis using inv by (intro exI [of _ None] exI [of _ s] exI [of _ xs]) (simp add: my_malloc_def)
next
  case False
  then obtain r s' xs' where "my_malloc page_long mm n s = Some (r, s')" "alloc_inv s' xs'"
    "case r of
       None \<Rightarrow> s' = s \<and> xs' = xs \<and> mm (arena_total page_long (aligned_size n)) = None \<and>
         (\<forall>x\<in>set xs. bf x \<longrightarrow> bs x < aligned_size n)
     | Some p \<Rightarrow> 16 dvd p \<and>
         (\<exists>k\<ge>n. live xs' = insert (p, k) (live xs) \<and> (\<forall>(q, j)\<in>live xs. p + k \<le> q \<or> q + j \<le> p))"
    using malloc_spec [OF inv _ n pg mm] by auto
  with False show ?thesis
    by (intro exI [of _ r] exI [of _ s'] exI [of _ xs']) (cases r; simp)
qed

theorem my_malloc_ok_witness:
  "alloc_inv allocator_init [] \<and>
   (\<exists>r s' xs'. my_malloc 4096 (\<lambda>len. if len \<le> 2 ^ 40 then Some 65536 else None) 100 allocator_init = Some (r, s') \<and>
      alloc_inv s' xs' \<and> (case r of None \<Rightarrow> False | Some p \<Rightarrow> 16 dvd p \<and> (\<exists>k\<ge>100. live xs' = {(p, k)})))"
proof -
  let ?mm = "\<lambda>len. if len \<le> 2 ^ 40 then Some 65536 else (None :: nat option)"
  have i: "alloc_inv allocator_init []" by (simp add: alloc_inv_def rep_def allocator_init_def)
  have "page_ok 4096" by (simp add: page_ok_def page_size_def)
  moreover have "mmap_fresh 4096 ?mm []" by (auto simp: mmap_fresh_def page_size_def split: if_splits)
  moreover have "?mm (arena_total 4096 (aligned_size 100)) \<noteq> None"
    by (simp add: arena_total_def aligned_size_def ALIGNMENT_def mlrt_round_up_def page_size_def ARENA_MIN_def
        sizeof_BlockHeader_def Let_def)
  ultimately show ?thesis using my_malloc_ok [of allocator_init "[]" 100 4096 ?mm] i
    by (fastforce split: option.splits)
qed

text \<open>
  C22. \<open>my_free\<close> of a payload in use: it returns, the arena stays well formed and accounts for all
  mapped bytes, exactly that payload is no longer in use, its memory lies in a free block, and
  when no two free blocks touched each other before, none do afterwards.
\<close>

theorem my_free_ok:
  assumes inv: "alloc_inv s xs" and p: "(p, k) \<in> live xs"
  shows "\<exists>s' xs'. my_free (Some p) s = Some s' \<and> alloc_inv s' xs' \<and> al_mapped s' = al_mapped s \<and>
    live xs' = live xs - {(p, k)} \<and> (\<exists>x\<in>set xs'. bf x \<and> ba x + 48 \<le> p \<and> p + k \<le> bend x) \<and>
    (coalesced xs \<longrightarrow> coalesced xs')"
  using free_spec [OF assms] .

theorem my_free_ok_witness:
  "let xs = [Blk 4096 96 False, Blk 4240 65344 True];
       s = \<lparr>al_head = Some 4096,
            al_heap = [4096 \<mapsto> hdr (Blk 4096 96 False) None (Some 4240), 4240 \<mapsto> hdr (Blk 4240 65344 True) (Some 4096) None],
            al_mapped = 65536\<rparr>
   in alloc_inv s xs \<and> (\<exists>s' xs'. my_free (Some 4144) s = Some s' \<and> alloc_inv s' xs' \<and> live xs' = {} \<and> coalesced xs')"
proof -
  let ?xs = "[Blk 4096 96 False, Blk 4240 65344 True]"
  let ?s = "\<lparr>al_head = Some 4096,
            al_heap = [4096 \<mapsto> hdr (Blk 4096 96 False) None (Some 4240), 4240 \<mapsto> hdr (Blk 4240 65344 True) (Some 4096) None],
            al_mapped = 65536\<rparr>"
  have i: "alloc_inv ?s ?xs" by (simp add: alloc_inv_def rep_def wf_blk_def bend_def)
  have l: "live ?xs = {(4144, 96)}" "coalesced ?xs" by (simp_all add: coalesced_def)
  show ?thesis using my_free_ok [OF i, of 4144 96] i l by (simp add: Let_def) blast
qed

text \<open>
  The statistics of a well-formed arena are exact: they count the blocks and payload bytes
  in use and free, and these with one header of 48 bytes per block are the mapped bytes.
\<close>

theorem stats_account_for_arena:
  assumes inv: "alloc_inv s xs"
  shows "\<exists>st. my_allocator_get_stats s = Some st \<and> st_mapped_bytes st = al_mapped s \<and>
    st_allocated_blocks st = length (filter (\<lambda>x. \<not> bf x) xs) \<and>
    st_allocated_bytes st = (\<Sum>x\<leftarrow>filter (\<lambda>x. \<not> bf x) xs. bs x) \<and>
    st_free_blocks st = length (filter bf xs) \<and> st_free_bytes st = (\<Sum>x\<leftarrow>filter bf xs. bs x) \<and>
    st_mapped_bytes st = st_allocated_bytes st + st_free_bytes st + 48 * (st_allocated_blocks st + st_free_blocks st)"
proof -
  have r: "al_head s = first_ptr xs None" "seg (al_heap s) None xs None" and w: "wf_blocks xs"
    and m: "al_mapped s = arena_bytes xs"
    using inv by (simp_all add: alloc_inv_def rep_def)
  have "arena_bytes xs < 2 ^ 64" using arena_bytes_bound [OF w, of 0] by (cases xs) simp_all
  then show ?thesis
    using r(1) m arena_bytes_split [of xs] stats_loop_rep [OF r(2)] by (simp add: my_allocator_get_stats_def)
qed

theorem stats_account_for_arena_witness:
  "let s = \<lparr>al_head = Some 4096, al_heap = [4096 \<mapsto> hdr (Blk 4096 65488 True) None None], al_mapped = 65536\<rparr>
   in alloc_inv s [Blk 4096 65488 True] \<and>
     (\<exists>st. my_allocator_get_stats s = Some st \<and> st_free_blocks st = 1 \<and> st_free_bytes st = 65488 \<and> st_allocated_blocks st = 0)"
proof -
  let ?s = "\<lparr>al_head = Some 4096, al_heap = [4096 \<mapsto> hdr (Blk 4096 65488 True) None None], al_mapped = 65536\<rparr>"
  have i: "alloc_inv ?s [Blk 4096 65488 True]" by (simp add: alloc_inv_def rep_def wf_blk_def bend_def)
  show ?thesis using stats_account_for_arena [OF i] i by auto
qed

text \<open>
  Sizes near the end of the \<open>size_t\<close> range are not rejected: for \<open>2 ^ 64 - 48\<close> the length of
  the arena and the split test both wrap, so the call succeeds on an arena of 64 KiB and links
  the block to itself; every later allocation then walks the list without end.
\<close>

theorem malloc_size_wraps:
  assumes p: "mm 65536 = Some p" "p + 65536 < 2 ^ 64"
  shows "\<exists>s'. my_malloc 4096 mm (2 ^ 64 - 48) allocator_init = Some (Some (p + 48), s') \<and> al_mapped s' = 65536 \<and>
    (\<forall>mm' n. 0 < n \<longrightarrow> my_malloc 4096 mm' n s' = None)"
proof -
  define h where "h = \<lparr>bh_magic = BLOCK_MAGIC, bh_size = 2 ^ 64 - 48, bh_free = False, bh_prev = Some p, bh_next = Some p\<rparr>"
  let ?s = "\<lparr>al_head = Some p, al_heap = [p \<mapsto> h], al_mapped = 65536\<rparr>"
  have run: "my_malloc 4096 mm (2 ^ 64 - 48) allocator_init = Some (Some (p + 48), ?s)"
    using p
    by (simp add: my_malloc_def aligned_size_def ALIGNMENT_def mlrt_round_up_def allocator_init_def find_fit.simps
        map_arena_def arena_total_def wrap64_def ARENA_MIN_def page_size_def insert_sorted_def modify_block_def
        load_block_def store_block_def link_prev_def split_block_def sub64_def h_def sizeof_BlockHeader_def)
  have "find_fit [p \<mapsto> h] n (Some p) = None" for n by (rule find_fit_cycle [of _ _ h]) (simp_all add: h_def)
  then have "my_malloc 4096 mm' n ?s = None" if "0 < n" for mm' n using that by (simp add: my_malloc_def)
  with run show ?thesis by fastforce
qed

theorem malloc_size_wraps_witness:
  "\<exists>s'. my_malloc 4096 (\<lambda>len. if len = 65536 then Some 4096 else None) (2 ^ 64 - 48) allocator_init =
      Some (Some 4144, s') \<and> al_mapped s' = 65536 \<and> my_malloc 4096 (\<lambda>_. None) 1 s' = None"
  using malloc_size_wraps [of "\<lambda>len. if len = 65536 then Some 4096 else None" 4096] by fastforce

end
