(* ===== verification/Shell_Parser.thy ===== *)
theory Shell_Parser
  imports Common
begin

text \<open>
  The command-line parser of the shell, \<^verbatim>\<open>shell/parser.c\<close>: the tokenizer with quotes and escapes,
  the construction of a pipeline from the tokens and the checks on its stages. \<open>mem n\<close> says
  whether an allocation of \<open>n\<close> bytes succeeds; the branches taken when it does not are part of
  the functions. A line is the list of its characters before the terminating zero.
\<close>

section \<open>Data\<close>

text \<open>The three ways out: a result, the return value -1 with its message, the end of the process.\<close>

datatype 'a outcome = Ok 'a | Err string | Died string

fun obind :: "'a outcome \<Rightarrow> ('a \<Rightarrow> 'b outcome) \<Rightarrow> 'b outcome" where
  "obind (Ok x) f = f x"
| "obind (Err m) f = Err m"
| "obind (Died m) f = Died m"

datatype Token = TOK_WORD string | TOK_PIPE | TOK_IN | TOK_OUT | TOK_APPEND | TOK_BACKGROUND

record ShellCommand =
  sc_argv :: "string list"
  sc_input_path :: "string option"
  sc_output_path :: "string option"
  sc_append_output :: bool

record ShellPipeline =
  sp_commands :: "ShellCommand list"
  sp_background :: bool
  sp_source :: "string option"

definition empty_command :: ShellCommand where
  "empty_command = \<lparr>sc_argv = [], sc_input_path = None, sc_output_path = None, sc_append_output = False\<rparr>"

definition empty_pipeline :: ShellPipeline where
  "empty_pipeline = \<lparr>sp_commands = [], sp_background = False, sp_source = None\<rparr>"

definition TOKEN_INIT_CAP :: nat where
  "TOKEN_INIT_CAP = 16"

definition BUF_INIT_CAP :: nat where
  "BUF_INIT_CAP = 64"

text \<open>A growing array: its items and its capacity; \<open>sizeof(Token)\<close> is 16, \<open>sizeof(ShellCommand)\<close> 40.\<close>

type_synonym 'a vec = "'a list \<times> nat"

section \<open>Tokenizer\<close>

text \<open>\<open>set_error\<close>: \<open>snprintf\<close> keeps what fits in front of the terminating zero.\<close>

definition set_error :: "nat option \<Rightarrow> string \<Rightarrow> string option" where
  "set_error err_size msg =
     (case err_size of None \<Rightarrow> None | Some n \<Rightarrow> if n = 0 then None else Some (take (n - 1) msg))"

definition dup :: "(nat \<Rightarrow> bool) \<Rightarrow> string \<Rightarrow> string outcome" where
  "dup mem s =
     (case mlrt_xstrdup (\<lambda>t. if mem (length t + 1) then Some t else None) s of
        Die m \<Rightarrow> Died m | Ret t \<Rightarrow> Ok t)"

definition token_vec_push :: "(nat \<Rightarrow> bool) \<Rightarrow> Token vec \<Rightarrow> Token \<Rightarrow> Token vec outcome" where
  "token_vec_push mem vec tok =
     (let (items, cap) = vec;
          new_cap = (if cap \<noteq> 0 then cap * 2 else TOKEN_INIT_CAP)
      in obind
           (if length items = cap
            then (if mem (new_cap * 16) then Ok new_cap else Died ''out of memory while tokenizing shell command'')
            else Ok cap)
           (\<lambda>c. case tok of
                  TOK_WORD w \<Rightarrow> obind (dup mem w) (\<lambda>t. Ok (items @ [TOK_WORD t], c))
                | _ \<Rightarrow> Ok (items @ [tok], c)))"

text \<open>The word buffer: \<open>None\<close> is the null pointer it starts as.\<close>

definition append_char :: "(nat \<Rightarrow> bool) \<Rightarrow> string option \<times> nat \<Rightarrow> char \<Rightarrow> (string option \<times> nat) option" where
  "append_char mem b c =
     (let (buf, cap) = b;
          text = (case buf of None \<Rightarrow> [] | Some t \<Rightarrow> t);
          new_cap = (if cap \<noteq> 0 then cap * 2 else BUF_INIT_CAP)
      in if length text + 1 \<ge> cap
         then (if mem new_cap then Some (Some (text @ [c]), new_cap) else None)
         else Some (Some (text @ [c]), cap))"

definition is_delim :: "char \<Rightarrow> bool" where
  "is_delim c \<longleftrightarrow> c_isspace c \<or> c = CHR ''|'' \<or> c = CHR ''<'' \<or> c = CHR ''>'' \<or> c = CHR ''&''"

text \<open>The inner loop: rest of the line, open quote, buffer. Returns buffer, open quote and rest.\<close>

fun word_loop ::
    "(nat \<Rightarrow> bool) \<Rightarrow> string \<Rightarrow> char option \<Rightarrow> string option \<times> nat \<Rightarrow>
     ((string option \<times> nat) \<times> char option \<times> string) outcome" where
  "word_loop mem [] quote b = Ok (b, quote, [])"
| "word_loop mem (c # cs) quote b =
     (if quote = None \<and> is_delim c then Ok (b, quote, c # cs)
      else if quote = None \<and> (c = CHR 0x27 \<or> c = CHR 0x22) then word_loop mem cs (Some c) b
      else if quote = Some c then word_loop mem cs None b
      else if c = CHR 0x5C \<and> quote \<noteq> Some (CHR 0x27)
      then (case cs of
              [] \<Rightarrow> Err ''trailing escape in command''
            | d # ds \<Rightarrow>
                (case append_char mem b d of
                   None \<Rightarrow> Err ''out of memory while parsing command''
                 | Some b1 \<Rightarrow> word_loop mem ds quote b1))
      else
        (case append_char mem b c of
           None \<Rightarrow> Err ''out of memory while parsing command''
         | Some b1 \<Rightarrow> word_loop mem cs quote b1))"

text \<open>The branches of one round of the inner loop.\<close>

definition is_quote :: "char \<Rightarrow> bool" where
  "is_quote c \<longleftrightarrow> c = CHR 0x27 \<or> c = CHR 0x22"

definition opens_escape :: "char \<Rightarrow> char option \<Rightarrow> bool" where
  "opens_escape c quote \<longleftrightarrow> c = CHR 0x5C \<and> quote \<noteq> Some (CHR 0x27)"

definition put_char ::
    "(nat \<Rightarrow> bool) \<Rightarrow> string option \<times> nat \<Rightarrow> char \<Rightarrow> char option \<Rightarrow> string \<Rightarrow>
     ((string option \<times> nat) \<times> char option \<times> string) outcome" where
  "put_char mem b c quote cs =
     (case append_char mem b c of
        None \<Rightarrow> Err ''out of memory while parsing command''
      | Some b1 \<Rightarrow> word_loop mem cs quote b1)"

lemma word_loop_delim: "is_delim c \<Longrightarrow> word_loop mem (c # cs) None b = Ok (b, None, c # cs)"
  by simp

lemma word_loop_open:
  "\<not> is_delim c \<Longrightarrow> is_quote c \<Longrightarrow> word_loop mem (c # cs) None b = word_loop mem cs (Some c) b"
  by (auto simp: is_quote_def)

lemma word_loop_close: "word_loop mem (c # cs) (Some c) b = word_loop mem cs None b"
  by simp

lemma word_loop_char:
  assumes "\<not> (quote = None \<and> is_delim c)" "\<not> (quote = None \<and> is_quote c)" "quote \<noteq> Some c"
  shows "word_loop mem (c # cs) quote b =
    (if opens_escape c quote
     then (case cs of [] \<Rightarrow> Err ''trailing escape in command'' | d # ds \<Rightarrow> put_char mem b d quote ds)
     else put_char mem b c quote cs)"
  using assms by (cases quote; cases cs) (simp_all add: is_quote_def opens_escape_def put_char_def)

declare word_loop.simps(2) [simp del]

text \<open>One round of the inner loop ends it at a delimiter or continues behind one or two characters.\<close>

lemma put_char_Ok: "put_char mem b c quote cs = Ok r \<Longrightarrow> \<exists>b1. word_loop mem cs quote b1 = Ok r"
  by (auto simp: put_char_def split: option.splits)

lemma word_loop_round:
  assumes "word_loop mem (c # cs) quote b = Ok r"
  obtains (delim) "quote = None" "is_delim c" "r = (b, quote, c # cs)"
  | (more) q1 b1 ds where "ds = cs \<or> ds = tl cs" "word_loop mem ds q1 b1 = Ok r" "\<not> (quote = None \<and> is_delim c)"
proof -
  consider "quote = None \<and> is_delim c" | "quote = None \<and> is_quote c" "\<not> is_delim c" | "quote = Some c"
    | "\<not> (quote = None \<and> is_delim c)" "\<not> (quote = None \<and> is_quote c)" "quote \<noteq> Some c"
    by blast
  then show ?thesis
  proof cases
    case 1
    then show ?thesis using assms delim by (simp add: word_loop_delim)
  next
    case 2
    then show ?thesis using assms more [of cs "Some c" b] by (simp add: word_loop_open)
  next
    case 3
    then show ?thesis using assms more [of cs None b] by (simp add: word_loop_close)
  next
    case 4
    show ?thesis
      using assms more [OF _ _ 4(1)] unfolding word_loop_char [OF 4]
      by (auto split: if_splits list.splits dest!: put_char_Ok)
  qed
qed

lemma word_loop_shrinks:
  "word_loop mem cs quote b = Ok (b', q', rest) \<Longrightarrow> length rest \<le> length cs"
proof (induction "length cs" arbitrary: cs quote b rule: less_induct)
  case less
  show ?case
  proof (cases cs)
    case (Cons c ds)
    from less.prems [unfolded Cons] show ?thesis
    proof (cases rule: word_loop_round)
      case (more q1 b1 es)
      then have "length es \<le> length ds" by auto
      with less.hyps [of es q1 b1] more(2) Cons show ?thesis by simp
    qed (use Cons in simp)
  qed (use less.prems in simp)
qed

lemma word_loop_progress:
  assumes "word_loop mem (c # cs) None b = Ok (b', q', rest)" "\<not> is_delim c"
  shows "length rest < length (c # cs)"
  using assms(1)
proof (cases rule: word_loop_round)
  case (more q1 b1 es)
  then have "length es \<le> length cs" by auto
  with word_loop_shrinks [OF more(2)] show ?thesis by simp
qed (use assms(2) in simp)

lemma dropWhile_Cons_length: "dropWhile P xs = c # cs \<Longrightarrow> length cs < length xs"
  by (metis length_dropWhile_le Suc_le_lessD length_Cons)

text \<open>The outer loop over the rest of the line.\<close>

function tokenize :: "(nat \<Rightarrow> bool) \<Rightarrow> string \<Rightarrow> Token vec \<Rightarrow> Token vec outcome" where
  "tokenize mem line out =
     (case dropWhile c_isspace line of
        [] \<Rightarrow> Ok out
      | c # cs \<Rightarrow>
          if c = CHR ''|'' then obind (token_vec_push mem out TOK_PIPE) (tokenize mem cs)
          else if c = CHR ''<'' then obind (token_vec_push mem out TOK_IN) (tokenize mem cs)
          else if c = CHR ''>'' then
            (if cs \<noteq> [] \<and> hd cs = CHR ''>''
             then obind (token_vec_push mem out TOK_APPEND) (tokenize mem (tl cs))
             else obind (token_vec_push mem out TOK_OUT) (tokenize mem cs))
          else if c = CHR ''&'' then obind (token_vec_push mem out TOK_BACKGROUND) (tokenize mem cs)
          else
            (case word_loop mem (c # cs) None (None, 0) of
               Err m \<Rightarrow> Err m
             | Died m \<Rightarrow> Died m
             | Ok ((buf, cap), quote, rest) \<Rightarrow>
                 if quote \<noteq> None then Err ''unterminated quote''
                 else obind (case buf of None \<Rightarrow> dup mem [] | Some t \<Rightarrow> Ok t)
                        (\<lambda>t. obind (token_vec_push mem out (TOK_WORD t)) (tokenize mem rest))))"
  by pat_completeness auto

termination tokenize
proof (relation "measure (\<lambda>(mem, line, out). length line)", goal_cases)
  case (7 mem line out c cs)
  then have "\<not> is_delim c" using hd_dropWhile [of c_isspace line] by (simp add: is_delim_def)
  with 7 show ?case
    by (auto simp del: word_loop.simps dest!: dropWhile_Cons_length word_loop_progress)
qed (auto dest!: dropWhile_Cons_length)

declare tokenize.simps [simp del]

section \<open>Pipelines\<close>

definition command_add_arg :: "(nat \<Rightarrow> bool) \<Rightarrow> ShellCommand \<Rightarrow> string \<Rightarrow> ShellCommand outcome" where
  "command_add_arg mem cmd arg =
     (if \<not> mem ((length (sc_argv cmd) + 2) * 8) then Died ''out of memory while building command arguments''
      else obind (dup mem arg) (\<lambda>t. Ok (cmd\<lparr>sc_argv := sc_argv cmd @ [t]\<rparr>)))"

text \<open>
  \<open>pipeline_add_command\<close>: the commands with a cleared one behind them, \<open>None\<close> for the return
  value -1.
\<close>

definition pipeline_add_command :: "(nat \<Rightarrow> bool) \<Rightarrow> ShellCommand list \<Rightarrow> ShellCommand list option" where
  "pipeline_add_command mem cs = (if mem ((length cs + 1) * 40) then Some (cs @ [empty_command]) else None)"

text \<open>
  The loop over the tokens: \<open>ts\<close> are the tokens from index \<open>i\<close> on, \<open>cs\<close> the commands of the
  pipeline, the last of which is the one \<open>cmd\<close> points to.
\<close>

fun build :: "(nat \<Rightarrow> bool) \<Rightarrow> Token list \<Rightarrow> ShellCommand list \<Rightarrow> bool \<Rightarrow> (ShellCommand list \<times> bool) outcome" where
  "build mem [] cs bg = Ok (cs, bg)"
| "build mem (TOK_WORD w # ts) cs bg =
     obind (command_add_arg mem (last cs) w) (\<lambda>cmd. build mem ts (butlast cs @ [cmd]) bg)"
| "build mem (TOK_PIPE # ts) cs bg =
     (if sc_argv (last cs) = [] then Err ''empty command before pipe''
      else if ts = [] then Err ''pipe requires a following command''
      else case pipeline_add_command mem cs of
             None \<Rightarrow> Err ''out of memory creating pipeline stage''
           | Some cs1 \<Rightarrow> build mem ts cs1 bg)"
| "build mem (TOK_BACKGROUND # ts) cs bg =
     (if ts \<noteq> [] then Err (CHR 0x27 # CHR ''&'' # CHR 0x27 # '' is only valid at the end of a pipeline'') else build mem ts cs True)"
| "build mem (TOK_IN # ts) cs bg =
     (case ts of
        TOK_WORD path # ts1 \<Rightarrow>
          if sc_input_path (last cs) \<noteq> None then Err ''multiple input redirections for one command''
          else obind (dup mem path) (\<lambda>t. build mem ts1 (butlast cs @ [(last cs)\<lparr>sc_input_path := Some t\<rparr>]) bg)
      | _ \<Rightarrow> Err ''redirection operator requires a file path'')"
| "build mem (TOK_OUT # ts) cs bg =
     (case ts of
        TOK_WORD path # ts1 \<Rightarrow>
          if sc_output_path (last cs) \<noteq> None then Err ''multiple output redirections for one command''
          else obind (dup mem path)
                 (\<lambda>t. build mem ts1
                        (butlast cs @ [(last cs)\<lparr>sc_output_path := Some t, sc_append_output := False\<rparr>]) bg)
      | _ \<Rightarrow> Err ''redirection operator requires a file path'')"
| "build mem (TOK_APPEND # ts) cs bg =
     (case ts of
        TOK_WORD path # ts1 \<Rightarrow>
          if sc_output_path (last cs) \<noteq> None then Err ''multiple output redirections for one command''
          else obind (dup mem path)
                 (\<lambda>t. build mem ts1
                        (butlast cs @ [(last cs)\<lparr>sc_output_path := Some t, sc_append_output := True\<rparr>]) bg)
      | _ \<Rightarrow> Err ''redirection operator requires a file path'')"

text \<open>The checks on the finished stages; \<open>first\<close> says that the stage is the first one.\<close>

fun check_stages :: "bool \<Rightarrow> ShellCommand list \<Rightarrow> unit outcome" where
  "check_stages first [] = Ok ()"
| "check_stages first (c # cs) =
     (if sc_argv c = [] then Err ''empty command in pipeline''
      else if \<not> first \<and> sc_input_path c \<noteq> None
      then Err ''input redirection is only valid on the first pipeline stage''
      else if cs \<noteq> [] \<and> sc_output_path c \<noteq> None
      then Err ''output redirection is only valid on the last pipeline stage''
      else check_stages False cs)"

text \<open>\<open>shell_pipeline_free\<close> leaves the cleared structure.\<close>

definition shell_pipeline_free :: "ShellPipeline \<Rightarrow> ShellPipeline" where
  "shell_pipeline_free pipeline = empty_pipeline"

text \<open>
  \<open>shell_parse_line\<close>: \<open>line\<close> is \<open>None\<close> for a null pointer, \<open>pipeline\<close> the structure of the caller
  (\<open>None\<close> for a null pointer), \<open>err_size\<close> the size of the message buffer if there is one. The result:
  return value, structure afterwards, message.
\<close>

datatype parse_result = Parse_Died string | Parse_Ret int "ShellPipeline option" "string option"

definition parse_fail :: "nat option \<Rightarrow> string \<Rightarrow> ShellPipeline \<Rightarrow> parse_result" where
  "parse_fail err_size msg pipeline = Parse_Ret (-1) (Some (shell_pipeline_free pipeline)) (set_error err_size msg)"

definition shell_parse_line ::
    "(nat \<Rightarrow> bool) \<Rightarrow> string option \<Rightarrow> ShellPipeline option \<Rightarrow> nat option \<Rightarrow> parse_result" where
  "shell_parse_line mem line pipeline err_size =
     (case (line, pipeline) of
        (Some l, Some _) \<Rightarrow>
          (case dup mem l of
             Died m \<Rightarrow> Parse_Died m
           | Err m \<Rightarrow> parse_fail err_size m empty_pipeline
           | Ok src \<Rightarrow>
               let p = empty_pipeline\<lparr>sp_source := Some src\<rparr>
               in case tokenize mem l ([], 0) of
                    Died m \<Rightarrow> Parse_Died m
                  | Err m \<Rightarrow> parse_fail err_size m p
                  | Ok (tokens, cap) \<Rightarrow>
                      if tokens = [] then Parse_Ret 0 (Some p) None
                      else
                        (case pipeline_add_command mem [] of
                           None \<Rightarrow> parse_fail err_size ''out of memory creating command pipeline'' p
                         | Some cs0 \<Rightarrow>
                             (case obind (build mem tokens cs0 False)
                                     (\<lambda>(cs, bg). obind (check_stages True cs) (\<lambda>_. Ok (cs, bg))) of
                                Died m \<Rightarrow> Parse_Died m
                              | Err m \<Rightarrow> parse_fail err_size m p
                              | Ok (cs, bg) \<Rightarrow>
                                  Parse_Ret 0 (Some (p\<lparr>sp_commands := cs, sp_background := bg\<rparr>)) None)))
      | _ \<Rightarrow> Parse_Ret (-1) pipeline (set_error err_size ''invalid parser arguments''))"

section \<open>Accepted pipelines\<close>

text \<open>
  A pipeline the shell can run: every stage has a command word, only the first stage reads from
  a file and only the last one writes to a file.
\<close>

definition valid_stages :: "ShellCommand list \<Rightarrow> bool" where
  "valid_stages cs \<longleftrightarrow>
     (\<forall>i<length cs. sc_argv (cs ! i) \<noteq> [] \<and> (0 < i \<longrightarrow> sc_input_path (cs ! i) = None) \<and>
        (i + 1 < length cs \<longrightarrow> sc_output_path (cs ! i) = None))"

lemma all_less_length_Cons:
  "(\<forall>i<length (c # cs). P i ((c # cs) ! i)) \<longleftrightarrow> P 0 c \<and> (\<forall>i<length cs. P (Suc i) (cs ! i))"
  by (simp add: All_less_Suc2)

lemma check_stages_iff:
  "check_stages first cs = Ok () \<longleftrightarrow>
    (\<forall>i<length cs. sc_argv (cs ! i) \<noteq> [] \<and> (0 < i \<or> \<not> first \<longrightarrow> sc_input_path (cs ! i) = None) \<and>
       (i + 1 < length cs \<longrightarrow> sc_output_path (cs ! i) = None))"
proof (induction cs arbitrary: first)
  case (Cons c cs)
  let ?P = "\<lambda>i x. sc_argv x \<noteq> [] \<and> (0 < i \<or> \<not> first \<longrightarrow> sc_input_path x = None) \<and>
    (i + 1 < length (c # cs) \<longrightarrow> sc_output_path x = None)"
  have "(\<forall>i<length (c # cs). ?P i ((c # cs) ! i)) \<longleftrightarrow> ?P 0 c \<and> (\<forall>i<length cs. ?P (Suc i) (cs ! i))"
    by (rule all_less_length_Cons)
  moreover have "check_stages first (c # cs) = Ok () \<longleftrightarrow> ?P 0 c \<and> check_stages False cs = Ok ()" by simp
  ultimately show ?case using Cons.IH [of False] by simp
qed simp

lemma check_stages_valid: "check_stages True cs = Ok () \<longleftrightarrow> valid_stages cs"
  by (simp add: check_stages_iff valid_stages_def)

lemma obind_Ok: "obind x f = Ok y \<longleftrightarrow> (\<exists>z. x = Ok z \<and> f z = Ok y)"
  by (cases x) auto

lemma dup_Ok: "dup mem s = Ok t \<Longrightarrow> t = s"
  by (auto simp: dup_def mlrt_xstrdup_def split: if_splits option.splits or_die.splits)

lemma build_nonempty: "build mem ts cs bg = Ok (cs', bg') \<Longrightarrow> cs \<noteq> [] \<Longrightarrow> cs' \<noteq> []"
  by (induction mem ts cs bg arbitrary: cs' bg' rule: build.induct)
     (fastforce simp: obind_Ok pipeline_add_command_def split: if_splits option.splits list.splits Token.splits)+

section \<open>Printing and parsing back\<close>

text \<open>A word in double quotes with every character escaped, and the text of a token.\<close>

definition quote_word :: "string \<Rightarrow> string" where
  "quote_word w = CHR 0x22 # concat (map (\<lambda>c. [CHR 0x5C, c]) w) @ [CHR 0x22]"

fun tok_text :: "Token \<Rightarrow> string" where
  "tok_text (TOK_WORD w) = quote_word w"
| "tok_text TOK_PIPE = ''|''"
| "tok_text TOK_IN = ''<''"
| "tok_text TOK_OUT = ''>''"
| "tok_text TOK_APPEND = ''>>''"
| "tok_text TOK_BACKGROUND = ''&''"

definition render_tokens :: "Token list \<Rightarrow> string" where
  "render_tokens ts = concat (map (\<lambda>t. tok_text t @ '' '') ts)"

definition cmd_tokens :: "ShellCommand \<Rightarrow> Token list" where
  "cmd_tokens c =
     map TOK_WORD (sc_argv c) @
     (case sc_input_path c of None \<Rightarrow> [] | Some p \<Rightarrow> [TOK_IN, TOK_WORD p]) @
     (case sc_output_path c of None \<Rightarrow> []
      | Some p \<Rightarrow> [if sc_append_output c then TOK_APPEND else TOK_OUT, TOK_WORD p])"

fun pipeline_tokens :: "ShellCommand list \<Rightarrow> bool \<Rightarrow> Token list" where
  "pipeline_tokens [] bg = (if bg then [TOK_BACKGROUND] else [])"
| "pipeline_tokens [c] bg = cmd_tokens c @ pipeline_tokens [] bg"
| "pipeline_tokens (c # d # cs) bg = cmd_tokens c @ TOK_PIPE # pipeline_tokens (d # cs) bg"

definition render_pipeline :: "ShellCommand list \<Rightarrow> bool \<Rightarrow> string" where
  "render_pipeline cs bg = render_tokens (pipeline_tokens cs bg)"

lemma dup_mem: "\<forall>n. mem n \<Longrightarrow> dup mem s = Ok s"
  by (simp add: dup_def mlrt_xstrdup_def)

lemma push_mem: "\<forall>n. mem n \<Longrightarrow> \<exists>cap'. token_vec_push mem (items, cap) t = Ok (items @ [t], cap')"
  by (cases t) (simp_all add: token_vec_push_def Let_def dup_mem)

lemma append_char_mem:
  "\<forall>n. mem n \<Longrightarrow> \<exists>cap'. append_char mem (buf, cap) c = Some (Some ((case buf of None \<Rightarrow> [] | Some t \<Rightarrow> t) @ [c]), cap')"
  by (simp add: append_char_def Let_def)

text \<open>Reading the inside of a quoted word up to its closing quote.\<close>

lemma word_loop_quoted:
  assumes "\<forall>n. mem n"
  shows "\<exists>cap'. word_loop mem (concat (map (\<lambda>c. [CHR 0x5C, c]) w) @ CHR 0x22 # rest) (Some (CHR 0x22)) (buf, cap) =
    word_loop mem rest None
      (if w = [] then buf else Some ((case buf of None \<Rightarrow> [] | Some t \<Rightarrow> t) @ w), cap')"
proof (induction w arbitrary: buf cap)
  case Nil
  then show ?case by (auto simp: word_loop_close)
next
  case (Cons c w)
  obtain cap1 where a: "append_char mem (buf, cap) c = Some (Some ((case buf of None \<Rightarrow> [] | Some t \<Rightarrow> t) @ [c]), cap1)"
    using append_char_mem [OF assms] by blast
  have "word_loop mem (CHR 0x5C # c # ds) (Some (CHR 0x22)) (buf, cap) =
      word_loop mem ds (Some (CHR 0x22)) (Some ((case buf of None \<Rightarrow> [] | Some t \<Rightarrow> t) @ [c]), cap1)" for ds
    using a by (simp add: word_loop_char opens_escape_def put_char_def)
  then show ?case using Cons [of "Some ((case buf of None \<Rightarrow> [] | Some t \<Rightarrow> t) @ [c])" cap1] by (auto split: if_splits)
qed

lemma word_loop_word:
  assumes "\<forall>n. mem n"
  shows "\<exists>cap'. word_loop mem (quote_word w @ CHR '' '' # rest) None (None, 0) =
    Ok ((if w = [] then None else Some w, cap'), None, CHR '' '' # rest)"
proof -
  have d: "is_delim (CHR '' '')" "\<not> is_delim (CHR 0x22)" "is_quote (CHR 0x22)"
    by (simp_all add: is_delim_def c_isspace_def is_quote_def)
  show ?thesis
    using word_loop_quoted [OF assms, of w "CHR '' '' # rest" None 0] d
    by (auto simp: quote_word_def word_loop_open word_loop_delim)
qed

lemma tokenize_word:
  assumes m: "\<forall>n. mem n"
  shows "\<exists>cap'. tokenize mem (quote_word w @ CHR '' '' # rest) (items, cap) =
    tokenize mem (CHR '' '' # rest) (items @ [TOK_WORD w], cap')"
proof -
  obtain c1 where wl: "word_loop mem (quote_word w @ CHR '' '' # rest) None (None, 0) =
      Ok ((if w = [] then None else Some w, c1), None, CHR '' '' # rest)"
    using word_loop_word [OF m] by blast
  obtain c2 where "token_vec_push mem (items, cap) (TOK_WORD w) = Ok (items @ [TOK_WORD w], c2)"
    using push_mem [OF m] by blast
  then show ?thesis
    using wl m
    by (subst tokenize.simps [of mem "quote_word w @ CHR '' '' # rest"])
       (auto simp: quote_word_def c_isspace_def dup_mem)
qed

lemma tokenize_token:
  assumes m: "\<forall>n. mem n"
  shows "\<exists>cap'. tokenize mem (tok_text t @ CHR '' '' # rest) (items, cap) =
    tokenize mem (CHR '' '' # rest) (items @ [t], cap')"
proof (cases "\<exists>w. t = TOK_WORD w")
  case True
  then show ?thesis using tokenize_word [OF m] by auto
next
  case False
  obtain c where "token_vec_push mem (items, cap) t = Ok (items @ [t], c)" using push_mem [OF m] by blast
  then show ?thesis
    using False
    by (subst tokenize.simps [of mem "tok_text t @ CHR '' '' # rest"]) (cases t; auto simp: c_isspace_def)
qed

lemma tokenize_space: "tokenize mem (CHR '' '' # rest) out = tokenize mem rest out"
proof -
  have sp: "c_isspace (CHR '' '')" by (simp add: c_isspace_def)
  show ?thesis by (subst (1 2) tokenize.simps) (simp add: sp)
qed

lemma tokenize_render:
  assumes m: "\<forall>n. mem n"
  shows "\<exists>cap'. tokenize mem (render_tokens ts) (items, cap) = Ok (items @ ts, cap')"
proof (induction ts arbitrary: items cap)
  case Nil
  show ?case by (subst tokenize.simps) (simp add: render_tokens_def)
next
  case (Cons t ts)
  obtain c where "tokenize mem (tok_text t @ CHR '' '' # render_tokens ts) (items, cap) =
      tokenize mem (CHR '' '' # render_tokens ts) (items @ [t], c)"
    using tokenize_token [OF m] by blast
  with Cons [of "items @ [t]" c] show ?case by (simp add: render_tokens_def tokenize_space)
qed

text \<open>Building a stage from its tokens: the words, then the redirections.\<close>

lemma build_words:
  assumes m: "\<forall>n. mem n"
  shows "build mem (map TOK_WORD ws @ ts) (cs @ [c]) bg = build mem ts (cs @ [c\<lparr>sc_argv := sc_argv c @ ws\<rparr>]) bg"
  by (induction ws arbitrary: c) (simp_all add: command_add_arg_def dup_mem m)

lemma build_command:
  assumes m: "\<forall>n. mem n" and c: "sc_output_path c = None \<longrightarrow> \<not> sc_append_output c"
  shows "build mem (cmd_tokens c @ ts) (cs @ [empty_command]) bg = build mem ts (cs @ [c]) bg"
proof -
  obtain argv i out app where r: "c = \<lparr>sc_argv = argv, sc_input_path = i, sc_output_path = out, sc_append_output = app\<rparr>"
    by (cases c) auto
  with c show ?thesis
    by (cases i; cases out)
       (simp_all add: cmd_tokens_def build_words m dup_mem empty_command_def)
qed

lemma add_command_mem: "\<forall>n. mem n \<Longrightarrow> pipeline_add_command mem cs = Some (cs @ [empty_command])"
  by (simp add: pipeline_add_command_def)

lemma build_pipeline:
  assumes m: "\<forall>n. mem n" and "cs \<noteq> []"
    and "\<forall>c\<in>set cs. sc_argv c \<noteq> [] \<and> (sc_output_path c = None \<longrightarrow> \<not> sc_append_output c)"
  shows "build mem (pipeline_tokens cs bg) (done @ [empty_command]) False = Ok (done @ cs, bg)"
  using assms(2,3)
proof (induction cs bg arbitrary: "done" rule: pipeline_tokens.induct)
  case (2 c bg)
  then show ?case by (simp add: build_command [OF m])
next
  case (3 c d cs bg)
  have "pipeline_tokens (d # cs) bg \<noteq> []" using 3(3) by (cases cs) (auto simp: cmd_tokens_def)
  with 3 show ?case
    using 3(1) [of "done @ [c]"] build_command [OF m, of c "TOK_PIPE # pipeline_tokens (d # cs) bg" "done" False]
    by (simp add: add_command_mem [OF m] del: pipeline_tokens.simps(2))
qed simp

section \<open>Properties\<close>

text \<open>
  C25. What the parser accepts and what it leaves behind: with return value 0 there is no message,
  the source is the line, and the pipeline is empty or has only valid stages (a command word in
  each, input from a file only on the first, output to a file only on the last). Every other
  return value is -1, and the caller's structure is then cleared; in particular no partly built
  pipeline escapes. This holds whatever allocations fail.
\<close>

theorem parse_line_outcome:
  assumes "shell_parse_line mem (Some line) (Some p0) err_size = Parse_Ret r p msg"
  shows "(r = 0 \<and> msg = None \<and> (\<exists>q. p = Some q \<and> sp_source q = Some line \<and> valid_stages (sp_commands q) \<and>
            (sp_background q \<longrightarrow> sp_commands q \<noteq> []))) \<or>
         (r = -1 \<and> p = Some empty_pipeline)"
proof (cases "tokenize mem line ([], 0)")
  case (Ok v)
  obtain tokens cap where v: "v = (tokens, cap)" by (cases v) auto
  show ?thesis
  proof (cases "obind (build mem tokens [empty_command] False) (\<lambda>(cs, bg). obind (check_stages True cs) (\<lambda>_. Ok (cs, bg)))")
    case res: (Ok w)
    obtain cs bg where w: "w = (cs, bg)" by (cases w) auto
    then have "valid_stages cs" "cs \<noteq> []"
      using res by (auto simp: obind_Ok check_stages_valid dest: build_nonempty)
    with assms Ok v res w show ?thesis
      by (auto simp: shell_parse_line_def parse_fail_def shell_pipeline_free_def empty_pipeline_def valid_stages_def
          pipeline_add_command_def Let_def dest: dup_Ok split: outcome.splits if_splits)
  qed (use assms Ok v in \<open>auto simp: shell_parse_line_def parse_fail_def shell_pipeline_free_def empty_pipeline_def
         valid_stages_def pipeline_add_command_def Let_def dest: dup_Ok split: outcome.splits if_splits\<close>)
qed (use assms in \<open>auto simp: shell_parse_line_def parse_fail_def shell_pipeline_free_def Let_def split: outcome.splits\<close>)

theorem parse_line_outcome_witness:
  "let q = \<lparr>sp_commands = [\<lparr>sc_argv = [''ls''], sc_input_path = None, sc_output_path = None, sc_append_output = False\<rparr>,
                           \<lparr>sc_argv = [''wc''], sc_input_path = None, sc_output_path = Some ''n'', sc_append_output = True\<rparr>],
           sp_background = True, sp_source = Some ''ls|wc>>n&''\<rparr>
   in shell_parse_line (\<lambda>_. True) (Some ''ls|wc>>n&'') (Some empty_pipeline) None = Parse_Ret 0 (Some q) None \<and>
      valid_stages (sp_commands q)"
proof -
  let ?q = "\<lparr>sp_commands = [\<lparr>sc_argv = [''ls''], sc_input_path = None, sc_output_path = None, sc_append_output = False\<rparr>,
                           \<lparr>sc_argv = [''wc''], sc_input_path = None, sc_output_path = Some ''n'', sc_append_output = True\<rparr>],
           sp_background = True, sp_source = Some ''ls|wc>>n&''\<rparr>"
  have "shell_parse_line (\<lambda>_. True) (Some ''ls|wc>>n&'') (Some empty_pipeline) None = Parse_Ret 0 (Some ?q) None"
    by code_simp
  with parse_line_outcome [OF this] show ?thesis by simp
qed

text \<open>
  C24. Print and parse: every valid pipeline, written with quoted words, is parsed back to itself,
  including its words of any characters, redirections, append mode and background flag.
\<close>

theorem parse_render_roundtrip:
  assumes m: "\<forall>n. mem n" and cs: "cs \<noteq> []" "valid_stages cs"
    and ap: "\<forall>c\<in>set cs. sc_append_output c \<longrightarrow> sc_output_path c \<noteq> None"
  shows "shell_parse_line mem (Some (render_pipeline cs bg)) (Some p0) err_size =
    Parse_Ret 0 (Some \<lparr>sp_commands = cs, sp_background = bg, sp_source = Some (render_pipeline cs bg)\<rparr>) None"
proof -
  have argv: "\<forall>c\<in>set cs. sc_argv c \<noteq> []" using cs(2) by (auto simp: valid_stages_def in_set_conv_nth)
  obtain cap where t: "tokenize mem (render_pipeline cs bg) ([], 0) = Ok (pipeline_tokens cs bg, cap)"
    using tokenize_render [OF m, of "pipeline_tokens cs bg" "[]" 0] by (auto simp: render_pipeline_def)
  have b: "build mem (pipeline_tokens cs bg) [empty_command] False = Ok (cs, bg)"
    using build_pipeline [OF m cs(1), of bg "[]"] argv ap by fastforce
  have "pipeline_tokens cs bg \<noteq> []"
    using cs(1) argv by (cases "(cs, bg)" rule: pipeline_tokens.cases) (auto simp: cmd_tokens_def)
  with t b cs(2) show ?thesis
    by (simp add: shell_parse_line_def dup_mem [OF m] add_command_mem [OF m] check_stages_valid [THEN iffD2]
        empty_pipeline_def)
qed

theorem parse_render_roundtrip_witness:
  "let cs = [\<lparr>sc_argv = [''echo'', ''a b|c''], sc_input_path = Some ''in'', sc_output_path = None, sc_append_output = False\<rparr>]
   in shell_parse_line (\<lambda>_. True) (Some (render_pipeline cs True)) (Some empty_pipeline) None =
      Parse_Ret 0 (Some \<lparr>sp_commands = cs, sp_background = True, sp_source = Some (render_pipeline cs True)\<rparr>) None"
  unfolding Let_def by (rule parse_render_roundtrip) (simp_all add: valid_stages_def)

end
