(* ===== verification/Shell_Jobs.thy ===== *)
theory Shell_Jobs
  imports Common
begin

text \<open>
  The job table of the shell, \<^verbatim>\<open>shell/jobs.c\<close>: a linked list of jobs, newest first, the wait
  statuses that change their states, and the removal of finished jobs. The list is the list of its
  nodes with their addresses; process numbers and the answers of \<open>waitpid\<close> come from the system.
\<close>

section \<open>Data\<close>

datatype JobState = JOB_RUNNING | JOB_STOPPED | JOB_DONE

record Job =
  jb_id :: int
  jb_pgid :: int
  jb_pids :: "int list"
  jb_remaining :: nat
  jb_state :: JobState
  jb_command :: string

record JobList =
  jl_head :: "(nat \<times> Job) list"
  jl_next_id :: int

text \<open>
  The macros of \<^verbatim>\<open>sys/wait.h\<close> on a wait status: the low seven bits are the terminating signal,
  \<open>0x7f\<close> in the low byte marks a stop and \<open>0xffff\<close> a continue.
\<close>

definition WIFEXITED :: "nat \<Rightarrow> bool" where
  "WIFEXITED st \<longleftrightarrow> st mod 128 = 0"

definition WIFSIGNALED :: "nat \<Rightarrow> bool" where
  "WIFSIGNALED st \<longleftrightarrow> 0 < st mod 128 \<and> st mod 128 < 127"

definition WIFSTOPPED :: "nat \<Rightarrow> bool" where
  "WIFSTOPPED st \<longleftrightarrow> st mod 256 = 127"

definition WIFCONTINUED :: "nat \<Rightarrow> bool" where
  "WIFCONTINUED st \<longleftrightarrow> st = 0xffff"

section \<open>Operations\<close>

definition jobs_init :: JobList where
  "jobs_init = \<lparr>jl_head = [], jl_next_id = 1\<rparr>"

definition job_state_name :: "JobState \<Rightarrow> string" where
  "job_state_name s = (case s of JOB_RUNNING \<Rightarrow> ''Running'' | JOB_STOPPED \<Rightarrow> ''Stopped'' | JOB_DONE \<Rightarrow> ''Done'')"

text \<open>\<open>a\<close> is the address of the new node; the identifier is returned through it.\<close>

definition jobs_add :: "nat \<Rightarrow> JobList \<Rightarrow> int \<Rightarrow> int list \<Rightarrow> string option \<Rightarrow> JobState \<Rightarrow> JobList" where
  "jobs_add a l pgid pids command st =
     l\<lparr>jl_next_id := jl_next_id l + 1,
       jl_head :=
         (a, \<lparr>jb_id = jl_next_id l, jb_pgid = pgid, jb_pids = pids, jb_remaining = length pids,
              jb_state = st, jb_command = (case command of None \<Rightarrow> [] | Some c \<Rightarrow> c)\<rparr>) # jl_head l\<rparr>"

definition jobs_find_id :: "JobList \<Rightarrow> int \<Rightarrow> (nat \<times> Job) option" where
  "jobs_find_id l i = find (\<lambda>(a, j). jb_id j = i) (jl_head l)"

definition jobs_find_pid :: "JobList \<Rightarrow> int \<Rightarrow> (nat \<times> Job) option" where
  "jobs_find_pid l pid = find (\<lambda>(a, j). pid \<in> set (jb_pids j)) (jl_head l)"

definition set_job :: "nat \<Rightarrow> Job \<Rightarrow> JobList \<Rightarrow> JobList" where
  "set_job a j l = l\<lparr>jl_head := map (\<lambda>(b, k). if b = a then (b, j) else (b, k)) (jl_head l)\<rparr>"

definition status_update :: "nat \<Rightarrow> Job \<Rightarrow> Job" where
  "status_update st j =
     (if WIFSTOPPED st then j\<lparr>jb_state := JOB_STOPPED\<rparr>
      else if WIFCONTINUED st then j\<lparr>jb_state := JOB_RUNNING\<rparr>
      else if WIFEXITED st \<or> WIFSIGNALED st then
        let r = (if jb_remaining j > 0 then jb_remaining j - 1 else jb_remaining j);
            j1 = j\<lparr>jb_remaining := r\<rparr>
        in if r = 0 then j1\<lparr>jb_state := JOB_DONE\<rparr> else j1
      else j)"

definition jobs_update_status :: "JobList \<Rightarrow> int \<Rightarrow> nat \<Rightarrow> JobList" where
  "jobs_update_status l pid st =
     (case jobs_find_pid l pid of None \<Rightarrow> l | Some (a, j) \<Rightarrow> set_job a (status_update st j) l)"

definition int_text :: "int \<Rightarrow> string" where
  "int_text i = (if i < 0 then CHR ''-'' # dec (nat (- i)) else dec (nat i))"

definition pad8 :: "string \<Rightarrow> string" where
  "pad8 s = s @ replicate (8 - length s) (CHR '' '')"

text \<open>
  \<open>jobs_reap\<close>: \<open>answers\<close> are the successive answers of \<open>waitpid\<close> with a positive process number,
  \<open>final\<close> is the last answer with its \<open>errno\<close>. The result: the list, the lines written to
  \<open>notify_fd\<close> and whether \<open>perror\<close> reported a failure.
\<close>

definition reap_one :: "int \<Rightarrow> int \<times> nat \<Rightarrow> JobList \<times> string list \<Rightarrow> JobList \<times> string list" where
  "reap_one notify_fd ev s =
     (let (l, out) = s; (pid, st) = ev;
          l1 = jobs_update_status l pid st
      in case jobs_find_pid l pid of
           None \<Rightarrow> (l1, out)
         | Some (a, j) \<Rightarrow>
             let k = status_update st j
             in if notify_fd \<ge> 0 \<and> jb_state k \<noteq> jb_state j
                then (l1, out @ [''['' @ int_text (jb_id k) @ ''] '' @ pad8 (job_state_name (jb_state k)) @ '' '' @ jb_command k])
                else (l1, out))"

definition ECHILD :: int where
  "ECHILD = 10"

definition jobs_reap :: "JobList \<Rightarrow> int \<Rightarrow> (int \<times> nat) list \<Rightarrow> int \<times> int \<Rightarrow> JobList \<times> string list \<times> bool" where
  "jobs_reap l notify_fd answers final =
     (let (l1, out) = fold (reap_one notify_fd) answers (l, [])
      in (l1, out, fst final < 0 \<and> snd final \<noteq> ECHILD))"

fun unlink :: "nat \<Rightarrow> (nat \<times> Job) list \<Rightarrow> (nat \<times> Job) list" where
  "unlink a [] = []"
| "unlink a ((b, j) # xs) = (if b = a then xs else (b, j) # unlink a xs)"

definition jobs_remove :: "JobList \<Rightarrow> nat option \<Rightarrow> JobList" where
  "jobs_remove l target = (case target of None \<Rightarrow> l | Some a \<Rightarrow> l\<lparr>jl_head := unlink a (jl_head l)\<rparr>)"

text \<open>The walk of \<open>jobs_remove_done\<close> fetches the successor before it removes the node.\<close>

fun remove_done_loop :: "(nat \<times> Job) list \<Rightarrow> JobList \<Rightarrow> JobList" where
  "remove_done_loop [] l = l"
| "remove_done_loop ((a, j) # rest) l =
     remove_done_loop rest (if jb_state j = JOB_DONE then jobs_remove l (Some a) else l)"

definition jobs_remove_done :: "JobList \<Rightarrow> JobList" where
  "jobs_remove_done l = remove_done_loop (jl_head l) l"

definition jobs_destroy :: "JobList \<Rightarrow> JobList" where
  "jobs_destroy l = \<lparr>jl_head = [], jl_next_id = 0\<rparr>"

definition job_line :: "Job \<Rightarrow> string" where
  "job_line j =
     ''['' @ int_text (jb_id j) @ ''] '' @ pad8 (job_state_name (jb_state j)) @ '' pgid='' @ int_text (jb_pgid j) @
     ''  '' @ jb_command j"

definition jobs_print :: "JobList \<Rightarrow> (int \<times> nat) list \<Rightarrow> int \<times> int \<Rightarrow> JobList \<times> string list" where
  "jobs_print l answers final =
     (let (l1, out, err) = jobs_reap l (-1) answers final
      in (jobs_remove_done l1, map (job_line \<circ> snd) (jl_head l1)))"

section \<open>Lists of jobs\<close>

text \<open>The addresses of the nodes differ, and no process belongs to two jobs or twice to one.\<close>

definition job_pids :: "JobList \<Rightarrow> int list" where
  "job_pids l = concat (map (jb_pids \<circ> snd) (jl_head l))"

definition jobs_wf :: "JobList \<Rightarrow> bool" where
  "jobs_wf l \<longleftrightarrow> distinct (map fst (jl_head l)) \<and> distinct (job_pids l)"

definition on_pid :: "int \<Rightarrow> nat \<Rightarrow> Job \<Rightarrow> Job" where
  "on_pid pid st j = (if pid \<in> set (jb_pids j) then status_update st j else j)"

lemma status_update_pids [simp]: "jb_pids (status_update st j) = jb_pids j"
  by (simp add: status_update_def Let_def)

lemma on_pid_pids [simp]: "jb_pids (on_pid pid st j) = jb_pids j"
  by (simp add: on_pid_def)

text \<open>With distinct processes a status reaches exactly the job that owns the process.\<close>

lemma update_status_map:
  assumes "jobs_wf l"
  shows "jobs_update_status l pid st = l\<lparr>jl_head := map (\<lambda>(a, j). (a, on_pid pid st j)) (jl_head l)\<rparr>"
proof (cases "jobs_find_pid l pid")
  case None
  then have "\<forall>(a, j)\<in>set (jl_head l). pid \<notin> set (jb_pids j)"
    by (auto simp: jobs_find_pid_def find_None_iff)
  then have "map (\<lambda>(a, j). (a, on_pid pid st j)) (jl_head l) = jl_head l"
    by (auto simp: on_pid_def intro!: map_idI)
  with None show ?thesis by (simp add: jobs_update_status_def)
next
  case (Some aj)
  obtain a j where aj: "aj = (a, j)" by (cases aj)
  from Some aj have "find (\<lambda>(b, k). pid \<in> set (jb_pids k)) (jl_head l) = Some (a, j)"
    by (simp add: jobs_find_pid_def)
  then obtain us vs where l: "jl_head l = us @ (a, j) # vs" and p: "pid \<in> set (jb_pids j)"
    by (rule find_block) auto
  have o: "b \<noteq> a" "pid \<notin> set (jb_pids k)" if "(b, k) \<in> set us \<union> set vs" for b k
  proof -
    have "b \<in> fst ` (set us \<union> set vs)" using that by (metis fst_conv imageI)
    with assms l show "b \<noteq> a" by (auto simp: jobs_wf_def image_Un)
    have "set (jb_pids k) \<subseteq> (\<Union>x\<in>set us \<union> set vs. set (jb_pids (snd x)))" using that by fastforce
    moreover have "set (jb_pids j) \<inter> (\<Union>x\<in>set us \<union> set vs. set (jb_pids (snd x))) = {}"
      using assms l by (simp add: jobs_wf_def job_pids_def) blast
    ultimately show "pid \<notin> set (jb_pids k)" using p by blast
  qed
  have "(case x of (b, k) \<Rightarrow> if b = a then (b, status_update st j) else (b, k)) = (case x of (b, k) \<Rightarrow> (b, on_pid pid st k))"
    if "x \<in> set us \<union> set vs" for x
    using that o [of "fst x" "snd x"] by (cases x) (simp add: on_pid_def)
  then have "map (\<lambda>(b, k). if b = a then (b, status_update st j) else (b, k)) (jl_head l) =
      map (\<lambda>(b, k). (b, on_pid pid st k)) (jl_head l)"
    using l p by (simp add: on_pid_def)
  with Some aj show ?thesis by (simp add: jobs_update_status_def set_job_def)
qed

lemma jobs_wf_map:
  "(\<And>j. jb_pids (f j) = jb_pids j) \<Longrightarrow> jobs_wf (l\<lparr>jl_head := map (\<lambda>(a, j). (a, f j)) (jl_head l)\<rparr>) = jobs_wf l"
  by (simp add: jobs_wf_def job_pids_def comp_def case_prod_unfold)

text \<open>Reaping applies to every job the statuses of its own processes, in their order.\<close>

definition job_after :: "(int \<times> nat) list \<Rightarrow> Job \<Rightarrow> Job" where
  "job_after es j = fold (\<lambda>(pid, st). on_pid pid st) es j"

lemma job_after_pids [simp]: "jb_pids (job_after es j) = jb_pids j"
  by (induction es arbitrary: j) (auto simp: job_after_def)

lemma reap_one_list: "fst (reap_one fd (pid, st) (l, out)) = jobs_update_status l pid st"
  by (simp add: reap_one_def Let_def split: option.splits)

lemma reap_fold:
  "jobs_wf l \<Longrightarrow>
    fst (fold (reap_one fd) es (l, out)) = l\<lparr>jl_head := map (\<lambda>(a, j). (a, job_after es j)) (jl_head l)\<rparr>"
proof (induction es arbitrary: l out)
  case Nil
  show ?case by (simp add: job_after_def)
next
  case (Cons e es)
  obtain pid st where e: "e = (pid, st)" by (cases e)
  let ?l1 = "l\<lparr>jl_head := map (\<lambda>(a, j). (a, on_pid pid st j)) (jl_head l)\<rparr>"
  obtain o1 where r: "reap_one fd e (l, out) = (?l1, o1)"
    using reap_one_list [of fd pid st l out] update_status_map [OF Cons.prems] e by (metis fst_conv surj_pair)
  have "jobs_wf ?l1" using Cons.prems jobs_wf_map by simp
  from Cons.IH [OF this, of o1] show ?case using r e by (simp add: job_after_def comp_def case_prod_unfold)
qed

lemma jobs_reap_list:
  "jobs_wf l \<Longrightarrow> fst (jobs_reap l fd es final) = l\<lparr>jl_head := map (\<lambda>(a, j). (a, job_after es j)) (jl_head l)\<rparr>"
  using reap_fold [of l fd es "[]"] by (simp add: jobs_reap_def case_prod_unfold Let_def)

lemma unlink_middle: "a \<notin> fst ` set us \<Longrightarrow> unlink a (us @ (a, j) # vs) = us @ vs"
  by (induction us) auto

lemma remove_done_filter:
  assumes "distinct (map fst (us @ vs))" "\<forall>(a, j)\<in>set us. jb_state j \<noteq> JOB_DONE"
  shows "remove_done_loop vs (l\<lparr>jl_head := us @ vs\<rparr>) = l\<lparr>jl_head := us @ filter (\<lambda>(a, j). jb_state j \<noteq> JOB_DONE) vs\<rparr>"
  using assms
proof (induction vs arbitrary: us)
  case (Cons v vs)
  obtain a j where v: "v = (a, j)" by (cases v)
  show ?case
  proof (cases "jb_state j = JOB_DONE")
    case True
    have "unlink a (us @ (a, j) # vs) = us @ vs" using Cons.prems(1) v by (intro unlink_middle) auto
    with True v Cons.prems Cons.IH [of us] show ?thesis by (simp add: jobs_remove_def)
  next
    case False
    with v Cons.prems Cons.IH [of "us @ [(a, j)]"] show ?thesis by simp
  qed
qed simp

lemma jobs_remove_done_filter:
  "distinct (map fst (jl_head l)) \<Longrightarrow>
    jl_head (jobs_remove_done l) = filter (\<lambda>(a, j). jb_state j \<noteq> JOB_DONE) (jl_head l)"
  using remove_done_filter [of "[]" "jl_head l" l] by (simp add: jobs_remove_done_def)

section \<open>Jobs and their processes\<close>

text \<open>
  A process terminates once, and nothing is reported of it afterwards: what the kernel promises
  for the processes of one session.
\<close>

definition ends :: "nat \<Rightarrow> bool" where
  "ends st \<longleftrightarrow> WIFEXITED st \<or> WIFSIGNALED st"

definition terminated :: "int \<Rightarrow> (int \<times> nat) list \<Rightarrow> bool" where
  "terminated pid es \<longleftrightarrow> (\<exists>(p, st)\<in>set es. p = pid \<and> ends st)"

fun history_ok :: "(int \<times> nat) list \<Rightarrow> bool" where
  "history_ok [] \<longleftrightarrow> True"
| "history_ok ((p, st) # es) \<longleftrightarrow> (ends st \<longrightarrow> p \<notin> fst ` set es) \<and> history_ok es"

lemma terminated_snoc [simp]: "terminated p (es @ [(q, st)]) \<longleftrightarrow> terminated p es \<or> p = q \<and> ends st"
  by (auto simp: terminated_def)

lemma history_ok_snoc: "history_ok (es @ [(p, st)]) \<longleftrightarrow> history_ok es \<and> \<not> terminated p es"
  by (induction es) (auto simp: terminated_def)

lemma ends_mod: "ends st \<longleftrightarrow> st mod 128 \<noteq> 127"
proof -
  have "st mod 128 < 128" by simp
  then show ?thesis by (simp add: ends_def WIFEXITED_def WIFSIGNALED_def) linarith
qed

lemma stop_or_continue: "WIFSTOPPED st \<or> WIFCONTINUED st \<Longrightarrow> \<not> ends st"
proof -
  assume "WIFSTOPPED st \<or> WIFCONTINUED st"
  then have "st mod 128 = 127"
  proof
    assume "WIFSTOPPED st"
    then have "st mod 256 mod 128 = 127" by (simp add: WIFSTOPPED_def)
    then show ?thesis by (simp add: mod_mod_cancel)
  qed (simp add: WIFCONTINUED_def)
  then show "\<not> ends st" by (simp add: ends_mod)
qed

lemma status_update_cases:
  "status_update st j =
    (if ends st then
       (if jb_remaining j \<le> 1 then j\<lparr>jb_remaining := 0, jb_state := JOB_DONE\<rparr>
        else j\<lparr>jb_remaining := jb_remaining j - 1\<rparr>)
     else if WIFSTOPPED st then j\<lparr>jb_state := JOB_STOPPED\<rparr>
     else if WIFCONTINUED st then j\<lparr>jb_state := JOB_RUNNING\<rparr>
     else j)"
  using stop_or_continue [of st] by (auto simp: status_update_def ends_def Let_def)

text \<open>A new job: all its processes are running.\<close>

definition fresh_job :: "Job \<Rightarrow> bool" where
  "fresh_job j \<longleftrightarrow> jb_pids j \<noteq> [] \<and> distinct (jb_pids j) \<and> jb_remaining j = length (jb_pids j) \<and> jb_state j = JOB_RUNNING"

lemma job_tracks:
  assumes "fresh_job j" "history_ok es"
  shows "jb_remaining (job_after es j) = card {p \<in> set (jb_pids j). \<not> terminated p es} \<and>
    (jb_state (job_after es j) = JOB_DONE \<longleftrightarrow> (\<forall>p\<in>set (jb_pids j). terminated p es))"
  using assms(2)
proof (induction es rule: rev_induct)
  case Nil
  show ?case using assms(1) by (auto simp: job_after_def fresh_job_def terminated_def distinct_card)
next
  case (snoc e es)
  obtain q st where e: "e = (q, st)" by (cases e)
  let ?k = "job_after es j" and ?A = "{p \<in> set (jb_pids j). \<not> terminated p es}"
  have nt: "\<not> terminated q es" and ih: "jb_remaining ?k = card ?A"
      "jb_state ?k = JOB_DONE \<longleftrightarrow> (\<forall>p\<in>set (jb_pids j). terminated p es)"
    using snoc e by (simp_all add: history_ok_snoc)
  have step: "job_after (es @ [e]) j = on_pid q st ?k" by (simp add: job_after_def e)
  show ?case
  proof (cases "q \<in> set (jb_pids j)")
    case True
    then have qA: "q \<in> ?A" using nt by simp
    have A1: "{p \<in> set (jb_pids j). \<not> terminated p (es @ [e])} = (if ends st then ?A - {q} else ?A)" using e by auto
    have "card (?A - {q}) = card ?A - 1" using qA by (simp add: card_Diff_singleton)
    moreover have "card ?A \<le> 1 \<longleftrightarrow> ?A = {q}" using card_le_1_member [OF _ qA] by simp
    ultimately show ?thesis
      using True step ih A1 qA by (auto simp: on_pid_def status_update_cases e)
  next
    case False
    then have "{p \<in> set (jb_pids j). \<not> terminated p (es @ [e])} = ?A" "(\<forall>p\<in>set (jb_pids j). terminated p (es @ [e])) = (\<forall>p\<in>set (jb_pids j). terminated p es)"
      using e by auto
    with False step ih show ?thesis by (simp add: on_pid_def)
  qed
qed

section \<open>Properties\<close>

text \<open>
  C26. The job table follows the processes: for running jobs with distinct processes, after any
  sequence of wait statuses in which a process is not heard of after its end, every job keeps its
  place and its processes, counts the processes that have not ended, and is marked done exactly
  when all of them have; the listing then drops exactly the jobs that are done and keeps the others
  in order.
\<close>

theorem jobs_track_processes:
  assumes wf: "jobs_wf l" and fresh: "\<forall>(a, j)\<in>set (jl_head l). fresh_job j" and hist: "history_ok es"
  shows "let l1 = fst (jobs_reap l notify_fd es final); l2 = fst (jobs_print l es final)
    in list_all2 (\<lambda>(a, j) (b, k). a = b \<and> jb_pids k = jb_pids j \<and>
         jb_remaining k = card {p \<in> set (jb_pids j). \<not> terminated p es} \<and>
         (jb_state k = JOB_DONE \<longleftrightarrow> (\<forall>p\<in>set (jb_pids j). terminated p es))) (jl_head l) (jl_head l1) \<and>
       jl_head l2 = filter (\<lambda>(a, k). \<exists>p\<in>set (jb_pids k). \<not> terminated p es) (jl_head l1)"
proof -
  let ?hd = "map (\<lambda>(a, j). (a, job_after es j)) (jl_head l)"
  have l1: "fst (jobs_reap l fd es final) = l\<lparr>jl_head := ?hd\<rparr>" for fd by (rule jobs_reap_list [OF wf])
  have tr: "jb_remaining (job_after es j) = card {p \<in> set (jb_pids j). \<not> terminated p es}"
      "jb_state (job_after es j) = JOB_DONE \<longleftrightarrow> (\<forall>p\<in>set (jb_pids j). terminated p es)"
    if "(a, j) \<in> set (jl_head l)" for a j
    using that fresh job_tracks [OF _ hist, of j] by auto
  have "distinct (map fst (jl_head (l\<lparr>jl_head := ?hd\<rparr>)))" using wf by (simp add: jobs_wf_def comp_def case_prod_unfold)
  then have "jl_head (fst (jobs_print l es final)) = filter (\<lambda>(a, k). jb_state k \<noteq> JOB_DONE) ?hd"
    using jobs_remove_done_filter [of "l\<lparr>jl_head := ?hd\<rparr>"] l1 [of "-1"] by (simp add: jobs_print_def case_prod_unfold Let_def)
  also have "\<dots> = filter (\<lambda>(a, k). \<exists>p\<in>set (jb_pids k). \<not> terminated p es) ?hd"
    using tr(2) by (intro filter_cong) auto
  finally show ?thesis using l1 tr by (auto simp: Let_def list_all2_map2 list_all2_same)
qed

theorem jobs_track_processes_witness:
  "let l = jobs_add 2 (jobs_add 1 jobs_init 10 [10, 11] (Some ''a|b'') JOB_RUNNING) 12 [12] None JOB_RUNNING;
       es = [(10, 0), (12, 0x137f), (11, 9)]; l1 = fst (jobs_reap l 1 es (0, 0)); l2 = fst (jobs_print l es (0, 0))
   in jl_head l2 = filter (\<lambda>(a, k). \<exists>p\<in>set (jb_pids k). \<not> terminated p es) (jl_head l1) \<and>
      map (jb_id \<circ> snd) (jl_head l2) = [2] \<and> map (jb_state \<circ> snd) (jl_head l1) = [JOB_STOPPED, JOB_DONE]"
proof -
  let ?l = "jobs_add 2 (jobs_add 1 jobs_init 10 [10, 11] (Some ''a|b'') JOB_RUNNING) 12 [12] None JOB_RUNNING"
  let ?es = "[(10, 0), (12, 0x137f), (11, 9)] :: (int \<times> nat) list"
  have h: "jobs_wf ?l" "\<forall>(a, j)\<in>set (jl_head ?l). fresh_job j" "history_ok ?es"
    by (simp_all add: jobs_wf_def job_pids_def jobs_add_def jobs_init_def fresh_job_def ends_mod)
  have l1: "map (\<lambda>(a, k). (jb_id k, jb_pids k, jb_state k)) (jl_head (fst (jobs_reap ?l 1 ?es (0, 0)))) =
      [(2, [12], JOB_STOPPED), (1, [10, 11], JOB_DONE)]"
    unfolding jobs_reap_list [OF h(1)]
    by (simp add: job_after_def on_pid_def status_update_def jobs_add_def jobs_init_def
        WIFSTOPPED_def WIFCONTINUED_def WIFEXITED_def WIFSIGNALED_def)
  then obtain a b j k where "jl_head (fst (jobs_reap ?l 1 ?es (0, 0))) = [(a, j), (b, k)]"
      "jb_id j = 2" "jb_pids j = [12]" "jb_state j = JOB_STOPPED" "jb_pids k = [10, 11]" "jb_state k = JOB_DONE"
    by auto
  with jobs_track_processes [OF h, of 1 "(0, 0)", unfolded Let_def, THEN conjunct2] show ?thesis
    by (simp add: Let_def terminated_def ends_mod)
qed

end
