(* ===== verification/Shell_History.thy ===== *)
theory Shell_History
  imports Common
begin

text \<open>
  The command history of the shell, from \<^verbatim>\<open>shell/shell.c\<close>: the window of the last hundred
  commands with the number of its first entry, and the expansion of \<open>!!\<close> and \<open>!n\<close>. The array
  and its count are the list of the stored commands. Memory for copies is taken to be available
  here; the callers in \<open>Shell_Main\<close> add the branches in which it is not.
\<close>

section \<open>Data\<close>

definition SHELL_HISTORY_MAX :: nat where
  "SHELL_HISTORY_MAX = 100"

record history =
  hs_entries :: "string list"
  hs_base :: nat

definition history_init :: history where
  "history_init = \<lparr>hs_entries = [], hs_base = 1\<rparr>"

section \<open>Operations\<close>

definition is_eol :: "char \<Rightarrow> bool" where
  "is_eol c \<longleftrightarrow> c = CHR 0x0A \<or> c = CHR 0x0D"

definition strip_eol :: "string \<Rightarrow> string" where
  "strip_eol s = rev (dropWhile is_eol (rev s))"

definition history_add :: "history \<Rightarrow> string \<Rightarrow> history" where
  "history_add h line =
     (if line = [] then h
      else
        let copy = strip_eol line
        in if copy = [] then h
           else
             let h1 = (if length (hs_entries h) = SHELL_HISTORY_MAX
                       then h\<lparr>hs_entries := tl (hs_entries h), hs_base := wrap64 (hs_base h + 1)\<rparr> else h)
             in h1\<lparr>hs_entries := hs_entries h1 @ [copy]\<rparr>)"

definition history_lookup :: "history \<Rightarrow> nat \<Rightarrow> string option" where
  "history_lookup h number =
     (if number < hs_base h then None
      else
        let index = number - hs_base h
        in if index \<ge> length (hs_entries h) then None else Some (hs_entries h ! index))"

text \<open>\<open>strtoul(s, &end, 10)\<close>: value, text after the number, range error.\<close>

definition strtoul10 :: "string \<Rightarrow> nat \<times> string \<times> bool" where
  "strtoul10 s =
     (let s1 = dropWhile c_isspace s;
          neg = (s1 \<noteq> [] \<and> hd s1 = CHR ''-'');
          s2 = (if s1 \<noteq> [] \<and> (hd s1 = CHR ''-'' \<or> hd s1 = CHR ''+'') then tl s1 else s1);
          ds = takeWhile c_isdigit s2;
          n = dec_value ds
      in if ds = [] then (0, s, False)
         else if n \<ge> 2 ^ 64 then (2 ^ 64 - 1, dropWhile c_isdigit s2, True)
         else (if neg then wrap64 (2 ^ 64 - n) else n, dropWhile c_isdigit s2, False))"

text \<open>The result of \<open>history_expand\<close>: the expanded line, or the message in front of a null pointer.\<close>

datatype expansion = Expanded string | No_Expansion string

definition history_expand :: "history \<Rightarrow> string \<Rightarrow> expansion" where
  "history_expand h line0 =
     (let line = dropWhile (\<lambda>c. c = CHR '' '' \<or> c = CHR 0x09) line0;
          event = takeWhile (\<lambda>c. \<not> is_eol c) line
      in if length event = 2 \<and> take 2 line = ''!!'' then
           (if hs_entries h = [] then No_Expansion ''history: no previous command''
            else Expanded (last (hs_entries h)))
         else if length event > 1 \<and> hd line = CHR ''!'' then
           (if length event \<ge> 64 then No_Expansion ''history: event specifier too long''
            else
              let (n, rest, range_error) = strtoul10 (tl event)
              in if range_error \<or> rest \<noteq> []
                 then No_Expansion (''history: invalid event '' @ [CHR 0x27] @ event @ [CHR 0x27])
                 else
                   (case history_lookup h n of
                      None \<Rightarrow> No_Expansion (''history: event '' @ dec n @ '' not found'')
                    | Some entry \<Rightarrow> Expanded entry))
         else Expanded line)"

text \<open>\<open>%5lu\<close>\<close>

definition pad5 :: "string \<Rightarrow> string" where
  "pad5 s = replicate (5 - length s) (CHR '' '') @ s"

text \<open>The lines \<open>builtin_history\<close> prints for the argument vector of the command.\<close>

definition builtin_history :: "history \<Rightarrow> string list \<Rightarrow> string list" where
  "builtin_history h argv =
     (let count = length (hs_entries h);
          from = (if length argv = 2 then
                    (let (n, rest) = strtol10 (argv ! 1)
                     in if rest = [] \<and> n \<ge> 0 \<and> nat n < count then count - nat n else 0)
                  else 0);
          start = wrap64 (hs_base h + from)
      in map (\<lambda>i. pad5 (dec (wrap64 (start + (i - from)))) @ ''  '' @ hs_entries h ! i) [from..<count])"

section \<open>The window\<close>

text \<open>The commands a sequence of lines adds: stripped of line ends, empty ones left out.\<close>

definition accepted :: "string list \<Rightarrow> string list" where
  "accepted lines = filter (\<lambda>s. s \<noteq> []) (map strip_eol lines)"

definition history_of :: "string list \<Rightarrow> history" where
  "history_of lines = fold (\<lambda>l h. history_add h l) lines history_init"

lemma strip_eol_Nil [simp]: "strip_eol [] = []"
  by (simp add: strip_eol_def)

lemma accepted_snoc: "accepted (ls @ [l]) = accepted ls @ (if strip_eol l = [] then [] else [strip_eol l])"
  by (simp add: accepted_def)

text \<open>The stored entries are the last hundred accepted commands, and the base counts the others.\<close>

lemma history_window:
  assumes "length lines < 2 ^ 63"
  shows "hs_entries (history_of lines) = drop (length (accepted lines) - SHELL_HISTORY_MAX) (accepted lines) \<and>
    hs_base (history_of lines) = length (accepted lines) - SHELL_HISTORY_MAX + 1"
  using assms
proof (induction lines rule: rev_induct)
  case Nil
  show ?case by (simp add: history_of_def history_init_def accepted_def)
next
  case (snoc l ls)
  let ?h = "history_of ls" and ?n = "length (accepted ls)"
  have ih: "hs_entries ?h = drop (?n - SHELL_HISTORY_MAX) (accepted ls)" "hs_base ?h = ?n - SHELL_HISTORY_MAX + 1"
    using snoc by simp_all
  have step: "history_of (ls @ [l]) = history_add ?h l" by (simp add: history_of_def)
  have "?n \<le> length ls" by (simp add: accepted_def filter_map)
  then have small: "?n < 2 ^ 63" using snoc.prems by simp
  show ?case
  proof (cases "strip_eol l = []")
    case True
    then show ?thesis using ih by (simp add: step history_add_def accepted_snoc)
  next
    case False
    then have l: "l \<noteq> []" by auto
    have len: "length (hs_entries ?h) = min ?n SHELL_HISTORY_MAX" by (simp add: ih SHELL_HISTORY_MAX_def)
    show ?thesis
    proof (cases "?n < SHELL_HISTORY_MAX")
      case True
      with False l len ih show ?thesis by (simp add: step history_add_def accepted_snoc Let_def)
    next
      case full: False
      then have "?n + 1 - SHELL_HISTORY_MAX = Suc (?n - SHELL_HISTORY_MAX)" "?n - SHELL_HISTORY_MAX < ?n"
        by (simp_all add: SHELL_HISTORY_MAX_def)
      then have d: "tl (hs_entries ?h) @ [strip_eol l] = drop (?n + 1 - SHELL_HISTORY_MAX) (accepted ls @ [strip_eol l])"
        by (simp add: ih drop_Suc tl_drop)
      have "wrap64 (hs_base ?h + 1) = hs_base ?h + 1" using ih(2) small by simp
      with d full False l len ih show ?thesis by (simp add: step history_add_def accepted_snoc Let_def Suc_diff_le)
    qed
  qed
qed

lemma history_lookup_window:
  assumes "length lines < 2 ^ 63"
  shows "history_lookup (history_of lines) k =
    (let acc = accepted lines
     in if length acc - SHELL_HISTORY_MAX < k \<and> k \<le> length acc then Some (acc ! (k - 1)) else None)"
proof -
  let ?acc = "accepted lines"
  have w: "hs_entries (history_of lines) = drop (length ?acc - SHELL_HISTORY_MAX) ?acc"
      "hs_base (history_of lines) = length ?acc - SHELL_HISTORY_MAX + 1"
    using history_window [OF assms] by simp_all
  show ?thesis
  proof (cases "length ?acc - SHELL_HISTORY_MAX < k")
    case True
    then have "length ?acc - SHELL_HISTORY_MAX + (k - (length ?acc - SHELL_HISTORY_MAX + 1)) = k - 1" by simp
    with True show ?thesis by (auto simp: history_lookup_def Let_def w)
  qed (simp add: history_lookup_def w)
qed

lemma strtoul10_dec: "n < 2 ^ 64 \<Longrightarrow> strtoul10 (dec n) = (n, [], False)"
proof -
  assume n: "n < 2 ^ 64"
  obtain d ds where d: "dec n = d # ds" "c_isdigit d" "\<not> c_isspace d" "d \<noteq> CHR ''-''" "d \<noteq> CHR ''+''"
    by (rule dec_first)
  have tw: "takeWhile c_isdigit ds = ds" using dec_span(1) [of "[]" n] d by simp
  show ?thesis
    using n d dec_value_dec [of n] dec_span(2) [of "[]" n] by (simp add: strtoul10_def Let_def tw)
qed

lemma dec_length: "n < 10 ^ d \<Longrightarrow> length (dec n) \<le> max 1 d"
proof (induction d arbitrary: n)
  case 0
  then show ?case by (simp add: dec.simps [of 0])
next
  case (Suc d)
  show ?case
  proof (cases "n < 10")
    case False
    then have "d \<noteq> 0" using Suc.prems by (cases d) auto
    moreover have "n div 10 < 10 ^ d" using Suc.prems by (simp add: less_mult_imp_div_less mult.commute)
    ultimately show ?thesis using Suc.IH [of "n div 10"] False by (subst dec.simps) simp
  qed (simp add: dec.simps [of n])
qed

text \<open>What the two history events expand to, with any line end behind them.\<close>

lemma eol_span:
  assumes "\<forall>c\<in>set eol. is_eol c" "\<forall>c\<in>set s. \<not> is_eol c"
  shows "takeWhile (\<lambda>c. \<not> is_eol c) (s @ eol) = s"
  using assms by (cases eol) auto

lemma digit_not_eol: "c_isdigit c \<Longrightarrow> \<not> is_eol c"
  by (auto simp: c_isdigit_def is_eol_def)

lemma expand_number:
  assumes "k < 2 ^ 64" "\<forall>c\<in>set eol. is_eol c"
  shows "history_expand h (''!'' @ dec k @ eol) =
    (case history_lookup h k of
       None \<Rightarrow> No_Expansion (''history: event '' @ dec k @ '' not found'')
     | Some entry \<Rightarrow> Expanded entry)"
proof -
  have "\<forall>c\<in>set (CHR ''!'' # dec k). \<not> is_eol c"
    using dec_digits [of k] digit_not_eol by (auto simp: list_all_iff is_eol_def)
  then have ev: "takeWhile (\<lambda>c. \<not> is_eol c) (CHR ''!'' # dec k @ eol) = CHR ''!'' # dec k"
    using eol_span [OF assms(2), of "CHR ''!'' # dec k"] by simp
  have "length (dec k) \<le> max 1 20" using assms(1) by (intro dec_length) simp
  moreover obtain d ds where d: "dec k = d # ds" "c_isdigit d" by (rule dec_first)
  moreover have "d \<noteq> CHR ''!''" using d(2) by (auto simp: c_isdigit_def)
  ultimately show ?thesis
    using ev strtoul10_dec [OF assms(1)] by (simp add: history_expand_def Let_def)
qed

lemma expand_last:
  assumes "\<forall>c\<in>set eol. is_eol c"
  shows "history_expand h (''!!'' @ eol) =
    (if hs_entries h = [] then No_Expansion ''history: no previous command'' else Expanded (last (hs_entries h)))"
proof -
  have "takeWhile (\<lambda>c. \<not> is_eol c) (''!!'' @ eol) = ''!!''"
    using assms by (intro eol_span) (simp_all add: is_eol_def)
  then show ?thesis by (simp add: history_expand_def Let_def)
qed

section \<open>Properties\<close>

text \<open>
  Numbered history: whatever lines were added before (fewer than 2 to the 63rd), let \<open>acc\<close> be the
  commands among them, without their line ends and without empty ones. Then \<open>!k\<close> stands for the
  \<open>k\<close>-th of these commands as long as it is one of the last hundred, every other number is
  reported as not found, and \<open>!!\<close> stands for the last command. Numbers therefore never shift when
  old entries are dropped.
\<close>

theorem history_numbering:
  assumes "length lines < 2 ^ 63" "k < 2 ^ 64" "\<forall>c\<in>set eol. is_eol c"
  shows "let h = history_of lines; acc = accepted lines
    in history_expand h (''!'' @ dec k @ eol) =
         (if length acc - 100 < k \<and> k \<le> length acc then Expanded (acc ! (k - 1))
          else No_Expansion (''history: event '' @ dec k @ '' not found'')) \<and>
       history_expand h (''!!'' @ eol) =
         (if acc = [] then No_Expansion ''history: no previous command'' else Expanded (last acc))"
proof -
  have w: "hs_entries (history_of lines) = drop (length (accepted lines) - 100) (accepted lines)"
    using history_window [OF assms(1)] by (simp add: SHELL_HISTORY_MAX_def)
  then have "hs_entries (history_of lines) = [] \<longleftrightarrow> accepted lines = []" by (cases "accepted lines") auto
  moreover have "last (hs_entries (history_of lines)) = last (accepted lines)" if "accepted lines \<noteq> []"
    using that by (simp add: w)
  ultimately show ?thesis
    unfolding Let_def expand_number [OF assms(2,3)] expand_last [OF assms(3)] history_lookup_window [OF assms(1)]
    by (auto simp: SHELL_HISTORY_MAX_def)
qed

theorem history_numbering_witness:
  "history_expand (history_of [''ls'', ''pwd'']) ''!1'' = Expanded ''ls''"
proof -
  have d: "dec (Suc 0) = ''1''" by code_simp
  have a: "accepted [''ls'', ''pwd''] = [''ls'', ''pwd'']" by code_simp
  have "length [''ls'', ''pwd''] < (2::nat) ^ 63" "(1::nat) < 2 ^ 64" "\<forall>c\<in>set []. is_eol c" by simp_all
  from history_numbering [OF this] show ?thesis by (simp add: Let_def a d)
qed

end
