(* ===== verification/Shell_Exec.thy ===== *)
theory Shell_Exec
  imports Shell_Parser Shell_Jobs Shell_History "HOL-Library.Monad_Syntax"
begin

text \<open>
  The execution of pipelines, from \<^verbatim>\<open>shell/shell.c\<close>: the descriptors of a child process, the pipes
  and processes the shell creates, the job it records and the wait for a foreground job. The parent
  and its children are separate processes, so the two sides of \<open>fork\<close> are separate functions: the
  parent works on a log of system calls, the child on its own descriptor table.
\<close>

section \<open>The child\<close>

text \<open>
  A descriptor table maps numbers to open files: inherited ones, and those the child opens.
  \<open>co_open\<close> gives the descriptor of an opened file, \<open>None\<close> is a refused call; \<open>co_setpgid\<close> and
  \<open>co_exec\<close> give the \<open>errno\<close> of a call that fails.
\<close>

datatype fobj = Inherited nat | Opened string nat nat

type_synonym fds = "int \<Rightarrow> fobj option"

record child_os =
  co_dup2_fails :: "int \<Rightarrow> int \<Rightarrow> bool"
  co_open :: "fds \<Rightarrow> string \<Rightarrow> nat \<Rightarrow> int option"
  co_setpgid :: "int \<Rightarrow> int option"
  co_exec :: "string list \<Rightarrow> int option"

definition EPERM :: int where "EPERM = 1"
definition ENOENT :: int where "ENOENT = 2"
definition ESRCH :: int where "ESRCH = 3"
definition EINTR :: int where "EINTR = 4"
definition EACCES :: int where "EACCES = 13"

definition O_RDONLY :: nat where "O_RDONLY = 0"
definition O_WRONLY :: nat where "O_WRONLY = 1"
definition O_CREAT :: nat where "O_CREAT = 0x40"
definition O_TRUNC :: nat where "O_TRUNC = 0x200"
definition O_APPEND :: nat where "O_APPEND = 0x400"

definition dup2 :: "child_os \<Rightarrow> fds \<Rightarrow> int \<Rightarrow> int \<Rightarrow> fds option" where
  "dup2 os t old new = (if t old = None \<or> co_dup2_fails os old new then None else Some (t(new := t old)))"

definition redirect_file :: "child_os \<Rightarrow> fds \<Rightarrow> string \<Rightarrow> int \<Rightarrow> nat \<Rightarrow> nat \<Rightarrow> fds option" where
  "redirect_file os t path target_fd flags mode =
     do {
       fd \<leftarrow> co_open os t path flags;
       t1 \<leftarrow> dup2 os (t(fd := Some (Opened path flags mode))) fd target_fd;
       Some (t1(fd := None))
     }"

definition setup_command_fds ::
    "child_os \<Rightarrow> fds \<Rightarrow> ShellPipeline \<Rightarrow> nat \<Rightarrow> (int \<times> int) list \<Rightarrow> int \<Rightarrow> int \<Rightarrow> fds option" where
  "setup_command_fds os t pipeline index pipes out_fd err_fd =
     (let cmd = sp_commands pipeline ! index
      in do {
        t1 \<leftarrow> (if index > 0 then dup2 os t (fst (pipes ! (index - 1))) 0 else Some t);
        t2 \<leftarrow> (if index + 1 < length (sp_commands pipeline) then dup2 os t1 (snd (pipes ! index)) 1
              else if out_fd \<ge> 0 \<and> out_fd \<noteq> 1 then dup2 os t1 out_fd 1 else Some t1);
        t3 \<leftarrow> (if err_fd \<ge> 0 \<and> err_fd \<noteq> 2 then dup2 os t2 err_fd 2 else Some t2);
        t4 \<leftarrow> (case sc_input_path cmd of None \<Rightarrow> Some t3 | Some p \<Rightarrow> redirect_file os t3 p 0 O_RDONLY 0);
        (case sc_output_path cmd of
           None \<Rightarrow> Some t4
         | Some p \<Rightarrow>
             redirect_file os t4 p 1 (O_WRONLY OR O_CREAT OR (if sc_append_output cmd then O_APPEND else O_TRUNC)) 0x1B6)
      })"

definition pipe_fds :: "(int \<times> int) list \<Rightarrow> int list" where
  "pipe_fds pipes = concat (map (\<lambda>(r, w). (if r \<ge> 0 then [r] else []) @ (if w \<ge> 0 then [w] else [])) pipes)"

definition close_fds :: "int list \<Rightarrow> fds \<Rightarrow> fds" where
  "close_fds xs t = fold (\<lambda>fd t. t(fd := None)) xs t"

text \<open>
  Signal dispositions: the default, ignoring, or a function with the flags of its \<open>sigaction\<close>. A
  program that is executed keeps the ignored signals; those with a function go back to the default.
\<close>

datatype disposition = SIG_DFL | SIG_IGN | Handler string nat

type_synonym signals = "int \<Rightarrow> disposition"

definition SIGINT :: int where "SIGINT = 2"
definition SIGQUIT :: int where "SIGQUIT = 3"
definition SIGCHLD :: int where "SIGCHLD = 17"
definition SIGTSTP :: int where "SIGTSTP = 20"
definition SIGTTIN :: int where "SIGTTIN = 21"
definition SIGTTOU :: int where "SIGTTOU = 22"

definition restore_child_signals :: "signals \<Rightarrow> signals" where
  "restore_child_signals sg =
     sg(SIGINT := SIG_DFL, SIGQUIT := SIG_DFL, SIGTSTP := SIG_DFL, SIGTTIN := SIG_DFL, SIGTTOU := SIG_DFL,
        SIGCHLD := SIG_DFL)"

fun exec_disposition :: "disposition \<Rightarrow> disposition" where
  "exec_disposition (Handler f flags) = SIG_DFL"
| "exec_disposition d = d"

text \<open>
  How a child ends up: in the program it executes, with its descriptors and signal dispositions, or
  with an exit code.
\<close>

datatype child_end = Execs "string list" fds signals | Exits int

definition child_main ::
    "child_os \<Rightarrow> fds \<Rightarrow> signals \<Rightarrow> ShellPipeline \<Rightarrow> nat \<Rightarrow> (int \<times> int) list \<Rightarrow> int \<Rightarrow> int \<Rightarrow> int \<Rightarrow> int \<Rightarrow> child_end" where
  "child_main os t sg pipeline i pipes out_fd err_fd pgid child_pid =
     (let sg1 = restore_child_signals sg;
          child_pgid = (if pgid \<noteq> 0 then pgid else child_pid);
          argv = sc_argv (sp_commands pipeline ! i)
      in if (case co_setpgid os child_pgid of None \<Rightarrow> False | Some e \<Rightarrow> e \<noteq> EACCES) then Exits 126
         else
           (case setup_command_fds os t pipeline i pipes out_fd err_fd of
              None \<Rightarrow> Exits 126
            | Some t1 \<Rightarrow>
                let t2 = close_fds (pipe_fds pipes) t1
                in case co_exec os argv of
                     None \<Rightarrow> Execs argv t2 (exec_disposition \<circ> sg1)
                   | Some e \<Rightarrow> Exits (if e = ENOENT then 127 else 126)))"

section \<open>The parent\<close>

text \<open>
  The log records the calls that had an effect and the texts written. What the system answers may
  depend on the whole log. A failing call gives its \<open>errno\<close> on the left or in \<open>Some\<close>; \<open>os_reap\<close>
  gives the answers of one run of \<open>jobs_reap\<close>, and \<open>os_addr\<close> the address of a new job.
\<close>

datatype sh_event =
    Ev_pipe int int
  | Ev_close int
  | Ev_fork int
  | Ev_setpgid int int
  | Ev_kill int int
  | Ev_wait int
  | Ev_tcsetpgrp int int
  | Ev_chdir string
  | Ev_reap
  | Ev_sigaction int disposition
  | Ev_out int string

record shell_os =
  os_mem :: "nat \<Rightarrow> bool"
  os_addr :: "sh_event list \<Rightarrow> nat"
  os_pipe :: "sh_event list \<Rightarrow> int + nat \<times> nat"
  os_fork :: "sh_event list \<Rightarrow> int + nat"
  os_waitpid :: "sh_event list \<Rightarrow> int \<Rightarrow> int + int \<times> nat"
  os_reap :: "sh_event list \<Rightarrow> (int \<times> nat) list \<times> int \<times> int"
  os_call :: "sh_event list \<Rightarrow> sh_event \<Rightarrow> int option"
  os_env :: "string \<Rightarrow> string option"
  os_sigchld :: "sh_event list \<Rightarrow> bool"
  os_strerror :: "int \<Rightarrow> string"

text \<open>
  Computations on the log: \<open>None\<close> is a computation that does not return, \<open>Die\<close> the end of the
  process by \<open>mlrt_die\<close>.
\<close>

type_synonym 'a sh = "sh_event list \<Rightarrow> ('a or_die \<times> sh_event list) option"

definition sret :: "'a \<Rightarrow> 'a sh" where
  "sret x = (\<lambda>lg. Some (Ret x, lg))"

definition sbind :: "'a sh \<Rightarrow> ('a \<Rightarrow> 'b sh) \<Rightarrow> 'b sh" where
  "sbind m f =
     (\<lambda>lg. case m lg of
             None \<Rightarrow> None
           | Some (Die e, lg1) \<Rightarrow> Some (Die e, lg1)
           | Some (Ret x, lg1) \<Rightarrow> f x lg1)"

definition ask :: "(sh_event list \<Rightarrow> 'a) \<Rightarrow> 'a sh" where
  "ask f = (\<lambda>lg. Some (Ret (f lg), lg))"

definition emit :: "sh_event \<Rightarrow> unit sh" where
  "emit e = (\<lambda>lg. Some (Ret (), lg @ [e]))"

definition say :: "int \<Rightarrow> string \<Rightarrow> unit sh" where
  "say fd text = emit (Ev_out fd text)"

text \<open>A call that the system may refuse: \<open>Some e\<close> is the failure with \<open>errno\<close> \<open>e\<close>.\<close>

definition try_call :: "shell_os \<Rightarrow> sh_event \<Rightarrow> int option sh" where
  "try_call os e =
     (\<lambda>lg. case os_call os lg e of
             None \<Rightarrow> Some (Ret None, lg @ [e])
           | Some err \<Rightarrow> Some (Ret (Some err), lg))"

text \<open>The allocations of \<^verbatim>\<open>common.c\<close> that end the process.\<close>

definition xalloc :: "shell_os \<Rightarrow> nat \<Rightarrow> unit sh" where
  "xalloc os n =
     (\<lambda>lg. case mlrt_xmalloc (\<lambda>k. if os_mem os k then Some 0 else None) n of
             Die m \<Rightarrow> Some (Die m, lg)
           | Ret p \<Rightarrow> Some (Ret (), lg))"

definition xdup :: "shell_os \<Rightarrow> string \<Rightarrow> string sh" where
  "xdup os s =
     (\<lambda>lg. case mlrt_xstrdup (\<lambda>t. if os_mem os (length t + 1) then Some t else None) s of
             Die m \<Rightarrow> Some (Die m, lg)
           | Ret t \<Rightarrow> Some (Ret t, lg))"

fun each :: "('a \<Rightarrow> unit sh) \<Rightarrow> 'a list \<Rightarrow> unit sh" where
  "each f [] = sret ()"
| "each f (x # xs) = sbind (f x) (\<lambda>_. each f xs)"

record ShellState =
  ss_jobs :: JobList
  ss_history :: history
  ss_interactive :: bool
  ss_terminal_fd :: int
  ss_pgid :: int
  ss_should_exit :: bool

definition close_all_pipes :: "(int \<times> int) list \<Rightarrow> unit sh" where
  "close_all_pipes pipes = each (\<lambda>fd. emit (Ev_close fd)) (pipe_fds pipes)"

definition err_line :: "shell_os \<Rightarrow> string \<Rightarrow> int \<Rightarrow> string" where
  "err_line os what e = what @ '': '' @ os_strerror os e @ [CHR 0x0A]"

text \<open>The loop that opens the pipes; \<open>None\<close> is the failure with return value 1.\<close>

fun open_pipes :: "shell_os \<Rightarrow> int \<Rightarrow> nat \<Rightarrow> (int \<times> int) list \<Rightarrow> (int \<times> int) list option sh" where
  "open_pipes os err_fd 0 pipes = sret (Some pipes)"
| "open_pipes os err_fd (Suc n) pipes =
     sbind (ask (os_pipe os))
       (\<lambda>a. case a of
              Inl e \<Rightarrow>
                sbind (say err_fd (err_line os ''pipe'' e))
                  (\<lambda>_. sbind (close_all_pipes pipes) (\<lambda>_. sret None))
            | Inr (r, w) \<Rightarrow>
                sbind (emit (Ev_pipe (int r) (int w)))
                  (\<lambda>_. open_pipes os err_fd n (pipes @ [(int r, int w)])))"

text \<open>The loop that creates the processes; \<open>n\<close> are still to be created.\<close>

fun spawn :: "shell_os \<Rightarrow> int \<Rightarrow> (int \<times> int) list \<Rightarrow> nat \<Rightarrow> int \<Rightarrow> int list \<Rightarrow> (int \<times> int list) option sh" where
  "spawn os err_fd pipes 0 pgid pids = sret (Some (pgid, pids))"
| "spawn os err_fd pipes (Suc n) pgid pids =
     sbind (ask (os_fork os))
       (\<lambda>a. case a of
              Inl e \<Rightarrow>
                sbind (say err_fd (err_line os ''fork'' e))
                  (\<lambda>_. sbind (if pgid > 0 then sbind (try_call os (Ev_kill (- pgid) 15)) (\<lambda>_. sret ()) else sret ())
                     (\<lambda>_. sbind (close_all_pipes pipes)
                        (\<lambda>_. sbind (each (\<lambda>pid. emit (Ev_wait pid)) pids) (\<lambda>_. sret None))))
            | Inr p \<Rightarrow>
                let pid = int p; pgid1 = (if pgid = 0 then pid else pgid)
                in sbind (emit (Ev_fork pid))
                     (\<lambda>_. sbind (try_call os (Ev_setpgid pid pgid1))
                        (\<lambda>r. sbind
                           (case r of
                              None \<Rightarrow> sret ()
                            | Some e \<Rightarrow>
                                if e \<noteq> EACCES \<and> e \<noteq> ESRCH
                                then say err_fd (err_line os (''setpgid('' @ int_text pid @ '')'') e) else sret ())
                           (\<lambda>_. spawn os err_fd pipes n pgid1 (pids @ [pid])))))"

text \<open>\<open>while (waitpid(pid, &status, 0) < 0 && errno == EINTR) {}\<close>; other failures leave the status 0.\<close>

partial_function (option) wait_pid :: "shell_os \<Rightarrow> int \<Rightarrow> sh_event list \<Rightarrow> (nat or_die \<times> sh_event list) option" where
  "wait_pid os pid lg =
     (case os_waitpid os lg pid of
        Inl e \<Rightarrow> if e = EINTR then wait_pid os pid (lg @ [Ev_wait pid]) else Some (Ret 0, lg @ [Ev_wait pid])
      | Inr (p, st) \<Rightarrow> Some (Ret st, lg @ [Ev_wait pid]))"

fun wait_all :: "shell_os \<Rightarrow> int list \<Rightarrow> nat \<Rightarrow> nat sh" where
  "wait_all os [] last_status = sret last_status"
| "wait_all os (pid # pids) last_status =
     sbind (wait_pid os pid) (\<lambda>st. wait_all os pids (if pids = [] then st else last_status))"

definition WEXITSTATUS :: "nat \<Rightarrow> nat" where
  "WEXITSTATUS st = st div 256 mod 256"

definition WTERMSIG :: "nat \<Rightarrow> nat" where
  "WTERMSIG st = st mod 128"

definition exit_code :: "nat \<Rightarrow> int" where
  "exit_code st =
     (if WIFEXITED st then int (WEXITSTATUS st)
      else if WIFSIGNALED st then 128 + int (WTERMSIG st) else 1)"

text \<open>\<open>jobs_add\<close> with its allocations; the new job is the first of the list.\<close>

definition jobs_add_sh :: "shell_os \<Rightarrow> JobList \<Rightarrow> int \<Rightarrow> int list \<Rightarrow> string option \<Rightarrow> JobState \<Rightarrow> (nat \<times> JobList) sh" where
  "jobs_add_sh os l pgid pids command st =
     sbind (xalloc os 56) (\<lambda>_. sbind (ask (os_addr os)) (\<lambda>a.
       sbind (xdup os (case command of None \<Rightarrow> [] | Some c \<Rightarrow> c)) (\<lambda>_.
         sbind (if pids \<noteq> [] then xalloc os (length pids * 4) else sret ()) (\<lambda>_.
           sret (a, jobs_add a l pgid pids command st)))))"

text \<open>The loop of \<open>wait_foreground_job\<close> on the job at address \<open>a\<close>.\<close>

partial_function (option) wait_job_loop ::
    "shell_os \<Rightarrow> int \<Rightarrow> nat \<Rightarrow> JobList \<Rightarrow> sh_event list \<Rightarrow> (JobList or_die \<times> sh_event list) option" where
  "wait_job_loop os err_fd a jl lg =
     (case map_of (jl_head jl) a of
        None \<Rightarrow> None
      | Some job \<Rightarrow>
          if jb_remaining job > 0 \<and> jb_state job \<noteq> JOB_STOPPED then
            (case os_waitpid os lg (- jb_pgid job) of
               Inl e \<Rightarrow>
                 if e = EINTR then wait_job_loop os err_fd a jl (lg @ [Ev_wait (- jb_pgid job)])
                 else Some (Ret jl, lg @ Ev_wait (- jb_pgid job) #
                              (if e \<noteq> ECHILD then [Ev_out err_fd (err_line os ''waitpid'' e)] else []))
             | Inr (pid, st) \<Rightarrow>
                 wait_job_loop os err_fd a (jobs_update_status jl pid st) (lg @ [Ev_wait (- jb_pgid job)]))
          else Some (Ret jl, lg))"

definition set_foreground :: "shell_os \<Rightarrow> ShellState \<Rightarrow> int \<Rightarrow> int \<Rightarrow> string \<Rightarrow> unit sh" where
  "set_foreground os s pgid err_fd who =
     (if ss_interactive s then
        sbind (try_call os (Ev_tcsetpgrp (ss_terminal_fd s) pgid))
          (\<lambda>r. case r of None \<Rightarrow> sret () | Some e \<Rightarrow> say err_fd (err_line os who e))
      else sret ())"

definition wait_foreground_job :: "shell_os \<Rightarrow> ShellState \<Rightarrow> nat \<Rightarrow> int \<Rightarrow> ShellState sh" where
  "wait_foreground_job os s a err_fd =
     sbind (wait_job_loop os err_fd a (ss_jobs s)) (\<lambda>jl.
       sbind (set_foreground os s (ss_pgid s) err_fd ''tcsetpgrp(shell)'') (\<lambda>_.
         case map_of (jl_head jl) a of
           None \<Rightarrow> sret (s\<lparr>ss_jobs := jl\<rparr>)
         | Some job \<Rightarrow>
             if jb_state job = JOB_DONE then sret (s\<lparr>ss_jobs := jobs_remove jl (Some a)\<rparr>)
             else if jb_state job = JOB_STOPPED then
               sbind (say 1 (''['' @ int_text (jb_id job) @ ''] Stopped  '' @ jb_command job @ [CHR 0x0A]))
                 (\<lambda>_. sret (s\<lparr>ss_jobs := jl\<rparr>))
             else sret (s\<lparr>ss_jobs := jl\<rparr>)))"

text \<open>The end of \<open>execute_external_pipeline\<close>, after the pipes are closed.\<close>

definition finish_pipeline ::
    "shell_os \<Rightarrow> ShellState \<Rightarrow> ShellPipeline \<Rightarrow> int \<Rightarrow> int \<Rightarrow> bool \<Rightarrow> int \<Rightarrow> int list \<Rightarrow> (int \<times> ShellState) sh" where
  "finish_pipeline os s pipeline out_fd err_fd track_jobs pgid pids =
     (if \<not> track_jobs then sbind (wait_all os pids 0) (\<lambda>st. sret (exit_code st, s))
      else
        sbind (jobs_add_sh os (ss_jobs s) pgid pids (sp_source pipeline) JOB_RUNNING) (\<lambda>(a, jl).
          let s1 = s\<lparr>ss_jobs := jl\<rparr>
          in if sp_background pipeline
             then sbind (say out_fd (''['' @ int_text (jl_next_id (ss_jobs s)) @ ''] '' @ int_text pgid @ [CHR 0x0A]))
                    (\<lambda>_. sret (0, s1))
             else sbind (set_foreground os s pgid err_fd ''tcsetpgrp(job)'')
                    (\<lambda>_. sbind (wait_foreground_job os s1 a err_fd) (\<lambda>s2. sret (0, s2)))))"

definition execute_external_pipeline ::
    "shell_os \<Rightarrow> ShellState \<Rightarrow> ShellPipeline \<Rightarrow> int \<Rightarrow> int \<Rightarrow> bool \<Rightarrow> (int \<times> ShellState) sh" where
  "execute_external_pipeline os s pipeline out_fd err_fd track_jobs =
     (let count = length (sp_commands pipeline); pipe_count = (if count > 0 then count - 1 else 0)
      in sbind (if pipe_count \<noteq> 0 then xalloc os (pipe_count * 8) else sret ()) (\<lambda>_.
           sbind (open_pipes os err_fd pipe_count []) (\<lambda>r. case r of
             None \<Rightarrow> sret (1, s)
           | Some pipes \<Rightarrow>
               sbind (xalloc os (count * 4)) (\<lambda>_.
                 sbind (spawn os err_fd pipes count 0 []) (\<lambda>q. case q of
                   None \<Rightarrow> sret (1, s)
                 | Some (pgid, pids) \<Rightarrow>
                     sbind (close_all_pipes pipes)
                       (\<lambda>_. finish_pipeline os s pipeline out_fd err_fd track_jobs pgid pids))))))"

section \<open>Descriptors of the child\<close>

text \<open>What the system promises of \<open>open\<close>: the new descriptor was not in use.\<close>

definition open_fresh :: "child_os \<Rightarrow> bool" where
  "open_fresh os \<longleftrightarrow> (\<forall>t p fl fd. co_open os t p fl = Some fd \<longrightarrow> t fd = None)"

lemma redirect_file_table:
  assumes fresh: "open_fresh os"
    and "redirect_file os t path target flags mode = Some t'" "t target \<noteq> None"
  shows "t' = t(target := Some (Opened path flags mode))"
proof -
  obtain fd where fd: "co_open os t path flags = Some fd"
      "t' = (t(fd := Some (Opened path flags mode), target := Some (Opened path flags mode)))(fd := None)"
    using assms(2) by (auto simp: redirect_file_def dup2_def bind_eq_Some_conv split: if_splits)
  have "t fd = None" using fresh fd(1) unfolding open_fresh_def by blast
  moreover from this have "fd \<noteq> target" using assms(3) by auto
  ultimately show ?thesis using fd(2) by (auto simp: fun_eq_iff)
qed

text \<open>What the three standard descriptors of stage \<open>i\<close> must be.\<close>

definition stage_stdin :: "fds \<Rightarrow> ShellPipeline \<Rightarrow> (int \<times> int) list \<Rightarrow> nat \<Rightarrow> fobj option" where
  "stage_stdin t pl pipes i =
     (case sc_input_path (sp_commands pl ! i) of
        Some p \<Rightarrow> Some (Opened p O_RDONLY 0)
      | None \<Rightarrow> if i > 0 then t (fst (pipes ! (i - 1))) else t 0)"

definition stage_stdout :: "fds \<Rightarrow> ShellPipeline \<Rightarrow> (int \<times> int) list \<Rightarrow> nat \<Rightarrow> int \<Rightarrow> fobj option" where
  "stage_stdout t pl pipes i out_fd =
     (case sc_output_path (sp_commands pl ! i) of
        Some p \<Rightarrow> Some (Opened p (O_WRONLY OR O_CREAT OR
                          (if sc_append_output (sp_commands pl ! i) then O_APPEND else O_TRUNC)) 0x1B6)
      | None \<Rightarrow> if i + 1 < length (sp_commands pl) then t (snd (pipes ! i)) else if out_fd \<ge> 0 then t out_fd else t 1)"

definition stage_stderr :: "fds \<Rightarrow> int \<Rightarrow> fobj option" where
  "stage_stderr t err_fd = (if err_fd \<ge> 0 then t err_fd else t 2)"

text \<open>
  The descriptors the shell passes: the pipe ends are not standard descriptors, the output is not
  standard input and the error output is neither standard input nor standard output.
\<close>

definition fds_apart :: "(int \<times> int) list \<Rightarrow> int \<Rightarrow> int \<Rightarrow> bool" where
  "fds_apart pipes out_fd err_fd \<longleftrightarrow>
     (\<forall>(r, w)\<in>set pipes. r > 2 \<and> w > 2) \<and> out_fd \<noteq> 0 \<and> err_fd \<notin> {0, 1}"

lemma setup_fds_table:
  assumes fresh: "open_fresh os"
    and std: "t 0 \<noteq> None" "t 1 \<noteq> None" "t 2 \<noteq> None"
    and apart: "fds_apart pipes out_fd err_fd" "length pipes + 1 = length (sp_commands pl)" "i < length (sp_commands pl)"
    and run: "setup_command_fds os t pl i pipes out_fd err_fd = Some t'"
  shows "t' = t(0 := stage_stdin t pl pipes i, 1 := stage_stdout t pl pipes i out_fd, 2 := stage_stderr t err_fd)"
proof -
  let ?c = "sp_commands pl ! i"
  have ends: "fst (pipes ! j) > 2" "snd (pipes ! j) > 2" if "j < length pipes" for j
    using apart(1) nth_mem [OF that] by (auto simp: fds_apart_def case_prod_unfold)
  have io: "out_fd \<noteq> 0" "err_fd \<noteq> 0" "err_fd \<noteq> 1" using apart(1) by (simp_all add: fds_apart_def)
  define t1 where "t1 = t(0 := if i > 0 then t (fst (pipes ! (i - 1))) else t 0)"
  define t2 where "t2 = t1(1 := if i + 1 < length (sp_commands pl) then t (snd (pipes ! i)) else if out_fd \<ge> 0 then t out_fd else t 1)"
  define t3 where "t3 = t2(2 := stage_stderr t err_fd)"
  have s1: "u = t1 \<and> t1 0 \<noteq> None" if "(if i > 0 then dup2 os t (fst (pipes ! (i - 1))) 0 else Some t) = Some u" for u
    using that std by (auto simp: t1_def dup2_def split: if_splits)
  have o1: "t1 fd = t fd" if "fd \<noteq> 0" for fd using that by (simp add: t1_def)
  let ?d2 = "if i + 1 < length (sp_commands pl) then dup2 os t1 (snd (pipes ! i)) 1
      else if out_fd \<ge> 0 \<and> out_fd \<noteq> 1 then dup2 os t1 out_fd 1 else Some t1"
  have s2: "u = t2 \<and> t2 1 \<noteq> None" if "?d2 = Some u" for u
    using that std io ends(2) [of i] apart(2) o1 [of 1] o1 [of out_fd] o1 [of "snd (pipes ! i)"]
    by (auto simp: t2_def dup2_def intro!: ext split: if_splits)
  have o2: "t2 fd = t fd" if "fd \<noteq> 0" "fd \<noteq> 1" for fd using that by (simp add: t2_def o1)
  let ?d3 = "if err_fd \<ge> 0 \<and> err_fd \<noteq> 2 then dup2 os t2 err_fd 2 else Some t2"
  have s3: "u = t3" if "?d3 = Some u" for u
    using that std io o2 [of 2] o2 [of err_fd] by (auto simp: t3_def dup2_def stage_stderr_def intro!: ext split: if_splits)
  obtain u1 u2 u3 t4 where u: "(if i > 0 then dup2 os t (fst (pipes ! (i - 1))) 0 else Some t) = Some u1"
      "(if i + 1 < length (sp_commands pl) then dup2 os u1 (snd (pipes ! i)) 1
        else if out_fd \<ge> 0 \<and> out_fd \<noteq> 1 then dup2 os u1 out_fd 1 else Some u1) = Some u2"
      "(if err_fd \<ge> 0 \<and> err_fd \<noteq> 2 then dup2 os u2 err_fd 2 else Some u2) = Some u3"
      and t4: "(case sc_input_path ?c of None \<Rightarrow> Some u3 | Some p \<Rightarrow> redirect_file os u3 p 0 O_RDONLY 0) = Some t4"
      and t5: "(case sc_output_path ?c of None \<Rightarrow> Some t4 | Some p \<Rightarrow>
        redirect_file os t4 p 1 (O_WRONLY OR O_CREAT OR (if sc_append_output ?c then O_APPEND else O_TRUNC)) 0x1B6) = Some t'"
    using run unfolding setup_command_fds_def Let_def bind_eq_Some_conv by blast
  have u1: "u1 = t1" "t1 0 \<noteq> None" using s1 [OF u(1)] by simp_all
  have u2: "u2 = t2" "t2 1 \<noteq> None" using s2 [OF u(2) [unfolded u1(1)]] by simp_all
  have u3: "u3 = t3" by (rule s3 [OF u(3) [unfolded u2(1)]])
  have t3: "t3 0 = t1 0" "t3 1 = t2 1" by (simp_all add: t3_def t2_def)
  have "t4 = t3(0 := stage_stdin t pl pipes i)"
    using t4 t3 u1 u3 redirect_file_table [OF fresh, of t3 _ 0 O_RDONLY 0 t4]
    by (auto simp: stage_stdin_def t1_def split: option.splits)
  moreover have "t' = t4(1 := stage_stdout t pl pipes i out_fd)"
    using t5 t3 u2 calculation redirect_file_table [OF fresh, of t4 _ 1 _ _ t']
    by (auto simp: stage_stdout_def t2_def split: option.splits if_splits)
  ultimately show ?thesis by (auto simp: t3_def t2_def t1_def fun_eq_iff)
qed

lemma close_fds_apply: "close_fds xs t fd = (if fd \<in> set xs then None else t fd)"
  by (induction xs arbitrary: t) (auto simp: close_fds_def)

lemma pipe_fds_gt2: "fds_apart pipes out_fd err_fd \<Longrightarrow> fd \<in> set (pipe_fds pipes) \<Longrightarrow> fd > 2"
  by (fastforce simp: fds_apart_def pipe_fds_def split: if_splits)

section \<open>Weakest preconditions on the log\<close>

text \<open>
  \<open>wlp m Q lg\<close>: if \<open>m\<close> returns a value from the log \<open>lg\<close>, the value and the new log satisfy \<open>Q\<close>.
\<close>

named_theorems wlp_simps \<open>equations of wlp for the basic computations\<close>

definition wlp :: "'a sh \<Rightarrow> ('a \<Rightarrow> sh_event list \<Rightarrow> bool) \<Rightarrow> sh_event list \<Rightarrow> bool" where
  "wlp m Q lg \<longleftrightarrow> (\<forall>x lg'. m lg = Some (Ret x, lg') \<longrightarrow> Q x lg')"

lemma wlp_sret [wlp_simps]: "wlp (sret x) Q = Q x"
  by (simp add: fun_eq_iff wlp_def sret_def)

lemma wlp_sbind [wlp_simps]: "wlp (sbind m f) Q = wlp m (\<lambda>x. wlp (f x) Q)"
  by (auto simp: fun_eq_iff wlp_def sbind_def split: option.splits prod.splits or_die.splits)

lemma wlp_ask [wlp_simps]: "wlp (ask f) Q lg \<longleftrightarrow> Q (f lg) lg"
  by (simp add: wlp_def ask_def)

lemma wlp_emit [wlp_simps]: "wlp (emit e) Q lg \<longleftrightarrow> Q () (lg @ [e])"
  by (simp add: wlp_def emit_def)

lemma wlp_say [wlp_simps]: "wlp (say fd t) Q lg \<longleftrightarrow> Q () (lg @ [Ev_out fd t])"
  by (simp add: say_def wlp_emit)

lemma wlp_try [wlp_simps]:
  "wlp (try_call os e) Q lg \<longleftrightarrow>
    (case os_call os lg e of None \<Rightarrow> Q None (lg @ [e]) | Some err \<Rightarrow> Q (Some err) lg)"
  by (auto simp: wlp_def try_call_def split: option.splits)

lemma wlp_xalloc [wlp_simps]: "wlp (xalloc os n) Q lg \<longleftrightarrow> (os_mem os n \<longrightarrow> Q () lg)"
  by (simp add: wlp_def xalloc_def mlrt_xmalloc_def)

lemma wlp_xdup [wlp_simps]: "wlp (xdup os t) Q lg \<longleftrightarrow> (os_mem os (length t + 1) \<longrightarrow> Q t lg)"
  by (simp add: wlp_def xdup_def mlrt_xstrdup_def)

lemma wlp_if [wlp_simps]: "wlp (if b then m else n) Q lg \<longleftrightarrow> (if b then wlp m Q lg else wlp n Q lg)"
  by simp

lemma wlp_optional_alloc: "Q () lg \<Longrightarrow> wlp (if b then xalloc os n else sret ()) Q lg"
  by (simp add: wlp_simps)

lemma wlp_mono: "wlp m P lg \<Longrightarrow> (\<And>x l. P x l \<Longrightarrow> Q x l) \<Longrightarrow> wlp m Q lg"
  by (auto simp: wlp_def)

lemma wlpD: "wlp m Q lg \<Longrightarrow> m lg = Some (Ret x, lg') \<Longrightarrow> Q x lg'"
  by (simp add: wlp_def)

text \<open>Emitting one event per item appends the events.\<close>

lemma wlp_each_emit [wlp_simps]: "wlp (each (\<lambda>x. emit (ev x)) xs) Q lg \<longleftrightarrow> Q () (lg @ map ev xs)"
  by (induction xs arbitrary: lg) (simp_all add: wlp_simps)

lemma wlp_close_all [wlp_simps]: "wlp (close_all_pipes pipes) Q lg \<longleftrightarrow> Q () (lg @ map Ev_close (pipe_fds pipes))"
  by (simp add: close_all_pipes_def wlp_simps)

section \<open>Pipe ends held by the shell\<close>

text \<open>The balance of a descriptor in a log: how often it was opened by \<open>pipe\<close> minus how often closed.\<close>

fun ev_balance :: "int \<Rightarrow> sh_event \<Rightarrow> int" where
  "ev_balance fd (Ev_pipe r w) = (if fd = r then 1 else 0) + (if fd = w then 1 else 0)"
| "ev_balance fd (Ev_close f) = (if f = fd then -1 else 0)"
| "ev_balance fd _ = 0"

abbreviation balance :: "int \<Rightarrow> sh_event list \<Rightarrow> int" where
  "balance \<equiv> fd_balance ev_balance"

lemma balance_close [simp]: "balance fd (map Ev_close xs) = - int (count_list xs fd)"
  by (rule fd_balance_closes) simp

lemma balance_wait [simp]: "balance fd (map Ev_wait xs) = 0"
  by (induction xs) auto

lemma balance_replicate_wait [simp]: "balance fd (replicate n (Ev_wait p)) = 0"
  by (induction n) auto

lemma pipe_fds_snoc:
  "count_list (pipe_fds (ps @ [(int r, int w)])) fd =
    count_list (pipe_fds ps) fd + (if fd = int r then 1 else 0) + (if fd = int w then 1 else 0)"
  by (simp add: pipe_fds_def)

lemma open_pipes_balance:
  "wlp (open_pipes os err_fd n ps)
     (\<lambda>r lg'. balance fd lg' = balance fd lg - int (count_list (pipe_fds ps) fd) +
        (case r of None \<Rightarrow> 0 | Some qs \<Rightarrow> int (count_list (pipe_fds qs) fd))) lg"
proof (induction n arbitrary: ps lg)
  case (Suc n)
  show ?case
  proof (cases "os_pipe os lg")
    case (Inr rw)
    obtain r w where "rw = (r, w)" by (cases rw)
    with Inr show ?thesis
      using Suc [of "ps @ [(int r, int w)]" "lg @ [Ev_pipe (int r) (int w)]"]
      by (auto simp: wlp_simps pipe_fds_snoc elim!: wlp_mono)
  qed (simp add: wlp_simps)
qed (simp add: wlp_simps)

lemma spawn_balance:
  "wlp (spawn os err_fd pipes n pgid pids)
     (\<lambda>r lg'. balance fd lg' = balance fd lg - (case r of None \<Rightarrow> int (count_list (pipe_fds pipes) fd) | Some _ \<Rightarrow> 0)) lg"
proof (induction n arbitrary: pgid pids lg)
  case (Suc n)
  show ?case
  proof (cases "os_fork os lg")
    case (Inl e)
    then show ?thesis by (auto simp: wlp_simps split: option.split)
  next
    case (Inr p)
    define g where "g = (if pgid = 0 then int p else pgid)"
    have "wlp (spawn os err_fd pipes n g (pids @ [int p]))
        (\<lambda>r l. balance fd l = balance fd lg - (case r of None \<Rightarrow> int (count_list (pipe_fds pipes) fd) | Some _ \<Rightarrow> 0)) lg'"
      if "balance fd lg' = balance fd lg" for lg'
      using Suc [of g "pids @ [int p]" lg'] that by simp
    then show ?thesis using Inr by (simp add: wlp_simps Let_def flip: g_def split: option.split)
  qed
qed (simp add: wlp_simps)

text \<open>A wait for one process: interrupted calls are repeated, the first other answer counts.\<close>

definition waited :: "shell_os \<Rightarrow> int \<Rightarrow> sh_event list \<Rightarrow> nat or_die \<times> sh_event list \<Rightarrow> bool" where
  "waited os pid lg y \<longleftrightarrow>
     (\<exists>n. snd y = lg @ replicate (Suc n) (Ev_wait pid) \<and>
        (case os_waitpid os (lg @ replicate n (Ev_wait pid)) pid of
           Inl e \<Rightarrow> e \<noteq> EINTR \<and> fst y = Ret 0 | Inr (p, st) \<Rightarrow> fst y = Ret st))"

lemma waited_step: "waited os pid (lg @ [Ev_wait pid]) y \<Longrightarrow> waited os pid lg y"
proof -
  assume "waited os pid (lg @ [Ev_wait pid]) y"
  then obtain n where "snd y = (lg @ [Ev_wait pid]) @ replicate (Suc n) (Ev_wait pid)"
      "case os_waitpid os ((lg @ [Ev_wait pid]) @ replicate n (Ev_wait pid)) pid of
         Inl e \<Rightarrow> e \<noteq> EINTR \<and> fst y = Ret 0 | Inr (p, st) \<Rightarrow> fst y = Ret st"
    unfolding waited_def by blast
  then show ?thesis unfolding waited_def by (intro exI [of _ "Suc n"]) simp
qed

lemma waited_now:
  "os_waitpid os lg pid = Inl e \<Longrightarrow> e \<noteq> EINTR \<Longrightarrow> waited os pid lg (Ret 0, lg @ [Ev_wait pid])"
  "os_waitpid os lg pid = Inr (p, st) \<Longrightarrow> waited os pid lg (Ret st, lg @ [Ev_wait pid])"
  unfolding waited_def by (rule exI [of _ 0], simp)+

lemma wait_pid_log: "wait_pid os pid lg = Some y \<Longrightarrow> waited os pid lg y"
proof (rule wait_pid.raw_induct [where P = waited], goal_cases)
  case (1 w os pid lg y)
  from 1(3) show ?case by (auto split: sum.splits if_splits intro: waited_now waited_step [OF 1(2)])
qed

lemma wlp_wait_pid: "wlp (wait_pid os pid) (\<lambda>st lg'. waited os pid lg (Ret st, lg')) lg"
  by (simp add: wlp_def wait_pid_log)

lemma waited_balance: "waited os pid lg y \<Longrightarrow> balance fd (snd y) = balance fd lg"
  by (auto simp: waited_def simp del: replicate.simps)

lemma wait_all_balance: "wlp (wait_all os pids st) (\<lambda>r lg'. balance fd lg' = balance fd lg) lg"
proof (induction pids arbitrary: st lg)
  case (Cons p ps)
  show ?case unfolding wait_all.simps wlp_sbind
  proof (rule wlp_mono [OF wlp_wait_pid])
    fix x l
    assume "waited os p lg (Ret x, l)"
    then have "balance fd l = balance fd lg" using waited_balance by fastforce
    then show "wlp (wait_all os ps (if ps = [] then x else st)) (\<lambda>r lg'. balance fd lg' = balance fd lg) l"
      using Cons [of "if ps = [] then x else st" l] by simp
  qed
qed (simp add: wlp_simps)

lemma wait_job_loop_balance: "wlp (wait_job_loop os err_fd a jl) (\<lambda>r lg'. balance fd lg' = balance fd lg) lg"
proof -
  have "wait_job_loop os err_fd a jl lg = Some y \<Longrightarrow> balance fd (snd y) = balance fd lg" for y
  proof (rule wait_job_loop.raw_induct [where P = "\<lambda>os err_fd a jl lg y. balance fd (snd y) = balance fd lg"], goal_cases)
    case (1 w os err_fd a jl lg y)
    from 1(3) show ?case by (auto split: option.splits sum.splits if_splits dest!: 1(2))
  qed
  then show ?thesis by (fastforce simp: wlp_def)
qed

lemma set_foreground_balance:
  "wlp (set_foreground os s pgid err_fd who) (\<lambda>r lg'. balance fd lg' = balance fd lg) lg"
  by (simp add: set_foreground_def wlp_simps split: option.split)

lemma wait_foreground_balance:
  "wlp (wait_foreground_job os s a err_fd) (\<lambda>r lg'. balance fd lg' = balance fd lg) lg"
  unfolding wait_foreground_job_def wlp_sbind
proof (rule wlp_mono [OF wait_job_loop_balance])
  fix jl l
  assume b: "balance fd l = balance fd lg"
  show "wlp (set_foreground os s (ss_pgid s) err_fd ''tcsetpgrp(shell)'')
    (\<lambda>_. wlp (case map_of (jl_head jl) a of
           None \<Rightarrow> sret (s\<lparr>ss_jobs := jl\<rparr>)
         | Some job \<Rightarrow>
             if jb_state job = JOB_DONE then sret (s\<lparr>ss_jobs := jobs_remove jl (Some a)\<rparr>)
             else if jb_state job = JOB_STOPPED then
               sbind (say 1 (''['' @ int_text (jb_id job) @ ''] Stopped  '' @ jb_command job @ [CHR 0x0A]))
                 (\<lambda>_. sret (s\<lparr>ss_jobs := jl\<rparr>))
             else sret (s\<lparr>ss_jobs := jl\<rparr>)) (\<lambda>r lg'. balance fd lg' = balance fd lg)) l"
    by (rule wlp_mono [OF set_foreground_balance [of os s _ err_fd _ fd]])
       (simp add: wlp_simps b split: option.split)
qed

text \<open>On every path on which it returns, the shell has closed each pipe end it opened exactly once.\<close>

lemma bind_balance:
  assumes "wlp m (\<lambda>r l. balance fd l = b + d r) lg" "\<And>r l. balance fd l = b + d r \<Longrightarrow> wlp (f r) Q l"
  shows "wlp (sbind m f) Q lg"
  unfolding wlp_sbind by (rule wlp_mono [OF assms])

lemma finish_balance:
  "wlp (finish_pipeline os s pipeline out_fd err_fd track pgid pids) (\<lambda>r lg'. balance fd lg' = balance fd lg) lg"
proof -
  have "wlp (sbind (set_foreground os s pgid err_fd who) (\<lambda>_. sbind (wait_foreground_job os s' a err_fd) (\<lambda>s2. sret (r0, s2))))
    (\<lambda>r lg'. balance fd lg' = balance fd lg) lg" for s' a who and r0 :: int
    unfolding wlp_sbind
  proof (rule wlp_mono [OF set_foreground_balance], rule wlp_mono [OF wait_foreground_balance])
    fix x l y l'
    assume "balance fd l = balance fd lg" "balance fd l' = balance fd l"
    then show "wlp (sret (r0, y)) (\<lambda>r lg'. balance fd lg' = balance fd lg) l'" by (simp add: wlp_simps)
  qed
  then show ?thesis
    using wait_all_balance [of os pids 0 fd lg] by (simp add: finish_pipeline_def wlp_simps jobs_add_sh_def Let_def)
qed

lemma execute_balance:
  "wlp (execute_external_pipeline os s pipeline out_fd err_fd track) (\<lambda>r lg'. balance fd lg' = balance fd lg) lg"
proof -
  let ?b = "balance fd lg" and ?c = "\<lambda>ps. int (count_list (pipe_fds ps) fd)"
  let ?n = "length (sp_commands pipeline)" and ?Q = "\<lambda>r lg'. balance fd lg' = balance fd lg"
  have finish: "wlp (sbind (close_all_pipes ps) (\<lambda>_. finish_pipeline os s pipeline out_fd err_fd track pgid pids)) ?Q l"
    if "balance fd l = ?b + ?c ps" for l ps pgid pids
    using that finish_balance [of os s pipeline out_fd err_fd track pgid pids fd "l @ map Ev_close (pipe_fds ps)"]
    by (simp add: wlp_simps)
  have spawned: "wlp (sbind (spawn os err_fd ps ?n 0 []) (\<lambda>q. case q of None \<Rightarrow> sret (1, s) | Some (pgid, pids) \<Rightarrow>
      sbind (close_all_pipes ps) (\<lambda>_. finish_pipeline os s pipeline out_fd err_fd track pgid pids))) ?Q l"
    if "balance fd l = ?b + ?c ps" for ps l
    unfolding wlp_sbind [of "spawn os err_fd ps ?n 0 []"]
    using that finish by (intro wlp_mono [OF spawn_balance [where fd = fd]]) (auto simp: wlp_sret split: option.splits)
  have opened: "wlp (sbind (open_pipes os err_fd k []) (\<lambda>r. case r of None \<Rightarrow> sret (1, s) | Some ps \<Rightarrow>
      sbind (xalloc os (?n * 4)) (\<lambda>_. sbind (spawn os err_fd ps ?n 0 []) (\<lambda>q. case q of None \<Rightarrow> sret (1, s) | Some (pgid, pids) \<Rightarrow>
      sbind (close_all_pipes ps) (\<lambda>_. finish_pipeline os s pipeline out_fd err_fd track pgid pids))))) ?Q lg" for k
    unfolding wlp_sbind [of "open_pipes os err_fd k []"]
  proof (rule wlp_mono [OF open_pipes_balance])
    fix r l
    assume b: "balance fd l = ?b - int (count_list (pipe_fds []) fd) + (case r of None \<Rightarrow> 0 | Some ps \<Rightarrow> ?c ps)"
    show "wlp (case r of None \<Rightarrow> sret (1, s) | Some ps \<Rightarrow>
      sbind (xalloc os (?n * 4)) (\<lambda>_. sbind (spawn os err_fd ps ?n 0 []) (\<lambda>q. case q of None \<Rightarrow> sret (1, s) | Some (pgid, pids) \<Rightarrow>
      sbind (close_all_pipes ps) (\<lambda>_. finish_pipeline os s pipeline out_fd err_fd track pgid pids)))) ?Q l"
      using b spawned by (cases r) (simp_all add: wlp_sret wlp_sbind [of "xalloc os (?n * 4)"] wlp_xalloc pipe_fds_def)
  qed
  show ?thesis
    unfolding execute_external_pipeline_def Let_def wlp_sbind [of "if _ then _ else _"]
    by (rule wlp_optional_alloc) (rule opened)
qed

section \<open>A foreground job to its end\<close>

text \<open>
  The answers of the successive waits on a process group: interruptions, and ends of processes.
\<close>

fun answers :: "shell_os \<Rightarrow> int \<Rightarrow> (int \<times> nat) option list \<Rightarrow> sh_event list \<Rightarrow> bool" where
  "answers os pgid [] lg \<longleftrightarrow> True"
| "answers os pgid (x # xs) lg \<longleftrightarrow>
     os_waitpid os lg (- pgid) = (case x of None \<Rightarrow> Inl EINTR | Some e \<Rightarrow> Inr e) \<and>
     answers os pgid xs (lg @ [Ev_wait (- pgid)])"

definition stats :: "(int \<times> nat) option list \<Rightarrow> (int \<times> nat) list" where
  "stats xs = concat (map (\<lambda>x. case x of None \<Rightarrow> [] | Some e \<Rightarrow> [e]) xs)"

lemma stats_simps [simp]:
  "stats [] = []" "stats (None # xs) = stats xs" "stats (Some e # xs) = e # stats xs"
  by (simp_all add: stats_def)

definition after :: "(int \<times> nat) list \<Rightarrow> JobList \<Rightarrow> JobList" where
  "after es l = l\<lparr>jl_head := map (\<lambda>(b, j). (b, job_after es j)) (jl_head l)\<rparr>"

lemma after_Nil [simp]: "after [] l = l"
  by (simp add: after_def job_after_def)

lemma after_wf: "jobs_wf (after es l) = jobs_wf l"
  unfolding after_def by (rule jobs_wf_map) simp

lemma after_update: "jobs_wf l \<Longrightarrow> jobs_update_status (after es l) p st = after (es @ [(p, st)]) l"
  using update_status_map [of "after es l" p st] after_wf [of es l]
  by (simp add: after_def job_after_def comp_def case_prod_unfold)

lemma after_map_of: "map_of (jl_head (after es l)) a = map_option (job_after es) (map_of (jl_head l) a)"
  by (simp add: after_def map_of_map)

text \<open>Ends of processes leave the job running until the last one.\<close>

lemma job_after_ends:
  "\<forall>(p, st)\<in>set es. ends st \<Longrightarrow> jb_state j \<noteq> JOB_STOPPED \<Longrightarrow> jb_state (job_after es j) \<noteq> JOB_STOPPED"
  by (induction es arbitrary: j) (auto simp: job_after_def on_pid_def status_update_cases)

lemma job_after_pgid [simp]: "jb_pgid (job_after es j) = jb_pgid j"
  by (induction es arbitrary: j) (auto simp: job_after_def on_pid_def status_update_def Let_def)

lemma wait_job_loop_ends:
  assumes wf: "jobs_wf l" and job: "map_of (jl_head l) a = Some job" "fresh_job job"
  shows "history_ok (es @ stats xs) \<Longrightarrow> \<forall>(p, st)\<in>set (es @ stats xs). p \<in> set (jb_pids job) \<and> ends st \<Longrightarrow>
    \<forall>p\<in>set (jb_pids job). terminated p (es @ stats xs) \<Longrightarrow> answers os (jb_pgid job) xs lg \<Longrightarrow>
    \<exists>es' lg'. wait_job_loop os err_fd a (after es l) lg = Some (Ret (after es' l), lg') \<and> history_ok es' \<and>
      (\<forall>(p, st)\<in>set es'. p \<in> set (jb_pids job) \<and> ends st) \<and> (\<forall>p\<in>set (jb_pids job). terminated p es')"
proof (induction xs arbitrary: es lg)
  case Nil
  then have "jb_remaining (job_after es job) = 0"
    using job_tracks [OF job(2), of es] by simp
  then have "wait_job_loop os err_fd a (after es l) lg = Some (Ret (after es l), lg)"
    by (subst wait_job_loop.simps) (simp add: after_map_of job)
  with Nil show ?case by auto
next
  case (Cons x xs)
  let ?j = "job_after es job"
  have m: "map_of (jl_head (after es l)) a = Some ?j" by (simp add: after_map_of job)
  show ?case
  proof (cases "jb_remaining ?j = 0")
    case True
    have h: "history_ok es" using Cons.prems(1) by (induction es) auto
    from True have "\<forall>p\<in>set (jb_pids job). terminated p es" using job_tracks [OF job(2) h] by simp
    moreover have "wait_job_loop os err_fd a (after es l) lg = Some (Ret (after es l), lg)"
      using True by (subst wait_job_loop.simps) (simp add: m)
    ultimately show ?thesis using h Cons.prems(2) by (intro exI [of _ es] exI [of _ lg]) auto
  next
    case False
    have ns: "jb_state ?j \<noteq> JOB_STOPPED"
      using Cons.prems(2) job(2) by (intro job_after_ends) (auto simp: fresh_job_def)
    show ?thesis
    proof (cases x)
      case None
      with Cons.IH [of es "lg @ [Ev_wait (- jb_pgid job)]"] Cons.prems False ns show ?thesis
        by (subst wait_job_loop.simps) (simp add: m)
    next
      case (Some e)
      obtain p st where e: "e = (p, st)" by (cases e)
      from Some e Cons.IH [of "es @ [(p, st)]" "lg @ [Ev_wait (- jb_pgid job)]"] Cons.prems False ns show ?thesis
        by (subst wait_job_loop.simps) (simp add: m after_update [OF wf])
    qed
  qed
qed

text \<open>Only the job itself has changed, and it goes away.\<close>

lemma job_after_other: "\<forall>(p, st)\<in>set es. p \<notin> set (jb_pids j) \<Longrightarrow> job_after es j = j"
  by (induction es) (auto simp: job_after_def on_pid_def)

lemma unlink_map:
  assumes "distinct (map fst xs)" "\<And>b j. (b, j) \<in> set xs \<Longrightarrow> b \<noteq> a \<Longrightarrow> f j = j"
  shows "unlink a (map (\<lambda>(b, j). (b, f j)) xs) = unlink a xs"
  using assms
proof (induction xs)
  case (Cons x xs)
  obtain b j where x: "x = (b, j)" by (cases x)
  show ?case
  proof (cases "b = a")
    case True
    have "(case y of (c, k) \<Rightarrow> (c, f k)) = y" if y: "y \<in> set xs" for y
    proof -
      obtain c k where ck: "y = (c, k)" by (cases y)
      have "c \<in> fst ` set xs" using y ck by force
      then have "c \<noteq> a" using Cons.prems(1) x True by auto
      then show ?thesis using Cons.prems(2) [of c k] y ck by simp
    qed
    then show ?thesis using x True by (simp add: map_idI)
  next
    case False
    then show ?thesis using x Cons by auto
  qed
qed simp

lemma own_pids:
  assumes "jobs_wf l" "(a, j) \<in> set (jl_head l)" "(b, k) \<in> set (jl_head l)" "b \<noteq> a" "p \<in> set (jb_pids j)"
  shows "p \<notin> set (jb_pids k)"
proof
  assume p: "p \<in> set (jb_pids k)"
  obtain us vs where l: "jl_head l = us @ (a, j) # vs" using assms(2) by (meson split_list)
  have "(b, k) \<in> set us \<union> set vs" using assms(3,4) l by auto
  then have "p \<in> (\<Union>x\<in>set us \<union> set vs. set (jb_pids (snd x)))" using p by force
  moreover have "set (jb_pids j) \<inter> (\<Union>x\<in>set us \<union> set vs. set (jb_pids (snd x))) = {}"
    using assms(1) l by (simp add: jobs_wf_def job_pids_def) blast
  ultimately show False using assms(5) by blast
qed

lemma set_foreground_returns: "\<exists>lg'. set_foreground os s pgid err_fd who lg = Some (Ret (), lg')"
  by (auto simp: set_foreground_def sbind_def try_call_def sret_def say_def emit_def split: option.split)

section \<open>Properties\<close>

text \<open>
  C27. The plumbing of a pipeline: stage \<open>i\<close> of a pipeline either ends with code 126 or 127 or
  executes its own words, and then its standard input is its input file, or the read end of the
  pipe before it, or the shell's input; its standard output is its output file (truncated or
  appended to), or the write end of the pipe behind it, or the output the shell passed; its error
  output is the one the shell passed; no pipe end is left open, so that readers see the end of
  their input; and every other descriptor is unchanged. Of the system it is assumed that
  \<open>open\<close> returns a descriptor that is not in use.
\<close>

theorem child_plumbing:
  assumes "open_fresh os" and "t 0 \<noteq> None" "t 1 \<noteq> None" "t 2 \<noteq> None"
    and "fds_apart pipes out_fd err_fd" "length pipes + 1 = length (sp_commands pl)" "i < length (sp_commands pl)"
  shows "case child_main os t sg pl i pipes out_fd err_fd pgid pid of
      Exits c \<Rightarrow> c = 126 \<or> c = 127
    | Execs argv t' sg' \<Rightarrow> argv = sc_argv (sp_commands pl ! i) \<and>
        t' 0 = stage_stdin t pl pipes i \<and> t' 1 = stage_stdout t pl pipes i out_fd \<and> t' 2 = stage_stderr t err_fd \<and>
        (\<forall>fd\<in>set (pipe_fds pipes). t' fd = None) \<and>
        (\<forall>fd. fd \<notin> {0, 1, 2} \<union> set (pipe_fds pipes) \<longrightarrow> t' fd = t fd)"
proof (cases "setup_command_fds os t pl i pipes out_fd err_fd")
  case (Some t1)
  have t1: "t1 = t(0 := stage_stdin t pl pipes i, 1 := stage_stdout t pl pipes i out_fd, 2 := stage_stderr t err_fd)"
    by (rule setup_fds_table [OF assms Some])
  have "fd \<noteq> 0 \<and> fd \<noteq> 1 \<and> fd \<noteq> 2" if "fd \<in> set (pipe_fds pipes)" for fd
    using pipe_fds_gt2 [OF assms(5) that] by simp
  then show ?thesis using Some t1
    by (auto simp: child_main_def Let_def close_fds_apply split: option.split)
qed (simp add: child_main_def Let_def split: option.split)

theorem child_plumbing_witness:
  "let os = \<lparr>co_dup2_fails = (\<lambda>_ _. False), co_open = (\<lambda>t p fl. if t 9 = None then Some 9 else None),
             co_setpgid = (\<lambda>_. None), co_exec = (\<lambda>_. None)\<rparr>;
       c = \<lparr>sc_argv = [''cat''], sc_input_path = None, sc_output_path = None, sc_append_output = False\<rparr>;
       pl = \<lparr>sp_commands = [c, c], sp_background = False, sp_source = None\<rparr>;
       t = (\<lambda>fd. if fd \<in> {0, 1, 2, 3, 4} then Some (Inherited (nat fd)) else None)
   in case child_main os t (\<lambda>_. SIG_DFL) pl 1 [(3, 4)] 1 2 100 101 of
        Exits c \<Rightarrow> False
      | Execs argv t' sg' \<Rightarrow> argv = [''cat''] \<and> t' 0 = Some (Inherited 3) \<and> t' 3 = None \<and> t' 4 = None"
proof -
  define os where "os = \<lparr>co_dup2_fails = (\<lambda>_ _. False), co_open = (\<lambda>t p fl. if t 9 = None then Some 9 else None),
             co_setpgid = (\<lambda>_. None), co_exec = (\<lambda>_. None)\<rparr>"
  define c where "c = \<lparr>sc_argv = [''cat''], sc_input_path = None, sc_output_path = None, sc_append_output = False\<rparr>"
  define pl where "pl = \<lparr>sp_commands = [c, c], sp_background = False, sp_source = None\<rparr>"
  define t :: fds where "t = (\<lambda>fd. if fd \<in> {0, 1, 2, 3, 4} then Some (Inherited (nat fd)) else None)"
  have run: "\<exists>argv t' sg'. child_main os t (\<lambda>_. SIG_DFL) pl 1 [(3, 4)] 1 2 100 101 = Execs argv t' sg'"
    by (simp add: child_main_def os_def pl_def c_def t_def setup_command_fds_def dup2_def)
  have "case child_main os t (\<lambda>_. SIG_DFL) pl 1 [(3, 4)] 1 2 100 101 of
      Exits c \<Rightarrow> c = 126 \<or> c = 127
    | Execs argv t' sg' \<Rightarrow> argv = sc_argv (sp_commands pl ! 1) \<and>
        t' 0 = stage_stdin t pl [(3, 4)] 1 \<and> t' 1 = stage_stdout t pl [(3, 4)] 1 1 \<and> t' 2 = stage_stderr t 2 \<and>
        (\<forall>fd\<in>set (pipe_fds [(3, 4)]). t' fd = None) \<and>
        (\<forall>fd. fd \<notin> {0, 1, 2} \<union> set (pipe_fds [(3, 4)]) \<longrightarrow> t' fd = t fd)"
    by (rule child_plumbing) (auto simp: open_fresh_def os_def t_def pl_def fds_apart_def split: if_splits)
  with run show ?thesis unfolding Let_def os_def [symmetric] c_def [symmetric] pl_def [symmetric] t_def [symmetric]
    by (auto simp: pl_def c_def t_def stage_stdin_def pipe_fds_def)
qed

text \<open>
  C28. No pipe end leaks: whatever the system answers, when the execution of a pipeline returns,
  whether it succeeded, could not create a pipe or could not create a process, in the foreground, in
  the background or without job control, the shell has closed every pipe end it opened exactly once.
\<close>

theorem pipeline_closes_pipes:
  assumes "execute_external_pipeline os s pipeline out_fd err_fd track lg = Some (Ret r, lg')"
  shows "balance fd lg' = balance fd lg"
  using wlpD [OF execute_balance assms] .

theorem pipeline_closes_pipes_witness:
  "let os = \<lparr>os_mem = (\<lambda>_. True), os_addr = (\<lambda>_. 1), os_pipe = (\<lambda>_. Inr (3, 4)),
             os_fork = (\<lambda>lg. if Ev_fork 100 \<in> set lg then Inl 11 else Inr 100), os_waitpid = (\<lambda>_ p. Inr (p, 0)),
             os_reap = (\<lambda>_. ([], 0, 0)), os_call = (\<lambda>_ _. None), os_env = (\<lambda>_. None), os_sigchld = (\<lambda>_. False),
             os_strerror = (\<lambda>_. [])\<rparr>;
       c = \<lparr>sc_argv = [''cat''], sc_input_path = None, sc_output_path = None, sc_append_output = False\<rparr>;
       s = \<lparr>ss_jobs = jobs_init, ss_history = history_init, ss_interactive = False, ss_terminal_fd = 0,
            ss_pgid = 1, ss_should_exit = False\<rparr>
   in case execute_external_pipeline os s \<lparr>sp_commands = [c, c], sp_background = False, sp_source = None\<rparr> 1 2 False [] of
        Some (Ret (rc, s'), lg) \<Rightarrow> rc = 1 \<and> Ev_pipe 3 4 \<in> set lg \<and> balance 4 lg = 0
      | _ \<Rightarrow> False"
proof -
  define os where "os = \<lparr>os_mem = (\<lambda>_. True), os_addr = (\<lambda>_. 1), os_pipe = (\<lambda>_. Inr (3, 4)),
             os_fork = (\<lambda>lg. if Ev_fork 100 \<in> set lg then Inl 11 else Inr 100), os_waitpid = (\<lambda>_ p. Inr (p, 0)),
             os_reap = (\<lambda>_. ([], 0, 0)), os_call = (\<lambda>_ _. None), os_env = (\<lambda>_. None), os_sigchld = (\<lambda>_. False),
             os_strerror = (\<lambda>_. [])\<rparr>"
  define c where "c = \<lparr>sc_argv = [''cat''], sc_input_path = None, sc_output_path = None, sc_append_output = False\<rparr>"
  define s where "s = \<lparr>ss_jobs = jobs_init, ss_history = history_init, ss_interactive = False, ss_terminal_fd = 0,
            ss_pgid = 1, ss_should_exit = False\<rparr>"
  define pl where "pl = \<lparr>sp_commands = [c, c], sp_background = False, sp_source = None\<rparr>"
  have "\<exists>lg. execute_external_pipeline os s pl 1 2 False [] = Some (Ret (1, s), lg) \<and> Ev_pipe 3 4 \<in> set lg"
    by (simp add: execute_external_pipeline_def os_def pl_def sbind_def xalloc_def mlrt_xmalloc_def ask_def emit_def
        sret_def say_def try_call_def close_all_pipes_def pipe_fds_def Let_def)
  then obtain lg where run: "execute_external_pipeline os s pl 1 2 False [] = Some (Ret (1, s), lg)" "Ev_pipe 3 4 \<in> set lg"
    by blast
  from pipeline_closes_pipes [OF this(1), of 4] have "balance 4 lg = 0" by simp
  with run show ?thesis
    unfolding Let_def os_def [symmetric] c_def [symmetric] s_def [symmetric] pl_def [symmetric] by simp
qed

text \<open>
  C30. A foreground job comes to its end: when the waits on its group deliver, between any
  interruptions, the end of each of its processes, \<open>wait_foreground_job\<close> returns, the job is gone
  from the table and every other job is untouched.
\<close>

theorem foreground_job_completes:
  assumes "jobs_wf (ss_jobs s)" "map_of (jl_head (ss_jobs s)) a = Some job" "fresh_job job"
    and "history_ok (stats xs)" "\<forall>(p, st)\<in>set (stats xs). p \<in> set (jb_pids job) \<and> ends st"
    and "\<forall>p\<in>set (jb_pids job). terminated p (stats xs)" "answers os (jb_pgid job) xs lg"
  shows "\<exists>lg'. wait_foreground_job os s a err_fd lg =
    Some (Ret (s\<lparr>ss_jobs := (ss_jobs s)\<lparr>jl_head := unlink a (jl_head (ss_jobs s))\<rparr>\<rparr>), lg')"
proof -
  let ?l = "ss_jobs s"
  obtain es lg1 where w: "wait_job_loop os err_fd a ?l lg = Some (Ret (after es ?l), lg1)"
      and es: "history_ok es" "\<forall>(p, st)\<in>set es. p \<in> set (jb_pids job) \<and> ends st" "\<forall>p\<in>set (jb_pids job). terminated p es"
    using wait_job_loop_ends [OF assms(1-3), of "[]" xs os lg err_fd] assms(4-7) by auto
  obtain lg2 where f: "set_foreground os s (ss_pgid s) err_fd ''tcsetpgrp(shell)'' lg1 = Some (Ret (), lg2)"
    using set_foreground_returns by blast
  have "jb_state (job_after es job) = JOB_DONE" using job_tracks [OF assms(3) es(1)] es(3) by simp
  moreover have "unlink a (jl_head (after es ?l)) = unlink a (jl_head ?l)"
    unfolding after_def using assms(1) own_pids [OF assms(1) map_of_SomeD [OF assms(2)]] es(2)
    by (simp, intro unlink_map) (fastforce simp: jobs_wf_def intro!: job_after_other)+
  ultimately show ?thesis
    using w f assms(2)
    by (simp add: wait_foreground_job_def sbind_def after_map_of sret_def jobs_remove_def) (simp add: after_def)
qed

theorem foreground_job_completes_witness:
  "let os = \<lparr>os_mem = (\<lambda>_. True), os_addr = (\<lambda>_. 1), os_pipe = (\<lambda>_. Inr (3, 4)), os_fork = (\<lambda>lg. Inr 100),
             os_waitpid = (\<lambda>lg p. if lg = [] then Inl 4 else Inr (100, 0)),
             os_reap = (\<lambda>_. ([], 0, 0)), os_call = (\<lambda>_ _. None), os_env = (\<lambda>_. None), os_sigchld = (\<lambda>_. False),
             os_strerror = (\<lambda>_. [])\<rparr>;
       s = \<lparr>ss_jobs = jobs_add 1 jobs_init 100 [100] (Some ''ls'') JOB_RUNNING, ss_history = history_init, ss_interactive = False,
            ss_terminal_fd = 0, ss_pgid = 1, ss_should_exit = False\<rparr>
   in \<exists>lg. wait_foreground_job os s 1 2 [] = Some (Ret (s\<lparr>ss_jobs := \<lparr>jl_head = [], jl_next_id = 2\<rparr>\<rparr>), lg)"
proof -
  define os where "os = \<lparr>os_mem = (\<lambda>_. True), os_addr = (\<lambda>_. 1), os_pipe = (\<lambda>_. Inr (3, 4)), os_fork = (\<lambda>lg. Inr 100),
             os_waitpid = (\<lambda>lg p. if lg = [] then Inl 4 else Inr (100, 0)),
             os_reap = (\<lambda>_. ([], 0, 0)), os_call = (\<lambda>_ _. None), os_env = (\<lambda>_. None), os_sigchld = (\<lambda>_. False),
             os_strerror = (\<lambda>_. [])\<rparr>"
  define s where "s = \<lparr>ss_jobs = jobs_add 1 jobs_init 100 [100] (Some ''ls'') JOB_RUNNING, ss_history = history_init,
            ss_interactive = False, ss_terminal_fd = 0, ss_pgid = 1, ss_should_exit = False\<rparr>"
  let ?job = "\<lparr>jb_id = 1, jb_pgid = 100, jb_pids = [100], jb_remaining = 1, jb_state = JOB_RUNNING, jb_command = ''ls''\<rparr>"
  have j: "jl_head (ss_jobs s) = [(1, ?job)]" "jl_next_id (ss_jobs s) = 2"
    by (simp_all add: s_def jobs_add_def jobs_init_def)
  have h: "jobs_wf (ss_jobs s)" "map_of (jl_head (ss_jobs s)) 1 = Some ?job" "fresh_job ?job"
    "history_ok (stats [None, Some (100, 0)])"
    "\<forall>(p, st)\<in>set (stats [None, Some (100, 0)]). p \<in> set (jb_pids ?job) \<and> ends st"
    "\<forall>p\<in>set (jb_pids ?job). terminated p (stats [None, Some (100, 0)])"
    "answers os (jb_pgid ?job) [None, Some (100, 0)] []"
    by (simp_all add: j jobs_wf_def job_pids_def fresh_job_def ends_mod terminated_def os_def EINTR_def)
  have "(ss_jobs s)\<lparr>jl_head := unlink 1 (jl_head (ss_jobs s))\<rparr> = \<lparr>jl_head = [], jl_next_id = 2\<rparr>"
    by (simp add: s_def jobs_add_def jobs_init_def)
  with foreground_job_completes [OF h, of 2] show ?thesis
    unfolding Let_def os_def [symmetric] s_def [symmetric] by simp
qed

end
