(* ===== verification/Shell_Main.thy ===== *)
theory Shell_Main
  imports Shell_Exec
begin

text \<open>
  The shell itself, the rest of \<^verbatim>\<open>shell/shell.c\<close> and \<^verbatim>\<open>shell/main.c\<close>: initialisation, the
  builtins, the handling of one line in the interactive and in the noninteractive mode, and the
  command line \<^verbatim>\<open>mlrt shell\<close>. \<open>os_sigchld\<close> says whether the
  flag set by the handler of \<open>SIGCHLD\<close> is up when a line is read.
\<close>

section \<open>State\<close>

record tty_os =
  ty_tcgetpgrp :: "sh_event list \<Rightarrow> int"
  ty_getpgrp :: "sh_event list \<Rightarrow> int"
  ty_getpid :: int
  ty_getcwd :: "sh_event list \<Rightarrow> string option"

definition zero_state :: ShellState where
  "zero_state =
     \<lparr>ss_jobs = \<lparr>jl_head = [], jl_next_id = 0\<rparr>, ss_history = \<lparr>hs_entries = [], hs_base = 0\<rparr>, ss_interactive = False,
      ss_terminal_fd = 0, ss_pgid = 0, ss_should_exit = False\<rparr>"

text \<open>The shell stops itself until it is in the foreground.\<close>

partial_function (option) await_foreground ::
    "tty_os \<Rightarrow> shell_os \<Rightarrow> sh_event list \<Rightarrow> (unit or_die \<times> sh_event list) option" where
  "await_foreground ty os lg =
     (if ty_tcgetpgrp ty lg = ty_getpgrp ty lg then Some (Ret (), lg)
      else await_foreground ty os (lg @ [Ev_kill (- ty_getpgrp ty lg) SIGTTIN]))"

text \<open>The shell ignores the signals of its terminal and wants to know when a child changes its state.\<close>

definition SA_RESTART :: nat where "SA_RESTART = 0x10000000"

definition install_shell_signals :: "unit sh" where
  "install_shell_signals =
     each (\<lambda>(signo, d). emit (Ev_sigaction signo d))
       [(SIGINT, SIG_IGN), (SIGQUIT, SIG_IGN), (SIGTSTP, SIG_IGN), (SIGTTIN, SIG_IGN), (SIGTTOU, SIG_IGN),
        (SIGCHLD, Handler ''sigchld_handler'' SA_RESTART)]"

definition shell_state_init :: "tty_os \<Rightarrow> shell_os \<Rightarrow> bool \<Rightarrow> (int \<times> ShellState) sh" where
  "shell_state_init ty os interactive =
     sbind (ask (ty_getpgrp ty)) (\<lambda>pgrp.
       let s = zero_state\<lparr>ss_jobs := jobs_init, ss_history := history_init, ss_interactive := interactive,
                          ss_terminal_fd := 0, ss_pgid := pgrp\<rparr>
       in if \<not> interactive then sret (0, s)
          else
            sbind (await_foreground ty os) (\<lambda>_. sbind install_shell_signals (\<lambda>_.
              let pid = ty_getpid ty; s1 = s\<lparr>ss_pgid := pid\<rparr>
              in sbind (try_call os (Ev_setpgid pid pid)) (\<lambda>r.
                   if (case r of None \<Rightarrow> False | Some e \<Rightarrow> e \<noteq> EACCES \<and> e \<noteq> EPERM)
                   then sbind (say 2 (err_line os ''setpgid(shell)'' (case r of None \<Rightarrow> 0 | Some e \<Rightarrow> e))) (\<lambda>_. sret (-1, s1))
                   else
                     sbind (try_call os (Ev_tcsetpgrp 0 pid)) (\<lambda>q. case q of
                       None \<Rightarrow> sret (0, s1)
                     | Some e \<Rightarrow> sbind (say 2 (err_line os ''tcsetpgrp(shell)'' e)) (\<lambda>_. sret (-1, s1)))))))"

definition shell_state_destroy :: "ShellState \<Rightarrow> ShellState" where
  "shell_state_destroy s = zero_state"

section \<open>Builtins\<close>

text \<open>One run of \<open>jobs_reap\<close> with the answers of the system and the lines it writes.\<close>

definition reap_sh :: "shell_os \<Rightarrow> JobList \<Rightarrow> int \<Rightarrow> JobList sh" where
  "reap_sh os jl notify_fd =
     sbind (ask (os_reap os)) (\<lambda>(ans, fin). sbind (emit Ev_reap) (\<lambda>_.
       case jobs_reap jl notify_fd ans fin of
         (l1, out, failed) \<Rightarrow>
           sbind (each (\<lambda>t. say notify_fd (t @ [CHR 0x0A])) out) (\<lambda>_.
             sbind (if failed then say 2 (err_line os ''waitpid'' (snd fin)) else sret ()) (\<lambda>_. sret l1))))"

definition jobs_print_sh :: "shell_os \<Rightarrow> JobList \<Rightarrow> int \<Rightarrow> JobList sh" where
  "jobs_print_sh os jl fd =
     sbind (reap_sh os jl (-1)) (\<lambda>l1.
       sbind (each (\<lambda>(a, j). say fd (job_line j @ [CHR 0x0A])) (jl_head l1)) (\<lambda>_. sret (jobs_remove_done l1)))"

text \<open>The message of a failure, or the job number.\<close>

definition parse_job_id :: "string list \<Rightarrow> string + int" where
  "parse_job_id argv =
     (if length argv < 2 then Inl (argv ! 0 @ '': expected job id (for example %1 or 1)'')
      else
        let arg = argv ! 1; text = (if arg \<noteq> [] \<and> hd arg = CHR ''%'' then tl arg else arg);
            (v, rest) = strtol10 text
        in if rest \<noteq> [] \<or> v \<le> 0
           then Inl (argv ! 0 @ '': invalid job id '' @ [CHR 0x27] @ arg @ [CHR 0x27])
           else Inr (to_c_int v))"

definition help_text :: string where
  "help_text =
     ''builtins: cd exit quit history jobs fg bg help'' @ [CHR 0x0A] @
     ''syntax: command [args] [< file] [> file|>> file] [| command ...] [&]'' @ [CHR 0x0A]"

definition builtin_cd :: "shell_os \<Rightarrow> ShellState \<Rightarrow> string list \<Rightarrow> int \<Rightarrow> (int \<times> ShellState) sh" where
  "builtin_cd os s argv err_fd =
     (case (if length argv > 1 then Some (argv ! 1) else os_env os ''HOME'') of
        None \<Rightarrow> sbind (say err_fd (''cd: HOME is not set'' @ [CHR 0x0A])) (\<lambda>_. sret (1, s))
      | Some path \<Rightarrow>
          sbind (try_call os (Ev_chdir path)) (\<lambda>r. case r of
            None \<Rightarrow> sret (0, s)
          | Some e \<Rightarrow> sbind (say err_fd (err_line os ''cd'' e)) (\<lambda>_. sret (1, s))))"

definition mark_running :: "nat \<Rightarrow> Job \<Rightarrow> ShellState \<Rightarrow> ShellState" where
  "mark_running a job s = s\<lparr>ss_jobs := set_job a (job\<lparr>jb_state := JOB_RUNNING\<rparr>) (ss_jobs s)\<rparr>"

definition builtin_fg_bg :: "shell_os \<Rightarrow> ShellState \<Rightarrow> string list \<Rightarrow> int \<Rightarrow> int \<Rightarrow> (int \<times> ShellState) sh" where
  "builtin_fg_bg os s0 argv out_fd err_fd =
     sbind (reap_sh os (ss_jobs s0) (-1)) (\<lambda>jl.
       let s = s0\<lparr>ss_jobs := jl\<rparr>; name = argv ! 0
       in case parse_job_id argv of
            Inl msg \<Rightarrow> sbind (say err_fd (msg @ [CHR 0x0A])) (\<lambda>_. sret (1, s))
          | Inr i \<Rightarrow>
              (case jobs_find_id jl i of
                 None \<Rightarrow> sbind (say err_fd (name @ '': job '' @ int_text i @ '' not found'' @ [CHR 0x0A])) (\<lambda>_. sret (1, s))
               | Some (a, job) \<Rightarrow>
                   if jb_state job = JOB_DONE
                   then sbind (say err_fd (name @ '': job '' @ int_text i @ '' not found'' @ [CHR 0x0A])) (\<lambda>_. sret (1, s))
                   else if name = ''bg'' then
                     sbind (try_call os (Ev_kill (- jb_pgid job) 18)) (\<lambda>r. case r of
                       Some e \<Rightarrow> sbind (say err_fd (err_line os ''bg: SIGCONT'' e)) (\<lambda>_. sret (1, s))
                     | None \<Rightarrow>
                         sbind (say out_fd (''['' @ int_text (jb_id job) @ ''] Running  '' @ jb_command job @ [CHR 0x0A]))
                           (\<lambda>_. sret (0, mark_running a job s)))
                   else
                     sbind (if ss_interactive s then try_call os (Ev_tcsetpgrp (ss_terminal_fd s) (jb_pgid job)) else sret None)
                       (\<lambda>q. case q of
                          Some e \<Rightarrow> sbind (say err_fd (err_line os ''fg: tcsetpgrp'' e)) (\<lambda>_. sret (1, s))
                        | None \<Rightarrow>
                            sbind (try_call os (Ev_kill (- jb_pgid job) 18)) (\<lambda>r.
                              sbind (case r of
                                       None \<Rightarrow> sret ()
                                     | Some e \<Rightarrow> if e \<noteq> ESRCH then say err_fd (err_line os ''fg: SIGCONT'' e) else sret ())
                                (\<lambda>_. sbind (wait_foreground_job os (mark_running a job s) a err_fd) (\<lambda>s2. sret (0, s2)))))))"

text \<open>\<open>None\<close> says that the pipeline is not a builtin.\<close>

definition run_builtin ::
    "shell_os \<Rightarrow> ShellState \<Rightarrow> ShellPipeline \<Rightarrow> int \<Rightarrow> int \<Rightarrow> (int \<times> ShellState) option sh" where
  "run_builtin os s pipeline out_fd err_fd =
     (if length (sp_commands pipeline) \<noteq> 1 then sret None
      else
        let argv = sc_argv (sp_commands pipeline ! 0); name = argv ! 0;
            handled = (\<lambda>m. sbind m (\<lambda>x. sret (Some x)))
        in if name = ''cd'' then handled (builtin_cd os s argv err_fd)
           else if name = ''exit'' \<or> name = ''quit'' then sret (Some (0, s\<lparr>ss_should_exit := True\<rparr>))
           else if name = ''history'' then
             handled (sbind (each (\<lambda>t. say out_fd (t @ [CHR 0x0A])) (builtin_history (ss_history s) argv)) (\<lambda>_. sret (0, s)))
           else if name = ''jobs'' then
             handled (sbind (jobs_print_sh os (ss_jobs s) out_fd) (\<lambda>jl. sret (0, s\<lparr>ss_jobs := jl\<rparr>)))
           else if name = ''fg'' \<or> name = ''bg'' then handled (builtin_fg_bg os s argv out_fd err_fd)
           else if name = ''help'' then handled (sbind (say out_fd help_text) (\<lambda>_. sret (0, s)))
           else sret None)"

section \<open>Lines\<close>

text \<open>The call of the parser with a message buffer of 256 bytes.\<close>

definition parse_sh :: "shell_os \<Rightarrow> string \<Rightarrow> (string + ShellPipeline) sh" where
  "parse_sh os line =
     (case shell_parse_line (os_mem os) (Some line) (Some empty_pipeline) (Some 256) of
        Parse_Died m \<Rightarrow> (\<lambda>lg. Some (Die m, lg))
      | Parse_Ret r p msg \<Rightarrow>
          sret (if r \<noteq> 0 then Inl (case msg of None \<Rightarrow> [] | Some m \<Rightarrow> m)
                else Inr (case p of None \<Rightarrow> empty_pipeline | Some q \<Rightarrow> q)))"

definition run_parsed :: "shell_os \<Rightarrow> ShellState \<Rightarrow> string \<Rightarrow> string \<Rightarrow> ShellPipeline \<Rightarrow> int \<Rightarrow> int \<Rightarrow> (int \<times> ShellState) sh" where
  "run_parsed os s line expanded pipeline out_fd err_fd =
     sbind (xdup os expanded) (\<lambda>copy.
       let s1 = s\<lparr>ss_history := history_add (ss_history s) copy\<rparr>
       in sbind (if expanded \<noteq> line \<and> ss_interactive s1 then say out_fd (expanded @ [CHR 0x0A]) else sret ()) (\<lambda>_.
            sbind (run_builtin os s1 pipeline out_fd err_fd) (\<lambda>b. case b of
              Some r \<Rightarrow> sret r
            | None \<Rightarrow> execute_external_pipeline os s1 pipeline out_fd err_fd True)))"

text \<open>One line behind the check for ended children.\<close>

definition expand_and_run :: "shell_os \<Rightarrow> ShellState \<Rightarrow> string \<Rightarrow> int \<Rightarrow> int \<Rightarrow> (int \<times> ShellState) sh" where
  "expand_and_run os s line out_fd err_fd =
     (case history_expand (ss_history s) line of
        No_Expansion msg \<Rightarrow> sbind (say err_fd (msg @ [CHR 0x0A])) (\<lambda>_. sret (1, s))
      | Expanded e0 \<Rightarrow>
          sbind (xdup os e0) (\<lambda>e1.
            let expanded = strip_eol e1
            in if expanded = [] then sret (0, s)
               else
                 sbind (parse_sh os expanded) (\<lambda>p. case p of
                   Inl msg \<Rightarrow> sbind (say err_fd (''parse: '' @ msg @ [CHR 0x0A])) (\<lambda>_. sret (2, s))
                 | Inr pipeline \<Rightarrow>
                     if sp_commands pipeline = [] then sret (0, s)
                     else run_parsed os s line expanded pipeline out_fd err_fd)))"

definition shell_run_line :: "shell_os \<Rightarrow> ShellState \<Rightarrow> string \<Rightarrow> int \<Rightarrow> int \<Rightarrow> (int \<times> ShellState) sh" where
  "shell_run_line os s line out_fd err_fd =
     sbind (ask (os_sigchld os)) (\<lambda>seen.
       if seen then
         sbind (reap_sh os (ss_jobs s) (if ss_interactive s then out_fd else -1))
           (\<lambda>jl. expand_and_run os (s\<lparr>ss_jobs := jl\<rparr>) line out_fd err_fd)
       else expand_and_run os s line out_fd err_fd)"

definition forbidden :: "string list" where
  "forbidden = [''cd'', ''exit'', ''quit'', ''history'', ''jobs'', ''fg'', ''bg'']"

definition shell_run_noninteractive :: "shell_os \<Rightarrow> string \<Rightarrow> int \<Rightarrow> int \<Rightarrow> int sh" where
  "shell_run_noninteractive os line out_fd err_fd =
     sbind (parse_sh os line) (\<lambda>p. case p of
       Inl msg \<Rightarrow> sbind (say err_fd (''parse: '' @ msg @ [CHR 0x0A])) (\<lambda>_. sret 2)
     | Inr pipeline \<Rightarrow>
         if sp_commands pipeline = [] then sret 0
         else if sp_background pipeline then
           sbind (say err_fd (''remote/noninteractive execution does not allow background '' @ [CHR 0x27, CHR ''&'', CHR 0x27, CHR 0x0A]))
             (\<lambda>_. sret 2)
         else
           let name = sc_argv (sp_commands pipeline ! 0) ! 0
           in if name \<in> set forbidden \<and> length (sp_commands pipeline) = 1 then
                sbind (say err_fd (name @ '': stateful shell builtin is unavailable in noninteractive mode'' @ [CHR 0x0A]))
                  (\<lambda>_. sret 2)
              else
                sbind (execute_external_pipeline os zero_state pipeline out_fd err_fd False) (\<lambda>(rc, s). sret rc))"

section \<open>Command line\<close>

text \<open>What \<open>getline\<close> delivers: a line, or an interruption; behind the last one the end of the input.\<close>

datatype line_in = In_Line string | In_Intr

fun interactive_loop :: "tty_os \<Rightarrow> shell_os \<Rightarrow> line_in list \<Rightarrow> ShellState \<Rightarrow> ShellState sh" where
  "interactive_loop ty os inputs s =
     (if ss_should_exit s then sret s
      else
        sbind (reap_sh os (ss_jobs s) 1) (\<lambda>jl.
          let s1 = s\<lparr>ss_jobs := jl\<rparr>
          in sbind (if ss_interactive s1
                    then sbind (ask (ty_getcwd ty)) (\<lambda>cwd. say 1 (case cwd of Some d \<Rightarrow> ''mlrt:'' @ d @ ''$ '' | None \<Rightarrow> ''mlrt$ ''))
                    else sret ()) (\<lambda>_.
               case inputs of
                 [] \<Rightarrow> sret s1
               | In_Intr # rest \<Rightarrow> interactive_loop ty os rest s1
               | In_Line l # rest \<Rightarrow> sbind (shell_run_line os s1 l 1 2) (\<lambda>(rc, s2). interactive_loop ty os rest s2))))"

definition run_interactive :: "tty_os \<Rightarrow> shell_os \<Rightarrow> bool \<Rightarrow> line_in list \<Rightarrow> int sh" where
  "run_interactive ty os isatty inputs =
     sbind (shell_state_init ty os isatty) (\<lambda>(r, s).
       if r \<noteq> 0 then sret 1 else sbind (interactive_loop ty os inputs s) (\<lambda>s1. sret 0))"

fun script_loop :: "shell_os \<Rightarrow> string list \<Rightarrow> ShellState \<Rightarrow> int \<Rightarrow> int sh" where
  "script_loop os [] s rc = sret rc"
| "script_loop os (l # ls) s rc =
     (if ss_should_exit s then sret rc
      else sbind (shell_run_line os s l 1 2) (\<lambda>(rc1, s1). script_loop os ls s1 rc1))"

text \<open>\<open>files\<close> gives the lines of a script, or the \<open>errno\<close> of \<open>fopen\<close>.\<close>

definition shell_cli_main ::
    "tty_os \<Rightarrow> shell_os \<Rightarrow> bool \<Rightarrow> line_in list \<Rightarrow> (string \<Rightarrow> int + string list) \<Rightarrow> string list \<Rightarrow> int sh" where
  "shell_cli_main ty os isatty inputs files argv =
     (if length argv \<ge> 2 \<and> argv ! 1 = ''-c'' then
        (if length argv < 3
         then sbind (say 2 (''usage: mlrt shell -c '' @ [CHR 0x27] @ ''command'' @ [CHR 0x27, CHR 0x0A])) (\<lambda>_. sret 2)
         else shell_run_noninteractive os (argv ! 2) 1 2)
      else if length argv \<ge> 2 \<and> argv ! 1 = ''--script'' then
        (if length argv < 3 then sbind (say 2 (''usage: mlrt shell --script FILE'' @ [CHR 0x0A])) (\<lambda>_. sret 2)
         else
           (case files (argv ! 2) of
              Inl e \<Rightarrow> sbind (say 2 (err_line os (argv ! 2) e)) (\<lambda>_. sret 1)
            | Inr ls \<Rightarrow>
                sbind (shell_state_init ty os False) (\<lambda>(r, s). script_loop os ls s 0)))
      else run_interactive ty os isatty inputs)"

section \<open>What a computation adds to the log\<close>

definition extends :: "(sh_event \<Rightarrow> bool) \<Rightarrow> 'a sh \<Rightarrow> bool" where
  "extends P m \<longleftrightarrow> (\<forall>lg. wlp m (\<lambda>_ lg'. \<exists>d. lg' = lg @ d \<and> list_all P d) lg)"

named_theorems extends_intros \<open>what each computation may add to the log\<close>

lemma extendsI: "(\<And>lg x lg'. m lg = Some (Ret x, lg') \<Longrightarrow> \<exists>d. lg' = lg @ d \<and> list_all P d) \<Longrightarrow> extends P m"
  by (simp add: extends_def wlp_def)

lemma extendsD: "extends P m \<Longrightarrow> m lg = Some (Ret x, lg') \<Longrightarrow> \<exists>d. lg' = lg @ d \<and> list_all P d"
  by (simp add: extends_def wlp_def)

lemma sbind_Ret:
  "sbind m f lg = Some (Ret y, lg') \<longleftrightarrow> (\<exists>x lg1. m lg = Some (Ret x, lg1) \<and> f x lg1 = Some (Ret y, lg'))"
  by (auto simp: sbind_def split: option.splits prod.splits or_die.splits)

lemma sret_Ret [simp]: "sret x lg = Some (Ret y, lg') \<longleftrightarrow> y = x \<and> lg' = lg"
  by (auto simp: sret_def)

lemma ask_Ret [simp]: "ask f lg = Some (Ret y, lg') \<longleftrightarrow> y = f lg \<and> lg' = lg"
  by (auto simp: ask_def)

lemma say_Ret [simp]: "say fd t lg = Some (Ret y, lg') \<longleftrightarrow> lg' = lg @ [Ev_out fd t]"
  by (auto simp: say_def emit_def)

lemma xalloc_Ret [simp]: "xalloc os n lg = Some (Ret y, lg') \<longleftrightarrow> os_mem os n \<and> lg' = lg"
  by (auto simp: xalloc_def mlrt_xmalloc_def)

lemma xdup_Ret: "xdup os t lg = Some (Ret y, lg') \<Longrightarrow> y = t \<and> lg' = lg"
  by (auto simp: xdup_def mlrt_xstrdup_def split: if_splits)

lemma extends_sbind [extends_intros]: "extends P m \<Longrightarrow> (\<And>x. extends P (f x)) \<Longrightarrow> extends P (sbind m f)"
proof (rule extendsI)
  fix lg y lg'
  assume e: "extends P m" "\<And>x. extends P (f x)" and "sbind m f lg = Some (Ret y, lg')"
  then obtain x lg1 where "m lg = Some (Ret x, lg1)" "f x lg1 = Some (Ret y, lg')" by (auto simp: sbind_Ret)
  then obtain d1 d2 where "lg1 = lg @ d1" "list_all P d1" "lg' = lg1 @ d2" "list_all P d2"
    using extendsD [OF e(1)] extendsD [OF e(2)] by blast
  then show "\<exists>d. lg' = lg @ d \<and> list_all P d" by (intro exI [of _ "d1 @ d2"]) simp
qed

lemma extends_basic [extends_intros]:
  "extends P (sret x)" "extends P (ask f)" "extends P (xalloc os n)" "extends P (xdup os t)"
  "P e \<Longrightarrow> extends P (emit e)" "P (Ev_out fd txt) \<Longrightarrow> extends P (say fd txt)" "P e \<Longrightarrow> extends P (try_call os e)"
  by (auto simp: extends_def wlp_simps split: option.split)

lemma extends_each [extends_intros]: "(\<And>x. x \<in> set xs \<Longrightarrow> extends P (f x)) \<Longrightarrow> extends P (each f xs)"
  by (induction xs) (auto intro!: extends_intros)

lemma extends_if [extends_intros]: "(b \<Longrightarrow> extends P m) \<Longrightarrow> (\<not> b \<Longrightarrow> extends P n) \<Longrightarrow> extends P (if b then m else n)"
  by simp

lemma extends_option [extends_intros]:
  "extends P m \<Longrightarrow> (\<And>x. extends P (f x)) \<Longrightarrow> extends P (case v of None \<Rightarrow> m | Some x \<Rightarrow> f x)"
  by (cases v) auto

lemma extends_sum [extends_intros]:
  "(\<And>x. extends P (f x)) \<Longrightarrow> (\<And>y. extends P (g y)) \<Longrightarrow> extends P (case v of Inl x \<Rightarrow> f x | Inr y \<Rightarrow> g y)"
  by (cases v) auto

lemma extends_prod [extends_intros]: "(\<And>x y. extends P (f x y)) \<Longrightarrow> extends P (case v of (x, y) \<Rightarrow> f x y)"
  by (cases v) auto

lemma extends_close_all [extends_intros]: "(\<And>fd. P (Ev_close fd)) \<Longrightarrow> extends P (close_all_pipes ps)"
  unfolding close_all_pipes_def by (intro extends_intros)

lemma extends_open_pipes [extends_intros]:
  "(\<And>r w. P (Ev_pipe r w)) \<Longrightarrow> (\<And>fd. P (Ev_close fd)) \<Longrightarrow> (\<And>fd t. P (Ev_out fd t)) \<Longrightarrow> extends P (open_pipes os err_fd n ps)"
  by (induction n arbitrary: ps) (auto intro!: extends_intros)

lemma extends_spawn [extends_intros]:
  assumes "\<And>p. P (Ev_fork p)" "\<And>p g. P (Ev_setpgid p g)" "\<And>p s. P (Ev_kill p s)" "\<And>fd. P (Ev_close fd)" "\<And>p. P (Ev_wait p)"
    "\<And>fd t. P (Ev_out fd t)"
  shows "extends P (spawn os err_fd pipes n pgid pids)"
  by (induction n arbitrary: pgid pids) (auto simp: Let_def intro!: extends_intros assms)

lemma extends_wait_pid [extends_intros]: "(\<And>p. P (Ev_wait p)) \<Longrightarrow> extends P (wait_pid os pid)"
  by (rule extendsI) (auto dest!: wait_pid_log simp: waited_def list_all_iff)

lemma extends_wait_all [extends_intros]: "(\<And>p. P (Ev_wait p)) \<Longrightarrow> extends P (wait_all os pids st)"
  by (induction pids arbitrary: st) (auto intro!: extends_intros)

lemma extends_wait_job_loop [extends_intros]:
  assumes P: "\<And>p. P (Ev_wait p)" "\<And>fd t. P (Ev_out fd t)"
  shows "extends P (wait_job_loop os err_fd a jl)"
proof (rule extendsI)
  fix lg x lg'
  have "wait_job_loop os err_fd a jl lg = Some y \<Longrightarrow> \<exists>d. snd y = lg @ d \<and> list_all P d" for y
  proof (rule wait_job_loop.raw_induct [where P = "\<lambda>os err_fd a jl lg y. \<exists>d. snd y = lg @ d \<and> list_all P d"], goal_cases)
    case (1 w os err_fd a jl lg y)
    from 1(3) P show ?case by (fastforce split: option.splits sum.splits if_splits dest!: 1(2))
  qed
  then show "wait_job_loop os err_fd a jl lg = Some (Ret x, lg') \<Longrightarrow> \<exists>d. lg' = lg @ d \<and> list_all P d" by fastforce
qed

text \<open>After its start the shell does not change its signal dispositions any more.\<close>

fun quiet :: "sh_event \<Rightarrow> bool" where
  "quiet (Ev_sigaction n d) = False"
| "quiet _ = True"

lemma extends_quiet [extends_intros]:
  "extends quiet (set_foreground os s pgid err_fd who)"
  "extends quiet (wait_foreground_job os s a err_fd)"
  "extends quiet (finish_pipeline os s pl out_fd err_fd tr pgid pids)"
  "extends quiet (execute_external_pipeline os s pl out_fd err_fd tr)"
  "extends quiet (reap_sh os jl nfd)"
  "extends quiet (run_builtin os s pl out_fd err_fd)"
proof -
  show f: "extends quiet (set_foreground os s pgid err_fd who)" for s pgid who
    unfolding set_foreground_def by (intro extends_intros) simp_all
  show w: "extends quiet (wait_foreground_job os s a err_fd)" for s a
    unfolding wait_foreground_job_def by (intro extends_intros f) simp_all
  show p: "extends quiet (finish_pipeline os s pl out_fd err_fd tr pgid pids)" for pgid pids
    unfolding finish_pipeline_def Let_def jobs_add_sh_def by (intro extends_intros f w) simp_all
  show "extends quiet (execute_external_pipeline os s pl out_fd err_fd tr)"
    unfolding execute_external_pipeline_def Let_def by (intro extends_intros p) simp_all
  show r: "extends quiet (reap_sh os jl nfd)" for jl nfd
    unfolding reap_sh_def by (intro extends_intros) simp_all
  show "extends quiet (run_builtin os s pl out_fd err_fd)"
    unfolding run_builtin_def builtin_cd_def builtin_fg_bg_def jobs_print_sh_def Let_def by (intro extends_intros r w) simp_all
qed

section \<open>Noninteractive execution\<close>

text \<open>The events that do not touch the state of the shell: directory, terminal and job table.\<close>

fun stateless :: "sh_event \<Rightarrow> bool" where
  "stateless (Ev_chdir d) = False"
| "stateless (Ev_tcsetpgrp fd g) = False"
| "stateless Ev_reap = False"
| "stateless (Ev_sigaction n d) = False"
| "stateless _ = True"

definition forks :: "sh_event list \<Rightarrow> int list" where
  "forks lg = concat (map (\<lambda>e. case e of Ev_fork p \<Rightarrow> [p] | _ \<Rightarrow> []) lg)"

lemma forks_append [simp]: "forks (xs @ ys) = forks xs @ forks ys"
  by (simp add: forks_def)

lemma forks_simps [simp]:
  "forks [] = []" "forks (Ev_fork p # es) = p # forks es" "forks (Ev_setpgid p g # es) = forks es"
  "forks (Ev_out fd t # es) = forks es"
  by (simp_all add: forks_def)

lemma no_forks: "list_all (\<lambda>e. \<forall>p. e \<noteq> Ev_fork p) d \<Longrightarrow> forks d = []"
  by (induction d) (auto simp: forks_def split: sh_event.split)

lemma no_forks_step: "extends (\<lambda>e. \<forall>p. e \<noteq> Ev_fork p) m \<Longrightarrow> m lg = Some (Ret x, lg') \<Longrightarrow> forks lg' = forks lg"
  by (auto dest!: extendsD simp: no_forks)

lemma spawn_forks:
  "spawn os err_fd pipes n pgid pids lg = Some (Ret (Some (g, ps)), lg') \<Longrightarrow>
    \<exists>new. ps = pids @ new \<and> length new = n \<and> forks lg' = forks lg @ new"
proof (induction n arbitrary: pgid pids lg)
  case (Suc n)
  obtain p where p: "os_fork os lg = Inr p"
    using Suc.prems by (cases "os_fork os lg") (auto simp: sbind_Ret)
  obtain lg1 g1 where "spawn os err_fd pipes n g1 (pids @ [int p]) lg1 = Some (Ret (Some (g, ps)), lg')"
      "forks lg1 = forks lg @ [int p]"
    using Suc.prems p
    by (auto simp: sbind_Ret Let_def emit_def try_call_def split: option.splits if_splits)
  with Suc.IH [of g1 "pids @ [int p]" lg1] show ?case by auto
qed auto

lemma wait_all_last:
  "wait_all os pids st0 lg = Some (Ret st, lg') \<Longrightarrow> pids \<noteq> [] \<Longrightarrow> \<exists>lg1. waited os (last pids) lg1 (Ret st, lg')"
proof (induction pids arbitrary: st0 lg)
  case (Cons p ps)
  then obtain x lg1 where "wait_pid os p lg = Some (Ret x, lg1)"
      "wait_all os ps (if ps = [] then x else st0) lg1 = Some (Ret st, lg')"
    by (auto simp: sbind_Ret)
  with Cons.IH show ?case by (cases "ps = []") (auto dest: wait_pid_log)
qed simp

text \<open>A \<open>pipe\<close> or \<open>fork\<close> that the system refused while the log grew.\<close>

definition refused :: "shell_os \<Rightarrow> sh_event list \<Rightarrow> sh_event list \<Rightarrow> bool" where
  "refused os lg lg' \<longleftrightarrow>
     (\<exists>d1 d2 e. lg' = lg @ d1 @ d2 \<and> (os_pipe os (lg @ d1) = Inl e \<or> os_fork os (lg @ d1) = Inl e))"

lemma refused_now: "os_pipe os lg = Inl e \<or> os_fork os lg = Inl e \<Longrightarrow> refused os lg (lg @ d)"
  unfolding refused_def by (intro exI [of _ "[]"] exI [of _ d]) auto

lemma refused_later: "refused os (lg @ a) lg' \<Longrightarrow> refused os lg lg'"
  unfolding refused_def by (metis append_assoc)

lemma refused_more: "refused os lg lg' \<Longrightarrow> refused os lg (lg' @ d)"
  unfolding refused_def by (metis append_assoc)

lemma extends_log: "extends P m \<Longrightarrow> m lg = Some (Ret x, lg') \<Longrightarrow> \<exists>d. lg' = lg @ d"
  by (auto dest: extendsD)

lemma open_pipes_refused:
  "open_pipes os err_fd n ps lg = Some (Ret None, lg') \<Longrightarrow> refused os lg lg'"
proof (induction n arbitrary: ps lg)
  case (Suc n)
  show ?case
  proof (cases "os_pipe os lg")
    case (Inl e)
    have "extends (\<lambda>_. True) (open_pipes os err_fd (Suc n) ps)" by (intro extends_intros) simp_all
    with extends_log Suc.prems Inl show ?thesis by (metis refused_now)
  next
    case (Inr rw)
    then show ?thesis using Suc by (cases rw) (auto simp: sbind_Ret emit_def dest!: Suc.IH intro: refused_later)
  qed
qed simp

lemma spawn_refused:
  "spawn os err_fd pipes n pgid pids lg = Some (Ret None, lg') \<Longrightarrow>
    refused os lg lg' \<and> (\<exists>new. length new < n \<and> forks lg' = forks lg @ new)"
proof (induction n arbitrary: pgid pids lg)
  case (Suc n)
  show ?case
  proof (cases "os_fork os lg")
    case (Inl e)
    have "extends (\<lambda>e. \<forall>p. e \<noteq> Ev_fork p) (sbind (say err_fd (err_line os ''fork'' e))
        (\<lambda>_. sbind (if pgid > 0 then sbind (try_call os (Ev_kill (- pgid) 15)) (\<lambda>_. sret ()) else sret ())
           (\<lambda>_. sbind (close_all_pipes pipes) (\<lambda>_. sbind (each (\<lambda>pid. emit (Ev_wait pid)) pids) (\<lambda>_. sret None)))))"
      by (intro extends_intros) simp_all
    from extendsD [OF this, of lg None lg'] Suc.prems Inl obtain d where "lg' = lg @ d" "list_all (\<lambda>e. \<forall>p. e \<noteq> Ev_fork p) d"
      by (auto simp: sbind_Ret [of "ask _"])
    with Inl show ?thesis by (auto simp: no_forks intro: refused_now exI [of _ "[]"])
  next
    case (Inr p)
    obtain d1 g1 where "spawn os err_fd pipes n g1 (pids @ [int p]) (lg @ d1) = Some (Ret None, lg')"
        "forks d1 = [int p]"
      using Suc.prems Inr
      by (auto simp: sbind_Ret Let_def emit_def try_call_def split: option.splits if_splits)
    with Suc.IH [of g1 "pids @ [int p]" "lg @ d1"] show ?thesis by (auto dest: refused_later intro!: exI [of _ "int p # _"])
  qed
qed simp

lemma execute_untracked:
  assumes run: "execute_external_pipeline os s pl out_fd err_fd False lg = Some (Ret (rc, s'), lg')"
    and ne: "sp_commands pl \<noteq> []"
  shows "\<exists>d. lg' = lg @ d \<and> list_all stateless d \<and>
    (if length (forks d) = length (sp_commands pl)
     then \<exists>st lg1. waited os (last (forks d)) lg1 (Ret st, lg') \<and> rc = exit_code st
     else length (forks d) < length (sp_commands pl) \<and> rc = 1 \<and> refused os lg lg')"
proof -
  let ?n = "length (sp_commands pl)" and ?nf = "\<lambda>e. \<forall>p. e \<noteq> Ev_fork p"
  have fin: "extends stateless (finish_pipeline os s pl out_fd err_fd False pgid pids)" for pgid pids
    unfolding finish_pipeline_def by (auto intro!: extends_intros)
  have "extends stateless (execute_external_pipeline os s pl out_fd err_fd False)"
    unfolding execute_external_pipeline_def Let_def by (auto intro!: extends_intros fin)
  from extendsD [OF this run] obtain d where d: "lg' = lg @ d" "list_all stateless d" by blast
  have nf: "extends ?nf (open_pipes os err_fd k [])" "extends ?nf (close_all_pipes pipes)" "extends ?nf (wait_all os ps 0)" for k pipes ps
    by (auto intro!: extends_intros)
  obtain k q lg2 where o: "open_pipes os err_fd k [] lg = Some (Ret q, lg2)"
      and r: "(case q of None \<Rightarrow> sret (1, s) | Some pipes \<Rightarrow>
        sbind (xalloc os (?n * 4)) (\<lambda>_. sbind (spawn os err_fd pipes ?n 0 []) (\<lambda>q. case q of None \<Rightarrow> sret (1, s) | Some (pgid, pids) \<Rightarrow>
           sbind (close_all_pipes pipes) (\<lambda>_. finish_pipeline os s pl out_fd err_fd False pgid pids)))) lg2 = Some (Ret (rc, s'), lg')"
  proof -
    let ?k = "if 0 < ?n then ?n - 1 else 0"
    from run obtain u lg1 q lg2 where "(if ?k \<noteq> 0 then xalloc os (?k * 8) else sret ()) lg = Some (Ret u, lg1)"
        and o: "open_pipes os err_fd ?k [] lg1 = Some (Ret q, lg2)"
        and r: "(case q of None \<Rightarrow> sret (1, s) | Some pipes \<Rightarrow>
        sbind (xalloc os (?n * 4)) (\<lambda>_. sbind (spawn os err_fd pipes ?n 0 []) (\<lambda>q. case q of None \<Rightarrow> sret (1, s) | Some (pgid, pids) \<Rightarrow>
           sbind (close_all_pipes pipes) (\<lambda>_. finish_pipeline os s pl out_fd err_fd False pgid pids)))) lg2 = Some (Ret (rc, s'), lg')"
      unfolding execute_external_pipeline_def Let_def sbind_Ret [of "if _ then _ else _"] sbind_Ret [of "open_pipes _ _ _ _"]
      by blast
    moreover from this(1) have "lg1 = lg" by (simp split: if_splits)
    ultimately show thesis using that by blast
  qed
  have f2: "forks lg2 = forks lg" using no_forks_step [OF nf(1) o] .
  obtain d2 where d2: "lg2 = lg @ d2" using extends_log [OF nf(1) o] by blast
  show ?thesis
  proof (cases q)
    case None
    with r have "rc = 1" "lg' = lg2" by auto
    moreover have "forks d = []" using f2 d(1) calculation(2) by (metis append_self_conv forks_append)
    ultimately show ?thesis using d open_pipes_refused [of os err_fd k "[]" lg lg2] o None ne by auto
  next
    case (Some pipes)
    with r obtain q1 lg4 where sp: "spawn os err_fd pipes ?n 0 [] lg2 = Some (Ret q1, lg4)"
        and r1: "(case q1 of None \<Rightarrow> sret (1, s) | Some (pgid, pids) \<Rightarrow>
           sbind (close_all_pipes pipes) (\<lambda>_. finish_pipeline os s pl out_fd err_fd False pgid pids)) lg4 = Some (Ret (rc, s'), lg')"
      by (auto simp: sbind_Ret)
    show ?thesis
    proof (cases q1)
      case None
      with r1 have "rc = 1" "lg' = lg4" by auto
      with spawn_refused [of os err_fd pipes ?n 0 "[]" lg2 lg4] sp None d d2 f2 show ?thesis by (auto dest: refused_later)
    next
      case (Some gp)
      then obtain g ps where gp: "q1 = Some (g, ps)" by (cases gp) auto
      with r1 obtain lg5 st where w: "close_all_pipes pipes lg4 = Some (Ret (), lg5)" "wait_all os ps 0 lg5 = Some (Ret st, lg')" "rc = exit_code st"
        by (auto simp: sbind_Ret finish_pipeline_def)
      have "forks lg' = forks lg4" using no_forks_step [OF nf(2) w(1)] no_forks_step [OF nf(3) w(2)] by simp
      moreover have "length ps = ?n" "forks lg4 = forks lg @ ps" using spawn_forks [OF sp [unfolded gp]] f2 by auto
      ultimately have "forks d = ps" "length ps = ?n" using d(1) by simp_all
      moreover obtain lg1 where "waited os (last ps) lg1 (Ret st, lg')"
        using wait_all_last [OF w(2)] ne calculation(2) by fastforce
      ultimately show ?thesis using w(3) d by auto
    qed
  qed
qed

section \<open>The history of a session\<close>

text \<open>Executing a pipeline, builtin or not, leaves the history alone.\<close>

definition keeps_history :: "ShellState \<Rightarrow> (int \<times> ShellState) sh \<Rightarrow> bool" where
  "keeps_history s m \<longleftrightarrow> (\<forall>lg rc s' lg'. m lg = Some (Ret (rc, s'), lg') \<longrightarrow> ss_history s' = ss_history s)"

lemma wait_foreground_history:
  "wait_foreground_job os s a err_fd lg = Some (Ret s', lg') \<Longrightarrow> ss_history s' = ss_history s"
  by (auto simp: wait_foreground_job_def sbind_Ret split: option.splits if_splits)

lemma keepsD: "keeps_history s m \<Longrightarrow> m lg = Some (Ret (rc, s'), lg') \<Longrightarrow> ss_history s' = ss_history s"
  unfolding keeps_history_def by blast

named_theorems keeps_intros \<open>computations that keep the history\<close>

lemma keeps_sbind [keeps_intros]: "(\<And>x. keeps_history s (f x)) \<Longrightarrow> keeps_history s (sbind m f)"
  unfolding keeps_history_def sbind_Ret by blast

lemma keeps_wait [keeps_intros]:
  "ss_history s1 = ss_history s \<Longrightarrow> keeps_history s (sbind (wait_foreground_job os s1 a err_fd) (\<lambda>s2. sret (rc, s2)))"
  by (auto simp: keeps_history_def sbind_Ret dest: wait_foreground_history)

lemma keeps_basic [keeps_intros]:
  "ss_history s1 = ss_history s \<Longrightarrow> keeps_history s (sret (rc, s1))"
  "keeps_history s m \<Longrightarrow> keeps_history s n \<Longrightarrow> keeps_history s (if b then m else n)"
  "keeps_history s m \<Longrightarrow> (\<And>x. keeps_history s (f x)) \<Longrightarrow> keeps_history s (case v of None \<Rightarrow> m | Some x \<Rightarrow> f x)"
  "(\<And>x. keeps_history s (g x)) \<Longrightarrow> (\<And>y. keeps_history s (h y)) \<Longrightarrow> keeps_history s (case w of Inl x \<Rightarrow> g x | Inr y \<Rightarrow> h y)"
  "(\<And>x y. keeps_history s (k x y)) \<Longrightarrow> keeps_history s (case z of (x, y) \<Rightarrow> k x y)"
  by (auto simp: keeps_history_def split: option.split sum.split prod.split)

lemma execute_history: "keeps_history s (execute_external_pipeline os s pl out_fd err_fd tr)"
  unfolding execute_external_pipeline_def finish_pipeline_def Let_def
  by (intro keeps_basic keeps_wait keeps_sbind) simp_all

lemma fg_bg_history: "keeps_history s (builtin_fg_bg os s argv out_fd err_fd)"
  unfolding builtin_fg_bg_def mark_running_def Let_def by (intro keeps_basic keeps_wait keeps_sbind) simp_all

lemma cd_history: "keeps_history s (builtin_cd os s argv err_fd)"
  unfolding builtin_cd_def by (intro keeps_basic keeps_wait keeps_sbind) simp_all

lemma builtin_history_kept:
  assumes "run_builtin os s pl out_fd err_fd lg = Some (Ret (Some (rc, s')), lg')"
  shows "ss_history s' = ss_history s"
  using assms unfolding run_builtin_def Let_def
  by (auto simp: sbind_Ret dest: keepsD [OF fg_bg_history] keepsD [OF cd_history] split: if_splits)

lemma run_parsed_history:
  assumes "run_parsed os s line expanded pl out_fd err_fd lg = Some (Ret (rc, s'), lg')"
  shows "ss_history s' = history_add (ss_history s) expanded"
  using assms unfolding run_parsed_def Let_def
  by (auto simp: sbind_Ret dest!: xdup_Ret builtin_history_kept keepsD [OF execute_history] split: option.splits)

text \<open>Whether a line is a command: it expands, is not blank and parses to at least one stage.\<close>

definition command_of :: "shell_os \<Rightarrow> history \<Rightarrow> string \<Rightarrow> string option" where
  "command_of os h line =
     (case history_expand h line of
        No_Expansion m \<Rightarrow> None
      | Expanded e \<Rightarrow>
          (case shell_parse_line (os_mem os) (Some (strip_eol e)) (Some empty_pipeline) (Some 256) of
             Parse_Ret r (Some p) msg \<Rightarrow> if r = 0 \<and> strip_eol e \<noteq> [] \<and> sp_commands p \<noteq> [] then Some (strip_eol e) else None
           | _ \<Rightarrow> None))"

lemma parse_line_Some:
  assumes "shell_parse_line mem (Some l) (Some p0) err = Parse_Ret r p msg"
  obtains q where "p = Some q"
  using assms by (auto simp: shell_parse_line_def parse_fail_def Let_def split: outcome.splits option.splits if_splits)

section \<open>Properties\<close>

text \<open>
  C31. Noninteractive execution (\<^verbatim>\<open>mlrt shell -c\<close> and the remote shell): a line that does not parse,
  ends in \<open>&\<close> or is a single stateful builtin is answered with code 2 and one message, and no
  process is created; a blank line does nothing and gives 0; every other line changes neither the
  directory nor the terminal nor the job table. When it creates one process per stage, the code is the
  exit code of the last stage (128 plus the signal when it was killed); it creates fewer only when the
  system refused a pipe or a process, and then the code is 1.
\<close>

theorem noninteractive_outcome:
  assumes "shell_parse_line (os_mem os) (Some line) (Some empty_pipeline) (Some 256) = Parse_Ret r (Some p) msg"
    and "shell_run_noninteractive os line out_fd err_fd lg = Some (Ret rc, lg')"
  shows "if r = 0 \<and> sp_commands p = [] then rc = 0 \<and> lg' = lg
    else if r \<noteq> 0 \<or> sp_background p \<or> length (sp_commands p) = 1 \<and> sc_argv (sp_commands p ! 0) ! 0 \<in> set forbidden
    then rc = 2 \<and> (\<exists>m. lg' = lg @ [Ev_out err_fd m])
    else \<exists>d. lg' = lg @ d \<and> list_all stateless d \<and>
      (if length (forks d) = length (sp_commands p)
       then \<exists>st lg1. waited os (last (forks d)) lg1 (Ret st, lg') \<and> rc = exit_code st
       else length (forks d) < length (sp_commands p) \<and> rc = 1 \<and> refused os lg lg')"
proof (cases "r = 0")
  case True
  define Q where "Q \<longleftrightarrow> (\<exists>d. lg' = lg @ d \<and> list_all stateless d \<and>
      (if length (forks d) = length (sp_commands p)
       then \<exists>st lg1. waited os (last (forks d)) lg1 (Ret st, lg') \<and> rc = exit_code st
       else length (forks d) < length (sp_commands p) \<and> rc = 1 \<and> refused os lg lg'))"
  have p: "parse_sh os line = sret (Inr p)" using assms(1) True by (simp add: parse_sh_def)
  have q: "execute_external_pipeline os zero_state p out_fd err_fd False lg = Some (Ret (rc, s'), lg') \<Longrightarrow> sp_commands p \<noteq> [] \<Longrightarrow> Q" for s'
    unfolding Q_def by (rule execute_untracked)
  show ?thesis
    using assms(2) True q unfolding shell_run_noninteractive_def p Q_def [symmetric]
    by (auto simp: sbind_Ret Let_def split: if_splits)
next
  case False
  then show ?thesis using assms by (auto simp: shell_run_noninteractive_def parse_sh_def sbind_Ret)
qed

theorem noninteractive_outcome_witness:
  "let os = \<lparr>os_mem = (\<lambda>_. True), os_addr = (\<lambda>_. 1), os_pipe = (\<lambda>_. Inl 24), os_fork = (\<lambda>_. Inr 100), os_waitpid = (\<lambda>_ p. Inr (p, 0x700)),
             os_reap = (\<lambda>_. ([], 0, 0)), os_call = (\<lambda>_ _. None), os_env = (\<lambda>_. None), os_sigchld = (\<lambda>_. False), os_strerror = (\<lambda>_. [])\<rparr>
   in case shell_run_noninteractive os ''ls'' 1 2 [] of
        Some (Ret rc, lg) \<Rightarrow> rc = 7 \<and> forks lg = [100]
      | _ \<Rightarrow> False"
proof -
  define os where "os = \<lparr>os_mem = (\<lambda>_. True), os_addr = (\<lambda>_. 1), os_pipe = (\<lambda>_. Inl 24), os_fork = (\<lambda>_. Inr 100), os_waitpid = (\<lambda>_ p. Inr (p, 0x700)),
             os_reap = (\<lambda>_. ([], 0, 0)), os_call = (\<lambda>_ _. None), os_env = (\<lambda>_. None), os_sigchld = (\<lambda>_. False), os_strerror = (\<lambda>_. [])\<rparr>"
  let ?c = "\<lparr>sc_argv = [''ls''], sc_input_path = None, sc_output_path = None, sc_append_output = False\<rparr>"
  let ?p = "\<lparr>sp_commands = [?c], sp_background = False, sp_source = Some ''ls''\<rparr>"
  have "shell_parse_line (\<lambda>_. True) (Some ''ls'') (Some empty_pipeline) (Some 256) = Parse_Ret 0 (Some ?p) None"
    by code_simp
  then have p: "shell_parse_line (os_mem os) (Some ''ls'') (Some empty_pipeline) (Some 256) = Parse_Ret 0 (Some ?p) None"
    by (simp add: os_def)
  have w: "wait_pid os 100 lg = Some (Ret 0x700, lg @ [Ev_wait 100])" for lg
    by (subst wait_pid.simps) (simp add: os_def)
  have a: "os_mem os n" "os_fork os lg = Inr 100" "os_call os lg e = None" for n lg e by (simp_all add: os_def)
  obtain rc lg where run: "shell_run_noninteractive os ''ls'' 1 2 [] = Some (Ret rc, lg)" and f: "forks lg = [100]"
    by (simp add: shell_run_noninteractive_def parse_sh_def p forbidden_def execute_external_pipeline_def finish_pipeline_def
        sbind_def sret_def ask_def say_def emit_def try_call_def xalloc_def mlrt_xmalloc_def close_all_pipes_def pipe_fds_def Let_def a w forks_def)
  from noninteractive_outcome [OF p run] f obtain st lg1 where "waited os 100 lg1 (Ret st, lg)" "rc = exit_code st"
    by (auto simp: forbidden_def)
  moreover from this(1) have "st = 0x700" by (auto simp: waited_def os_def)
  moreover have "exit_code 0x700 = 7" by (simp add: exit_code_def WIFEXITED_def WEXITSTATUS_def WTERMSIG_def)
  ultimately have "rc = 7" by simp
  with run f show ?thesis unfolding Let_def os_def [symmetric] by simp
qed

text \<open>
  C32. The history of a session: when a line has been handled, the history has gained the expanded
  line, without its line end, exactly if the line is a command (it expands, is not blank and
  parses); events that are not found, blank lines and lines that do not parse are not recorded and
  return 1, 0 and 2. Running the command itself, builtin or pipeline, does not change the history.
\<close>

theorem run_line_records:
  assumes "shell_run_line os s line out_fd err_fd lg = Some (Ret (rc, s'), lg')"
  shows "case command_of os (ss_history s) line of
      Some cmd \<Rightarrow> ss_history s' = history_add (ss_history s) cmd
    | None \<Rightarrow> ss_history s' = ss_history s \<and>
        rc = (case history_expand (ss_history s) line of
                No_Expansion m \<Rightarrow> 1
              | Expanded e \<Rightarrow>
                  (case shell_parse_line (os_mem os) (Some (strip_eol e)) (Some empty_pipeline) (Some 256) of
                     Parse_Ret r p m \<Rightarrow> if strip_eol e = [] \<or> r = 0 then 0 else 2 | Parse_Died m \<Rightarrow> 0))"
proof -
  obtain s1 lg1 where h: "ss_history s1 = ss_history s"
      and r: "expand_and_run os s1 line out_fd err_fd lg1 = Some (Ret (rc, s'), lg')"
    using assms that [of s] that [of "s\<lparr>ss_jobs := jl\<rparr>" for jl] unfolding shell_run_line_def
    by (auto simp: sbind_Ret split: if_splits)
  show ?thesis
  proof (cases "history_expand (ss_history s) line")
    case (Expanded e)
    show ?thesis
    proof (cases "strip_eol e = []")
      case True
      with r h Expanded show ?thesis
        by (auto simp: expand_and_run_def sbind_Ret command_of_def dest: xdup_Ret split: parse_result.split option.split)
    next
      case False
      then obtain p lg2 where r2: "parse_sh os (strip_eol e) lg1 = Some (Ret p, lg2)"
          "(case p of
              Inl msg \<Rightarrow> sbind (say err_fd (''parse: '' @ msg @ [CHR 0x0A])) (\<lambda>_. sret (2, s1))
            | Inr pipeline \<Rightarrow>
                if sp_commands pipeline = [] then sret (0, s1)
                else run_parsed os s1 line (strip_eol e) pipeline out_fd err_fd) lg2 = Some (Ret (rc, s'), lg')"
        using r h Expanded by (auto simp: expand_and_run_def sbind_Ret Let_def simp del: append_Cons dest!: xdup_Ret)
      then obtain rr q msg where q: "shell_parse_line (os_mem os) (Some (strip_eol e)) (Some empty_pipeline) (Some 256) = Parse_Ret rr (Some q) msg"
        by (auto simp: parse_sh_def split: parse_result.splits elim: parse_line_Some)
      with r2 False Expanded h run_parsed_history [of os s1 line "strip_eol e" q out_fd err_fd lg2 rc s' lg'] show ?thesis
        by (auto simp: command_of_def parse_sh_def sbind_Ret split: if_splits)
    qed
  qed (use r h in \<open>auto simp: expand_and_run_def command_of_def sbind_Ret\<close>)
qed

theorem run_line_records_witness:
  "let os = \<lparr>os_mem = (\<lambda>_. True), os_addr = (\<lambda>_. 1), os_pipe = (\<lambda>_. Inl 24), os_fork = (\<lambda>_. Inl 11), os_waitpid = (\<lambda>_ p. Inr (p, 0)),
             os_reap = (\<lambda>_. ([], 0, 0)), os_call = (\<lambda>_ _. None), os_env = (\<lambda>_. None), os_sigchld = (\<lambda>_. False), os_strerror = (\<lambda>_. [])\<rparr>
   in case shell_run_line os zero_state ''help'' 1 2 [] of
        Some (Ret (rc, s), lg) \<Rightarrow> hs_entries (ss_history s) = [''help'']
      | _ \<Rightarrow> False"
proof -
  define os where "os = \<lparr>os_mem = (\<lambda>_. True), os_addr = (\<lambda>_. 1), os_pipe = (\<lambda>_. Inl 24), os_fork = (\<lambda>_. Inl 11), os_waitpid = (\<lambda>_ p. Inr (p, 0)),
             os_reap = (\<lambda>_. ([], 0, 0)), os_call = (\<lambda>_ _. None), os_env = (\<lambda>_. None), os_sigchld = (\<lambda>_. False), os_strerror = (\<lambda>_. [])\<rparr>"
  let ?c = "\<lparr>sc_argv = [''help''], sc_input_path = None, sc_output_path = None, sc_append_output = False\<rparr>"
  let ?p = "\<lparr>sp_commands = [?c], sp_background = False, sp_source = Some ''help''\<rparr>"
  have "shell_parse_line (\<lambda>_. True) (Some ''help'') (Some empty_pipeline) (Some 256) = Parse_Ret 0 (Some ?p) None"
    by code_simp
  then have p: "shell_parse_line (os_mem os) (Some ''help'') (Some empty_pipeline) (Some 256) = Parse_Ret 0 (Some ?p) None"
    by (simp add: os_def)
  have e: "history_expand (ss_history zero_state) ''help'' = Expanded ''help''" "strip_eol ''help'' = ''help''" by code_simp+
  then have c: "command_of os (ss_history zero_state) ''help'' = Some ''help''" by (simp add: command_of_def p)
  have "\<exists>rc s lg. shell_run_line os zero_state ''help'' 1 2 [] = Some (Ret (rc, s), lg)"
    by (simp add: shell_run_line_def expand_and_run_def e parse_sh_def p run_parsed_def run_builtin_def sbind_def sret_def
        ask_def say_def emit_def xdup_def mlrt_xstrdup_def) (simp add: os_def zero_state_def)
  then obtain rc s lg where run: "shell_run_line os zero_state ''help'' 1 2 [] = Some (Ret (rc, s), lg)" by blast
  from run_line_records [OF run] have "ss_history s = history_add (ss_history zero_state) ''help''" by (simp add: c)
  then have "hs_entries (ss_history s) = [''help'']"
    by (simp add: history_add_def zero_state_def e SHELL_HISTORY_MAX_def)
  with run show ?thesis unfolding Let_def os_def [symmetric] by simp
qed

section \<open>Two defects\<close>

text \<open>
  Interactive mode passes each line with its line end, and the expansion has lost it, so the test
  that should find expanded history events is true for every command: every command typed is
  printed once more before it runs.
\<close>

theorem every_command_echoed:
  assumes "ss_interactive s" "is_eol eol" "command_of os (ss_history s) (cmd @ [eol]) = Some cmd"
    and "shell_run_line os s (cmd @ [eol]) out_fd err_fd lg = Some (Ret r, lg')"
  shows "Ev_out out_fd (cmd @ [CHR 0x0A]) \<in> set lg'"
proof -
  obtain s1 lg1 where h: "ss_history s1 = ss_history s" "ss_interactive s1"
      and r: "expand_and_run os s1 (cmd @ [eol]) out_fd err_fd lg1 = Some (Ret r, lg')"
    using assms(1,4) that [of s] that [of "s\<lparr>ss_jobs := jl\<rparr>" for jl] unfolding shell_run_line_def
    by (auto simp: sbind_Ret split: if_splits)
  obtain e where e: "history_expand (ss_history s) (cmd @ [eol]) = Expanded e"
    using assms(3) by (auto simp: command_of_def split: expansion.splits)
  then have cmd: "strip_eol e = cmd" "cmd \<noteq> []"
    using assms(3) by (auto simp: command_of_def split: parse_result.splits option.splits if_splits)
  obtain q where q: "parse_sh os cmd = sret (Inr q)" "sp_commands q \<noteq> []"
    using assms(3) e cmd by (auto simp: command_of_def parse_sh_def split: parse_result.splits option.splits if_splits)
  have "run_parsed os s1 (cmd @ [eol]) cmd q out_fd err_fd lg1 = Some (Ret r, lg')"
    using r h e cmd q by (auto simp: expand_and_run_def sbind_Ret Let_def dest!: xdup_Ret)
  then obtain s2 where "sbind (say out_fd (cmd @ [CHR 0x0A])) (\<lambda>_. sbind (run_builtin os s2 q out_fd err_fd) (\<lambda>b. case b of
      Some r \<Rightarrow> sret r | None \<Rightarrow> execute_external_pipeline os s2 q out_fd err_fd True)) lg1 = Some (Ret r, lg')"
    using h(2) unfolding run_parsed_def Let_def sbind_Ret [of "xdup os cmd"] by (auto dest!: xdup_Ret)
  then have run: "sbind (run_builtin os s2 q out_fd err_fd) (\<lambda>b. case b of
      Some r \<Rightarrow> sret r | None \<Rightarrow> execute_external_pipeline os s2 q out_fd err_fd True)
      (lg1 @ [Ev_out out_fd (cmd @ [CHR 0x0A])]) = Some (Ret r, lg')"
    unfolding sbind_Ret [of "say _ _"] by simp
  have "extends quiet (sbind (run_builtin os s2 q out_fd err_fd) (\<lambda>b. case b of
      Some r \<Rightarrow> sret r | None \<Rightarrow> execute_external_pipeline os s2 q out_fd err_fd True))" by (intro extends_intros)
  from extendsD [OF this run] show ?thesis by auto
qed

text \<open>A job number is narrowed to \<open>int\<close> without a range check: a huge number names job 1.\<close>

lemma job_id_truncated: "parse_job_id [''fg'', ''4294967297''] = Inr 1"
proof -
  have "strtol10 ''4294967297'' = (4294967297, [])"
    by (simp add: strtol10_def c_isspace_def c_isdigit_def dec_value_def)
  then show ?thesis by (simp add: parse_job_id_def to_c_int_def signed_take_bit_eq_take_bit_shift take_bit_eq_mod)
qed

end
