(* ===== verification/Remote_Shell.thy ===== *)
theory Remote_Shell
  imports Net_Protocol Shell_Main
begin

text \<open>
  The remote shell: \<^verbatim>\<open>network/server.c\<close> and \<^verbatim>\<open>network/client.c\<close>. A command runs in a child process
  that writes to a pipe; the server collects the output in a growing buffer, limited to one MiB,
  and answers with a frame. Sockets are opened by the environment: a connection is the byte stream
  of the client with the schedules of the transfers. The threads of the server are interleaved
  in a transition system.
\<close>

section \<open>Capturing the output of a command\<close>

definition MAX_RESPONSE :: nat where
  "MAX_RESPONSE = unat MLRT_MAX_RESPONSE"

definition CHUNK :: nat where
  "CHUNK = 4096"

text \<open>Text as bytes, and bytes as the C string in front of the first zero.\<close>

definition to_bytes :: "string \<Rightarrow> byte list" where
  "to_bytes s = map (\<lambda>c. of_nat (of_char c)) s"

definition c_string :: "byte list \<Rightarrow> string" where
  "c_string bs = map (\<lambda>b. char_of (unat b)) (takeWhile (\<lambda>b. b \<noteq> 0) bs)"

definition truncated_note :: "byte list" where
  "truncated_note = to_bytes ([CHR 0x0A] @ ''[output truncated at 1 MiB]'' @ [CHR 0x0A])"

text \<open>
  \<open>memcpy\<close> into the buffer, whose length is its capacity; \<open>None\<close> is a write behind its end or a
  read behind the \<open>n\<close> bytes of the chunk.
\<close>

definition copy_in :: "byte list \<Rightarrow> nat \<Rightarrow> byte list \<Rightarrow> nat \<Rightarrow> byte list option" where
  "copy_in buf off src n = (if n \<le> length src \<and> off + n \<le> length buf then Some (write_at off (take n src) buf) else None)"

text \<open>The loop \<open>while (new_cap < need) new_cap *= 2\<close>; it is entered with a positive capacity.\<close>

function grow_cap :: "nat \<Rightarrow> nat \<Rightarrow> nat" where
  "grow_cap new_cap need = (if new_cap = 0 \<or> need \<le> new_cap then new_cap else grow_cap (new_cap * 2) need)"
  by pat_completeness auto
termination by (relation "measure (\<lambda>(c, n). n - c)") auto

declare grow_cap.simps [simp del]

text \<open>
  How the loop ends: it waits for output; it has failed, with or without a signal to the child; it
  has accessed memory out of bounds; or it is done, with buffer, length and whether it stopped the child.
\<close>

datatype capture = Cap_Blocked | Cap_Failed bool | Cap_Out_Of_Bounds | Cap_Done "byte list" nat bool

definition truncate_output :: "byte list \<Rightarrow> nat \<Rightarrow> byte list \<Rightarrow> capture" where
  "truncate_output buf len chunk =
     (let room = (if MAX_RESPONSE > len then MAX_RESPONSE - len else 0); tlen = length truncated_note
      in case (if room \<noteq> 0 then copy_in buf len chunk room else Some buf) of
           None \<Rightarrow> Cap_Out_Of_Bounds
         | Some buf1 \<Rightarrow>
             let len1 = len + room
             in if len1 + tlen \<le> length buf1 then
                  (case copy_in buf1 len1 truncated_note tlen of
                     None \<Rightarrow> Cap_Out_Of_Bounds
                   | Some buf2 \<Rightarrow> Cap_Done buf2 (len1 + tlen) True)
                else Cap_Done buf1 len1 True)"

definition make_room :: "(nat \<Rightarrow> bool) \<Rightarrow> byte list \<Rightarrow> nat \<Rightarrow> nat \<Rightarrow> byte list option" where
  "make_room mem buf len n =
     (if len + n + 1 > length buf then
        let new_cap = grow_cap (length buf * 2) (len + n + 1)
        in if mem new_cap then Some (buf @ replicate (new_cap - length buf) 0) else None
      else Some buf)"

fun capture_loop :: "(nat \<Rightarrow> bool) \<Rightarrow> rd_event list \<Rightarrow> byte list \<Rightarrow> nat \<Rightarrow> byte list \<Rightarrow> capture" where
  "capture_loop mem [] buf len inp = Cap_Blocked"
| "capture_loop mem (e # es) buf len inp =
     (case sys_read e CHUNK inp of
        RdIntr \<Rightarrow> capture_loop mem es buf len inp
      | RdErr \<Rightarrow> Cap_Failed False
      | RdData bs \<Rightarrow>
          if bs = [] then Cap_Done buf len False
          else if len + length bs > MAX_RESPONSE then truncate_output buf len bs
          else
            (case make_room mem buf len (length bs) of
               None \<Rightarrow> Cap_Failed True
             | Some buf1 \<Rightarrow>
                 (case copy_in buf1 len bs (length bs) of
                    None \<Rightarrow> Cap_Out_Of_Bounds
                  | Some buf2 \<Rightarrow> capture_loop mem es buf2 (len + length bs) (drop (length bs) inp))))"

text \<open>
  \<open>execute_capture\<close>: the log of system calls and the outcome, \<open>junk\<close> being what the fresh buffer
  holds. The result is the return value -1 or the output with the exit code.
\<close>

datatype captured = Capture_Error | Out_Of_Bounds | Captured "byte list" int

definition wait_child :: "shell_os \<Rightarrow> int \<Rightarrow> captured \<Rightarrow> captured sh" where
  "wait_child os pid r = sbind (emit (Ev_wait pid)) (\<lambda>_. sret r)"

definition execute_capture :: "shell_os \<Rightarrow> byte list \<Rightarrow> rd_event list \<Rightarrow> byte list \<Rightarrow> captured sh" where
  "execute_capture os junk es inp =
     sbind (ask (os_pipe os)) (\<lambda>a. case a of
       Inl e \<Rightarrow> sret Capture_Error
     | Inr (r, w) \<Rightarrow>
         sbind (emit (Ev_pipe (int r) (int w))) (\<lambda>_.
           sbind (ask (os_fork os)) (\<lambda>b. case b of
             Inl e \<Rightarrow> sbind (emit (Ev_close (int r))) (\<lambda>_. sbind (emit (Ev_close (int w))) (\<lambda>_. sret Capture_Error))
           | Inr p \<Rightarrow>
               let pid = int p; stop = sbind (try_call os (Ev_kill pid 15)) (\<lambda>_. sret ())
               in sbind (emit (Ev_fork pid)) (\<lambda>_. sbind (emit (Ev_close (int w))) (\<lambda>_.
                    if \<not> os_mem os CHUNK then
                      sbind (emit (Ev_close (int r))) (\<lambda>_. sbind stop (\<lambda>_. wait_child os pid Capture_Error))
                    else
                      (case capture_loop (os_mem os) es junk 0 inp of
                         Cap_Blocked \<Rightarrow> (\<lambda>lg. None)
                       | Cap_Out_Of_Bounds \<Rightarrow> sret Out_Of_Bounds
                       | Cap_Failed killed \<Rightarrow>
                           sbind (emit (Ev_close (int r))) (\<lambda>_.
                             sbind (if killed then stop else sret ()) (\<lambda>_. wait_child os pid Capture_Error))
                       | Cap_Done buf len killed \<Rightarrow>
                           sbind (if killed then stop else sret ()) (\<lambda>_.
                             sbind (emit (Ev_close (int r))) (\<lambda>_.
                               sbind (wait_pid os pid) (\<lambda>st.
                                 if len + 1 > length buf \<and> \<not> os_mem os (len + 1) then sret Capture_Error
                                 else sret (Captured (take len buf) (exit_code st)))))))))))"

text \<open>The child: its output and error output are the pipe, its exit code the low byte.\<close>

definition capture_child :: "shell_os \<Rightarrow> int \<Rightarrow> int \<Rightarrow> string \<Rightarrow> int sh" where
  "capture_child os r w command =
     sbind (emit (Ev_close r)) (\<lambda>_.
       sbind (shell_run_noninteractive os command w w) (\<lambda>rc.
         sbind (emit (Ev_close w)) (\<lambda>_. sret (rc mod 256))))"

section \<open>A connection\<close>

definition failed_reply :: "byte list" where
  "failed_reply = to_bytes (''exit_status=1'' @ [CHR 0x0A] @ ''server: command execution failed'' @ [CHR 0x0A])"

definition status_line :: "int \<Rightarrow> byte list" where
  "status_line code = to_bytes (''exit_status='' @ int_text code @ [CHR 0x0A])"

lemma recv_frame_shorter:
  assumes "net_recv_frame mem es m inp = Some (rc, d, inp', es')"
  shows "length es' < length es"
proof -
  obtain rc1 hdr inp1 es1 where r1: "recv_all es 4 inp = Some (rc1, hdr, inp1, es1)"
    using assms by (auto simp: net_recv_frame_def split: option.splits)
  have "length es1 < length es" using net_reader.rdall_shorter [OF r1] by simp
  moreover have "length es' \<le> length es1"
    using assms r1 net_reader.rdall_shorter
    by (auto simp: net_recv_frame_def Let_def split: option.splits if_splits prod.splits)
  ultimately show ?thesis by simp
qed

text \<open>
  \<open>client_thread\<close> up to the end of the connection: \<open>exec i c\<close> is the outcome of \<open>execute_capture\<close>
  for the \<open>i\<close>-th command. The result are the bytes sent; \<open>None\<close> in the outcome of a command is a
  command that does not end.
\<close>

function client_thread ::
    "(nat \<Rightarrow> bool) \<Rightarrow> (nat \<Rightarrow> string \<Rightarrow> captured option) \<Rightarrow> rd_event list \<Rightarrow> wr_event list \<Rightarrow> byte list \<Rightarrow> byte list option" where
  "client_thread mem exec rs ws inp =
     (case net_recv_frame mem rs MLRT_MAX_COMMAND inp of
        None \<Rightarrow> None
      | Some (rc, d, inp', rs') \<Rightarrow>
          if rc \<le> 0 then Some []
          else
          (case d of
             None \<Rightarrow> Some []
           | Some (buf, command_len) \<Rightarrow>
               if command_len = 0 \<or> c_string buf = ''exit'' then Some []
               else
                 (case exec 0 (c_string buf) of
                    None \<Rightarrow> None
                  | Some (Captured output code) \<Rightarrow>
                      let response = status_line code @ output; total = length response
                      in if \<not> mem (total + 1) then Some []
                         else
                           (case net_send_frame ws response (of_nat total) of
                              None \<Rightarrow> None
                            | Some (src, sent, ws') \<Rightarrow>
                                if src < 0 then Some sent
                                else map_option (\<lambda>out. sent @ out) (client_thread mem (\<lambda>i. exec (Suc i)) rs' ws' inp'))
                  | Some Out_Of_Bounds \<Rightarrow> None
                  | Some Capture_Error \<Rightarrow>
                      (case net_send_frame ws failed_reply (of_nat (length failed_reply)) of
                         None \<Rightarrow> None
                       | Some (src, sent, ws') \<Rightarrow>
                           map_option (\<lambda>out. sent @ out) (client_thread mem (\<lambda>i. exec (Suc i)) rs' ws' inp')))))"
  by pat_completeness auto
termination
  by (relation "measure (\<lambda>(mem, exec, rs, ws, inp). length rs)") (auto dest: recv_frame_shorter)

declare client_thread.simps [simp del]

section \<open>Command lines\<close>

definition parse_port :: "string \<Rightarrow> int" where
  "parse_port text = (let (p, rest) = strtol10 text in if rest = [] \<and> p > 0 \<and> p \<le> 65535 then p else -1)"

text \<open>The options of the server; \<open>Inl\<close> is an exit code.\<close>

fun net_server_args :: "string list \<Rightarrow> int \<Rightarrow> bool \<Rightarrow> int + int \<times> bool" where
  "net_server_args [] port once = Inr (port, once)"
| "net_server_args (a # args) port once =
     (if a = ''--port'' \<and> args \<noteq> [] then
        (let p = parse_port (hd args) in if p < 0 then Inl 2 else net_server_args (tl args) p once)
      else if a = ''--once'' then net_server_args args port True
      else Inl 2)"

fun net_client_args :: "string list \<Rightarrow> int \<Rightarrow> string option \<Rightarrow> int + int \<times> string option" where
  "net_client_args [] port command = Inr (port, command)"
| "net_client_args (a # args) port command =
     (if a = ''--port'' \<and> args \<noteq> [] then
        (let p = parse_port (hd args) in if p < 0 then Inl 2 else net_client_args (tl args) p command)
      else if (a = ''-c'' \<or> a = ''--command'') \<and> args \<noteq> [] then net_client_args (tl args) port (Some (hd args))
      else Inl 2)"

text \<open>
  \<open>network_server_cli_main\<close> up to the accept loop, given whether the socket can be created, bound
  and listened on: \<open>Inl\<close> is an exit code, \<open>Inr\<close> the port and the option the loop runs with. When
  the loop and the wait for the clients are over the exit code is 0.
\<close>

definition network_server_cli_main :: "bool \<Rightarrow> bool \<Rightarrow> bool \<Rightarrow> string list \<Rightarrow> int + int \<times> bool" where
  "network_server_cli_main socket_ok bind_ok listen_ok argv =
     (case net_server_args (drop 1 argv) 5050 False of
        Inl code \<Rightarrow> Inl code
      | Inr (port, once) \<Rightarrow> if \<not> socket_ok then Inl 1 else if \<not> bind_ok then Inl 1 else if \<not> listen_ok then Inl 1 else Inr (port, once))"

text \<open>
  The client on a connected socket: \<open>inp\<close> are the bytes the server sends. The result of a command:
  return value, bytes printed, bytes sent, and what is left of stream and schedules.
\<close>

definition send_command ::
    "(nat \<Rightarrow> bool) \<Rightarrow> rd_event list \<Rightarrow> wr_event list \<Rightarrow> byte list \<Rightarrow> string \<Rightarrow>
     (int \<times> byte list \<times> byte list \<times> byte list \<times> rd_event list \<times> wr_event list) option" where
  "send_command mem rs ws inp command =
     (let len = length command
      in if len > unat MLRT_MAX_COMMAND then Some (2, [], [], inp, rs, ws)
         else
           (case net_send_frame ws (to_bytes command) (of_nat len) of
              None \<Rightarrow> None
            | Some (src, sent, ws') \<Rightarrow>
                if src < 0 then Some (1, [], sent, inp, rs, ws')
                else
                  (case net_recv_frame mem rs (MLRT_MAX_RESPONSE + 128) inp of
                     None \<Rightarrow> None
                   | Some (rc, d, inp', rs') \<Rightarrow>
                       if rc \<le> 0 then Some (1, [], sent, inp', rs', ws')
                       else
                         (case d of
                            None \<Rightarrow> Some (1, [], sent, inp', rs', ws')
                          | Some (buf, response_len) \<Rightarrow>
                              let response = take (unat response_len) buf
                              in Some (0, response @ (if response \<noteq> [] \<and> last response \<noteq> 10 then [10] else []),
                                       sent, inp', rs', ws')))))"

text \<open>The loop over the lines of standard input; a line is given without its line end.\<close>

fun client_lines ::
    "(nat \<Rightarrow> bool) \<Rightarrow> rd_event list \<Rightarrow> wr_event list \<Rightarrow> byte list \<Rightarrow> string list \<Rightarrow> int \<Rightarrow>
     (int \<times> byte list \<times> byte list \<times> wr_event list) option" where
  "client_lines mem rs ws inp [] rc = Some (rc, [], [], ws)"
| "client_lines mem rs ws inp (l # ls) rc =
     (let line = strip_eol l
      in if line = ''exit'' then Some (rc, [], [], ws)
         else
           (case send_command mem rs ws inp line of
              None \<Rightarrow> None
            | Some (rc1, shown, sent, inp', rs', ws') \<Rightarrow>
                if rc1 \<noteq> 0 then Some (rc1, shown, sent, ws')
                else map_option (\<lambda>(r, shown2, sent2, ws2). (r, shown @ shown2, sent @ sent2, ws2))
                       (client_lines mem rs' ws' inp' ls rc1)))"

text \<open>
  The client command: \<open>connect port\<close> gives the stream and schedules of a connection. The result:
  exit code, bytes printed, bytes sent.
\<close>

definition network_client_cli_main ::
    "(nat \<Rightarrow> bool) \<Rightarrow> (int \<Rightarrow> (byte list \<times> rd_event list \<times> wr_event list) option) \<Rightarrow> string list \<Rightarrow> string list \<Rightarrow>
     (int \<times> byte list \<times> byte list) option" where
  "network_client_cli_main mem connect_fn inputs argv =
     (case net_client_args (drop 1 argv) 5050 None of
        Inl code \<Rightarrow> Some (code, [], [])
      | Inr (port, command) \<Rightarrow>
          (case connect_fn port of
             None \<Rightarrow> Some (1, [], [])
           | Some (inp, rs, ws) \<Rightarrow>
               (case (case command of
                        Some c \<Rightarrow> map_option (\<lambda>(rc, shown, sent, inp', rs', ws'). (rc, shown, sent, ws')) (send_command mem rs ws inp c)
                      | None \<Rightarrow> client_lines mem rs ws inp inputs 0) of
                  None \<Rightarrow> None
                | Some (rc, shown, sent, ws') \<Rightarrow>
                    map_option (\<lambda>(src, bye, ws''). (rc, shown, sent @ bye)) (net_send_frame ws' (to_bytes ''exit'') 4))))"

section \<open>The threads of the server\<close>

text \<open>
  The main thread counts a client before it creates its thread and takes the count back when the
  creation fails; a thread counts itself out when it ends. \<open>nv_live\<close> is the number of threads that
  have been created and have not ended.
\<close>

datatype server_phase = Accepting | Registered | Create_Failed | Draining | Returned

record net_server =
  nv_active :: nat
  nv_live :: nat
  nv_accepted :: nat
  nv_stop :: bool
  nv_phase :: server_phase

definition net_server_start :: net_server where
  "net_server_start = \<lparr>nv_active = 0, nv_live = 0, nv_accepted = 0, nv_stop = False, nv_phase = Accepting\<rparr>"

inductive server_step :: "bool \<Rightarrow> net_server \<Rightarrow> net_server \<Rightarrow> bool" for once where
  accept_retry: "nv_phase s = Accepting \<Longrightarrow> \<not> nv_stop s \<Longrightarrow> server_step once s s"
| accept_fails: "nv_phase s = Accepting \<Longrightarrow> \<not> nv_stop s \<Longrightarrow> server_step once s (s\<lparr>nv_phase := Draining\<rparr>)"
| stopped: "nv_phase s = Accepting \<Longrightarrow> nv_stop s \<Longrightarrow> server_step once s (s\<lparr>nv_phase := Draining\<rparr>)"
| accepted: "nv_phase s = Accepting \<Longrightarrow> \<not> nv_stop s \<Longrightarrow>
    server_step once s (s\<lparr>nv_active := nv_active s + 1, nv_phase := Registered\<rparr>)"
| created: "nv_phase s = Registered \<Longrightarrow>
    server_step once s (s\<lparr>nv_live := nv_live s + 1, nv_accepted := nv_accepted s + 1,
      nv_phase := if once \<and> nv_accepted s + 1 \<ge> 1 then Draining else Accepting\<rparr>)"
| not_created: "nv_phase s = Registered \<Longrightarrow> server_step once s (s\<lparr>nv_phase := Create_Failed\<rparr>)"
| taken_back: "nv_phase s = Create_Failed \<Longrightarrow>
    server_step once s (s\<lparr>nv_active := nv_active s - 1, nv_phase := Accepting\<rparr>)"
| signal: "server_step once s (s\<lparr>nv_stop := True\<rparr>)"
| thread_ends: "nv_live s > 0 \<Longrightarrow> nv_phase s \<noteq> Returned \<Longrightarrow>
    server_step once s (s\<lparr>nv_live := nv_live s - 1, nv_active := if nv_active s \<noteq> 0 then nv_active s - 1 else nv_active s\<rparr>)"
| returns: "nv_phase s = Draining \<Longrightarrow> nv_active s = 0 \<Longrightarrow> server_step once s (s\<lparr>nv_phase := Returned\<rparr>)"

section \<open>The buffer of the capture\<close>

text \<open>
  The invariant of the loop: the capacity is 4096 doubled some times, no more often than needed,
  there is room for a terminating zero, and the buffer starts with the output read so far.
\<close>

definition cap_inv :: "byte list \<Rightarrow> nat \<Rightarrow> byte list \<Rightarrow> bool" where
  "cap_inv buf len got \<longleftrightarrow>
     (\<exists>k. length buf = CHUNK * 2 ^ k \<and> (k = 0 \<or> CHUNK * 2 ^ (k - 1) < len + 1)) \<and>
     len + 1 \<le> length buf \<and> len \<le> MAX_RESPONSE \<and> len = length got \<and> take len buf = got"

lemma max_response: "MAX_RESPONSE = CHUNK * 2 ^ 8"
  by (simp add: MAX_RESPONSE_def MLRT_MAX_RESPONSE_def CHUNK_def)

lemma note_length: "length truncated_note = 29"
  by (simp add: truncated_note_def to_bytes_def)

lemma cap_inv_start: "length junk = CHUNK \<Longrightarrow> cap_inv junk 0 []"
  by (auto simp: cap_inv_def CHUNK_def intro!: exI [of _ 0])

lemma cap_inv_store:
  assumes inv: "cap_inv buf len got" and n: "0 < n" "n \<le> CHUNK" "len + n \<le> MAX_RESPONSE" "n = length bs"
    and room: "make_room mem buf len n = Some buf1"
  shows "\<exists>buf2. copy_in buf1 len bs n = Some buf2 \<and> cap_inv buf2 (len + n) (got @ bs)"
proof -
  obtain k where k: "length buf = CHUNK * 2 ^ k" "k = 0 \<or> CHUNK * 2 ^ (k - 1) < len + 1"
      and i: "len + 1 \<le> length buf" "len = length got" "take len buf = got"
    using inv by (auto simp: cap_inv_def)
  have c: "CHUNK \<le> length buf" by (simp add: k(1))
  then have g: "grow_cap (length buf * 2) (len + n + 1) = length buf * 2"
    using n(2) i(1) by (subst grow_cap.simps) simp
  have "\<exists>j. length buf1 = CHUNK * 2 ^ j \<and> (j = 0 \<or> CHUNK * 2 ^ (j - 1) < len + n + 1)"
  proof (cases "len + n + 1 > length buf")
    case True
    then show ?thesis using room g k by (auto simp: make_room_def Let_def split: if_splits intro!: exI [of _ "Suc k"])
  next
    case False
    then show ?thesis using room k by (auto simp: make_room_def intro!: exI [of _ k])
  qed
  moreover have b1: "len + n + 1 \<le> length buf1" "take len buf1 = got"
    using room g i n(2) c by (auto simp: make_room_def Let_def split: if_splits)
  moreover have "take (len + n) (write_at len bs buf1) = got @ bs"
    using b1 n(4) i(2) by (simp add: write_at_def)
  ultimately show ?thesis using n by (auto simp: copy_in_def cap_inv_def i(2))
qed

text \<open>At the limit the capacity is exactly the limit, unless the limit has been reached exactly.\<close>

lemma cap_at_limit:
  assumes "cap_inv buf len got" "MAX_RESPONSE < len + CHUNK + 1"
  shows "MAX_RESPONSE \<le> length buf" "len < MAX_RESPONSE \<Longrightarrow> length buf = MAX_RESPONSE"
    "len = MAX_RESPONSE \<Longrightarrow> length buf = 2 * MAX_RESPONSE"
proof -
  obtain k where k: "length buf = CHUNK * 2 ^ k" "k = 0 \<or> CHUNK * 2 ^ (k - 1) < len + 1" "len + 1 \<le> length buf" "len \<le> MAX_RESPONSE"
    using assms(1) by (auto simp: cap_inv_def)
  have lo: "CHUNK * 255 + 1 \<le> CHUNK * 2 ^ k" using assms(2) k(1,3) by (simp add: max_response CHUNK_def)
  have k8: "8 \<le> k"
  proof (rule ccontr)
    assume "\<not> 8 \<le> k"
    then have "(2::nat) ^ k \<le> 2 ^ 7" by (intro power_increasing) simp_all
    with lo show False by (simp add: CHUNK_def)
  qed
  then have "(2::nat) ^ 8 \<le> 2 ^ k" by (intro power_increasing) simp_all
  then show "MAX_RESPONSE \<le> length buf" by (simp add: max_response k(1) CHUNK_def)
  have up: "(2::nat) ^ (k - 1) * CHUNK < len + 1" using k(2) k8 by (simp add: mult.commute)
  show "length buf = MAX_RESPONSE" if "len < MAX_RESPONSE"
  proof -
    have "(2::nat) ^ (k - 1) < 2 ^ 8" using up that by (simp add: max_response CHUNK_def)
    then have "k - 1 < 8" by (rule power_less_imp_less_exp [rotated]) simp
    with k8 have "k = 8" by simp
    then show ?thesis by (simp add: k(1) max_response)
  qed
  show "length buf = 2 * MAX_RESPONSE" if "len = MAX_RESPONSE"
  proof -
    have "(2::nat) ^ (k - 1) \<le> 2 ^ 8" using up that by (simp add: max_response CHUNK_def)
    then have "k - 1 \<le> 8" by (rule power_le_imp_le_exp [rotated]) simp
    moreover have "k \<noteq> 8" using k(1,3) that by (auto simp: max_response CHUNK_def)
    ultimately have "k = 9" using k8 by simp
    then show ?thesis by (simp add: k(1) max_response)
  qed
qed

text \<open>Truncation stays in the buffer and keeps the first MiB.\<close>

lemma truncate_safe:
  assumes inv: "cap_inv buf len got" and n: "bs \<noteq> []" "length bs \<le> CHUNK" "MAX_RESPONSE < len + length bs"
  shows "\<exists>buf' len'. truncate_output buf len bs = Cap_Done buf' len' True \<and> len' \<le> length buf' \<and>
    take len' buf' = take MAX_RESPONSE (got @ bs) @ (if len = MAX_RESPONSE then truncated_note else [])"
proof -
  have lim: "MAX_RESPONSE < len + CHUNK + 1" using n by simp
  have i: "len = length got" "take len buf = got" "len \<le> MAX_RESPONSE" using inv by (auto simp: cap_inv_def)
  show ?thesis
  proof (cases "len = MAX_RESPONSE")
    case True
    let ?buf = "write_at len truncated_note buf"
    have cap: "length buf = 2 * MAX_RESPONSE" using cap_at_limit [OF inv lim] True by simp
    then have big: "len + 29 \<le> length buf" using True by (simp add: max_response CHUNK_def)
    then have "truncate_output buf len bs = Cap_Done ?buf (len + 29) True"
      using True by (simp add: truncate_output_def Let_def copy_in_def note_length)
    moreover have "take (len + 29) ?buf = got @ truncated_note"
      using big i by (simp add: write_at_def note_length)
    ultimately show ?thesis using True i big by (auto simp: note_length)
  next
    case False
    then have lt: "len < MAX_RESPONSE" using i(3) by simp
    let ?r = "MAX_RESPONSE - len"
    have cap: "length buf = MAX_RESPONSE" using cap_at_limit(2) [OF inv lim lt] .
    have "copy_in buf len bs ?r = Some (write_at len (take ?r bs) buf)"
      using lt n(3) cap by (simp add: copy_in_def)
    moreover have "length (write_at len (take ?r bs) buf) = MAX_RESPONSE"
      using lt n(3) cap by (simp add: write_at_def)
    ultimately have "truncate_output buf len bs = Cap_Done (write_at len (take ?r bs) buf) MAX_RESPONSE True"
      using lt by (simp add: truncate_output_def Let_def note_length)
    moreover have "take MAX_RESPONSE (write_at len (take ?r bs) buf) = got @ take ?r bs"
      using lt n(3) i cap by (simp add: write_at_def)
    ultimately show ?thesis using lt i cap n(3) by (auto simp: write_at_def)
  qed
qed

lemma sys_read_data:
  assumes "sys_read e CHUNK inp = RdData bs"
  shows "length bs \<le> CHUNK" "bs @ drop (length bs) inp = inp" "bs = [] \<longleftrightarrow> inp = []"
proof -
  obtain m where m: "bs = take m inp" "0 < m" "m \<le> CHUNK"
    using assms by (cases e) (auto simp: CHUNK_def)
  then show "length bs \<le> CHUNK" "bs = [] \<longleftrightarrow> inp = []" by auto
  show "bs @ drop (length bs) inp = inp" using m(1) by (cases "m \<le> length inp") simp_all
qed

text \<open>
  What the captured bytes are: the whole output, or its first MiB, with the note exactly if a read
  ended at the limit.
\<close>

definition capture_ok :: "byte list \<Rightarrow> capture \<Rightarrow> bool" where
  "capture_ok output r =
     (case r of
        Cap_Out_Of_Bounds \<Rightarrow> False
      | Cap_Done buf len killed \<Rightarrow> len \<le> length buf \<and>
          (if killed then MAX_RESPONSE < length output \<and>
             (take len buf = take MAX_RESPONSE output \<or> take len buf = take MAX_RESPONSE output @ truncated_note)
           else take len buf = output \<and> len \<le> MAX_RESPONSE)
      | _ \<Rightarrow> True)"

lemma capture_loop_outcome: "cap_inv buf len got \<Longrightarrow> capture_ok (got @ inp) (capture_loop mem es buf len inp)"
proof (induction es arbitrary: buf len inp got)
  case (Cons e es)
  have i: "len = length got" "take len buf = got" "len + 1 \<le> length buf" "len \<le> MAX_RESPONSE"
    using Cons.prems by (auto simp: cap_inv_def)
  show ?case
  proof (cases "sys_read e CHUNK inp")
    case (RdData bs)
    note d = sys_read_data [OF RdData]
    consider "bs = []" | "bs \<noteq> []" "MAX_RESPONSE < len + length bs" | "bs \<noteq> []" "len + length bs \<le> MAX_RESPONSE" by linarith
    then show ?thesis
    proof cases
      case 1
      then show ?thesis using RdData d i by (auto simp: capture_ok_def)
    next
      case 2
      obtain buf' len' where t: "truncate_output buf len bs = Cap_Done buf' len' True" "len' \<le> length buf'"
          "take len' buf' = take MAX_RESPONSE (got @ bs) @ (if len = MAX_RESPONSE then truncated_note else [])"
        using truncate_safe [OF Cons.prems 2(1) d(1) 2(2)] by blast
      have "take MAX_RESPONSE (got @ inp) = take MAX_RESPONSE (got @ bs)" "length bs \<le> length inp"
        using 2(2) i(1) by (subst d(2) [symmetric], simp, metis d(2) length_append le_add1)
      with t 2 RdData i show ?thesis by (auto simp: capture_ok_def)
    next
      case 3
      show ?thesis
      proof (cases "make_room mem buf len (length bs)")
        case (Some buf1)
        then obtain buf2 where b: "copy_in buf1 len bs (length bs) = Some buf2" "cap_inv buf2 (len + length bs) (got @ bs)"
          using cap_inv_store [OF Cons.prems _ d(1) 3(2) refl Some] 3(1) by auto
        have "(got @ bs) @ drop (length bs) inp = got @ inp" using d(2) by simp
        with Cons.IH [OF b(2), of "drop (length bs) inp"] show ?thesis
          using RdData 3 Some b(1) by (simp add: not_less)
      qed (use RdData 3 in \<open>simp add: not_less capture_ok_def\<close>)
    qed
  qed (use Cons in \<open>auto simp: capture_ok_def\<close>)
qed (simp add: capture_ok_def)

text \<open>With enough reads that do not fail, and memory, the capture comes to its end.\<close>

lemma capture_loop_returns:
  assumes "\<forall>n. mem n"
  shows "cap_inv buf len got \<Longrightarrow> RdFail \<notin> set es \<Longrightarrow> length inp < rd_chunks es \<Longrightarrow>
    \<exists>buf' len' killed. capture_loop mem es buf len inp = Cap_Done buf' len' killed"
proof (induction es arbitrary: buf len inp got)
  case (Cons e es)
  show ?case
  proof (cases "sys_read e CHUNK inp")
    case (RdData bs)
    note d = sys_read_data [OF RdData]
    have e: "e \<noteq> RdEintr" using RdData by auto
    consider "bs = []" | "bs \<noteq> []" "MAX_RESPONSE < len + length bs" | "bs \<noteq> []" "len + length bs \<le> MAX_RESPONSE" by linarith
    then show ?thesis
    proof cases
      case 1
      then show ?thesis using RdData by auto
    next
      case 2
      then show ?thesis using truncate_safe [OF Cons.prems(1) 2(1) d(1) 2(2)] RdData by auto
    next
      case 3
      obtain buf1 where b1: "make_room mem buf len (length bs) = Some buf1"
        using assms by (cases "make_room mem buf len (length bs)") (auto simp: make_room_def Let_def split: if_splits)
      then obtain buf2 where b: "copy_in buf1 len bs (length bs) = Some buf2" "cap_inv buf2 (len + length bs) (got @ bs)"
        using cap_inv_store [OF Cons.prems(1) _ d(1) 3(2) refl b1] 3(1) by auto
      have "length (drop (length bs) inp) < rd_chunks es"
        using Cons.prems(2,3) e 3(1) d(3) by (cases e) (auto, metis diff_less length_greater_0_conv less_Suc_eq_le order_less_le_trans)
      then show ?thesis using Cons.IH [OF b(2)] Cons.prems(2) RdData 3 b1 b(1) by (simp add: not_less)
    qed
  next
    case RdIntr
    then have "e = RdEintr" by (cases e) auto
    then show ?thesis using Cons by auto
  next
    case RdErr
    then have "e = RdFail" by (cases e) auto
    then show ?thesis using Cons.prems(2) by simp
  qed
qed simp

lemma execute_capture_outcome:
  assumes "length junk = CHUNK"
  shows "wlp (execute_capture os junk es output)
    (\<lambda>r lg'. balance fd lg' = balance fd lg \<and> r \<noteq> Out_Of_Bounds \<and>
       (\<forall>out code. r = Captured out code \<longrightarrow>
          (if length output \<le> MAX_RESPONSE then out = output
           else out = take MAX_RESPONSE output \<or> out = take MAX_RESPONSE output @ truncated_note))) lg"
proof -
  have ok: "capture_ok output (capture_loop (os_mem os) es junk 0 output)"
    using capture_loop_outcome [OF cap_inv_start [OF assms], of "output" "os_mem os" es] by simp
  define Q where "Q = (\<lambda>r lg'. balance fd lg' = balance fd lg \<and> r \<noteq> Out_Of_Bounds \<and>
       (\<forall>out code. r = Captured out code \<longrightarrow>
          (if length output \<le> MAX_RESPONSE then out = output
           else out = take MAX_RESPONSE output \<or> out = take MAX_RESPONSE output @ truncated_note)))"
  have err: "Q Capture_Error l" if "balance fd l = balance fd lg" for l using that by (simp add: Q_def)
  have wait: "wlp (wait_pid os pid) P l" if "\<And>st l'. balance fd l' = balance fd l \<Longrightarrow> P st l'" for P pid l
    using that waited_balance by (intro wlp_mono [OF wlp_wait_pid]) fastforce
  have "wlp (execute_capture os junk es output) Q lg"
  proof (cases "capture_loop (os_mem os) es junk 0 output")
    case Cap_Blocked
    then show ?thesis unfolding execute_capture_def wait_child_def Let_def
      by (auto simp: wlp_simps wlp_def [of "\<lambda>lg. None"] intro!: err split: sum.split option.split)
  next
    case (Cap_Failed k)
    then show ?thesis unfolding execute_capture_def wait_child_def Let_def
      by (auto simp: wlp_simps intro!: err split: sum.split option.split)
  next
    case Cap_Out_Of_Bounds
    then show ?thesis using ok by (simp add: capture_ok_def)
  next
    case (Cap_Done buf len killed)
    have fin: "Q (Captured (take len buf) c) l" if "balance fd l = balance fd lg" for c l
      using ok Cap_Done that by (auto simp: capture_ok_def Q_def split: if_splits)
    show ?thesis unfolding execute_capture_def wait_child_def Let_def Cap_Done
      by (auto simp: wlp_simps intro!: err fin wait split: sum.split option.split)
  qed
  then show ?thesis by (simp add: Q_def)
qed

section \<open>Frames of a session\<close>

definition net_frame :: "byte list \<Rightarrow> byte list" where
  "net_frame bs = put_u32_be (of_nat (length bs)) @ bs"

lemma recv_frame_step:
  assumes "RdFail \<notin> set es" "length (net_frame bs) \<le> rd_chunks es" "length bs \<le> unat m" "mem (length bs + 1)"
  shows "\<exists>es'. net_recv_frame mem es m (net_frame bs @ rest) = Some (1, Some (bs @ [0], of_nat (length bs)), rest, es') \<and>
    RdFail \<notin> set es' \<and> rd_chunks es \<le> rd_chunks es' + length (net_frame bs)"
proof -
  have lt: "length bs < 2 ^ 32" 
  proof -
    have "unat m < 2 ^ 32" using unsigned_less [of m] by simp
    then show ?thesis using assms(3) by simp
  qed
  then have u: "unat (of_nat (length bs) :: u32) = length bs" by (simp add: unat_of_nat)
  have le: "(of_nat (length bs) :: u32) \<le> m" using assms(3) u by (simp add: word_le_nat_alt)
  have len: "length (net_frame bs) = length bs + 4" by (simp add: net_frame_def)
  obtain es' where r: "net_recv_frame mem es m (net_frame bs @ rest) = Some (1, Some (bs @ [0], of_nat (length bs)), rest, es')"
    using recv_frame_complete [of es "of_nat (length bs)" m bs mem rest] assms(1,2,4) le u len by (auto simp: net_frame_def)
  obtain es1 where h: "recv_all es 4 (net_frame bs @ rest) = Some (1, put_u32_be (of_nat (length bs)), bs @ rest, es1)"
      "set es1 \<subseteq> set es" "rd_chunks es \<le> rd_chunks es1 + 4"
    using recv_frame_header [of es "of_nat (length bs)" "bs @ rest"] assms(1,2) len by (auto simp: net_frame_def)
  have "rd_chunks es1 \<le> rd_chunks es' + length bs \<and> set es' \<subseteq> set es1"
  proof (cases "bs = []")
    case True
    then show ?thesis using r h(1) by (simp add: net_recv_frame_def split: if_splits)
  next
    case False
    then have "(of_nat (length bs) :: u32) \<noteq> 0" using u by (metis length_0_conv unat_0)
    moreover obtain es2 where e2: "recv_all es1 (length bs) (bs @ rest) = Some (1, bs, rest, es2)"
      using net_reader.rdall_complete [of es1 "length bs" "bs @ rest"] h assms(1,2) len by auto
    ultimately have "es' = es2"
      using r h(1) u by (auto simp: net_recv_frame_def Let_def split: if_splits)
    then show ?thesis using net_reader.rdall_ok [OF e2] by simp
  qed
  with r h assms(1) len show ?thesis by auto
qed

lemma send_frame_step:
  assumes "wr_reliable ws" "length (net_frame bs) \<le> wr_chunks ws" "length bs < 2 ^ 32"
  shows "\<exists>ws'. net_send_frame ws bs (of_nat (length bs)) = Some (0, net_frame bs, ws') \<and> wr_reliable ws' \<and>
    wr_chunks ws \<le> wr_chunks ws' + length (net_frame bs)"
proof -
  have u: "unat (of_nat (length bs) :: u32) = length bs" using assms(3) by (simp add: unat_of_nat)
  have len: "length (net_frame bs) = length bs + 4" by (simp add: net_frame_def)
  obtain es1 where h: "send_all ws (put_u32_be (of_nat (length bs))) = Some (0, put_u32_be (of_nat (length bs)), es1)"
    using net_writer.wrall_complete [of ws "put_u32_be (of_nat (length bs))"] assms(1,2) len by auto
  have e1: "wr_chunks ws \<le> wr_chunks es1 + 4" "wr_reliable es1"
    using net_writer.wrall_used [OF h] assms(1) by (auto simp: wr_reliable_def)
  then obtain es2 where s: "send_all es1 bs = Some (0, bs, es2)"
    using net_writer.wrall_complete [of es1 bs] assms(2) len by auto
  have "wr_chunks es1 \<le> wr_chunks es2 + length bs" "wr_reliable es2"
    using net_writer.wrall_used [OF s] e1(2) by (auto simp: wr_reliable_def)
  moreover have "net_send_frame ws bs (of_nat (length bs)) = Some (0, net_frame bs, if bs = [] then es1 else es2)"
  proof (cases "bs = []")
    case False
    then have "(of_nat (length bs) :: u32) \<noteq> 0" using u by (metis length_0_conv unat_0)
    with False h s u show ?thesis by (simp add: net_send_frame_def net_frame_def)
  qed (use h in \<open>simp add: net_send_frame_def net_frame_def\<close>)
  ultimately show ?thesis using e1 len by auto
qed

text \<open>A command that the server runs: not empty, no zero character, not \<open>exit\<close>, at most 4096 characters.\<close>

definition command_ok :: "string \<Rightarrow> bool" where
  "command_ok c \<longleftrightarrow> c \<noteq> [] \<and> c \<noteq> ''exit'' \<and> CHR 0x00 \<notin> set c \<and> length c \<le> 4096"

lemma byte_char: "(of_nat (of_char c) :: byte) = 0 \<longleftrightarrow> c = CHR 0x00" "char_of (unat (of_nat (of_char c) :: byte)) = c"
proof -
  have u: "unat (of_nat (of_char c) :: byte) = of_char c" by (simp add: unat_of_nat)
  then show "char_of (unat (of_nat (of_char c) :: byte)) = c" by simp
  have "(of_nat (of_char c) :: byte) = 0 \<longleftrightarrow> (of_char c :: nat) = 0"
    using u by (auto dest: arg_cong [where f = unat])
  also have "\<dots> \<longleftrightarrow> (of_char c :: nat) = of_char (CHR 0x00)" by simp
  also have "\<dots> \<longleftrightarrow> c = CHR 0x00" by (rule of_char_eq_iff)
  finally show "(of_nat (of_char c) :: byte) = 0 \<longleftrightarrow> c = CHR 0x00" .
qed

lemma c_string_bytes: "CHR 0x00 \<notin> set c \<Longrightarrow> c_string (to_bytes c @ [0]) = c"
  by (induction c) (auto simp: c_string_def to_bytes_def byte_char)

lemma length_to_bytes [simp]: "length (to_bytes s) = length s"
  by (simp add: to_bytes_def)

lemma of_nat_command_len: "c \<noteq> [] \<Longrightarrow> length c \<le> 4096 \<Longrightarrow> (of_nat (length c) :: u32) \<noteq> 0"
proof
  assume c: "c \<noteq> []" "length c \<le> 4096" and z: "(of_nat (length c) :: u32) = 0"
  have "unat (of_nat (length c) :: u32) = length c" using c(2) by (simp add: unat_of_nat)
  with z c(1) show False by simp
qed

text \<open>What the server sends for one command.\<close>

definition reply :: "captured \<Rightarrow> byte list" where
  "reply r = (case r of Captured out code \<Rightarrow> status_line code @ out | _ \<Rightarrow> failed_reply)"

lemma exit_frame_ends:
  assumes "\<forall>n. mem n" "RdFail \<notin> set rs" "8 \<le> rd_chunks rs"
  shows "client_thread mem exec rs ws (net_frame (to_bytes ''exit'')) = Some []"
proof -
  have "length (net_frame (to_bytes ''exit'')) = 8" by (simp add: net_frame_def)
  then obtain rs' where "net_recv_frame mem rs MLRT_MAX_COMMAND (net_frame (to_bytes ''exit'')) =
      Some (1, Some (to_bytes ''exit'' @ [0], of_nat (length (to_bytes ''exit''))), [], rs')"
    using recv_frame_step [of rs "to_bytes ''exit''" MLRT_MAX_COMMAND mem "[]"] assms by (auto simp: MLRT_MAX_COMMAND_def)
  then show ?thesis by (subst client_thread.simps) (simp add: c_string_bytes)
qed

lemma remote_serve_session:
  assumes m: "\<forall>n. mem n"
  shows "list_all command_ok cs \<Longrightarrow> length rs = length cs \<Longrightarrow> \<forall>i<length cs. exec i (cs ! i) = Some (rs ! i) \<Longrightarrow>
    list_all (\<lambda>r. r \<noteq> Out_Of_Bounds \<and> length (reply r) < 2 ^ 32) rs \<Longrightarrow> RdFail \<notin> set rd \<Longrightarrow>
    length (concat (map (net_frame \<circ> to_bytes) cs)) + 8 \<le> rd_chunks rd \<Longrightarrow> wr_reliable ws \<Longrightarrow>
    length (concat (map (net_frame \<circ> reply) rs)) \<le> wr_chunks ws \<Longrightarrow>
    client_thread mem exec rd ws (concat (map (net_frame \<circ> to_bytes) cs) @ net_frame (to_bytes ''exit'')) =
      Some (concat (map (net_frame \<circ> reply) rs))"
proof (induction cs arbitrary: rs exec rd ws)
  case Nil
  then show ?case using exit_frame_ends [OF m] by simp
next
  case (Cons c cs)
  obtain r rs' where rs: "rs = r # rs'" using Cons.prems(2) by (cases rs) auto
  let ?rest = "concat (map (net_frame \<circ> to_bytes) cs) @ net_frame (to_bytes ''exit'')"
  have c: "c \<noteq> []" "c \<noteq> ''exit''" "CHR 0x00 \<notin> set c" "length c \<le> 4096" using Cons.prems(1) by (auto simp: command_ok_def)
  obtain rd' where recv: "net_recv_frame mem rd MLRT_MAX_COMMAND (net_frame (to_bytes c) @ ?rest) =
      Some (1, Some (to_bytes c @ [0], of_nat (length (to_bytes c))), ?rest, rd')"
      and rd': "RdFail \<notin> set rd'" "rd_chunks rd \<le> rd_chunks rd' + length (net_frame (to_bytes c))"
    using recv_frame_step [of rd "to_bytes c" MLRT_MAX_COMMAND mem ?rest] Cons.prems(5,6) m c(4)
    by (auto simp: MLRT_MAX_COMMAND_def)
  have rl: "r \<noteq> Out_Of_Bounds" "length (reply r) < 2 ^ 32" using Cons.prems(4) rs by simp_all
  obtain ws' where send: "net_send_frame ws (reply r) (of_nat (length (reply r))) = Some (0, net_frame (reply r), ws')"
      and ws': "wr_reliable ws'" "wr_chunks ws \<le> wr_chunks ws' + length (net_frame (reply r))"
    using send_frame_step [OF Cons.prems(7) _ rl(2)] Cons.prems(8) rs by auto
  have "exec 0 c = Some r" "\<forall>i<length cs. exec (Suc i) (cs ! i) = Some (rs' ! i)"
    using Cons.prems(3) rs by (auto simp: All_less_Suc2)
  with Cons.IH [of rs' "\<lambda>i. exec (Suc i)" rd' ws'] Cons.prems rs rd' ws'
  have ih: "client_thread mem (\<lambda>i. exec (Suc i)) rd' ws' ?rest = Some (concat (map (net_frame \<circ> reply) rs'))"
    by (simp add: comp_def)
  have "client_thread mem exec rd ws (net_frame (to_bytes c) @ ?rest) =
      Some (net_frame (reply r) @ concat (map (net_frame \<circ> reply) rs'))"
    using recv send ih \<open>exec 0 c = Some r\<close> c of_nat_command_len [OF c(1,4)] rl(1) m
    by (subst client_thread.simps) (cases r; simp add: c_string_bytes reply_def Let_def)
  then show ?case using rs by (simp add: comp_def)
qed

lemma server_step_invariant:
  assumes "(server_step once)\<^sup>*\<^sup>* net_server_start s"
  shows "nv_active s = nv_live s + (if nv_phase s = Registered \<or> nv_phase s = Create_Failed then 1 else 0) \<and>
    (nv_phase s = Returned \<longrightarrow> nv_live s = 0)"
  using assms
proof (induction rule: rtranclp_induct)
  case base
  show ?case by (simp add: net_server_start_def)
next
  case (step s t)
  from step.hyps(2) step.IH show ?case by cases auto
qed

lemma server_can_drain:
  "nv_phase s = Draining \<Longrightarrow> nv_active s = nv_live s \<Longrightarrow>
    \<exists>t. (server_step once)\<^sup>*\<^sup>* s t \<and> nv_phase t = Returned \<and> nv_live t = 0"
proof (induction "nv_live s" arbitrary: s)
  case 0
  then have "server_step once s (s\<lparr>nv_phase := Returned\<rparr>)" by (intro server_step.returns) auto
  with 0 show ?case by (intro exI [of _ "s\<lparr>nv_phase := Returned\<rparr>"]) auto
next
  case (Suc n)
  let ?t = "s\<lparr>nv_live := nv_live s - 1, nv_active := if nv_active s \<noteq> 0 then nv_active s - 1 else nv_active s\<rparr>"
  have st: "server_step once s ?t" using Suc by (intro server_step.thread_ends) auto
  obtain u where "(server_step once)\<^sup>*\<^sup>* ?t u" "nv_phase u = Returned" "nv_live u = 0"
    using Suc.hyps(1) [of ?t] Suc.hyps(2) [symmetric] Suc.prems by auto
  with st show ?case by (meson converse_rtranclp_into_rtranclp)
qed

section \<open>Properties\<close>

text \<open>
  C33. Captured output: whatever the command writes and however the reads split it, the server
  never accesses the buffer out of bounds and closes both ends of the pipe; when it returns the
  output, this is exactly what the command wrote if that is at most one MiB, and otherwise its first
  MiB, with or without the note about the truncation.
\<close>

theorem capture_faithful:
  assumes "length junk = CHUNK" "execute_capture os junk es written lg = Some (Ret r, lg')"
  shows "r \<noteq> Out_Of_Bounds \<and> balance fd lg' = balance fd lg \<and>
    (\<forall>out code. r = Captured out code \<longrightarrow>
       (if length written \<le> MAX_RESPONSE then out = written
        else out = take MAX_RESPONSE written \<or> out = take MAX_RESPONSE written @ truncated_note))"
  using wlpD [OF execute_capture_outcome [OF assms(1)] assms(2)] by blast

theorem capture_faithful_witness:
  "let os = \<lparr>os_mem = (\<lambda>_. True), os_addr = (\<lambda>_. 1), os_pipe = (\<lambda>_. Inr (3, 4)), os_fork = (\<lambda>_. Inr 100), os_waitpid = (\<lambda>_ p. Inr (p, 0)),
             os_reap = (\<lambda>_. ([], 0, 0)), os_call = (\<lambda>_ _. None), os_env = (\<lambda>_. None), os_sigchld = (\<lambda>_. False), os_strerror = (\<lambda>_. [])\<rparr>
   in case execute_capture os (replicate 4096 0) [RdChunk 2, RdEintr, RdChunk 9, RdChunk 9, RdChunk 9] [104, 105, 10] [] of
        Some (Ret (Captured out code), lg) \<Rightarrow> out = [104, 105, 10] \<and> code = 0 \<and> balance 3 lg = 0
      | _ \<Rightarrow> False"
proof -
  define os where "os = \<lparr>os_mem = (\<lambda>_. True), os_addr = (\<lambda>_. 1), os_pipe = (\<lambda>_. Inr (3, 4)), os_fork = (\<lambda>_. Inr 100), os_waitpid = (\<lambda>_ p. Inr (p, 0)),
             os_reap = (\<lambda>_. ([], 0, 0)), os_call = (\<lambda>_ _. None), os_env = (\<lambda>_. None), os_sigchld = (\<lambda>_. False), os_strerror = (\<lambda>_. [])\<rparr>"
  let ?es = "[RdChunk 2, RdEintr, RdChunk 9, RdChunk 9, RdChunk 9]" and ?junk = "replicate 4096 0 :: byte list"
  have l: "length ?junk = CHUNK" by (simp add: CHUNK_def)
  have "RdFail \<notin> set ?es" "length [104, 105, 10 :: byte] < rd_chunks ?es" "\<forall>n. os_mem os n" by (simp_all add: os_def)
  from capture_loop_returns [OF this(3) cap_inv_start [OF l] this(1,2)]
  obtain buf len k where c: "capture_loop (os_mem os) ?es ?junk 0 [104, 105, 10] = Cap_Done buf len k" by blast
  have w: "wait_pid os 100 lg = Some (Ret 0, lg @ [Ev_wait 100])" for lg
    by (subst wait_pid.simps) (simp add: os_def)
  have o: "os_pipe os lg = Inr (3, 4)" "os_fork os lg = Inr 100" "os_mem os n" "os_call os lg e = None" for lg n e
    by (simp_all add: os_def)
  have "\<exists>out lg. execute_capture os ?junk ?es [104, 105, 10] [] = Some (Ret (Captured out 0), lg)"
    by (simp add: execute_capture_def sbind_def ask_def emit_def sret_def try_call_def Let_def o c w
        exit_code_def WIFEXITED_def WEXITSTATUS_def del: capture_loop.simps)
  then obtain out lg where run: "execute_capture os ?junk ?es [104, 105, 10] [] = Some (Ret (Captured out 0), lg)" by blast
  from capture_faithful [OF l run, of 3] have "out = [104, 105, 10]" "balance 3 lg = 0" by (simp_all add: max_response CHUNK_def)
  with run show ?thesis unfolding Let_def os_def [symmetric] by simp
qed

text \<open>
  C34. A remote session: whatever commands the client sends before \<open>exit\<close>, and however the
  transfers are split, the server answers each of them in order with one frame, the exit status and
  the captured output of that command or the message that it could not be run, and then ends the
  connection.
\<close>

theorem remote_session:
  assumes "\<forall>n. mem n" "list_all command_ok cs" "length rs = length cs" "\<forall>i<length cs. exec i (cs ! i) = Some (rs ! i)"
    and "list_all (\<lambda>r. r \<noteq> Out_Of_Bounds \<and> length (reply r) < 2 ^ 32) rs"
    and "RdFail \<notin> set rd" "length (concat (map (net_frame \<circ> to_bytes) cs)) + 8 \<le> rd_chunks rd"
    and "wr_reliable ws" "length (concat (map (net_frame \<circ> reply) rs)) \<le> wr_chunks ws"
  shows "client_thread mem exec rd ws (concat (map (net_frame \<circ> to_bytes) cs) @ net_frame (to_bytes ''exit'')) =
    Some (concat (map (net_frame \<circ> reply) rs))"
  by (rule remote_serve_session) (use assms in simp_all)

theorem remote_session_witness:
  "client_thread (\<lambda>_. True) (\<lambda>i c. if i = 0 then Some (Captured [104, 105] 0) else Some Capture_Error) (replicate 20 (RdChunk 0))
     (replicate 100 (WrChunk 2)) (concat (map (net_frame \<circ> to_bytes) [''ls'', ''w'']) @ net_frame (to_bytes ''exit'')) =
   Some (concat (map (net_frame \<circ> reply) [Captured [104, 105] 0, Capture_Error]))"
proof (rule remote_session)
  have d: "dec 0 = ''0''" by code_simp
  show "list_all (\<lambda>r. r \<noteq> Out_Of_Bounds \<and> length (reply r) < 2 ^ 32) [Captured [104, 105] 0, Capture_Error]"
    "length (concat (map (net_frame \<circ> reply) [Captured [104, 105] 0, Capture_Error])) \<le> wr_chunks (replicate 100 (WrChunk 2))"
    by (simp_all add: reply_def status_line_def failed_reply_def int_text_def d net_frame_def wr_chunks_def)
qed (auto simp: command_ok_def net_frame_def rd_chunks_def wr_reliable_def less_Suc_eq)

text \<open>
  C35. The server waits for its clients: in every interleaving of the accept loop, the signal handler
  and the client threads, the count of active clients is the number of threads that run, plus the
  one being created, the server returns only when no thread is left, and once it has stopped
  accepting, the ends of its threads let it return.
\<close>

theorem server_drains:
  assumes "(server_step once)\<^sup>*\<^sup>* net_server_start s"
  shows "nv_active s = nv_live s + (if nv_phase s = Registered \<or> nv_phase s = Create_Failed then 1 else 0) \<and>
    (nv_phase s = Returned \<longrightarrow> nv_live s = 0) \<and>
    (nv_phase s = Draining \<longrightarrow> (\<exists>t. (server_step once)\<^sup>*\<^sup>* s t \<and> nv_phase t = Returned \<and> nv_live t = 0))"
  using server_step_invariant [OF assms] server_can_drain [of s once] by auto

theorem server_drains_witness:
  "\<exists>t. (server_step True)\<^sup>*\<^sup>* net_server_start t \<and> nv_phase t = Returned \<and> nv_live t = 0"
proof -
  let ?s1 = "net_server_start\<lparr>nv_active := 1, nv_phase := Registered\<rparr>"
  let ?s2 = "?s1\<lparr>nv_live := 1, nv_accepted := 1, nv_phase := Draining\<rparr>"
  have "server_step True net_server_start ?s1"
    using server_step.accepted [of net_server_start True] by (simp add: net_server_start_def)
  moreover have "server_step True ?s1 ?s2"
    using server_step.created [of ?s1 True] by (simp add: net_server_start_def)
  ultimately have r: "(server_step True)\<^sup>*\<^sup>* net_server_start ?s2" by simp
  from server_drains [OF r] obtain t where "(server_step True)\<^sup>*\<^sup>* ?s2 t" "nv_phase t = Returned" "nv_live t = 0" by auto
  with r show ?thesis by (meson rtranclp_trans)
qed

text \<open>
  A remote command end to end: \<open>mlrt client -c\<close> sends the command and \<open>exit\<close>; the server,
  reading what the client sent, runs the command and answers with one frame; the client, reading that
  frame, prints the exit status and the output, with a line end added when there is none, and exits
  with code 0.
\<close>

theorem remote_command:
  assumes "\<forall>n. mem n" "command_ok c" "exec 0 c = Some r" "r \<noteq> Out_Of_Bounds" "length (reply r) \<le> MAX_RESPONSE + 128"
    and "RdFail \<notin> set crs" "length (reply r) + 4 \<le> rd_chunks crs" "wr_reliable cws" "length c + 12 \<le> wr_chunks cws"
    and "RdFail \<notin> set srs" "length c + 12 \<le> rd_chunks srs" "wr_reliable sws" "length (reply r) + 4 \<le> wr_chunks sws"
  shows "\<exists>sent. network_client_cli_main mem (\<lambda>port. Some (net_frame (reply r), crs, cws)) [] [''client'', ''-c'', c] =
      Some (0, reply r @ (if reply r \<noteq> [] \<and> last (reply r) \<noteq> 10 then [10] else []), sent) \<and>
    client_thread mem exec srs sws sent = Some (net_frame (reply r))"
proof -
  have c: "length c \<le> 4096" "c \<noteq> []" using assms(2) by (auto simp: command_ok_def)
  have lim: "unat (MLRT_MAX_RESPONSE + 128) = MAX_RESPONSE + 128" "unat MLRT_MAX_COMMAND = 4096"
    by (simp_all add: MLRT_MAX_RESPONSE_def MAX_RESPONSE_def MLRT_MAX_COMMAND_def)
  have len: "length (net_frame b) = length b + 4" for b by (simp add: net_frame_def)
  obtain ws1 where s1: "net_send_frame cws (to_bytes c) (of_nat (length c)) = Some (0, net_frame (to_bytes c), ws1)"
      "wr_reliable ws1" "wr_chunks cws \<le> wr_chunks ws1 + (length c + 4)"
    using send_frame_step [OF assms(8), of "to_bytes c"] assms(9) c len by auto
  obtain ws2 where s2: "net_send_frame ws1 (to_bytes ''exit'') 4 = Some (0, net_frame (to_bytes ''exit''), ws2)"
    using send_frame_step [OF s1(2), of "to_bytes ''exit''"] s1(3) assms(9) len by auto
  obtain rs1 where r1: "net_recv_frame mem crs (MLRT_MAX_RESPONSE + 128) (net_frame (reply r)) =
      Some (1, Some (reply r @ [0], of_nat (length (reply r))), [], rs1)"
    using recv_frame_step [OF assms(6), of "reply r" "MLRT_MAX_RESPONSE + 128" mem "[]"] assms(1,5,7) lim len by auto
  have small: "length (reply r) < 2 ^ 32" using assms(5) by (simp add: max_response CHUNK_def)
  then have u: "unat (of_nat (length (reply r)) :: u32) = length (reply r)" by (simp add: unat_of_nat)
  have "network_client_cli_main mem (\<lambda>port. Some (net_frame (reply r), crs, cws)) [] [''client'', ''-c'', c] =
      Some (0, reply r @ (if reply r \<noteq> [] \<and> last (reply r) \<noteq> 10 then [10] else []),
        net_frame (to_bytes c) @ net_frame (to_bytes ''exit''))"
    using c(1) s1(1) s2 r1 u lim by (simp add: network_client_cli_main_def send_command_def Let_def)
  moreover have "client_thread mem exec srs sws (concat (map (net_frame \<circ> to_bytes) [c]) @ net_frame (to_bytes ''exit'')) =
      Some (concat (map (net_frame \<circ> reply) [r]))"
    by (rule remote_serve_session [OF assms(1)]) (use assms small len in simp_all)
  ultimately show ?thesis by simp
qed

theorem remote_command_witness:
  "\<exists>sent. network_client_cli_main (\<lambda>_. True) (\<lambda>port. Some (net_frame (reply Capture_Error), replicate 51 (RdChunk 7), replicate 14 (WrChunk 0)))
      [] [''client'', ''-c'', ''ls''] = Some (0, failed_reply, sent) \<and>
    client_thread (\<lambda>_. True) (\<lambda>i c. Some Capture_Error) (replicate 14 (RdChunk 1)) (replicate 51 (WrChunk 1)) sent = Some (net_frame failed_reply)"
proof -
  have f: "reply Capture_Error = failed_reply" "length failed_reply = 47" "last failed_reply = 10" "failed_reply \<noteq> []"
    by (simp_all add: reply_def failed_reply_def to_bytes_def)
  have "\<exists>sent. network_client_cli_main (\<lambda>_. True) (\<lambda>port. Some (net_frame (reply Capture_Error), replicate 51 (RdChunk 7), replicate 14 (WrChunk 0)))
      [] [''client'', ''-c'', ''ls''] =
      Some (0, reply Capture_Error @ (if reply Capture_Error \<noteq> [] \<and> last (reply Capture_Error) \<noteq> 10 then [10] else []), sent) \<and>
    client_thread (\<lambda>_. True) (\<lambda>i c. Some Capture_Error) (replicate 14 (RdChunk 1)) (replicate 51 (WrChunk 1)) sent =
      Some (net_frame (reply Capture_Error))"
    by (rule remote_command) (simp_all add: command_ok_def f rd_chunks_def wr_chunks_def wr_reliable_def max_response CHUNK_def)
  then show ?thesis by (simp add: f)
qed

section \<open>The note about the truncation\<close>

text \<open>
  The note is copied only when it fits behind the first MiB, and the buffer then has exactly that
  size unless a read ended at the limit. When the first read returns one byte and the others whole
  chunks, the output is cut at one MiB without any mark.
\<close>

lemma full_chunks_unmarked:
  "cap_inv buf len got \<Longrightarrow> len mod CHUNK \<noteq> 0 \<Longrightarrow> MAX_RESPONSE < len + length inp \<Longrightarrow> MAX_RESPONSE < len + CHUNK * n \<Longrightarrow> \<forall>k. mem k \<Longrightarrow>
    \<exists>buf'. capture_loop mem (replicate n (RdChunk 4095)) buf len inp = Cap_Done buf' MAX_RESPONSE True \<and>
      take MAX_RESPONSE buf' = take MAX_RESPONSE (got @ inp)"
proof (induction n arbitrary: buf len inp got)
  case 0
  then show ?case by (simp add: cap_inv_def)
next
  case (Suc n)
  let ?bs = "take CHUNK inp"
  have i: "len = length got" "len \<le> MAX_RESPONSE" using Suc.prems(1) by (auto simp: cap_inv_def)
  have ne: "len \<noteq> MAX_RESPONSE" using Suc.prems(2) by (auto simp: max_response)
  have rd: "sys_read (RdChunk 4095) CHUNK inp = RdData ?bs" by (simp add: CHUNK_def)
  have inp: "inp \<noteq> []" using Suc.prems(3) i(2) by auto
  then have bs: "?bs \<noteq> []" by (simp add: CHUNK_def)
  show ?case
  proof (cases "MAX_RESPONSE < len + length ?bs")
    case True
    obtain buf' len' where t: "truncate_output buf len ?bs = Cap_Done buf' len' True" "len' \<le> length buf'"
        "take len' buf' = take MAX_RESPONSE (got @ ?bs)"
      using truncate_safe [OF Suc.prems(1) bs _ True] ne by auto
    have "len' = length (take MAX_RESPONSE (got @ ?bs))" using t(2,3) by (metis length_take min.absorb2)
    then have "len' = MAX_RESPONSE" using True i(1) by simp
    moreover have "take MAX_RESPONSE (got @ ?bs) = take MAX_RESPONSE (got @ inp)" 
    proof -
      have "MAX_RESPONSE - length got \<le> CHUNK" using True i(1) by simp
      then show ?thesis by simp
    qed
    ultimately show ?thesis using t rd bs True by (simp del: sys_read.simps)
  next
    case False
    have full: "length ?bs = CHUNK" using False Suc.prems(3) by (auto simp: min_def split: if_splits)
    obtain buf1 where b1: "make_room mem buf len (length ?bs) = Some buf1"
      using Suc.prems(5) by (cases "make_room mem buf len (length ?bs)") (auto simp: make_room_def Let_def split: if_splits)
    obtain buf2 where b2: "copy_in buf1 len ?bs (length ?bs) = Some buf2" "cap_inv buf2 (len + length ?bs) (got @ ?bs)"
      using cap_inv_store [OF Suc.prems(1) _ _ _ refl b1] False full inp by (auto simp: CHUNK_def)
    have "\<exists>buf'. capture_loop mem (replicate n (RdChunk 4095)) buf2 (len + length ?bs) (drop CHUNK inp) = Cap_Done buf' MAX_RESPONSE True \<and>
        take MAX_RESPONSE buf' = take MAX_RESPONSE ((got @ ?bs) @ drop CHUNK inp)"
      using Suc.prems full by (intro Suc.IH [OF b2(2)]) auto
    then show ?thesis using rd bs False b1 b2(1) full by (simp del: sys_read.simps)
  qed
qed

theorem truncation_unmarked:
  assumes "length junk = CHUNK" "MAX_RESPONSE < length written" "\<forall>k. mem k"
  shows "\<exists>buf. capture_loop mem (RdChunk 0 # replicate 256 (RdChunk 4095)) junk 0 written = Cap_Done buf MAX_RESPONSE True \<and>
    take MAX_RESPONSE buf = take MAX_RESPONSE written"
proof -
  obtain b rest where w: "written = b # rest" using assms(2) by (cases written) auto
  have m: "make_room mem junk 0 1 = Some junk" using assms(1) by (simp add: make_room_def CHUNK_def)
  obtain buf2 where b2: "copy_in junk 0 [b] 1 = Some buf2" "cap_inv buf2 1 [b]"
    using cap_inv_store [OF cap_inv_start [OF assms(1)] _ _ _ _ m, of "[b]"] by (auto simp: CHUNK_def max_response)
  have "\<exists>buf'. capture_loop mem (replicate 256 (RdChunk 4095)) buf2 1 rest = Cap_Done buf' MAX_RESPONSE True \<and>
      take MAX_RESPONSE buf' = take MAX_RESPONSE ([b] @ rest)"
    by (rule full_chunks_unmarked [OF b2(2)]) (use assms w in \<open>simp_all add: CHUNK_def max_response\<close>)
  then show ?thesis using w m b2(1) by (simp add: CHUNK_def max_response)
qed

end
