(* ===== verification/Shell_Session.thy ===== *)
theory Shell_Session
  imports Shell_Main
begin

text \<open>
  Signals during a whole run of \<^verbatim>\<open>mlrt shell\<close>: the dispositions of the shell are what its log says,
  and a child process starts with those its parent has at the \<open>fork\<close>.
\<close>

section \<open>Dispositions along a log\<close>

fun sig_step :: "sh_event \<Rightarrow> signals \<Rightarrow> signals" where
  "sig_step (Ev_sigaction n d) sg = sg(n := d)"
| "sig_step _ sg = sg"

definition dispositions :: "signals \<Rightarrow> sh_event list \<Rightarrow> signals" where
  "dispositions sg lg = fold sig_step lg sg"

definition terminal_signals :: "int set" where
  "terminal_signals = {SIGINT, SIGQUIT, SIGTSTP, SIGTTIN, SIGTTOU}"

text \<open>The events at the start of the shell: changes of its own signals, and no process yet.\<close>

fun own_signal :: "sh_event \<Rightarrow> bool" where
  "own_signal (Ev_sigaction n d) = (n \<in> terminal_signals \<union> {SIGCHLD})"
| "own_signal _ = True"

lemma dispositions_simps [simp]:
  "dispositions sg [] = sg" "dispositions sg (e # lg) = dispositions (sig_step e sg) lg"
  "dispositions sg (lg @ lg') = dispositions (dispositions sg lg) lg'"
  by (simp_all add: dispositions_def)

lemma sig_step_quiet [simp]: "quiet e \<Longrightarrow> sig_step e sg = sg"
  by (cases e) auto

lemma dispositions_quiet: "list_all quiet lg \<Longrightarrow> dispositions sg lg = sg"
  by (induction lg) auto

lemma dispositions_other: "list_all own_signal lg \<Longrightarrow> n \<notin> terminal_signals \<union> {SIGCHLD} \<Longrightarrow> dispositions sg lg n = sg n"
proof (induction lg arbitrary: sg)
  case (Cons e lg)
  then show ?case by (cases e) auto
qed simp

lemma quiet_own: "list_all quiet lg \<Longrightarrow> list_all own_signal lg"
  by (erule list.pred_mono_strong) (auto elim: quiet.elims(2))

section \<open>What the parts of the shell add to the log\<close>

lemma extends_parse [extends_intros]: "extends P (parse_sh os l)"
  by (auto simp: parse_sh_def extends_def wlp_def sret_def split: parse_result.splits option.splits if_splits)

lemma extends_run_line [extends_intros]: "extends quiet (shell_run_line os s l out_fd err_fd)"
  unfolding shell_run_line_def expand_and_run_def run_parsed_def Let_def
  by (auto split: expansion.split intro!: extends_intros)

lemma extends_noninteractive [extends_intros]: "extends quiet (shell_run_noninteractive os l out_fd err_fd)"
  unfolding shell_run_noninteractive_def Let_def by (intro extends_intros) simp_all

lemma extends_script [extends_intros]: "extends quiet (script_loop os ls s rc)"
  by (induction ls arbitrary: s rc) (auto intro!: extends_intros)

lemma extends_interactive [extends_intros]: "extends quiet (interactive_loop ty os inputs s)"
proof (induction inputs arbitrary: s)
  case (Cons i rest)
  show ?case by (cases i) (subst interactive_loop.simps, auto simp: Let_def simp del: interactive_loop.simps intro!: extends_intros Cons)+
qed (subst interactive_loop.simps, auto simp: Let_def simp del: interactive_loop.simps intro!: extends_intros)

section \<open>The start of the shell\<close>

fun no_process :: "sh_event \<Rightarrow> bool" where
  "no_process (Ev_fork p) = False"
| "no_process _ = True"

abbreviation before_jobs :: "sh_event \<Rightarrow> bool" where
  "before_jobs e \<equiv> quiet e \<and> no_process e"

lemma extends_await [extends_intros]: "extends before_jobs (await_foreground ty os)"
proof (rule extendsI)
  fix lg x lg'
  have "await_foreground ty os lg = Some y \<Longrightarrow> \<exists>d. snd y = lg @ d \<and> list_all before_jobs d" for y
  proof (rule await_foreground.raw_induct [where P = "\<lambda>ty os lg y. \<exists>d. snd y = lg @ d \<and> list_all before_jobs d"], goal_cases)
    case (1 aw ty os lg y)
    from 1(3) show ?case by (fastforce split: if_splits dest!: 1(2))
  qed
  then show "await_foreground ty os lg = Some (Ret x, lg') \<Longrightarrow> \<exists>d. lg' = lg @ d \<and> list_all before_jobs d" by fastforce
qed

definition signal_events :: "sh_event list" where
  "signal_events =
     map (\<lambda>n. Ev_sigaction n SIG_IGN) [SIGINT, SIGQUIT, SIGTSTP, SIGTTIN, SIGTTOU] @
     [Ev_sigaction SIGCHLD (Handler ''sigchld_handler'' SA_RESTART)]"

lemma install_events: "install_shell_signals lg = Some (Ret (), lg @ signal_events)"
  by (simp add: install_shell_signals_def signal_events_def sbind_def emit_def sret_def)

lemma signal_events_effect:
  "list_all own_signal signal_events" "list_all no_process signal_events"
  "n \<in> terminal_signals \<Longrightarrow> dispositions sg signal_events n = SIG_IGN"
  by (auto simp: signal_events_def terminal_signals_def SIGINT_def SIGQUIT_def SIGTSTP_def SIGTTIN_def SIGTTOU_def SIGCHLD_def)

lemma init_log:
  assumes "shell_state_init ty os interactive lg = Some (Ret (r, s), lg')"
  shows "\<exists>d1 d2. lg' = lg @ d1 @ (if interactive then signal_events else []) @ d2 \<and> list_all before_jobs (d1 @ d2)"
proof (cases interactive)
  case True
  define rest where "rest = (\<lambda>s1. sbind (try_call os (Ev_setpgid (ty_getpid ty) (ty_getpid ty))) (\<lambda>r.
       if (case r of None \<Rightarrow> False | Some e \<Rightarrow> e \<noteq> EACCES \<and> e \<noteq> EPERM)
       then sbind (say 2 (err_line os ''setpgid(shell)'' (case r of None \<Rightarrow> 0 | Some e \<Rightarrow> e))) (\<lambda>_. sret (-1, s1))
       else
         sbind (try_call os (Ev_tcsetpgrp 0 (ty_getpid ty))) (\<lambda>q. case q of
           None \<Rightarrow> sret (0 :: int, s1 :: ShellState)
         | Some e \<Rightarrow> sbind (say 2 (err_line os ''tcsetpgrp(shell)'' e)) (\<lambda>_. sret (-1, s1)))))"
  have e: "extends before_jobs (rest s1)" for s1 unfolding rest_def by (intro extends_intros) simp_all
  from assms True obtain s1 lg1 where "await_foreground ty os lg = Some (Ret (), lg1)"
      "rest s1 (lg1 @ signal_events) = Some (Ret (r, s), lg')"
    unfolding shell_state_init_def Let_def rest_def by (auto simp: sbind_Ret [of "ask _"] sbind_Ret [of "await_foreground _ _"]
        sbind_Ret [of install_shell_signals] install_events)
  then show ?thesis using True extendsD [OF e] extendsD [OF extends_await] by fastforce
next
  case False
  then show ?thesis using assms by (auto simp: shell_state_init_def sbind_Ret intro: exI [of _ "[]"])
qed

text \<open>The log of a whole run: preparations, then, on a terminal, the signals, then the session.\<close>

definition on_terminal :: "bool \<Rightarrow> string list \<Rightarrow> bool" where
  "on_terminal isatty argv \<longleftrightarrow> isatty \<and> (length argv < 2 \<or> argv ! 1 \<noteq> ''-c'' \<and> argv ! 1 \<noteq> ''--script'')"

lemma session_log:
  assumes "shell_cli_main ty os isatty inputs files argv lg = Some (Ret rc, lg')"
  shows "\<exists>d1 d2. lg' = lg @ d1 @ (if on_terminal isatty argv then signal_events else []) @ d2 \<and>
    list_all before_jobs d1 \<and> list_all quiet d2"
proof (cases "on_terminal isatty argv \<or> length argv < 2 \<or> argv ! 1 \<noteq> ''-c'' \<and> argv ! 1 \<noteq> ''--script''")
  case True
  then have t: "on_terminal isatty argv = isatty" and "shell_cli_main ty os isatty inputs files argv = run_interactive ty os isatty inputs"
    by (auto simp: on_terminal_def shell_cli_main_def)
  with assms obtain r s lg1 where i: "shell_state_init ty os isatty lg = Some (Ret (r, s), lg1)"
      and l: "(if r \<noteq> 0 then sret 1 else sbind (interactive_loop ty os inputs s) (\<lambda>s1. sret 0)) lg1 = Some (Ret rc, lg')"
    by (auto simp: run_interactive_def sbind_Ret)
  have "extends quiet (if r \<noteq> 0 then sret 1 else sbind (interactive_loop ty os inputs s) (\<lambda>s1. sret (0::int)))"
    by (intro extends_intros)
  from extendsD [OF this l] init_log [OF i] t show ?thesis by (fastforce simp: list_all_iff)
next
  case False
  then have "shell_cli_main ty os isatty inputs files argv = (if argv ! 1 = ''-c'' then
        (if length argv < 3
         then sbind (say 2 (''usage: mlrt shell -c '' @ [CHR 0x27] @ ''command'' @ [CHR 0x27, CHR 0x0A])) (\<lambda>_. sret 2)
         else shell_run_noninteractive os (argv ! 2) 1 2)
      else (if length argv < 3 then sbind (say 2 (''usage: mlrt shell --script FILE'' @ [CHR 0x0A])) (\<lambda>_. sret 2)
         else
           (case files (argv ! 2) of
              Inl e \<Rightarrow> sbind (say 2 (err_line os (argv ! 2) e)) (\<lambda>_. sret 1)
            | Inr ls \<Rightarrow>
                sbind (shell_state_init ty os False) (\<lambda>(r, s). script_loop os ls s 0))))"
    by (auto simp: shell_cli_main_def)
  moreover have "extends quiet (shell_state_init ty os False)"
    by (simp add: shell_state_init_def Let_def) (intro extends_intros)
  ultimately have "extends quiet (shell_cli_main ty os isatty inputs files argv)" by (auto intro!: extends_intros)
  from extendsD [OF this assms] False show ?thesis by (auto intro: exI [of _ "[]"])
qed

lemma fork_behind:
  assumes "a @ b = c @ Ev_fork p # e" "list_all no_process a"
  obtains f where "c = a @ f" "b = f @ Ev_fork p # e"
  using assms by (auto simp: append_eq_append_conv2 append_eq_Cons_conv)

lemma restored: "restore_child_signals sg n = (if n \<in> terminal_signals \<union> {SIGCHLD} then SIG_DFL else sg n)"
proof (cases "n \<in> terminal_signals \<union> {SIGCHLD}")
  case True
  then show ?thesis unfolding restore_child_signals_def terminal_signals_def Un_iff insert_iff empty_iff fun_upd_apply
    by (elim disjE) simp_all
qed (simp add: restore_child_signals_def terminal_signals_def)

lemma child_signals:
  "child_main co t sg pl i pipes out_fd err_fd pgid p = Execs av t' sg' \<Longrightarrow> sg' = exec_disposition \<circ> restore_child_signals sg"
  by (auto simp: child_main_def Let_def split: if_splits option.splits)

section \<open>A session with one command\<close>

text \<open>A system that grants every call, and the session of a terminal on which \<open>ls&\<close> is typed.\<close>

definition ls_os :: shell_os where
  "ls_os =
     \<lparr>os_mem = (\<lambda>_. True), os_addr = (\<lambda>_. 1), os_pipe = (\<lambda>_. Inl 24), os_fork = (\<lambda>_. Inr 100), os_waitpid = (\<lambda>_ p. Inr (p, 0)),
      os_reap = (\<lambda>_. ([], 0, 0)), os_call = (\<lambda>_ _. None), os_env = (\<lambda>_. None), os_sigchld = (\<lambda>_. False), os_strerror = (\<lambda>_. [])\<rparr>"

definition ls_tty :: tty_os where
  "ls_tty = \<lparr>ty_tcgetpgrp = (\<lambda>_. 7), ty_getpgrp = (\<lambda>_. 7), ty_getpid = 7, ty_getcwd = (\<lambda>_. None)\<rparr>"

definition ls_pipeline :: ShellPipeline where
  "ls_pipeline =
     \<lparr>sp_commands = [\<lparr>sc_argv = [''ls''], sc_input_path = None, sc_output_path = None, sc_append_output = False\<rparr>],
      sp_background = True, sp_source = Some ''ls&''\<rparr>"

lemma ls_os_answers:
  "os_mem ls_os n" "\<not> os_sigchld ls_os lg" "os_fork ls_os lg = Inr 100" "os_call ls_os lg ev = None" "os_reap ls_os lg = ([], 0, 0)"
  by (simp_all add: ls_os_def)

lemma ls_parse: "shell_parse_line (os_mem ls_os) (Some ''ls&'') (Some empty_pipeline) (Some 256) = Parse_Ret 0 (Some ls_pipeline) None"
proof -
  have "shell_parse_line (\<lambda>_. True) (Some ''ls&'') (Some empty_pipeline) (Some 256) = Parse_Ret 0 (Some ls_pipeline) None"
    unfolding ls_pipeline_def by code_simp
  then show ?thesis by (simp add: ls_os_def)
qed

lemmas sh_run_defs = sbind_def sret_def ask_def say_def emit_def try_call_def xalloc_def xdup_def mlrt_xmalloc_def mlrt_xstrdup_def

lemma ls_init:
  "\<exists>s. shell_state_init ls_tty ls_os True [] = Some (Ret (0, s), signal_events @ [Ev_setpgid 7 7, Ev_tcsetpgrp 0 7]) \<and>
    ss_interactive s \<and> \<not> ss_should_exit s"
  unfolding shell_state_init_def Let_def sbind_def ask_def
  by (subst await_foreground.simps) (simp add: ls_tty_def ls_os_answers install_events try_call_def sret_def zero_state_def)

lemma ls_execute:
  "\<exists>s1 later. execute_external_pipeline ls_os s ls_pipeline 1 2 True lg = Some (Ret (0, s1), lg @ Ev_fork 100 # later)"
  by (simp add: execute_external_pipeline_def finish_pipeline_def jobs_add_sh_def ls_pipeline_def ls_os_answers sh_run_defs
      Let_def close_all_pipes_def pipe_fds_def)

lemma ls_line: "\<exists>s1 later. shell_run_line ls_os s ''ls&'' 1 2 lg = Some (Ret (0, s1), lg @ Ev_fork 100 # later)"
proof -
  have e: "history_expand h ''ls&'' = Expanded ''ls&''" "strip_eol ''ls&'' = ''ls&''" for h by code_simp+
  have "run_builtin ls_os s1 ls_pipeline 1 2 lg1 = Some (Ret None, lg1)" "sp_commands ls_pipeline \<noteq> []" for s1 lg1
    by (simp_all add: run_builtin_def ls_pipeline_def sret_def)
  then show ?thesis using ls_execute
    by (simp add: shell_run_line_def expand_and_run_def e Let_def parse_sh_def ls_parse run_parsed_def sh_run_defs ls_os_answers)
qed

lemma ls_loop:
  assumes "ss_interactive s" "\<not> ss_should_exit s"
  shows "\<exists>s1 later. interactive_loop ls_tty ls_os [In_Line ''ls&''] s lg =
    Some (Ret s1, (lg @ [Ev_reap, Ev_out 1 ''mlrt$ '']) @ Ev_fork 100 # later)"
proof -
  let ?lg = "lg @ [Ev_reap, Ev_out 1 ''mlrt$ '']"
  have reap: "reap_sh ls_os jl 1 lg = Some (Ret jl, lg @ [Ev_reap])" for jl lg
    by (simp add: reap_sh_def jobs_reap_def ls_os_answers sh_run_defs)
  have stop: "\<exists>s1 l. interactive_loop ls_tty ls_os [] s lg = Some (Ret s1, lg @ l)" for s lg
    by (subst interactive_loop.simps) (simp add: sh_run_defs reap ls_tty_def)
  obtain s1 l1 where l1: "shell_run_line ls_os (s\<lparr>ss_jobs := ss_jobs s\<rparr>) ''ls&'' 1 2 ?lg = Some (Ret (0, s1), ?lg @ Ev_fork 100 # l1)"
    using ls_line by blast
  obtain s2 l2 where "interactive_loop ls_tty ls_os [] s1 (?lg @ Ev_fork 100 # l1) = Some (Ret s2, (?lg @ Ev_fork 100 # l1) @ l2)"
    using stop by blast
  with assms l1 show ?thesis
    by (subst interactive_loop.simps) (simp add: sh_run_defs reap ls_tty_def del: interactive_loop.simps)
qed

lemma ls_session:
  "\<exists>rc later. shell_cli_main ls_tty ls_os True [In_Line ''ls&''] (\<lambda>_. Inl 2) [''shell''] [] =
    Some (Ret rc, (signal_events @ [Ev_setpgid 7 7, Ev_tcsetpgrp 0 7, Ev_reap, Ev_out 1 ''mlrt$ '']) @ Ev_fork 100 # later)"
proof -
  obtain s where s: "shell_state_init ls_tty ls_os True [] = Some (Ret (0, s), signal_events @ [Ev_setpgid 7 7, Ev_tcsetpgrp 0 7])"
    "ss_interactive s" "\<not> ss_should_exit s" using ls_init by blast
  from ls_loop [OF s(2,3), of "signal_events @ [Ev_setpgid 7 7, Ev_tcsetpgrp 0 7]"] s(1) show ?thesis
    by (auto simp: shell_cli_main_def run_interactive_def sbind_def sret_def simp del: interactive_loop.simps)
qed

section \<open>Properties\<close>

text \<open>
  C29. Signals of the shell and of its commands: wherever a run of \<^verbatim>\<open>mlrt shell\<close> creates a process, a
  shell on a terminal ignores the interrupt, quit and stop signals of that terminal, so that they
  end or stop the foreground job and not the shell; and the command a child executes sees nothing of
  this: these signals and \<open>SIGCHLD\<close> have their default disposition, and every other signal the one
  it had when the shell was started (the default, where that was a function).
\<close>

theorem shell_signals:
  assumes run: "shell_cli_main ty os isatty inputs files argv lg = Some (Ret rc, lg @ before @ Ev_fork p # later)"
  shows "(on_terminal isatty argv \<longrightarrow> (\<forall>n\<in>terminal_signals. dispositions sg before n = SIG_IGN)) \<and>
    (case child_main co t (dispositions sg before) pl i pipes out_fd err_fd pgid p of
       Exits c \<Rightarrow> True
     | Execs av t' sg' \<Rightarrow>
         (\<forall>n. sg' n = (if n \<in> terminal_signals \<union> {SIGCHLD} then SIG_DFL else exec_disposition (sg n))))"
proof -
  let ?S = "if on_terminal isatty argv then signal_events else []"
  from session_log [OF run] obtain d1 d2 where
      d: "d1 @ ?S @ d2 = before @ Ev_fork p # later" "list_all before_jobs d1" "list_all quiet d2" by auto
  have np: "list_all no_process (d1 @ ?S)" using d(2) signal_events_effect(2) by (auto simp: list_all_iff)
  have "(d1 @ ?S) @ d2 = before @ Ev_fork p # later" using d(1) by simp
  from fork_behind [OF this np] obtain f where f: "before = d1 @ ?S @ f" "d2 = f @ Ev_fork p # later" by auto
  have q: "list_all quiet d1" "list_all quiet f" using d f by (auto simp: list_all_iff)
  have own: "list_all own_signal before" using q f signal_events_effect(1) by (auto dest: quiet_own)
  have "n \<in> terminal_signals \<Longrightarrow> dispositions sg before n = SIG_IGN" if "on_terminal isatty argv" for n
    using that f q by (simp add: dispositions_quiet signal_events_effect)
  moreover have "(exec_disposition \<circ> restore_child_signals (dispositions sg before)) n =
      (if n \<in> terminal_signals \<union> {SIGCHLD} then SIG_DFL else exec_disposition (sg n))" for n
    using dispositions_other [OF own, of n sg] by (simp add: restored)
  ultimately show ?thesis by (auto dest!: child_signals split: child_end.split)
qed

theorem shell_signals_witness:
  "let co = \<lparr>co_dup2_fails = (\<lambda>_ _. False), co_open = (\<lambda>t p fl. None), co_setpgid = (\<lambda>_. None), co_exec = (\<lambda>_. None)\<rparr>
   in \<exists>rc before later.
        shell_cli_main ls_tty ls_os True [In_Line ''ls&''] (\<lambda>_. Inl 2) [''shell''] [] = Some (Ret rc, before @ Ev_fork 100 # later) \<and>
        dispositions (\<lambda>_. SIG_DFL) before SIGINT = SIG_IGN \<and>
        (\<exists>t sg. child_main co (\<lambda>_. None) (dispositions (\<lambda>_. SIG_DFL) before) ls_pipeline 0 [] 1 2 0 100 = Execs [''ls''] t sg \<and>
           sg SIGINT = SIG_DFL)"
proof -
  define co where "co = \<lparr>co_dup2_fails = (\<lambda>_ _. False), co_open = (\<lambda>t p fl. None), co_setpgid = (\<lambda>_. None), co_exec = (\<lambda>_. None)\<rparr>"
  obtain rc before later where
      run: "shell_cli_main ls_tty ls_os True [In_Line ''ls&''] (\<lambda>_. Inl 2) [''shell''] [] = Some (Ret rc, [] @ before @ Ev_fork 100 # later)"
    using ls_session by (metis append_Nil)
  obtain t sg where ex: "child_main co (\<lambda>_. None) (dispositions (\<lambda>_. SIG_DFL) before) ls_pipeline 0 [] 1 2 0 100 = Execs [''ls''] t sg"
    by (simp add: child_main_def co_def setup_command_fds_def ls_pipeline_def)
  have "SIGINT \<in> terminal_signals" "on_terminal True [''shell'']" by (simp_all add: terminal_signals_def on_terminal_def)
  with shell_signals [OF run, where sg = "\<lambda>_. SIG_DFL" and co = co and t = "\<lambda>_. None" and pl = ls_pipeline and i = 0 and pipes = "[]"
      and out_fd = 1 and err_fd = 2 and pgid = 0] ex
  have "dispositions (\<lambda>_. SIG_DFL) before SIGINT = SIG_IGN" "sg SIGINT = SIG_DFL" by simp_all
  with ex have "dispositions (\<lambda>_. SIG_DFL) before SIGINT = SIG_IGN \<and>
    (\<exists>t sg. child_main co (\<lambda>_. None) (dispositions (\<lambda>_. SIG_DFL) before) ls_pipeline 0 [] 1 2 0 100 = Execs [''ls''] t sg \<and> sg SIGINT = SIG_DFL)"
    by blast
  with run show ?thesis unfolding Let_def co_def [symmetric] by (metis append_Nil)
qed

end
