(* ===== verification/Elf_Parser.thy ===== *)
theory Elf_Parser
  imports Common "HOL-Library.Monad_Syntax"
begin

text \<open>
  The ELF reader of \<^verbatim>\<open>elf/elf_parser.c\<close>: opening and validating an image, and the walks over its
  program headers, section headers and symbols. The mapped file is the list of its bytes. The code
  reads structures through pointers into the mapping without a test of its own; a read that is not
  wholly inside the file is the result \<open>None\<close>. What the printing functions print is modelled as the
  values of each row, not as text in columns. The system calls that open, map, unmap and close are
  values, and the log of what the system did is a result of opening and closing an image.
\<close>

section \<open>Structures in the file\<close>

definition le_val :: "byte list \<Rightarrow> nat" where
  "le_val bs = foldr (\<lambda>b n. unat b + 256 * n) bs 0"

text \<open>A little-endian field of \<open>n\<close> bytes at an offset of a structure.\<close>

definition rd :: "byte list \<Rightarrow> nat \<Rightarrow> nat \<Rightarrow> nat" where
  "rd str off n = le_val (slice off n str)"

text \<open>The structure of \<open>n\<close> bytes at an offset of the file.\<close>

definition struct_at :: "byte list \<Rightarrow> nat \<Rightarrow> nat \<Rightarrow> byte list option" where
  "struct_at data off n = (if off + n \<le> length data then Some (slice off n data) else None)"

record Ehdr =
  e_type :: nat
  e_machine :: nat
  e_entry :: nat
  e_phoff :: nat
  e_shoff :: nat
  e_ehsize :: nat
  e_phentsize :: nat
  e_phnum :: nat
  e_shentsize :: nat
  e_shnum :: nat
  e_shstrndx :: nat

record Phdr =
  p_type :: nat
  p_offset :: nat
  p_vaddr :: nat
  p_filesz :: nat
  p_memsz :: nat
  p_align :: nat
  p_flags :: nat

record Shdr =
  sh_name :: nat
  sh_type :: nat
  sh_flags :: nat
  sh_addr :: nat
  sh_offset :: nat
  sh_size :: nat
  sh_link :: nat
  sh_entsize :: nat

record Sym =
  st_name :: nat
  st_value :: nat
  st_size :: nat
  st_info :: nat

definition ELFCLASS32 :: nat where
  "ELFCLASS32 = 1"

definition ELFCLASS64 :: nat where
  "ELFCLASS64 = 2"

text \<open>Sizes and layouts of the structures of \<^verbatim>\<open>elf.h\<close> in the two classes.\<close>

definition sizeof_Ehdr :: "nat \<Rightarrow> nat" where
  "sizeof_Ehdr cls = (if cls = ELFCLASS32 then 52 else 64)"

definition sizeof_Phdr :: "nat \<Rightarrow> nat" where
  "sizeof_Phdr cls = (if cls = ELFCLASS32 then 32 else 56)"

definition sizeof_Shdr :: "nat \<Rightarrow> nat" where
  "sizeof_Shdr cls = (if cls = ELFCLASS32 then 40 else 64)"

definition sizeof_Sym :: "nat \<Rightarrow> nat" where
  "sizeof_Sym cls = (if cls = ELFCLASS32 then 16 else 24)"

definition ehdr_of :: "nat \<Rightarrow> byte list \<Rightarrow> Ehdr" where
  "ehdr_of cls b =
     (if cls = ELFCLASS32
      then \<lparr>e_type = rd b 16 2, e_machine = rd b 18 2, e_entry = rd b 24 4, e_phoff = rd b 28 4, e_shoff = rd b 32 4,
            e_ehsize = rd b 40 2, e_phentsize = rd b 42 2, e_phnum = rd b 44 2, e_shentsize = rd b 46 2,
            e_shnum = rd b 48 2, e_shstrndx = rd b 50 2\<rparr>
      else \<lparr>e_type = rd b 16 2, e_machine = rd b 18 2, e_entry = rd b 24 8, e_phoff = rd b 32 8, e_shoff = rd b 40 8,
            e_ehsize = rd b 52 2, e_phentsize = rd b 54 2, e_phnum = rd b 56 2, e_shentsize = rd b 58 2,
            e_shnum = rd b 60 2, e_shstrndx = rd b 62 2\<rparr>)"

definition phdr_of :: "nat \<Rightarrow> byte list \<Rightarrow> Phdr" where
  "phdr_of cls b =
     (if cls = ELFCLASS32
      then \<lparr>p_type = rd b 0 4, p_offset = rd b 4 4, p_vaddr = rd b 8 4, p_filesz = rd b 16 4, p_memsz = rd b 20 4,
            p_align = rd b 28 4, p_flags = rd b 24 4\<rparr>
      else \<lparr>p_type = rd b 0 4, p_offset = rd b 8 8, p_vaddr = rd b 16 8, p_filesz = rd b 32 8, p_memsz = rd b 40 8,
            p_align = rd b 48 8, p_flags = rd b 4 4\<rparr>)"

definition shdr_of :: "nat \<Rightarrow> byte list \<Rightarrow> Shdr" where
  "shdr_of cls b =
     (if cls = ELFCLASS32
      then \<lparr>sh_name = rd b 0 4, sh_type = rd b 4 4, sh_flags = rd b 8 4, sh_addr = rd b 12 4, sh_offset = rd b 16 4,
            sh_size = rd b 20 4, sh_link = rd b 24 4, sh_entsize = rd b 36 4\<rparr>
      else \<lparr>sh_name = rd b 0 4, sh_type = rd b 4 4, sh_flags = rd b 8 8, sh_addr = rd b 16 8, sh_offset = rd b 24 8,
            sh_size = rd b 32 8, sh_link = rd b 40 4, sh_entsize = rd b 56 8\<rparr>)"

definition sym_of :: "nat \<Rightarrow> byte list \<Rightarrow> Sym" where
  "sym_of cls b =
     (if cls = ELFCLASS32
      then \<lparr>st_name = rd b 0 4, st_value = rd b 4 4, st_size = rd b 8 4, st_info = rd b 12 1\<rparr>
      else \<lparr>st_name = rd b 0 4, st_value = rd b 8 8, st_size = rd b 16 8, st_info = rd b 4 1\<rparr>)"

section \<open>System calls\<close>

text \<open>
  The calls of the reader and of the loader. \<open>os log c\<close> is the answer of the system to the call \<open>c\<close>
  after what is in \<open>log\<close>: \<open>None\<close> for a failure, otherwise the value returned, which for a mapping is
  its address. The log holds what happened: a mapping at the address it got, an accepted
  \<open>munmap\<close>, and a refused one as \<open>Munmap_Failed\<close>, because the code ignores its result.
\<close>

datatype sys_call =
    Open_File int
  | Close_File int
  | Mmap_Image nat nat
  | Mmap_File nat nat nat bool nat
  | Mmap_Anon nat nat nat bool
  | Munmap nat nat
  | Munmap_Failed nat nat
  | Memset0 nat nat
  | Mprotect nat nat nat

type_synonym sys_answers = "sys_call list \<Rightarrow> sys_call \<Rightarrow> nat option"

definition munmap_call :: "sys_answers \<Rightarrow> nat \<Rightarrow> nat \<Rightarrow> sys_call list \<Rightarrow> sys_call" where
  "munmap_call os a n log = (if os log (Munmap a n) \<noteq> None then Munmap a n else Munmap_Failed a n)"

section \<open>Opening an image\<close>

text \<open>The pointer \<open>data\<close> of the image is the address \<open>im_addr\<close> with the bytes \<open>im_data\<close>, or null.\<close>

record ElfImage =
  im_fd :: int
  im_data :: "byte list option"
  im_addr :: nat
  im_size :: nat
  im_class :: nat
  im_machine :: nat
  im_type :: nat
  im_entry :: nat

definition closed_image :: ElfImage where
  "closed_image = \<lparr>im_fd = -1, im_data = None, im_addr = 0, im_size = 0, im_class = 0, im_machine = 0, im_type = 0, im_entry = 0\<rparr>"

definition elf_image_close :: "sys_answers \<Rightarrow> ElfImage \<Rightarrow> sys_call list \<Rightarrow> ElfImage \<times> sys_call list" where
  "elf_image_close os im log =
     (let log1 = (if im_data im \<noteq> None then log @ [munmap_call os (im_addr im) (im_size im) log] else log);
          log2 = (if im_fd im \<ge> 0 then log1 @ [Close_File (im_fd im)] else log1)
      in (closed_image, log2))"

definition range_ok :: "nat \<Rightarrow> nat \<Rightarrow> nat \<Rightarrow> bool" where
  "range_ok imsize offset bytes \<longleftrightarrow> \<not> offset > imsize \<and> bytes \<le> imsize - offset"

text \<open>The formats of the messages all end in \<open>%s\<close>; \<open>arg\<close> is what is put there.\<close>

definition elf_set_error :: "nat option \<Rightarrow> string \<Rightarrow> string \<Rightarrow> string option" where
  "elf_set_error err_size fmt arg =
     (case err_size of None \<Rightarrow> None | Some n \<Rightarrow> if n = 0 then None else Some (take (n - 1) (fmt @ arg)))"

text \<open>
  What the system answers: the contents of the file if it can be opened, whether \<open>fstat\<close> succeeds,
  the address of the mapping if \<open>mmap\<close> succeeds, the descriptor and the text of \<open>strerror\<close>.
\<close>

record elf_env =
  ev_file :: "byte list option"
  ev_fstat :: bool
  ev_mmap :: "nat option"
  ev_fd :: nat
  ev_strerror :: string

definition EI_NIDENT :: nat where
  "EI_NIDENT = 16"

definition ELFMAG :: "byte list" where
  "ELFMAG = [0x7f, 0x45, 0x4c, 0x46]"

text \<open>The tests on one table: with entries, the entry size is not zero and the table is in the file.\<close>

definition table_ok :: "nat \<Rightarrow> nat \<Rightarrow> nat \<Rightarrow> nat \<Rightarrow> bool" where
  "table_ok imsize off entsize num \<longleftrightarrow> \<not> (num \<noteq> 0 \<and> (entsize = 0 \<or> \<not> range_ok imsize off (entsize * num)))"

text \<open>Every failure after the mapping closes the image and reports.\<close>

definition open_failed ::
    "sys_answers \<Rightarrow> ElfImage \<Rightarrow> string option \<Rightarrow> sys_call list \<Rightarrow> int \<times> ElfImage \<times> string option \<times> sys_call list" where
  "open_failed os im msg log = (let (im', log') = elf_image_close os im log in (-1, im', msg, log'))"

text \<open>The part after the class is known; \<open>bits\<close> is its name in the messages.\<close>

definition check_ehdr ::
    "sys_answers \<Rightarrow> nat \<Rightarrow> string \<Rightarrow> string \<Rightarrow> nat option \<Rightarrow> ElfImage \<Rightarrow> byte list \<Rightarrow> sys_call list \<Rightarrow>
     int \<times> ElfImage \<times> string option \<times> sys_call list" where
  "check_ehdr os cls bits path err_size im data log =
     (case struct_at data 0 (sizeof_Ehdr cls) of
        None \<Rightarrow> open_failed os im (elf_set_error err_size ''truncated ELF header: '' path) log
      | Some b \<Rightarrow>
          let h = ehdr_of cls b;
              im1 = im\<lparr>im_machine := e_machine h, im_type := e_type h, im_entry := e_entry h\<rparr>
          in if e_ehsize h < sizeof_Ehdr cls
             then open_failed os im1 (elf_set_error err_size (''invalid '' @ bits @ '' header size: '') path) log
             else if \<not> table_ok (im_size im) (e_phoff h) (e_phentsize h) (e_phnum h)
             then open_failed os im1 (elf_set_error err_size (''invalid '' @ bits @ '' program header table: '') path) log
             else if \<not> table_ok (im_size im) (e_shoff h) (e_shentsize h) (e_shnum h)
             then open_failed os im1 (elf_set_error err_size (''invalid '' @ bits @ '' section header table: '') path) log
             else (0, im1, None, log))"

definition elf_image_open ::
    "sys_answers \<Rightarrow> elf_env \<Rightarrow> string \<Rightarrow> nat option \<Rightarrow> int \<times> ElfImage \<times> string option \<times> sys_call list" where
  "elf_image_open os env path err_size =
     (case ev_file env of
        None \<Rightarrow> (-1, closed_image, elf_set_error err_size ''open failed: '' (ev_strerror env), [])
      | Some data \<Rightarrow>
          let fd = int (ev_fd env); log = [Open_File fd]
          in if \<not> ev_fstat env
             then (-1, closed_image, elf_set_error err_size ''fstat failed: '' (ev_strerror env), log @ [Close_File fd])
             else if length data < EI_NIDENT
             then (-1, closed_image, elf_set_error err_size ''invalid file: '' ''too small to contain an ELF header'',
                   log @ [Close_File fd])
             else
               (case ev_mmap env of
                  None \<Rightarrow> (-1, closed_image, elf_set_error err_size ''mmap failed: '' (ev_strerror env), log @ [Close_File fd])
                | Some addr \<Rightarrow>
                    let log1 = log @ [Mmap_Image addr (length data)];
                        im = closed_image\<lparr>im_fd := fd, im_data := Some data, im_addr := addr, im_size := length data\<rparr>
                    in if take 4 data \<noteq> ELFMAG
                       then open_failed os im (elf_set_error err_size ''not an ELF file: '' path) log1
                       else if data ! 5 \<noteq> 1
                       then open_failed os im
                              (elf_set_error err_size ''unsupported ELF endianness: '' ''only little-endian is supported'') log1
                       else
                         let im1 = im\<lparr>im_class := unat (data ! 4)\<rparr>
                         in if im_class im1 = ELFCLASS32 then check_ehdr os ELFCLASS32 ''ELF32'' path err_size im1 data log1
                            else if im_class im1 = ELFCLASS64 then check_ehdr os ELFCLASS64 ''ELF64'' path err_size im1 data log1
                            else open_failed os im1
                                   (elf_set_error err_size ''unsupported ELF class: '' ''expected ELF32 or ELF64'') log1))"

section \<open>Names\<close>

definition elf_machine_name :: "nat \<Rightarrow> string" where
  "elf_machine_name m =
     (if m = 3 then ''Intel 80386'' else if m = 62 then ''AMD x86-64'' else if m = 40 then ''ARM''
      else if m = 183 then ''AArch64'' else if m = 243 then ''RISC-V'' else ''Unknown'')"

definition elf_type_name :: "nat \<Rightarrow> string" where
  "elf_type_name t =
     (if t = 0 then ''NONE'' else if t = 1 then ''REL (Relocatable)'' else if t = 2 then ''EXEC (Executable)''
      else if t = 3 then ''DYN (Shared/PIE)'' else if t = 4 then ''CORE'' else ''Unknown'')"

definition PT_LOAD :: nat where
  "PT_LOAD = 1"

definition ph_type_name :: "nat \<Rightarrow> string" where
  "ph_type_name t =
     (if t = 0 then ''NULL'' else if t = 1 then ''LOAD'' else if t = 2 then ''DYNAMIC'' else if t = 3 then ''INTERP''
      else if t = 4 then ''NOTE'' else if t = 6 then ''PHDR'' else if t = 7 then ''TLS'' else ''OTHER'')"

definition perm_string :: "nat \<Rightarrow> string" where
  "perm_string flags =
     [if bit flags 2 then CHR ''R'' else CHR ''-'', if bit flags 1 then CHR ''W'' else CHR ''-'',
      if bit flags 0 then CHR ''X'' else CHR ''-'']"

definition sh_type_name :: "nat \<Rightarrow> string" where
  "sh_type_name t =
     (if t = 0 then ''NULL'' else if t = 1 then ''PROGBITS'' else if t = 2 then ''SYMTAB'' else if t = 3 then ''STRTAB''
      else if t = 4 then ''RELA'' else if t = 5 then ''HASH'' else if t = 6 then ''DYNAMIC'' else if t = 7 then ''NOTE''
      else if t = 8 then ''NOBITS'' else if t = 9 then ''REL'' else if t = 11 then ''DYNSYM'' else ''OTHER'')"

definition section_flags64 :: "nat \<Rightarrow> string" where
  "section_flags64 flags =
     (if bit flags 1 then ''A'' else []) @ (if bit flags 0 then ''W'' else []) @ (if bit flags 2 then ''X'' else [])"

definition sym_bind_name :: "nat \<Rightarrow> string" where
  "sym_bind_name b = (if b = 0 then ''LOCAL'' else if b = 1 then ''GLOBAL'' else if b = 2 then ''WEAK'' else ''OTHER'')"

definition sym_type_name :: "nat \<Rightarrow> string" where
  "sym_type_name t =
     (if t = 0 then ''NOTYPE'' else if t = 1 then ''OBJECT'' else if t = 2 then ''FUNC'' else if t = 3 then ''SECTION''
      else if t = 4 then ''FILE'' else if t = 6 then ''TLS'' else ''OTHER'')"

section \<open>Walks over the tables\<close>

definition image_ehdr :: "ElfImage \<Rightarrow> (byte list \<times> Ehdr) option" where
  "image_ehdr im =
     do {
       data \<leftarrow> im_data im;
       b \<leftarrow> struct_at data 0 (sizeof_Ehdr (im_class im));
       Some (data, ehdr_of (im_class im) b)
     }"

definition image_phdr :: "ElfImage \<Rightarrow> nat \<Rightarrow> Phdr option" where
  "image_phdr im i =
     do {
       (data, h) \<leftarrow> image_ehdr im;
       b \<leftarrow> struct_at data (e_phoff h + i * e_phentsize h) (sizeof_Phdr (im_class im));
       Some (phdr_of (im_class im) b)
     }"

definition image_shdr :: "ElfImage \<Rightarrow> nat \<Rightarrow> Shdr option" where
  "image_shdr im i =
     do {
       (data, h) \<leftarrow> image_ehdr im;
       b \<leftarrow> struct_at data (e_shoff h + i * e_shentsize h) (sizeof_Shdr (im_class im));
       Some (shdr_of (im_class im) b)
     }"

text \<open>A loop over \<open>n\<close> entries that prints a row for each.\<close>

definition rows :: "nat \<Rightarrow> (nat \<Rightarrow> 'a option) \<Rightarrow> 'a list option" where
  "rows n f = those (map f [0..<n])"

record header_row =
  hr_magic :: "byte list"
  hr_bits :: nat
  hr_type :: string
  hr_machine :: string
  hr_machine_code :: nat
  hr_entry :: nat
  hr_ehdr :: Ehdr

definition elf_print_header :: "ElfImage \<Rightarrow> header_row option" where
  "elf_print_header im =
     do {
       (data, h) \<leftarrow> image_ehdr im;
       Some \<lparr>hr_magic = take 4 data, hr_bits = (if im_class im = ELFCLASS32 then 32 else 64),
             hr_type = elf_type_name (im_type im), hr_machine = elf_machine_name (im_machine im),
             hr_machine_code = im_machine im, hr_entry = im_entry im, hr_ehdr = h\<rparr>
     }"

text \<open>A row of the segment table: index, type, the fields as they are, permissions.\<close>

definition elf_print_segments :: "ElfImage \<Rightarrow> (nat \<times> string \<times> Phdr \<times> string) list option" where
  "elf_print_segments im =
     do {
       (data, h) \<leftarrow> image_ehdr im;
       rows (e_phnum h)
         (\<lambda>i. do { p \<leftarrow> image_phdr im i; Some (i, ph_type_name (p_type p), p, perm_string (p_flags p)) })
     }"

text \<open>
  \<open>%s\<close> prints the bytes up to the first zero, with a precision at most that many; \<open>None\<close> when the
  file ends first.
\<close>

fun c_text :: "nat option \<Rightarrow> byte list \<Rightarrow> string option" where
  "c_text lim [] = (if lim = Some 0 then Some [] else None)"
| "c_text lim (b # bs) =
     (if lim = Some 0 \<or> b = 0 then Some []
      else map_option (\<lambda>t. char_of (unat b) # t) (c_text (map_option (\<lambda>n. n - 1) lim) bs))"

definition SHT_SYMTAB :: nat where
  "SHT_SYMTAB = 2"

definition SHT_DYNSYM :: nat where
  "SHT_DYNSYM = 11"

text \<open>The name table of the sections: its offset and size, or an empty one.\<close>

definition section_names :: "ElfImage \<Rightarrow> Ehdr \<Rightarrow> (nat \<times> nat) option" where
  "section_names im h =
     (if e_shstrndx h < e_shnum h
      then do {
        str \<leftarrow> image_shdr im (e_shstrndx h);
        Some (if range_ok (im_size im) (sh_offset str) (sh_size str) then (sh_offset str, sh_size str) else (0, 0))
      }
      else Some (0, 0))"

definition elf_print_sections :: "ElfImage \<Rightarrow> (nat \<times> string \<times> string \<times> Shdr \<times> string) list option" where
  "elf_print_sections im =
     do {
       (data, h) \<leftarrow> image_ehdr im;
       (names, names_size) \<leftarrow> section_names im h;
       rows (e_shnum h)
         (\<lambda>i. do {
            s \<leftarrow> image_shdr im i;
            name \<leftarrow> (if sh_name s < names_size then c_text (Some 20) (drop (names + sh_name s) data) else Some ''<bad-name>'');
            Some (i, name, sh_type_name (sh_type s), s, section_flags64 (sh_flags s))
          })
     }"

text \<open>One symbol table: the rows of its symbols, with the names from its string table.\<close>

definition symbol_rows ::
    "ElfImage \<Rightarrow> byte list \<Rightarrow> Shdr \<Rightarrow> Shdr \<Rightarrow> (nat \<times> Sym \<times> string \<times> string \<times> string) list option" where
  "symbol_rows im data s str =
     rows (sh_size s div sh_entsize s)
       (\<lambda>i. do {
          b \<leftarrow> struct_at data (sh_offset s + i * sh_entsize s) (sizeof_Sym (im_class im));
          let sym = sym_of (im_class im) b;
          name \<leftarrow> (if st_name sym < sh_size str then c_text None (drop (sh_offset str + st_name sym) data) else Some ''<bad-name>'');
          Some (i, sym, sym_type_name (st_info sym mod 16), sym_bind_name (st_info sym div 16), name)
        })"

text \<open>One section of the walk: nothing for a section that is skipped.\<close>

definition symbol_section ::
    "ElfImage \<Rightarrow> byte list \<Rightarrow> Ehdr \<Rightarrow> nat \<Rightarrow> (nat \<times> nat \<times> (nat \<times> Sym \<times> string \<times> string \<times> string) list) list option" where
  "symbol_section im data h si =
     do {
       s \<leftarrow> image_shdr im si;
       if sh_type s \<noteq> SHT_SYMTAB \<and> sh_type s \<noteq> SHT_DYNSYM then Some []
       else if sh_link s \<ge> e_shnum h \<or> sh_entsize s = 0 \<or> \<not> range_ok (im_size im) (sh_offset s) (sh_size s) then Some []
       else do {
         str \<leftarrow> image_shdr im (sh_link s);
         if \<not> range_ok (im_size im) (sh_offset str) (sh_size str) then Some []
         else do {
           rs \<leftarrow> symbol_rows im data s str;
           Some [(si, sh_size s div sh_entsize s, rs)]
         }
       }
     }"

definition elf_print_symbols ::
    "ElfImage \<Rightarrow> (nat \<times> nat \<times> (nat \<times> Sym \<times> string \<times> string \<times> string) list) list option" where
  "elf_print_symbols im =
     do {
       (data, h) \<leftarrow> image_ehdr im;
       map_option concat (rows (e_shnum h) (symbol_section im data h))
     }"

text \<open>
  \<open>elf_vaddr_to_offset\<close>: \<open>Some None\<close> is the return value -1. The sums are 64-bit sums.
\<close>

fun vaddr_loop :: "ElfImage \<Rightarrow> nat \<Rightarrow> nat list \<Rightarrow> nat option option" where
  "vaddr_loop im vaddr [] = Some None"
| "vaddr_loop im vaddr (i # is) =
     do {
       p \<leftarrow> image_phdr im i;
       if p_type p = PT_LOAD \<and> vaddr \<ge> p_vaddr p \<and> vaddr < wrap64 (p_vaddr p + p_filesz p)
       then Some (Some (wrap64 (p_offset p + (vaddr - p_vaddr p))))
       else vaddr_loop im vaddr is
     }"

definition elf_vaddr_to_offset :: "ElfImage \<Rightarrow> nat \<Rightarrow> bool \<Rightarrow> nat option option" where
  "elf_vaddr_to_offset im vaddr has_offset =
     (if \<not> has_offset then Some None
      else do {
        (data, h) \<leftarrow> image_ehdr im;
        vaddr_loop im vaddr [0..<e_phnum h]
      })"

definition elf_print_memory_map :: "ElfImage \<Rightarrow> (Phdr \<times> string \<times> nat) list option" where
  "elf_print_memory_map im =
     do {
       (data, h) \<leftarrow> image_ehdr im;
       map_option concat (rows (e_phnum h)
         (\<lambda>i. do {
            p \<leftarrow> image_phdr im i;
            Some (if p_type p \<noteq> PT_LOAD then []
                  else [(p, perm_string (p_flags p), if p_memsz p > p_filesz p then p_memsz p - p_filesz p else 0)])
          }))
     }"

section \<open>Accepted images\<close>

lemma elf_image_close_eq:
  "im_data im = Some data \<Longrightarrow> im_fd im = int fd \<Longrightarrow>
    elf_image_close os im log = (closed_image, log @ [munmap_call os (im_addr im) (im_size im) log, Close_File (int fd)])"
  by (simp add: elf_image_close_def)

lemma check_ehdr_ok:
  assumes "check_ehdr os cls bits path err_size im data log = (0, im', msg, log')"
  obtains b where "struct_at data 0 (sizeof_Ehdr cls) = Some b"
    "im' = im\<lparr>im_machine := e_machine (ehdr_of cls b), im_type := e_type (ehdr_of cls b), im_entry := e_entry (ehdr_of cls b)\<rparr>"
    "table_ok (im_size im) (e_phoff (ehdr_of cls b)) (e_phentsize (ehdr_of cls b)) (e_phnum (ehdr_of cls b))"
    "table_ok (im_size im) (e_shoff (ehdr_of cls b)) (e_shentsize (ehdr_of cls b)) (e_shnum (ehdr_of cls b))"
    "log' = log"
  using assms by (auto simp: check_ehdr_def open_failed_def Let_def split: option.splits if_splits prod.splits)

text \<open>
  What the tests of \<open>elf_image_open\<close> establish; an accepted image has its descriptor and its mapping,
  and these are all the calls that were made.
\<close>

lemma elf_open_ok:
  assumes "elf_image_open os env path err_size = (0, im, msg, log)"
  obtains data h where "image_ehdr im = Some (data, h)" "im_size im = length data" "im_data im = Some data"
    "table_ok (length data) (e_phoff h) (e_phentsize h) (e_phnum h)"
    "table_ok (length data) (e_shoff h) (e_shentsize h) (e_shnum h)"
    "im_fd im = int (ev_fd env)" "log = [Open_File (im_fd im), Mmap_Image (im_addr im) (im_size im)]"
proof -
  obtain data where f: "ev_file env = Some data" using assms by (auto simp: elf_image_open_def split: option.splits)
  obtain addr where ad: "ev_mmap env = Some addr"
    using assms f by (auto simp: elf_image_open_def Let_def split: option.splits if_splits)
  let ?im = "closed_image\<lparr>im_fd := int (ev_fd env), im_data := Some data, im_addr := addr, im_size := length data, im_class := unat (data ! 4)\<rparr>"
  let ?log = "[Open_File (int (ev_fd env)), Mmap_Image addr (length data)]"
  obtain cls bits where cls: "cls = unat (data ! 4)"
    and c: "check_ehdr os cls bits path err_size ?im data ?log = (0, im, msg, log)"
    using assms f ad by (auto simp: elf_image_open_def open_failed_def Let_def split: if_splits prod.splits)
  from c obtain b where b: "struct_at data 0 (sizeof_Ehdr cls) = Some b"
    "im = ?im\<lparr>im_machine := e_machine (ehdr_of cls b), im_type := e_type (ehdr_of cls b), im_entry := e_entry (ehdr_of cls b)\<rparr>"
    "table_ok (length data) (e_phoff (ehdr_of cls b)) (e_phentsize (ehdr_of cls b)) (e_phnum (ehdr_of cls b))"
    "table_ok (length data) (e_shoff (ehdr_of cls b)) (e_shentsize (ehdr_of cls b)) (e_shnum (ehdr_of cls b))"
    "log = ?log"
    by (rule check_ehdr_ok) auto
  then show ?thesis using cls by (intro that [of data "ehdr_of cls b"]) (simp_all add: image_ehdr_def)
qed

text \<open>A failed open has undone what it did: the file is closed and its mapping was given back.\<close>

lemma check_ehdr_fail:
  assumes "check_ehdr os cls bits path err_size im data log = (rc, im', msg, log')" "rc \<noteq> 0"
    "im_data im = Some data" "im_fd im = int fd"
  shows "log' = log @ [munmap_call os (im_addr im) (im_size im) log, Close_File (int fd)]"
  using assms by (auto simp: check_ehdr_def open_failed_def elf_image_close_def Let_def split: option.splits if_splits)

lemma elf_open_fail:
  assumes "elf_image_open os env path err_size = (rc, im, msg, log)" "rc \<noteq> 0"
  obtains "log = []"
    | "log = [Open_File (int (ev_fd env)), Close_File (int (ev_fd env))]"
    | a n where "log = [Open_File (int (ev_fd env)), Mmap_Image a n,
        munmap_call os a n [Open_File (int (ev_fd env)), Mmap_Image a n], Close_File (int (ev_fd env))]"
  using assms
  by (fastforce simp: elf_image_open_def open_failed_def elf_image_close_def Let_def
      split: option.splits if_splits dest: check_ehdr_fail)

text \<open>A validated table whose entries are at least as large as the structure is read inside the file.\<close>

lemma table_entry:
  assumes "table_ok len off ent num" "i < num" "n \<le> ent"
  shows "off + i * ent + n \<le> len"
proof -
  have "off + ent * num \<le> len" using assms(1,2) by (auto simp: table_ok_def range_ok_def)
  moreover have "(i + 1) * ent \<le> num * ent" using assms(2) by (intro mult_right_mono) simp_all
  ultimately show ?thesis using assms(3) by (simp add: algebra_simps)
qed

lemma those_Some: "\<forall>x\<in>set xs. x \<noteq> None \<Longrightarrow> those xs \<noteq> None"
  by (induction xs) auto

lemma rows_defined:
  assumes "\<And>i. i < n \<Longrightarrow> \<exists>y. f i = Some y"
  shows "\<exists>ys. rows n f = Some ys"
proof -
  have "those (map f [0..<n]) \<noteq> None" using assms by (intro those_Some) auto
  then show ?thesis by (simp add: rows_def)
qed

lemma rows_read:
  assumes "\<And>i. i < n \<Longrightarrow> r i \<noteq> None"
  shows "rows n (\<lambda>i. Option.bind (r i) (\<lambda>p. Some (g i p))) \<noteq> None"
proof -
  have "\<exists>y. Option.bind (r i) (\<lambda>p. Some (g i p)) = Some y" if "i < n" for i using assms [OF that] by auto
  from rows_defined [OF this] show ?thesis by auto
qed

text \<open>A segment that holds an address: the test of the address translation.\<close>

definition load_hit :: "Phdr \<Rightarrow> nat \<Rightarrow> bool" where
  "load_hit p vaddr \<longleftrightarrow> p_type p = PT_LOAD \<and> p_vaddr p \<le> vaddr \<and> vaddr < wrap64 (p_vaddr p + p_filesz p)"

text \<open>The translation is a search for the first segment that holds the address.\<close>

lemma vaddr_loop_find:
  assumes "\<forall>i\<in>set is. image_phdr im i \<noteq> None"
  shows "vaddr_loop im vaddr is =
    Some (map_option (\<lambda>i. let p = the (image_phdr im i) in wrap64 (p_offset p + (vaddr - p_vaddr p)))
      (find (\<lambda>i. load_hit (the (image_phdr im i)) vaddr) is))"
  using assms by (induction "is") (auto simp: load_hit_def)

text \<open>
  The names are printed up to their terminating zero, so the walks over sections and symbols stay in
  the file when a string table ends with a zero byte, as the ELF format asks, and a symbol
  entry has at least the size of the structure. \<open>elf_image_open\<close> tests neither.
\<close>

definition strtab_ok :: "byte list \<Rightarrow> Shdr \<Rightarrow> bool" where
  "strtab_ok data str \<longleftrightarrow>
     (range_ok (length data) (sh_offset str) (sh_size str) \<and> sh_size str \<noteq> 0 \<longrightarrow>
        data ! (sh_offset str + sh_size str - 1) = 0)"

definition symtabs_ok :: "ElfImage \<Rightarrow> byte list \<Rightarrow> Ehdr \<Rightarrow> bool" where
  "symtabs_ok im data h \<longleftrightarrow>
     (\<forall>si<e_shnum h. \<forall>s. image_shdr im si = Some s \<and> (sh_type s = SHT_SYMTAB \<or> sh_type s = SHT_DYNSYM) \<longrightarrow>
        (sh_entsize s = 0 \<or> sizeof_Sym (im_class im) \<le> sh_entsize s) \<and>
        (\<forall>str. image_shdr im (sh_link s) = Some str \<longrightarrow> strtab_ok data str))"

lemma c_text_defined: "0 \<in> set bs \<Longrightarrow> \<exists>t. c_text lim bs = Some t"
  by (induction bs arbitrary: lim) force+

lemma strtab_text:
  assumes "strtab_ok data str" "range_ok (length data) (sh_offset str) (sh_size str)" "nm < sh_size str"
  shows "\<exists>t. c_text lim (drop (sh_offset str + nm) data) = Some t"
proof -
  have last: "data ! (sh_offset str + sh_size str - 1) = 0" "sh_offset str + sh_size str \<le> length data"
    using assms by (auto simp: strtab_ok_def range_ok_def)
  then have "drop (sh_offset str + nm) data ! (sh_size str - 1 - nm) = 0" "sh_size str - 1 - nm < length (drop (sh_offset str + nm) data)"
    using assms(3) by simp_all
  then show ?thesis by (metis c_text_defined nth_mem)
qed

lemma symbol_rows_defined:
  assumes "strtab_ok data str" "range_ok (length data) (sh_offset str) (sh_size str)"
    "range_ok (length data) (sh_offset s) (sh_size s)" "sizeof_Sym (im_class im) \<le> sh_entsize s"
  shows "\<exists>rs. symbol_rows im data s str = Some rs"
  unfolding symbol_rows_def
proof (rule rows_defined)
  fix i assume "i < sh_size s div sh_entsize s"
  then have "(i + 1) * sh_entsize s \<le> sh_size s div sh_entsize s * sh_entsize s" by (intro mult_right_mono) simp_all
  also have "\<dots> \<le> sh_size s" by simp
  finally have "sh_offset s + i * sh_entsize s + sizeof_Sym (im_class im) \<le> length data"
    using assms(3,4) by (simp add: range_ok_def) linarith
  then obtain b where b: "struct_at data (sh_offset s + i * sh_entsize s) (sizeof_Sym (im_class im)) = Some b"
    by (simp add: struct_at_def)
  show "\<exists>y. do {
      b \<leftarrow> struct_at data (sh_offset s + i * sh_entsize s) (sizeof_Sym (im_class im));
      let sym = sym_of (im_class im) b;
      name \<leftarrow> (if st_name sym < sh_size str then c_text None (drop (sh_offset str + st_name sym) data) else Some ''<bad-name>'');
      Some (i, sym, sym_type_name (st_info sym mod 16), sym_bind_name (st_info sym div 16), name)
    } = Some y"
    using strtab_text [OF assms(1,2), of "st_name (sym_of (im_class im) b)" None]
    by (cases "st_name (sym_of (im_class im) b) < sh_size str") (auto simp: b Let_def)
qed

text \<open>The two walks over section headers that can be read.\<close>

lemma sections_in_file:
  assumes h: "image_ehdr im = Some (data, h)" and sz: "im_size im = length data"
    and sh: "\<And>i. i < e_shnum h \<Longrightarrow> image_shdr im i \<noteq> None"
    and str: "\<forall>str. image_shdr im (e_shstrndx h) = Some str \<longrightarrow> strtab_ok data str"
  shows "elf_print_sections im \<noteq> None"
proof -
  obtain off n where o: "section_names im h = Some (off, n)"
    and nm: "\<And>nm lim. nm < n \<Longrightarrow> \<exists>t. c_text lim (drop (off + nm) data) = Some t"
  proof (cases "e_shstrndx h < e_shnum h")
    case True
    then obtain s where "image_shdr im (e_shstrndx h) = Some s" using sh by blast
    with True str sz strtab_text [of data s] show ?thesis
      by (intro that [of "if range_ok (length data) (sh_offset s) (sh_size s) then sh_offset s else 0"
            "if range_ok (length data) (sh_offset s) (sh_size s) then sh_size s else 0"])
        (auto simp: section_names_def split: if_splits)
  qed (use that [of 0 0] in \<open>simp add: section_names_def\<close>)
  have "\<exists>y. do {
      s \<leftarrow> image_shdr im i;
      name \<leftarrow> (if sh_name s < n then c_text (Some 20) (drop (off + sh_name s) data) else Some ''<bad-name>'');
      Some (i, name, sh_type_name (sh_type s), s, section_flags64 (sh_flags s))
    } = Some y" if i: "i < e_shnum h" for i
  proof -
    obtain s where s: "image_shdr im i = Some s" using sh [OF i] by blast
    show ?thesis using nm [of "sh_name s" "Some 20"] by (cases "sh_name s < n") (auto simp: s)
  qed
  from rows_defined [OF this] h o show ?thesis by (auto simp: elf_print_sections_def)
qed

lemma symbols_in_file:
  assumes h: "image_ehdr im = Some (data, h)" and sz: "im_size im = length data"
    and sh: "\<And>i. i < e_shnum h \<Longrightarrow> image_shdr im i \<noteq> None" and ok: "symtabs_ok im data h"
  shows "elf_print_symbols im \<noteq> None"
proof -
  have "\<exists>y. symbol_section im data h i = Some y" if i: "i < e_shnum h" for i
  proof -
    obtain s where s: "image_shdr im i = Some s" using sh [OF i] by blast
    show ?thesis
    proof (cases "(sh_type s = SHT_SYMTAB \<or> sh_type s = SHT_DYNSYM) \<and> sh_link s < e_shnum h \<and> sh_entsize s \<noteq> 0")
      case True
      then obtain str where str: "image_shdr im (sh_link s) = Some str" using sh by blast
      have "(sh_entsize s = 0 \<or> sizeof_Sym (im_class im) \<le> sh_entsize s) \<and> strtab_ok data str"
        using ok [unfolded symtabs_ok_def, rule_format, OF i, of s] s str True by simp
      then have "strtab_ok data str" "sizeof_Sym (im_class im) \<le> sh_entsize s" using True by simp_all
      note rows = symbol_rows_defined [OF this(1) _ _ this(2)]
      show ?thesis
      proof (cases "range_ok (length data) (sh_offset s) (sh_size s) \<and> range_ok (length data) (sh_offset str) (sh_size str)")
        case rng: True
        then obtain rs where "symbol_rows im data s str = Some rs" using rows by blast
        with rng show ?thesis by (simp add: symbol_section_def s str sz)
      qed (auto simp add: symbol_section_def s str sz)
    qed (use s in \<open>auto simp add: symbol_section_def\<close>)
  qed
  from rows_defined [OF this] h show ?thesis by (auto simp: elf_print_symbols_def)
qed

section \<open>Properties\<close>

text \<open>
  C38. The reads of the table walks stay inside the file: for an image that \<open>elf_image_open\<close> has
  accepted and whose table entry sizes are at least the sizes of the structures, the header, all program
  and section headers, the listing of segments, the memory map and the translation of every address
  are read without leaving the mapping. The listing of sections stays inside when the table of
  section names, if it lies in the file, ends with a zero byte, and the listing of symbols when in
  addition every symbol table has no entry size or one of at least a symbol, and its string table
  ends with a zero byte.
\<close>

theorem elf_tables_in_file:
  assumes op: "elf_image_open os env path err_size = (0, im, msg, log)" and h: "image_ehdr im = Some (data, h)"
    and ents: "sizeof_Phdr (im_class im) \<le> e_phentsize h" "sizeof_Shdr (im_class im) \<le> e_shentsize h"
  shows "elf_print_header im \<noteq> None \<and>
    (\<forall>i<e_phnum h. image_phdr im i \<noteq> None) \<and> (\<forall>i<e_shnum h. image_shdr im i \<noteq> None) \<and>
    elf_print_segments im \<noteq> None \<and> elf_print_memory_map im \<noteq> None \<and>
    (\<forall>vaddr has_offset. elf_vaddr_to_offset im vaddr has_offset \<noteq> None) \<and>
    ((\<forall>str. image_shdr im (e_shstrndx h) = Some str \<longrightarrow> strtab_ok data str) \<longrightarrow> elf_print_sections im \<noteq> None) \<and>
    (symtabs_ok im data h \<longrightarrow> elf_print_symbols im \<noteq> None)"
proof -
  obtain data' h' where o: "image_ehdr im = Some (data', h')" "im_size im = length data'"
    "table_ok (length data') (e_phoff h') (e_phentsize h') (e_phnum h')"
    "table_ok (length data') (e_shoff h') (e_shentsize h') (e_shnum h')"
    by (rule elf_open_ok [OF op]) blast
  then have t: "table_ok (length data) (e_phoff h) (e_phentsize h) (e_phnum h)"
    "table_ok (length data) (e_shoff h) (e_shentsize h) (e_shnum h)" and sz: "im_size im = length data" using h by simp_all
  have ph: "image_phdr im i \<noteq> None" if "i < e_phnum h" for i
    using table_entry [OF t(1) that ents(1)] h by (simp add: image_phdr_def struct_at_def)
  have sh: "image_shdr im i \<noteq> None" if "i < e_shnum h" for i
    using table_entry [OF t(2) that ents(2)] h by (simp add: image_shdr_def struct_at_def)
  have "elf_print_header im \<noteq> None" using h by (simp add: elf_print_header_def)
  moreover have "elf_print_segments im \<noteq> None"
    using h rows_read [OF ph, where g = "\<lambda>i p. (i, ph_type_name (p_type p), p, perm_string (p_flags p))"]
    by (simp add: elf_print_segments_def)
  moreover have "elf_print_memory_map im \<noteq> None"
    using h rows_read [OF ph, where g = "\<lambda>i p. if p_type p \<noteq> PT_LOAD then []
      else [(p, perm_string (p_flags p), if p_memsz p > p_filesz p then p_memsz p - p_filesz p else 0)]"]
    by (simp add: elf_print_memory_map_def)
  moreover have "elf_vaddr_to_offset im vaddr has_offset \<noteq> None" for vaddr has_offset
    using h ph vaddr_loop_find [of "[0..<e_phnum h]" im vaddr] by (auto simp: elf_vaddr_to_offset_def)
  ultimately show ?thesis using ph sh sections_in_file [OF h sz sh] symbols_in_file [OF h sz sh] by blast
qed

text \<open>A 64-bit header with one program header at \<open>phoff\<close> whose entry size is \<open>phentsize\<close>.\<close>

definition sample_ehdr :: "byte \<Rightarrow> byte \<Rightarrow> byte list" where
  "sample_ehdr phoff phentsize =
     [0x7f, 0x45, 0x4c, 0x46, 2, 1, 1, 0, 0, 0, 0, 0, 0, 0, 0, 0, 2, 0, 62, 0, 1, 0, 0, 0,
      0, 0, 0x40, 0, 0, 0, 0, 0, phoff, 0, 0, 0, 0, 0, 0, 0, 0, 0, 0, 0, 0, 0, 0, 0,
      0, 0, 0, 0, 64, 0, phentsize, 0, 1, 0, 64, 0, 0, 0, 0, 0]"

text \<open>A loadable segment of 16 bytes at the start of the file, mapped at \<open>0x400000\<close>.\<close>

definition sample_phdr :: "byte list" where
  "sample_phdr =
     [1, 0, 0, 0, 5, 0, 0, 0, 0, 0, 0, 0, 0, 0, 0, 0, 0, 0, 0x40, 0, 0, 0, 0, 0, 0, 0, 0x40, 0, 0, 0, 0, 0,
      16, 0, 0, 0, 0, 0, 0, 0, 16, 0, 0, 0, 0, 0, 0, 0, 0, 16, 0, 0, 0, 0, 0, 0]"

definition sample_env :: "byte list \<Rightarrow> elf_env" where
  "sample_env data = \<lparr>ev_file = Some data, ev_fstat = True, ev_mmap = Some 0x7f0000, ev_fd = 3, ev_strerror = []\<rparr>"

text \<open>A system that accepts every call and puts a mapping where it is asked for.\<close>

definition honours :: sys_answers where
  "honours log c =
     (case c of Mmap_File a n prot fx off \<Rightarrow> Some a | Mmap_Anon a n prot fx \<Rightarrow> Some a | _ \<Rightarrow> Some 0)"

text \<open>A 64-bit file with no segments and one section, the table of its own name \<open>.s\<close>.\<close>

definition sample_sections :: "byte list" where
  "sample_sections =
     [0x7f, 0x45, 0x4c, 0x46, 2, 1, 1, 0, 0, 0, 0, 0, 0, 0, 0, 0, 2, 0, 62, 0, 1, 0, 0, 0,
      0, 0, 0x40, 0, 0, 0, 0, 0, 0, 0, 0, 0, 0, 0, 0, 0, 64, 0, 0, 0, 0, 0, 0, 0,
      0, 0, 0, 0, 64, 0, 56, 0, 0, 0, 64, 0, 1, 0, 0, 0] @
     [0, 0, 0, 0, 3, 0, 0, 0, 0, 0, 0, 0, 0, 0, 0, 0, 0, 0, 0, 0, 0, 0, 0, 0, 128, 0, 0, 0, 0, 0, 0, 0,
      3, 0, 0, 0, 0, 0, 0, 0, 0, 0, 0, 0, 0, 0, 0, 0, 0, 0, 0, 0, 0, 0, 0, 0, 0, 0, 0, 0, 0, 0, 0, 0] @
     [0x2e, 0x73, 0]"

lemmas sample_elf_simps =
  sample_env_def sample_ehdr_def sample_phdr_def sample_sections_def elf_image_open_def closed_image_def EI_NIDENT_def ELFMAG_def
  check_ehdr_def ELFCLASS32_def ELFCLASS64_def sizeof_Ehdr_def struct_at_def slice_def ehdr_of_def rd_def le_val_def
  table_ok_def range_ok_def image_ehdr_def

lemma sample_section_header:
  "map_option (shdr_of 2) (struct_at sample_sections 64 64) =
    Some \<lparr>sh_name = 0, sh_type = 3, sh_flags = 0, sh_addr = 0, sh_offset = 128, sh_size = 3, sh_link = 0, sh_entsize = 0\<rparr>"
  by (simp add: shdr_of_def struct_at_def slice_def rd_def le_val_def sample_sections_def ELFCLASS32_def)

theorem elf_tables_in_file_witness:
  "let im = fst (snd (elf_image_open honours (sample_env sample_sections) ''a.out'' None))
   in \<exists>log. elf_image_open honours (sample_env sample_sections) ''a.out'' None = (0, im, None, log) \<and>
      e_shnum (snd (the (image_ehdr im))) = 1 \<and> elf_print_sections im \<noteq> None \<and> elf_print_symbols im \<noteq> None"
proof -
  let ?r = "elf_image_open honours (sample_env sample_sections) ''a.out'' None"
  let ?im = "fst (snd ?r)"
  obtain log where o: "?r = (0, ?im, None, log)" and c: "im_class ?im = 2"
    by (simp add: sample_elf_simps)
  obtain h where h: "image_ehdr ?im = Some (sample_sections, h)" "e_phentsize h = 56" "e_shentsize h = 64" "e_shnum h = 1"
      "e_shstrndx h = 0" "e_shoff h = 64"
    by (simp add: sample_elf_simps)
  have s: "image_shdr ?im 0 = Some \<lparr>sh_name = 0, sh_type = 3, sh_flags = 0, sh_addr = 0, sh_offset = 128, sh_size = 3,
      sh_link = 0, sh_entsize = 0\<rparr>"
    using h c sample_section_header by (auto simp: image_shdr_def sizeof_Shdr_def ELFCLASS32_def)
  then have "\<forall>str. image_shdr ?im (e_shstrndx h) = Some str \<longrightarrow> strtab_ok sample_sections str"
    using h(5) by (simp add: strtab_ok_def sample_sections_def)
  moreover have "symtabs_ok ?im sample_sections h" using h(4) s by (simp add: symtabs_ok_def SHT_SYMTAB_def SHT_DYNSYM_def)
  moreover have "sizeof_Phdr (im_class ?im) \<le> e_phentsize h" "sizeof_Shdr (im_class ?im) \<le> e_shentsize h"
    using c h by (simp_all add: sizeof_Phdr_def sizeof_Shdr_def ELFCLASS32_def)
  ultimately show ?thesis using elf_tables_in_file [OF o h(1)] o h(1,4) by (auto simp: Let_def)
qed

text \<open>
  The size of a table entry is only compared with zero: a file of 64 bytes whose program header
  table has one entry of size 1 in the last byte is accepted, and listing its segments reads a whole
  program header from there, 55 bytes behind the end of the file.
\<close>

theorem elf_entry_size_unchecked:
  "let (rc, im, msg, log) = elf_image_open honours (sample_env (sample_ehdr 63 1)) ''a.out'' None
   in rc = 0 \<and> im_size im = 64 \<and> elf_print_segments im = None \<and> elf_vaddr_to_offset im 0 True = None"
  by (simp add: sample_elf_simps elf_print_segments_def elf_vaddr_to_offset_def image_phdr_def rows_def sizeof_Phdr_def)

text \<open>
  The entry size of a symbol table is only compared with zero too: the last entries of a table with
  entries of one byte at the end of the file are read from behind it.
\<close>

theorem symbol_entry_size_unchecked:
  assumes "sh_entsize s = 1" "0 < sh_size s" "sh_offset s + sh_size s = length data"
  shows "range_ok (length data) (sh_offset s) (sh_size s) \<and> symbol_rows im data s str = None"
proof -
  have n: "those xs = None" if "None \<in> set xs" for xs :: "'a option list" using that by (induction xs) (auto split: option.splits)
  have "struct_at data (sh_offset s + (sh_size s - 1) * sh_entsize s) (sizeof_Sym (im_class im)) = None"
    using assms by (simp add: struct_at_def sizeof_Sym_def)
  moreover have "sh_size s - 1 < sh_size s div sh_entsize s" using assms by simp
  ultimately show ?thesis using assms(3) unfolding symbol_rows_def rows_def
    by (auto simp: range_ok_def intro!: n image_eqI [of _ _ "sh_size s - 1"])
qed

theorem symbol_entry_size_unchecked_witness:
  "symbol_rows closed_image (replicate 8 0)
     \<lparr>sh_name = 0, sh_type = 2, sh_flags = 0, sh_addr = 0, sh_offset = 0, sh_size = 8, sh_link = 0, sh_entsize = 1\<rparr>
     \<lparr>sh_name = 0, sh_type = 3, sh_flags = 0, sh_addr = 0, sh_offset = 0, sh_size = 8, sh_link = 0, sh_entsize = 0\<rparr> = None"
  using symbol_entry_size_unchecked by simp

text \<open>
  Address translation: when the program headers can be read, the translation returns for every
  address, with -1 exactly when no loadable segment holds it, and otherwise with the offset in the
  first segment that does; if that segment lies in the file and its addresses do not wrap, the
  offset is the position of the address in the segment and lies in the file.
\<close>

theorem elf_vaddr_to_offset_correct:
  assumes h: "image_ehdr im = Some (data, h)" and ph: "\<forall>i<e_phnum h. image_phdr im i = Some (ps i)"
    and sz: "im_size im \<le> 2 ^ 64"
  shows "\<exists>r. elf_vaddr_to_offset im vaddr True = Some r \<and>
    (case r of
       None \<Rightarrow> \<forall>i<e_phnum h. \<not> load_hit (ps i) vaddr
     | Some off \<Rightarrow> \<exists>i<e_phnum h. load_hit (ps i) vaddr \<and> (\<forall>j<i. \<not> load_hit (ps j) vaddr) \<and>
         (p_offset (ps i) + p_filesz (ps i) \<le> im_size im \<and> p_vaddr (ps i) + p_filesz (ps i) < 2 ^ 64 \<longrightarrow>
            off = p_offset (ps i) + (vaddr - p_vaddr (ps i)) \<and> off < im_size im))"
proof -
  let ?hit = "\<lambda>i. load_hit (the (image_phdr im i)) vaddr"
  let ?off = "\<lambda>i. wrap64 (p_offset (ps i) + (vaddr - p_vaddr (ps i)))"
  have run: "elf_vaddr_to_offset im vaddr True =
      Some (map_option (\<lambda>i. let p = the (image_phdr im i) in wrap64 (p_offset p + (vaddr - p_vaddr p))) (find ?hit [0..<e_phnum h]))"
    using h ph vaddr_loop_find [of "[0..<e_phnum h]" im vaddr] by (simp add: elf_vaddr_to_offset_def)
  show ?thesis
  proof (cases "find ?hit [0..<e_phnum h]")
    case None
    then have "\<forall>i<e_phnum h. \<not> load_hit (ps i) vaddr" using ph by (auto simp: find_None_iff)
    with run None show ?thesis by simp
  next
    case (Some i)
    then have i: "i < e_phnum h" "load_hit (ps i) vaddr" "\<forall>j<i. \<not> load_hit (ps j) vaddr"
      using ph by (auto simp: find_Some_iff)
    have "?off i = p_offset (ps i) + (vaddr - p_vaddr (ps i)) \<and> ?off i < im_size im"
      if "p_offset (ps i) + p_filesz (ps i) \<le> im_size im" "p_vaddr (ps i) + p_filesz (ps i) < 2 ^ 64"
    proof -
      have "p_offset (ps i) + (vaddr - p_vaddr (ps i)) < im_size im" using i(2) that by (simp add: load_hit_def) linarith
      with sz show ?thesis by simp
    qed
    with run Some i ph show ?thesis by (intro exI [of _ "Some (?off i)"]) (auto simp: Let_def)
  qed
qed

theorem elf_vaddr_to_offset_correct_witness:
  "let im = fst (snd (elf_image_open honours (sample_env (sample_ehdr 64 56 @ sample_phdr)) ''a.out'' None))
   in \<exists>off. elf_vaddr_to_offset im 0x400005 True = Some (Some off) \<and> off = 5"
proof -
  let ?im = "fst (snd (elf_image_open honours (sample_env (sample_ehdr 64 56 @ sample_phdr)) ''a.out'' None))"
  define p where "p = \<lparr>p_type = 1, p_offset = 0, p_vaddr = 0x400000, p_filesz = 16, p_memsz = 16, p_align = 4096, p_flags = 5\<rparr>"
  obtain data h where h: "image_ehdr ?im = Some (data, h)" "e_phnum h = 1" by (simp add: sample_elf_simps)
  have s: "im_size ?im = 120" by (simp add: sample_elf_simps)
  have "image_phdr ?im 0 = Some p"
    by (simp add: sample_elf_simps image_phdr_def sizeof_Phdr_def phdr_of_def p_def)
  then have "\<forall>i<e_phnum h. image_phdr ?im i = Some p" using h(2) by simp
  with elf_vaddr_to_offset_correct [OF h(1), where ps = "\<lambda>_. p" and vaddr = "0x400005"] s h(2) show ?thesis
    by (auto simp: Let_def p_def load_hit_def PT_LOAD_def split: option.splits)
qed

end
