(* ===== verification/Loader.thy ===== *)
theory Loader
  imports Elf_Parser
begin

text \<open>
  The static loader of \<^verbatim>\<open>loader/loader.c\<close>: the checks on a loadable segment, the system calls that
  map its file part and its zero-filled part, the list of mappings and the clean-up. The answers
  of the system are the argument \<open>os\<close>; a mapping lies at the address the system answers, which the
  code never compares with the one it asked for.
\<close>

section \<open>Data\<close>

record loader =
  ld_log :: "sys_call list"
  ld_items :: "(nat \<times> nat) list"
  ld_cap :: nat

datatype load_error =
    E_filesz | E_file_range | E_congruent | E_unaligned | E_mmap_file | E_track_file | E_mprotect
  | E_mmap_bss | E_track_bss | E_type | E_interp

definition ET_EXEC :: nat where
  "ET_EXEC = 2"

definition PT_INTERP :: nat where
  "PT_INTERP = 3"

section \<open>Operations\<close>

text \<open>\<open>mem n\<close> says whether an allocation of \<open>n\<close> bytes succeeds; a mapping record has 16 bytes.\<close>

definition add_mapping :: "(nat \<Rightarrow> bool) \<Rightarrow> nat \<Rightarrow> nat \<Rightarrow> loader \<Rightarrow> loader option" where
  "add_mapping mem addr len l =
     (let cap = (if ld_cap l \<noteq> 0 then ld_cap l * 2 else 8)
      in if length (ld_items l) = ld_cap l
         then (if mem (cap * 16) then Some (l\<lparr>ld_items := ld_items l @ [(addr, len)], ld_cap := cap\<rparr>) else None)
         else Some (l\<lparr>ld_items := ld_items l @ [(addr, len)]\<rparr>))"

definition call :: "sys_call \<Rightarrow> loader \<Rightarrow> loader" where
  "call c l = l\<lparr>ld_log := ld_log l @ [c]\<rparr>"

text \<open>\<open>munmap\<close>, whose result the code ignores.\<close>

definition do_munmap :: "sys_answers \<Rightarrow> nat \<Rightarrow> nat \<Rightarrow> loader \<Rightarrow> loader" where
  "do_munmap os a n l = call (munmap_call os a n (ld_log l)) l"

definition loader_unmap_all :: "sys_answers \<Rightarrow> loader \<Rightarrow> loader" where
  "loader_unmap_all os l =
     (fold (\<lambda>(a, n). do_munmap os a n) (rev (ld_items l)) l)\<lparr>ld_items := [], ld_cap := 0\<rparr>"

definition flags_to_prot :: "nat \<Rightarrow> nat" where
  "flags_to_prot flags =
     (if bit flags 2 then 1 else 0) + (if bit flags 1 then 2 else 0) + (if bit flags 0 then 4 else 0)"

definition phnum :: "ElfImage \<Rightarrow> nat option" where
  "phnum im = map_option (\<lambda>(data, h). e_phnum h) (image_ehdr im)"

text \<open>\<open>Some None\<close> is the return value -1.\<close>

definition get_phdr :: "ElfImage \<Rightarrow> nat \<Rightarrow> Phdr option option" where
  "get_phdr im i =
     do {
       n \<leftarrow> phnum im;
       if i \<ge> n then Some None else map_option Some (image_phdr im i)
     }"

text \<open>The loop reads the program headers in order and stops at the first interpreter entry.\<close>

fun interp_loop :: "ElfImage \<Rightarrow> nat list \<Rightarrow> bool option" where
  "interp_loop im [] = Some False"
| "interp_loop im (i # is) =
     do {
       p \<leftarrow> image_phdr im i;
       if p_type p = PT_INTERP then Some True else interp_loop im is
     }"

definition image_has_interp :: "ElfImage \<Rightarrow> bool option" where
  "image_has_interp im = do { n \<leftarrow> phnum im; interp_loop im [0..<n] }"

text \<open>\<open>v & ~(page - 1)\<close>\<close>

definition page_floor :: "nat \<Rightarrow> nat \<Rightarrow> nat" where
  "page_floor page v = nat (int v AND NOT (int page - 1))"

definition page_of :: "int \<Rightarrow> nat" where
  "page_of page_long = (if page_long > 0 then nat page_long else 4096)"

text \<open>
  The part of \<open>map_one_segment\<close> that maps bytes of the file; the other results are errors. The mapping
  is recorded, protected and unmapped at the address \<open>mapped\<close> the system answered; the bytes to be
  cleared are addressed from the segment.
\<close>

definition map_file_part ::
    "sys_answers \<Rightarrow> (nat \<Rightarrow> bool) \<Rightarrow> Phdr \<Rightarrow> bool \<Rightarrow> nat \<Rightarrow> nat \<Rightarrow> nat \<Rightarrow> loader \<Rightarrow> load_error option \<times> loader" where
  "map_file_part os mem p force_fixed map_vaddr map_offset file_total l =
     (let final_prot = flags_to_prot (p_flags p)
      in case os (ld_log l) (Mmap_File map_vaddr file_total (final_prot OR 2) force_fixed map_offset) of
           None \<Rightarrow> (Some E_mmap_file, l)
         | Some mapped \<Rightarrow>
             let l1 = call (Mmap_File mapped file_total (final_prot OR 2) force_fixed map_offset) l
             in case add_mapping mem mapped file_total l1 of
                  None \<Rightarrow> (Some E_track_file, do_munmap os mapped file_total l1)
                | Some l2 \<Rightarrow>
                    let bss_start = wrap64 (p_vaddr p + p_filesz p);
                        file_page_end = wrap64 (map_vaddr + file_total);
                        mem_end = wrap64 (p_vaddr p + p_memsz p);
                        zero_end = (if mem_end < file_page_end then mem_end else file_page_end);
                        l3 = (if p_memsz p > p_filesz p \<and> zero_end > bss_start
                              then call (Memset0 bss_start (zero_end - bss_start)) l2 else l2);
                        c2 = Mprotect mapped file_total final_prot
                    in if os (ld_log l3) c2 = None then (Some E_mprotect, l3) else (None, call c2 l3))"

definition map_anon_part ::
    "sys_answers \<Rightarrow> (nat \<Rightarrow> bool) \<Rightarrow> Phdr \<Rightarrow> bool \<Rightarrow> nat \<Rightarrow> nat \<Rightarrow> loader \<Rightarrow> load_error option \<times> loader" where
  "map_anon_part os mem p force_fixed anon_addr anon_len l =
     (let final_prot = flags_to_prot (p_flags p)
      in case os (ld_log l) (Mmap_Anon anon_addr anon_len final_prot force_fixed) of
           None \<Rightarrow> (Some E_mmap_bss, l)
         | Some mapped \<Rightarrow>
             let l1 = call (Mmap_Anon mapped anon_len final_prot force_fixed) l
             in case add_mapping mem mapped anon_len l1 of
                  None \<Rightarrow> (Some E_track_bss, do_munmap os mapped anon_len l1)
                | Some l2 \<Rightarrow> (None, l2))"

definition map_one_segment ::
    "sys_answers \<Rightarrow> (nat \<Rightarrow> bool) \<Rightarrow> int \<Rightarrow> nat \<Rightarrow> Phdr \<Rightarrow> bool \<Rightarrow> loader \<Rightarrow> load_error option \<times> loader" where
  "map_one_segment os mem page_long imsize p force_fixed l =
     (if p_filesz p > p_memsz p then (Some E_filesz, l)
      else if wrap64 (p_offset p + p_filesz p) > imsize then (Some E_file_range, l)
      else
        let page = page_of page_long;
            map_vaddr = page_floor page (p_vaddr p);
            map_offset = page_floor page (p_offset p);
            delta = p_vaddr p - map_vaddr
        in if p_offset p - map_offset \<noteq> delta then (Some E_congruent, l)
           else if map_offset mod page \<noteq> 0 then (Some E_unaligned, l)
           else
             let mem_total = mlrt_round_up (wrap64 (delta + p_memsz p)) page;
                 file_total = (if p_filesz p \<noteq> 0 then mlrt_round_up (wrap64 (delta + p_filesz p)) page else 0)
             in case (if file_total \<noteq> 0 then map_file_part os mem p force_fixed map_vaddr map_offset file_total l
                      else (None, l)) of
                  (Some e, l1) \<Rightarrow> (Some e, l1)
                | (None, l1) \<Rightarrow>
                    if mem_total > file_total
                    then map_anon_part os mem p force_fixed (wrap64 (map_vaddr + file_total)) (mem_total - file_total) l1
                    else (None, l1))"

text \<open>The loop over the program headers; a failure unmaps everything.\<close>

fun segment_loop ::
    "sys_answers \<Rightarrow> (nat \<Rightarrow> bool) \<Rightarrow> int \<Rightarrow> ElfImage \<Rightarrow> bool \<Rightarrow> nat list \<Rightarrow> loader \<Rightarrow>
     (load_error option \<times> loader) option" where
  "segment_loop os mem page_long im force_fixed [] l = Some (None, l)"
| "segment_loop os mem page_long im force_fixed (i # is) l =
     do {
       p \<leftarrow> image_phdr im i;
       if p_type p \<noteq> PT_LOAD \<or> p_memsz p = 0 then segment_loop os mem page_long im force_fixed is l
       else
         (case map_one_segment os mem page_long (im_size im) p force_fixed l of
            (Some e, l1) \<Rightarrow> Some (Some e, loader_unmap_all os l1)
          | (None, l1) \<Rightarrow> segment_loop os mem page_long im force_fixed is l1)
     }"

definition loader_map_image ::
    "sys_answers \<Rightarrow> (nat \<Rightarrow> bool) \<Rightarrow> int \<Rightarrow> ElfImage \<Rightarrow> bool \<Rightarrow> sys_call list \<Rightarrow>
     (load_error option \<times> loader) option" where
  "loader_map_image os mem page_long im force_fixed log0 =
     (let l0 = \<lparr>ld_log = log0, ld_items = [], ld_cap = 0\<rparr>
      in if im_type im \<noteq> ET_EXEC then Some (Some E_type, l0)
         else do {
           interp \<leftarrow> image_has_interp im;
           if interp then Some (Some E_interp, l0)
           else do {
             n \<leftarrow> phnum im;
             segment_loop os mem page_long im force_fixed [0..<n] l0
           }
         })"

text \<open>The build for x86-64; the other builds differ in the class and machine they accept.\<close>

definition loader_can_execute :: "ElfImage \<Rightarrow> (bool \<times> string) option" where
  "loader_can_execute im =
     (if im_type im \<noteq> ET_EXEC then Some (False, ''only ET_EXEC images can be executed'')
      else do {
        interp \<leftarrow> image_has_interp im;
        Some (if interp then (False, ''dynamic PT_INTERP images are not supported'')
              else if im_class im \<noteq> ELFCLASS64 \<or> im_machine im \<noteq> 62
              then (False, ''this build can execute only ELF64 x86-64; ELF32 mapping is supported but execution requires a 32-bit build'')
              else (True, ''supported''))
      })"

lemma get_phdr_in_loop: "phnum im = Some n \<Longrightarrow> i < n \<Longrightarrow> get_phdr im i = map_option Some (image_phdr im i)"
  by (simp add: get_phdr_def)

section \<open>Pages\<close>

lemma and_not_mask_int: "v AND NOT (mask k) = v - v mod 2 ^ k" for v :: int
proof -
  have "v AND NOT (mask k) = v AND NOT (take_bit k v)" by (rule bit_eqI) (auto simp: bit_simps)
  also have "\<dots> = v - take_bit k v"
    by (rule disjunctive_diff_eq_and_not [symmetric]) (rule bit_eqI, auto simp: bit_simps)
  finally show ?thesis by (simp add: take_bit_eq_mod)
qed

lemma page_floor_mod: "page_floor (2 ^ k) v = v - v mod 2 ^ k"
proof -
  have "int (2 ^ k) - 1 = mask k" by (simp add: mask_eq_exp_minus_1)
  then have "page_floor (2 ^ k) v = nat (int v - int v mod 2 ^ k)" by (simp only: page_floor_def and_not_mask_int)
  also have "int v - int v mod 2 ^ k = int (v - v mod 2 ^ k)"
    by (simp add: of_nat_diff zmod_int)
  finally show ?thesis by simp
qed

section \<open>Memory after a sequence of calls\<close>

text \<open>
  What the accepted calls do to the bytes of the address space: a file mapping shows the bytes of
  the file from its offset and zeros behind its end, an anonymous one zeros.
\<close>

definition in_range :: "nat \<Rightarrow> nat \<Rightarrow> nat \<Rightarrow> bool" where
  "in_range a n x \<longleftrightarrow> a \<le> x \<and> x < a + n"

fun effect :: "byte list \<Rightarrow> sys_call \<Rightarrow> (nat \<rightharpoonup> byte) \<Rightarrow> (nat \<rightharpoonup> byte)" where
  "effect file (Mmap_File a n prot fx off) m =
     (\<lambda>x. if in_range a n x then Some (if off + (x - a) < length file then file ! (off + (x - a)) else 0) else m x)"
| "effect file (Mmap_Anon a n prot fx) m = (\<lambda>x. if in_range a n x then Some 0 else m x)"
| "effect file (Mmap_Image a n) m =
     (\<lambda>x. if in_range a n x then Some (if x - a < length file then file ! (x - a) else 0) else m x)"
| "effect file (Munmap_Failed a n) m = m"
| "effect file (Open_File fd) m = m"
| "effect file (Close_File fd) m = m"
| "effect file (Munmap a n) m = (\<lambda>x. if in_range a n x then None else m x)"
| "effect file (Memset0 a n) m = (\<lambda>x. if in_range a n x then map_option (\<lambda>_. 0) (m x) else m x)"
| "effect file (Mprotect a n prot) m = m"

definition memory :: "byte list \<Rightarrow> sys_call list \<Rightarrow> (nat \<rightharpoonup> byte)" where
  "memory file log = fold (effect file) log Map.empty"

lemma memory_Nil [simp]: "memory file [] = Map.empty"
  by (simp add: memory_def)

lemma memory_append [simp]: "memory file (log @ cs) = fold (effect file) cs (memory file log)"
  by (simp add: memory_def)

lemma call_sel [simp]:
  "ld_log (call c l) = ld_log l @ [c]" "ld_items (call c l) = ld_items l" "ld_cap (call c l) = ld_cap l"
  by (simp_all add: call_def)

lemma add_mapping_sel:
  "add_mapping mem a n l = Some l' \<Longrightarrow> ld_log l' = ld_log l \<and> ld_items l' = ld_items l @ [(a, n)]"
  by (auto simp: add_mapping_def Let_def split: if_splits)

text \<open>
  The geometry of a segment: where its pages start, how many bytes of whole pages hold its file
  part and its memory, provided the sums stay inside the address space.
\<close>

definition seg_fits :: "nat \<Rightarrow> Phdr \<Rightarrow> bool" where
  "seg_fits page p \<longleftrightarrow> 0 < page \<and> p_vaddr p + p_memsz p + page \<le> 2 ^ 64 \<and> p_offset p + p_filesz p < 2 ^ 64"

definition seg_start :: "nat \<Rightarrow> Phdr \<Rightarrow> nat" where
  "seg_start page p = p_vaddr p - p_vaddr p mod page"

definition seg_delta :: "nat \<Rightarrow> Phdr \<Rightarrow> nat" where
  "seg_delta page p = p_vaddr p mod page"

definition seg_mem :: "nat \<Rightarrow> Phdr \<Rightarrow> nat" where
  "seg_mem page p = mlrt_round_up (seg_delta page p + p_memsz p) page"

definition seg_file :: "nat \<Rightarrow> Phdr \<Rightarrow> nat" where
  "seg_file page p = (if p_filesz p \<noteq> 0 then mlrt_round_up (seg_delta page p + p_filesz p) page else 0)"

lemma seg_vaddr: "p_vaddr p = seg_start page p + seg_delta page p"
  by (simp add: seg_start_def seg_delta_def)

lemma seg_bounds:
  assumes "seg_fits page p" "p_filesz p \<le> p_memsz p"
  shows "seg_delta page p + p_memsz p \<le> seg_mem page p" "seg_start page p + seg_mem page p < 2 ^ 64"
    "p_filesz p \<noteq> 0 \<Longrightarrow> seg_delta page p + p_filesz p \<le> seg_file page p" "seg_file page p \<le> seg_mem page p"
    "seg_delta page p + p_memsz p < 2 ^ 64" "seg_delta page p + p_filesz p < 2 ^ 64"
proof -
  have b: "0 < page" "seg_delta page p + p_filesz p + page \<le> 2 ^ 64" "seg_delta page p + p_memsz p + page \<le> 2 ^ 64"
    using assms seg_vaddr [of p page] by (simp_all add: seg_fits_def)
  note f = round_up_least [OF b(1,2)] and m = round_up_least [OF b(1,3)]
  show "seg_delta page p + p_memsz p \<le> seg_mem page p" using m(1) by (simp add: seg_mem_def)
  show "seg_start page p + seg_mem page p < 2 ^ 64"
    using m(2) assms(1) seg_vaddr [of p page] by (simp add: seg_mem_def seg_fits_def)
  show "p_filesz p \<noteq> 0 \<Longrightarrow> seg_delta page p + p_filesz p \<le> seg_file page p" using f(1) by (simp add: seg_file_def)
  show "seg_file page p \<le> seg_mem page p"
    using f(4) [of "mlrt_round_up (seg_delta page p + p_memsz p) page"] m(1,3) assms(2)
    by (simp add: seg_file_def seg_mem_def)
  show "seg_delta page p + p_memsz p < 2 ^ 64" "seg_delta page p + p_filesz p < 2 ^ 64" using b by linarith+
qed

text \<open>
  \<open>MAP_FIXED\<close> and \<open>MAP_FIXED_NOREPLACE\<close>, as documented: a mapping that is accepted lies at the
  address asked for.
\<close>

definition fixed_honoured :: "sys_answers \<Rightarrow> bool" where
  "fixed_honoured os \<longleftrightarrow>
     (\<forall>log a n prot fx off b.
        (os log (Mmap_File a n prot fx off) = Some b \<longrightarrow> b = a) \<and> (os log (Mmap_Anon a n prot fx) = Some b \<longrightarrow> b = a))"

lemma fixed_at:
  assumes "fixed_honoured os"
  shows "os log (Mmap_File a n prot fx off) = Some b \<Longrightarrow> b = a" "os log (Mmap_Anon a n prot fx) = Some b \<Longrightarrow> b = a"
  using assms unfolding fixed_honoured_def by blast+

text \<open>The file part: the bytes of the file in its range, zeros behind them.\<close>

lemma map_file_part_ok:
  assumes run: "map_file_part os mem p fx (seg_start page p) off (seg_file page p) l = (None, l')"
    and fits: "seg_fits page p" "p_filesz p \<le> p_memsz p" "p_filesz p \<noteq> 0" and fx: "fixed_honoured os"
    and off: "p_offset p = off + seg_delta page p" "p_offset p + p_filesz p \<le> length file"
  shows "in_range (seg_start page p) (seg_file page p) x \<Longrightarrow> p_vaddr p \<le> x \<Longrightarrow> x < p_vaddr p + p_memsz p \<Longrightarrow>
      memory file (ld_log l') x = Some (if x < p_vaddr p + p_filesz p then file ! (p_offset p + (x - p_vaddr p)) else 0)"
    and "\<not> in_range (seg_start page p) (seg_file page p) x \<Longrightarrow> memory file (ld_log l') x = memory file (ld_log l) x"
    and "ld_items l' = ld_items l @ [(seg_start page p, seg_file page p)]"
proof -
  note b = seg_bounds [OF fits(1,2)] and v = seg_vaddr [of p page]
  let ?c = "Mmap_File (seg_start page p) (seg_file page p) (flags_to_prot (p_flags p) OR 2) fx off"
  obtain l2 where l2: "add_mapping mem (seg_start page p) (seg_file page p) (call ?c l) = Some l2"
    using run fixed_at [OF fx] by (fastforce simp: map_file_part_def Let_def split: if_splits option.splits)
  have at: "os (ld_log l) ?c = Some (seg_start page p)"
    using run fixed_at [OF fx] by (fastforce simp: map_file_part_def Let_def split: option.splits)
  note a = add_mapping_sel [OF l2]
  have w: "wrap64 (p_vaddr p + p_filesz p) = p_vaddr p + p_filesz p"
    "wrap64 (seg_start page p + seg_file page p) = seg_start page p + seg_file page p"
    "wrap64 (p_vaddr p + p_memsz p) = p_vaddr p + p_memsz p"
    using fits b by (simp_all add: seg_fits_def)
  define z where "z = (if p_vaddr p + p_memsz p < seg_start page p + seg_file page p then p_vaddr p + p_memsz p
    else seg_start page p + seg_file page p)"
  define m where "m = effect file ?c (memory file (ld_log l))"
  have log: "memory file (ld_log l') =
      (if p_memsz p > p_filesz p \<and> z > p_vaddr p + p_filesz p
       then effect file (Memset0 (p_vaddr p + p_filesz p) (z - (p_vaddr p + p_filesz p))) m else m)"
    and items: "ld_items l' = ld_items l2"
    using run l2 a w at by (auto simp: map_file_part_def Let_def z_def m_def split: if_splits)
  show "ld_items l' = ld_items l @ [(seg_start page p, seg_file page p)]" using items a by simp
  show "\<not> in_range (seg_start page p) (seg_file page p) x \<Longrightarrow> memory file (ld_log l') x = memory file (ld_log l) x"
    using v by (auto simp: log m_def in_range_def z_def)
  assume x: "in_range (seg_start page p) (seg_file page p) x" "p_vaddr p \<le> x" "x < p_vaddr p + p_memsz p"
  have "off + (x - seg_start page p) = p_offset p + (x - p_vaddr p)" using x v off(1) by simp
  then have mx: "m x = Some (if p_offset p + (x - p_vaddr p) < length file then file ! (p_offset p + (x - p_vaddr p)) else 0)"
    using x(1) by (simp add: m_def)
  show "memory file (ld_log l') x = Some (if x < p_vaddr p + p_filesz p then file ! (p_offset p + (x - p_vaddr p)) else 0)"
  proof (cases "x < p_vaddr p + p_filesz p")
    case True
    then have "p_offset p + (x - p_vaddr p) < length file" using off(2) x(2) by simp
    with True mx show ?thesis by (simp add: log in_range_def)
  next
    case False
    then have "x < z" using x by (simp add: z_def in_range_def)
    with False x have "in_range (p_vaddr p + p_filesz p) (z - (p_vaddr p + p_filesz p)) x" by (simp add: in_range_def)
    with False mx \<open>x < z\<close> x show ?thesis by (simp add: log)
  qed
qed

text \<open>The anonymous part.\<close>

lemma map_anon_part_ok:
  assumes "map_anon_part os mem p fx a n l = (None, l')" "fixed_honoured os"
  shows "memory file (ld_log l') x = (if in_range a n x then Some 0 else memory file (ld_log l) x)"
    and "ld_items l' = ld_items l @ [(a, n)]"
proof -
  let ?c = "Mmap_Anon a n (flags_to_prot (p_flags p)) fx"
  have l: "add_mapping mem a n (call ?c l) = Some l'"
    using assms(1) fixed_at(2) [OF assms(2)] by (fastforce simp: map_anon_part_def Let_def split: option.splits)
  from add_mapping_sel [OF l] show "memory file (ld_log l') x = (if in_range a n x then Some 0 else memory file (ld_log l) x)"
    "ld_items l' = ld_items l @ [(a, n)]" by simp_all
qed

text \<open>\<open>map_one_segment\<close> in terms of the geometry, once its checks have passed.\<close>

lemma map_one_segment_eq:
  assumes page: "page_of page_long = 2 ^ k" and fits: "seg_fits (2 ^ k) p"
  shows "map_one_segment os mem page_long imsize p fx l =
    (if p_filesz p > p_memsz p then (Some E_filesz, l)
     else if p_offset p + p_filesz p > imsize then (Some E_file_range, l)
     else if p_offset p mod 2 ^ k \<noteq> seg_delta (2 ^ k) p then (Some E_congruent, l)
     else case (if seg_file (2 ^ k) p \<noteq> 0
                then map_file_part os mem p fx (seg_start (2 ^ k) p) (p_offset p - p_offset p mod 2 ^ k) (seg_file (2 ^ k) p) l
                else (None, l)) of
       (Some e, l1) \<Rightarrow> (Some e, l1)
     | (None, l1) \<Rightarrow>
         if seg_mem (2 ^ k) p > seg_file (2 ^ k) p
         then map_anon_part os mem p fx (seg_start (2 ^ k) p + seg_file (2 ^ k) p) (seg_mem (2 ^ k) p - seg_file (2 ^ k) p) l1
         else (None, l1))"
proof (cases "p_filesz p \<le> p_memsz p")
  case True
  let ?pg = "2 ^ k :: nat"
  note b = seg_bounds [OF fits True]
  have f: "page_floor ?pg (p_vaddr p) = seg_start ?pg p" "p_vaddr p - seg_start ?pg p = seg_delta ?pg p"
    "page_floor ?pg (p_offset p) = p_offset p - p_offset p mod ?pg"
    "p_offset p - (p_offset p - p_offset p mod ?pg) = p_offset p mod ?pg"
    "(p_offset p - p_offset p mod ?pg) mod ?pg = 0"
    "wrap64 (p_offset p + p_filesz p) = p_offset p + p_filesz p"
    using fits by (simp_all add: page_floor_mod seg_start_def seg_delta_def seg_fits_def)
  have w: "mlrt_round_up (wrap64 (seg_delta ?pg p + p_memsz p)) ?pg = seg_mem ?pg p"
    "(if p_filesz p \<noteq> 0 then mlrt_round_up (wrap64 (seg_delta ?pg p + p_filesz p)) ?pg else 0) = seg_file ?pg p"
    "wrap64 (seg_start ?pg p + seg_file ?pg p) = seg_start ?pg p + seg_file ?pg p"
    using b by (simp_all add: seg_mem_def seg_file_def)
  show ?thesis unfolding map_one_segment_def Let_def page f w using True by simp
qed (simp add: map_one_segment_def)

text \<open>The two stages of a segment that was mapped.\<close>

lemma segment_stages:
  assumes run: "map_one_segment os mem page_long (length file) p fx l = (None, l')"
    and page: "page_of page_long = 2 ^ k" and fits: "seg_fits (2 ^ k) p"
  obtains off l1 where "p_filesz p \<le> p_memsz p" "p_offset p + p_filesz p \<le> length file" "p_offset p = off + seg_delta (2 ^ k) p"
    "if p_filesz p = 0 then seg_file (2 ^ k) p = 0 \<and> l1 = l
     else map_file_part os mem p fx (seg_start (2 ^ k) p) off (seg_file (2 ^ k) p) l = (None, l1)"
    "if seg_mem (2 ^ k) p > seg_file (2 ^ k) p
     then map_anon_part os mem p fx (seg_start (2 ^ k) p + seg_file (2 ^ k) p) (seg_mem (2 ^ k) p - seg_file (2 ^ k) p) l1 = (None, l')
     else l' = l1"
proof -
  let ?st = "seg_start (2 ^ k) p" and ?fl = "seg_file (2 ^ k) p" and ?off = "p_offset p - p_offset p mod 2 ^ k"
  note eq = run [unfolded map_one_segment_eq [OF page fits]]
  have c: "p_filesz p \<le> p_memsz p" "p_offset p + p_filesz p \<le> length file" "p_offset p mod 2 ^ k = seg_delta (2 ^ k) p"
    using eq by (simp_all split: if_splits)
  have off: "p_offset p = ?off + seg_delta (2 ^ k) p" unfolding c(3) [symmetric] by simp
  obtain r l1 where l1: "(if ?fl \<noteq> 0 then map_file_part os mem p fx ?st ?off ?fl l else (None, l)) = (r, l1)"
    by (cases "if ?fl \<noteq> 0 then map_file_part os mem p fx ?st ?off ?fl l else (None, l)") auto
  have r: "r = None" using eq c l1 by (cases r) (simp_all split: if_splits)
  have "p_filesz p = 0 \<longleftrightarrow> ?fl = 0" using seg_bounds(3) [OF fits c(1)] by (cases "p_filesz p = 0") (auto simp: seg_file_def)
  then show ?thesis using that [OF c(1,2) off, of l1] eq c l1 r by (auto split: if_splits)
qed

text \<open>A segment that was mapped: contents of its range, and nothing else changed.\<close>

lemma map_one_segment_ok:
  assumes run: "map_one_segment os mem page_long (length file) p fx l = (None, l')"
    and page: "page_of page_long = 2 ^ k" and fits: "seg_fits (2 ^ k) p" and fx: "fixed_honoured os"
    and x: "p_vaddr p \<le> x" "x < p_vaddr p + p_memsz p"
  shows "memory file (ld_log l') x = Some (if x < p_vaddr p + p_filesz p then file ! (p_offset p + (x - p_vaddr p)) else 0)"
proof -
  let ?st = "seg_start (2 ^ k) p" and ?fl = "seg_file (2 ^ k) p" and ?ml = "seg_mem (2 ^ k) p"
  obtain off l1 where c: "p_filesz p \<le> p_memsz p" "p_offset p + p_filesz p \<le> length file" "p_offset p = off + seg_delta (2 ^ k) p"
    and l1: "if p_filesz p = 0 then ?fl = 0 \<and> l1 = l else map_file_part os mem p fx ?st off ?fl l = (None, l1)"
    and l': "if ?ml > ?fl then map_anon_part os mem p fx (?st + ?fl) (?ml - ?fl) l1 = (None, l') else l' = l1"
    by (rule segment_stages [OF run page fits])
  note b = seg_bounds [OF fits c(1)] and v = seg_vaddr [of p "2 ^ k"]
  have anon: "memory file (ld_log l') x = (if in_range (?st + ?fl) (?ml - ?fl) x then Some 0 else memory file (ld_log l1) x)"
    using l' map_anon_part_ok(1) [of os mem p fx "?st + ?fl" "?ml - ?fl" l1 l', OF _ fx]
    by (auto simp: in_range_def split: if_splits)
  show ?thesis
  proof (cases "in_range ?st ?fl x")
    case True
    then have n0: "p_filesz p \<noteq> 0" using l1 by (auto simp: in_range_def split: if_splits)
    have "\<not> in_range (?st + ?fl) (?ml - ?fl) x" using True by (simp add: in_range_def)
    moreover have "map_file_part os mem p fx ?st off ?fl l = (None, l1)" using l1 n0 by simp
    from map_file_part_ok(1) [OF this fits c(1) n0 fx c(3,2) True x]
    have "memory file (ld_log l1) x = Some (if x < p_vaddr p + p_filesz p then file ! (p_offset p + (x - p_vaddr p)) else 0)" .
    ultimately show ?thesis using anon by simp
  next
    case False
    then have "in_range (?st + ?fl) (?ml - ?fl) x" using x v b(1,4) by (simp add: in_range_def)
    moreover have "\<not> x < p_vaddr p + p_filesz p" using False x v b(3) by (cases "p_filesz p = 0") (auto simp: in_range_def)
    ultimately show ?thesis using anon by simp
  qed
qed

text \<open>
  \<open>MAP_FIXED_NOREPLACE\<close>: a mapping is accepted only where nothing is mapped. Then what was mapped
  before a segment is still there after it.
\<close>

definition noreplace :: "byte list \<Rightarrow> sys_answers \<Rightarrow> bool" where
  "noreplace file os \<longleftrightarrow>
     (\<forall>log a n prot off x. in_range a n x \<and> memory file log x \<noteq> None \<longrightarrow>
        os log (Mmap_File a n prot False off) = None \<and> os log (Mmap_Anon a n prot False) = None)"

lemma noreplace_free:
  assumes "noreplace file os" "memory file log x = Some v"
  shows "os log (Mmap_File a n prot False off) \<noteq> None \<Longrightarrow> \<not> in_range a n x"
    and "os log (Mmap_Anon a n prot False) \<noteq> None \<Longrightarrow> \<not> in_range a n x"
  using assms(1) [unfolded noreplace_def, rule_format, of a n x log] assms(2) by auto

lemma segment_keeps:
  assumes run: "map_one_segment os mem page_long (length file) p False l = (None, l')"
    and page: "page_of page_long = 2 ^ k" and fits: "seg_fits (2 ^ k) p" and fx: "fixed_honoured os" and nr: "noreplace file os"
    and x: "memory file (ld_log l) x = Some v"
  shows "memory file (ld_log l') x = Some v"
proof -
  let ?st = "seg_start (2 ^ k) p" and ?fl = "seg_file (2 ^ k) p" and ?ml = "seg_mem (2 ^ k) p"
  obtain off l1 where c: "p_filesz p \<le> p_memsz p" "p_offset p + p_filesz p \<le> length file" "p_offset p = off + seg_delta (2 ^ k) p"
    and l1: "if p_filesz p = 0 then ?fl = 0 \<and> l1 = l else map_file_part os mem p False ?st off ?fl l = (None, l1)"
    and l': "if ?ml > ?fl then map_anon_part os mem p False (?st + ?fl) (?ml - ?fl) l1 = (None, l') else l' = l1"
    by (rule segment_stages [OF run page fits])
  have x1: "memory file (ld_log l1) x = Some v"
  proof (cases "p_filesz p = 0")
    case False
    then have mf: "map_file_part os mem p False ?st off ?fl l = (None, l1)" using l1 by simp
    then have "os (ld_log l) (Mmap_File ?st ?fl (flags_to_prot (p_flags p) OR 2) False off) \<noteq> None"
      by (auto simp: map_file_part_def Let_def split: option.splits)
    then have "\<not> in_range ?st ?fl x" by (rule noreplace_free(1) [OF nr x])
    with map_file_part_ok(2) [OF mf fits c(1) False fx c(3,2)] x show ?thesis by simp
  qed (use l1 x in simp)
  show ?thesis
  proof (cases "?ml > ?fl")
    case True
    then have ma: "map_anon_part os mem p False (?st + ?fl) (?ml - ?fl) l1 = (None, l')" using l' by simp
    then have "os (ld_log l1) (Mmap_Anon (?st + ?fl) (?ml - ?fl) (flags_to_prot (p_flags p)) False) \<noteq> None"
      by (auto simp: map_anon_part_def Let_def split: option.splits)
    then have "\<not> in_range (?st + ?fl) (?ml - ?fl) x" by (rule noreplace_free(2) [OF nr x1])
    then show ?thesis using map_anon_part_ok(1) [OF ma fx] x1 by simp
  qed (use l' x1 in simp)
qed

text \<open>The contents a loadable segment asks for.\<close>

definition seg_loaded :: "byte list \<Rightarrow> sys_call list \<Rightarrow> Phdr \<Rightarrow> bool" where
  "seg_loaded file log p \<longleftrightarrow>
     (\<forall>x. p_vaddr p \<le> x \<and> x < p_vaddr p + p_memsz p \<longrightarrow>
        memory file log x = Some (if x < p_vaddr p + p_filesz p then file ! (p_offset p + (x - p_vaddr p)) else 0))"

lemma segment_loop_ok:
  assumes page: "page_of page_long = 2 ^ k" and fx: "fixed_honoured os" and nr: "noreplace file os" and sz: "im_size im = length file"
  shows "segment_loop os mem page_long im False is l = Some (None, l') \<Longrightarrow>
    \<forall>i\<in>set is. \<forall>p. image_phdr im i = Some p \<and> p_type p = PT_LOAD \<longrightarrow> seg_fits (2 ^ k) p \<Longrightarrow>
    (\<forall>x v. memory file (ld_log l) x = Some v \<longrightarrow> memory file (ld_log l') x = Some v) \<and>
    (\<forall>i\<in>set is. \<forall>p. image_phdr im i = Some p \<and> p_type p = PT_LOAD \<longrightarrow> seg_loaded file (ld_log l') p)"
proof (induction "is" arbitrary: l)
  case (Cons i "is")
  obtain p where p: "image_phdr im i = Some p" using Cons.prems(1) by (auto split: Option.bind_splits)
  show ?case
  proof (cases "p_type p \<noteq> PT_LOAD \<or> p_memsz p = 0")
    case True
    then have "segment_loop os mem page_long im False is l = Some (None, l')" using Cons.prems(1) p by simp
    from Cons.IH [OF this] Cons.prems(2) True p show ?thesis by (auto simp: seg_loaded_def)
  next
    case False
    then have fits: "seg_fits (2 ^ k) p" using Cons.prems(2) p by simp
    obtain l1 where l1: "map_one_segment os mem page_long (length file) p False l = (None, l1)"
      and rest: "segment_loop os mem page_long im False is l1 = Some (None, l')"
      using Cons.prems(1) p False sz by (auto split: prod.splits option.splits)
    have ih: "\<forall>x v. memory file (ld_log l1) x = Some v \<longrightarrow> memory file (ld_log l') x = Some v"
      "\<forall>i\<in>set is. \<forall>p. image_phdr im i = Some p \<and> p_type p = PT_LOAD \<longrightarrow> seg_loaded file (ld_log l') p"
      using Cons.IH [OF rest] Cons.prems(2) by simp_all
    have "seg_loaded file (ld_log l') p"
      using map_one_segment_ok [OF l1 page fits fx] ih(1) by (simp add: seg_loaded_def)
    moreover have "\<forall>x v. memory file (ld_log l) x = Some v \<longrightarrow> memory file (ld_log l') x = Some v"
      using segment_keeps [OF l1 page fits fx nr] ih(1) by blast
    ultimately show ?thesis using ih(2) p by auto
  qed
qed simp

section \<open>Clean-up\<close>

text \<open>
  An address is stuck when the system refused the \<open>munmap\<close> of a range that holds it. Every address that
  is mapped was mapped before the loader started, lies in a recorded mapping or is stuck.
\<close>

definition stuck :: "sys_answers \<Rightarrow> sys_call list \<Rightarrow> nat \<Rightarrow> bool" where
  "stuck os log x \<longleftrightarrow> (\<exists>xs a n ys. log = xs @ Munmap_Failed a n # ys \<and> os xs (Munmap a n) = None \<and> in_range a n x)"

definition tracked :: "sys_answers \<Rightarrow> byte list \<Rightarrow> sys_call list \<Rightarrow> loader \<Rightarrow> bool" where
  "tracked os file log0 l \<longleftrightarrow>
     (\<forall>x. memory file (ld_log l) x \<noteq> None \<longrightarrow>
        memory file log0 x \<noteq> None \<or> (\<exists>(a, n)\<in>set (ld_items l). in_range a n x) \<or> stuck os (ld_log l) x)"

lemma stuck_append: "stuck os log x \<Longrightarrow> stuck os (log @ cs) x"
  unfolding stuck_def by fastforce

lemma munmap_memory:
  "memory file (log @ [munmap_call os a n log]) x \<noteq> None \<Longrightarrow>
    memory file log x \<noteq> None \<and> (in_range a n x \<longrightarrow> stuck os (log @ [munmap_call os a n log]) x)"
  by (auto simp: munmap_call_def stuck_def split: if_splits)

lemma tracked_memset:
  assumes "tracked os file log0 l"
  shows "tracked os file log0 (call (Memset0 a n) l)" "tracked os file log0 (call (Mprotect a n pr) l)"
  using assms by (fastforce simp: tracked_def intro: stuck_append split: if_splits)+

lemma tracked_map:
  assumes "tracked os file log0 l" "c = Mmap_File a n pr fx off \<or> c = Mmap_Anon a n pr fx"
  shows "add_mapping mem a n (call c l) = Some l1 \<Longrightarrow> tracked os file log0 l1"
    and "tracked os file log0 (do_munmap os a n (call c l))"
proof -
  let ?log = "ld_log l @ [c]"
  have m: "in_range a n x \<or> memory file (ld_log l) x \<noteq> None" if "memory file ?log x \<noteq> None" for x
    using that assms(2) by (auto split: if_splits)
  have "memory file log0 x \<noteq> None \<or> (\<exists>(b, k)\<in>set (ld_items l). in_range b k x) \<or> stuck os (?log @ [munmap_call os a n ?log]) x"
    if "memory file (?log @ [munmap_call os a n ?log]) x \<noteq> None" for x
    using munmap_memory [OF that] m [of x] assms(1) stuck_append [of os "ld_log l" x "[c, munmap_call os a n ?log]"]
    by (auto simp: tracked_def)
  then show "tracked os file log0 (do_munmap os a n (call c l))" by (simp add: tracked_def do_munmap_def)
  assume "add_mapping mem a n (call c l) = Some l1"
  from add_mapping_sel [OF this] m assms(1) stuck_append [of os "ld_log l"] show "tracked os file log0 l1"
    by (fastforce simp: tracked_def)
qed

lemma map_file_part_tracked:
  assumes "tracked os file log0 l" "map_file_part os mem p fx a off n l = (r, l')"
  shows "tracked os file log0 l'"
proof (cases "os (ld_log l) (Mmap_File a n (flags_to_prot (p_flags p) OR 2) fx off)")
  case (Some b)
  let ?c = "Mmap_File b n (flags_to_prot (p_flags p) OR 2) fx off"
  show ?thesis
  proof (cases "add_mapping mem b n (call ?c l)")
    case None
    with assms(2) Some have "l' = do_munmap os b n (call ?c l)" by (auto simp: map_file_part_def Let_def)
    with tracked_map(2) [OF assms(1), of ?c b n] show ?thesis by auto
  next
    case Some2: (Some l1)
    then have "tracked os file log0 l1" using tracked_map(1) [OF assms(1), of ?c b n] by blast
    with assms(2) Some Some2 show ?thesis
      by (auto simp: map_file_part_def Let_def tracked_memset split: if_splits)
  qed
qed (use assms in \<open>simp add: map_file_part_def Let_def\<close>)

lemma map_anon_part_tracked:
  assumes "tracked os file log0 l" "map_anon_part os mem p fx a n l = (r, l')"
  shows "tracked os file log0 l'"
proof (cases "os (ld_log l) (Mmap_Anon a n (flags_to_prot (p_flags p)) fx)")
  case (Some b)
  let ?c = "Mmap_Anon b n (flags_to_prot (p_flags p)) fx"
  have "l' = do_munmap os b n (call ?c l) \<or> add_mapping mem b n (call ?c l) = Some l'"
    using assms(2) Some by (auto simp: map_anon_part_def Let_def split: option.splits)
  with tracked_map [OF assms(1), of ?c b n] show ?thesis by blast
qed (use assms in \<open>simp add: map_anon_part_def Let_def\<close>)

lemma map_one_segment_tracked:
  assumes "tracked os file log0 l" "map_one_segment os mem page_long sz p fx l = (r, l')"
  shows "tracked os file log0 l'"
  using assms
  by (auto simp: map_one_segment_def Let_def split: if_splits prod.splits option.splits
      intro: map_file_part_tracked map_anon_part_tracked)

lemma unmap_fold:
  assumes "memory file (ld_log (fold (\<lambda>(a, n). do_munmap os a n) xs l)) x \<noteq> None"
  shows "memory file (ld_log l) x \<noteq> None \<and>
    ((\<exists>(a, n)\<in>set xs. in_range a n x) \<or> stuck os (ld_log l) x \<longrightarrow>
       stuck os (ld_log (fold (\<lambda>(a, n). do_munmap os a n) xs l)) x)"
  using assms
proof (induction xs arbitrary: l)
  case (Cons an xs)
  obtain a n where an: "an = (a, n)" by fastforce
  let ?c = "munmap_call os a n (ld_log l)"
  have "ld_log (do_munmap os a n l) = ld_log l @ [?c]" by (simp add: do_munmap_def)
  note ih0 = Cons.IH [of "do_munmap os a n l", unfolded this]
  have ih: "memory file (ld_log l @ [?c]) x \<noteq> None"
    "(\<exists>(a, n)\<in>set xs. in_range a n x) \<or> stuck os (ld_log l @ [?c]) x \<Longrightarrow>
       stuck os (ld_log (fold (\<lambda>(a, n). do_munmap os a n) xs (do_munmap os a n l))) x"
    using ih0 Cons.prems unfolding an fold_simps o_apply prod.case by blast+
  from munmap_memory [OF ih(1)] ih(2) stuck_append [of os "ld_log l" x "[?c]"] show ?case by (auto simp: an)
qed simp

lemma unmap_all_clean:
  assumes "tracked os file log0 l" "memory file (ld_log (loader_unmap_all os l)) x \<noteq> None"
  shows "memory file log0 x \<noteq> None \<or> stuck os (ld_log (loader_unmap_all os l)) x"
  using assms unmap_fold [of "file" os "rev (ld_items l)" l x] by (auto simp: tracked_def loader_unmap_all_def)

lemma segment_loop_tracked:
  "tracked os file log0 l \<Longrightarrow> segment_loop os mem page_long im fx is l = Some (r, l') \<Longrightarrow>
    (r = None \<longrightarrow> tracked os file log0 l') \<and>
    (r \<noteq> None \<longrightarrow> ld_items l' = [] \<and>
       (\<forall>x. memory file (ld_log l') x \<noteq> None \<longrightarrow> memory file log0 x \<noteq> None \<or> stuck os (ld_log l') x))"
proof (induction "is" arbitrary: l)
  case (Cons i "is")
  obtain p where p: "image_phdr im i = Some p" using Cons.prems(2) by (auto split: Option.bind_splits)
  show ?case
  proof (cases "p_type p \<noteq> PT_LOAD \<or> p_memsz p = 0")
    case True
    then show ?thesis using Cons p by simp
  next
    case False
    obtain r1 l1 where m: "map_one_segment os mem page_long (im_size im) p fx l = (r1, l1)" by fastforce
    note t = map_one_segment_tracked [OF Cons.prems(1) m]
    show ?thesis
    proof (cases r1)
      case None
      then show ?thesis using Cons.IH [OF t] Cons.prems(2) p False m by simp
    next
      case (Some e)
      then have "r = Some e" "l' = loader_unmap_all os l1" using Cons.prems(2) p False m by simp_all
      then show ?thesis using unmap_all_clean [OF t] by (simp add: loader_unmap_all_def)
    qed
  qed
qed simp

text \<open>
  The outcome of a whole load: everything is recorded, or the list is empty and an address is mapped
  only if it was before or its \<open>munmap\<close> was refused, whatever call or allocation failed.
\<close>

lemma map_image_tracked:
  assumes run: "loader_map_image os mem page_long im force_fixed log0 = Some (r, l)"
  shows "(r = None \<longrightarrow> tracked os file log0 l) \<and>
    (r \<noteq> None \<longrightarrow> ld_items l = [] \<and>
       (\<forall>x. memory file (ld_log l) x \<noteq> None \<longrightarrow> memory file log0 x \<noteq> None \<or> stuck os (ld_log l) x))"
proof -
  let ?l0 = "\<lparr>ld_log = log0, ld_items = [], ld_cap = 0\<rparr>"
  have t: "tracked os file log0 ?l0" by (simp add: tracked_def)
  have "(r \<noteq> None \<and> l = ?l0) \<or> (\<exists>n. segment_loop os mem page_long im force_fixed [0..<n] ?l0 = Some (r, l))"
    using run by (auto simp: loader_map_image_def Let_def split: if_splits Option.bind_splits)
  with segment_loop_tracked [OF t] show ?thesis by fastforce
qed

text \<open>The loader opens and closes no file.\<close>

fun fd_call :: "sys_call \<Rightarrow> bool" where
  "fd_call (Open_File fd) \<longleftrightarrow> True"
| "fd_call (Close_File fd) \<longleftrightarrow> True"
| "fd_call _ \<longleftrightarrow> False"

definition fd_calls :: "sys_call list \<Rightarrow> sys_call list" where
  "fd_calls log = filter fd_call log"

lemma fd_calls_simps [simp]:
  "fd_calls [] = []" "fd_calls (xs @ ys) = fd_calls xs @ fd_calls ys"
  "fd_calls (c # cs) = (if fd_call c then c # fd_calls cs else fd_calls cs)" "fd_call (munmap_call os a n log) \<longleftrightarrow> False"
  by (simp_all add: fd_calls_def munmap_call_def)

lemma do_munmap_fd [simp]: "fd_calls (ld_log (do_munmap os a n l)) = fd_calls (ld_log l)"
  by (simp add: do_munmap_def)

lemma unmap_all_fd [simp]: "fd_calls (ld_log (loader_unmap_all os l)) = fd_calls (ld_log l)"
proof -
  have "fd_calls (ld_log (fold (\<lambda>(a, n). do_munmap os a n) xs l)) = fd_calls (ld_log l)" for xs
    by (induction xs arbitrary: l) auto
  then show ?thesis by (simp add: loader_unmap_all_def)
qed

lemma map_part_fd:
  "map_file_part os mem p fx a off n l = (r, l') \<Longrightarrow> fd_calls (ld_log l') = fd_calls (ld_log l)"
  "map_anon_part os mem p fx a n l = (r, l') \<Longrightarrow> fd_calls (ld_log l') = fd_calls (ld_log l)"
  by (auto simp: map_file_part_def map_anon_part_def Let_def dest!: add_mapping_sel split: option.splits if_splits)

lemma map_one_segment_fd:
  "map_one_segment os mem page_long sz p fx l = (r, l') \<Longrightarrow> fd_calls (ld_log l') = fd_calls (ld_log l)"
  by (auto simp: map_one_segment_def Let_def dest!: map_part_fd split: if_splits prod.splits option.splits)

lemma segment_loop_fd:
  "segment_loop os mem page_long im fx is l = Some (r, l') \<Longrightarrow> fd_calls (ld_log l') = fd_calls (ld_log l)"
  by (induction "is" arbitrary: l)
    (auto dest!: map_one_segment_fd split: Option.bind_splits if_splits prod.splits option.splits)

lemma map_image_fd:
  "loader_map_image os mem page_long im fx log0 = Some (r, l) \<Longrightarrow> fd_calls (ld_log l) = fd_calls log0"
  by (auto simp: loader_map_image_def Let_def dest!: segment_loop_fd split: if_splits Option.bind_splits)

section \<open>Properties\<close>

text \<open>
  C36. Loading: when \<open>loader_map_image\<close> returns 0 without forced mappings, on a system whose page size
  is a power of two and whose \<open>MAP_FIXED_NOREPLACE\<close> works as documented (an accepted mapping lies at the
  address asked for and never over an existing one), and the addresses and file offsets of the loadable
  segments fit in 64 bits, then every loadable segment is in memory: its file bytes at its addresses,
  zeros from there to its memory size, also after the segments that were mapped later.
\<close>

theorem loader_maps_segments:
  assumes run: "loader_map_image os mem page_long im False log0 = Some (None, l)"
    and im: "im_size im = length file" "phnum im = Some n" and page: "page_of page_long = 2 ^ k"
    and fx: "fixed_honoured os" and nr: "noreplace file os"
    and fits: "\<forall>i<n. \<forall>p. image_phdr im i = Some p \<and> p_type p = PT_LOAD \<longrightarrow> seg_fits (2 ^ k) p"
  shows "\<forall>i<n. \<forall>p. image_phdr im i = Some p \<and> p_type p = PT_LOAD \<longrightarrow> seg_loaded file (ld_log l) p"
proof -
  have "segment_loop os mem page_long im False [0..<n] \<lparr>ld_log = log0, ld_items = [], ld_cap = 0\<rparr> = Some (None, l)"
    using run im(2) by (auto simp: loader_map_image_def Let_def split: if_splits Option.bind_splits)
  from segment_loop_ok [OF page fx nr im(1) this] fits show ?thesis by simp
qed

definition sample_image :: ElfImage where
  "sample_image = fst (snd (elf_image_open honours (sample_env (sample_ehdr 64 56 @ sample_phdr)) ''a.out'' None))"

definition sample_segment :: Phdr where
  "sample_segment =
     \<lparr>p_type = 1, p_offset = 0, p_vaddr = 0x400000, p_filesz = 16, p_memsz = 16, p_align = 4096, p_flags = 5\<rparr>"

lemma sample_image_facts:
  "image_phdr sample_image 0 = Some sample_segment" "phnum sample_image = Some 1" "im_type sample_image = ET_EXEC"
  "im_size sample_image = length (sample_ehdr 64 56 @ sample_phdr)"
  by (simp_all add: sample_image_def sample_segment_def sample_elf_simps image_phdr_def sizeof_Phdr_def phdr_of_def
      phnum_def ET_EXEC_def)

lemma page_floor_4096: "page_floor 4096 v = v - v mod 4096"
  using page_floor_mod [of 12 v] by simp

lemma sample_run:
  "loader_map_image os mem 4096 sample_image fx log0 =
    (case map_one_segment os mem 4096 120 sample_segment fx \<lparr>ld_log = log0, ld_items = [], ld_cap = 0\<rparr> of
       (Some e, l1) \<Rightarrow> Some (Some e, loader_unmap_all os l1) | (None, l1) \<Rightarrow> Some (None, l1))"
proof -
  have i: "image_has_interp sample_image = Some False"
    by (simp add: image_has_interp_def sample_image_facts PT_INTERP_def sample_segment_def)
  have sz: "im_size sample_image = 120" by (simp add: sample_image_facts sample_ehdr_def sample_phdr_def)
  have "p_type sample_segment = PT_LOAD" "p_memsz sample_segment \<noteq> 0" by (simp_all add: sample_segment_def PT_LOAD_def)
  then show ?thesis
    by (simp add: loader_map_image_def i sz sample_image_facts(1-3) split: prod.split option.split)
qed

lemmas sample_load_simps =
  sample_run map_one_segment_def sample_segment_def page_of_def page_floor_4096 mlrt_round_up_def
  map_file_part_def add_mapping_def call_def Let_def

theorem loader_maps_segments_witness:
  "let os = (\<lambda>log c. if log = [] then honours log c else case c of Mprotect a n prot \<Rightarrow> Some 0 | _ \<Rightarrow> None);
       file = sample_ehdr 64 56 @ sample_phdr
   in \<exists>l. loader_map_image os (\<lambda>_. True) 4096 sample_image False [] = Some (None, l) \<and> seg_loaded file (ld_log l) sample_segment"
proof -
  let ?os = "\<lambda>log c. if log = [] then honours log c else case c of Mprotect a n prot \<Rightarrow> Some 0 | _ \<Rightarrow> None"
  let ?file = "sample_ehdr 64 56 @ sample_phdr"
  have nr: "noreplace ?file ?os" by (auto simp: noreplace_def)
  have fx: "fixed_honoured ?os" by (simp add: fixed_honoured_def honours_def)
  have pg: "page_of 4096 = 2 ^ 12" by (simp add: page_of_def)
  obtain l where run: "loader_map_image ?os (\<lambda>_. True) 4096 sample_image False [] = Some (None, l)"
    by (simp add: sample_load_simps honours_def)
  have "\<forall>i<1. \<forall>p. image_phdr sample_image i = Some p \<and> p_type p = PT_LOAD \<longrightarrow> seg_fits (2 ^ 12) p"
    by (simp add: sample_image_facts seg_fits_def sample_segment_def)
  from loader_maps_segments [OF run sample_image_facts(4,2) pg fx nr this] run show ?thesis
    by (auto simp: Let_def sample_image_facts sample_segment_def PT_LOAD_def)
qed

text \<open>
  The address a mapping got is never compared with the one asked for: on a system that takes the
  address as a hint only, as kernels do that do not know \<open>MAP_FIXED_NOREPLACE\<close>, the load is
  reported as successful although the segment is not at its address.
\<close>

theorem loader_address_unchecked:
  "let os = (\<lambda>log c. case c of Mmap_File a n prot fx off \<Rightarrow> Some 0x700000 | _ \<Rightarrow> Some 0)
   in \<exists>l. loader_map_image os (\<lambda>_. True) 4096 sample_image False [] = Some (None, l) \<and>
      memory (sample_ehdr 64 56 @ sample_phdr) (ld_log l) (p_vaddr sample_segment) = None"
  by (simp add: sample_load_simps in_range_def memory_def)

text \<open>
  The size checks wrap: a segment that claims almost the whole address space, far beyond the end
  of the file, passes the test on the file range, its page counts wrap to zero, and it is reported as
  mapped although no system call was made.
\<close>

theorem loader_size_wraps:
  assumes "4095 \<le> imsize" "p_offset p = 4096" "p_vaddr p = 4096" "p_filesz p = 2 ^ 64 - 1" "p_memsz p = 2 ^ 64 - 1"
  shows "map_one_segment os mem 4096 imsize p force_fixed l = (None, l) \<and> p_offset p + p_filesz p > 2 ^ 64"
  using assms
  by (simp add: map_one_segment_def page_of_def page_floor_4096 mlrt_round_up_def wrap64_def)

theorem loader_size_wraps_witness:
  "map_one_segment honours (\<lambda>_. True) 4096 5000
     \<lparr>p_type = 1, p_offset = 4096, p_vaddr = 4096, p_filesz = 2 ^ 64 - 1, p_memsz = 2 ^ 64 - 1, p_align = 4096, p_flags = 5\<rparr>
     False \<lparr>ld_log = [], ld_items = [], ld_cap = 0\<rparr> = (None, \<lparr>ld_log = [], ld_items = [], ld_cap = 0\<rparr>)"
  using loader_size_wraps [of 5000
     "\<lparr>p_type = 1, p_offset = 4096, p_vaddr = 4096, p_filesz = 2 ^ 64 - 1, p_memsz = 2 ^ 64 - 1, p_align = 4096, p_flags = 5\<rparr>"]
  by simp

end
