(* ===== verification/Elf_Tools.thy ===== *)
theory Elf_Tools
  imports Loader
begin

text \<open>
  The two command lines over ELF images: \<^verbatim>\<open>mlrt elf\<close> of \<^verbatim>\<open>elf/elf_inspector.c\<close> and
  \<^verbatim>\<open>mlrt load\<close> of \<^verbatim>\<open>loader/main.c\<close>. \<open>argv\<close> is the argument vector with the program name; what
  is printed is the list of the tables in their order, followed in the result by the log of system
  calls. \<open>None\<close> is a read outside the image.
\<close>

section \<open>Inspector\<close>

record elf_opts =
  eo_header :: bool
  eo_sections :: bool
  eo_segments :: bool
  eo_symbols :: bool
  eo_map :: bool
  eo_requested :: bool
  eo_vaddr :: "nat option"

definition no_opts :: elf_opts where
  "no_opts = \<lparr>eo_header = False, eo_sections = False, eo_segments = False, eo_symbols = False, eo_map = False,
             eo_requested = False, eo_vaddr = None\<rparr>"

definition all_tables :: "elf_opts \<Rightarrow> elf_opts" where
  "all_tables o1 =
     o1\<lparr>eo_header := True, eo_sections := True, eo_segments := True, eo_symbols := True, eo_map := True\<rparr>"

text \<open>The option loop; \<open>None\<close> is the exit with code 2.\<close>

fun elf_options :: "string list \<Rightarrow> elf_opts \<Rightarrow> elf_opts option" where
  "elf_options [] o1 = Some o1"
| "elf_options (a # args) o1 =
     (if a = ''--header'' then elf_options args (o1\<lparr>eo_header := True, eo_requested := True\<rparr>)
      else if a = ''--sections'' then elf_options args (o1\<lparr>eo_sections := True, eo_requested := True\<rparr>)
      else if a = ''--segments'' then elf_options args (o1\<lparr>eo_segments := True, eo_requested := True\<rparr>)
      else if a = ''--symbols'' then elf_options args (o1\<lparr>eo_symbols := True, eo_requested := True\<rparr>)
      else if a = ''--map'' then elf_options args (o1\<lparr>eo_map := True, eo_requested := True\<rparr>)
      else if a = ''--all'' then elf_options args ((all_tables o1)\<lparr>eo_requested := True\<rparr>)
      else
        (case args of
           v # rest \<Rightarrow>
             if a = ''--vaddr'' then
               (case mlrt_parse_u64 (Some v) True of
                  None \<Rightarrow> None
                | Some n \<Rightarrow> elf_options rest (o1\<lparr>eo_vaddr := Some n, eo_requested := True\<rparr>))
             else None
         | [] \<Rightarrow> None))"

datatype elf_out =
    Out_Header header_row
  | Out_Sections "(nat \<times> string \<times> string \<times> Shdr \<times> string) list"
  | Out_Segments "(nat \<times> string \<times> Phdr \<times> string) list"
  | Out_Symbols "(nat \<times> nat \<times> (nat \<times> Sym \<times> string \<times> string \<times> string) list) list"
  | Out_Map "(Phdr \<times> string \<times> nat) list"
  | Out_Vaddr nat "nat option"
  | Out_Error "string option"

definition when_out :: "bool \<Rightarrow> elf_out option \<Rightarrow> elf_out list option" where
  "when_out b r = (if b then map_option (\<lambda>x. [x]) r else Some [])"

definition elf_cli_main ::
    "sys_answers \<Rightarrow> (string \<Rightarrow> elf_env) \<Rightarrow> string list \<Rightarrow> (int \<times> elf_out list \<times> sys_call list) option" where
  "elf_cli_main os env argv =
     (if length argv < 2 then Some (2, [], [])
      else
        (case elf_options (drop 2 argv) no_opts of
           None \<Rightarrow> Some (2, [], [])
         | Some o1 \<Rightarrow>
             let o2 = (if eo_requested o1 then o1 else all_tables o1);
                 (rc, im, err, log) = elf_image_open os (env (argv ! 1)) (argv ! 1) (Some 256)
             in if rc \<noteq> 0 then Some (1, [Out_Error err], log)
                else do {
                  a \<leftarrow> when_out (eo_header o2) (map_option Out_Header (elf_print_header im));
                  b \<leftarrow> when_out (eo_sections o2) (map_option Out_Sections (elf_print_sections im));
                  c \<leftarrow> when_out (eo_segments o2) (map_option Out_Segments (elf_print_segments im));
                  d \<leftarrow> when_out (eo_symbols o2) (map_option Out_Symbols (elf_print_symbols im));
                  e \<leftarrow> when_out (eo_map o2) (map_option Out_Map (elf_print_memory_map im));
                  f \<leftarrow> (case eo_vaddr o2 of
                          None \<Rightarrow> Some []
                        | Some v \<Rightarrow> when_out True (map_option (Out_Vaddr v) (elf_vaddr_to_offset im v True)));
                  Some (0, a @ b @ c @ d @ e @ f, snd (elf_image_close os im log))
                }))"

section \<open>Loader command\<close>

record load_opts =
  lo_map :: bool
  lo_execute :: bool
  lo_force :: bool

fun load_options :: "string list \<Rightarrow> load_opts \<Rightarrow> load_opts option" where
  "load_options [] o1 = Some o1"
| "load_options (a # args) o1 =
     (if a = ''--map'' then load_options args (o1\<lparr>lo_map := True\<rparr>)
      else if a = ''--execute'' then load_options args (o1\<lparr>lo_map := True, lo_execute := True\<rparr>)
      else if a = ''--force-fixed'' then load_options args (o1\<lparr>lo_force := True\<rparr>)
      else None)"

datatype load_out =
    Lo_Header header_row | Lo_Plan "(Phdr \<times> string \<times> nat) list" | Lo_Mapped nat nat | Lo_Refused string
  | Lo_Jump nat | Lo_Failed load_error | Lo_Open_Error "string option"

text \<open>
  The result: exit code, what happened in order, and the log of system calls. \<open>Lo_Jump\<close> is the
  call of the entry point; what the loaded program does is not part of the model, and the lines
  behind it are those that run when it returns with the mappings as they were.
\<close>

definition loader_cli_main ::
    "sys_answers \<Rightarrow> (nat \<Rightarrow> bool) \<Rightarrow> int \<Rightarrow> (string \<Rightarrow> elf_env) \<Rightarrow> string list \<Rightarrow>
     (int \<times> load_out list \<times> sys_call list) option" where
  "loader_cli_main os mem page_long env argv =
     (if length argv < 2 then Some (2, [], [])
      else
        (case load_options (drop 2 argv) \<lparr>lo_map = False, lo_execute = False, lo_force = False\<rparr> of
           None \<Rightarrow> Some (2, [], [])
         | Some o1 \<Rightarrow>
             let (rc, im, err, log) = elf_image_open os (env (argv ! 1)) (argv ! 1) (Some 256)
             in if rc \<noteq> 0 then Some (1, [Lo_Open_Error err], log)
                else do {
                  h \<leftarrow> elf_print_header im;
                  plan \<leftarrow> elf_print_memory_map im;
                  if \<not> lo_map o1 then Some (0, [Lo_Header h, Lo_Plan plan], snd (elf_image_close os im log))
                  else do {
                    (r, l) \<leftarrow> loader_map_image os mem page_long im (lo_force o1) log;
                    case r of
                      Some e \<Rightarrow>
                        Some (1, [Lo_Header h, Lo_Plan plan, Lo_Failed e], snd (elf_image_close os im (ld_log l)))
                    | None \<Rightarrow>
                        let out = [Lo_Header h, Lo_Plan plan, Lo_Mapped (length (ld_items l)) (im_entry im)]
                        in if \<not> lo_execute o1
                           then Some (0, out, snd (elf_image_close os im (ld_log (loader_unmap_all os l))))
                           else do {
                             (ok, reason) \<leftarrow> loader_can_execute im;
                             if \<not> ok
                             then Some (1, out @ [Lo_Refused reason],
                                        snd (elf_image_close os im (ld_log (loader_unmap_all os l))))
                             else Some (0, out @ [Lo_Jump (im_entry im)],
                                        snd (elf_image_close os im (ld_log (loader_unmap_all os l))))
                           }
                  }
                }))"

section \<open>What is left behind\<close>

text \<open>
  Only addresses whose \<open>munmap\<close> the system refused are still mapped, and the file, if it was opened,
  was closed once.
\<close>

definition released :: "sys_answers \<Rightarrow> byte list \<Rightarrow> sys_call list \<Rightarrow> bool" where
  "released os file log \<longleftrightarrow>
     (\<forall>x. memory file log x \<noteq> None \<longrightarrow> stuck os log x) \<and>
     (fd_calls log = [] \<or> (\<exists>fd. fd_calls log = [Open_File fd, Close_File fd]))"

lemma released_Nil [simp]: "released os file []"
  by (simp add: released_def)

lemma munmap_image_released:
  assumes keep: "\<And>x. memory file log x \<noteq> None \<Longrightarrow> in_range a n x \<or> stuck os log x" and fd: "fd_calls log = [Open_File fd]"
  shows "released os file (log @ [munmap_call os a n log, Close_File fd])"
proof -
  let ?c = "munmap_call os a n log"
  have "stuck os (log @ [?c, Close_File fd]) x" if "memory file (log @ [?c, Close_File fd]) x \<noteq> None" for x
  proof -
    have "memory file (log @ [?c]) x \<noteq> None" using that by simp
    from munmap_memory [OF this] keep [of x] have "stuck os (log @ [?c]) x" using stuck_append [of os log x "[?c]"] by blast
    then show ?thesis using stuck_append [of os "log @ [?c]" x "[Close_File fd]"] by simp
  qed
  then show ?thesis using fd by (simp add: released_def)
qed

text \<open>Closing an opened image, when in between mappings were only added and given back.\<close>

lemma image_closed:
  assumes op: "elf_image_open os env path err_size = (0, im, msg, log0)"
    and keep: "\<And>x. memory file log x \<noteq> None \<Longrightarrow> memory file log0 x \<noteq> None \<or> stuck os log x"
    and fd: "fd_calls log = fd_calls log0"
  shows "released os file (snd (elf_image_close os im log))"
proof -
  obtain data where im: "im_data im = Some data" "im_fd im = int (ev_fd env)"
    "log0 = [Open_File (im_fd im), Mmap_Image (im_addr im) (im_size im)]"
    by (rule elf_open_ok [OF op]) blast
  have "in_range (im_addr im) (im_size im) x \<or> stuck os log x" if "memory file log x \<noteq> None" for x
    using keep [OF that] im(3) by (auto simp: memory_def split: if_splits)
  moreover have "fd_calls log = [Open_File (int (ev_fd env))]" using fd im by simp
  ultimately show ?thesis
    using munmap_image_released [of "file" log "im_addr im" "im_size im" os] by (simp add: elf_image_close_eq [OF im(1,2)])
qed

lemma open_failed_released:
  assumes "elf_image_open os env path err_size = (rc, im, msg, log)" "rc \<noteq> 0"
  shows "released os file log"
  using assms
proof (rule elf_open_fail)
  fix a n assume log: "log = [Open_File (int (ev_fd env)), Mmap_Image a n,
    munmap_call os a n [Open_File (int (ev_fd env)), Mmap_Image a n], Close_File (int (ev_fd env))]"
  have "in_range a n x \<or> stuck os [Open_File (int (ev_fd env)), Mmap_Image a n] x"
    if "memory file [Open_File (int (ev_fd env)), Mmap_Image a n] x \<noteq> None" for x
    using that by (simp add: memory_def split: if_splits)
  from munmap_image_released [OF this] log show ?thesis by simp
qed (simp_all add: released_def memory_def)

lemma load_closed:
  assumes op: "elf_image_open os env path err_size = (0, im, msg, log0)"
    and run: "loader_map_image os mem page_long im fx log0 = Some (r, l)"
  shows "r \<noteq> None \<Longrightarrow> released os file (snd (elf_image_close os im (ld_log l)))"
    and "r = None \<Longrightarrow> released os file (snd (elf_image_close os im (ld_log (loader_unmap_all os l))))"
proof -
  note t = map_image_tracked [OF run, of "file"] and fd = map_image_fd [OF run]
  show "r \<noteq> None \<Longrightarrow> released os file (snd (elf_image_close os im (ld_log l)))"
    by (rule image_closed [OF op _ fd]) (use t in blast)
  assume "r = None"
  then have "tracked os file log0 l" using t by blast
  from unmap_all_clean [OF this] show "released os file (snd (elf_image_close os im (ld_log (loader_unmap_all os l))))"
    by (rule image_closed [OF op]) (simp_all add: fd)
qed

text \<open>The inspector gives everything back too.\<close>

theorem elf_cli_leaves_nothing:
  assumes "elf_cli_main os env argv = Some (rc, out, log)"
  shows "released os file log"
proof -
  obtain rc0 im err log0 where op: "elf_image_open os (env (argv ! 1)) (argv ! 1) (Some 256) = (rc0, im, err, log0)"
    by (cases "elf_image_open os (env (argv ! 1)) (argv ! 1) (Some 256)") blast
  have "log = [] \<or> rc0 \<noteq> 0 \<and> log = log0 \<or> rc0 = 0 \<and> log = snd (elf_image_close os im log0)"
    using assms op by (auto simp: elf_cli_main_def Let_def split: if_splits option.splits Option.bind_splits)
  then show ?thesis using op open_failed_released [of os _ _ _ rc0 im err log0 "file"] image_closed [of os _ _ _ im err log0 "file" log0] by auto
qed

theorem elf_cli_leaves_nothing_witness:
  "\<exists>out log. elf_cli_main honours (\<lambda>_. sample_env sample_sections) [''elf'', ''a.out'', ''--header''] = Some (0, out, log) \<and>
     length log = 4 \<and> released honours sample_sections log"
proof -
  obtain out log where run: "elf_cli_main honours (\<lambda>_. sample_env sample_sections) [''elf'', ''a.out'', ''--header''] = Some (0, out, log)"
      "length log = 4"
    by (simp add: elf_cli_main_def no_opts_def when_out_def elf_print_header_def elf_image_close_def sample_elf_simps)
  with elf_cli_leaves_nothing [OF run(1)] show ?thesis by blast
qed

section \<open>Properties\<close>

text \<open>
  C37. \<open>mlrt load\<close> cleans up: for every file, every combination of options, every answer of the system
  and every failing allocation, when the command returns the file it opened is closed, and an address of
  the image or of a segment is still mapped only if the system refused the \<open>munmap\<close> of a range that
  holds it; so nothing is left on a system that refuses none. This holds whether the command failed to open the
  image, only printed the plan, mapped the image, refused to execute it or failed on the way.
\<close>

theorem loader_cli_leaves_nothing:
  assumes "loader_cli_main os mem page_long env argv = Some (rc, out, log)"
  shows "(\<forall>x. memory file log x \<noteq> None \<longrightarrow>
      (\<exists>xs a n ys. log = xs @ Munmap_Failed a n # ys \<and> os xs (Munmap a n) = None \<and> in_range a n x)) \<and>
    ((\<forall>xs a n. os xs (Munmap a n) \<noteq> None) \<longrightarrow> (\<forall>x. memory file log x = None)) \<and>
    (fd_calls log = [] \<or> (\<exists>fd. fd_calls log = [Open_File fd, Close_File fd]))"
proof -
  obtain rc0 im err log0 where op: "elf_image_open os (env (argv ! 1)) (argv ! 1) (Some 256) = (rc0, im, err, log0)"
    by (cases "elf_image_open os (env (argv ! 1)) (argv ! 1) (Some 256)") blast
  consider "log = []" | "rc0 \<noteq> 0" "log = log0" | "rc0 = 0" "log = snd (elf_image_close os im log0)"
    | r l fx where "rc0 = 0" "loader_map_image os mem page_long im fx log0 = Some (r, l)"
        "log = snd (elf_image_close os im (ld_log (if r = None then loader_unmap_all os l else l)))"
    using assms op
    by (auto simp: loader_cli_main_def Let_def split: if_splits option.splits Option.bind_splits prod.splits)
  then have "released os file log"
  proof cases
    case 2 then show ?thesis using open_failed_released op by blast
  next
    case 3 then show ?thesis using image_closed [of os _ _ _ im err log0 "file" log0] op by blast
  next
    case (4 r l fx)
    then show ?thesis using load_closed [OF op [unfolded 4(1)] 4(2), of "file"] by (cases "r = None") simp_all
  qed simp
  then show ?thesis unfolding released_def stuck_def by blast
qed

theorem loader_cli_leaves_nothing_witness:
  "let file = sample_ehdr 64 56 @ sample_phdr
   in \<exists>out log. loader_cli_main honours (\<lambda>_. True) 4096 (\<lambda>_. sample_env file) [''load'', ''a.out'', ''--map''] = Some (0, out, log) \<and>
      length log = 7 \<and> (\<forall>x. memory file log x = None)"
proof -
  let ?file = "sample_ehdr 64 56 @ sample_phdr"
  have sz: "im_size sample_image = 120" by (simp add: sample_image_facts sample_ehdr_def sample_phdr_def)
  obtain log0 where o: "elf_image_open honours (sample_env ?file) ''a.out'' (Some 256) = (0, sample_image, None, log0)"
      "length log0 = 2" "im_data sample_image \<noteq> None" "im_fd sample_image \<ge> 0"
    by (simp add: sample_image_def sample_elf_simps)
  obtain h plan where "elf_print_header sample_image = Some h" "elf_print_memory_map sample_image = Some plan"
    using sample_image_facts(1,2)
    by (auto simp: elf_print_header_def elf_print_memory_map_def phnum_def rows_def sample_segment_def PT_LOAD_def)
  moreover obtain l where "loader_map_image honours (\<lambda>_. True) 4096 sample_image False log0 = Some (None, l)"
      "length (ld_log l) = 4" "length (ld_items l) = 1"
    using o(2) by (simp add: sample_load_simps honours_def)
  moreover from this(3) obtain a n where "ld_items l = [(a, n)]" by (auto simp: length_Suc_conv)
  ultimately obtain out log where run: "loader_cli_main honours (\<lambda>_. True) 4096 (\<lambda>_. sample_env ?file) [''load'', ''a.out'', ''--map''] = Some (0, out, log)"
      "length log = 7"
    using o by (simp add: loader_cli_main_def Let_def loader_unmap_all_def elf_image_close_def do_munmap_def)
  have "\<forall>xs a n. honours xs (Munmap a n) \<noteq> None" by (simp add: honours_def)
  with loader_cli_leaves_nothing [OF run(1), of ?file] run show ?thesis unfolding Let_def by blast
qed

end
