(* ===== verification/Virtual_Uart.thy ===== *)
theory Virtual_Uart
  imports Embedded_Protocol C_Strings
begin

unbundle bit_operations_syntax

text \<open>
  The virtual serial line of \<^verbatim>\<open>serial/virtual_uart.c\<close>: opening a pair of pseudo terminals, and the
  demonstration in which a child process answers a status request over it. In raw mode the pair
  passes bytes on unchanged. The log records the descriptors the parent opens and closes.
\<close>

section \<open>Opening and closing\<close>

datatype uart_event = U_open int | U_close int | U_kill | U_wait

record mlrt_virtual_uart =
  ua_master :: int
  ua_slave :: int
  ua_path :: string

text \<open>
  The terminal settings, with the values Linux gives to the flags. \<open>cfmakeraw\<close> is the function of the
  C library: no conversion of input or output, no echo, no line editing, no signals, eight bits.
\<close>

record termios =
  c_iflag :: u32
  c_oflag :: u32
  c_cflag :: u32
  c_lflag :: u32
  c_vmin :: byte
  c_vtime :: byte

definition cfmakeraw :: "termios \<Rightarrow> termios" where
  "cfmakeraw t = t\<lparr>
     c_iflag := c_iflag t AND NOT (0x1 OR 0x2 OR 0x8 OR 0x20 OR 0x40 OR 0x80 OR 0x100 OR 0x400),
     c_oflag := c_oflag t AND NOT 0x1,
     c_lflag := c_lflag t AND NOT (0x8 OR 0x40 OR 0x2 OR 0x1 OR 0x8000),
     c_cflag := (c_cflag t AND NOT (0x30 OR 0x100)) OR 0x30,
     c_vmin := 1, c_vtime := 0\<rparr>"

definition CLOCAL :: u32 where "CLOCAL = 0x800"
definition CREAD :: u32 where "CREAD = 0x80"

text \<open>What the system answers: descriptors (negative on failure), and whether the other calls succeed.\<close>

record uart_os =
  uo_openpt :: int
  uo_grant :: bool
  uo_unlock :: bool
  uo_ptsname :: "string option"
  uo_open :: "string \<Rightarrow> int"
  uo_getattr :: "int \<Rightarrow> termios option"
  uo_setattr :: "int \<Rightarrow> termios \<Rightarrow> bool"

text \<open>The settings in force afterwards; \<open>None\<close> is the return value -1.\<close>

definition set_raw :: "uart_os \<Rightarrow> int \<Rightarrow> termios option" where
  "set_raw os fd =
     (case uo_getattr os fd of
        None \<Rightarrow> None
      | Some t0 \<Rightarrow>
          let t1 = cfmakeraw t0;
              t2 = t1\<lparr>c_cflag := c_cflag t1 OR (CLOCAL OR CREAD)\<rparr>
          in if uo_setattr os fd t2 then Some t2 else None)"

definition uart_cleared :: mlrt_virtual_uart where
  "uart_cleared = \<lparr>ua_master = -1, ua_slave = -1, ua_path = []\<rparr>"

text \<open>\<open>None\<close> is a null pointer. The result: return value, structure, log.\<close>

definition mlrt_virtual_uart_open ::
    "uart_os \<Rightarrow> mlrt_virtual_uart option \<Rightarrow> int \<times> mlrt_virtual_uart option \<times> uart_event list" where
  "mlrt_virtual_uart_open os uart =
     (case uart of
        None \<Rightarrow> (-1, None, [])
      | Some _ \<Rightarrow>
          let master = uo_openpt os
          in if master < 0 then (-1, Some uart_cleared, [])
             else if \<not> uo_grant os \<or> \<not> uo_unlock os then (-1, Some uart_cleared, [U_open master, U_close master])
             else
               (case uo_ptsname os of
                  None \<Rightarrow> (-1, Some uart_cleared, [U_open master, U_close master])
                | Some path \<Rightarrow>
                    let slave = uo_open os path
                    in if slave < 0 then (-1, Some uart_cleared, [U_open master, U_close master])
                       else if set_raw os master = None \<or> set_raw os slave = None
                       then (-1, Some uart_cleared, [U_open master, U_open slave, U_close slave, U_close master])
                       else (0, Some \<lparr>ua_master = master, ua_slave = slave, ua_path = take 127 path\<rparr>,
                             [U_open master, U_open slave])))"

definition mlrt_virtual_uart_close :: "mlrt_virtual_uart option \<Rightarrow> mlrt_virtual_uart option \<times> uart_event list" where
  "mlrt_virtual_uart_close uart =
     (case uart of
        None \<Rightarrow> (None, [])
      | Some u \<Rightarrow>
          (Some (u\<lparr>ua_master := -1, ua_slave := -1\<rparr>),
           (if ua_master u \<ge> 0 then [U_close (ua_master u)] else []) @
           (if ua_slave u \<ge> 0 then [U_close (ua_slave u)] else [])))"

section \<open>The exchange\<close>

definition status_text :: "byte list" where
  "status_text = map (\<lambda>c. of_nat (of_char c)) ''state=RUNNING rate_hz=100 transport=PTY''"

definition uart_request :: mlrt_packet where
  "uart_request = zero_packet\<lparr>pkt_version := MLRT_PROTO_VERSION, pkt_type := msg_code MLRT_MSG_STATUS_REQ, pkt_seq := 1\<rparr>"

definition uart_response :: "mlrt_packet \<Rightarrow> mlrt_packet" where
  "uart_response req =
     zero_packet\<lparr>pkt_version := MLRT_PROTO_VERSION, pkt_type := msg_code MLRT_MSG_STATUS_RSP, pkt_seq := pkt_seq req,
       pkt_length := of_nat (length status_text), pkt_payload := write_at 0 status_text (pkt_payload zero_packet)\<rparr>"

text \<open>The child: return value and bytes written; \<open>rj\<close> and \<open>wj\<close> are what its frame buffers hold.\<close>

definition child_target ::
    "byte list \<Rightarrow> byte list \<Rightarrow> rd_event list \<Rightarrow> wr_event list \<Rightarrow> byte list \<Rightarrow> (int \<times> byte list) option" where
  "child_target rj wj rs ws inp =
     (case mlrt_packet_read_fd rj rs True inp of
        None \<Rightarrow> None
      | Some (rc, req, _) \<Rightarrow>
          if rc \<noteq> MLRT_PROTO_OK \<or> pkt_type (the req) \<noteq> msg_code MLRT_MSG_STATUS_REQ then Some (1, [])
          else
            (case mlrt_packet_write_fd wj ws (Some (uart_response (the req))) of
               None \<Rightarrow> None
             | Some (wrc, sent, _) \<Rightarrow> Some (if wrc = MLRT_PROTO_OK then 0 else 1, sent)))"

record uart_schedule =
  us_host_reads :: "rd_event list"
  us_host_writes :: "wr_event list"
  us_child_reads :: "rd_event list"
  us_child_writes :: "wr_event list"

text \<open>
  The command: exit code, response printed, and log; \<open>None\<close> when one of the two processes does not
  end. The child reads what the host has written and the host reads what the child has written.
\<close>

definition serial_demo_cli_main ::
    "uart_os \<Rightarrow> bool \<Rightarrow> byte list \<Rightarrow> byte list \<Rightarrow> uart_schedule \<Rightarrow> (int \<times> mlrt_packet option \<times> uart_event list) option" where
  "serial_demo_cli_main os fork_ok rj wj sc =
     (case mlrt_virtual_uart_open os (Some uart_cleared) of
        (rc, uart, lg) \<Rightarrow>
          if rc \<noteq> 0 then Some (1, None, lg)
          else if \<not> fork_ok then Some (1, None, lg @ snd (mlrt_virtual_uart_close uart))
          else
            let lg1 = lg @ [U_close (ua_slave (the uart))];
                uart1 = Some ((the uart)\<lparr>ua_slave := -1\<rparr>);
                fin = snd (mlrt_virtual_uart_close uart1)
            in case mlrt_packet_write_fd wj (us_host_writes sc) (Some uart_request) of
                 None \<Rightarrow> None
               | Some (wrc, sent, _) \<Rightarrow>
                   if wrc \<noteq> MLRT_PROTO_OK then Some (1, None, lg1 @ [U_kill, U_wait] @ fin)
                   else
                     (case child_target rj wj (us_child_reads sc) (us_child_writes sc) sent of
                        None \<Rightarrow> None
                      | Some (status, answer) \<Rightarrow>
                          (case mlrt_packet_read_fd rj (us_host_reads sc) True answer of
                             None \<Rightarrow> None
                           | Some (rrc, rsp, _) \<Rightarrow>
                               if rrc \<noteq> MLRT_PROTO_OK \<or> pkt_type (the rsp) \<noteq> msg_code MLRT_MSG_STATUS_RSP \<or> status \<noteq> 0
                               then Some (1, None, lg1 @ [U_wait] @ fin)
                               else Some (0, rsp, lg1 @ [U_wait] @ fin))))"

section \<open>Descriptors\<close>

fun uart_delta :: "int \<Rightarrow> uart_event \<Rightarrow> int" where
  "uart_delta fd (U_open f) = (if f = fd then 1 else 0)"
| "uart_delta fd (U_close f) = (if f = fd then -1 else 0)"
| "uart_delta fd _ = 0"

abbreviation uart_balance :: "int \<Rightarrow> uart_event list \<Rightarrow> int" where
  "uart_balance \<equiv> fd_balance uart_delta"

text \<open>Raw mode: the bits that make the line change, answer or interpret bytes are off, eight data bits are on.\<close>

definition raw_mode :: "termios \<Rightarrow> bool" where
  "raw_mode t \<longleftrightarrow> c_iflag t AND 0x5eb = 0 \<and> c_oflag t AND 1 = 0 \<and> c_lflag t AND 0x804b = 0 \<and>
     c_cflag t AND 0x30 = 0x30 \<and> c_cflag t AND 0x100 = 0 \<and> c_cflag t AND (CLOCAL OR CREAD) = CLOCAL OR CREAD \<and> c_vmin t = 1 \<and> c_vtime t = 0"

lemma and_not_and: "(x AND NOT m) AND m = 0" for x m :: "'a::len word"
  by (intro bit_word_eqI) (auto simp: bit_simps)

lemma or_keeps: "k AND m = m \<Longrightarrow> (y OR k) AND m = m" for k m y :: "'a::len word"
  by (simp add: bit_eq_iff bit_simps) blast

lemma or_clears: "y AND n = 0 \<Longrightarrow> m AND n = m \<Longrightarrow> k AND m = 0 \<Longrightarrow> (y OR k) AND m = 0" for k m n y :: "'a::len word"
  by (metis and.assoc and.commute bit.conj_disj_distrib2 and_zero_eq or.right_neutral)

lemma set_raw_mode:
  assumes "set_raw os fd = Some t"
  shows "raw_mode t"
proof -
  obtain t0 where t: "t = (cfmakeraw t0)\<lparr>c_cflag := c_cflag (cfmakeraw t0) OR (CLOCAL OR CREAD)\<rparr>"
    using assms by (auto simp: set_raw_def Let_def split: option.splits if_splits)
  have c: "((x AND NOT 0x130) OR 0x8b0) AND 0x100 = 0" "((x AND NOT 0x130) OR 0x8b0) AND 0x30 = 0x30"
      "((x AND NOT 0x130) OR 0x8b0) AND 0x880 = 0x880" for x :: u32
    by (rule or_clears [OF and_not_and], simp_all) (rule or_keeps, simp)+
  show ?thesis
    using and_not_and [of "c_iflag t0" "0x5eb"] and_not_and [of "c_oflag t0" 1] and_not_and [of "c_lflag t0" "0x804b"] c [of "c_cflag t0"]
    by (simp add: t raw_mode_def cfmakeraw_def CLOCAL_def CREAD_def or.assoc)
qed

lemma uart_open_raw:
  assumes "mlrt_virtual_uart_open os (Some u) = (0, Some v, lg)"
  shows "\<exists>t1 t2. set_raw os (ua_master v) = Some t1 \<and> raw_mode t1 \<and> set_raw os (ua_slave v) = Some t2 \<and> raw_mode t2"
  using assms set_raw_mode by (auto simp: mlrt_virtual_uart_open_def Let_def split: if_splits option.splits)

lemma uart_open_cases:
  assumes "mlrt_virtual_uart_open os (Some u) = (rc, uart, lg)"
  shows "(rc \<noteq> 0 \<and> (\<forall>fd. uart_balance fd lg = 0)) \<or>
    (rc = 0 \<and> (\<exists>m s p. uart = Some \<lparr>ua_master = m, ua_slave = s, ua_path = p\<rparr> \<and> m \<ge> 0 \<and> s \<ge> 0 \<and> lg = [U_open m, U_open s]))"
  using assms by (auto simp: mlrt_virtual_uart_open_def Let_def split: if_splits option.splits)

lemma uart_close_both_balance:
  "uart_balance fd ([U_open m, U_open s] @ snd (mlrt_virtual_uart_close (Some \<lparr>ua_master = m, ua_slave = s, ua_path = p\<rparr>))) = 0"
  if "m \<ge> 0" "s \<ge> 0"
  using that by (simp add: mlrt_virtual_uart_close_def)

lemma serial_demo_logs:
  assumes "mlrt_virtual_uart_open os (Some uart_cleared) = (0, Some \<lparr>ua_master = m, ua_slave = s, ua_path = p\<rparr>, lg0)"
    and "serial_demo_cli_main os fork_ok rj wj sc = Some (code, rsp, lg)"
  shows "lg = lg0 @ snd (mlrt_virtual_uart_close (Some \<lparr>ua_master = m, ua_slave = s, ua_path = p\<rparr>)) \<or>
    (\<exists>es\<in>{[U_kill, U_wait], [U_wait]}.
       lg = lg0 @ [U_close s] @ es @ snd (mlrt_virtual_uart_close (Some \<lparr>ua_master = m, ua_slave = -1, ua_path = p\<rparr>)))"
proof (cases fork_ok)
  case True
  obtain wrc sent ws where w: "mlrt_packet_write_fd wj (us_host_writes sc) (Some uart_request) = Some (wrc, sent, ws)"
    using assms True by (cases "mlrt_packet_write_fd wj (us_host_writes sc) (Some uart_request)") (auto simp: serial_demo_cli_main_def)
  show ?thesis
  proof (cases "wrc = MLRT_PROTO_OK")
    case ok: True
    obtain status answer where c: "child_target rj wj (us_child_reads sc) (us_child_writes sc) sent = Some (status, answer)"
      using assms True w ok by (cases "child_target rj wj (us_child_reads sc) (us_child_writes sc) sent") (auto simp: serial_demo_cli_main_def)
    obtain rrc rp rest where r: "mlrt_packet_read_fd rj (us_host_reads sc) True answer = Some (rrc, rp, rest)"
      using assms True w ok c by (cases "mlrt_packet_read_fd rj (us_host_reads sc) True answer") (auto simp: serial_demo_cli_main_def)
    show ?thesis using assms True w ok c r by (simp add: serial_demo_cli_main_def Let_def split: if_splits)
  qed (use assms True w in \<open>simp add: serial_demo_cli_main_def Let_def\<close>)
qed (use assms in \<open>simp add: serial_demo_cli_main_def\<close>)

lemma serial_demo_balance:
  assumes "serial_demo_cli_main os fork_ok rj wj sc = Some (code, rsp, lg)"
  shows "uart_balance fd lg = 0"
proof -
  obtain rc uart lg0 where o: "mlrt_virtual_uart_open os (Some uart_cleared) = (rc, uart, lg0)" by (metis prod_cases3)
  from uart_open_cases [OF o] show ?thesis
  proof
    assume f: "rc \<noteq> 0 \<and> (\<forall>fd. uart_balance fd lg0 = 0)"
    then have "lg = lg0" using assms o by (simp add: serial_demo_cli_main_def)
    with f show ?thesis by simp
  next
    assume "rc = 0 \<and> (\<exists>m s p. uart = Some \<lparr>ua_master = m, ua_slave = s, ua_path = p\<rparr> \<and> m \<ge> 0 \<and> s \<ge> 0 \<and> lg0 = [U_open m, U_open s])"
    then obtain m s p where u: "rc = 0" "uart = Some \<lparr>ua_master = m, ua_slave = s, ua_path = p\<rparr>" "m \<ge> 0" "s \<ge> 0" "lg0 = [U_open m, U_open s]"
      by blast
    from serial_demo_logs [OF o [unfolded u(1,2)] assms] show ?thesis
    proof
      assume "\<exists>es\<in>{[U_kill, U_wait], [U_wait]}.
        lg = lg0 @ [U_close s] @ es @ snd (mlrt_virtual_uart_close (Some \<lparr>ua_master = m, ua_slave = -1, ua_path = p\<rparr>))"
      then show ?thesis using u(3,5) by (auto simp: mlrt_virtual_uart_close_def)
    qed (use uart_close_both_balance [OF u(3,4)] u(5) in simp)
  qed
qed

lemma uart_request_wf: "packet_wf uart_request" "pkt_version uart_request = MLRT_PROTO_VERSION"
  by (simp_all add: uart_request_def zero_packet_def packet_wf_def proto_consts)

lemma status_text_length: "length status_text = 39"
  by (simp add: status_text_def)

lemma uart_response_wf: "packet_wf (uart_response req)" "pkt_version (uart_response req) = MLRT_PROTO_VERSION"
  by (simp_all add: uart_response_def zero_packet_def packet_wf_def proto_consts status_text_length write_at_def)

lemma uart_frames: "length (frame_bytes uart_request) = 14" "length (frame_bytes (uart_response req)) = 53"
proof -
  show "length (frame_bytes uart_request) = 14"
    using length_frame_bytes [OF uart_request_wf(1)] by (simp add: uart_request_def zero_packet_def proto_consts)
  show "length (frame_bytes (uart_response req)) = 53"
    using length_frame_bytes [OF uart_response_wf(1), of req] by (simp add: uart_response_def status_text_length proto_consts)
qed

lemma canon_request: "packet_canon uart_request = uart_request"
  by (simp add: packet_canon_def uart_request_def zero_packet_def proto_consts)

lemma canon_response: "packet_canon (uart_response req) = uart_response req"
  by (simp add: packet_canon_def uart_response_def zero_packet_def proto_consts write_at_def status_text_length)

section \<open>Properties\<close>

text \<open>
  The serial demonstration: whatever the system answers, when the command returns it has closed
  every descriptor it opened exactly once; and when the pair can be opened, the child can be created
  and no transfer fails, however transfers are split, it exits with code 0 and the response it prints
  carries the sequence number of the request and the status text.
\<close>

theorem serial_demo_exchange:
  assumes "length rj = MLRT_PROTO_MAX_FRAME" "length wj = MLRT_PROTO_MAX_FRAME"
  shows "(\<forall>code rsp lg. serial_demo_cli_main os fork_ok rj wj sc = Some (code, rsp, lg) \<longrightarrow> uart_balance fd lg = 0) \<and>
    (fst (mlrt_virtual_uart_open os (Some uart_cleared)) = 0 \<and> fork_ok \<and>
     wr_reliable (us_host_writes sc) \<and> 14 \<le> wr_chunks (us_host_writes sc) \<and>
     RdFail \<notin> set (us_child_reads sc) \<and> 14 \<le> rd_chunks (us_child_reads sc) \<and>
     wr_reliable (us_child_writes sc) \<and> 53 \<le> wr_chunks (us_child_writes sc) \<and>
     RdFail \<notin> set (us_host_reads sc) \<and> 53 \<le> rd_chunks (us_host_reads sc) \<longrightarrow>
     (\<exists>lg. serial_demo_cli_main os fork_ok rj wj sc = Some (0, Some (uart_response uart_request), lg)))"
proof
  obtain rc uart lg0 where o: "mlrt_virtual_uart_open os (Some uart_cleared) = (rc, uart, lg0)" by (metis prod_cases3)
  show "\<forall>code rsp lg. serial_demo_cli_main os fork_ok rj wj sc = Some (code, rsp, lg) \<longrightarrow> uart_balance fd lg = 0"
    by (blast intro: serial_demo_balance)
  show "fst (mlrt_virtual_uart_open os (Some uart_cleared)) = 0 \<and> fork_ok \<and>
     wr_reliable (us_host_writes sc) \<and> 14 \<le> wr_chunks (us_host_writes sc) \<and>
     RdFail \<notin> set (us_child_reads sc) \<and> 14 \<le> rd_chunks (us_child_reads sc) \<and>
     wr_reliable (us_child_writes sc) \<and> 53 \<le> wr_chunks (us_child_writes sc) \<and>
     RdFail \<notin> set (us_host_reads sc) \<and> 53 \<le> rd_chunks (us_host_reads sc) \<longrightarrow>
     (\<exists>lg. serial_demo_cli_main os fork_ok rj wj sc = Some (0, Some (uart_response uart_request), lg))" (is "?H \<longrightarrow> _")
  proof
    assume h: ?H
    obtain ws1 where "write_all (us_host_writes sc) (frame_bytes uart_request) = Some (MLRT_PROTO_OK, frame_bytes uart_request, ws1)"
      using proto_writer.wrall_complete [of "us_host_writes sc" "frame_bytes uart_request"] h uart_frames by auto
    then have w: "mlrt_packet_write_fd wj (us_host_writes sc) (Some uart_request) = Some (MLRT_PROTO_OK, frame_bytes uart_request, ws1)"
      using write_fd_encodes [OF uart_request_wf(1) assms(2)] by simp
    obtain rs1 where r: "mlrt_packet_read_fd rj (us_child_reads sc) True (frame_bytes uart_request) = Some (MLRT_PROTO_OK, Some uart_request, [], rs1)"
      using read_fd_frame [OF uart_request_wf(1) _ assms(1), of "us_child_reads sc" "[]"] h uart_frames uart_request_wf(2)
      by (auto simp: canon_request)
    let ?rsp = "uart_response uart_request"
    obtain ws2 where "write_all (us_child_writes sc) (frame_bytes ?rsp) = Some (MLRT_PROTO_OK, frame_bytes ?rsp, ws2)"
      using proto_writer.wrall_complete [of "us_child_writes sc" "frame_bytes ?rsp"] h uart_frames by auto
    then have w2: "mlrt_packet_write_fd wj (us_child_writes sc) (Some ?rsp) = Some (MLRT_PROTO_OK, frame_bytes ?rsp, ws2)"
      using write_fd_encodes [OF uart_response_wf(1) assms(2)] by simp
    obtain rs2 where r2: "mlrt_packet_read_fd rj (us_host_reads sc) True (frame_bytes ?rsp) = Some (MLRT_PROTO_OK, Some ?rsp, [], rs2)"
      using read_fd_frame [OF uart_response_wf(1) _ assms(1), of uart_request "us_host_reads sc" "[]"] h uart_frames uart_response_wf(2)
      by (auto simp: canon_response)
    have "pkt_type uart_request = msg_code MLRT_MSG_STATUS_REQ" "pkt_type ?rsp = msg_code MLRT_MSG_STATUS_RSP"
      by (simp_all add: uart_request_def uart_response_def)
    then show "\<exists>lg. serial_demo_cli_main os fork_ok rj wj sc = Some (0, Some ?rsp, lg)"
      using h o w r w2 r2 by (simp add: serial_demo_cli_main_def child_target_def Let_def)
  qed
qed

definition sample_termios :: termios where
  "sample_termios = \<lparr>c_iflag = 0x500, c_oflag = 5, c_cflag = 0xbf, c_lflag = 0x8a3b, c_vmin = 1, c_vtime = 0\<rparr>"

theorem serial_demo_exchange_witness:
  "let os = \<lparr>uo_openpt = 3, uo_grant = True, uo_unlock = True, uo_ptsname = Some ''/dev/pts/0'', uo_open = (\<lambda>_. 4), uo_getattr = (\<lambda>_. Some sample_termios), uo_setattr = (\<lambda>_ _. True)\<rparr>;
       sc = \<lparr>us_host_reads = replicate 53 (RdChunk 0), us_host_writes = replicate 14 (WrChunk 0),
             us_child_reads = replicate 14 (RdChunk 2), us_child_writes = replicate 53 (WrChunk 1)\<rparr>
   in \<exists>lg. serial_demo_cli_main os True (replicate 526 0) (replicate 526 0) sc = Some (0, Some (uart_response uart_request), lg) \<and>
        uart_balance 3 lg = 0"
proof -
  let ?os = "\<lparr>uo_openpt = 3, uo_grant = True, uo_unlock = True, uo_ptsname = Some ''/dev/pts/0'', uo_open = (\<lambda>_. 4), uo_getattr = (\<lambda>_. Some sample_termios), uo_setattr = (\<lambda>_ _. True)\<rparr>"
  let ?sc = "\<lparr>us_host_reads = replicate 53 (RdChunk 0), us_host_writes = replicate 14 (WrChunk 0),
             us_child_reads = replicate 14 (RdChunk 2), us_child_writes = replicate 53 (WrChunk 1)\<rparr>"
  have l: "length (replicate 526 (0 :: byte)) = MLRT_PROTO_MAX_FRAME" by (simp add: proto_consts)
  note s = serial_demo_exchange [OF l l, of ?os True ?sc 3]
  have "fst (mlrt_virtual_uart_open ?os (Some uart_cleared)) = 0" by (simp add: set_raw_def Let_def mlrt_virtual_uart_open_def)
  then obtain lg where "serial_demo_cli_main ?os True (replicate 526 0) (replicate 526 0) ?sc = Some (0, Some (uart_response uart_request), lg)"
    using s by (auto simp: wr_reliable_def wr_chunks_def rd_chunks_def)
  with s show ?thesis by (auto simp: Let_def)
qed

end
