(* ===== verification/Rt_Demo.thy ===== *)
theory Rt_Demo
  imports Ring_Buffer Firmware_Image C_Strings Complex_Main
begin

text \<open>
  The real-time demonstration of \<^verbatim>\<open>realtime/rt_demo.c\<close>: a sensor thread that fills the ring buffer
  periodically, a thread that empties it, a watchdog over the second one, and the main thread that
  creates, stops and joins them. One step of the transition system is one access to shared data; the
  clock may advance between any two steps. Sleeping threads are disabled until their time has come.
  The floating-point value of a sample enters as a function that gives its representation.
\<close>

section \<open>State\<close>

record sample_t =
  sp_seq :: u64
  sp_timestamp_ns :: u64
  sp_value :: u64

definition sample_t_size :: nat where "sample_t_size = 24"

definition sample_t_bytes :: "sample_t \<Rightarrow> byte list" where
  "sample_t_bytes s = put_u64_le (sp_seq s) @ put_u64_le (sp_timestamp_ns s) @ put_u64_le (sp_value s)"

record rt_ctx =
  rc_queue :: mlrt_ring_buffer
  rc_running :: bool
  rc_produced :: u64
  rc_processed :: u64
  rc_deadline_misses :: u64
  rc_watchdog_events :: u64
  rc_last_processed_ns :: u64
  rc_stall_once :: bool
  rc_period_ms :: int
  rc_inject_stall_ms :: int
  rc_jitter_sum_ns :: u64
  rc_jitter_max_ns :: u64

definition rt_now_ns :: "timespec \<Rightarrow> u64" where
  "rt_now_ns ts = of_int (tv_sec ts) * 1000000000 + of_int (tv_nsec ts)"

definition ns_to_ts :: "u64 \<Rightarrow> timespec" where
  "ns_to_ts ns = \<lparr>tv_sec = uint (ns div 1000000000), tv_nsec = uint (ns mod 1000000000)\<rparr>"

lemma ns_to_ts_roundtrip: "rt_now_ns (ns_to_ts ns) = ns" "0 \<le> tv_nsec (ns_to_ts ns)" "tv_nsec (ns_to_ts ns) < 1000000000"
proof -
  show "rt_now_ns (ns_to_ts ns) = ns" by (simp add: rt_now_ns_def ns_to_ts_def div_mult_mod_eq)
  show "tv_nsec (ns_to_ts ns) < 1000000000" by (simp add: ns_to_ts_def uint_mod)
qed (simp add: ns_to_ts_def)

section \<open>The command up to the creation of the threads\<close>

text \<open>The options: an exit code, or duration, period and stall.\<close>

fun rt_options :: "int \<Rightarrow> int \<Rightarrow> int \<Rightarrow> string list \<Rightarrow> int + (int \<times> int \<times> int)" where
  "rt_options duration period_ms stall [] = Inr (duration, period_ms, stall)"
| "rt_options duration period_ms stall (a # as) =
     (if a = ''--duration'' \<and> as \<noteq> [] then rt_options (atoi (hd as)) period_ms stall (tl as)
      else if a = ''--period-ms'' \<and> as \<noteq> [] then rt_options duration (atoi (hd as)) stall (tl as)
      else if a = ''--inject-stall-ms'' \<and> as \<noteq> [] then rt_options duration period_ms (atoi (hd as)) (tl as)
      else if a = ''--help'' then Inl 0
      else Inl 2)"

definition rt_zero :: rt_ctx where
  "rt_zero =
     \<lparr>rc_queue = ring_reset [] 0 0, rc_running = False, rc_produced = 0, rc_processed = 0, rc_deadline_misses = 0,
      rc_watchdog_events = 0, rc_last_processed_ns = 0, rc_stall_once = False, rc_period_ms = 0,
      rc_inject_stall_ms = 0, rc_jitter_sum_ns = 0, rc_jitter_max_ns = 0\<rparr>"

text \<open>An exit code, or the context and the duration with which the threads are created.\<close>

definition rt_setup :: "pthread_results \<Rightarrow> u64 \<Rightarrow> string list \<Rightarrow> int + (rt_ctx \<times> int)" where
  "rt_setup os now args =
     (case rt_options 2 10 0 args of
        Inl code \<Rightarrow> Inl code
      | Inr (duration, period_ms, stall) \<Rightarrow>
          if duration \<le> 0 \<or> duration > 60 \<or> period_ms \<le> 0 \<or> period_ms > 1000 \<or> stall < 0 \<or> stall > 10000 then Inl 2
          else
            let ctx = rt_zero\<lparr>rc_period_ms := period_ms, rc_inject_stall_ms := stall, rc_running := True,
                              rc_last_processed_ns := now, rc_stall_once := (stall > 0)\<rparr>;
                (rc, q, _) = mlrt_ring_init os (Some (rc_queue ctx)) (Some (replicate (128 * sample_t_size) 0)) 128 sample_t_size
            in if rc \<noteq> 0 then Inl 1
               else Inr (ctx\<lparr>rc_queue := the q\<rparr>, duration))"

section \<open>The threads\<close>

text \<open>Program counters with local variables; \<open>seq\<close>, \<open>next\<close> and \<open>latched\<close> live in the system state.\<close>

datatype rt_sensor_pc =
  RsOff | RsInit | RsHead | RsSleep | RsMiss u64 | RsJitter u64 | RsPush u64 | RsCount u64 | RsNext u64 | RsExit

datatype rt_proc_pc = RpOff | RpHead | RpPop | RpStall | RpAsleep | RpCount | RpBeat | RpStore u64 | RpExit

datatype rt_wd_pc = RwOff | RwHead | RwSleep nat | RwLoad | RwAge u64 | RwBark u64 | RwExit

datatype rt_main_pc = MCreate nat | MFail | MAbort | MSleep nat | MStop | MJoin nat | MReport | MReturned int

record rt_report =
  rp_produced :: u64
  rp_processed :: u64
  rp_high_water :: nat
  rp_capacity :: nat
  rp_dropped :: u64
  rp_avg_jitter_us :: rat
  rp_max_jitter_us :: rat
  rp_misses :: u64
  rp_watchdog :: u64

record rt_sys =
  rt_ctxt :: rt_ctx
  rt_clock :: nat
  rt_sensor :: rt_sensor_pc
  rt_seq :: u64
  rt_next :: u64
  rt_proc :: rt_proc_pc
  rt_wd :: rt_wd_pc
  rt_latched :: bool
  rt_main :: rt_main_pc
  rt_duration :: int
  rt_printed :: "rt_report option"

text \<open>The monotonic clock in nanoseconds is a natural number; \<open>now_ns\<close> returns its low 64 bits.\<close>

abbreviation rt_now :: "rt_sys \<Rightarrow> u64" where
  "rt_now s \<equiv> of_nat (rt_clock s)"

definition rt_period_ns :: "rt_ctx \<Rightarrow> u64" where
  "rt_period_ns c = of_int (rc_period_ms c) * 1000000"

definition rt_jitter :: "u64 \<Rightarrow> u64 \<Rightarrow> u64" where
  "rt_jitter actual nxt = (if actual > nxt then actual - nxt else nxt - actual)"

definition sensor_thread :: "(u64 \<Rightarrow> u64) \<Rightarrow> rt_sys \<Rightarrow> rt_sys option" where
  "sensor_thread synthetic s =
     (let c = rt_ctxt s; period = rt_period_ns c; nxt = rt_next s in
      case rt_sensor s of
        RsInit \<Rightarrow> Some (s\<lparr>rt_next := rt_now s + period, rt_seq := 0, rt_sensor := RsHead\<rparr>)
      | RsHead \<Rightarrow> Some (s\<lparr>rt_sensor := (if rc_running c then RsSleep else RsExit)\<rparr>)
      | RsSleep \<Rightarrow> if rt_clock s < unat (rt_now_ns (ns_to_ts nxt)) then None else Some (s\<lparr>rt_sensor := RsMiss (rt_now s)\<rparr>)
      | RsMiss actual \<Rightarrow>
          Some (s\<lparr>rt_ctxt := (if actual > nxt + period then c\<lparr>rc_deadline_misses := rc_deadline_misses c + 1\<rparr> else c),
                  rt_sensor := RsJitter actual\<rparr>)
      | RsJitter actual \<Rightarrow>
          let jitter = rt_jitter actual nxt
          in Some (s\<lparr>rt_ctxt := c\<lparr>rc_jitter_sum_ns := rc_jitter_sum_ns c + jitter,
                       rc_jitter_max_ns := (if jitter > rc_jitter_max_ns c then jitter else rc_jitter_max_ns c)\<rparr>,
                     rt_sensor := RsPush actual\<rparr>)
      | RsPush actual \<Rightarrow>
          let smp = \<lparr>sp_seq = rt_seq s, sp_timestamp_ns = actual, sp_value = synthetic (rt_seq s)\<rparr>;
              (rc, q) = mlrt_ring_push (Some (rc_queue c)) (Some (sample_t_bytes smp)) 0
          in Some (s\<lparr>rt_ctxt := c\<lparr>rc_queue := the q\<rparr>,
                     rt_sensor := (if rc = 0 then RsCount actual else RsNext actual)\<rparr>)
      | RsCount actual \<Rightarrow> Some (s\<lparr>rt_ctxt := c\<lparr>rc_produced := rc_produced c + 1\<rparr>, rt_sensor := RsNext actual\<rparr>)
      | RsNext actual \<Rightarrow>
          let next1 = nxt + period
          in Some (s\<lparr>rt_seq := rt_seq s + 1,
                     rt_next := (if actual > next1 + period * 4 then actual + period else next1),
                     rt_sensor := RsHead\<rparr>)
      | _ \<Rightarrow> None)"

text \<open>
  \<open>got\<close>: whether the wait of at most 100 ms on the queue ends with an item, which is possible only
  when there is one. How long the injected stall takes is left open; the filter value the thread
  computes is not used anywhere.
\<close>

definition processing_thread :: "bool \<Rightarrow> rt_sys \<Rightarrow> rt_sys option" where
  "processing_thread got s =
     (let c = rt_ctxt s in
      case rt_proc s of
        RpHead \<Rightarrow> Some (s\<lparr>rt_proc := (if rc_running c then RpPop else RpExit)\<rparr>)
      | RpPop \<Rightarrow>
          if got then
            (if rb_count (rc_queue c) = 0 then None
             else Some (s\<lparr>rt_ctxt := c\<lparr>rc_queue := snd (ring_take (rc_queue c))\<rparr>, rt_proc := RpStall\<rparr>))
          else Some (s\<lparr>rt_proc := RpHead\<rparr>)
      | RpStall \<Rightarrow>
          if rc_inject_stall_ms c > 0
          then Some (s\<lparr>rt_ctxt := c\<lparr>rc_stall_once := False\<rparr>, rt_proc := (if rc_stall_once c then RpAsleep else RpCount)\<rparr>)
          else Some (s\<lparr>rt_proc := RpCount\<rparr>)
      | RpAsleep \<Rightarrow> Some (s\<lparr>rt_proc := RpCount\<rparr>)
      | RpCount \<Rightarrow> Some (s\<lparr>rt_ctxt := c\<lparr>rc_processed := rc_processed c + 1\<rparr>, rt_proc := RpBeat\<rparr>)
      | RpBeat \<Rightarrow> Some (s\<lparr>rt_proc := RpStore (rt_now s)\<rparr>)
      | RpStore now \<Rightarrow> Some (s\<lparr>rt_ctxt := c\<lparr>rc_last_processed_ns := now\<rparr>, rt_proc := RpHead\<rparr>)
      | _ \<Rightarrow> None)"

definition watchdog_thread :: "rt_sys \<Rightarrow> rt_sys option" where
  "watchdog_thread s =
     (let c = rt_ctxt s in
      case rt_wd s of
        RwHead \<Rightarrow> Some (s\<lparr>rt_wd := (if rc_running c then RwSleep (rt_clock s + 50000000) else RwExit)\<rparr>)
      | RwSleep t \<Rightarrow> if rt_clock s < t then None else Some (s\<lparr>rt_wd := RwLoad\<rparr>)
      | RwLoad \<Rightarrow> Some (s\<lparr>rt_wd := RwAge (rc_last_processed_ns c)\<rparr>)
      | RwAge last_ns \<Rightarrow>
          let age = rt_now s - last_ns
          in if last_ns \<noteq> 0 \<and> age > 250000000 then Some (s\<lparr>rt_wd := (if rt_latched s then RwHead else RwBark last_ns)\<rparr>)
             else Some (s\<lparr>rt_latched := False, rt_wd := RwHead\<rparr>)
      | RwBark last_ns \<Rightarrow>
          Some (s\<lparr>rt_ctxt := c\<lparr>rc_watchdog_events := rc_watchdog_events c + 1\<rparr>, rt_latched := True, rt_wd := RwHead\<rparr>)
      | _ \<Rightarrow> None)"

text \<open>
  What is printed, with exact quotients in place of floating-point ones.
\<close>

definition rt_metrics :: "rt_ctx \<Rightarrow> rt_report" where
  "rt_metrics c =
     (let st = the (mlrt_ring_get_stats (Some (rc_queue c)) (Some \<lparr>st_count = 0, st_capacity = 0, st_high_water = 0, st_dropped = 0\<rparr>))
      in \<lparr>rp_produced = rc_produced c, rp_processed = rc_processed c, rp_high_water = st_high_water st,
          rp_capacity = st_capacity st, rp_dropped = st_dropped st,
          rp_avg_jitter_us = (if rc_produced c = 0 then 0
            else of_nat (unat (rc_jitter_sum_ns c)) / of_nat (unat (rc_produced c)) / 1000),
          rp_max_jitter_us = of_nat (unat (rc_jitter_max_ns c)) / 1000,
          rp_misses = rc_deadline_misses c, rp_watchdog = rc_watchdog_events c\<rparr>)"

text \<open>
  The main thread: \<open>created\<close> says whether \<open>pthread_create\<close> succeeds, where it is called. With the
  return the context, which lies on its stack, ends.
\<close>

definition rt_destroy :: "rt_ctx \<Rightarrow> rt_ctx" where
  "rt_destroy c = c\<lparr>rc_queue := the (mlrt_ring_destroy (Some (rc_queue c)))\<rparr>"

definition rt_start_thread :: "nat \<Rightarrow> rt_sys \<Rightarrow> rt_sys" where
  "rt_start_thread k s =
     (if k = 0 then s\<lparr>rt_sensor := RsInit, rt_main := MCreate 1\<rparr>
      else if k = 1 then s\<lparr>rt_proc := RpHead, rt_main := MCreate 2\<rparr>
      else s\<lparr>rt_wd := RwHead, rt_latched := False, rt_main := MSleep (rt_clock s + nat (rt_duration s) * 1000000000)\<rparr>)"

definition rt_main_step :: "bool \<Rightarrow> rt_sys \<Rightarrow> rt_sys option" where
  "rt_main_step created s =
     (let c = rt_ctxt s in
      case rt_main s of
        MCreate k \<Rightarrow> Some (if created then rt_start_thread k s else s\<lparr>rt_main := MFail\<rparr>)
      | MFail \<Rightarrow> Some (s\<lparr>rt_ctxt := c\<lparr>rc_running := False\<rparr>, rt_main := MAbort\<rparr>)
      | MAbort \<Rightarrow> Some (s\<lparr>rt_ctxt := rt_destroy c, rt_main := MReturned 1\<rparr>)
      | MSleep t \<Rightarrow> if rt_clock s < t then None else Some (s\<lparr>rt_main := MStop\<rparr>)
      | MStop \<Rightarrow> Some (s\<lparr>rt_ctxt := c\<lparr>rc_running := False\<rparr>, rt_main := MJoin 0\<rparr>)
      | MJoin k \<Rightarrow>
          if k = 0 then (if rt_sensor s = RsExit then Some (s\<lparr>rt_main := MJoin 1\<rparr>) else None)
          else if k = 1 then (if rt_proc s = RpExit then Some (s\<lparr>rt_main := MJoin 2\<rparr>) else None)
          else (if rt_wd s = RwExit then Some (s\<lparr>rt_main := MReport\<rparr>) else None)
      | MReport \<Rightarrow> Some (s\<lparr>rt_printed := Some (rt_metrics c), rt_ctxt := rt_destroy c, rt_main := MReturned 0\<rparr>)
      | MReturned _ \<Rightarrow> None)"

datatype rt_event = RtTick nat | RtSensor | RtProc bool | RtWatchdog | RtMain bool

fun rt_step :: "(u64 \<Rightarrow> u64) \<Rightarrow> rt_event \<Rightarrow> rt_sys \<Rightarrow> rt_sys option" where
  "rt_step syn (RtTick d) s = Some (s\<lparr>rt_clock := rt_clock s + d\<rparr>)"
| "rt_step syn RtSensor s = sensor_thread syn s"
| "rt_step syn (RtProc got) s = processing_thread got s"
| "rt_step syn RtWatchdog s = watchdog_thread s"
| "rt_step syn (RtMain created) s = rt_main_step created s"

text \<open>What a thread does after the context has ended is undefined: a run stops there.\<close>

fun rt_run :: "(u64 \<Rightarrow> u64) \<Rightarrow> rt_event list \<Rightarrow> rt_sys \<Rightarrow> rt_sys option" where
  "rt_run syn [] s = Some s"
| "rt_run syn (e # es) s =
     (case rt_main s of
        MReturned _ \<Rightarrow> None
      | _ \<Rightarrow> (case rt_step syn e s of None \<Rightarrow> None | Some s' \<Rightarrow> rt_run syn es s'))"

definition rt_boot :: "nat \<Rightarrow> rt_ctx \<Rightarrow> int \<Rightarrow> rt_sys" where
  "rt_boot clk c duration =
     \<lparr>rt_ctxt = c, rt_clock = clk, rt_sensor = RsOff, rt_seq = 0, rt_next = 0, rt_proc = RpOff, rt_wd = RwOff,
      rt_latched = False, rt_main = MCreate 0, rt_duration = duration, rt_printed = None\<rparr>"

lemmas rt_steps = sensor_thread_def processing_thread_def watchdog_thread_def rt_main_step_def rt_start_thread_def Let_def

lemma rt_run_append:
  "rt_run syn (xs @ ys) s = (case rt_run syn xs s of None \<Rightarrow> None | Some s' \<Rightarrow> rt_run syn ys s')"
  by (induction xs arbitrary: s) (auto split: option.splits rt_main_pc.splits)

section \<open>Invariants\<close>

lemma length_sample_t_bytes [simp]: "length (sample_t_bytes smp) = sample_t_size"
  by (simp add: sample_t_bytes_def sample_t_size_def)

text \<open>The queue is usable as long as the main thread has not returned.\<close>

definition rt_queue_ok :: "rt_sys \<Rightarrow> bool" where
  "rt_queue_ok s \<longleftrightarrow>
     (let q = rc_queue (rt_ctxt s) in
      rb_item_size q = sample_t_size \<and> rb_capacity q = 128 \<and> rb_high_water q \<le> 128 \<and>
      ((\<forall>rc. rt_main s \<noteq> MReturned rc) \<longrightarrow> ring_inv q))"

definition rt_all_started :: "rt_sys \<Rightarrow> bool" where
  "rt_all_started s \<longleftrightarrow> rt_sensor s \<noteq> RsOff \<and> rt_proc s \<noteq> RpOff \<and> rt_wd s \<noteq> RwOff"

definition rt_all_ended :: "rt_sys \<Rightarrow> bool" where
  "rt_all_ended s \<longleftrightarrow> rt_sensor s = RsExit \<and> rt_proc s = RpExit \<and> rt_wd s = RwExit"

definition rt_threads_ok :: "rt_sys \<Rightarrow> bool" where
  "rt_threads_ok s \<longleftrightarrow>
     (rt_sensor s \<in> {RsOff, RsInit} \<longrightarrow> rt_seq s = 0) \<and>
     (case rt_main s of
        MCreate k \<Rightarrow> k \<le> 2 \<and> (rt_sensor s = RsOff \<longleftrightarrow> k = 0) \<and> (rt_proc s = RpOff \<longleftrightarrow> k \<le> 1) \<and> rt_wd s = RwOff
      | MSleep t \<Rightarrow> rt_all_started s
      | MStop \<Rightarrow> rt_all_started s
      | MJoin k \<Rightarrow> rt_all_started s \<and> \<not> rc_running (rt_ctxt s) \<and> k \<le> 2 \<and>
          (k \<ge> 1 \<longrightarrow> rt_sensor s = RsExit) \<and> (k \<ge> 2 \<longrightarrow> rt_proc s = RpExit)
      | MReport \<Rightarrow> rt_all_ended s
      | MReturned rc \<Rightarrow> (rc = 0 \<longrightarrow> rt_all_ended s) \<and> (rc = 0 \<or> rc = 1)
      | _ \<Rightarrow> True)"

definition rt_in_count :: "rt_sys \<Rightarrow> u64" where
  "rt_in_count s = (case rt_sensor s of RsCount _ \<Rightarrow> 1 | _ \<Rightarrow> 0)"

definition rt_in_push :: "rt_sys \<Rightarrow> u64" where
  "rt_in_push s = (case rt_sensor s of RsCount _ \<Rightarrow> 1 | RsNext _ \<Rightarrow> 1 | _ \<Rightarrow> 0)"

definition rt_in_proc :: "rt_sys \<Rightarrow> u64" where
  "rt_in_proc s = (case rt_proc s of RpStall \<Rightarrow> 1 | RpAsleep \<Rightarrow> 1 | RpCount \<Rightarrow> 1 | _ \<Rightarrow> 0)"

text \<open>
  Every sample in the queue or in the hands of the processing thread has been or is about to be
  counted as produced; every sequence number used is a sample produced or one dropped.
\<close>

definition rt_accounts :: "rt_sys \<Rightarrow> bool" where
  "rt_accounts s \<longleftrightarrow>
     (let c = rt_ctxt s in
      rc_produced c + rt_in_count s = rc_processed c + rt_in_proc s + of_nat (rb_count (rc_queue c)) \<and>
      rt_seq s + rt_in_push s = rc_produced c + rt_in_count s + rb_dropped (rc_queue c))"

text \<open>No heartbeat lies in the future, and the watchdog only gives the alarm for an old one.\<close>

definition rt_times_ok :: "rt_sys \<Rightarrow> bool" where
  "rt_times_ok s \<longleftrightarrow>
     unat (rc_last_processed_ns (rt_ctxt s)) \<le> rt_clock s \<and>
     (\<forall>t. rt_proc s = RpStore t \<longrightarrow> unat t \<le> rt_clock s) \<and>
     (\<forall>t. rt_wd s = RwAge t \<longrightarrow> unat t \<le> rt_clock s) \<and>
     (\<forall>t. rt_wd s = RwBark t \<longrightarrow> rt_clock s < 2 ^ 64 \<longrightarrow> unat t + 250000000 < rt_clock s)"

definition rt_printed_ok :: "rt_sys \<Rightarrow> bool" where
  "rt_printed_ok s \<longleftrightarrow>
     (rt_main s = MReturned 0 \<longrightarrow>
        rt_printed s = Some (rt_metrics (rt_ctxt s)))"

lemma rt_metrics_destroy [simp]: "rt_metrics (rt_destroy c) = rt_metrics c"
  by (simp add: rt_metrics_def rt_destroy_def mlrt_ring_destroy_def mlrt_ring_get_stats_def)

lemma rt_destroy_simps [simp]:
  "rb_item_size (rc_queue (rt_destroy c)) = rb_item_size (rc_queue c)"
  "rb_capacity (rc_queue (rt_destroy c)) = rb_capacity (rc_queue c)"
  "rb_high_water (rc_queue (rt_destroy c)) = rb_high_water (rc_queue c)"
  "rb_count (rc_queue (rt_destroy c)) = rb_count (rc_queue c)"
  "rb_dropped (rc_queue (rt_destroy c)) = rb_dropped (rc_queue c)"
  "rc_produced (rt_destroy c) = rc_produced c" "rc_processed (rt_destroy c) = rc_processed c"
  "rc_last_processed_ns (rt_destroy c) = rc_last_processed_ns c" "rc_running (rt_destroy c) = rc_running c"
  by (simp_all add: rt_destroy_def mlrt_ring_destroy_def)

text \<open>What each thread leaves alone.\<close>

lemma rt_sensor_frame:
  assumes "sensor_thread syn s = Some s'"
  shows "rt_main s' = rt_main s \<and> rt_proc s' = rt_proc s \<and> rt_wd s' = rt_wd s \<and> rt_clock s' = rt_clock s \<and>
    rt_latched s' = rt_latched s \<and> rt_printed s' = rt_printed s \<and> rt_sensor s \<notin> {RsOff, RsExit} \<and> rt_sensor s' \<notin> {RsOff, RsInit} \<and>
    rc_running (rt_ctxt s') = rc_running (rt_ctxt s) \<and> rc_processed (rt_ctxt s') = rc_processed (rt_ctxt s) \<and>
    rc_last_processed_ns (rt_ctxt s') = rc_last_processed_ns (rt_ctxt s) \<and>
    rc_watchdog_events (rt_ctxt s') = rc_watchdog_events (rt_ctxt s) \<and>
    (rc_queue (rt_ctxt s') = rc_queue (rt_ctxt s) \<or>
     (\<exists>x. length x = sample_t_size \<and> rc_queue (rt_ctxt s') = snd (ring_push_cs (rc_queue (rt_ctxt s)) x False)))"
  using assms
  by (cases "rt_sensor s")
     (auto simp: sensor_thread_def Let_def ring_push_api split: if_splits intro: exI [of _ "sample_t_bytes _"])

lemma rt_proc_frame:
  assumes "processing_thread got s = Some s'"
  shows "rt_main s' = rt_main s \<and> rt_sensor s' = rt_sensor s \<and> rt_seq s' = rt_seq s \<and> rt_wd s' = rt_wd s \<and>
    rt_clock s' = rt_clock s \<and> rt_latched s' = rt_latched s \<and> rt_printed s' = rt_printed s \<and>
    rt_proc s \<notin> {RpOff, RpExit} \<and> rt_proc s' \<noteq> RpOff \<and>
    rc_running (rt_ctxt s') = rc_running (rt_ctxt s) \<and> rc_produced (rt_ctxt s') = rc_produced (rt_ctxt s) \<and>
    rc_watchdog_events (rt_ctxt s') = rc_watchdog_events (rt_ctxt s) \<and>
    (rc_queue (rt_ctxt s') = rc_queue (rt_ctxt s) \<or>
     rb_count (rc_queue (rt_ctxt s)) \<noteq> 0 \<and> rc_queue (rt_ctxt s') = snd (ring_take (rc_queue (rt_ctxt s))))"
  using assms by (cases "rt_proc s") (auto simp: processing_thread_def Let_def split: if_splits)

lemma rt_wd_frame:
  assumes "watchdog_thread s = Some s'"
  shows "rt_main s' = rt_main s \<and> rt_sensor s' = rt_sensor s \<and> rt_seq s' = rt_seq s \<and> rt_proc s' = rt_proc s \<and>
    rt_clock s' = rt_clock s \<and> rt_printed s' = rt_printed s \<and> rt_wd s \<notin> {RwOff, RwExit} \<and> rt_wd s' \<noteq> RwOff \<and>
    (\<exists>n. rt_ctxt s' = (rt_ctxt s)\<lparr>rc_watchdog_events := n\<rparr>)"
  using assms by (cases "rt_wd s") (auto simp: watchdog_thread_def Let_def split: if_splits intro: exI [of _ "rc_watchdog_events (rt_ctxt s)"])

lemma rt_main_frame:
  assumes "rt_main_step b s = Some s'"
  shows "rt_seq s' = rt_seq s \<and> rt_clock s' = rt_clock s \<and>
    (rt_sensor s' = rt_sensor s \<or> rt_main s = MCreate 0 \<and> rt_sensor s' = RsInit) \<and>
    (rt_proc s' = rt_proc s \<or> rt_main s = MCreate 1 \<and> rt_proc s' = RpHead) \<and>
    (rt_wd s' = rt_wd s \<or> rt_wd s' = RwHead) \<and>
    (\<exists>r. rt_ctxt s' = (rt_ctxt s)\<lparr>rc_running := r\<rparr> \<and> (\<forall>rc. rt_main s' \<noteq> MReturned rc)
       \<or> rt_ctxt s' = rt_destroy (rt_ctxt s) \<and> (\<exists>rc. rt_main s' = MReturned rc))"
  using assms
  by (cases "rt_main s") (auto simp: rt_main_step_def rt_start_thread_def Let_def split: if_splits intro: exI [of _ "rc_running (rt_ctxt s)"])

lemma rt_threads_frame:
  assumes "rt_threads_ok s" "rt_main s' = rt_main s" "rc_running (rt_ctxt s') = rc_running (rt_ctxt s)"
    and "rt_sensor s' \<in> {RsOff, RsInit} \<longrightarrow> rt_seq s' = 0"
    and "rt_sensor s' = RsOff \<longleftrightarrow> rt_sensor s = RsOff" "rt_sensor s = RsExit \<longrightarrow> rt_sensor s' = RsExit"
    and "rt_proc s' = RpOff \<longleftrightarrow> rt_proc s = RpOff" "rt_proc s = RpExit \<longrightarrow> rt_proc s' = RpExit"
    and "rt_wd s' = RwOff \<longleftrightarrow> rt_wd s = RwOff" "rt_wd s = RwExit \<longrightarrow> rt_wd s' = RwExit"
  shows "rt_threads_ok s'"
  using assms by (cases "rt_main s") (simp_all add: rt_threads_ok_def rt_all_started_def rt_all_ended_def)

lemma rt_threads_main:
  assumes "rt_threads_ok s" "rt_main_step b s = Some s'"
  shows "rt_threads_ok s'"
proof (cases "rt_main s")
  case (MCreate k)
  with assms(1) have "k = 0 \<or> k = 1 \<or> k = 2" by (auto simp: rt_threads_ok_def)
  with assms MCreate show ?thesis
    by (elim disjE) (auto simp: rt_threads_ok_def rt_main_step_def rt_start_thread_def Let_def rt_all_started_def split: if_splits)
next
  case (MJoin k)
  with assms(1) have "k = 0 \<or> k = 1 \<or> k = 2" by (auto simp: rt_threads_ok_def)
  with assms MJoin show ?thesis
    by (elim disjE) (auto simp: rt_threads_ok_def rt_main_step_def Let_def rt_all_started_def rt_all_ended_def split: if_splits)
qed (use assms in \<open>auto simp: rt_threads_ok_def rt_main_step_def Let_def rt_all_started_def rt_all_ended_def split: if_splits\<close>)

lemma rt_threads_step:
  assumes ok: "rt_threads_ok s" and step: "rt_step syn e s = Some s'"
  shows "rt_threads_ok s'"
proof (cases e)
  case (RtTick d)
  with step have "s' = s\<lparr>rt_clock := rt_clock s + d\<rparr>" by simp
  then show ?thesis using rt_threads_frame [OF ok, of s'] ok by (auto simp: rt_threads_ok_def)
next
  case RtSensor
  with step rt_sensor_frame [of syn s s'] show ?thesis by (intro rt_threads_frame [OF ok]) auto
next
  case (RtProc got)
  with step rt_proc_frame [of got s s'] ok show ?thesis
    by (intro rt_threads_frame [OF ok]) (auto simp: rt_threads_ok_def)
next
  case RtWatchdog
  with step rt_wd_frame [of s s'] ok show ?thesis
    by (intro rt_threads_frame [OF ok]) (auto simp: rt_threads_ok_def)
qed (use assms rt_threads_main in auto)

lemma rt_push_high_water:
  "rb_high_water (snd (ring_push_cs q x False)) \<le> 128" if "rb_high_water q \<le> 128" "rb_count q \<le> 128" "rb_capacity q = 128"
  using that by (auto simp: push_counts ring_store_def)

lemma rt_queue_step:
  assumes ok: "rt_queue_ok s" and step: "rt_step syn e s = Some s'" and live: "\<forall>rc. rt_main s \<noteq> MReturned rc"
  shows "rt_queue_ok s'"
proof -
  let ?q = "rc_queue (rt_ctxt s)"
  have q: "ring_inv ?q" "rb_item_size ?q = sample_t_size" "rb_capacity ?q = 128" "rb_high_water ?q \<le> 128" "rb_count ?q \<le> 128"
    using ok live by (auto simp: rt_queue_ok_def Let_def ring_inv_def)
  show ?thesis
  proof (cases e)
    case RtSensor
    with step rt_sensor_frame [of syn s s'] have fr: "rt_main s' = rt_main s"
      "rc_queue (rt_ctxt s') = ?q \<or> (\<exists>x. length x = sample_t_size \<and> rc_queue (rt_ctxt s') = snd (ring_push_cs ?q x False))" by auto
    from fr(2) show ?thesis
    proof
      assume "\<exists>x. length x = sample_t_size \<and> rc_queue (rt_ctxt s') = snd (ring_push_cs ?q x False)"
      then obtain x where x: "length x = sample_t_size" "rc_queue (rt_ctxt s') = snd (ring_push_cs ?q x False)" by blast
      have "rb_capacity (snd (ring_push_cs ?q x False)) = 128" using q(3) by (simp add: push_counts)
      with push_sample [OF q(1,2) x(1)] rt_push_high_water [OF q(4,5,3), of x] show ?thesis
        by (simp add: rt_queue_ok_def x(2))
    qed (use ok fr(1) in \<open>simp add: rt_queue_ok_def\<close>)
  next
    case (RtProc got)
    with step rt_proc_frame [of got s s'] have fr: "rt_main s' = rt_main s"
      "rc_queue (rt_ctxt s') = ?q \<or> rb_count ?q \<noteq> 0 \<and> rc_queue (rt_ctxt s') = snd (ring_take ?q)" by auto
    from fr(2) show ?thesis
    proof
      assume t: "rb_count ?q \<noteq> 0 \<and> rc_queue (rt_ctxt s') = snd (ring_take ?q)"
      then have "ring_inv (rc_queue (rt_ctxt s'))" using ring_advance_inv [OF q(1)] by simp
      moreover have "rb_high_water (rc_queue (rt_ctxt s')) \<le> 128" using t q(4) by (simp add: ring_take_def)
      ultimately show ?thesis using t q by (simp add: rt_queue_ok_def)
    qed (use ok fr(1) in \<open>simp add: rt_queue_ok_def\<close>)
  next
    case RtWatchdog
    with step rt_wd_frame [of s s'] have "rt_main s' = rt_main s" "\<exists>n. rt_ctxt s' = (rt_ctxt s)\<lparr>rc_watchdog_events := n\<rparr>" by auto
    with ok show ?thesis by (auto simp: rt_queue_ok_def)
  next
    case (RtMain b)
    with step rt_main_frame [of b s s'] have "\<exists>r. rt_ctxt s' = (rt_ctxt s)\<lparr>rc_running := r\<rparr> \<and> (\<forall>rc. rt_main s' \<noteq> MReturned rc)
       \<or> rt_ctxt s' = rt_destroy (rt_ctxt s) \<and> (\<exists>rc. rt_main s' = MReturned rc)" by auto
    then show ?thesis using q by (auto simp: rt_queue_ok_def Let_def)
  qed (use ok step in \<open>auto simp: rt_queue_ok_def\<close>)
qed

lemmas rt_accounts_defs = rt_accounts_def rt_in_count_def rt_in_push_def rt_in_proc_def Let_def

lemma rt_accounts_main:
  assumes "rt_accounts s" "rt_threads_ok s" "rt_main_step b s = Some s'"
  shows "rt_accounts s'"
proof -
  note fr = rt_main_frame [OF assms(3)]
  have "rt_in_count s' = rt_in_count s" "rt_in_push s' = rt_in_push s" "rt_in_proc s' = rt_in_proc s"
    using fr assms(2) by (auto simp: rt_in_count_def rt_in_push_def rt_in_proc_def rt_threads_ok_def)
  moreover have "rc_produced (rt_ctxt s') = rc_produced (rt_ctxt s)" "rc_processed (rt_ctxt s') = rc_processed (rt_ctxt s)"
      "rb_count (rc_queue (rt_ctxt s')) = rb_count (rc_queue (rt_ctxt s))" "rb_dropped (rc_queue (rt_ctxt s')) = rb_dropped (rc_queue (rt_ctxt s))"
    using fr by auto
  ultimately show ?thesis using assms(1) fr by (simp add: rt_accounts_def Let_def)
qed

lemma rt_accounts_sensor:
  assumes "rt_accounts s" "rt_threads_ok s" "sensor_thread syn s = Some s'"
  shows "rt_accounts s'"
  using assms
  by (cases "rt_sensor s")
     (auto simp: rt_accounts_defs rt_threads_ok_def sensor_thread_def ring_push_api push_counts algebra_simps split: if_splits)

lemma rt_accounts_proc:
  assumes "rt_accounts s" "processing_thread got s = Some s'"
  shows "rt_accounts s'"
proof (cases "rt_proc s = RpPop \<and> got")
  case True
  with assms(2) obtain n where n: "rb_count (rc_queue (rt_ctxt s)) = Suc n"
    by (cases "rb_count (rc_queue (rt_ctxt s))") (auto simp: processing_thread_def Let_def)
  with True assms show ?thesis by (auto simp: rt_accounts_defs processing_thread_def ring_take_def)
next
  case False
  with assms show ?thesis
    by (cases "rt_proc s") (auto simp: rt_accounts_defs processing_thread_def split: if_splits)
qed

lemma rt_accounts_step:
  assumes "rt_accounts s" "rt_threads_ok s" "rt_step syn e s = Some s'"
  shows "rt_accounts s'"
proof (cases e)
  case RtWatchdog
  with assms(3) rt_wd_frame [of s s'] have "rt_sensor s' = rt_sensor s" "rt_seq s' = rt_seq s" "rt_proc s' = rt_proc s"
    "\<exists>n. rt_ctxt s' = (rt_ctxt s)\<lparr>rc_watchdog_events := n\<rparr>" by auto
  with assms(1) show ?thesis by (auto simp: rt_accounts_defs)
next
  case (RtTick d)
  with assms(3) have "s' = s\<lparr>rt_clock := rt_clock s + d\<rparr>" by simp
  with assms(1) show ?thesis by (simp add: rt_accounts_defs)
next
  case RtSensor
  with assms show ?thesis by (simp add: rt_accounts_sensor)
next
  case (RtProc got)
  with assms show ?thesis using rt_accounts_proc by simp
next
  case (RtMain b)
  with assms show ?thesis using rt_accounts_main by simp
qed

lemma unat_of_nat_le: "unat (of_nat n :: u64) \<le> n"
  by (simp add: unat_of_nat take_bit_eq_mod)

lemma unat_age:
  fixes t :: u64
  assumes "unat t \<le> n" "n < 2 ^ 64"
  shows "unat (of_nat n - t) = n - unat t"
proof -
  have "unat (of_nat n :: u64) = n" using assms(2) by (simp add: unat_of_nat take_bit_eq_mod)
  with assms(1) show ?thesis by (simp add: unat_sub word_le_nat_alt)
qed

lemma rt_times_wd:
  assumes ok: "rt_times_ok s" and step: "watchdog_thread s = Some s'"
  shows "rt_times_ok s'"
proof (cases "rt_wd s")
  case (RwAge t)
  have "unat t + 250000000 < rt_clock s" if "rt_now s - t > 250000000" "rt_clock s < 2 ^ 64"
  proof -
    have "unat (rt_now s - t) = rt_clock s - unat t" using unat_age that(2) ok RwAge by (auto simp: rt_times_ok_def)
    moreover have "unat (rt_now s - t) > 250000000" using that(1) by (simp add: word_less_nat_alt)
    ultimately show ?thesis by simp
  qed
  with RwAge step ok show ?thesis by (auto simp: rt_times_ok_def watchdog_thread_def Let_def split: if_splits)
qed (use ok step in \<open>auto simp: rt_times_ok_def watchdog_thread_def Let_def split: if_splits\<close>)

lemma rt_times_step:
  assumes ok: "rt_times_ok s" and step: "rt_step syn e s = Some s'"
  shows "rt_times_ok s'"
proof (cases e)
  case (RtTick d)
  with step have "s' = s\<lparr>rt_clock := rt_clock s + d\<rparr>" by simp
  with ok show ?thesis by (fastforce simp: rt_times_ok_def)
next
  case RtSensor
  with step rt_sensor_frame [of syn s s'] ok show ?thesis by (simp add: rt_times_ok_def)
next
  case (RtProc got)
  with step have p: "processing_thread got s = Some s'" by simp
  show ?thesis
    using ok p by (cases "rt_proc s") (auto simp: rt_times_ok_def processing_thread_def Let_def unat_of_nat_le split: if_splits)
next
  case RtWatchdog
  with ok step rt_times_wd show ?thesis by simp
next
  case (RtMain b)
  with step have m: "rt_main_step b s = Some s'" by simp
  show ?thesis using rt_main_frame [OF m] ok by (auto simp: rt_times_ok_def)
qed

lemma rt_printed_step:
  assumes "rt_step syn e s = Some s'" and live: "\<forall>rc. rt_main s \<noteq> MReturned rc"
  shows "rt_printed_ok s'"
proof (cases e)
  case (RtMain b)
  with assms show ?thesis
    by (cases "rt_main s") (auto simp: rt_printed_ok_def rt_main_step_def rt_start_thread_def Let_def split: if_splits)
next
  case RtSensor
  with assms rt_sensor_frame [of syn s s'] show ?thesis by (simp add: rt_printed_ok_def)
next
  case (RtProc got)
  with assms rt_proc_frame [of got s s'] show ?thesis by (simp add: rt_printed_ok_def)
next
  case RtWatchdog
  with assms rt_wd_frame [of s s'] show ?thesis by (simp add: rt_printed_ok_def)
qed (use assms in \<open>auto simp: rt_printed_ok_def\<close>)

definition rt_inv :: "rt_sys \<Rightarrow> bool" where
  "rt_inv s \<longleftrightarrow> rt_queue_ok s \<and> rt_threads_ok s \<and> rt_accounts s \<and> rt_times_ok s \<and> rt_printed_ok s"

text \<open>One step of a run; once the main thread has returned nothing happens any more.\<close>

definition rt_next_state :: "(u64 \<Rightarrow> u64) \<Rightarrow> rt_event \<Rightarrow> rt_sys \<Rightarrow> rt_sys" where
  "rt_next_state syn e s =
     (case rt_main s of
        MReturned _ \<Rightarrow> s
      | _ \<Rightarrow> (case rt_step syn e s of None \<Rightarrow> s | Some s' \<Rightarrow> s'))"

lemma rt_step_inv:
  assumes "rt_inv s" "rt_step syn e s = Some s'" "\<forall>rc. rt_main s \<noteq> MReturned rc"
  shows "rt_inv s'"
  using assms rt_queue_step rt_threads_step rt_accounts_step rt_times_step rt_printed_step
  by (simp add: rt_inv_def) blast

interpretation rt: invariant_system "rt_next_state syn" rt_inv for syn
proof
  fix s e
  assume "rt_inv s"
  then show "rt_inv (rt_next_state syn e s)"
    using rt_step_inv [of s syn e] by (cases "rt_main s") (auto simp: rt_next_state_def split: option.splits)
qed

lemma rt_run_states: "rt_run syn es s = Some s' \<Longrightarrow> s' = fold (rt_next_state syn) es s"
  by (induction es arbitrary: s) (auto simp: rt_next_state_def split: option.splits rt_main_pc.splits)

lemma rt_run_inv: "rt_inv s \<Longrightarrow> rt_run syn es s = Some s' \<Longrightarrow> rt_inv s'"
  using rt.run_inv rt_run_states by blast

lemma rt_setup_cases:
  assumes "rt_setup os now args = Inr (c, duration)"
  obtains period_ms stall where "0 < duration" "duration \<le> 60" "0 < period_ms" "period_ms \<le> 1000" "0 \<le> stall" "stall \<le> 10000"
    "c = rt_zero\<lparr>rc_period_ms := period_ms, rc_inject_stall_ms := stall, rc_running := True,
           rc_last_processed_ns := now, rc_stall_once := (stall > 0),
           rc_queue := (ring_reset (replicate (128 * sample_t_size) 0) 128 sample_t_size)\<lparr>rb_lock := True, rb_not_empty := True\<rparr>\<rparr>"
  using assms
  by (auto simp: rt_setup_def rt_zero_def Let_def mlrt_ring_init_eq split: sum.splits if_splits)

lemma rt_boot_inv:
  assumes "rt_setup os (of_nat clk0) args = Inr (c, duration)" "clk0 \<le> clk"
  shows "rt_inv (rt_boot clk c duration)"
proof -
  let ?q = "(ring_reset (replicate (128 * sample_t_size) 0) 128 sample_t_size)\<lparr>rb_lock := True, rb_not_empty := True\<rparr>"
  obtain period_ms stall where c: "c = rt_zero\<lparr>rc_period_ms := period_ms, rc_inject_stall_ms := stall, rc_running := True,
           rc_last_processed_ns := of_nat clk0, rc_stall_once := (stall > 0), rc_queue := ?q\<rparr>"
    using assms(1) by (rule rt_setup_cases)
  have q: "ring_inv ?q" by (simp add: ring_inv_def ring_reset_def sample_t_size_def SIZE_MAX_def)
  have "unat (of_nat clk0 :: u64) \<le> clk" using unat_of_nat_le [of clk0] assms(2) by simp
  with q show ?thesis
    by (simp add: c rt_inv_def rt_queue_ok_def rt_threads_ok_def rt_accounts_defs rt_times_ok_def rt_printed_ok_def rt_boot_def rt_zero_def)
       (simp add: ring_reset_def)
qed

section \<open>Shutdown\<close>

text \<open>Upper bounds for the steps each thread still takes once \<open>running\<close> is cleared.\<close>

fun sensor_left :: "rt_sensor_pc \<Rightarrow> nat" where
  "sensor_left RsInit = 8"
| "sensor_left RsSleep = 7"
| "sensor_left (RsMiss _) = 6"
| "sensor_left (RsJitter _) = 5"
| "sensor_left (RsPush _) = 4"
| "sensor_left (RsCount _) = 3"
| "sensor_left (RsNext _) = 2"
| "sensor_left RsHead = 1"
| "sensor_left _ = 0"

fun proc_left :: "rt_proc_pc \<Rightarrow> nat" where
  "proc_left RpPop = 7"
| "proc_left RpStall = 6"
| "proc_left RpAsleep = 5"
| "proc_left RpCount = 4"
| "proc_left RpBeat = 3"
| "proc_left (RpStore _) = 2"
| "proc_left RpHead = 1"
| "proc_left _ = 0"

fun wd_left :: "rt_wd_pc \<Rightarrow> nat" where
  "wd_left (RwSleep _) = 5"
| "wd_left RwLoad = 4"
| "wd_left (RwAge _) = 3"
| "wd_left (RwBark _) = 2"
| "wd_left RwHead = 1"
| "wd_left _ = 0"

fun main_left :: "rt_main_pc \<Rightarrow> nat" where
  "main_left (MJoin k) = 4 - k"
| "main_left MReport = 1"
| "main_left _ = 0"

definition rt_left :: "rt_sys \<Rightarrow> nat" where
  "rt_left s = sensor_left (rt_sensor s) + proc_left (rt_proc s) + wd_left (rt_wd s) + main_left (rt_main s)"

definition rt_stopping :: "rt_sys \<Rightarrow> bool" where
  "rt_stopping s \<longleftrightarrow> \<not> rc_running (rt_ctxt s) \<and> ((\<exists>k\<le>2. rt_main s = MJoin k) \<or> rt_main s = MReport)"

fun is_tick :: "rt_event \<Rightarrow> bool" where
  "is_tick (RtTick _) = True"
| "is_tick _ = False"

lemma sensor_left_step:
  assumes "sensor_thread syn s = Some s'" "\<not> rc_running (rt_ctxt s)"
  shows "sensor_left (rt_sensor s') < sensor_left (rt_sensor s)"
  using assms by (cases "rt_sensor s") (auto simp: sensor_thread_def Let_def case_prod_unfold split: if_splits)

lemma proc_left_step:
  assumes "processing_thread got s = Some s'" "\<not> rc_running (rt_ctxt s)"
  shows "proc_left (rt_proc s') < proc_left (rt_proc s)"
  using assms by (cases "rt_proc s") (auto simp: processing_thread_def Let_def split: if_splits)

lemma wd_left_step:
  assumes "watchdog_thread s = Some s'" "\<not> rc_running (rt_ctxt s)"
  shows "wd_left (rt_wd s') < wd_left (rt_wd s)"
  using assms by (cases "rt_wd s") (auto simp: watchdog_thread_def Let_def split: if_splits)

lemma main_left_step:
  assumes "rt_main_step b s = Some s'" "rt_stopping s"
  shows "main_left (rt_main s') < main_left (rt_main s) \<and> rt_sensor s' = rt_sensor s \<and> rt_proc s' = rt_proc s \<and>
    rt_wd s' = rt_wd s \<and> (rt_stopping s' \<or> rt_main s' = MReturned 0)"
proof (cases "rt_main s = MReport")
  case True
  with assms(1) show ?thesis by (auto simp: rt_main_step_def Let_def)
next
  case False
  then obtain k where k: "rt_main s = MJoin k" "k = 0 \<or> k = 1 \<or> k = 2" "\<not> rc_running (rt_ctxt s)"
    using assms(2) by (auto simp: rt_stopping_def le_Suc_eq numeral_2_eq_2)
  from k(2) show ?thesis
    using assms(1) k(1,3) by (elim disjE) (auto simp: rt_main_step_def rt_stopping_def split: if_splits)
qed

lemma rt_left_step:
  assumes st: "rt_stopping s" and step: "rt_step syn e s = Some s'"
  shows "(if is_tick e then rt_left s' = rt_left s else rt_left s' < rt_left s) \<and> (rt_stopping s' \<or> rt_main s' = MReturned 0)"
proof (cases e)
  case (RtTick d)
  with st step show ?thesis by (auto simp: rt_left_def rt_stopping_def)
next
  case RtSensor
  with step rt_sensor_frame [of syn s s'] sensor_left_step [of syn s s'] st show ?thesis
    by (simp add: rt_left_def rt_stopping_def)
next
  case (RtProc got)
  with step rt_proc_frame [of got s s'] proc_left_step [of got s s'] st show ?thesis
    by (simp add: rt_left_def rt_stopping_def)
next
  case RtWatchdog
  with step rt_wd_frame [of s s'] have "rt_main s' = rt_main s" "rt_sensor s' = rt_sensor s" "rt_proc s' = rt_proc s"
    "rc_running (rt_ctxt s') = rc_running (rt_ctxt s)" by auto
  with RtWatchdog step wd_left_step [of s s'] st show ?thesis by (simp add: rt_left_def rt_stopping_def)
next
  case (RtMain b)
  with step st main_left_step [of b s s'] show ?thesis by (simp add: rt_left_def)
qed

lemma rt_left_run:
  assumes "rt_stopping s \<or> rt_main s = MReturned 0" "rt_run syn es s = Some s'"
  shows "length (filter (\<lambda>e. \<not> is_tick e) es) + rt_left s' \<le> rt_left s"
  using assms
proof (induction es arbitrary: s)
  case (Cons e es)
  then obtain s1 where s1: "rt_step syn e s = Some s1" "rt_run syn es s1 = Some s'" and st: "rt_stopping s"
    by (auto split: rt_main_pc.splits option.splits)
  from rt_left_step [OF st s1(1)] Cons.IH [OF _ s1(2)] show ?case by (auto split: if_splits)
qed simp

text \<open>Once the clock is late enough, some thread can make a step.\<close>

lemma rt_progress:
  assumes st: "rt_stopping s" and inv: "rt_threads_ok s"
  shows "\<exists>d e s1. rt_step syn e (s\<lparr>rt_clock := rt_clock s + d\<rparr>) = Some s1 \<and> \<not> is_tick e"
proof (cases "rt_sensor s = RsExit \<and> rt_proc s = RpExit \<and> rt_wd s = RwExit")
  case True
  with st have "\<exists>s1. rt_step syn (RtMain True) (s\<lparr>rt_clock := rt_clock s + 0\<rparr>) = Some s1"
    by (auto simp: rt_stopping_def rt_main_step_def Let_def)
  then show ?thesis by (intro exI [of _ 0] exI [of _ "RtMain True"]) simp
next
  case False
  have on: "rt_sensor s \<noteq> RsOff" "rt_proc s \<noteq> RpOff" "rt_wd s \<noteq> RwOff"
    using st inv by (auto simp: rt_stopping_def rt_threads_ok_def rt_all_started_def rt_all_ended_def)
  from False consider "rt_sensor s \<noteq> RsExit" | "rt_proc s \<noteq> RpExit" | "rt_wd s \<noteq> RwExit" by blast
  then show ?thesis
  proof cases
    case 1
    with on(1) have "\<exists>s1. rt_step syn RtSensor (s\<lparr>rt_clock := rt_clock s + unat (rt_next s)\<rparr>) = Some s1"
      by (cases "rt_sensor s") (auto simp: sensor_thread_def Let_def case_prod_unfold ns_to_ts_roundtrip)
    then show ?thesis using is_tick.simps by blast
  next
    case 2
    with on(2) have "\<exists>s1. rt_step syn (RtProc False) (s\<lparr>rt_clock := rt_clock s + 0\<rparr>) = Some s1"
      by (cases "rt_proc s") (auto simp: processing_thread_def Let_def)
    then show ?thesis using is_tick.simps by blast
  next
    case 3
    let ?d = "case rt_wd s of RwSleep t \<Rightarrow> t | _ \<Rightarrow> 0"
    from 3 on(3) have "\<exists>s1. rt_step syn RtWatchdog (s\<lparr>rt_clock := rt_clock s + ?d\<rparr>) = Some s1"
      by (cases "rt_wd s") (auto simp: watchdog_thread_def Let_def)
    then show ?thesis using is_tick.simps by blast
  qed
qed

lemma rt_stops:
  assumes "rt_stopping s" "rt_threads_ok s"
  shows "\<exists>es s'. rt_run syn es s = Some s' \<and> rt_main s' = MReturned 0"
  using assms
proof (induction "rt_left s" arbitrary: s rule: less_induct)
  case less
  have live: "\<forall>rc. rt_main s \<noteq> MReturned rc" using less.prems(1) by (auto simp: rt_stopping_def)
  obtain d e s1 where step: "rt_step syn e (s\<lparr>rt_clock := rt_clock s + d\<rparr>) = Some s1" "\<not> is_tick e"
    using rt_progress [OF less.prems] by blast
  let ?t = "s\<lparr>rt_clock := rt_clock s + d\<rparr>"
  have t: "rt_step syn (RtTick d) s = Some ?t" by simp
  have st: "rt_stopping ?t" "rt_left ?t = rt_left s" using less.prems(1) by (auto simp: rt_stopping_def rt_left_def)
  have ok: "rt_threads_ok s1" using rt_threads_step [OF rt_threads_step [OF less.prems(2) t] step(1)] .
  have run: "rt_run syn (RtTick d # e # es) s = rt_run syn es s1" for es
    using live t step(1) by (auto split: rt_main_pc.splits)
  from rt_left_step [OF st(1) step(1)] step(2) st(2) have l: "rt_left s1 < rt_left s" "rt_stopping s1 \<or> rt_main s1 = MReturned 0"
    by auto
  from l(2) show ?case
  proof
    assume "rt_stopping s1"
    with less.hyps [OF l(1) _ ok] run show ?thesis by metis
  next
    assume "rt_main s1 = MReturned 0"
    moreover have "rt_run syn [RtTick d, e] s = Some s1" using run [of "[]"] by simp
    ultimately show ?thesis by blast
  qed
qed

section \<open>Properties\<close>

definition rt_sample_ctx :: rt_ctx where
  "rt_sample_ctx = rt_zero\<lparr>rc_period_ms := 10, rc_running := True, rc_last_processed_ns := 1000,
     rc_queue := (ring_reset (replicate (128 * sample_t_size) 0) 128 sample_t_size)\<lparr>rb_lock := True, rb_not_empty := True\<rparr>\<rparr>"

lemma rt_sample_setup: "rt_setup pthread_all_ok (of_nat 1000) [] = Inr (rt_sample_ctx, 2)"
  by (simp add: rt_setup_def rt_sample_ctx_def rt_zero_def mlrt_ring_init_eq ring_args_ok_def pthread_ok_def pthread_all_ok_def sample_t_size_def SIZE_MAX_def)

text \<open>The main thread creates the threads, sleeps, and clears \<open>running\<close>.\<close>

definition rt_until_join :: "rt_event list" where
  "rt_until_join = [RtMain True, RtMain True, RtMain True, RtTick 2000000000, RtMain True, RtMain True]"

lemma rt_until_join_run:
  "\<exists>s. rt_run syn rt_until_join (rt_boot clk c 2) = Some s \<and> rt_main s = MJoin 0 \<and> \<not> rc_running (rt_ctxt s) \<and>
     rt_proc s = RpHead \<and> rt_clock s = clk + 2000000000 \<and> rc_last_processed_ns (rt_ctxt s) = rc_last_processed_ns c \<and>
     rt_wd s = RwHead \<and> rc_watchdog_events (rt_ctxt s) = rc_watchdog_events c \<and> \<not> rt_latched s"
  by (simp add: rt_until_join_def rt_boot_def rt_steps)

lemma rt_join_stopping:
  assumes "rt_threads_ok s" "rt_main s = MJoin k"
  shows "rt_stopping s"
  using assms by (auto simp: rt_threads_ok_def rt_stopping_def)

text \<open>
  C15. When the demonstration has returned with code 0, in whatever way its threads were interleaved,
  all of them have ended before the queue was destroyed, and the report adds up: produced samples are
  the processed ones and those left in the queue, every sequence number is a sample produced or one
  dropped, and the high-water mark is at most the capacity of 128.
\<close>

theorem rt_report_accounts:
  assumes "rt_setup os (of_nat clk0) args = Inr (c, duration)" "clk0 \<le> clk"
    and "rt_run syn es (rt_boot clk c duration) = Some s" "rt_main s = MReturned 0"
  shows "rt_all_ended s \<and>
    (\<exists>r. rt_printed s = Some r \<and>
       rp_produced r = rp_processed r + of_nat (rb_count (rc_queue (rt_ctxt s))) \<and>
       rt_seq s = rp_produced r + rp_dropped r \<and> rp_high_water r \<le> rp_capacity r \<and> rp_capacity r = 128)"
proof -
  have inv: "rt_inv s" using rt_run_inv [OF rt_boot_inv [OF assms(1,2)] assms(3)] .
  have ended: "rt_all_ended s" using inv assms(4) by (simp add: rt_inv_def rt_threads_ok_def)
  have acc: "rt_accounts s" "rt_queue_ok s" "rt_printed s = Some (rt_metrics (rt_ctxt s))"
    using inv assms(4) by (simp_all add: rt_inv_def rt_printed_ok_def)
  then show ?thesis
    using ended by (simp add: rt_accounts_defs rt_all_ended_def rt_queue_ok_def rt_metrics_def mlrt_ring_get_stats_def)
qed

theorem rt_report_accounts_witness:
  "\<exists>es s r. rt_run id es (rt_boot 1000 rt_sample_ctx 2) = Some s \<and> rt_printed s = Some r \<and> rt_seq s = rp_produced r + rp_dropped r"
proof -
  obtain s where s: "rt_run id rt_until_join (rt_boot 1000 rt_sample_ctx 2) = Some s" "rt_main s = MJoin 0"
    using rt_until_join_run by blast
  have ok: "rt_threads_ok s" using rt_run_inv [OF rt_boot_inv [OF rt_sample_setup order_refl] s(1)] by (simp add: rt_inv_def)
  obtain es s' where e: "rt_run id es s = Some s'" "rt_main s' = MReturned 0"
    using rt_stops [OF rt_join_stopping [OF ok s(2)] ok] by blast
  then have run: "rt_run id (rt_until_join @ es) (rt_boot 1000 rt_sample_ctx 2) = Some s'"
    using s(1) by (simp add: rt_run_append)
  from rt_report_accounts [OF rt_sample_setup order_refl run e(2)] run show ?thesis by blast
qed

text \<open>
  C16. Shutdown: once the main thread has cleared \<open>running\<close> and joins the threads, no interleaving
  makes more than 24 further steps, and as long as the clock advances the threads cannot block each
  other: the command can always reach its return.
\<close>

theorem rt_demo_shuts_down:
  assumes "rt_setup os (of_nat clk0) args = Inr (c, duration)" "clk0 \<le> clk"
    and "rt_run syn es (rt_boot clk c duration) = Some s" "rt_main s = MJoin k"
  shows "(\<forall>es' s'. rt_run syn es' s = Some s' \<longrightarrow> length (filter (\<lambda>e. \<not> is_tick e) es') \<le> 24) \<and>
    (\<exists>es' s'. rt_run syn es' s = Some s' \<and> rt_main s' = MReturned 0)"
proof -
  have ok: "rt_threads_ok s" using rt_run_inv [OF rt_boot_inv [OF assms(1,2)] assms(3)] by (simp add: rt_inv_def)
  note st = rt_join_stopping [OF ok assms(4)]
  have b1: "sensor_left p \<le> 8" for p by (cases p) simp_all
  have b2: "proc_left p \<le> 7" for p by (cases p) simp_all
  have b3: "wd_left p \<le> 5" for p by (cases p) simp_all
  have "main_left (rt_main s) \<le> 4" using assms(4) by simp
  with b1 [of "rt_sensor s"] b2 [of "rt_proc s"] b3 [of "rt_wd s"] have "rt_left s \<le> 24" by (simp add: rt_left_def)
  with rt_left_run [of s syn] st rt_stops [OF st ok, of syn] show ?thesis
    by (meson add_leD1 order_trans)
qed

theorem rt_demo_shuts_down_witness:
  "\<exists>s. rt_run id rt_until_join (rt_boot 1000 rt_sample_ctx 2) = Some s \<and>
     (\<exists>es' s'. rt_run id es' s = Some s' \<and> rt_main s' = MReturned 0)"
proof -
  obtain s where s: "rt_run id rt_until_join (rt_boot 1000 rt_sample_ctx 2) = Some s" "rt_main s = MJoin 0"
    using rt_until_join_run by blast
  with rt_demo_shuts_down [OF rt_sample_setup order_refl s] show ?thesis by blast
qed

text \<open>
  The alarm of the demonstration's watchdog is never false: in every interleaving, as long as the
  clock fits into 64 bits, a step that counts a watchdog event is the end of a check that read a
  heartbeat more than 250 ms old, and it happens only when the watchdog was not latched already.
\<close>

theorem rt_alarm_genuine:
  assumes "rt_setup os (of_nat clk0) args = Inr (c, duration)" "clk0 \<le> clk"
    and "rt_run syn es (rt_boot clk c duration) = Some s" "rt_step syn e s = Some s'" "rt_clock s < 2 ^ 64"
    and "rc_watchdog_events (rt_ctxt s') \<noteq> rc_watchdog_events (rt_ctxt s)"
  shows "\<exists>t. rt_wd s = RwBark t \<and> unat t + 250000000 < rt_clock s \<and> rt_latched s' \<and>
    rc_watchdog_events (rt_ctxt s') = rc_watchdog_events (rt_ctxt s) + 1"
proof -
  have ok: "rt_times_ok s" using rt_run_inv [OF rt_boot_inv [OF assms(1,2)] assms(3)] by (simp add: rt_inv_def)
  have "rt_main_step b s = Some s' \<Longrightarrow> rc_watchdog_events (rt_ctxt s') = rc_watchdog_events (rt_ctxt s)" for b
    using rt_main_frame [of b s s'] by (auto simp: rt_destroy_def)
  then have "watchdog_thread s = Some s'"
    using assms(4,6) rt_sensor_frame [of syn s s'] rt_proc_frame [of _ s s'] by (cases e) auto
  then show ?thesis
    using assms(5,6) ok by (cases "rt_wd s") (auto simp: watchdog_thread_def Let_def rt_times_ok_def split: if_splits)
qed

lemma rt_alarm_run:
  "\<exists>s s'. rt_run id [RtMain True, RtMain True, RtMain True, RtWatchdog, RtTick 2000000000, RtWatchdog, RtWatchdog, RtWatchdog]
       (rt_boot 1000 rt_sample_ctx 2) = Some s \<and> rt_step id RtWatchdog s = Some s' \<and> rt_clock s = 2000001000 \<and>
     rc_watchdog_events (rt_ctxt s) = 0 \<and> rc_watchdog_events (rt_ctxt s') = 1"
  by (simp add: rt_boot_def rt_steps rt_sample_ctx_def rt_zero_def)

theorem rt_alarm_genuine_witness:
  "\<exists>s s' t. rt_step id RtWatchdog s = Some s' \<and> rt_wd s = RwBark t \<and> unat t + 250000000 < rt_clock s \<and>
     rc_watchdog_events (rt_ctxt s') = rc_watchdog_events (rt_ctxt s) + 1"
proof -
  obtain s s' where s: "rt_run id [RtMain True, RtMain True, RtMain True, RtWatchdog, RtTick 2000000000, RtWatchdog, RtWatchdog, RtWatchdog]
       (rt_boot 1000 rt_sample_ctx 2) = Some s" "rt_step id RtWatchdog s = Some s'" "rt_clock s = 2000001000"
     "rc_watchdog_events (rt_ctxt s) = 0" "rc_watchdog_events (rt_ctxt s') = 1"
    using rt_alarm_run by blast
  have "rt_clock s < 2 ^ 64" "rc_watchdog_events (rt_ctxt s') \<noteq> rc_watchdog_events (rt_ctxt s)" using s(3-5) by simp_all
  from rt_alarm_genuine [OF rt_sample_setup order_refl s(1,2) this] s(2) show ?thesis by blast
qed

text \<open>
  When a thread cannot be created, the command clears \<open>running\<close> but does not join the threads that
  already run: it destroys the queue and returns, which ends the context on its stack, while the
  sensor thread still has all of its work before it.
\<close>

theorem rt_failed_start_abandons_threads:
  "\<exists>s. rt_run syn [RtMain True, RtSensor, RtSensor, RtMain False, RtMain b, RtMain b] (rt_boot clk c duration) = Some s \<and>
     rt_main s = MReturned 1 \<and> rt_sensor s = RsSleep \<and> \<not> rb_lock (rc_queue (rt_ctxt s))"
  if "rc_running c"
  using that by (simp add: rt_boot_def rt_steps rt_destroy_def mlrt_ring_destroy_def)

text \<open>
  Every period adds its jitter to the sum, but only accepted samples are counted as produced, and the
  average is the sum divided by that count: with a full queue the average grows with every drop and
  is not bounded by the maximum.
\<close>

theorem rt_average_counts_drops:
  assumes "rt_main s = MSleep t" "rt_sensor s = RsMiss actual" "rb_count (rc_queue (rt_ctxt s)) = rb_capacity (rc_queue (rt_ctxt s))"
    and "actual \<le> rt_next s + rt_period_ns (rt_ctxt s)"
  shows "\<exists>s'. rt_run syn [RtSensor, RtSensor, RtSensor, RtSensor] s = Some s' \<and>
    rc_jitter_sum_ns (rt_ctxt s') = rc_jitter_sum_ns (rt_ctxt s) + rt_jitter actual (rt_next s) \<and>
    rc_produced (rt_ctxt s') = rc_produced (rt_ctxt s) \<and> rt_sensor s' = RsHead"
  using assms by (simp add: sensor_thread_def Let_def ring_push_api push_counts)

end
