(* ===== verification/Datapath.thy ===== *)
theory Datapath
  imports Embedded_Protocol C_Strings "HOL-Library.AList"
begin

text \<open>
  The UDP datapath of \<^verbatim>\<open>projects/network-verification-lab/src/datapath.cpp\<close>: checked datagrams with
  sessions, acknowledgement by echo, protection against replay by serial numbers, counters and the
  requests that read and reset them; then the receive loop and the command line. The map of sessions
  is an association list with distinct keys; \<open>std::map\<close> offers nothing else that the code uses.
\<close>

section \<open>Wire format\<close>

definition NVER_MAGIC :: u32 where "NVER_MAGIC = 0x4e564552"
definition NVER_VERSION :: byte where "NVER_VERSION = 1"
definition NVER_HEADER_BYTES :: nat where "NVER_HEADER_BYTES = 24"
definition NVER_MAX_PAYLOAD :: nat where "NVER_MAX_PAYLOAD = 1400"
definition NVER_MAX_SESSIONS :: nat where "NVER_MAX_SESSIONS = 64"
definition NVER_MAX_DATAGRAM :: nat where "NVER_MAX_DATAGRAM = 65536"

lemmas nver_consts = NVER_MAGIC_def NVER_VERSION_def NVER_HEADER_BYTES_def NVER_MAX_PAYLOAD_def NVER_MAX_SESSIONS_def
  NVER_MAX_DATAGRAM_def

datatype nver_kind = Data | Ack | StatsRequest | StatsReply | ResetRequest | ResetReply

fun kind_code :: "nver_kind \<Rightarrow> byte" where
  "kind_code Data = 1"
| "kind_code Ack = 2"
| "kind_code StatsRequest = 3"
| "kind_code StatsReply = 4"
| "kind_code ResetRequest = 5"
| "kind_code ResetReply = 6"

definition nver_u16 :: "byte list \<Rightarrow> u16" where
  "nver_u16 p = push_bit 8 (ucast (p ! 0)) OR ucast (p ! 1)"

definition nver_u32 :: "byte list \<Rightarrow> u32" where
  "nver_u32 p =
     push_bit 24 (ucast (p ! 0)) OR push_bit 16 (ucast (p ! 1)) OR push_bit 8 (ucast (p ! 2)) OR ucast (p ! 3)"

definition nver_put16 :: "byte list \<Rightarrow> u16 \<Rightarrow> byte list" where
  "nver_put16 out n = out @ [ucast (drop_bit 8 n), ucast n]"

definition nver_put32 :: "byte list \<Rightarrow> u32 \<Rightarrow> byte list" where
  "nver_put32 out n = out @ [ucast (drop_bit 24 n), ucast (drop_bit 16 n), ucast (drop_bit 8 n), ucast n]"

definition nver_crc_bit :: "u32 \<Rightarrow> u32" where
  "nver_crc_bit v = drop_bit 1 v XOR (if v AND 1 \<noteq> 0 then 0xedb88320 else 0)"

fun nver_crc32 :: "byte list \<Rightarrow> u32 \<Rightarrow> u32" where
  "nver_crc32 [] v = v"
| "nver_crc32 (b # bs) v = nver_crc32 bs ((nver_crc_bit ^^ 8) (v XOR ucast b))"

record nver_header =
  nh_kind :: byte
  nh_flags :: u16
  nh_session :: u32
  nh_sequence :: u32
  nh_length :: u16
  nh_reserved :: u16

definition nver_encode :: "nver_kind \<Rightarrow> u32 \<Rightarrow> u32 \<Rightarrow> byte list \<Rightarrow> byte list" where
  "nver_encode kind session sequence payload =
     (let out = nver_put32 [] NVER_MAGIC;
          out = out @ [NVER_VERSION];
          out = out @ [kind_code kind];
          out = nver_put16 out 0;
          out = nver_put32 out session;
          out = nver_put32 out sequence;
          out = nver_put16 out (of_nat (length payload));
          out = nver_put16 out 0;
          check = nver_crc32 out 0xffffffff;
          check = (if payload \<noteq> [] then nver_crc32 payload check else check);
          out = nver_put32 out (check XOR 0xffffffff)
      in out @ payload)"

section \<open>The datapath\<close>

record nver_counters =
  ct_datagrams :: u64
  ct_accepted :: u64
  ct_invalid :: u64
  ct_crc_errors :: u64
  ct_length_errors :: u64
  ct_replay_errors :: u64
  ct_header_errors :: u64
  ct_type_errors :: u64
  ct_session_errors :: u64
  ct_bytes_accepted :: u64

definition zero_counters :: nver_counters where
  "zero_counters = \<lparr>ct_datagrams = 0, ct_accepted = 0, ct_invalid = 0, ct_crc_errors = 0, ct_length_errors = 0,
     ct_replay_errors = 0, ct_header_errors = 0, ct_type_errors = 0, ct_session_errors = 0, ct_bytes_accepted = 0\<rparr>"

record datapath =
  dp_counts :: nver_counters
  dp_last_seq :: "(u32 \<times> u32) list"

definition datapath_init :: datapath where
  "datapath_init = \<lparr>dp_counts = zero_counters, dp_last_seq = []\<rparr>"

definition nver_quoted :: "string \<Rightarrow> string" where
  "nver_quoted name = CHR 0x22 # name @ [CHR 0x22, CHR 0x3A]"

definition nver_stats :: "datapath \<Rightarrow> string" where
  "nver_stats dp =
     (let c = dp_counts dp; num = (\<lambda>v. dec (unat (v :: u64))) in
      ''{'' @ nver_quoted ''datagrams'' @ num (ct_datagrams c) @
      '','' @ nver_quoted ''accepted'' @ num (ct_accepted c) @
      '','' @ nver_quoted ''invalid'' @ num (ct_invalid c) @
      '','' @ nver_quoted ''crc_errors'' @ num (ct_crc_errors c) @
      '','' @ nver_quoted ''length_errors'' @ num (ct_length_errors c) @
      '','' @ nver_quoted ''replay_errors'' @ num (ct_replay_errors c) @
      '','' @ nver_quoted ''header_errors'' @ num (ct_header_errors c) @
      '','' @ nver_quoted ''type_errors'' @ num (ct_type_errors c) @
      '','' @ nver_quoted ''session_errors'' @ num (ct_session_errors c) @
      '','' @ nver_quoted ''bytes_accepted'' @ num (ct_bytes_accepted c) @
      '','' @ nver_quoted ''sessions'' @ dec (length (dp_last_seq dp)) @ ''}'')"

definition nver_parse :: "byte list \<Rightarrow> nver_header" where
  "nver_parse bytes =
     \<lparr>nh_kind = bytes ! 5, nh_flags = nver_u16 (drop 6 bytes), nh_session = nver_u32 (drop 8 bytes),
      nh_sequence = nver_u32 (drop 12 bytes), nh_length = nver_u16 (drop 16 bytes), nh_reserved = nver_u16 (drop 18 bytes)\<rparr>"

definition dp_count :: "(nver_counters \<Rightarrow> nver_counters) \<Rightarrow> datapath \<Rightarrow> datapath" where
  "dp_count f dp = dp\<lparr>dp_counts := f (dp_counts dp)\<rparr>"

definition dp_reject :: "(nver_counters \<Rightarrow> nver_counters) \<Rightarrow> datapath \<Rightarrow> byte list \<times> datapath" where
  "dp_reject f dp = ([], dp_count (\<lambda>c. f (c\<lparr>ct_invalid := ct_invalid c + 1\<rparr>)) dp)"

text \<open>The branch for data packets, then the whole function; the result is the reply, empty for none.\<close>

definition process_data :: "datapath \<Rightarrow> nver_header \<Rightarrow> byte list \<Rightarrow> byte list \<times> datapath" where
  "process_data dp h bytes =
     (let it = map_of (dp_last_seq dp) (nh_session h)
      in if it = None \<and> length (dp_last_seq dp) = NVER_MAX_SESSIONS
         then dp_reject (\<lambda>c. c\<lparr>ct_session_errors := ct_session_errors c + 1\<rparr>) dp
         else
           let delta = (case it of None \<Rightarrow> 1 | Some s \<Rightarrow> nh_sequence h - s)
           in if delta = 0 \<or> delta \<ge> 0x80000000
              then dp_reject (\<lambda>c. c\<lparr>ct_replay_errors := ct_replay_errors c + 1\<rparr>) dp
              else (nver_encode Ack (nh_session h) (nh_sequence h) (drop NVER_HEADER_BYTES bytes),
                    dp_count (\<lambda>c. c\<lparr>ct_accepted := ct_accepted c + 1,
                                    ct_bytes_accepted := ct_bytes_accepted c + ucast (nh_length h)\<rparr>)
                      (dp\<lparr>dp_last_seq := AList.update (nh_session h) (nh_sequence h) (dp_last_seq dp)\<rparr>)))"

definition nver_control :: "nver_kind \<Rightarrow> nver_header \<Rightarrow> bool" where
  "nver_control k h \<longleftrightarrow> nh_kind h = kind_code k \<and> nh_session h = 0 \<and> nh_sequence h = 0 \<and> nh_length h = 0"

definition nver_sum :: "byte list \<Rightarrow> nver_header \<Rightarrow> u32" where
  "nver_sum bytes h =
     (let sum = nver_crc32 (take 20 bytes) 0xffffffff
      in if nh_length h \<noteq> 0 then nver_crc32 (slice NVER_HEADER_BYTES (unat (nh_length h)) bytes) sum else sum)"

definition dp_process :: "datapath \<Rightarrow> byte list \<Rightarrow> byte list \<times> datapath" where
  "dp_process dp0 bytes =
     (let dp = dp_count (\<lambda>c. c\<lparr>ct_datagrams := ct_datagrams c + 1\<rparr>) dp0 in
      if length bytes < NVER_HEADER_BYTES then dp_reject (\<lambda>c. c\<lparr>ct_length_errors := ct_length_errors c + 1\<rparr>) dp
      else
        let h = nver_parse bytes in
        if nver_u32 bytes \<noteq> NVER_MAGIC \<or> bytes ! 4 \<noteq> NVER_VERSION \<or> nh_flags h \<noteq> 0 \<or> nh_reserved h \<noteq> 0
        then dp_reject (\<lambda>c. c\<lparr>ct_header_errors := ct_header_errors c + 1\<rparr>) dp
        else if unat (nh_length h) > NVER_MAX_PAYLOAD \<or> length bytes \<noteq> NVER_HEADER_BYTES + unat (nh_length h)
        then dp_reject (\<lambda>c. c\<lparr>ct_length_errors := ct_length_errors c + 1\<rparr>) dp
        else if (nver_sum bytes h XOR 0xffffffff) \<noteq> nver_u32 (drop 20 bytes)
        then dp_reject (\<lambda>c. c\<lparr>ct_crc_errors := ct_crc_errors c + 1\<rparr>) dp
        else if nh_kind h = kind_code Data then process_data dp h bytes
        else if nver_control StatsRequest h
        then (nver_encode StatsReply 0 0 (map of_char (nver_stats dp)), dp)
        else if nver_control ResetRequest h
        then (nver_encode ResetReply 0 0 [], dp\<lparr>dp_counts := zero_counters, dp_last_seq := []\<rparr>)
        else dp_reject (\<lambda>c. c\<lparr>ct_type_errors := ct_type_errors c + 1\<rparr>) dp)"

section \<open>Receive loop and command line\<close>

text \<open>
  What \<open>recvfrom\<close> returns: a datagram (cut to the size of the buffer) with its sender, an interruption
  or a failure. The result of the loop: the return value, if it returned, and the replies with their
  receivers. Whether \<open>sendto\<close> succeeds changes nothing but a message.
\<close>

datatype 'p udp_event = Datagram 'p "byte list" | UdpIntr | UdpFail

fun nver_loop :: "datapath \<Rightarrow> 'p udp_event list \<Rightarrow> int option \<times> ('p \<times> byte list) list \<times> datapath" where
  "nver_loop dp [] = (None, [], dp)"
| "nver_loop dp (UdpIntr # es) = nver_loop dp es"
| "nver_loop dp (UdpFail # es) = (Some 1, [], dp)"
| "nver_loop dp (Datagram p d # es) =
     (let (reply, dp') = dp_process dp (take NVER_MAX_DATAGRAM d);
          (rc, sent, dp'') = nver_loop dp' es
      in (rc, (if reply \<noteq> [] then (p, reply) # sent else sent), dp''))"

text \<open>The calls that set up the socket; the result is whether the loop is entered, and what was closed.\<close>

datatype nver_error = ESocket | EAddress | EBind | ESockname

record nver_os =
  no_socket :: int
  no_pton :: "string \<Rightarrow> bool"
  no_bind :: bool
  no_sockname :: bool

definition nver_open :: "nver_os \<Rightarrow> string \<Rightarrow> nver_error + int" where
  "nver_open os host =
     (if no_socket os < 0 then Inl ESocket
      else if \<not> no_pton os host then Inl EAddress
      else if \<not> no_bind os then Inl EBind
      else if \<not> no_sockname os then Inl ESockname
      else Inr (no_socket os))"

definition nver_closed :: "nver_os \<Rightarrow> string \<Rightarrow> int list" where
  "nver_closed os host =
     (case nver_open os host of
        Inl e \<Rightarrow> if e = ESocket then [] else [no_socket os]
      | Inr _ \<Rightarrow> [])"

text \<open>A port argument: nonempty, digits only, within \<open>int\<close> (else \<open>stoi\<close> throws) and at most 65535.\<close>

definition nver_port :: "string \<Rightarrow> int option" where
  "nver_port v =
     (if v = [] \<or> \<not> list_all c_isdigit v then None
      else let n = int (dec_value v) in if n > 2 ^ 31 - 1 then None else if n < 0 \<or> n > 65535 then None else Some n)"

fun nver_options :: "string \<Rightarrow> int \<Rightarrow> string list \<Rightarrow> int + (string \<times> int)" where
  "nver_options host port [] = Inr (host, port)"
| "nver_options host port (a # as) =
     (if a = ''--bind'' \<and> as \<noteq> [] then nver_options (hd as) port (tl as)
      else if a = ''--port'' \<and> as \<noteq> [] then
        (case nver_port (hd as) of None \<Rightarrow> Inl 2 | Some p \<Rightarrow> nver_options host p (tl as))
      else if a = ''--help'' then Inl 0
      else Inl 2)"

text \<open>The whole program: exit code if it ends, replies, closed descriptors.\<close>

definition nver_main :: "nver_os \<Rightarrow> string list \<Rightarrow> 'p udp_event list \<Rightarrow> int option \<times> ('p \<times> byte list) list \<times> int list" where
  "nver_main os args evs =
     (case nver_options ''127.0.0.1'' 0 args of
        Inl code \<Rightarrow> (Some code, [], [])
      | Inr (host, port) \<Rightarrow>
          (case nver_open os host of
             Inl _ \<Rightarrow> (Some 1, [], nver_closed os host)
           | Inr fd \<Rightarrow>
               let (rc, sent, _) = nver_loop datapath_init evs
               in (rc, sent, if rc = None then [] else [fd])))"

section \<open>The wire format as a whole\<close>

text \<open>The helper functions are those of the packet protocol, and the checksum is the same one.\<close>

lemma nver_ints: "nver_u16 = get_u16_be" "nver_u32 = get_u32_be"
    "nver_put16 out v = out @ put_u16_be v" "nver_put32 out w = out @ put_u32_be w"
  by (simp_all add: fun_eq_iff nver_u16_def nver_u32_def get_u16_be_def get_u32_be_def nver_put16_def nver_put32_def
      put_u16_be_def put_u32_be_def)

lemma nver_crc_bit_eq: "nver_crc_bit = crc32_bit"
proof
  fix v :: u32
  have "v AND 1 = (if odd v then 1 else 0)" by (simp add: and_one_eq odd_iff_mod_2_eq_one)
  then show "nver_crc_bit v = crc32_bit v" by (simp add: nver_crc_bit_def crc32_bit_alt)
qed

lemma nver_crc32_eq: "nver_crc32 bs v = mlrt_crc32_update v bs"
  by (induction bs arbitrary: v) (simp_all add: mlrt_crc32_update_def crc32_byte_def nver_crc_bit_eq)

lemma nver_crc32_whole: "nver_crc32 xs 0xffffffff XOR 0xffffffff = mlrt_crc32 xs"
  by (simp add: nver_crc32_eq mlrt_crc32_def mlrt_crc32_begin_def mlrt_crc32_end_def)

definition nver_head :: "byte \<Rightarrow> u32 \<Rightarrow> u32 \<Rightarrow> byte list \<Rightarrow> byte list" where
  "nver_head k session sequence payload =
     put_u32_be NVER_MAGIC @ [NVER_VERSION, k] @ put_u16_be 0 @ put_u32_be session @ put_u32_be sequence @
     put_u16_be (of_nat (length payload)) @ put_u16_be 0"

definition nver_frame :: "byte \<Rightarrow> u32 \<Rightarrow> u32 \<Rightarrow> byte list \<Rightarrow> byte list" where
  "nver_frame k session sequence payload =
     nver_head k session sequence payload @ put_u32_be (mlrt_crc32 (nver_head k session sequence payload @ payload)) @ payload"

lemma length_nver_head [simp]: "length (nver_head k ses q p) = 20"
  by (simp add: nver_head_def)

lemma length_nver_frame [simp]: "length (nver_frame k ses q p) = 24 + length p"
  by (simp add: nver_frame_def)

lemma nver_encode_frame: "nver_encode k ses q p = nver_frame (kind_code k) ses q p"
proof -
  have "nver_crc32 p (nver_crc32 h v) = nver_crc32 (h @ p) v" for h v
    by (simp add: nver_crc32_eq mlrt_crc32_update_append)
  then show ?thesis
    by (simp add: nver_encode_def Let_def nver_ints nver_frame_def nver_head_def nver_crc32_whole flip: append_assoc)
       (simp add: nver_crc32_whole)
qed

lemma nver_frame_layout:
  "nver_frame k ses q p = put_u32_be NVER_MAGIC @ [NVER_VERSION, k] @ put_u16_be 0 @ put_u32_be ses @ put_u32_be q @
     put_u16_be (of_nat (length p)) @ put_u16_be 0 @ put_u32_be (mlrt_crc32 (nver_head k ses q p @ p)) @ p"
  by (simp add: nver_frame_def nver_head_def)

lemma get_put_be_at:
  "n = length xs \<Longrightarrow> get_u32_be (drop n (xs @ put_u32_be v @ rest)) = v"
  "n = length xs \<Longrightarrow> get_u16_be (drop n (xs @ put_u16_be w @ rest)) = w"
  by simp_all

lemma nver_frame_fields:
  shows "get_u32_be (nver_frame k ses q p) = NVER_MAGIC" "nver_frame k ses q p ! 4 = NVER_VERSION"
    "nver_parse (nver_frame k ses q p) =
       \<lparr>nh_kind = k, nh_flags = 0, nh_session = ses, nh_sequence = q, nh_length = of_nat (length p), nh_reserved = 0\<rparr>"
    "get_u32_be (drop 20 (nver_frame k ses q p)) = mlrt_crc32 (nver_head k ses q p @ p)"
    "drop 24 (nver_frame k ses q p) = p" "take 20 (nver_frame k ses q p) = nver_head k ses q p"
proof -
  let ?f = "nver_frame k ses q p"
  show "get_u32_be ?f = NVER_MAGIC" unfolding nver_frame_layout by (rule get_put_u32_be)
  show "?f ! 4 = NVER_VERSION" by (simp add: nver_frame_layout nth_append)
  have b: "?f ! 5 = k" by (simp add: nver_frame_layout nth_append)
  have f: "get_u16_be (drop 6 ?f) = 0" "get_u32_be (drop 8 ?f) = ses" "get_u32_be (drop 12 ?f) = q"
    "get_u16_be (drop 16 ?f) = of_nat (length p)" "get_u16_be (drop 18 ?f) = 0"
    using get_put_be_at(2) [of 6 "put_u32_be NVER_MAGIC @ [NVER_VERSION, k]"]
      get_put_be_at(1) [of 8 "put_u32_be NVER_MAGIC @ [NVER_VERSION, k] @ put_u16_be 0"]
      get_put_be_at(1) [of 12 "put_u32_be NVER_MAGIC @ [NVER_VERSION, k] @ put_u16_be 0 @ put_u32_be ses"]
      get_put_be_at(2) [of 16 "put_u32_be NVER_MAGIC @ [NVER_VERSION, k] @ put_u16_be 0 @ put_u32_be ses @ put_u32_be q"]
      get_put_be_at(2) [of 18 "put_u32_be NVER_MAGIC @ [NVER_VERSION, k] @ put_u16_be 0 @ put_u32_be ses @ put_u32_be q @ put_u16_be (of_nat (length p))"]
    by (simp_all add: nver_frame_layout)
  show "nver_parse ?f = \<lparr>nh_kind = k, nh_flags = 0, nh_session = ses, nh_sequence = q, nh_length = of_nat (length p), nh_reserved = 0\<rparr>"
    by (simp add: nver_parse_def nver_ints b f)
  show "get_u32_be (drop 20 ?f) = mlrt_crc32 (nver_head k ses q p @ p)" by (simp add: nver_frame_def)
  show "drop 24 ?f = p" "take 20 ?f = nver_head k ses q p" by (simp_all add: nver_frame_def)
qed

text \<open>The checks that precede the interpretation of a datagram.\<close>

definition nver_checked :: "byte list \<Rightarrow> bool" where
  "nver_checked b \<longleftrightarrow>
     (let h = nver_parse b in
      NVER_HEADER_BYTES \<le> length b \<and> nver_u32 b = NVER_MAGIC \<and> b ! 4 = NVER_VERSION \<and> nh_flags h = 0 \<and> nh_reserved h = 0 \<and>
      unat (nh_length h) \<le> NVER_MAX_PAYLOAD \<and> length b = NVER_HEADER_BYTES + unat (nh_length h) \<and>
      nver_sum b h XOR 0xffffffff = nver_u32 (drop 20 b))"

lemma unat_len16: "n \<le> 1400 \<Longrightarrow> unat (of_nat n :: u16) = n"
  by (simp add: unat_of_nat take_bit_eq_mod)

lemma nver_sum_eq:
  assumes "length b = 24 + unat (nh_length h)"
  shows "nver_sum b h XOR 0xffffffff = mlrt_crc32 (take 20 b @ drop 24 b)"
proof -
  have "slice 24 (unat (nh_length h)) b = drop 24 b" using assms by (simp add: slice_def)
  moreover have "nh_length h = 0 \<Longrightarrow> drop 24 b = []" using assms by simp
  ultimately have "nver_sum b h = nver_crc32 (take 20 b @ drop 24 b) 0xffffffff"
    by (simp add: nver_sum_def Let_def nver_consts nver_crc32_eq mlrt_crc32_update_append) (simp add: mlrt_crc32_update_def)
  then show ?thesis by (simp add: nver_crc32_whole)
qed

lemma nver_frame_checked: "length p \<le> 1400 \<Longrightarrow> nver_checked (nver_frame k ses q p)"
  using nver_sum_eq [of "nver_frame k ses q p" "nver_parse (nver_frame k ses q p)"]
  by (simp add: nver_checked_def Let_def nver_ints nver_consts(1-4) nver_frame_fields [unfolded nver_consts(1,2)] unat_len16)

lemma put_get_u16_slice: "2 \<le> length f \<Longrightarrow> put_u16_be (get_u16_be f) = take 2 f"
  by (auto simp: numeral_eq_Suc Suc_le_length_iff put_get_u16_be)

lemma take_two: "n + 2 \<le> length b \<Longrightarrow> [b ! n, b ! Suc n] = take 2 (drop n b)"
  by (simp add: numeral_eq_Suc take_Suc_conv_app_nth)

lemma header_slices:
  "take 4 b @ take 2 (drop 4 b) @ take 2 (drop 6 b) @ take 4 (drop 8 b) @ take 4 (drop 12 b) @ take 2 (drop 16 b) @ take 2 (drop 18 b)
     = take 20 b"
  using take_add [of 4 2 b] take_add [of 6 2 b] take_add [of 8 4 b] take_add [of 12 4 b] take_add [of 16 2 b] take_add [of 18 2 b]
  by simp

lemma nver_checked_frame:
  assumes "nver_checked b"
  shows "b = nver_frame (b ! 5) (nver_u32 (drop 8 b)) (nver_u32 (drop 12 b)) (drop 24 b) \<and> length (drop 24 b) \<le> 1400"
proof -
  let ?p = "drop 24 b"
  have a: "24 \<le> length b" "get_u32_be b = NVER_MAGIC" "b ! 4 = NVER_VERSION" "nh_flags (nver_parse b) = 0"
      "nh_reserved (nver_parse b) = 0" "unat (nh_length (nver_parse b)) \<le> 1400" "length b = 24 + unat (nh_length (nver_parse b))"
      "nver_sum b (nver_parse b) XOR 0xffffffff = get_u32_be (drop 20 b)"
    using assms unfolding nver_checked_def Let_def nver_ints NVER_HEADER_BYTES_def NVER_MAX_PAYLOAD_def by blast+
  have n: "nh_length (nver_parse b) = get_u16_be (drop 16 b)" by (simp add: nver_parse_def nver_ints)
  have c: "get_u16_be (drop 6 b) = 0" "get_u16_be (drop 18 b) = 0"
    using a(4,5) by (simp_all add: nver_parse_def nver_ints)
  have p: "length ?p = unat (get_u16_be (drop 16 b))" by (simp only: length_drop a(7) n)
  have crc: "mlrt_crc32 (take 20 b @ ?p) = get_u32_be (drop 20 b)" using a(8) unfolding nver_sum_eq [OF a(7)] .
  have len: "of_nat (length ?p) = get_u16_be (drop 16 b)" by (simp only: p of_nat_unat ucast_id)
  have head: "nver_head (b ! 5) (nver_u32 (drop 8 b)) (nver_u32 (drop 12 b)) ?p = take 20 b"
    using a(1) take_two [of 4 b] put_get_u32_slice [of b] put_get_u32_slice [of "drop 8 b"] put_get_u32_slice [of "drop 12 b"]
      put_get_u16_slice [of "drop 6 b"] put_get_u16_slice [of "drop 16 b"] put_get_u16_slice [of "drop 18 b"] header_slices [of b]
    unfolding nver_head_def nver_ints len by (simp add: a(2,3) c)
  have "nver_frame (b ! 5) (nver_u32 (drop 8 b)) (nver_u32 (drop 12 b)) ?p = take 20 b @ take 4 (drop 20 b) @ ?p"
    using a(1) put_get_u32_slice [of "drop 20 b"] by (simp only: nver_frame_def head crc) simp
  also have "\<dots> = b" using append_take_drop_id [of 24 b] take_add [of 20 4 b] by (simp del: append_take_drop_id)
  finally show ?thesis using a(6) p n by simp
qed

text \<open>Reading a frame from the front of a stream of bytes.\<close>

definition nver_read :: "byte list \<Rightarrow> (byte \<times> u32 \<times> u32 \<times> byte list) option" where
  "nver_read b =
     (let n = unat (get_u16_be (drop 16 b))
      in if nver_checked (take (24 + n) b) then Some (b ! 5, nver_u32 (drop 8 b), nver_u32 (drop 12 b), slice 24 n b) else None)"

lemma nver_read_frame:
  assumes p: "length p \<le> 1400"
  shows "nver_read (nver_frame k ses q p @ rest) = Some (k, ses, q, p)"
proof -
  let ?f = "nver_frame k ses q p"
  have pr: "get_u32_be (drop 8 ?f) = ses" "get_u32_be (drop 12 ?f) = q" "get_u16_be (drop 16 ?f) = of_nat (length p)" "?f ! 5 = k"
    using nver_frame_fields(3) [of k ses q p] by (simp_all add: nver_parse_def nver_ints)
  have loc: "get_u32_be (drop n (?f @ rest)) = get_u32_be (drop n ?f)" "get_u16_be (drop n (?f @ rest)) = get_u16_be (drop n ?f)"
    if "n \<le> 20" for n
    using that by (auto simp: get_u32_be_def get_u16_be_def nth_append)
  have n: "unat (get_u16_be (drop 16 (?f @ rest))) = length p" using loc(2) [of 16] pr(3) unat_len16 [OF p] by simp
  have sl: "slice 24 (length p) (?f @ rest) = p" using nver_frame_fields(5) [of k ses q p] by (simp add: slice_def)
  have "nver_checked (take (24 + length p) (?f @ rest))" using nver_frame_checked [OF p] by simp
  moreover have "(?f @ rest) ! 5 = k" using pr(4) by (simp add: nth_append)
  ultimately show ?thesis using loc(1) [of 8] loc(1) [of 12] pr(1,2) sl by (simp only: nver_read_def Let_def n nver_ints) simp
qed

interpretation nver_codec: codec "\<lambda>(k, ses, q, p). nver_frame k ses q p" nver_read "\<lambda>(k, ses, q, p). length p \<le> 1400"
  by unfold_locales (auto simp: nver_read_frame)

section \<open>What a datagram does\<close>

text \<open>A datagram that fails the checks has no effect but on the counters.\<close>

lemma process_unchecked:
  assumes "\<not> nver_checked b"
  shows "\<exists>f \<in> {(\<lambda>c. c\<lparr>ct_length_errors := ct_length_errors c + 1\<rparr>), (\<lambda>c. c\<lparr>ct_header_errors := ct_header_errors c + 1\<rparr>),
      (\<lambda>c. c\<lparr>ct_crc_errors := ct_crc_errors c + 1\<rparr>)}.
    dp_process dp b = dp_reject f (dp_count (\<lambda>c. c\<lparr>ct_datagrams := ct_datagrams c + 1\<rparr>) dp)"
  using assms by (auto simp: nver_checked_def dp_process_def Let_def not_le not_less)

lemma process_checked:
  assumes "nver_checked b"
  shows "dp_process dp b =
    (let dp1 = dp_count (\<lambda>c. c\<lparr>ct_datagrams := ct_datagrams c + 1\<rparr>) dp; h = nver_parse b in
     if nh_kind h = kind_code Data then process_data dp1 h b
     else if nver_control StatsRequest h then (nver_encode StatsReply 0 0 (map of_char (nver_stats dp1)), dp1)
     else if nver_control ResetRequest h then (nver_encode ResetReply 0 0 [], dp1\<lparr>dp_counts := zero_counters, dp_last_seq := []\<rparr>)
     else dp_reject (\<lambda>c. c\<lparr>ct_type_errors := ct_type_errors c + 1\<rparr>) dp1)"
  using assms by (simp add: nver_checked_def dp_process_def Let_def)

text \<open>The sequence number of a session may be followed by those ahead of it by less than half the space.\<close>

definition seq_follows :: "u32 option \<Rightarrow> u32 \<Rightarrow> bool" where
  "seq_follows prev q \<longleftrightarrow> (case prev of None \<Rightarrow> True | Some s \<Rightarrow> 0 < unat (q - s) \<and> unat (q - s) < 2 ^ 31)"

definition session_free :: "datapath \<Rightarrow> u32 \<Rightarrow> bool" where
  "session_free dp ses \<longleftrightarrow> map_of (dp_last_seq dp) ses \<noteq> None \<or> length (dp_last_seq dp) \<noteq> NVER_MAX_SESSIONS"

lemma session_free_counts [simp]: "session_free (dp\<lparr>dp_counts := c\<rparr>) ses = session_free dp ses"
  by (simp add: session_free_def)

lemma seq_follows_delta:
  "seq_follows prev q \<longleftrightarrow> \<not> ((case prev of None \<Rightarrow> 1 | Some s \<Rightarrow> q - s) = 0 \<or> (case prev of None \<Rightarrow> 1 | Some s \<Rightarrow> q - s) \<ge> (0x80000000 :: u32))"
  by (cases prev) (auto simp: seq_follows_def word_le_nat_alt unat_gt_0)

lemma process_data_cases:
  "process_data dp h b =
     (if \<not> session_free dp (nh_session h) then dp_reject (\<lambda>c. c\<lparr>ct_session_errors := ct_session_errors c + 1\<rparr>) dp
      else if \<not> seq_follows (map_of (dp_last_seq dp) (nh_session h)) (nh_sequence h)
      then dp_reject (\<lambda>c. c\<lparr>ct_replay_errors := ct_replay_errors c + 1\<rparr>) dp
      else (nver_frame (kind_code Ack) (nh_session h) (nh_sequence h) (drop NVER_HEADER_BYTES b),
            dp_count (\<lambda>c. c\<lparr>ct_accepted := ct_accepted c + 1, ct_bytes_accepted := ct_bytes_accepted c + ucast (nh_length h)\<rparr>)
              (dp\<lparr>dp_last_seq := AList.update (nh_session h) (nh_sequence h) (dp_last_seq dp)\<rparr>)))"
  by (simp add: process_data_def Let_def session_free_def seq_follows_delta nver_encode_frame)

definition error_sum :: "nver_counters \<Rightarrow> u64" where
  "error_sum c = ct_crc_errors c + ct_length_errors c + ct_replay_errors c + ct_header_errors c + ct_type_errors c + ct_session_errors c"

definition is_reset :: "byte list \<Rightarrow> bool" where
  "is_reset b \<longleftrightarrow> nver_checked b \<and> nver_control ResetRequest (nver_parse b)"

text \<open>How the counters change, from those before to those after.\<close>

definition counted :: "u64 \<Rightarrow> u64 \<Rightarrow> u64 \<Rightarrow> datapath \<Rightarrow> datapath \<Rightarrow> bool" where
  "counted acc bytes bad dp dp' \<longleftrightarrow>
     ct_datagrams (dp_counts dp') = ct_datagrams (dp_counts dp) + 1 \<and>
     ct_accepted (dp_counts dp') = ct_accepted (dp_counts dp) + acc \<and>
     ct_bytes_accepted (dp_counts dp') = ct_bytes_accepted (dp_counts dp) + bytes \<and>
     ct_invalid (dp_counts dp') = ct_invalid (dp_counts dp) + bad \<and>
     error_sum (dp_counts dp') = error_sum (dp_counts dp) + bad"

lemmas dp_effects = dp_reject_def dp_count_def counted_def error_sum_def

lemma process_cases [consumes 1, case_names rejected accepted stats reset]:
  assumes "dp_process dp b = (r, dp')"
  obtains "r = []" "dp_last_seq dp' = dp_last_seq dp" "counted 0 0 1 dp dp'" "\<not> is_reset b"
  | ses q p where "length p \<le> 1400" "b = nver_frame 1 ses q p" "r = nver_frame 2 ses q p" "session_free dp ses"
      "seq_follows (map_of (dp_last_seq dp) ses) q" "dp_last_seq dp' = AList.update ses q (dp_last_seq dp)"
      "counted 1 (of_nat (length p)) 0 dp dp'" "\<not> is_reset b"
  | "r = nver_frame 4 0 0 (map of_char (nver_stats dp'))" "dp_last_seq dp' = dp_last_seq dp"
      "counted 0 0 0 dp dp'" "\<not> is_reset b"
  | "r = nver_frame 6 0 0 []" "dp' = datapath_init" "is_reset b"
proof (cases "nver_checked b")
  case False
  from process_unchecked [OF this, of dp] assms that(1) False show ?thesis
    by (auto simp: dp_effects is_reset_def)
next
  case True
  define dp1 where "dp1 = dp_count (\<lambda>c. c\<lparr>ct_datagrams := ct_datagrams c + 1\<rparr>) dp"
  define h where "h = nver_parse b"
  have dp1: "dp_last_seq dp1 = dp_last_seq dp" "session_free dp1 ses = session_free dp ses" for ses
    by (simp_all add: dp1_def dp_count_def session_free_def)
  note pr = assms [unfolded process_checked [OF True] Let_def, folded dp1_def h_def]
  have rs: "is_reset b \<longleftrightarrow> nver_control ResetRequest h" by (simp add: is_reset_def True h_def)
  show ?thesis
  proof (cases "nh_kind h = kind_code Data")
    case data: True
    obtain ses q p where b: "b = nver_frame (b ! 5) ses q p" "length p \<le> 1400" using nver_checked_frame [OF True] by metis
    then have h: "nh_session h = ses" "nh_sequence h = q" "nh_length h = of_nat (length p)" "nh_kind h = b ! 5"
      unfolding h_def using nver_frame_fields(3) [of "b ! 5" ses q p] by simp_all
    have b1: "b = nver_frame 1 ses q p" using b(1) data h(4) by simp
    have dr: "drop NVER_HEADER_BYTES b = p" using nver_frame_fields(5) [of 1 ses q p] b1 by (simp add: NVER_HEADER_BYTES_def)
    have nr: "\<not> is_reset b" using data by (simp add: rs nver_control_def)
    have len: "ucast (nh_length h) = (of_nat (length p) :: u64)"
      using unat_len16 [OF b(2)] by (metis h(3) of_nat_unat)
    show ?thesis
    proof (cases "session_free dp ses \<and> seq_follows (map_of (dp_last_seq dp) ses) q")
      case acc: True
      then have "r = nver_frame 2 ses q p"
        "dp' = dp_count (\<lambda>c. c\<lparr>ct_accepted := ct_accepted c + 1, ct_bytes_accepted := ct_bytes_accepted c + of_nat (length p)\<rparr>)
              (dp1\<lparr>dp_last_seq := AList.update ses q (dp_last_seq dp1)\<rparr>)"
        using pr data len by (simp_all add: process_data_cases h(1,2) dp1 dr)
      with that(2) [OF b(2) b1] acc nr show ?thesis by (simp add: dp1_def dp_effects)
    next
      case False
      then have "r = [] \<and> dp_last_seq dp' = dp_last_seq dp \<and> counted 0 0 1 dp dp'"
        using pr data by (auto simp: process_data_cases h(1,2) dp1 dp1_def dp_effects split: if_splits)
      with that(1) nr show ?thesis by blast
    qed
  next
    case False
    show ?thesis
    proof (cases "nver_control StatsRequest h")
      case True
      then have "\<not> is_reset b" by (simp add: rs nver_control_def)
      moreover have "dp' = dp1" "r = nver_frame 4 0 0 (map of_char (nver_stats dp'))"
        using pr False True by (auto simp: nver_encode_frame)
      ultimately show ?thesis using that(3) dp1 by (simp add: dp1_def dp_effects)
    next
      case ns: False
      show ?thesis
      proof (cases "nver_control ResetRequest h")
        case True
        then have "dp' = datapath_init" "r = nver_frame 6 0 0 []"
          using pr False ns by (cases dp, auto simp: nver_encode_frame datapath_init_def dp1_def dp_count_def)+
        with that(4) True rs show ?thesis by blast
      next
        case nr: False
        have "r = []" "dp_last_seq dp' = dp_last_seq dp" "counted 0 0 1 dp dp'"
          using pr False ns nr by (auto simp: dp1_def dp_effects)
        with that(1) nr rs show ?thesis by blast
      qed
    qed
  qed
qed

section \<open>Sequences of datagrams\<close>

definition dp_step :: "byte list \<Rightarrow> datapath \<Rightarrow> byte list \<times> datapath" where
  "dp_step b dp = dp_process dp b"

text \<open>The session and sequence number a reply acknowledges.\<close>

definition ack_of :: "byte list \<Rightarrow> (u32 \<times> u32) option" where
  "ack_of r = (if r \<noteq> [] \<and> r ! 5 = kind_code Ack then Some (nver_u32 (drop 8 r), nver_u32 (drop 12 r)) else None)"

lemma ack_of_frame [simp]: "ack_of (nver_frame k ses q p) = (if k = 2 then Some (ses, q) else None)"
proof -
  have "nver_frame k ses q p \<noteq> []" using length_nver_frame [of k ses q p] by (metis list.size(3) add_is_0 zero_neq_numeral)
  then show ?thesis using nver_frame_fields(3) [of k ses q p] by (auto simp: ack_of_def nver_parse_def)
qed

lemma ack_of_Nil [simp]: "ack_of [] = None"
  by (simp add: ack_of_def)

definition acked :: "u32 \<Rightarrow> byte list list \<Rightarrow> u32 list" where
  "acked ses rs = map snd (filter (\<lambda>(s, q). s = ses) (List.map_filter ack_of rs))"

lemma acked_simps [simp]:
  "acked ses [] = []"
  "acked ses (r # rs) = (case ack_of r of Some (s, q) \<Rightarrow> if s = ses then q # acked ses rs else acked ses rs | None \<Rightarrow> acked ses rs)"
  by (auto simp: acked_def map_filter_simps split: option.splits)

definition nver_inv :: "datapath \<Rightarrow> bool" where
  "nver_inv dp \<longleftrightarrow> distinct (map fst (dp_last_seq dp)) \<and> length (dp_last_seq dp) \<le> NVER_MAX_SESSIONS \<and>
     ct_invalid (dp_counts dp) = error_sum (dp_counts dp)"

lemma length_update: "length (AList.update k v al) = (if k \<in> fst ` set al then length al else Suc (length al))"
  by (induction al) auto

lemma process_inv:
  assumes "nver_inv dp"
  shows "nver_inv (snd (dp_process dp b))"
proof -
  obtain r dp' where "dp_process dp b = (r, dp')" by fastforce
  then show ?thesis
  proof (cases rule: process_cases)
    case (accepted ses q p)
    have "length (AList.update ses q (dp_last_seq dp)) \<le> NVER_MAX_SESSIONS"
      using accepted(4) assms by (auto simp: length_update session_free_def nver_inv_def dom_map_of_conv_image_fst map_of_eq_None_iff)
    with accepted assms show ?thesis
      using \<open>dp_process dp b = (r, dp')\<close> by (simp add: nver_inv_def counted_def distinct_update)
  qed (use assms \<open>dp_process dp b = (r, dp')\<close> in \<open>auto simp: nver_inv_def counted_def datapath_init_def zero_counters_def error_sum_def\<close>)
qed

interpretation nver: invariant_system "\<lambda>b dp. snd (dp_process dp b)" nver_inv
  by unfold_locales (rule process_inv)





section \<open>Counters and replies\<close>

text \<open>The replies that acknowledge, and the payload bytes they carry.\<close>

definition ack_replies :: "byte list list \<Rightarrow> byte list list" where
  "ack_replies rs = filter (\<lambda>r. ack_of r \<noteq> None) rs"

lemma counters_line:
  assumes "list_all (\<lambda>b. \<not> is_reset b) ds" "trace dp_step ds dp = (rs, dp')"
  shows "ct_datagrams (dp_counts dp') = ct_datagrams (dp_counts dp) + of_nat (length ds) \<and>
    ct_accepted (dp_counts dp') = ct_accepted (dp_counts dp) + of_nat (length (ack_replies rs)) \<and>
    ct_bytes_accepted (dp_counts dp') = ct_bytes_accepted (dp_counts dp) + of_nat (\<Sum>r\<leftarrow>ack_replies rs. length r - 24) \<and>
    ct_invalid (dp_counts dp') = ct_invalid (dp_counts dp) + of_nat (length (filter (\<lambda>r. r = []) rs)) \<and>
    fst ` set (dp_last_seq dp') = fst ` set (dp_last_seq dp) \<union> {ses. acked ses rs \<noteq> []}"
  using assms
proof (induction ds arbitrary: dp rs)
  case Nil
  then show ?case by (auto simp: ack_replies_def)
next
  case (Cons b ds)
  obtain r dp1 where s: "dp_process dp b = (r, dp1)" by fastforce
  then have "dp_step b dp = (r, dp1)" by (simp add: dp_step_def)
  then obtain rs1 where t: "trace dp_step ds dp1 = (rs1, dp')" and rs: "rs = r # rs1"
    using Cons.prems(2) by (auto simp: Let_def split: prod.splits)
  have f0: "nver_frame k ses q p \<noteq> []" for k ses q p
    using length_nver_frame [of k ses q p] by (metis list.size(3) add_is_0 zero_neq_numeral)
  note IH = Cons.IH [OF _ t]
  from s show ?case
  proof (cases rule: process_cases)
    case (accepted ses q p)
    have d: "fst ` set (dp_last_seq dp1) = insert ses (fst ` set (dp_last_seq dp))"
      unfolding accepted(6) by (simp add: update_conv' flip: dom_map_of_conv_image_fst)
    have e: "{s. acked s rs \<noteq> []} = insert ses {s. acked s rs1 \<noteq> []}" by (auto simp: rs accepted(3))
    show ?thesis
      using IH Cons.prems(1) accepted(7) unfolding d e by (simp add: counted_def ack_replies_def rs accepted(3) f0 algebra_simps)
  qed (use IH Cons.prems(1) rs f0 in \<open>auto simp: counted_def ack_replies_def algebra_simps\<close>)
qed

lemma stats_length: "nver_inv dp \<Longrightarrow> length (nver_stats dp) \<le> 1400"
proof -
  assume "nver_inv dp"
  then have n: "length (dp_last_seq dp) < 10 ^ Suc 1" by (simp add: nver_inv_def NVER_MAX_SESSIONS_def)
  have w: "length (dec (unat v)) \<le> 20" for v :: u64
  proof -
    have "unat v < 2 ^ 64" using unsigned_less [of v] by simp
    then have "unat v < 10 ^ Suc 19" by simp
    then show ?thesis using length_dec [of "unat v" 19] by simp
  qed
  show ?thesis
    using length_dec [OF n] w [of "ct_datagrams (dp_counts dp)"] w [of "ct_accepted (dp_counts dp)"] w [of "ct_invalid (dp_counts dp)"]
      w [of "ct_crc_errors (dp_counts dp)"] w [of "ct_length_errors (dp_counts dp)"] w [of "ct_replay_errors (dp_counts dp)"]
      w [of "ct_header_errors (dp_counts dp)"] w [of "ct_type_errors (dp_counts dp)"] w [of "ct_session_errors (dp_counts dp)"]
      w [of "ct_bytes_accepted (dp_counts dp)"]
    by (simp add: nver_stats_def Let_def nver_quoted_def)
qed

lemma reply_checked:
  assumes inv: "nver_inv dp" and s: "dp_process dp b = (r, dp')" and r: "r \<noteq> []"
  shows "\<exists>k ses q p. r = nver_frame k ses q p \<and> length p \<le> 1400"
  using s
proof (cases rule: process_cases)
  case stats
  have "nver_inv dp'" using process_inv [OF inv, of b] s by simp
  with stats stats_length [of dp'] show ?thesis by (metis length_map)
next
  case reset
  then show ?thesis by (metis list.size(3) zero_le)
qed (use r in auto)

lemma trace_replies:
  assumes "nver_inv dp" "trace dp_step ds dp = (rs, dp')" "r \<in> set rs" "r \<noteq> []"
  shows "\<exists>k ses q p. r = nver_frame k ses q p \<and> length p \<le> 1400"
  using assms
proof (induction ds arbitrary: dp rs)
  case (Cons b ds)
  obtain r1 dp1 where s: "dp_process dp b = (r1, dp1)" by fastforce
  then have "dp_step b dp = (r1, dp1)" by (simp add: dp_step_def)
  then obtain rs1 where t: "trace dp_step ds dp1 = (rs1, dp')" and rs: "rs = r1 # rs1"
    using Cons.prems(2) by (auto simp: Let_def split: prod.splits)
  have "nver_inv dp1" using process_inv [OF Cons.prems(1), of b] s by simp
  with Cons.IH [OF _ t] reply_checked [OF Cons.prems(1) s] Cons.prems(3,4) rs show ?case by auto
qed simp

lemma nver_inv_init: "nver_inv datapath_init"
  by (simp add: nver_inv_def datapath_init_def zero_counters_def error_sum_def)

lemma process_data_frame:
  assumes "length p \<le> 1400" "session_free dp ses" "seq_follows (map_of (dp_last_seq dp) ses) q"
  shows "\<exists>dp'. dp_process dp (nver_frame 1 ses q p) = (nver_frame 2 ses q p, dp') \<and>
    dp_last_seq dp' = AList.update ses q (dp_last_seq dp) \<and> counted 1 (of_nat (length p)) 0 dp dp'"
proof -
  have len: "ucast (of_nat (length p) :: u16) = (of_nat (length p) :: u64)"
    using unat_len16 [OF assms(1)] by (metis of_nat_unat)
  show ?thesis
    using assms(2,3) len
    by (simp add: process_checked [OF nver_frame_checked [OF assms(1)]] nver_frame_fields(3) process_data_cases dp_effects
        NVER_HEADER_BYTES_def nver_frame_fields(5))
qed

lemma process_data_refused:
  assumes "length p \<le> 1400" "\<not> (session_free dp ses \<and> seq_follows (map_of (dp_last_seq dp) ses) q)"
  shows "\<exists>dp'. dp_process dp (nver_frame 1 ses q p) = ([], dp') \<and> dp_last_seq dp' = dp_last_seq dp \<and> counted 0 0 1 dp dp'"
  using assms(2)
  by (auto simp: process_checked [OF nver_frame_checked [OF assms(1)]] nver_frame_fields(3) process_data_cases dp_effects Let_def)

lemma data_not_reset: "\<not> is_reset (nver_frame 1 ses q p)"
  by (simp add: is_reset_def nver_control_def nver_frame_fields(3))

section \<open>Properties\<close>


text \<open>A datagram, its replay, its successor, an older one: the first and the third are acknowledged.\<close>

definition sample_datagrams :: "byte list list" where
  "sample_datagrams = [nver_frame 1 7 41 [1, 2], nver_frame 1 7 41 [1, 2], nver_frame 1 7 42 [3], nver_frame 1 7 40 []]"

lemma sample_trace:
  "\<exists>dp'. trace dp_step sample_datagrams datapath_init = ([nver_frame 2 7 41 [1, 2], [], nver_frame 2 7 42 [3], []], dp')"
proof -
  let ?p = "[1, 2] :: byte list"
  obtain d1 where d1: "dp_process datapath_init (nver_frame 1 7 41 ?p) = (nver_frame 2 7 41 ?p, d1)" "dp_last_seq d1 = [(7, 41)]"
    using process_data_frame [of ?p datapath_init 7 41] by (auto simp: session_free_def seq_follows_def datapath_init_def NVER_MAX_SESSIONS_def)
  obtain d2 where d2: "dp_process d1 (nver_frame 1 7 41 ?p) = ([], d2)" "dp_last_seq d2 = [(7, 41)]"
    using process_data_refused [of ?p d1 7 41] d1(2) by (auto simp: seq_follows_def)
  obtain d3 where d3: "dp_process d2 (nver_frame 1 7 42 [3]) = (nver_frame 2 7 42 [3], d3)" "dp_last_seq d3 = [(7, 42)]"
    using process_data_frame [of "[3]" d2 7 42] d2(2) by (auto simp: session_free_def seq_follows_def)
  obtain d4 where d4: "dp_process d3 (nver_frame 1 7 40 []) = ([], d4)"
    using process_data_refused [of "[]" d3 7 40] d3(2) by (auto simp: seq_follows_def)
  show ?thesis using d1(1) d2(1) d3(1) d4 by (simp add: sample_datagrams_def dp_step_def)
qed

lemma sample_no_reset: "list_all (\<lambda>b. \<not> is_reset b) sample_datagrams"
  by (simp add: sample_datagrams_def data_not_reset)


text \<open>
  The counters are exact: after any datagrams without a valid reset, the datagrams received, the
  acknowledgements, the acknowledged payload bytes and the datagrams left without reply are what the
  counters say (modulo 2 to the 64th), every invalid datagram has exactly one error category, and the
  sessions held are exactly those acknowledged, at most 64 of them.
\<close>

theorem counters_exact:
  assumes "list_all (\<lambda>b. \<not> is_reset b) ds" "trace dp_step ds datapath_init = (rs, dp')"
  shows "ct_datagrams (dp_counts dp') = of_nat (length ds) \<and>
    ct_accepted (dp_counts dp') = of_nat (length (ack_replies rs)) \<and>
    ct_bytes_accepted (dp_counts dp') = of_nat (\<Sum>r\<leftarrow>ack_replies rs. length r - 24) \<and>
    ct_invalid (dp_counts dp') = of_nat (length (filter (\<lambda>r. r = []) rs)) \<and>
    ct_invalid (dp_counts dp') = error_sum (dp_counts dp') \<and>
    fst ` set (dp_last_seq dp') = {ses. acked ses rs \<noteq> []} \<and>
    distinct (map fst (dp_last_seq dp')) \<and> length (dp_last_seq dp') \<le> 64"
proof -
  have "dp' = fold (\<lambda>b dp. snd (dp_process dp b)) ds datapath_init"
    using trace_state [of dp_step ds datapath_init] assms(2) by (simp add: dp_step_def)
  then have "nver_inv dp'" using nver.run_inv [OF nver_inv_init] by simp
  then have inv: "distinct (map fst (dp_last_seq dp'))" "length (dp_last_seq dp') \<le> 64"
      "ct_invalid (dp_counts dp') = error_sum (dp_counts dp')" by (simp_all add: nver_inv_def NVER_MAX_SESSIONS_def)
  show ?thesis
    using counters_line [OF assms] inv by (simp add: datapath_init_def zero_counters_def)
qed

theorem counters_exact_witness:
  "\<exists>rs dp'. trace dp_step sample_datagrams datapath_init = (rs, dp') \<and> ct_datagrams (dp_counts dp') = 4 \<and>
     ct_accepted (dp_counts dp') = 2 \<and> ct_bytes_accepted (dp_counts dp') = 3 \<and> ct_invalid (dp_counts dp') = 2"
proof -
  obtain rs dp' where t: "trace dp_step sample_datagrams datapath_init = (rs, dp')"
      "rs = [nver_frame 2 7 41 [1, 2], [], nver_frame 2 7 42 [3], []]" using sample_trace by blast
  have f0: "nver_frame k ses q p \<noteq> []" for k ses q p
    using length_nver_frame [of k ses q p] by (metis list.size(3) add_is_0 zero_neq_numeral)
  from counters_exact [OF sample_no_reset t(1)] t(1) show ?thesis
    by (simp add: t(2) ack_replies_def sample_datagrams_def f0)
qed

text \<open>
  A data packet of a known session, or of a new one while there is room, whose number is ahead by
  less than half the number space is echoed in an acknowledgement with its session, number and
  payload; any other data packet gets no reply and leaves the sessions as they were. Every reply the
  datapath ever sends passes its own checks, the statistics included.
\<close>

theorem data_echoed:
  assumes "trace dp_step ds datapath_init = (rs, dp)" "length p \<le> NVER_MAX_PAYLOAD"
  shows "(if (map_of (dp_last_seq dp) ses \<noteq> None \<or> length (dp_last_seq dp) < NVER_MAX_SESSIONS) \<and>
             (\<forall>s. map_of (dp_last_seq dp) ses = Some s \<longrightarrow> 0 < unat (q - s) \<and> unat (q - s) < 2 ^ 31)
          then \<exists>dp'. dp_process dp (nver_encode Data ses q p) = (nver_encode Ack ses q p, dp') \<and>
                 map_of (dp_last_seq dp') = (map_of (dp_last_seq dp))(ses \<mapsto> q)
          else \<exists>dp'. dp_process dp (nver_encode Data ses q p) = ([], dp') \<and> dp_last_seq dp' = dp_last_seq dp) \<and>
    (\<forall>r\<in>set rs. r \<noteq> [] \<longrightarrow> nver_checked r)"
proof
  have p: "length p \<le> 1400" using assms(2) by (simp add: NVER_MAX_PAYLOAD_def)
  have "dp = fold (\<lambda>b dp. snd (dp_process dp b)) ds datapath_init"
    using trace_state [of dp_step ds datapath_init] assms(1) by (simp add: dp_step_def)
  then have "nver_inv dp" using nver.run_inv [OF nver_inv_init] by simp
  then have "length (dp_last_seq dp) \<le> NVER_MAX_SESSIONS" by (simp add: nver_inv_def)
  then have c: "(map_of (dp_last_seq dp) ses \<noteq> None \<or> length (dp_last_seq dp) < NVER_MAX_SESSIONS) \<longleftrightarrow> session_free dp ses"
    "(\<forall>s. map_of (dp_last_seq dp) ses = Some s \<longrightarrow> 0 < unat (q - s) \<and> unat (q - s) < 2 ^ 31) \<longleftrightarrow>
       seq_follows (map_of (dp_last_seq dp) ses) q"
    by (auto simp: session_free_def seq_follows_def split: option.splits)
  show "if (map_of (dp_last_seq dp) ses \<noteq> None \<or> length (dp_last_seq dp) < NVER_MAX_SESSIONS) \<and>
             (\<forall>s. map_of (dp_last_seq dp) ses = Some s \<longrightarrow> 0 < unat (q - s) \<and> unat (q - s) < 2 ^ 31)
          then \<exists>dp'. dp_process dp (nver_encode Data ses q p) = (nver_encode Ack ses q p, dp') \<and>
                 map_of (dp_last_seq dp') = (map_of (dp_last_seq dp))(ses \<mapsto> q)
          else \<exists>dp'. dp_process dp (nver_encode Data ses q p) = ([], dp') \<and> dp_last_seq dp' = dp_last_seq dp"
    unfolding c using process_data_frame [OF p, of dp ses q] process_data_refused [OF p, of dp ses q]
    by (auto simp: nver_encode_frame update_conv')
  show "\<forall>r\<in>set rs. r \<noteq> [] \<longrightarrow> nver_checked r"
    using trace_replies [OF nver_inv_init assms(1)] nver_frame_checked by metis
qed

theorem data_echoed_witness:
  "\<exists>dp'. dp_process datapath_init (nver_encode Data 7 41 [1, 2]) = (nver_encode Ack 7 41 [1, 2], dp')"
  using data_echoed [of "[]" "[]" datapath_init "[1, 2]" 7 41]
  by (auto simp: datapath_init_def NVER_MAX_SESSIONS_def NVER_MAX_PAYLOAD_def)

lemma spliced:
  fixes B w :: "byte list"
  assumes "20 \<le> length B" "length w = 4"
  shows "take 20 (take 20 B @ w @ drop 20 B) = take 20 B" "drop 20 (take 20 B @ w @ drop 20 B) = w @ drop 20 B"
    "drop 24 (take 20 B @ w @ drop 20 B) = drop 20 B"
  using assms by simp_all

text \<open>
  A valid datagram whose header or payload was altered in up to four consecutive bytes of the
  checksummed text is never acknowledged: it gets no reply and changes no session.
\<close>

theorem corrupted_datagram_dropped:
  assumes "nver_head (kind_code k) ses q p @ p = pre @ xs @ post" "length p \<le> NVER_MAX_PAYLOAD"
    and "length ys = length xs" "length xs \<le> 4" "ys \<noteq> xs"
    and "b = take 20 (pre @ ys @ post) @ slice 20 4 (nver_encode k ses q p) @ drop 20 (pre @ ys @ post)"
  shows "fst (dp_process dp b) = [] \<and> dp_last_seq (snd (dp_process dp b)) = dp_last_seq dp"
proof -
  let ?good = "pre @ xs @ post" and ?bad = "pre @ ys @ post"
  have len: "length ?good = length ?bad" "20 \<le> length ?good"
    using assms(3) arg_cong [OF assms(1), of length] by simp_all
  have crc: "slice 20 4 (nver_encode k ses q p) = put_u32_be (mlrt_crc32 ?good)"
    by (simp add: nver_encode_frame nver_frame_def slice_def assms(1))
  have parts: "take 20 b = take 20 ?bad" "drop 20 b = put_u32_be (mlrt_crc32 ?good) @ drop 20 ?bad" "drop 24 b = drop 20 ?bad"
    unfolding assms(6) crc using spliced [of ?bad "put_u32_be (mlrt_crc32 ?good)"] len by simp_all
  have "\<not> nver_checked b"
  proof
    assume "nver_checked b"
    then have "b = nver_frame (b ! 5) (nver_u32 (drop 8 b)) (nver_u32 (drop 12 b)) (drop 24 b)" using nver_checked_frame by blast
    then have "get_u32_be (drop 20 b) = mlrt_crc32 (take 20 b @ drop 24 b)"
      using nver_frame_fields(4,6) by metis
    then have "mlrt_crc32 ?good = mlrt_crc32 ?bad" unfolding parts by (simp only: append_take_drop_id get_put_u32_be)
    then show False using crc32_burst_detected [of xs ys pre post] assms(3-5) by simp
  qed
  from process_unchecked [OF this, of dp] show ?thesis by (auto simp: dp_effects)
qed

theorem corrupted_datagram_dropped_witness:
  "fst (dp_process datapath_init (take 20 (nver_head 1 7 41 [9] @ [8]) @ slice 20 4 (nver_encode Data 7 41 [9]) @ [8])) = []"
  using corrupted_datagram_dropped [of Data 7 41 "[9]" "nver_head 1 7 41 [9]" "[9]" "[]" "[8]" _ datapath_init]
  by (simp add: NVER_MAX_PAYLOAD_def)

text \<open>
  The program: whatever its arguments and the system do, the socket is closed when the program ends
  after having opened it, and the loop only ends by a failure of \<open>recvfrom\<close>.
\<close>

lemma nver_loop_ends: "fst (nver_loop dp evs) = Some rc \<Longrightarrow> rc = 1 \<and> UdpFail \<in> set evs"
  by (induction dp evs rule: nver_loop.induct) (auto simp: Let_def split: prod.splits)

theorem nver_main_closes:
  assumes "nver_main os args evs = (Some rc, sent, closed)" "nver_options ''127.0.0.1'' 0 args = Inr (host, port)"
  shows "rc = 1 \<and> closed = (if no_socket os < 0 then [] else [no_socket os])"
  using assms nver_loop_ends [of datapath_init evs rc]
  by (auto simp: nver_main_def nver_closed_def nver_open_def split: sum.splits if_splits prod.splits)

end
