(* ===== verification/Fabric_Transport.thy ===== *)
theory Fabric_Transport
  imports Net_Protocol C_Strings Datapath Complex_Main
begin

text \<open>
  The TCP benchmark of \<^verbatim>\<open>projects/ai-networking-benchmark-lab/src/transport.cpp\<close>: checked frames over a
  stream, a server that echoes them, damaging every n-th payload on request, a client that sends
  batches and compares the replies, nearest-rank percentiles, and the command line. An exception is the
  left value of a result, with its message. \<open>None\<close> is a transfer that has not returned.
\<close>

section \<open>Frames\<close>

definition FABR_MAGIC :: u32 where "FABR_MAGIC = 0x46414252"
definition FABR_HEADER_SIZE :: nat where "FABR_HEADER_SIZE = 20"
definition FABR_MAX_BODY :: nat where "FABR_MAX_BODY = 2 ^ 20"

definition fab_crc_bit :: "u32 \<Rightarrow> u32" where
  "fab_crc_bit crc = drop_bit 1 crc XOR (if crc AND 1 \<noteq> 0 then 0xEDB88320 else 0)"

definition fab_crc32 :: "byte list \<Rightarrow> u32" where
  "fab_crc32 data = NOT (foldl (\<lambda>crc b. (fab_crc_bit ^^ 8) (crc XOR ucast b)) 0xFFFFFFFF data)"

definition fab_set32 :: "nat \<Rightarrow> u32 \<Rightarrow> byte list \<Rightarrow> byte list" where
  "fab_set32 off x b = write_at off (htonl x) b"

definition fab_get32 :: "byte list \<Rightarrow> u32" where
  "fab_get32 b = ntohl b"

datatype fab_rc = FabDone | FabClosed | FabFailed

fun fab_send :: "wr_event list \<Rightarrow> byte list \<Rightarrow> (fab_rc \<times> byte list \<times> wr_event list) option" where
  "fab_send es [] = Some (FabDone, [], es)"
| "fab_send [] (b # buf) = None"
| "fab_send (e # es) (b # buf) =
     (case sys_write e (b # buf) of
        WrIntr \<Rightarrow> fab_send es (b # buf)
      | WrErr \<Rightarrow> Some (FabFailed, [], es)
      | WrCount n \<Rightarrow>
          if n = 0 then Some (FabFailed, [], es)
          else map_option (\<lambda>(r, out, es'). (r, take n (b # buf) @ out, es')) (fab_send es (drop n (b # buf))))"

definition fab_write_all :: "wr_event list \<Rightarrow> byte list \<Rightarrow> ((string + unit) \<times> byte list \<times> wr_event list) option" where
  "fab_write_all es buf =
     map_option (\<lambda>(r, out, es'). (if r = FabDone then Inr () else Inl ''send error/closed'', out, es')) (fab_send es buf)"

fun fab_recv :: "rd_event list \<Rightarrow> nat \<Rightarrow> byte list \<Rightarrow> (fab_rc \<times> byte list \<times> byte list \<times> rd_event list) option" where
  "fab_recv es 0 inp = Some (FabDone, [], inp, es)"
| "fab_recv [] (Suc len) inp = None"
| "fab_recv (e # es) (Suc len) inp =
     (case sys_read e (Suc len) inp of
        RdIntr \<Rightarrow> fab_recv es (Suc len) inp
      | RdErr \<Rightarrow> Some (FabFailed, [], inp, es)
      | RdData bs \<Rightarrow>
          if bs = [] then Some (FabClosed, [], inp, es)
          else map_option (\<lambda>(r, got, rest, es'). (r, bs @ got, rest, es')) (fab_recv es (Suc len - length bs) (drop (length bs) inp)))"

text \<open>\<open>False\<close> for a stream that is closed before the first byte.\<close>

definition fab_read_all ::
    "rd_event list \<Rightarrow> nat \<Rightarrow> byte list \<Rightarrow> ((string + bool) \<times> byte list \<times> byte list \<times> rd_event list) option" where
  "fab_read_all es len inp =
     map_option (\<lambda>(r, got, rest, es').
         (if r = FabDone then Inr True
          else if r = FabClosed \<and> got = [] then Inr False
          else Inl ''truncated TCP frame or recv failed'', got, rest, es'))
       (fab_recv es len inp)"

record fab_frame =
  fr_seq :: u32
  fr_payload :: "byte list"

definition fab_encode :: "u32 \<Rightarrow> byte list \<Rightarrow> string + byte list" where
  "fab_encode seq payload =
     (if length payload > FABR_MAX_BODY then Inl ''payload too big''
      else
        let b = replicate (FABR_HEADER_SIZE + length payload) 0;
            b = fab_set32 0 FABR_MAGIC b;
            b = fab_set32 4 1 b;
            b = fab_set32 8 seq b;
            b = fab_set32 12 (of_nat (length payload)) b;
            b = fab_set32 16 (fab_crc32 payload) b
        in Inr (write_at FABR_HEADER_SIZE payload b))"

text \<open>The result \<open>None\<close> inside the success is the return value \<open>false\<close>.\<close>

definition fab_read_frame ::
    "rd_event list \<Rightarrow> byte list \<Rightarrow> ((string + fab_frame option) \<times> byte list \<times> rd_event list) option" where
  "fab_read_frame es inp =
     (case fab_read_all es FABR_HEADER_SIZE inp of
        None \<Rightarrow> None
      | Some (Inl e, _, inp1, es1) \<Rightarrow> Some (Inl e, inp1, es1)
      | Some (Inr False, _, inp1, es1) \<Rightarrow> Some (Inr None, inp1, es1)
      | Some (Inr True, h, inp1, es1) \<Rightarrow>
          if fab_get32 h \<noteq> FABR_MAGIC \<or> fab_get32 (drop 4 h) \<noteq> 1 then Some (Inl ''bad magic/version'', inp1, es1)
          else
            let len = unat (fab_get32 (drop 12 h))
            in if len > FABR_MAX_BODY then Some (Inl ''oversized packet'', inp1, es1)
               else
                 (case (if len \<noteq> 0 then fab_read_all es1 len inp1 else Some (Inr True, [], inp1, es1)) of
                    None \<Rightarrow> None
                  | Some (Inl e, _, inp2, es2) \<Rightarrow> Some (Inl e, inp2, es2)
                  | Some (Inr False, _, inp2, es2) \<Rightarrow> Some (Inl ''truncated payload'', inp2, es2)
                  | Some (Inr True, payload, inp2, es2) \<Rightarrow>
                      if fab_crc32 payload \<noteq> fab_get32 (drop 16 h) then Some (Inl ''bad payload CRC'', inp2, es2)
                      else Some (Inr (Some \<lparr>fr_seq = fab_get32 (drop 8 h), fr_payload = payload\<rparr>), inp2, es2)))"

section \<open>Contracts of the transfers\<close>

interpretation fab_reader: exact_reader fab_recv FabDone FabClosed FabFailed
  by unfold_locales simp_all

interpretation fab_writer: exact_writer fab_send FabDone FabFailed
  by unfold_locales auto

lemma fab_read_frame_shorter:
  assumes "fab_read_frame es inp = Some (r, inp', es')"
  shows "length es' < length es"
proof -
  obtain rc h inp1 es1 where r1: "fab_recv es FABR_HEADER_SIZE inp = Some (rc, h, inp1, es1)"
    using assms by (auto simp: fab_read_frame_def fab_read_all_def split: option.splits)
  have "length es1 < length es" using fab_reader.rdall_shorter [OF r1] by (simp add: FABR_HEADER_SIZE_def)
  moreover have "length es' \<le> length es1"
    using assms r1 fab_reader.rdall_shorter
    by (auto simp: fab_read_frame_def fab_read_all_def Let_def split: option.splits if_splits prod.splits sum.splits bool.splits)
  ultimately show ?thesis by simp
qed

section \<open>The server\<close>

text \<open>The message of the exception that ends the connection, if any, and the bytes sent.\<close>

definition fab_damage :: "nat \<Rightarrow> nat \<Rightarrow> fab_frame \<Rightarrow> byte list \<Rightarrow> byte list" where
  "fab_damage corrupt_every n f outgoing =
     (if corrupt_every \<noteq> 0 \<and> n mod corrupt_every = 0 \<and> fr_payload f \<noteq> []
      then butlast outgoing @ [last outgoing XOR 1] else outgoing)"

function fab_serve_loop :: "nat \<Rightarrow> nat \<Rightarrow> rd_event list \<Rightarrow> wr_event list \<Rightarrow> byte list \<Rightarrow> (string option \<times> byte list) option" where
  "fab_serve_loop corrupt_every n rs ws inp =
     (case fab_read_frame rs inp of
        None \<Rightarrow> None
      | Some (Inl e, _, _) \<Rightarrow> Some (Some e, [])
      | Some (Inr None, _, _) \<Rightarrow> Some (None, [])
      | Some (Inr (Some f), inp', rs') \<Rightarrow>
          (case fab_encode (fr_seq f) (fr_payload f) of
             Inl e \<Rightarrow> Some (Some e, [])
           | Inr outgoing \<Rightarrow>
               (case fab_write_all ws (fab_damage corrupt_every (Suc n) f outgoing) of
                  None \<Rightarrow> None
                | Some (Inl e, sent, _) \<Rightarrow> Some (Some e, sent)
                | Some (Inr _, sent, ws') \<Rightarrow>
                    map_option (\<lambda>(m, out). (m, sent @ out)) (fab_serve_loop corrupt_every (Suc n) rs' ws' inp'))))"
  by pat_completeness auto
termination
  by (relation "measure (\<lambda>(c, n, rs, ws, inp). length rs)") (auto dest: fab_read_frame_shorter)

declare fab_serve_loop.simps [simp del]

definition fab_serve_connection ::
    "bool \<Rightarrow> nat \<Rightarrow> rd_event list \<Rightarrow> wr_event list \<Rightarrow> byte list \<Rightarrow> (string option \<times> byte list) option" where
  "fab_serve_connection timeout_ok corrupt_every rs ws inp =
     (if \<not> timeout_ok then Some (Some ''set timeout failed'', []) else fab_serve_loop corrupt_every 0 rs ws inp)"

section \<open>The client\<close>

definition fab_payload_data :: "nat \<Rightarrow> u32 \<Rightarrow> byte list" where
  "fab_payload_data bytes seq = map (\<lambda>i. of_nat (i * 31 + unat seq)) [0..<bytes]"

definition fab_seq :: "nat \<Rightarrow> u32" where
  "fab_seq k = of_nat (k + 1)"

fun fab_send_batch :: "nat \<Rightarrow> nat list \<Rightarrow> wr_event list \<Rightarrow> ((string + unit) \<times> byte list \<times> wr_event list) option" where
  "fab_send_batch bytes [] ws = Some (Inr (), [], ws)"
| "fab_send_batch bytes (k # ks) ws =
     (case fab_encode (fab_seq k) (fab_payload_data bytes (fab_seq k)) of
        Inl e \<Rightarrow> Some (Inl e, [], ws)
      | Inr wire \<Rightarrow>
          (case fab_write_all ws wire of
             None \<Rightarrow> None
           | Some (Inl e, sent, ws') \<Rightarrow> Some (Inl e, sent, ws')
           | Some (Inr _, sent, ws') \<Rightarrow>
               map_option (\<lambda>(r, out, ws''). (r, sent @ out, ws'')) (fab_send_batch bytes ks ws')))"

text \<open>The last component of a success is the number of payload bytes recorded.\<close>

fun fab_recv_batch ::
    "nat \<Rightarrow> nat \<Rightarrow> nat list \<Rightarrow> nat \<Rightarrow> rd_event list \<Rightarrow> byte list \<Rightarrow> ((string + nat) \<times> byte list \<times> rd_event list) option" where
  "fab_recv_batch bytes warmup [] recorded rs inp = Some (Inr recorded, inp, rs)"
| "fab_recv_batch bytes warmup (k # ks) recorded rs inp =
     (case fab_read_frame rs inp of
        None \<Rightarrow> None
      | Some (Inl e, inp', rs') \<Rightarrow> Some (Inl e, inp', rs')
      | Some (Inr None, inp', rs') \<Rightarrow> Some (Inl ''connection closed mid-run'', inp', rs')
      | Some (Inr (Some f), inp', rs') \<Rightarrow>
          if fr_seq f \<noteq> fab_seq k \<or> fr_payload f \<noteq> fab_payload_data bytes (fab_seq k)
          then Some (Inl ''payload/sequence corruption or reordering'', inp', rs')
          else fab_recv_batch bytes warmup ks (if k \<ge> warmup then recorded + 2 * bytes else recorded) rs' inp')"

record fab_config =
  fc_count :: nat
  fc_bytes :: nat
  fc_window :: nat
  fc_warmup :: nat

definition fab_total :: "fab_config \<Rightarrow> nat" where
  "fab_total cfg = fc_warmup cfg + fc_count cfg"

definition fab_batch :: "fab_config \<Rightarrow> nat \<Rightarrow> nat list" where
  "fab_batch cfg offset = [offset..<offset + min (fc_window cfg) (fab_total cfg - offset)]"

partial_function (option) fab_client_loop ::
    "fab_config \<Rightarrow> nat \<Rightarrow> nat \<Rightarrow> rd_event list \<Rightarrow> wr_event list \<Rightarrow> byte list \<Rightarrow> ((string + nat) \<times> byte list) option" where
  "fab_client_loop cfg offset recorded rs ws inp =
     (if offset < fab_total cfg then
        (case fab_send_batch (fc_bytes cfg) (fab_batch cfg offset) ws of
           None \<Rightarrow> None
         | Some (sr, sent, ws') \<Rightarrow>
             (case sr of
                Inl e \<Rightarrow> Some (Inl e, sent)
              | Inr _ \<Rightarrow>
                  (case fab_recv_batch (fc_bytes cfg) (fc_warmup cfg) (fab_batch cfg offset) recorded rs inp of
                     None \<Rightarrow> None
                   | Some (rr, inp', rs') \<Rightarrow>
                       (case rr of
                          Inl e \<Rightarrow> Some (Inl e, sent)
                        | Inr rec' \<Rightarrow>
                            Option.bind (fab_client_loop cfg (offset + length (fab_batch cfg offset)) rec' rs' ws' inp')
                              (\<lambda>(r, out). Some (r, sent @ out))))))
      else Some (Inr recorded, []))"

section \<open>Percentiles\<close>

text \<open>The index is computed with an exact quotient \<open>q\<close>; the samples may be of any ordered type.\<close>

definition fab_percentile :: "'a::{linorder,zero} list \<Rightarrow> rat \<Rightarrow> 'a" where
  "fab_percentile samples q =
     (if samples = [] then 0
      else
        let sorted = sort samples;
            idx = nat \<lceil>q * of_nat (length sorted)\<rceil> - 1
        in sorted ! min idx (length sorted - 1))"

section \<open>The command line\<close>

text \<open>\<open>args\<close> are the arguments behind the command word.\<close>

fun fab_option :: "string list \<Rightarrow> string \<Rightarrow> string \<Rightarrow> string + string" where
  "fab_option [] key dflt = Inr dflt"
| "fab_option (a # as) key dflt =
     (if a = key then (if as = [] then Inl (''missing value for '' @ key) else Inr (hd as)) else fab_option as key dflt)"

text \<open>\<open>stoull\<close>: value and number of characters used, or an exception.\<close>

definition fab_stoull :: "string \<Rightarrow> (nat \<times> nat) option" where
  "fab_stoull s =
     (let s1 = dropWhile c_isspace s;
          neg = (s1 \<noteq> [] \<and> hd s1 = CHR ''-'');
          s2 = (if s1 \<noteq> [] \<and> (hd s1 = CHR ''-'' \<or> hd s1 = CHR ''+'') then tl s1 else s1);
          ds = takeWhile c_isdigit s2;
          n = dec_value ds
      in if ds = [] \<or> n \<ge> 2 ^ 64 then None
         else Some (if neg then (2 ^ 64 - n) mod 2 ^ 64 else n, length s - length (dropWhile c_isdigit s2)))"

definition fab_number :: "string \<Rightarrow> nat \<Rightarrow> nat \<Rightarrow> string + nat" where
  "fab_number arg mn mx =
     (if arg = [] then Inl ''empty number''
      else
        (case fab_stoull arg of
           None \<Rightarrow> Inl (''invalid number: '' @ arg)
         | Some (v, used) \<Rightarrow>
             if used \<noteq> length arg \<or> hd arg = CHR ''-'' \<or> v < mn \<or> v > mx then Inl (''number out of range: '' @ arg)
             else Inr v))"

definition fab_arg :: "string list \<Rightarrow> string \<Rightarrow> string \<Rightarrow> nat \<Rightarrow> nat \<Rightarrow> string + nat" where
  "fab_arg args key dflt mn mx = (case fab_option args key dflt of Inl e \<Rightarrow> Inl e | Inr v \<Rightarrow> fab_number v mn mx)"

section \<open>Frames on a stream\<close>

lemma fab_crc_bit_eq: "fab_crc_bit = crc32_bit"
  using nver_crc_bit_eq by (simp add: fun_eq_iff fab_crc_bit_def nver_crc_bit_def)

lemma not_xor_ones: "NOT v = v XOR 0xFFFFFFFF" for v :: u32
proof -
  have "(0xFFFFFFFF :: u32) = - 1" by simp
  show ?thesis unfolding \<open>(0xFFFFFFFF :: u32) = - 1\<close> by (rule bit_word_eqI) (simp add: bit_not_iff bit_xor_iff)
qed

lemma fab_crc32_eq: "fab_crc32 data = mlrt_crc32 data"
  by (simp add: fab_crc32_def mlrt_crc32_def mlrt_crc32_end_def mlrt_crc32_update_def mlrt_crc32_begin_def crc32_byte_def [abs_def]
      fab_crc_bit_eq not_xor_ones)

definition fab_head :: "u32 \<Rightarrow> nat \<Rightarrow> u32 \<Rightarrow> byte list" where
  "fab_head seq len crc = put_u32_be FABR_MAGIC @ put_u32_be 1 @ put_u32_be seq @ put_u32_be (of_nat len) @ put_u32_be crc"

definition fab_bytes :: "u32 \<Rightarrow> byte list \<Rightarrow> byte list" where
  "fab_bytes seq p = fab_head seq (length p) (mlrt_crc32 p) @ p"

lemma length_fab_head [simp]: "length (fab_head seq len crc) = 20"
  by (simp add: fab_head_def)

lemma length_fab_bytes [simp]: "length (fab_bytes seq p) = 20 + length p"
  by (simp add: fab_bytes_def)

lemma set32_next:
  "length xs = off \<Longrightarrow> fab_set32 off v (xs @ replicate (4 + k) 0) = (xs @ put_u32_be v) @ replicate k 0"
  by (simp add: fab_set32_def write_at_def)

lemma fab_encode_bytes:
  assumes "length p \<le> 2 ^ 20"
  shows "fab_encode seq p = Inr (fab_bytes seq p)"
proof -
  let ?n = "length p"
  have r: "replicate (FABR_HEADER_SIZE + ?n) 0 = [] @ replicate (4 + (4 + (4 + (4 + (4 + ?n))))) (0 :: byte)"
    by (simp add: FABR_HEADER_SIZE_def)
  have "fab_set32 16 c (fab_set32 12 l (fab_set32 8 q (fab_set32 4 v (fab_set32 0 m (replicate (FABR_HEADER_SIZE + ?n) 0))))) =
      (put_u32_be m @ put_u32_be v @ put_u32_be q @ put_u32_be l @ put_u32_be c) @ replicate ?n 0" for c l q v m
    unfolding r by (subst set32_next, simp)+ simp
  moreover have "write_at FABR_HEADER_SIZE p ((put_u32_be m @ put_u32_be v @ put_u32_be q @ put_u32_be l @ put_u32_be c) @ replicate ?n 0)
      = (put_u32_be m @ put_u32_be v @ put_u32_be q @ put_u32_be l @ put_u32_be c) @ p" for c l q v m
    by (subst write_at_append) (simp_all add: FABR_HEADER_SIZE_def)
  ultimately show ?thesis
    using assms by (simp only: fab_encode_def Let_def FABR_MAX_BODY_def fab_bytes_def fab_head_def fab_crc32_eq not_less [symmetric] if_False append_assoc)
qed

lemma fab_head_fields:
  "fab_get32 (fab_head seq len crc) = FABR_MAGIC" "fab_get32 (drop 4 (fab_head seq len crc)) = 1"
  "fab_get32 (drop 8 (fab_head seq len crc)) = seq" "fab_get32 (drop 12 (fab_head seq len crc)) = of_nat len"
  "fab_get32 (drop 16 (fab_head seq len crc)) = crc"
  by (simp_all add: fab_get32_def ntohl_be fab_head_def)
     (simp_all add: get_put_u32_be [of _ "[]", simplified])

lemma fab_read_all_ok:
  assumes "RdFail \<notin> set es" "length xs \<le> rd_chunks es"
  shows "\<exists>es'. fab_read_all es (length xs) (xs @ rest) = Some (Inr True, xs, rest, es') \<and>
    rd_chunks es \<le> rd_chunks es' + length xs \<and> set es' \<subseteq> set es"
proof -
  obtain es' where r: "fab_recv es (length xs) (xs @ rest) = Some (FabDone, xs, rest, es')"
    using fab_reader.rdall_complete [of es "length xs" "xs @ rest"] assms by auto
  with fab_reader.rdall_ok [OF r] show ?thesis by (auto simp: fab_read_all_def)
qed

text \<open>A well-formed header followed by a payload, whose checksum may be wrong.\<close>

lemma fab_read_frame_any:
  assumes "RdFail \<notin> set es" "20 + length p \<le> rd_chunks es" "length p \<le> 2 ^ 20"
  shows "\<exists>es'. fab_read_frame es (fab_head q (length p) crc @ p @ rest) =
      Some (if mlrt_crc32 p = crc then Inr (Some \<lparr>fr_seq = q, fr_payload = p\<rparr>) else Inl ''bad payload CRC'', rest, es') \<and>
    rd_chunks es \<le> rd_chunks es' + (20 + length p) \<and> set es' \<subseteq> set es"
proof -
  let ?h = "fab_head q (length p) crc"
  obtain es1 where h: "fab_read_all es 20 (?h @ p @ rest) = Some (Inr True, ?h, p @ rest, es1)"
      "rd_chunks es \<le> rd_chunks es1 + 20" "set es1 \<subseteq> set es"
    using fab_read_all_ok [of es ?h "p @ rest"] assms by auto
  have len: "unat (of_nat (length p) :: u32) = length p" using assms(3) by (simp add: unat_of_nat take_bit_eq_mod)
  obtain es2 where b: "fab_read_all es1 (length p) (p @ rest) = Some (Inr True, p, rest, es2)"
      "rd_chunks es1 \<le> rd_chunks es2 + length p" "set es2 \<subseteq> set es1"
    using fab_read_all_ok [of es1 p rest] assms(1,2) h(2,3) by auto
  show ?thesis
  proof (cases "p = []")
    case True
    with h show ?thesis
      by (simp add: fab_read_frame_def FABR_HEADER_SIZE_def fab_head_fields FABR_MAX_BODY_def fab_crc32_eq)
  next
    case False
    then have "unat (of_nat (length p) :: u32) \<noteq> 0" using len by simp
    with h b len assms(3) show ?thesis
      by (auto simp: fab_read_frame_def FABR_HEADER_SIZE_def fab_head_fields FABR_MAX_BODY_def fab_crc32_eq Let_def)
  qed
qed

lemma fab_read_frame_bytes:
  assumes "RdFail \<notin> set es" "20 + length p \<le> rd_chunks es" "length p \<le> 2 ^ 20"
  shows "\<exists>es'. fab_read_frame es (fab_bytes q p @ rest) = Some (Inr (Some \<lparr>fr_seq = q, fr_payload = p\<rparr>), rest, es') \<and>
    rd_chunks es \<le> rd_chunks es' + (20 + length p) \<and> set es' \<subseteq> set es"
  using fab_read_frame_any [OF assms, of q "mlrt_crc32 p" rest] by (simp add: fab_bytes_def)

lemma fab_read_frame_closed:
  assumes "RdFail \<notin> set es" "1 \<le> rd_chunks es"
  shows "\<exists>es'. fab_read_frame es [] = Some (Inr None, [], es')"
proof -
  obtain es' where "fab_recv es 20 [] = Some (FabClosed, [], [], es')"
    using fab_reader.rdall_short [of es "[]" 20] assms by auto
  then show ?thesis by (simp add: fab_read_frame_def fab_read_all_def FABR_HEADER_SIZE_def)
qed

text \<open>A damaged reply: the last byte of the payload has its lowest bit flipped.\<close>

lemma fab_damaged_bytes:
  assumes "p \<noteq> []"
  shows "fab_damage c n \<lparr>fr_seq = q, fr_payload = p\<rparr> (fab_bytes q p) =
    (if c \<noteq> 0 \<and> n mod c = 0 then fab_head q (length p) (mlrt_crc32 p) @ butlast p @ [last p XOR 1] else fab_bytes q p)"
  using assms by (simp add: fab_damage_def fab_bytes_def butlast_append)

lemma flip_detected:
  assumes "p \<noteq> []"
  shows "mlrt_crc32 (butlast p @ [last p XOR 1]) \<noteq> mlrt_crc32 p"
proof -
  have "last p \<noteq> last p XOR 1" by (metis xor_left_cancel xor.right_neutral zero_neq_one)
  then have "mlrt_crc32 (butlast p @ [last p XOR 1] @ []) \<noteq> mlrt_crc32 (butlast p @ [last p] @ [])"
    using crc32_burst_detected [of "[last p]" "[last p XOR 1]" "butlast p" "[]"] by force
  with assms show ?thesis by simp
qed

section \<open>Sessions\<close>

text \<open>What a server sends back for given frames, of which \<open>n\<close> came before.\<close>

fun fab_echo :: "nat \<Rightarrow> nat \<Rightarrow> (u32 \<times> byte list) list \<Rightarrow> byte list" where
  "fab_echo c n [] = []"
| "fab_echo c n ((q, p) # fs) = fab_damage c (Suc n) \<lparr>fr_seq = q, fr_payload = p\<rparr> (fab_bytes q p) @ fab_echo c (Suc n) fs"

definition fab_wire :: "(u32 \<times> byte list) list \<Rightarrow> byte list" where
  "fab_wire fs = concat (map (\<lambda>(q, p). fab_bytes q p) fs)"

lemma fab_wire_simps [simp]: "fab_wire [] = []" "fab_wire ((q, p) # fs) = fab_bytes q p @ fab_wire fs"
    "fab_wire (fs @ gs) = fab_wire fs @ fab_wire gs"
  by (simp_all add: fab_wire_def)

lemma fab_echo_clean: "fab_echo 0 n fs = fab_wire fs"
  by (induction "0 :: nat" n fs rule: fab_echo.induct) (simp_all add: fab_damage_def)

lemma length_fab_damage [simp]: "outgoing \<noteq> [] \<Longrightarrow> length (fab_damage c n f outgoing) = length outgoing"
  by (simp add: fab_damage_def)

lemma fab_write_all_ok:
  assumes "wr_reliable ws" "length buf \<le> wr_chunks ws"
  shows "\<exists>ws'. fab_write_all ws buf = Some (Inr (), buf, ws') \<and> wr_chunks ws \<le> wr_chunks ws' + length buf \<and> wr_reliable ws'"
proof -
  obtain ws' where w: "fab_send ws buf = Some (FabDone, buf, ws')" using fab_writer.wrall_complete [OF assms] by blast
  with fab_writer.wrall_used [OF w] assms(1) show ?thesis by (auto simp: fab_write_all_def wr_reliable_def)
qed

lemma fab_serve_frames:
  assumes "list_all (\<lambda>(q, p). length p \<le> 2 ^ 20) fs" "RdFail \<notin> set rs" "length (fab_wire fs) + 1 \<le> rd_chunks rs"
    and "wr_reliable ws" "length (fab_wire fs) \<le> wr_chunks ws"
  shows "fab_serve_loop c n rs ws (fab_wire fs) = Some (None, fab_echo c n fs)"
  using assms
proof (induction fs arbitrary: n rs ws)
  case Nil
  then obtain es' where "fab_read_frame rs [] = Some (Inr None, [], es')" using fab_read_frame_closed [of rs] by auto
  then show ?case by (subst fab_serve_loop.simps) simp
next
  case (Cons f fs)
  obtain q p where f: "f = (q, p)" by (cases f)
  let ?out = "fab_damage c (Suc n) \<lparr>fr_seq = q, fr_payload = p\<rparr> (fab_bytes q p)"
  have p: "length p \<le> 2 ^ 20" using Cons.prems(1) f by simp
  obtain rs1 where r: "fab_read_frame rs (fab_bytes q p @ fab_wire fs) = Some (Inr (Some \<lparr>fr_seq = q, fr_payload = p\<rparr>), fab_wire fs, rs1)"
      "rd_chunks rs \<le> rd_chunks rs1 + (20 + length p)" "set rs1 \<subseteq> set rs"
    using fab_read_frame_bytes [of rs p q "fab_wire fs"] Cons.prems(2,3) p f by auto
  have ne: "fab_bytes q p \<noteq> []" using length_fab_bytes [of q p] by (metis list.size(3) add_is_0 zero_neq_numeral)
  have lo: "length ?out = 20 + length p" using ne by simp
  obtain ws1 where w: "fab_write_all ws ?out = Some (Inr (), ?out, ws1)" "wr_chunks ws \<le> wr_chunks ws1 + (20 + length p)" "wr_reliable ws1"
    using fab_write_all_ok [of ws ?out] Cons.prems(4,5) f lo by auto
  have "fab_serve_loop c (Suc n) rs1 ws1 (fab_wire fs) = Some (None, fab_echo c (Suc n) fs)"
    using Cons.prems r(2,3) w(2,3) f by (intro Cons.IH) auto
  then show ?case by (subst fab_serve_loop.simps) (simp add: f r(1) w(1) fab_encode_bytes [OF p])
qed

text \<open>The frames of the client: number and payload of the \<open>k\<close>-th request.\<close>

definition fab_request :: "nat \<Rightarrow> nat \<Rightarrow> u32 \<times> byte list" where
  "fab_request bytes k = (fab_seq k, fab_payload_data bytes (fab_seq k))"

lemma length_payload_data [simp]: "length (fab_payload_data bytes q) = bytes"
  by (simp add: fab_payload_data_def)

lemma fab_wire_request [simp]:
  "fab_wire (fab_request bytes k # fs) = fab_bytes (fab_seq k) (fab_payload_data bytes (fab_seq k)) @ fab_wire fs"
  by (simp add: fab_request_def)

lemma length_requests: "length (fab_wire (map (fab_request bytes) ks)) = (20 + bytes) * length ks"
  by (induction ks) simp_all

lemma requests_ok: "bytes \<le> 2 ^ 20 \<Longrightarrow> list_all (\<lambda>(q, p). length p \<le> 2 ^ 20) (map (fab_request bytes) ks)"
  by (simp add: list_all_iff fab_request_def)

lemma send_batch_ok:
  assumes "bytes \<le> 2 ^ 20" "wr_reliable ws" "(20 + bytes) * length ks \<le> wr_chunks ws"
  shows "\<exists>ws'. fab_send_batch bytes ks ws = Some (Inr (), fab_wire (map (fab_request bytes) ks), ws') \<and>
    wr_chunks ws \<le> wr_chunks ws' + (20 + bytes) * length ks \<and> wr_reliable ws'"
  using assms
proof (induction ks arbitrary: ws)
  case (Cons k ks)
  let ?p = "fab_payload_data bytes (fab_seq k)" and ?q = "fab_seq k"
  have b: "length (fab_bytes ?q ?p) = 20 + bytes" by simp
  have "20 + bytes \<le> wr_chunks ws" using Cons.prems(3) by simp
  then obtain ws1 where w: "fab_write_all ws (fab_bytes ?q ?p) = Some (Inr (), fab_bytes ?q ?p, ws1)"
      "wr_chunks ws \<le> wr_chunks ws1 + (20 + bytes)" "wr_reliable ws1"
    using fab_write_all_ok [OF Cons.prems(2), of "fab_bytes ?q ?p"] unfolding b by blast
  have "(20 + bytes) * length ks \<le> wr_chunks ws1" using Cons.prems(3) w(2) by simp
  then obtain ws2 where "fab_send_batch bytes ks ws1 = Some (Inr (), fab_wire (map (fab_request bytes) ks), ws2)"
      "wr_chunks ws1 \<le> wr_chunks ws2 + (20 + bytes) * length ks" "wr_reliable ws2"
    using Cons.IH [OF Cons.prems(1) w(3)] by blast
  with w Cons.prems(1) show ?case by (simp add: fab_encode_bytes)
qed simp

lemma recv_batch_ok:
  assumes "bytes \<le> 2 ^ 20" "RdFail \<notin> set rs" "(20 + bytes) * length ks \<le> rd_chunks rs"
  shows "\<exists>rs'. fab_recv_batch bytes warmup ks rec rs (fab_wire (map (fab_request bytes) ks) @ rest) =
      Some (Inr (rec + 2 * bytes * length (filter (\<lambda>k. warmup \<le> k) ks)), rest, rs') \<and>
    rd_chunks rs \<le> rd_chunks rs' + (20 + bytes) * length ks \<and> set rs' \<subseteq> set rs"
  using assms
proof (induction ks arbitrary: rs rec)
  case (Cons k ks)
  let ?p = "fab_payload_data bytes (fab_seq k)" and ?q = "fab_seq k"
  let ?more = "fab_wire (map (fab_request bytes) ks) @ rest" and ?rec = "if k \<ge> warmup then rec + 2 * bytes else rec"
  obtain rs1 where r: "fab_read_frame rs (fab_bytes ?q ?p @ ?more) = Some (Inr (Some \<lparr>fr_seq = ?q, fr_payload = ?p\<rparr>), ?more, rs1)"
      "rd_chunks rs \<le> rd_chunks rs1 + (20 + bytes)" "set rs1 \<subseteq> set rs"
    using fab_read_frame_bytes [of rs ?p ?q ?more] Cons.prems by auto
  have "RdFail \<notin> set rs1" "(20 + bytes) * length ks \<le> rd_chunks rs1" using Cons.prems r(2,3) by auto
  then obtain rs2 where "fab_recv_batch bytes warmup ks ?rec rs1 ?more =
      Some (Inr (?rec + 2 * bytes * length (filter (\<lambda>k. warmup \<le> k) ks)), rest, rs2)"
      "rd_chunks rs1 \<le> rd_chunks rs2 + (20 + bytes) * length ks" "set rs2 \<subseteq> set rs1"
    using Cons.IH [OF Cons.prems(1), of rs1 ?rec] by blast
  with r show ?case by auto
qed simp

lemma fab_batch_split:
  assumes "offset < fab_total cfg" "0 < fc_window cfg"
  shows "[offset..<fab_total cfg] = fab_batch cfg offset @ [offset + length (fab_batch cfg offset)..<fab_total cfg]"
    "0 < length (fab_batch cfg offset)" "offset + length (fab_batch cfg offset) \<le> fab_total cfg"
proof -
  let ?m = "offset + min (fc_window cfg) (fab_total cfg - offset)"
  have "offset \<le> ?m" "?m \<le> fab_total cfg" using assms by auto
  then show "[offset..<fab_total cfg] = fab_batch cfg offset @ [offset + length (fab_batch cfg offset)..<fab_total cfg]"
    using upt_add_eq_append [of offset ?m "fab_total cfg - ?m"] by (simp add: fab_batch_def)
  show "0 < length (fab_batch cfg offset)" "offset + length (fab_batch cfg offset) \<le> fab_total cfg"
    using assms by (auto simp: fab_batch_def)
qed

lemma client_loop_ok:
  assumes "fc_bytes cfg \<le> 2 ^ 20" "0 < fc_window cfg" "RdFail \<notin> set rs" "wr_reliable ws"
    and "(20 + fc_bytes cfg) * (fab_total cfg - offset) \<le> rd_chunks rs" "(20 + fc_bytes cfg) * (fab_total cfg - offset) \<le> wr_chunks ws"
  shows "fab_client_loop cfg offset rec rs ws (fab_wire (map (fab_request (fc_bytes cfg)) [offset..<fab_total cfg]) @ rest) =
    Some (Inr (rec + 2 * fc_bytes cfg * length (filter (\<lambda>k. fc_warmup cfg \<le> k) [offset..<fab_total cfg])),
          fab_wire (map (fab_request (fc_bytes cfg)) [offset..<fab_total cfg]))"
  using assms(3-6)
proof (induction "fab_total cfg - offset" arbitrary: offset rec rs ws rule: less_induct)
  case less
  let ?b = "fc_bytes cfg"
  show ?case
  proof (cases "offset < fab_total cfg")
    case False
    then show ?thesis by (subst fab_client_loop.simps) simp
  next
    case True
    note sp = fab_batch_split [OF True assms(2)]
    define ks where "ks = fab_batch cfg offset"
    define o2 where "o2 = offset + length ks"
    have sp': "[offset..<fab_total cfg] = ks @ [o2..<fab_total cfg]" "0 < length ks" "o2 \<le> fab_total cfg"
      using sp by (simp_all add: ks_def o2_def)
    have n: "fab_total cfg - offset = length ks + (fab_total cfg - o2)" using sp'(3) by (simp add: o2_def)
    have bud: "(20 + ?b) * length ks \<le> rd_chunks rs" "(20 + ?b) * length ks \<le> wr_chunks ws"
      using less.prems(3,4) unfolding n by (simp_all add: algebra_simps)
    obtain ws1 where w: "fab_send_batch ?b ks ws = Some (Inr (), fab_wire (map (fab_request ?b) ks), ws1)"
        "wr_chunks ws \<le> wr_chunks ws1 + (20 + ?b) * length ks" "wr_reliable ws1"
      using send_batch_ok [OF assms(1) less.prems(2) bud(2)] by blast
    let ?rest = "fab_wire (map (fab_request ?b) [o2..<fab_total cfg]) @ rest"
    let ?rec = "rec + 2 * ?b * length (filter (\<lambda>k. fc_warmup cfg \<le> k) ks)"
    obtain rs1 where r: "fab_recv_batch ?b (fc_warmup cfg) ks rec rs (fab_wire (map (fab_request ?b) ks) @ ?rest) = Some (Inr ?rec, ?rest, rs1)"
        "rd_chunks rs \<le> rd_chunks rs1 + (20 + ?b) * length ks" "set rs1 \<subseteq> set rs"
      using recv_batch_ok [OF assms(1) less.prems(1) bud(1)] by blast
    have ih: "fab_client_loop cfg o2 ?rec rs1 ws1 ?rest =
        Some (Inr (?rec + 2 * ?b * length (filter (\<lambda>k. fc_warmup cfg \<le> k) [o2..<fab_total cfg])),
              fab_wire (map (fab_request ?b) [o2..<fab_total cfg]))"
    proof (rule less.hyps)
      show "fab_total cfg - o2 < fab_total cfg - offset" using n sp'(2) by simp
      show "(20 + ?b) * (fab_total cfg - o2) \<le> rd_chunks rs1" "(20 + ?b) * (fab_total cfg - o2) \<le> wr_chunks ws1"
        using less.prems(3,4) r(2) w(2) unfolding n by (simp_all add: algebra_simps)
    qed (use less.prems(1) r(3) w(3) in auto)
    show ?thesis
      using True w(1) r(1) ih unfolding sp'(1)
      by (subst fab_client_loop.simps) (simp add: algebra_simps flip: ks_def o2_def)
  qed
qed

text \<open>A reply with a damaged payload.\<close>

definition fab_flipped :: "nat \<Rightarrow> nat \<Rightarrow> byte list" where
  "fab_flipped bytes k =
     (let q = fab_seq k; p = fab_payload_data bytes q
      in fab_head q (length p) (mlrt_crc32 p) @ butlast p @ [last p XOR 1])"

lemma read_flipped:
  assumes "0 < bytes" "bytes \<le> 2 ^ 20" "RdFail \<notin> set rs" "20 + bytes \<le> rd_chunks rs"
  shows "\<exists>rs'. fab_read_frame rs (fab_flipped bytes k @ rest) = Some (Inl ''bad payload CRC'', rest, rs')"
proof -
  let ?p = "fab_payload_data bytes (fab_seq k)"
  let ?f = "butlast ?p @ [last ?p XOR 1]"
  have ne: "?p \<noteq> []" using assms(1) length_payload_data [of bytes "fab_seq k"] by (metis list.size(3) less_irrefl)
  have len: "length ?f = length ?p" "length ?f = bytes" using assms(1) by simp_all
  show ?thesis
    using fab_read_frame_any [of rs ?f "fab_seq k" "mlrt_crc32 ?p" rest] assms flip_detected [OF ne] len
    by (auto simp: fab_flipped_def Let_def)
qed

lemma recv_batch_flipped:
  assumes "0 < bytes" "bytes \<le> 2 ^ 20" "RdFail \<notin> set rs" "(20 + bytes) * Suc (length pre) \<le> rd_chunks rs"
  shows "\<exists>inp' rs'. fab_recv_batch bytes warmup (pre @ k # post) rec rs (fab_wire (map (fab_request bytes) pre) @ fab_flipped bytes k @ rest) =
      Some (Inl ''bad payload CRC'', inp', rs')"
  using assms
proof (induction pre arbitrary: rs rec)
  case Nil
  then show ?case using read_flipped [of bytes rs k rest] by auto
next
  case (Cons j pre)
  let ?p = "fab_payload_data bytes (fab_seq j)" and ?q = "fab_seq j"
  let ?more = "fab_wire (map (fab_request bytes) pre) @ fab_flipped bytes k @ rest"
  obtain rs1 where r: "fab_read_frame rs (fab_bytes ?q ?p @ ?more) = Some (Inr (Some \<lparr>fr_seq = ?q, fr_payload = ?p\<rparr>), ?more, rs1)"
      "rd_chunks rs \<le> rd_chunks rs1 + (20 + bytes)" "set rs1 \<subseteq> set rs"
    using fab_read_frame_bytes [of rs ?p ?q ?more] Cons.prems by auto
  have "RdFail \<notin> set rs1" "(20 + bytes) * Suc (length pre) \<le> rd_chunks rs1" using Cons.prems r(2,3) by auto
  from Cons.IH [OF Cons.prems(1,2) this] r(1) show ?case by simp
qed

lemma client_loop_flipped:
  assumes "0 < fc_bytes cfg" "fc_bytes cfg \<le> 2 ^ 20" "0 < fc_window cfg" "RdFail \<notin> set rs" "wr_reliable ws"
    and "offset \<le> k" "k < fab_total cfg"
    and "(20 + fc_bytes cfg) * (fab_total cfg - offset) \<le> rd_chunks rs" "(20 + fc_bytes cfg) * (fab_total cfg - offset) \<le> wr_chunks ws"
  shows "\<exists>sent. fab_client_loop cfg offset rec rs ws
      (fab_wire (map (fab_request (fc_bytes cfg)) [offset..<k]) @ fab_flipped (fc_bytes cfg) k @ rest) = Some (Inl ''bad payload CRC'', sent)"
  using assms(4-9)
proof (induction "fab_total cfg - offset" arbitrary: offset rec rs ws rule: less_induct)
  case less
  let ?b = "fc_bytes cfg"
  have lt: "offset < fab_total cfg" using less.prems(3,4) by simp
  define ks where "ks = fab_batch cfg offset"
  define o2 where "o2 = offset + length ks"
  have sp: "ks = [offset..<o2]" "0 < length ks" "o2 \<le> fab_total cfg"
    using fab_batch_split [OF lt assms(3)] by (simp_all add: ks_def o2_def) (simp add: fab_batch_def)
  have n: "fab_total cfg - offset = length ks + (fab_total cfg - o2)" using sp(3) by (simp add: o2_def)
  have bud: "(20 + ?b) * length ks \<le> rd_chunks rs" "(20 + ?b) * length ks \<le> wr_chunks ws"
    using less.prems(5,6) unfolding n by (simp_all add: algebra_simps)
  obtain ws1 where w: "fab_send_batch ?b ks ws = Some (Inr (), fab_wire (map (fab_request ?b) ks), ws1)"
      "wr_chunks ws \<le> wr_chunks ws1 + (20 + ?b) * length ks" "wr_reliable ws1"
    using send_batch_ok [OF assms(2) less.prems(2) bud(2)] by blast
  show ?case
  proof (cases "k < o2")
    case True
    have ks: "ks = [offset..<k] @ k # [Suc k..<o2]"
      using less.prems(3) True upt_add_eq_append [of offset k "o2 - k"] by (simp add: sp(1) upt_conv_Cons)
    have "(20 + ?b) * Suc (length [offset..<k]) \<le> rd_chunks rs"
    proof -
      have "Suc (length [offset..<k]) \<le> length ks" by (simp add: ks)
      then have "(20 + ?b) * Suc (length [offset..<k]) \<le> (20 + ?b) * length ks" by (rule mult_le_mono2)
      with bud(1) show ?thesis by simp
    qed
    from recv_batch_flipped [OF assms(1,2) less.prems(1) this, of "fc_warmup cfg" k "[Suc k..<o2]" rec rest, folded ks]
    show ?thesis using lt w(1) by (subst fab_client_loop.simps) (auto simp flip: ks_def)
  next
    case False
    let ?rest = "fab_wire (map (fab_request ?b) [o2..<k]) @ fab_flipped ?b k @ rest"
    have spl: "[offset..<k] = ks @ [o2..<k]"
    proof -
      have "offset \<le> o2" by (simp add: o2_def)
      with False show ?thesis using upt_add_eq_append [of offset o2 "k - o2"] by (simp add: sp(1))
    qed
    let ?rec = "rec + 2 * ?b * length (filter (\<lambda>k. fc_warmup cfg \<le> k) ks)"
    obtain rs1 where r: "fab_recv_batch ?b (fc_warmup cfg) ks rec rs (fab_wire (map (fab_request ?b) ks) @ ?rest) = Some (Inr ?rec, ?rest, rs1)"
        "rd_chunks rs \<le> rd_chunks rs1 + (20 + ?b) * length ks" "set rs1 \<subseteq> set rs"
      using recv_batch_ok [OF assms(2) less.prems(1) bud(1)] by blast
    have "\<exists>sent. fab_client_loop cfg o2 ?rec rs1 ws1 ?rest = Some (Inl ''bad payload CRC'', sent)"
    proof (rule less.hyps)
      show "fab_total cfg - o2 < fab_total cfg - offset" using n sp(2) by simp
      show "(20 + ?b) * (fab_total cfg - o2) \<le> rd_chunks rs1" "(20 + ?b) * (fab_total cfg - o2) \<le> wr_chunks ws1"
        using less.prems(5,6) r(2) w(2) unfolding n by (simp_all add: algebra_simps)
    qed (use less.prems r(3) w(3) False in auto)
    then show ?thesis
      using lt w(1) r(1) unfolding spl by (subst fab_client_loop.simps) (auto simp flip: ks_def o2_def)
  qed
qed

lemma fab_echo_append: "fab_echo c n (fs @ gs) = fab_echo c n fs @ fab_echo c (n + length fs) gs"
  by (induction c n fs rule: fab_echo.induct) simp_all

lemma fab_echo_before: "n + length fs < c \<Longrightarrow> fab_echo c n fs = fab_wire fs"
  by (induction c n fs rule: fab_echo.induct) (simp_all add: fab_damage_def)

lemma fab_echo_damaged:
  assumes "0 < bytes" "0 < c"
  shows "fab_echo c 0 (map (fab_request bytes) [0..<c]) = fab_wire (map (fab_request bytes) [0..<c - 1]) @ fab_flipped bytes (c - 1)"
proof -
  let ?p = "fab_payload_data bytes (fab_seq (c - 1))"
  have ne: "?p \<noteq> []" using assms(1) length_payload_data [of bytes "fab_seq (c - 1)"] by (metis list.size(3) less_irrefl)
  have "[0..<c] = [0..<c - 1] @ [c - 1]" using assms(2) by (cases c) simp_all
  moreover have "fab_echo c (c - 1) [fab_request bytes (c - 1)] = fab_flipped bytes (c - 1)"
    using assms(2) fab_damaged_bytes [OF ne, of c c "fab_seq (c - 1)"] by (simp add: fab_request_def fab_flipped_def Let_def)
  ultimately show ?thesis using assms(2) fab_echo_before [of 0 "map (fab_request bytes) [0..<c - 1]" c] by (simp add: fab_echo_append)
qed

section \<open>Order statistics\<close>

lemma sorted_filter_le:
  assumes "sorted xs" "i < length xs"
  shows "Suc i \<le> length (filter (\<lambda>x. x \<le> xs ! i) xs)"
proof -
  have "filter (\<lambda>x. x \<le> xs ! i) (take (Suc i) xs) = take (Suc i) xs"
    using assms by (auto simp: filter_id_conv in_set_conv_nth sorted_nth_mono)
  then have "length (take (Suc i) xs) \<le> length (filter (\<lambda>x. x \<le> xs ! i) (take (Suc i) xs @ drop (Suc i) xs))"
    unfolding filter_append by simp
  with assms(2) show ?thesis by simp
qed

lemma sorted_filter_less:
  assumes "sorted xs" "i < length xs" "w < xs ! i"
  shows "length (filter (\<lambda>x. x \<le> w) xs) \<le> i"
proof -
  have "filter (\<lambda>x. x \<le> w) (drop i xs) = []"
  proof -
    have "\<not> x \<le> w" if "x \<in> set (drop i xs)" for x
    proof -
      obtain j where "j < length (drop i xs)" "x = drop i xs ! j" using \<open>x \<in> set (drop i xs)\<close> by (metis in_set_conv_nth)
      then have "i + j < length xs" "x = xs ! (i + j)" using assms(2) by simp_all
      then have "xs ! i \<le> x" using assms(1) by (simp add: sorted_nth_mono)
      with assms(3) show ?thesis by simp
    qed
    then show ?thesis by (simp add: filter_empty_conv)
  qed
  then have "length (filter (\<lambda>x. x \<le> w) (take i xs @ drop i xs)) = length (filter (\<lambda>x. x \<le> w) (take i xs))"
    unfolding filter_append by simp
  then have "length (filter (\<lambda>x. x \<le> w) xs) = length (filter (\<lambda>x. x \<le> w) (take i xs))" by simp
  also have "\<dots> \<le> i" using length_filter_le [of "\<lambda>x. x \<le> w" "take i xs"] by simp
  finally show ?thesis .
qed

lemma filter_sort_length: "length (filter P (sort xs)) = length (filter P xs)"
  by (simp add: filter_sort)

lemma bench_run:
  assumes "fc_bytes cfg \<le> FABR_MAX_BODY" "0 < fc_window cfg" "n = (20 + fc_bytes cfg) * fab_total cfg"
    and "RdFail \<notin> set rs" "n \<le> rd_chunks rs" "wr_reliable ws" "n \<le> wr_chunks ws"
    and "RdFail \<notin> set rs2" "n + 1 \<le> rd_chunks rs2" "wr_reliable ws2" "n \<le> wr_chunks ws2"
  shows "let sent = fab_wire (map (fab_request (fc_bytes cfg)) [0..<fab_total cfg]) in fab_client_loop cfg 0 0 rs ws sent = Some (Inr (2 * fc_bytes cfg * fc_count cfg), sent) \<and>
    fab_serve_connection True 0 rs2 ws2 sent = Some (None, sent) \<and> length sent = n"
proof -
  let ?fs = "map (fab_request (fc_bytes cfg)) [0..<fab_total cfg]"
  have b: "fc_bytes cfg \<le> 2 ^ 20" using assms(1) by (simp add: FABR_MAX_BODY_def)
  have len: "length (fab_wire ?fs) = n" by (simp add: length_requests assms(3))
  have cnt: "length (filter (\<lambda>k. fc_warmup cfg \<le> k) [0..<fab_total cfg]) = fc_count cfg"
  proof -
    have "[0..<fab_total cfg] = [0..<fc_warmup cfg] @ [fc_warmup cfg..<fab_total cfg]"
      using upt_add_eq_append [of 0 "fc_warmup cfg" "fc_count cfg"] by (simp add: fab_total_def)
    then show ?thesis by (simp add: fab_total_def)
  qed
  have "fab_client_loop cfg 0 0 rs ws (fab_wire ?fs) = Some (Inr (2 * fc_bytes cfg * fc_count cfg), fab_wire ?fs)"
    using client_loop_ok [OF b assms(2,4,6), of 0 0 "[]"] assms(3,5,7) cnt by simp
  moreover have "fab_serve_connection True 0 rs2 ws2 (fab_wire ?fs) = Some (None, fab_wire ?fs)"
    using fab_serve_frames [OF requests_ok [OF b] assms(8), of "[0..<fab_total cfg]" ws2 0 0] assms(9-11) len
    by (simp add: fab_serve_connection_def fab_echo_clean)
  ultimately show ?thesis using len by (simp add: Let_def)
qed

section \<open>Properties\<close>

text \<open>
  Benchmark against a faithful server: however the transfers are split, the client, reading what the
  server answers to what the client sends, sends every request once and in order, finds every reply
  as expected and records twice the payload of the counted requests; the server ends the connection
  without an error when the client closes it.
\<close>

theorem bench_verified:
  assumes "fc_bytes cfg \<le> FABR_MAX_BODY" "0 < fc_window cfg" "n = (20 + fc_bytes cfg) * fab_total cfg"
    and "RdFail \<notin> set rs" "n \<le> rd_chunks rs" "wr_reliable ws" "n \<le> wr_chunks ws"
    and "RdFail \<notin> set rs2" "n + 1 \<le> rd_chunks rs2" "wr_reliable ws2" "n \<le> wr_chunks ws2"
  shows "\<exists>sent answer. fab_client_loop cfg 0 0 rs ws answer = Some (Inr (2 * fc_bytes cfg * fc_count cfg), sent) \<and>
    fab_serve_connection True 0 rs2 ws2 sent = Some (None, answer) \<and> length sent = n"
  using bench_run [OF assms] by (auto simp: Let_def)

theorem bench_verified_witness:
  "\<exists>sent answer.
     fab_client_loop \<lparr>fc_count = 2, fc_bytes = 1, fc_window = 2, fc_warmup = 1\<rparr> 0 0 (replicate 63 (RdChunk 4)) (replicate 63 (WrChunk 9)) answer
       = Some (Inr 4, sent) \<and>
     fab_serve_connection True 0 (replicate 64 (RdChunk 0)) (replicate 63 (WrChunk 0)) sent = Some (None, answer) \<and> length sent = 63"
  using bench_verified [of "\<lparr>fc_count = 2, fc_bytes = 1, fc_window = 2, fc_warmup = 1\<rparr>" 63 "replicate 63 (RdChunk 4)" "replicate 63 (WrChunk 9)"
      "replicate 64 (RdChunk 0)" "replicate 63 (WrChunk 0)"]
  by (simp add: FABR_MAX_BODY_def fab_total_def rd_chunks_def wr_chunks_def wr_reliable_def)

text \<open>
  C19. Benchmark against a damaging server: when every \<open>c\<close>-th reply has a flipped bit in its payload and
  the run has at least \<open>c\<close> requests, the client never reports success: it stops at the damaged
  reply with the error of a bad checksum, whatever the window and whatever follows on the stream.
\<close>

theorem bench_detects_damage:
  assumes "0 < fc_bytes cfg" "fc_bytes cfg \<le> FABR_MAX_BODY" "0 < fc_window cfg" "0 < c" "c \<le> fab_total cfg"
    and "RdFail \<notin> set rs" "(20 + fc_bytes cfg) * fab_total cfg \<le> rd_chunks rs" "wr_reliable ws" "(20 + fc_bytes cfg) * fab_total cfg \<le> wr_chunks ws"
    and "RdFail \<notin> set rs2" "(20 + fc_bytes cfg) * c + 1 \<le> rd_chunks rs2" "wr_reliable ws2" "(20 + fc_bytes cfg) * c \<le> wr_chunks ws2"
  shows "\<exists>answer sent. fab_serve_connection True c rs2 ws2 (fab_wire (map (fab_request (fc_bytes cfg)) [0..<c])) = Some (None, answer) \<and>
    fab_client_loop cfg 0 0 rs ws (answer @ rest) = Some (Inl ''bad payload CRC'', sent)"
proof -
  let ?b = "fc_bytes cfg"
  let ?answer = "fab_wire (map (fab_request ?b) [0..<c - 1]) @ fab_flipped ?b (c - 1)"
  have b: "?b \<le> 2 ^ 20" using assms(2) by (simp add: FABR_MAX_BODY_def)
  have "fab_serve_connection True c rs2 ws2 (fab_wire (map (fab_request ?b) [0..<c])) = Some (None, ?answer)"
    using fab_serve_frames [OF requests_ok [OF b] assms(10), of "[0..<c]" ws2 c 0] assms(11-13) fab_echo_damaged [OF assms(1,4)]
    by (simp add: fab_serve_connection_def length_requests)
  moreover have "\<exists>sent. fab_client_loop cfg 0 0 rs ws (?answer @ rest) = Some (Inl ''bad payload CRC'', sent)"
    using client_loop_flipped [OF assms(1) b assms(3,6,8), of 0 "c - 1" 0 rest] assms(4,5,7,9) by simp
  ultimately show ?thesis by blast
qed

theorem bench_detects_damage_witness:
  "\<exists>answer sent. fab_serve_connection True 2 (replicate 43 (RdChunk 0)) (replicate 42 (WrChunk 3)) (fab_wire (map (fab_request 1) [0..<2]))
      = Some (None, answer) \<and>
     fab_client_loop \<lparr>fc_count = 2, fc_bytes = 1, fc_window = 1, fc_warmup = 0\<rparr> 0 0 (replicate 42 (RdChunk 0)) (replicate 42 (WrChunk 0)) (answer @ [])
       = Some (Inl ''bad payload CRC'', sent)"
  using bench_detects_damage [of "\<lparr>fc_count = 2, fc_bytes = 1, fc_window = 1, fc_warmup = 0\<rparr>" 2 "replicate 42 (RdChunk 0)" "replicate 42 (WrChunk 0)"
      "replicate 43 (RdChunk 0)" "replicate 42 (WrChunk 3)" "[]"]
  by (simp add: FABR_MAX_BODY_def fab_total_def rd_chunks_def wr_chunks_def wr_reliable_def)

text \<open>
  The reported percentile of a nonempty sample is a measured value, at least the fraction \<open>q\<close> of the
  samples is not above it, and it is the smallest sample with this property.
\<close>

theorem percentile_nearest_rank:
  fixes samples :: "'a::{linorder,zero} list"
  assumes "samples \<noteq> []" "0 < q" "q \<le> 1"
  shows "fab_percentile samples q \<in> set samples \<and>
    q * of_nat (length samples) \<le> of_nat (length (filter (\<lambda>x. x \<le> fab_percentile samples q) samples)) \<and>
    (\<forall>w. w < fab_percentile samples q \<longrightarrow> of_nat (length (filter (\<lambda>x. x \<le> w) samples)) < q * of_nat (length samples))"
proof -
  let ?n = "length samples" and ?xs = "sort samples"
  define i where "i = nat \<lceil>q * of_nat ?n\<rceil> - 1"
  have n: "0 < ?n" using assms(1) by simp
  have pos: "0 < q * of_nat ?n" "q * of_nat ?n \<le> of_nat ?n" using assms(2,3) n by (simp_all add: mult_le_cancel_right1)
  then have c: "0 < \<lceil>q * of_nat ?n\<rceil>" "\<lceil>q * of_nat ?n\<rceil> \<le> int ?n" by (simp_all add: ceiling_le_iff)
  then have "nat \<lceil>q * of_nat ?n\<rceil> \<le> ?n" "0 < nat \<lceil>q * of_nat ?n\<rceil>" by simp_all
  then have "i < ?n" "Suc i = nat \<lceil>q * of_nat ?n\<rceil>" using n unfolding i_def by linarith+
  then have i: "i < ?n" "int (Suc i) = \<lceil>q * of_nat ?n\<rceil>" using c(1) by simp_all
  have "min i (?n - 1) = i" using i(1) by simp
  then have v: "fab_percentile samples q = ?xs ! i"
    using assms(1) unfolding fab_percentile_def Let_def i_def by simp
  have up: "q * of_nat ?n \<le> of_nat (Suc i)"
    using le_of_int_ceiling [of "q * of_nat ?n"] i(2) by (metis of_int_of_nat_eq)
  have low: "of_nat i < q * of_nat ?n"
  proof -
    have "of_int \<lceil>q * of_nat ?n\<rceil> - 1 < q * of_nat ?n" by linarith
    then show ?thesis using i(2) [symmetric] by simp
  qed
  have "?xs ! i \<in> set samples" using i(1) nth_mem [of i ?xs] by simp
  moreover have "q * of_nat ?n \<le> of_nat (length (filter (\<lambda>x. x \<le> ?xs ! i) samples))"
  proof -
    have "Suc i \<le> length (filter (\<lambda>x. x \<le> ?xs ! i) samples)"
      using sorted_filter_le [of ?xs i] i(1) by (simp add: filter_sort_length)
    then have "of_nat (Suc i) \<le> (of_nat (length (filter (\<lambda>x. x \<le> ?xs ! i) samples)) :: rat)" by (rule of_nat_mono)
    with up show ?thesis by linarith
  qed
  moreover have "of_nat (length (filter (\<lambda>x. x \<le> w) samples)) < q * of_nat ?n" if "w < ?xs ! i" for w
  proof -
    have "length (filter (\<lambda>x. x \<le> w) samples) \<le> i"
      using sorted_filter_less [of ?xs i w] i(1) that by (simp add: filter_sort_length)
    then have "of_nat (length (filter (\<lambda>x. x \<le> w) samples)) \<le> (of_nat i :: rat)" by (rule of_nat_mono)
    with low show ?thesis by linarith
  qed
  ultimately show ?thesis unfolding v by blast
qed

theorem percentile_nearest_rank_witness:
  "fab_percentile [30, 10, 20 :: nat] (1 / 2) \<in> {30, 10, 20}"
  using percentile_nearest_rank [of "[30, 10, 20 :: nat]" "1 / 2"] by simp

text \<open>
  C20. The three checksum routines of the repository are the same function: the datapath's, continued from
  header to payload as the datapath does, and the benchmark's both compute the CRC-32 of the packet
  protocol.
\<close>

theorem crc_implementations_agree:
  "nver_crc32 payload (nver_crc32 head 0xffffffff) XOR 0xffffffff = mlrt_crc32 (head @ payload) \<and>
   fab_crc32 (head @ payload) = mlrt_crc32 (head @ payload)"
  using nver_crc32_whole [of "head @ payload"] by (simp add: fab_crc32_eq nver_crc32_eq mlrt_crc32_update_append)

text \<open>Numbers in range are read back from their decimal text, all others are refused.\<close>

theorem fab_number_dec:
  assumes "n < 2 ^ 64"
  shows "fab_number (dec n) mn mx = (if mn \<le> n \<and> n \<le> mx then Inr n else Inl (''number out of range: '' @ dec n))"
proof -
  obtain d ds where d: "dec n = d # ds" "c_isdigit d" "\<not> c_isspace d" "d \<noteq> CHR ''-''" "d \<noteq> CHR ''+''" by (rule dec_first)
  have tw: "takeWhile c_isdigit ds = ds" using dec_span(1) [of "[]" n] d by simp
  have dw: "dropWhile c_isdigit ds = []" using dec_span(2) [of "[]" n] d by simp
  have "fab_stoull (dec n) = Some (n, length (dec n))"
    using assms d dec_value_dec [of n] by (simp add: fab_stoull_def Let_def tw dw del: dropWhile_eq_Nil_conv)
  then show ?thesis using d by (auto simp: fab_number_def)
qed

end
