(* ===== verification/Fabric_Main.thy ===== *)
theory Fabric_Main
  imports Fabric_Transport
begin

text \<open>
  The program around the frames of \<open>Fabric_Transport\<close>: the sockets of \<^verbatim>\<open>transport.cpp\<close> with the class that
  closes them, the server with one thread for each connection, the client with its report, and the
  selection of the two. Opening and closing of descriptors are events of a log. Times are exact
  numbers; the rounding of \<open>double\<close> is not modelled.
\<close>

section \<open>Sockets\<close>

record fab_report =
  rp_bytes :: nat
  rp_iters :: nat
  rp_warmup :: nat
  rp_window :: nat
  rp_seconds :: rat
  rp_messages_per_second :: rat
  rp_mbps :: rat
  rp_rtt :: "(rat \<times> rat \<times> rat) option"

datatype fab_event = FabOpen int | FabClose int | FabReady string nat | FabReport fab_report | FabLost string | FabError string

record fab_os =
  fo_socket :: int
  fo_pton :: "string \<Rightarrow> bool"
  fo_connect :: "string \<Rightarrow> nat \<Rightarrow> bool"
  fo_bind :: "string \<Rightarrow> nat \<Rightarrow> bool"
  fo_listen :: bool
  fo_sockname :: "nat option"
  fo_rcvtimeo :: "int \<Rightarrow> bool"
  fo_sndtimeo :: "int \<Rightarrow> bool"

text \<open>The destructor of \<open>Socket\<close>; it runs when the scope is left, by a return or by an exception.\<close>

definition fab_close :: "int \<Rightarrow> fab_event list" where
  "fab_close fd = (if fd \<ge> 0 then [FabClose fd] else [])"

definition fab_timeout :: "fab_os \<Rightarrow> int \<Rightarrow> string + unit" where
  "fab_timeout os fd = (if \<not> fo_rcvtimeo os fd \<or> \<not> fo_sndtimeo os fd then Inl ''set timeout failed'' else Inr ())"

text \<open>On success the descriptor is moved to the caller, and the moved-from object closes nothing.\<close>

definition fab_connect_to :: "fab_os \<Rightarrow> string \<Rightarrow> nat \<Rightarrow> (string + int) \<times> fab_event list" where
  "fab_connect_to os ip port =
     (let fd = fo_socket os;
          abandon = (\<lambda>why. (Inl why, FabOpen fd # fab_close fd))
      in if fd < 0 then (Inl ''socket failed'', fab_close fd)
         else if \<not> fo_pton os ip then abandon ''invalid IPv4 address''
         else if \<not> fo_connect os ip port then abandon ''connect failed''
         else (case fab_timeout os fd of Inl why \<Rightarrow> abandon why | Inr _ \<Rightarrow> (Inr fd, [FabOpen fd])))"

definition fab_listener :: "fab_os \<Rightarrow> string \<Rightarrow> nat \<Rightarrow> (string + int \<times> nat) \<times> fab_event list" where
  "fab_listener os ip port =
     (let fd = fo_socket os;
          abandon = (\<lambda>why. (Inl why, FabOpen fd # fab_close fd))
      in if fd < 0 then (Inl ''socket failed'', fab_close fd)
         else if \<not> fo_pton os ip then abandon ''invalid bind IP''
         else if \<not> fo_bind os ip port \<or> \<not> fo_listen os then abandon ''bind/listen failed''
         else (case fo_sockname os of None \<Rightarrow> abandon ''getsockname failed'' | Some bound \<Rightarrow> (Inr (fd, bound), [FabOpen fd])))"

section \<open>Server\<close>

text \<open>A result of \<open>accept\<close> and what then happens on the connection.\<close>

record fab_conn =
  fk_fd :: int
  fk_reads :: "rd_event list"
  fk_writes :: "wr_event list"
  fk_input :: "byte list"

text \<open>The thread of a connection: the bytes it sends, and its events; its socket is closed in any case.\<close>

definition fab_thread :: "fab_os \<Rightarrow> nat \<Rightarrow> fab_conn \<Rightarrow> (byte list \<times> fab_event list) option" where
  "fab_thread os corrupt c =
     map_option (\<lambda>(err, out). (out, (case err of None \<Rightarrow> [] | Some e \<Rightarrow> [FabLost e]) @ fab_close (fk_fd c)))
       (fab_serve_connection (fab_timeout os (fk_fd c) = Inr ()) corrupt (fk_reads c) (fk_writes c) (fk_input c))"

fun fab_join :: "fab_os \<Rightarrow> nat \<Rightarrow> fab_conn list \<Rightarrow> (byte list list \<times> fab_event list) option" where
  "fab_join os corrupt [] = Some ([], [])"
| "fab_join os corrupt (c # cs) =
     (case fab_thread os corrupt c of
        None \<Rightarrow> None
      | Some (out, lg) \<Rightarrow> map_option (\<lambda>(outs, lg'). (out # outs, lg @ lg')) (fab_join os corrupt cs))"

text \<open>
  The accept loop: the connections accepted, on the left when \<open>accept\<close> failed after them. How a
  program ends: by returning, or by \<open>std::terminate\<close>.
\<close>

fun fab_accept_loop :: "nat \<Rightarrow> fab_conn list \<Rightarrow> fab_conn list \<Rightarrow> (fab_conn list + fab_conn list) option" where
  "fab_accept_loop 0 started accepts = Some (Inr started)"
| "fab_accept_loop (Suc n) started [] = None"
| "fab_accept_loop (Suc n) started (c # cs) =
     (if fk_fd c < 0 then Some (Inl started) else fab_accept_loop n (started @ [c]) cs)"

datatype fab_end = Exit int | Terminate

type_synonym fab_result = "(fab_end \<times> byte list list \<times> fab_event list) option"

text \<open>What \<open>main\<close> does with an exception.\<close>

definition fab_failed :: "string \<Rightarrow> fab_event list \<Rightarrow> fab_result" where
  "fab_failed why lg = Some (Exit 2, [], lg @ [FabError why])"

text \<open>
  The threads run while further connections are accepted; the log has their events at the joins.
  When \<open>accept\<close> fails, the exception destroys the threads already started, and the destructor of a
  thread that was not joined ends the program.
\<close>

definition fab_serve_all :: "fab_os \<Rightarrow> nat \<Rightarrow> nat \<Rightarrow> int \<Rightarrow> fab_conn list \<Rightarrow> fab_event list \<Rightarrow> fab_result" where
  "fab_serve_all os corrupt max_clients fd accepts lg =
     (case fab_accept_loop max_clients [] accepts of
        None \<Rightarrow> None
      | Some (Inl []) \<Rightarrow> fab_failed ''accept failed'' (lg @ fab_close fd)
      | Some (Inl cs) \<Rightarrow> Some (Terminate, [], lg @ map (FabOpen \<circ> fk_fd) cs)
      | Some (Inr cs) \<Rightarrow>
          map_option (\<lambda>(outs, lg'). (Exit 0, outs, lg @ map (FabOpen \<circ> fk_fd) cs @ lg' @ fab_close fd))
            (fab_join os corrupt cs))"

record fab_server_config =
  sc_ip :: string
  sc_port :: nat
  sc_corrupt :: nat
  sc_max_clients :: nat

definition fab_server_args :: "string list \<Rightarrow> string + fab_server_config" where
  "fab_server_args args =
     (case fab_option args ''--bind'' ''127.0.0.1'' of
        Inl e \<Rightarrow> Inl e
      | Inr ip \<Rightarrow>
     (case fab_arg args ''--port'' ''0'' 0 65535 of
        Inl e \<Rightarrow> Inl e
      | Inr port \<Rightarrow>
     (case fab_arg args ''--delay-us'' ''0'' 0 1000000 of
        Inl e \<Rightarrow> Inl e
      | Inr delay \<Rightarrow>
     (case fab_arg args ''--corrupt-every'' ''0'' 0 1000000 of
        Inl e \<Rightarrow> Inl e
      | Inr corrupt \<Rightarrow>
     (case fab_arg args ''--max-clients'' ''1'' 1 10000 of
        Inl e \<Rightarrow> Inl e
      | Inr max_clients \<Rightarrow> Inr \<lparr>sc_ip = ip, sc_port = port, sc_corrupt = corrupt, sc_max_clients = max_clients\<rparr>)))))"

definition fab_server :: "fab_os \<Rightarrow> string list \<Rightarrow> fab_conn list \<Rightarrow> fab_result" where
  "fab_server os args accepts =
     (case fab_server_args args of
        Inl e \<Rightarrow> fab_failed e []
      | Inr sc \<Rightarrow>
          (case fab_listener os (sc_ip sc) (sc_port sc) of
             (Inl e, lg) \<Rightarrow> fab_failed e lg
           | (Inr (fd, bound), lg) \<Rightarrow>
               fab_serve_all os (sc_corrupt sc) (sc_max_clients sc) fd accepts (lg @ [FabReady (sc_ip sc) bound])))"

section \<open>Client\<close>

definition fab_client_args :: "string list \<Rightarrow> string + (string \<times> nat \<times> fab_config)" where
  "fab_client_args args =
     (case fab_option args ''--host'' ''127.0.0.1'' of
        Inl e \<Rightarrow> Inl e
      | Inr ip \<Rightarrow>
     (case fab_arg args ''--port'' ''0'' 1 65535 of
        Inl e \<Rightarrow> Inl e
      | Inr port \<Rightarrow>
     (case fab_arg args ''--iters'' ''100'' 1 1000000 of
        Inl e \<Rightarrow> Inl e
      | Inr count \<Rightarrow>
     (case fab_arg args ''--bytes'' ''4096'' 0 FABR_MAX_BODY of
        Inl e \<Rightarrow> Inl e
      | Inr bytes \<Rightarrow>
     (case fab_arg args ''--window'' ''1'' 1 1024 of
        Inl e \<Rightarrow> Inl e
      | Inr window \<Rightarrow>
     (case fab_arg args ''--warmup'' ''10'' 0 100000 of
        Inl e \<Rightarrow> Inl e
      | Inr warmup \<Rightarrow> Inr (ip, port, \<lparr>fc_count = count, fc_bytes = bytes, fc_window = window, fc_warmup = warmup\<rparr>)))))))"

text \<open>
  Readings of the clock in microseconds: before the first counted request, when the \<open>k\<close>-th request is
  sent, when its reply has been checked, and at the end.
\<close>

record fab_clock =
  ck_start :: rat
  ck_sent :: "nat \<Rightarrow> rat"
  ck_received :: "nat \<Rightarrow> rat"
  ck_end :: rat

text \<open>The round-trip times the loop has collected at its end, for a window of one.\<close>

definition fab_latencies :: "fab_config \<Rightarrow> fab_clock \<Rightarrow> rat list" where
  "fab_latencies cfg ck = map (\<lambda>k. ck_received ck k - ck_sent ck k) (filter (\<lambda>k. k \<ge> fc_warmup cfg) [0..<fab_total cfg])"

definition fab_report_of :: "fab_config \<Rightarrow> fab_clock \<Rightarrow> nat \<Rightarrow> fab_report" where
  "fab_report_of cfg ck recorded_bytes =
     (let elapsed = (ck_end ck - ck_start ck) / 1000000;
          latencies = fab_latencies cfg ck
      in \<lparr>rp_bytes = fc_bytes cfg, rp_iters = fc_count cfg, rp_warmup = fc_warmup cfg, rp_window = fc_window cfg,
          rp_seconds = elapsed, rp_messages_per_second = of_nat (fc_count cfg) / elapsed,
          rp_mbps = of_nat recorded_bytes * 8 / (elapsed * 1000000),
          rp_rtt = (if fc_window cfg = 1
                    then Some (fab_percentile latencies (50 / 100), fab_percentile latencies (95 / 100), fab_percentile latencies (99 / 100))
                    else None)\<rparr>)"

definition fab_client ::
    "fab_os \<Rightarrow> fab_clock \<Rightarrow> string list \<Rightarrow> rd_event list \<Rightarrow> wr_event list \<Rightarrow> byte list \<Rightarrow> fab_result" where
  "fab_client os ck args rs ws inp =
     (case fab_client_args args of
        Inl e \<Rightarrow> fab_failed e []
      | Inr (ip, port, cfg) \<Rightarrow>
          (case fab_connect_to os ip port of
             (Inl e, lg) \<Rightarrow> fab_failed e lg
           | (Inr fd, lg) \<Rightarrow>
               (case fab_client_loop cfg 0 0 rs ws inp of
                  None \<Rightarrow> None
                | Some (Inl e, sent) \<Rightarrow> map_option (\<lambda>(x, _, l). (x, [sent], l)) (fab_failed e (lg @ fab_close fd))
                | Some (Inr recorded, sent) \<Rightarrow>
                    Some (Exit 0, [sent], lg @ [FabReport (fab_report_of cfg ck recorded)] @ fab_close fd))))"

definition fab_main ::
    "fab_os \<Rightarrow> fab_clock \<Rightarrow> string list \<Rightarrow> fab_conn list \<Rightarrow> rd_event list \<Rightarrow> wr_event list \<Rightarrow> byte list \<Rightarrow> fab_result" where
  "fab_main os ck argv accepts rs ws inp =
     (if length argv < 2 then fab_failed ''usage'' []
      else if argv ! 1 = ''server'' then fab_server os (drop 2 argv) accepts
      else if argv ! 1 = ''bench'' then fab_client os ck (drop 2 argv) rs ws inp
      else fab_failed ''unknown command'' [])"

section \<open>Descriptors\<close>

fun fab_delta :: "int \<Rightarrow> fab_event \<Rightarrow> int" where
  "fab_delta fd (FabOpen f) = (if f = fd then 1 else 0)"
| "fab_delta fd (FabClose f) = (if f = fd then -1 else 0)"
| "fab_delta fd _ = 0"

abbreviation fab_balance :: "int \<Rightarrow> fab_event list \<Rightarrow> int" where
  "fab_balance \<equiv> fd_balance fab_delta"

lemma fab_close_balance [simp]: "fab_balance fd (fab_close f) = (if f \<ge> 0 \<and> f = fd then -1 else 0)"
  by (simp add: fab_close_def)

lemma connect_balance:
  assumes "fab_connect_to os ip port = (r, lg)"
  shows "case r of Inl _ \<Rightarrow> fab_balance fd lg = 0 | Inr f \<Rightarrow> 0 \<le> f \<and> lg = [FabOpen f]"
  using assms by (auto simp: fab_connect_to_def Let_def split: if_splits sum.splits)

lemma listener_balance:
  assumes "fab_listener os ip port = (r, lg)"
  shows "case r of Inl _ \<Rightarrow> fab_balance fd lg = 0 | Inr (f, _) \<Rightarrow> 0 \<le> f \<and> lg = [FabOpen f]"
  using assms by (auto simp: fab_listener_def Let_def split: if_splits option.splits)

lemma accept_loop_fds:
  assumes "fab_accept_loop n started accepts = Some r" "list_all (\<lambda>c. 0 \<le> fk_fd c) started"
  shows "case r of Inl cs \<Rightarrow> list_all (\<lambda>c. 0 \<le> fk_fd c) cs | Inr cs \<Rightarrow> list_all (\<lambda>c. 0 \<le> fk_fd c) cs"
  using assms
  by (induction n started accepts rule: fab_accept_loop.induct) (auto split: if_splits)

lemma thread_balance: "fab_thread os corrupt c = Some (out, lg) \<Longrightarrow> fab_balance fd lg = fab_balance fd (fab_close (fk_fd c))"
  by (auto simp: fab_thread_def split: option.splits)

lemma join_balance:
  assumes "fab_join os corrupt cs = Some (outs, lg)" "list_all (\<lambda>c. 0 \<le> fk_fd c) cs"
  shows "fab_balance fd (map (FabOpen \<circ> fk_fd) cs) + fab_balance fd lg = 0"
  using assms
proof (induction cs arbitrary: outs lg)
  case (Cons c cs)
  then obtain out lg1 outs' lg' where t: "fab_thread os corrupt c = Some (out, lg1)" "fab_join os corrupt cs = Some (outs', lg')" "lg = lg1 @ lg'"
    by (auto split: option.splits)
  with Cons.IH [of outs' lg'] Cons.prems(2) thread_balance [OF t(1), of fd] show ?case by simp
qed simp

lemma serve_all_balance:
  assumes "fab_serve_all os corrupt n f accepts lg = Some (x, outs, lg')" "x \<noteq> Terminate" "0 \<le> f" "fab_balance fd lg = (if f = fd then 1 else 0)"
  shows "fab_balance fd lg' = 0"
proof -
  from assms(1,2) consider (none) "lg' = lg @ fab_close f @ [FabError ''accept failed'']"
    | (all) cs lg1 where "fab_accept_loop n [] accepts = Some (Inr cs)" "fab_join os corrupt cs = Some (outs, lg1)"
        "lg' = lg @ map (FabOpen \<circ> fk_fd) cs @ lg1 @ fab_close f"
    by (auto simp: fab_serve_all_def fab_failed_def split: option.splits sum.splits list.splits)
  then show ?thesis
  proof cases
    case none
    with assms(3,4) show ?thesis by simp
  next
    case all
    have "list_all (\<lambda>c. 0 \<le> fk_fd c) cs" using accept_loop_fds [OF all(1)] by simp
    with join_balance [OF all(2)] all(3) assms(3,4) show ?thesis by simp
  qed
qed

lemma server_balance:
  assumes "fab_server os args accepts = Some (x, outs, lg)" "x \<noteq> Terminate"
  shows "fab_balance fd lg = 0"
proof (cases "fab_server_args args")
  case (Inl e)
  with assms show ?thesis by (auto simp: fab_server_def fab_failed_def)
next
  case (Inr sc)
  obtain r lg0 where l: "fab_listener os (sc_ip sc) (sc_port sc) = (r, lg0)" by fastforce
  note b = listener_balance [OF l, of fd]
  show ?thesis
  proof (cases r)
    case (Inl e)
    with Inr l b assms show ?thesis by (auto simp: fab_server_def fab_failed_def)
  next
    case r: (Inr fb)
    obtain f bound where f: "fb = (f, bound)" by fastforce
    with r b have "0 \<le> f" "lg0 = [FabOpen f]" by simp_all
    with Inr l r f assms show ?thesis
      using serve_all_balance [of os "sc_corrupt sc" "sc_max_clients sc" f accepts "lg0 @ [FabReady (sc_ip sc) bound]" x outs lg fd]
      by (simp add: fab_server_def)
  qed
qed

lemma client_cases:
  assumes "fab_client os ck args rs ws inp = Some (x, outs, lg)"
  obtains (failed) why lg0 where "x = Exit 2" "lg = lg0 @ [FabError why]" "\<And>fd. fab_balance fd lg0 = 0" "\<And>r. FabReport r \<notin> set lg0"
  | (report) ip port cfg fd recorded sent where "fab_client_args args = Inr (ip, port, cfg)" "fab_connect_to os ip port = (Inr fd, [FabOpen fd])" "0 \<le> fd"
      "fab_client_loop cfg 0 0 rs ws inp = Some (Inr recorded, sent)" "x = Exit 0" "outs = [sent]"
      "lg = [FabOpen fd, FabReport (fab_report_of cfg ck recorded), FabClose fd]"
proof (cases "fab_client_args args")
  case (Inl e)
  with assms show thesis using failed [of "[]"] by (auto simp: fab_client_def fab_failed_def)
next
  case (Inr a)
  obtain ip port cfg where a: "a = (ip, port, cfg)" using prod_cases3 by blast
  obtain r lg0 where c: "fab_connect_to os ip port = (r, lg0)" by fastforce
  show thesis
  proof (cases r)
    case r: (Inl e)
    have "fab_balance fd lg0 = 0" for fd using connect_balance [OF c, of fd] r by simp
    moreover have "FabReport q \<notin> set lg0" for q
      using c by (auto simp: fab_connect_to_def fab_close_def Let_def split: if_splits sum.splits)
    ultimately show thesis using Inr a c r assms failed [of lg0 e] by (auto simp: fab_client_def fab_failed_def)
  next
    case r: (Inr f)
    have f: "0 \<le> f" "lg0 = [FabOpen f]" using connect_balance [OF c, of f] r by simp_all
    obtain res sent where l: "fab_client_loop cfg 0 0 rs ws inp = Some (res, sent)"
      using assms Inr a c r by (auto simp: fab_client_def split: option.splits)
    show thesis
    proof (cases res)
      case (Inl e)
      with l Inr a c r f assms show thesis
        using failed [of "lg0 @ fab_close f" e] by (auto simp: fab_client_def fab_failed_def fab_close_def)
    next
      case res: (Inr recorded)
      with l Inr a c r f assms show thesis
        using report [of ip port cfg f recorded sent] by (auto simp: fab_client_def fab_close_def)
    qed
  qed
qed

lemma percentile_mono:
  fixes samples :: "'a::{linorder,zero} list"
  assumes "p \<le> q"
  shows "fab_percentile samples p \<le> fab_percentile samples q"
proof (cases "samples = []")
  case False
  let ?i = "\<lambda>q. min (nat \<lceil>q * of_nat (length samples)\<rceil> - 1) (length samples - 1)"
  have "p * of_nat (length samples) \<le> q * of_nat (length samples)" using assms by (simp add: mult_right_mono)
  then have "?i p \<le> ?i q" by (intro min.mono diff_le_mono nat_mono ceiling_mono) simp_all
  moreover have "?i q < length (sort samples)" using False by (simp add: min_less_iff_disj)
  ultimately have "sort samples ! ?i p \<le> sort samples ! ?i q" by (intro sorted_nth_mono) simp_all
  with False show ?thesis by (simp add: fab_percentile_def Let_def)
qed (simp add: fab_percentile_def)

lemma percentile_mem:
  fixes samples :: "'a::{linorder,zero} list"
  assumes "samples \<noteq> []"
  shows "fab_percentile samples q \<in> set samples"
proof -
  let ?i = "min (nat \<lceil>q * of_nat (length samples)\<rceil> - 1) (length samples - 1)"
  have "?i < length (sort samples)" using assms by (simp add: min_less_iff_disj)
  from nth_mem [OF this] assms show ?thesis by (simp add: fab_percentile_def Let_def)
qed

lemma fab_arg_range: "fab_arg args key dflt mn mx = Inr v \<Longrightarrow> mn \<le> v \<and> v \<le> mx"
  by (auto simp: fab_arg_def fab_number_def split: sum.splits if_splits option.splits)

lemma client_args_range:
  assumes "fab_client_args args = Inr (ip, port, cfg)"
  shows "1 \<le> fc_count cfg" "fc_bytes cfg \<le> FABR_MAX_BODY" "1 \<le> fc_window cfg"
  using assms by (auto simp: fab_client_args_def dest!: fab_arg_range split: sum.splits)

section \<open>Properties\<close>

text \<open>
  Descriptors of the benchmark program. Unless it is ended by \<open>std::terminate\<close>, the program, as server
  or client and on every path on which it returns, has closed each socket it opened or accepted
  exactly once, exits with 0 or 2, and as client prints a report exactly if it exits with 0.
\<close>

theorem fabric_releases_sockets:
  assumes "fab_main os ck argv accepts rs ws inp = Some (x, outs, lg)" "x \<noteq> Terminate"
  shows "fab_balance fd lg = 0 \<and> (x = Exit 0 \<or> x = Exit 2) \<and>
    (argv ! 1 = ''bench'' \<longrightarrow> ((\<exists>r. FabReport r \<in> set lg) \<longleftrightarrow> x = Exit 0 \<and> 1 < length argv))"
proof -
  consider (usage) why where "x = Exit 2" "lg = [FabError why]"
    | (server) "argv ! 1 = ''server''" "fab_server os (drop 2 argv) accepts = Some (x, outs, lg)"
    | (client) "1 < length argv" "fab_client os ck (drop 2 argv) rs ws inp = Some (x, outs, lg)"
    using assms(1) by (auto simp: fab_main_def fab_failed_def split: if_splits)
  then show ?thesis
  proof cases
    case usage
    then show ?thesis by simp
  next
    case server
    have "x = Exit 0 \<or> x = Exit 2"
      using server(2) assms(2) by (auto simp: fab_server_def fab_serve_all_def fab_failed_def split: sum.splits prod.splits option.splits list.splits)
    with server server_balance [OF server(2) assms(2), of fd] show ?thesis by simp
  next
    case client
    from client(2) show ?thesis
    proof (cases rule: client_cases)
      case failed
      then show ?thesis by auto
    next
      case report
      with client(1) show ?thesis by auto
    qed
  qed
qed

text \<open>
  C18. Client and server together. Whatever options the client is given, when the calls that open the
  sockets succeed, no transfer fails and the server does not damage frames, the server serves the
  connection and exits with 0, and the client verifies every reply, exits with 0, and reports the
  requested numbers, twice the counted payload as transferred bytes, and for a window of one three
  percentiles in ascending order, each of them a measured time.
\<close>

theorem fabric_bench_reports:
  assumes sargs: "fab_server_args sargs = Inr sc" "sc_corrupt sc = 0" "sc_max_clients sc = 1"
    and sos: "0 \<le> fo_socket os1" "fo_pton os1 (sc_ip sc)" "fo_bind os1 (sc_ip sc) (sc_port sc)" "fo_listen os1" "fo_sockname os1 = Some bound"
      "0 \<le> conn" "fo_rcvtimeo os1 conn" "fo_sndtimeo os1 conn"
    and cargs: "fab_client_args cargs = Inr (ip, port, cfg)"
    and cos: "0 \<le> fo_socket os2" "fo_pton os2 ip" "fo_connect os2 ip port" "fo_rcvtimeo os2 (fo_socket os2)" "fo_sndtimeo os2 (fo_socket os2)"
    and n: "n = (20 + fc_bytes cfg) * fab_total cfg"
    and tr: "RdFail \<notin> set rs" "n \<le> rd_chunks rs" "wr_reliable ws" "n \<le> wr_chunks ws"
      "RdFail \<notin> set rs2" "n + 1 \<le> rd_chunks rs2" "wr_reliable ws2" "n \<le> wr_chunks ws2"
  shows "\<exists>sent slog r.
    fab_main os1 ck (p # ''server'' # sargs) [\<lparr>fk_fd = conn, fk_reads = rs2, fk_writes = ws2, fk_input = sent\<rparr>] [] [] [] = Some (Exit 0, [sent], slog) \<and>
    fab_main os2 ck (p # ''bench'' # cargs) [] rs ws sent = Some (Exit 0, [sent], [FabOpen (fo_socket os2), FabReport r, FabClose (fo_socket os2)]) \<and>
    rp_bytes r = fc_bytes cfg \<and> rp_iters r = fc_count cfg \<and> rp_mbps r = of_nat (2 * fc_bytes cfg * fc_count cfg) * 8 / (rp_seconds r * 1000000) \<and>
    (fc_window cfg = 1 \<longrightarrow> (\<exists>a b c. rp_rtt r = Some (a, b, c) \<and> a \<le> b \<and> b \<le> c \<and> {a, b, c} \<subseteq> set (fab_latencies cfg ck)))"
proof -
  define sent where "sent = fab_wire (map (fab_request (fc_bytes cfg)) [0..<fab_total cfg])"
  let ?r = "fab_report_of cfg ck (2 * fc_bytes cfg * fc_count cfg)"
  let ?c = "\<lparr>fk_fd = conn, fk_reads = rs2, fk_writes = ws2, fk_input = sent\<rparr>"
  note range = client_args_range [OF cargs]
  have run: "fab_client_loop cfg 0 0 rs ws sent = Some (Inr (2 * fc_bytes cfg * fc_count cfg), sent)"
      "fab_serve_connection True 0 rs2 ws2 sent = Some (None, sent)"
    using bench_run [OF range(2) _ n tr] range(3) by (simp_all add: Let_def sent_def)
  have "fab_listener os1 (sc_ip sc) (sc_port sc) = (Inr (fo_socket os1, bound), [FabOpen (fo_socket os1)])"
    using sos by (simp add: fab_listener_def Let_def)
  moreover have "fab_join os1 0 [?c] = Some ([sent], fab_close conn)"
    using sos run(2) by (simp add: fab_thread_def fab_timeout_def)
  ultimately have server: "\<exists>slog. fab_main os1 ck (p # ''server'' # sargs) [?c] [] [] [] = Some (Exit 0, [sent], slog)"
    using sargs sos(6) by (simp add: fab_main_def fab_server_def fab_serve_all_def)
  have client: "fab_main os2 ck (p # ''bench'' # cargs) [] rs ws sent = Some (Exit 0, [sent], [FabOpen (fo_socket os2), FabReport ?r, FabClose (fo_socket os2)])"
    using cargs cos run(1) by (simp add: fab_main_def fab_client_def fab_connect_to_def fab_timeout_def fab_close_def Let_def)
  have ne: "fab_latencies cfg ck \<noteq> []"
    using range(1) by (auto simp: fab_latencies_def filter_empty_conv fab_total_def intro!: bexI [of _ "fc_warmup cfg"])
  have "\<exists>a b c. rp_rtt ?r = Some (a, b, c) \<and> a \<le> b \<and> b \<le> c \<and> {a, b, c} \<subseteq> set (fab_latencies cfg ck)" if "fc_window cfg = 1"
    using that percentile_mem [OF ne] percentile_mono [of "50 / 100" "95 / 100" "fab_latencies cfg ck"] percentile_mono [of "95 / 100" "99 / 100" "fab_latencies cfg ck"]
    by (simp add: fab_report_of_def Let_def)
  with server client show ?thesis
    by (intro exI [of _ sent]) (auto simp: fab_report_of_def Let_def)
qed

definition sample_fab_os :: fab_os where
  "sample_fab_os = \<lparr>fo_socket = 3, fo_pton = (\<lambda>_. True), fo_connect = (\<lambda>_ _. True), fo_bind = (\<lambda>_ _. True), fo_listen = True,
     fo_sockname = Some 40000, fo_rcvtimeo = (\<lambda>_. True), fo_sndtimeo = (\<lambda>_. True)\<rparr>"

definition sample_fab_clock :: fab_clock where
  "sample_fab_clock = \<lparr>ck_start = 0, ck_sent = (\<lambda>k. of_nat k * 10), ck_received = (\<lambda>k. of_nat k * 10 + 5), ck_end = 20\<rparr>"

lemmas fab_args_eval = fab_arg_def fab_number_def fab_stoull_def dec_value_def c_isspace_def c_isdigit_def Let_def FABR_MAX_BODY_def

lemma sample_server_args:
  "fab_server_args [] = Inr \<lparr>sc_ip = ''127.0.0.1'', sc_port = 0, sc_corrupt = 0, sc_max_clients = 1\<rparr>"
  by (simp add: fab_server_args_def fab_args_eval)

lemma sample_client_args:
  "fab_client_args [''--port'', ''9'', ''--iters'', ''2'', ''--bytes'', ''1'', ''--warmup'', ''1''] =
     Inr (''127.0.0.1'', 9, \<lparr>fc_count = 2, fc_bytes = 1, fc_window = 1, fc_warmup = 1\<rparr>)"
  by (simp add: fab_client_args_def fab_args_eval)

theorem fabric_releases_sockets_witness:
  "\<exists>lg. fab_main (sample_fab_os\<lparr>fo_connect := \<lambda>_ _. False\<rparr>) sample_fab_clock
      [''fabric'', ''bench'', ''--port'', ''9'', ''--iters'', ''2'', ''--bytes'', ''1'', ''--warmup'', ''1''] [] [] [] [] = Some (Exit 2, [], lg) \<and>
     FabOpen 3 \<in> set lg \<and> fab_balance 3 lg = 0"
proof -
  let ?run = "fab_main (sample_fab_os\<lparr>fo_connect := \<lambda>_ _. False\<rparr>) sample_fab_clock
      [''fabric'', ''bench'', ''--port'', ''9'', ''--iters'', ''2'', ''--bytes'', ''1'', ''--warmup'', ''1''] [] [] [] []"
  have r: "?run = Some (Exit 2, [], [FabOpen 3, FabClose 3, FabError ''connect failed''])"
    by (simp add: fab_main_def fab_client_def sample_client_args fab_connect_to_def fab_failed_def fab_close_def sample_fab_os_def Let_def)
  from fabric_releases_sockets [OF r, of 3] r show ?thesis by simp
qed

theorem fabric_bench_reports_witness:
  "\<exists>sent slog r.
     fab_main sample_fab_os sample_fab_clock [''fabric'', ''server''] [\<lparr>fk_fd = 4, fk_reads = replicate 64 (RdChunk 0), fk_writes = replicate 63 (WrChunk 0), fk_input = sent\<rparr>] [] [] [] =
       Some (Exit 0, [sent], slog) \<and>
     fab_main sample_fab_os sample_fab_clock [''fabric'', ''bench'', ''--port'', ''9'', ''--iters'', ''2'', ''--bytes'', ''1'', ''--warmup'', ''1''] []
         (replicate 63 (RdChunk 4)) (replicate 63 (WrChunk 9)) sent = Some (Exit 0, [sent], [FabOpen 3, FabReport r, FabClose 3]) \<and>
     rp_iters r = 2 \<and> rp_rtt r \<noteq> None"
  using fabric_bench_reports [OF sample_server_args _ _ _ _ _ _ _ _ _ _ sample_client_args, of sample_fab_os 40000 4 sample_fab_os 63 "replicate 63 (RdChunk 4)"
      "replicate 63 (WrChunk 9)" "replicate 64 (RdChunk 0)" "replicate 63 (WrChunk 0)" sample_fab_clock "''fabric''"]
  by (auto simp: sample_fab_os_def fab_total_def rd_chunks_def wr_chunks_def wr_reliable_def)

text \<open>
  When \<open>accept\<close> fails after a connection has been accepted, the exception destroys a thread that was not
  joined: the server does not exit with its error code, the program is terminated.
\<close>

theorem server_accept_failure_terminates:
  assumes "0 \<le> fk_fd c" "fk_fd c' < 0"
  shows "\<exists>lg. fab_main sample_fab_os ck [''fabric'', ''server'', ''--max-clients'', ''2''] [c, c'] [] [] [] = Some (Terminate, [], lg)"
proof -
  have "fab_server_args [''--max-clients'', ''2''] = Inr \<lparr>sc_ip = ''127.0.0.1'', sc_port = 0, sc_corrupt = 0, sc_max_clients = 2\<rparr>"
    by (simp add: fab_server_args_def fab_args_eval)
  moreover have "fab_accept_loop 2 [] [c, c'] = Some (Inl [c])" using assms by (simp add: numeral_2_eq_2)
  ultimately show ?thesis
    by (simp add: fab_main_def fab_server_def fab_listener_def fab_serve_all_def sample_fab_os_def Let_def)
qed

end
