(* ===== verification/Event_Loop.thy ===== *)
theory Event_Loop
  imports Prelude C_Strings
begin

text \<open>
  The event loop of \<^verbatim>\<open>realtime/event_loop.c\<close>: options, creation of the four descriptors, the loop over
  what \<open>epoll_wait\<close> returns, and the common exit that closes the descriptors and restores the signal
  mask. The counter behind the \<open>eventfd\<close> is part of the state; timer, signals and failures come from
  the system and are arguments.
\<close>

section \<open>The loop\<close>

text \<open>
  One ready descriptor. \<open>TimerItem\<close>: the expirations a successful \<open>read\<close> returns, and whether a
  \<open>write\<close> to the event descriptor would succeed. \<open>SignalItem\<close>: whether the signal can be read.
\<close>

datatype ep_item = TimerItem "u64 option" bool | EventItem | SignalItem bool | OtherItem

datatype ep_wait = EpReady "ep_item list" | EpIntr | EpFail

record ev_state =
  ev_ticks :: int
  ev_worker_events :: int
  ev_stop :: bool
  ev_counter :: u64

definition ev_start :: ev_state where
  "ev_start = \<lparr>ev_ticks = 0, ev_worker_events = 0, ev_stop = False, ev_counter = 0\<rparr>"

text \<open>A read of the event descriptor returns its counter and clears it; it fails while that is zero.\<close>

fun ev_item :: "int \<Rightarrow> ep_item \<Rightarrow> ev_state \<Rightarrow> ev_state option" where
  "ev_item target (TimerItem None w) s = Some s"
| "ev_item target (TimerItem (Some expirations) w) s =
     (let s1 = s\<lparr>ev_ticks := ev_ticks s + to_c_int (uint expirations)\<rparr>
      in if ev_ticks s1 \<ge> target div 2 \<and> ev_worker_events s1 = 0
         then (if w then Some (s1\<lparr>ev_counter := ev_counter s1 + 1\<rparr>) else None)
         else Some s1)"
| "ev_item target EventItem s =
     (if ev_counter s = 0 then Some s
      else Some (s\<lparr>ev_worker_events := ev_worker_events s + to_c_int (uint (ev_counter s)), ev_counter := 0\<rparr>))"
| "ev_item target (SignalItem ok) s = Some (if ok then s\<lparr>ev_stop := True\<rparr> else s)"
| "ev_item target OtherItem s = Some s"

fun ev_items :: "int \<Rightarrow> ep_item list \<Rightarrow> ev_state \<Rightarrow> ev_state option" where
  "ev_items target [] s = Some s"
| "ev_items target (i # is) s = (case ev_item target i s of None \<Rightarrow> None | Some s' \<Rightarrow> ev_items target is s')"

text \<open>\<open>None\<close>: the loop has not ended. \<open>Inl\<close>: it was left by a failure.\<close>

fun ev_loop :: "int \<Rightarrow> ep_wait list \<Rightarrow> ev_state \<Rightarrow> (unit + ev_state) option" where
  "ev_loop target waits s =
     (if \<not> ev_stop s \<and> ev_ticks s < target then
        (case waits of
           [] \<Rightarrow> None
         | EpIntr # ws \<Rightarrow> ev_loop target ws s
         | EpFail # ws \<Rightarrow> Some (Inl ())
         | EpReady is # ws \<Rightarrow>
             (case ev_items target (take 4 is) s of
                None \<Rightarrow> Some (Inl ())
              | Some s' \<Rightarrow> ev_loop target ws s'))
      else Some (Inr s))"

declare ev_loop.simps [simp del]

section \<open>The command\<close>

fun ev_options :: "int \<Rightarrow> int \<Rightarrow> string list \<Rightarrow> int + (int \<times> int)" where
  "ev_options ticks period [] = Inr (ticks, period)"
| "ev_options ticks period (a # as) =
     (if a = ''--ticks'' \<and> as \<noteq> [] then ev_options (atoi (hd as)) period (tl as)
      else if a = ''--period-ms'' \<and> as \<noteq> [] then ev_options ticks (atoi (hd as)) (tl as)
      else if a = ''--help'' then Inl 0
      else Inl 2)"

record ev_os =
  eo_sigmask :: bool
  eo_epoll :: int
  eo_timer :: int
  eo_event :: int
  eo_signal :: int
  eo_settime :: "int \<times> int \<Rightarrow> bool"
  eo_ctl :: "int \<Rightarrow> bool"

text \<open>The timer value handed to \<open>timerfd_settime\<close>: seconds and nanoseconds.\<close>

definition ev_period :: "int \<Rightarrow> int \<times> int" where
  "ev_period period_ms = (period_ms div 1000, period_ms mod 1000 * 1000000)"

datatype ev_action = EvOpen int | EvClose int | EvBlock | EvRestore | EvPrint int int

definition ev_opened :: "ev_os \<Rightarrow> int list" where
  "ev_opened os = filter (\<lambda>fd. fd \<ge> 0) [eo_epoll os, eo_timer os, eo_event os, eo_signal os]"

definition ev_out :: "ev_os \<Rightarrow> ev_action list" where
  "ev_out os = map EvClose (filter (\<lambda>fd. fd \<ge> 0) [eo_signal os, eo_event os, eo_timer os, eo_epoll os]) @ [EvRestore]"

definition ev_log :: "ev_os \<Rightarrow> ev_action list \<Rightarrow> ev_action list" where
  "ev_log os printed = (EvBlock # map EvOpen (ev_opened os)) @ printed @ ev_out os"

definition event_demo_cli_main :: "ev_os \<Rightarrow> string list \<Rightarrow> ep_wait list \<Rightarrow> (int \<times> ev_action list) option" where
  "event_demo_cli_main os args waits =
     (case ev_options 10 100 args of
        Inl code \<Rightarrow> Some (code, [])
      | Inr (target, period_ms) \<Rightarrow>
          if target < 1 \<or> target > 10000 \<or> period_ms < 1 \<or> period_ms > 10000 then Some (2, [])
          else if \<not> eo_sigmask os then Some (1, [])
          else if eo_epoll os < 0 \<or> eo_timer os < 0 \<or> eo_event os < 0 \<or> eo_signal os < 0 then Some (1, ev_log os [])
          else if \<not> eo_settime os (ev_period period_ms) then Some (1, ev_log os [])
          else if \<not> eo_ctl os (eo_timer os) \<or> \<not> eo_ctl os (eo_event os) \<or> \<not> eo_ctl os (eo_signal os) then Some (1, ev_log os [])
          else
            (case ev_loop target waits ev_start of
               None \<Rightarrow> None
             | Some (Inl _) \<Rightarrow> Some (1, ev_log os [])
             | Some (Inr s) \<Rightarrow> Some (0, ev_log os [EvPrint (ev_ticks s) (ev_worker_events s)])))"

section \<open>Facts about the loop\<close>

text \<open>Expirations reported by the timer items of a wait, as far as they can be read.\<close>

fun item_ticks :: "ep_item \<Rightarrow> int" where
  "item_ticks (TimerItem (Some n) w) = to_c_int (uint n)"
| "item_ticks _ = 0"

definition wait_ticks :: "ep_wait \<Rightarrow> int" where
  "wait_ticks w = (case w of EpReady is \<Rightarrow> sum_list (map item_ticks (take 4 is)) | _ \<Rightarrow> 0)"

fun item_good :: "ep_item \<Rightarrow> bool" where
  "item_good (TimerItem None w) = True"
| "item_good (TimerItem (Some n) w) = w"
| "item_good _ = True"

definition wait_good :: "ep_wait \<Rightarrow> bool" where
  "wait_good w = (case w of EpReady is \<Rightarrow> list_all item_good (take 4 is) | EpIntr \<Rightarrow> True | EpFail \<Rightarrow> False)"

lemma to_c_int_small: "0 \<le> v \<Longrightarrow> v < 2 ^ 31 \<Longrightarrow> to_c_int v = v"
  by (simp add: to_c_int_def signed_take_bit_int_eq_self)

lemma ev_item_good:
  assumes "item_good i"
  shows "\<exists>s'. ev_item target i s = Some s' \<and> ev_ticks s' = ev_ticks s + item_ticks i"
proof (cases i)
  case (TimerItem r w)
  with assms show ?thesis by (cases r) (simp_all add: Let_def)
qed (use assms in \<open>simp_all\<close>)

lemma ev_items_good:
  assumes "list_all item_good is"
  shows "\<exists>s'. ev_items target is s = Some s' \<and> ev_ticks s' = ev_ticks s + sum_list (map item_ticks is)"
  using assms
proof (induction "is" arbitrary: s)
  case (Cons i "is")
  obtain s1 where "ev_item target i s = Some s1" "ev_ticks s1 = ev_ticks s + item_ticks i"
    using ev_item_good [of i target s] Cons.prems by auto
  with Cons.IH [of s1] Cons.prems show ?case by auto
qed simp

lemma ev_loop_good:
  assumes "list_all wait_good ws" "target \<le> ev_ticks s + sum_list (map wait_ticks ws)"
  shows "\<exists>s'. ev_loop target ws s = Some (Inr s') \<and> (ev_stop s' \<or> target \<le> ev_ticks s')"
  using assms
proof (induction ws arbitrary: s)
  case Nil
  then show ?case by (subst ev_loop.simps) simp
next
  case (Cons w ws)
  show ?case
  proof (cases "\<not> ev_stop s \<and> ev_ticks s < target")
    case True
    show ?thesis
    proof (cases w)
      case (EpReady "is")
      then obtain s1 where s1: "ev_items target (take 4 is) s = Some s1" "ev_ticks s1 = ev_ticks s + wait_ticks w"
        using ev_items_good [of "take 4 is" target s] Cons.prems(1) by (auto simp: wait_good_def wait_ticks_def)
      have "target \<le> ev_ticks s1 + sum_list (map wait_ticks ws)" using Cons.prems(2) s1(2) by simp
      with Cons.IH [of s1] Cons.prems(1) True EpReady s1(1) show ?thesis by (subst ev_loop.simps) auto
    next
      case EpIntr
      with Cons True show ?thesis by (subst ev_loop.simps) (auto simp: wait_ticks_def)
    qed (use Cons.prems in \<open>simp add: wait_good_def\<close>)
  next
    case False
    then show ?thesis by (subst ev_loop.simps) auto
  qed
qed

fun ev_delta :: "int \<Rightarrow> ev_action \<Rightarrow> int" where
  "ev_delta fd (EvOpen f) = (if f = fd then 1 else 0)"
| "ev_delta fd (EvClose f) = (if f = fd then -1 else 0)"
| "ev_delta fd _ = 0"

lemma ev_out_rev: "ev_out os = map EvClose (rev (ev_opened os)) @ [EvRestore]"
  by (simp add: ev_out_def ev_opened_def rev_filter del: filter.simps)

lemma ev_log_balance: "fd_balance ev_delta fd (ev_log os []) = 0" "fd_balance ev_delta fd (ev_log os [EvPrint a b]) = 0"
  by (simp_all add: ev_log_def ev_out_rev fd_balance_opens fd_balance_closes)

lemma event_demo_log:
  assumes "event_demo_cli_main os args waits = Some (code, lg)"
  shows "lg = [] \<or> lg = ev_log os [] \<or> (\<exists>a b. lg = ev_log os [EvPrint a b])"
  using assms by (auto simp: event_demo_cli_main_def split: sum.splits prod.splits if_splits option.splits)

section \<open>Properties\<close>

text \<open>
  The event demonstration. On every path on which it returns, whatever the system answers, each
  descriptor it opened has been closed exactly once, and the signal mask is restored last exactly if
  it was changed. When every transfer of the loop succeeds and the timer reports enough expirations,
  it returns with code 0, having counted the required ticks unless a signal arrived.
\<close>

theorem event_demo_cleans_up:
  "(\<forall>code lg. event_demo_cli_main os args waits = Some (code, lg) \<longrightarrow>
      (\<forall>fd. fd_balance ev_delta fd lg = 0) \<and> (lg \<noteq> [] \<longrightarrow> hd lg = EvBlock \<and> last lg = EvRestore)) \<and>
   (\<forall>target period_ms. ev_options 10 100 args = Inr (target, period_ms) \<and> 1 \<le> target \<and> target \<le> 10000 \<and> 1 \<le> period_ms \<and> period_ms \<le> 10000 \<and>
      eo_sigmask os \<and> 0 \<le> eo_epoll os \<and> 0 \<le> eo_timer os \<and> 0 \<le> eo_event os \<and> 0 \<le> eo_signal os \<and>
      eo_settime os (ev_period period_ms) \<and> (\<forall>fd. eo_ctl os fd) \<and>
      list_all wait_good waits \<and> target \<le> sum_list (map wait_ticks waits) \<longrightarrow>
      (\<exists>s :: ev_state. event_demo_cli_main os args waits = Some (0, ev_log os [EvPrint (ev_ticks s) (ev_worker_events s)]) \<and>
         (ev_stop s \<or> target \<le> ev_ticks s)))"
proof (intro conjI allI impI)
  fix code lg
  assume "event_demo_cli_main os args waits = Some (code, lg)"
  note l = event_demo_log [OF this]
  from l show "fd_balance ev_delta fd lg = 0" for fd using ev_log_balance [of fd os] by auto
  assume "lg \<noteq> []"
  with l show "hd lg = EvBlock" "last lg = EvRestore" by (auto simp: ev_log_def ev_out_def)
next
  fix target period_ms
  assume h: "ev_options 10 100 args = Inr (target, period_ms) \<and> 1 \<le> target \<and> target \<le> 10000 \<and> 1 \<le> period_ms \<and> period_ms \<le> 10000 \<and>
      eo_sigmask os \<and> 0 \<le> eo_epoll os \<and> 0 \<le> eo_timer os \<and> 0 \<le> eo_event os \<and> 0 \<le> eo_signal os \<and>
      eo_settime os (ev_period period_ms) \<and> (\<forall>fd. eo_ctl os fd) \<and>
      list_all wait_good waits \<and> target \<le> sum_list (map wait_ticks waits)"
  then obtain s where s: "ev_loop target waits ev_start = Some (Inr s)" "ev_stop s \<or> target \<le> ev_ticks s"
    using ev_loop_good [of waits target ev_start] by (auto simp: ev_start_def)
  with h have "event_demo_cli_main os args waits = Some (0, ev_log os [EvPrint (ev_ticks s) (ev_worker_events s)])"
    by (simp add: event_demo_cli_main_def)
  with s(2) show "\<exists>s :: ev_state. event_demo_cli_main os args waits = Some (0, ev_log os [EvPrint (ev_ticks s) (ev_worker_events s)]) \<and>
         (ev_stop s \<or> target \<le> ev_ticks s)" by blast
qed

theorem event_demo_cleans_up_witness:
  "let os = \<lparr>eo_sigmask = True, eo_epoll = 3, eo_timer = 4, eo_event = 5, eo_signal = 6, eo_settime = (\<lambda>_. True), eo_ctl = (\<lambda>_. True)\<rparr>;
       waits = [EpReady [TimerItem (Some 4) True], EpIntr, EpReady [EventItem, TimerItem (Some 6) True]]
   in \<exists>s :: ev_state. event_demo_cli_main os [] waits = Some (0, ev_log os [EvPrint (ev_ticks s) (ev_worker_events s)])"
proof -
  let ?os = "\<lparr>eo_sigmask = True, eo_epoll = 3, eo_timer = 4, eo_event = 5, eo_signal = 6, eo_settime = (\<lambda>_. True), eo_ctl = (\<lambda>_. True)\<rparr>"
  let ?waits = "[EpReady [TimerItem (Some 4) True], EpIntr, EpReady [EventItem, TimerItem (Some 6) True]]"
  have "\<exists>s :: ev_state. event_demo_cli_main ?os [] ?waits = Some (0, ev_log ?os [EvPrint (ev_ticks s) (ev_worker_events s)]) \<and> (ev_stop s \<or> 10 \<le> ev_ticks s)"
    using conjunct2 [OF event_demo_cleans_up [of ?os "[]" ?waits]] by (simp add: wait_good_def wait_ticks_def to_c_int_small)
  then show ?thesis unfolding Let_def by blast
qed

end
