(* ===== verification/Tracer.thy ===== *)
theory Tracer
  imports C_Strings Common Shell_Exec
begin

text \<open>
  The process tracer of \<^verbatim>\<open>tracer/tracer.c\<close>: options, the first stop of the traced process, single
  steps, and the loop that resumes it until it ends. The answers of \<open>ptrace\<close> and \<open>waitpid\<close> are
  arguments; every request and every line printed is an event of a log, so that the theorems can say
  which signals the traced process gets.
\<close>

section \<open>Requests, output and answers of the system\<close>

datatype pt_req =
    PtAttach
  | PtSetOptions
  | PtGetRegs
  | PtPeek nat
  | PtSingleStep nat
  | PtCont nat
  | PtDetach nat

text \<open>The registers printed on x86-64.\<close>

record user_regs =
  rg_rip :: u64
  rg_rsp :: u64
  rg_rbp :: u64
  rg_rax :: u64
  rg_rbx :: u64
  rg_rcx :: u64
  rg_rdx :: u64

datatype tr_out =
    OutFirst int nat
  | OutRegs user_regs
  | OutMemory nat u64
  | OutStep int nat
  | OutExited nat
  | OutTerminated nat
  | OutExec
  | OutSignal nat
  | OutDetached int
  | OutError string

datatype tr_event = Pt int pt_req bool | Print tr_out

text \<open>
  \<open>to_ptrace\<close>: whether a request succeeds, after the events so far. \<open>to_peek\<close>: the word and whether
  \<open>errno\<close> is set. A wait delivers a status or fails, with \<open>EINTR\<close> or otherwise.
\<close>

record tr_os =
  to_ptrace :: "tr_event list \<Rightarrow> int \<Rightarrow> pt_req \<Rightarrow> bool"
  to_regs :: "tr_event list \<Rightarrow> user_regs"
  to_peek :: "tr_event list \<Rightarrow> nat \<Rightarrow> u64 \<times> bool"

datatype tr_wait = WaitStatus nat | WaitFail bool

definition WSTOPSIG :: "nat \<Rightarrow> nat" where
  "WSTOPSIG st = WEXITSTATUS st"

definition PTRACE_EVENT_EXEC :: nat where
  "PTRACE_EVENT_EXEC = 4"

definition ptrace :: "tr_os \<Rightarrow> int \<Rightarrow> pt_req \<Rightarrow> tr_event list \<Rightarrow> bool \<times> tr_event list" where
  "ptrace os pid req lg = (let ok = to_ptrace os lg pid req in (ok, lg @ [Pt pid req ok]))"

section \<open>Printing\<close>

definition print_regs :: "tr_os \<Rightarrow> int \<Rightarrow> tr_event list \<Rightarrow> tr_event list" where
  "print_regs os pid lg =
     (let (ok, lg1) = ptrace os pid PtGetRegs lg
      in lg1 @ [Print (if ok then OutRegs (to_regs os lg) else OutError ''GETREGS'')])"

definition peek_word :: "tr_os \<Rightarrow> int \<Rightarrow> nat \<Rightarrow> tr_event list \<Rightarrow> tr_event list" where
  "peek_word os pid address lg =
     (let (v, err) = to_peek os lg address
      in if v = -1 \<and> err then lg @ [Pt pid (PtPeek address) False, Print (OutError ''PEEKDATA'')]
         else lg @ [Pt pid (PtPeek address) True, Print (OutMemory address v)])"

text \<open>Registers and, when an address was given, the word there.\<close>

definition show_state :: "tr_os \<Rightarrow> int \<Rightarrow> nat option \<Rightarrow> tr_event list \<Rightarrow> tr_event list" where
  "show_state os pid peek lg =
     (let lg1 = print_regs os pid lg in case peek of None \<Rightarrow> lg1 | Some a \<Rightarrow> peek_word os pid a lg1)"

section \<open>The loops\<close>

text \<open>
  The single steps: step \<open>i + 1\<close> of the \<open>n\<close> that remain. The result has \<open>Some code\<close> when
  \<open>trace_loop\<close> returns from inside the loop; \<open>None\<close> as a whole: a wait has not returned.
\<close>

type_synonym 'a tr_result = "('a \<times> tr_event list \<times> tr_wait list) option"

fun step_loop :: "tr_os \<Rightarrow> int \<Rightarrow> nat option \<Rightarrow> int \<Rightarrow> nat \<Rightarrow> tr_wait list \<Rightarrow> tr_event list \<Rightarrow> int option tr_result" where
  "step_loop os pid peek i 0 ws lg = Some (None, lg, ws)"
| "step_loop os pid peek i (Suc n) ws lg =
     (let (ok, lg1) = ptrace os pid (PtSingleStep 0) lg
      in if \<not> ok then Some (None, lg1 @ [Print (OutError ''SINGLESTEP'')], ws)
         else
           (case ws of
              [] \<Rightarrow> None
            | WaitFail _ # ws1 \<Rightarrow> Some (None, lg1 @ [Print (OutError ''waitpid'')], ws1)
            | WaitStatus st # ws1 \<Rightarrow>
                if WIFEXITED st then Some (Some 0, lg1 @ [Print (OutExited (WEXITSTATUS st))], ws1)
                else if WIFSIGNALED st then Some (Some 0, lg1 @ [Print (OutTerminated (WTERMSIG st))], ws1)
                else step_loop os pid peek (i + 1) n ws1
                       (if WIFSTOPPED st then show_state os pid peek (lg1 @ [Print (OutStep (i + 1) (WSTOPSIG st))]) else lg1)))"

text \<open>The signal with which a stopped process is resumed: none after an exec event.\<close>

definition resume_signal :: "nat \<Rightarrow> nat" where
  "resume_signal st = (if st div 2 ^ 16 = PTRACE_EVENT_EXEC then 0 else WSTOPSIG st)"

definition report_stop :: "tr_os \<Rightarrow> int \<Rightarrow> nat \<Rightarrow> tr_event list \<Rightarrow> tr_event list" where
  "report_stop os pid st lg =
     (if st div 2 ^ 16 = PTRACE_EVENT_EXEC then print_regs os pid (lg @ [Print OutExec])
      else lg @ [Print (OutSignal (WSTOPSIG st))])"

fun cont_loop :: "tr_os \<Rightarrow> int \<Rightarrow> tr_wait list \<Rightarrow> tr_event list \<Rightarrow> int tr_result" where
  "cont_loop os pid [] lg = None"
| "cont_loop os pid (WaitFail eintr # ws) lg =
     (if eintr then cont_loop os pid ws lg else Some (1, lg @ [Print (OutError ''waitpid'')], ws))"
| "cont_loop os pid (WaitStatus st # ws) lg =
     (if WIFEXITED st then Some (int (WEXITSTATUS st), lg @ [Print (OutExited (WEXITSTATUS st))], ws)
      else if WIFSIGNALED st then Some (128 + int (WTERMSIG st), lg @ [Print (OutTerminated (WTERMSIG st))], ws)
      else if WIFSTOPPED st then
        (let (ok, lg1) = ptrace os pid (PtCont (resume_signal st)) (report_stop os pid st lg)
         in if ok then cont_loop os pid ws lg1 else Some (1, lg1 @ [Print (OutError ''CONT'')], ws))
      else cont_loop os pid ws lg)"

definition trace_finish :: "tr_os \<Rightarrow> int \<Rightarrow> bool \<Rightarrow> tr_wait list \<Rightarrow> tr_event list \<Rightarrow> int tr_result" where
  "trace_finish os pid attached ws lg =
     (if attached then
        (let (ok, lg1) = ptrace os pid (PtDetach 0) lg
         in Some (if ok then (0, lg1 @ [Print (OutDetached pid)], ws) else (1, lg1 @ [Print (OutError ''DETACH'')], ws)))
      else
        (let (ok, lg1) = ptrace os pid (PtCont 0) lg
         in if ok then cont_loop os pid ws lg1 else Some (1, lg1 @ [Print (OutError ''CONT'')], ws)))"

definition trace_first :: "tr_os \<Rightarrow> int \<Rightarrow> nat option \<Rightarrow> nat \<Rightarrow> tr_event list \<Rightarrow> tr_event list" where
  "trace_first os pid peek st lg =
     (let (ok, lg1) = ptrace os pid PtSetOptions lg;
          lg2 = (if ok then lg1 else lg1 @ [Print (OutError ''SETOPTIONS'')])
      in show_state os pid peek (lg2 @ [Print (OutFirst pid (WSTOPSIG st))]))"

definition trace_loop :: "tr_os \<Rightarrow> int \<Rightarrow> int \<Rightarrow> nat option \<Rightarrow> bool \<Rightarrow> tr_wait list \<Rightarrow> tr_event list \<Rightarrow> int tr_result" where
  "trace_loop os pid steps peek attached ws lg =
     (case ws of
        [] \<Rightarrow> None
      | WaitFail _ # ws1 \<Rightarrow> Some (1, lg @ [Print (OutError ''waitpid'')], ws1)
      | WaitStatus st # ws1 \<Rightarrow>
          if \<not> WIFSTOPPED st then Some (1, lg @ [Print (OutError ''tracee did not stop as expected'')], ws1)
          else
            (case step_loop os pid peek 0 (nat steps) ws1 (trace_first os pid peek st lg) of
               None \<Rightarrow> None
             | Some (Some code, lg1, ws2) \<Rightarrow> Some (code, lg1, ws2)
             | Some (None, lg1, ws2) \<Rightarrow> trace_finish os pid attached ws2 lg1))"

section \<open>The command\<close>

text \<open>
  The options: steps and address. In \<open>run\<close> mode they end at the separator, and the rest is the
  program; \<open>None\<close> is the exit with code 2.
\<close>

fun attach_options :: "string list \<Rightarrow> int \<Rightarrow> nat option \<Rightarrow> (int \<times> nat option) option" where
  "attach_options [] steps peek = Some (steps, peek)"
| "attach_options (a # as) steps peek =
     (if a = ''--steps'' \<and> as \<noteq> [] then attach_options (tl as) (fst (strtol10 (hd as))) peek
      else if a = ''--peek'' \<and> as \<noteq> [] then
        (case mlrt_parse_u64 (Some (hd as)) True of
           None \<Rightarrow> None
         | Some v \<Rightarrow> attach_options (tl as) steps (Some v))
      else None)"

fun run_options :: "string list \<Rightarrow> int \<Rightarrow> nat option \<Rightarrow> (int \<times> nat option \<times> string list) option" where
  "run_options [] steps peek = None"
| "run_options (a # as) steps peek =
     (if a = ''--'' then (if as = [] then None else Some (steps, peek, as))
      else if a = ''--steps'' \<and> as \<noteq> [] then run_options (tl as) (fst (strtol10 (hd as))) peek
      else if a = ''--peek'' \<and> as \<noteq> [] then
        (case mlrt_parse_u64 (Some (hd as)) True of
           None \<Rightarrow> None
         | Some v \<Rightarrow> run_options (tl as) steps (Some v))
      else None)"

text \<open>
  The child process: it asks to be traced, stops, and executes the program. \<open>exec_errno\<close> is the
  error with which \<open>execvp\<close> returns, if it does.
\<close>

datatype tr_child = ChildExit int | ChildRuns "string list"

definition trace_child :: "bool \<Rightarrow> (string list \<Rightarrow> int option) \<Rightarrow> string list \<Rightarrow> tr_child" where
  "trace_child traceme exec_errno prog =
     (if \<not> traceme then ChildExit 126
      else (case exec_errno prog of
              None \<Rightarrow> ChildRuns prog
            | Some e \<Rightarrow> ChildExit (if e = ENOENT then 127 else 126)))"

text \<open>\<open>argv\<close> is the whole argument vector; \<open>forked\<close> the result of \<open>fork\<close> in the parent.\<close>

definition trace_attach :: "tr_os \<Rightarrow> string list \<Rightarrow> tr_wait list \<Rightarrow> int tr_result" where
  "trace_attach os argv ws =
     (if length argv < 3 then Some (2, [], ws)
      else
        let (parsed, rest) = strtol10 (argv ! 2)
        in if rest \<noteq> [] \<or> parsed \<le> 0 then Some (2, [], ws)
           else
             (case attach_options (drop 3 argv) 0 None of
                None \<Rightarrow> Some (2, [], ws)
              | Some (steps, peek) \<Rightarrow>
                  let pid = to_c_int parsed; (ok, lg) = ptrace os pid PtAttach []
                  in if \<not> ok then Some (1, lg @ [Print (OutError ''ATTACH'')], ws)
                     else trace_loop os pid steps peek True ws lg))"

definition trace_run :: "tr_os \<Rightarrow> int \<Rightarrow> string list \<Rightarrow> tr_wait list \<Rightarrow> int tr_result" where
  "trace_run os forked argv ws =
     (case run_options (drop 2 argv) 0 None of
        None \<Rightarrow> Some (2, [], ws)
      | Some (steps, peek, prog) \<Rightarrow>
          if forked < 0 then Some (1, [Print (OutError ''fork'')], ws)
          else trace_loop os forked steps peek False ws [])"

definition tracer_cli_main :: "tr_os \<Rightarrow> int \<Rightarrow> string list \<Rightarrow> tr_wait list \<Rightarrow> int tr_result" where
  "tracer_cli_main os forked argv ws =
     (if length argv < 2 then Some (2, [], ws)
      else if argv ! 1 = ''attach'' then trace_attach os argv ws
      else if argv ! 1 = ''run'' then trace_run os forked argv ws
      else Some (2, [], ws))"

section \<open>The requests that move the traced process\<close>

text \<open>The control requests of a log with their outcomes; requests that only inspect are left out.\<close>

fun control_of :: "tr_event \<Rightarrow> (pt_req \<times> bool) list" where
  "control_of (Pt pid (PtSingleStep s) ok) = [(PtSingleStep s, ok)]"
| "control_of (Pt pid (PtCont s) ok) = [(PtCont s, ok)]"
| "control_of (Pt pid (PtDetach s) ok) = [(PtDetach s, ok)]"
| "control_of _ = []"

definition control :: "tr_event list \<Rightarrow> (pt_req \<times> bool) list" where
  "control lg = concat (map control_of lg)"

lemma resume_signal_eq: "resume_signal st = (if st div 2 ^ 16 = 4 then 0 else st div 2 ^ 8 mod 2 ^ 8)"
  by (simp add: resume_signal_def PTRACE_EVENT_EXEC_def WSTOPSIG_def WEXITSTATUS_def)

lemma control_append [simp]: "control (xs @ ys) = control xs @ control ys"
  by (simp add: control_def)

lemma control_simps [simp]: "control [] = []" "control (e # lg) = control_of e @ control lg"
  by (simp_all add: control_def)

lemma control_shown [simp]:
  "control (print_regs os pid lg) = control lg"
  "control (peek_word os pid a lg) = control lg"
  "control (show_state os pid peek lg) = control lg"
  "control (report_stop os pid st lg) = control lg"
  "control (trace_first os pid peek st lg) = control lg"
  by (auto simp: print_regs_def peek_word_def show_state_def report_stop_def trace_first_def ptrace_def Let_def
      split: prod.splits option.splits)

definition reports_end :: "tr_event list \<Rightarrow> bool" where
  "reports_end lg \<longleftrightarrow> lg \<noteq> [] \<and> (case last lg of Print (OutExited n) \<Rightarrow> True | Print (OutTerminated n) \<Rightarrow> True | _ \<Rightarrow> False)"

lemma reports_end_snoc [simp]:
  "reports_end (lg @ [Print (OutExited n)])" "reports_end (lg @ [Print (OutTerminated n)])"
  by (simp_all add: reports_end_def)

lemma step_loop_control:
  assumes "step_loop os pid peek i n ws lg = Some (r, lg', ws')"
  shows "\<exists>k f. k + length f \<le> n \<and> (f = [] \<or> f = [(PtSingleStep 0, False)]) \<and>
     control lg' = control lg @ replicate k (PtSingleStep 0, True) @ f \<and>
     (r = None \<or> r = Some 0 \<and> reports_end lg' \<and> f = [])"
  using assms
proof (induction n arbitrary: i ws lg)
  case (Suc n)
  show ?case
  proof (cases "to_ptrace os lg pid (PtSingleStep 0)")
    case False
    with Suc.prems show ?thesis by (intro exI [of _ 0]) (auto simp: ptrace_def Let_def)
  next
    case ok: True
    let ?lg = "lg @ [Pt pid (PtSingleStep 0) True]"
    show ?thesis
    proof (cases ws)
      case Nil
      with Suc.prems ok show ?thesis by (simp add: ptrace_def Let_def)
    next
      case (Cons w ws1)
      show ?thesis
      proof (cases "\<exists>st. w = WaitStatus st \<and> \<not> ends st")
        case True
        then obtain st where w: "w = WaitStatus st" "\<not> WIFEXITED st" "\<not> WIFSIGNALED st" by (auto simp: ends_def)
        let ?lg2 = "if WIFSTOPPED st then show_state os pid peek (?lg @ [Print (OutStep (i + 1) (WSTOPSIG st))]) else ?lg"
        have rec: "step_loop os pid peek (i + 1) n ws1 ?lg2 = Some (r, lg', ws')"
          using Suc.prems ok Cons w by (simp add: ptrace_def Let_def split: if_splits)
        obtain k f where kf: "k + length f \<le> n" "f = [] \<or> f = [(PtSingleStep 0, False)]"
          "control lg' = control ?lg2 @ replicate k (PtSingleStep 0, True) @ f" "r = None \<or> r = Some 0 \<and> reports_end lg' \<and> f = []"
          using Suc.IH [OF rec] by blast
        have "control ?lg2 = control lg @ [(PtSingleStep 0, True)]" by simp
        with kf(3) have "control lg' = control lg @ replicate (Suc k) (PtSingleStep 0, True) @ f" by simp
        with kf(1,2,4) show ?thesis by (intro exI [of _ "Suc k"] exI [of _ f] conjI) simp_all
      next
        case False
        then have "control lg' = control lg @ [(PtSingleStep 0, True)] \<and> (r = None \<or> r = Some 0 \<and> reports_end lg')"
          using Suc.prems ok Cons by (cases w) (auto simp: ptrace_def ends_def reports_end_def split: if_splits)
        then show ?thesis by (intro exI [of _ 1] exI [of _ "[]"]) simp
      qed
    qed
  qed
qed auto

lemma step_loop_returns: "n \<le> length ws \<Longrightarrow> step_loop os pid peek i n ws lg \<noteq> None"
  by (induction os pid peek i n ws lg rule: step_loop.induct)
    (auto simp: ptrace_def Let_def split: list.splits tr_wait.splits)

lemma step_loop_stops:
  assumes "\<And>lg. to_ptrace os lg pid (PtSingleStep 0)" "list_all WIFSTOPPED sts"
  shows "\<exists>lg'. step_loop os pid peek i (length sts) (map WaitStatus sts @ ws) lg = Some (None, lg', ws) \<and>
     control lg' = control lg @ replicate (length sts) (PtSingleStep 0, True)"
  using assms(2)
proof (induction sts arbitrary: i lg)
  case (Cons st sts)
  have "\<not> ends st" using stop_or_continue [of st] Cons.prems by simp
  then have n: "\<not> WIFEXITED st" "\<not> WIFSIGNALED st" by (auto simp: ends_def)
  let ?lg = "show_state os pid peek (lg @ [Pt pid (PtSingleStep 0) True] @ [Print (OutStep (i + 1) (WSTOPSIG st))])"
  from Cons.IH [of "i + 1" ?lg] Cons.prems n assms(1) show ?case by (auto simp: ptrace_def Let_def)
qed simp

text \<open>The program ends during the single steps.\<close>

definition end_line :: "nat \<Rightarrow> tr_out" where
  "end_line st = (if WIFEXITED st then OutExited (WEXITSTATUS st) else OutTerminated (WTERMSIG st))"

lemma step_loop_ends:
  assumes "\<And>lg. to_ptrace os lg pid (PtSingleStep 0)" "list_all WIFSTOPPED sts" "ends stE" "length sts < n"
  shows "\<exists>lg'. step_loop os pid peek i n (map WaitStatus sts @ WaitStatus stE # ws) lg = Some (Some 0, lg' @ [Print (end_line stE)], ws) \<and>
     control lg' = control lg @ replicate (Suc (length sts)) (PtSingleStep 0, True)"
  using assms(2,4)
proof (induction sts arbitrary: i lg n)
  case Nil
  then obtain m where "n = Suc m" by (cases n) auto
  with assms(1,3) show ?case by (auto simp: ptrace_def Let_def ends_def end_line_def)
next
  case (Cons st sts)
  then obtain m where m: "n = Suc m" "length sts < m" by (cases n) auto
  have "\<not> ends st" using stop_or_continue [of st] Cons.prems by simp
  then have n: "\<not> WIFEXITED st" "\<not> WIFSIGNALED st" by (auto simp: ends_def)
  let ?lg = "show_state os pid peek (lg @ [Pt pid (PtSingleStep 0) True] @ [Print (OutStep (i + 1) (WSTOPSIG st))])"
  from Cons.IH [of m "i + 1" ?lg] Cons.prems m n assms(1) show ?case by (auto simp: ptrace_def Let_def)
qed

text \<open>Stops reported by a list of waits, in their order.\<close>

fun stops :: "tr_wait list \<Rightarrow> nat list" where
  "stops [] = []"
| "stops (WaitStatus st # ws) = st # stops ws"
| "stops (WaitFail e # ws) = stops ws"

fun stop_or_eintr :: "tr_wait \<Rightarrow> bool" where
  "stop_or_eintr (WaitStatus st) = WIFSTOPPED st"
| "stop_or_eintr (WaitFail e) = e"

lemma cont_loop_end:
  assumes "ends st"
  shows "\<exists>e. cont_loop os pid (WaitStatus st # ws) lg = Some (exit_code st, lg @ [Print e], ws)"
  using assms by (auto simp: ends_def exit_code_def)

lemma cont_loop_stops:
  assumes "\<And>lg s. to_ptrace os lg pid (PtCont s)" "list_all stop_or_eintr cw" "ends stE"
  shows "\<exists>lg'. cont_loop os pid (cw @ WaitStatus stE # ws) lg = Some (exit_code stE, lg', ws) \<and>
     control lg' = control lg @ map (\<lambda>st. (PtCont (resume_signal st), True)) (stops cw)"
  using assms(2)
proof (induction cw arbitrary: lg)
  case Nil
  obtain e where "cont_loop os pid (WaitStatus stE # ws) lg = Some (exit_code stE, lg @ [Print e], ws)"
    using cont_loop_end [OF assms(3)] by blast
  then show ?case by (simp del: cont_loop.simps)
next
  case (Cons w cw)
  show ?case
  proof (cases w)
    case (WaitStatus st)
    with Cons.prems have s: "WIFSTOPPED st" by simp
    with stop_or_continue [of st] have n: "\<not> WIFEXITED st" "\<not> WIFSIGNALED st" by (auto simp: ends_def)
    from Cons.IH [of "report_stop os pid st lg @ [Pt pid (PtCont (resume_signal st)) True]"] Cons.prems s n WaitStatus assms(1)
    show ?thesis by (auto simp: ptrace_def Let_def)
  next
    case (WaitFail e)
    with Cons show ?thesis by auto
  qed
qed

lemma trace_loop_returns:
  assumes "nat steps < length ws"
  shows "trace_loop os pid steps peek True ws lg \<noteq> None"
proof (cases ws)
  case (Cons w ws1)
  with assms have "step_loop os pid peek 0 (nat steps) ws1 lg1 \<noteq> None" for lg1 by (intro step_loop_returns) simp
  from this [of "trace_first os pid peek (case w of WaitStatus st \<Rightarrow> st | _ \<Rightarrow> 0) lg"] Cons show ?thesis
    by (cases w) (auto simp: trace_loop_def trace_finish_def ptrace_def Let_def split: option.splits)
qed (use assms in simp)

text \<open>A first wait that does not report a stop.\<close>

fun no_stop :: "tr_wait \<Rightarrow> bool" where
  "no_stop (WaitStatus st) \<longleftrightarrow> \<not> WIFSTOPPED st"
| "no_stop (WaitFail e) \<longleftrightarrow> True"

lemma trace_loop_no_stop:
  assumes "trace_loop os pid steps peek attached ws lg = Some (code, lg', ws')" "control lg = []" "no_stop (hd ws)"
  shows "code = 1 \<and> control lg' = []"
proof (cases ws)
  case (Cons w ws1)
  with assms show ?thesis by (cases w) (auto simp: trace_loop_def)
qed (use assms in \<open>simp add: trace_loop_def\<close>)

lemma trace_loop_attached:
  assumes "trace_loop os pid steps peek True ws lg = Some (code, lg', ws')" "control lg = []" "\<not> no_stop (hd ws)"
  obtains k f d where "k + length f \<le> nat steps" "f = [] \<or> f = [(PtSingleStep 0, False)]"
    "control lg' = replicate k (PtSingleStep 0, True) @ f @ d"
    "d = [(PtDetach 0, code = 0)] \<and> (code = 0 \<or> code = 1) \<or> d = [] \<and> f = [] \<and> code = 0 \<and> reports_end lg'"
proof -
  have "ws \<noteq> []" using assms(1) by (auto simp: trace_loop_def)
  then obtain w ws1 where ws: "ws = w # ws1" by (cases ws) auto
  then obtain st where "w = WaitStatus st" "WIFSTOPPED st" using assms(3) by (cases w) auto
  with assms(1) ws obtain r lg1 ws2 where
    steps: "step_loop os pid peek 0 (nat steps) ws1 (trace_first os pid peek st lg) = Some (r, lg1, ws2)"
    "(case r of Some c \<Rightarrow> Some (c, lg1, ws2) | None \<Rightarrow> trace_finish os pid True ws2 lg1) = Some (code, lg', ws')"
    by (auto simp: trace_loop_def split: option.splits)
  obtain k f where kf: "k + length f \<le> nat steps" "f = [] \<or> f = [(PtSingleStep 0, False)]"
    "control lg1 = replicate k (PtSingleStep 0, True) @ f" "r = None \<or> r = Some 0 \<and> reports_end lg1 \<and> f = []"
    using step_loop_control [OF steps(1)] assms(2) by auto
  show ?thesis
  proof (cases r)
    case None
    with steps(2) kf(3) have "control lg' = replicate k (PtSingleStep 0, True) @ f @ [(PtDetach 0, code = 0)]" "code = 0 \<or> code = 1"
      by (auto simp: trace_finish_def ptrace_def Let_def split: if_splits)
    with that [OF kf(1,2), of "[(PtDetach 0, code = 0)]"] show ?thesis by simp
  next
    case (Some c)
    with steps(2) kf that [of k "[]" "[]"] show ?thesis by auto
  qed
qed

section \<open>Properties\<close>

text \<open>
  C39. A program run under the tracer, when the requests succeed and the first wait reports a stop. If
  after it a stop is reported for each of the requested single steps, then any number of stops and
  interruptions, and at last the end of the program, the command returns with the exit code the shell
  would give to that end; the requests that move the program are exactly the single steps and one
  resumption, all without a signal, and for every later stop one resumption with the signal that
  stopped it, or none after an exec event, in order. If the program ends earlier, during the single
  steps, the command reports how it ended and returns 0; it was moved by single steps only.
\<close>

theorem trace_run_transparent:
  assumes "1 < length argv" "argv ! 1 = ''run''" "run_options (drop 2 argv) 0 None = Some (steps, peek, prog)" "0 < pid"
    and "\<And>lg r. to_ptrace os lg pid r"
    and "WIFSTOPPED st" "list_all WIFSTOPPED sts" "list_all stop_or_eintr cw" "ends stE"
  shows "(length sts = nat steps \<longrightarrow>
      (\<exists>lg. tracer_cli_main os pid argv (WaitStatus st # map WaitStatus sts @ cw @ WaitStatus stE # ws) = Some (exit_code stE, lg, ws) \<and>
        control lg = replicate (nat steps) (PtSingleStep 0, True) @ (PtCont 0, True) # map (\<lambda>st. (PtCont (if st div 2 ^ 16 = 4 then 0 else st div 2 ^ 8 mod 2 ^ 8), True)) (stops cw))) \<and>
    (length sts < nat steps \<longrightarrow>
      (\<exists>lg. tracer_cli_main os pid argv (WaitStatus st # map WaitStatus sts @ WaitStatus stE # ws) = Some (0, lg @ [Print (end_line stE)], ws) \<and>
        control lg = replicate (Suc (length sts)) (PtSingleStep 0, True)))"
proof (intro conjI impI)
  let ?first = "trace_first os pid peek st []"
  assume len: "length sts = nat steps"
  obtain lg1 where s: "step_loop os pid peek 0 (nat steps) (map WaitStatus sts @ cw @ WaitStatus stE # ws) ?first = Some (None, lg1, cw @ WaitStatus stE # ws)"
    "control lg1 = replicate (nat steps) (PtSingleStep 0, True)"
    using step_loop_stops [of os pid sts peek 0 "cw @ WaitStatus stE # ws" ?first] assms(5,7) len by auto
  obtain lg2 where c: "cont_loop os pid (cw @ WaitStatus stE # ws) (lg1 @ [Pt pid (PtCont 0) True]) = Some (exit_code stE, lg2, ws)"
    "control lg2 = control (lg1 @ [Pt pid (PtCont 0) True]) @ map (\<lambda>st. (PtCont (resume_signal st), True)) (stops cw)"
    using cont_loop_stops [of os pid cw stE ws "lg1 @ [Pt pid (PtCont 0) True]"] assms(5,8,9) by auto
  from s c assms(1-6)
  show "\<exists>lg. tracer_cli_main os pid argv (WaitStatus st # map WaitStatus sts @ cw @ WaitStatus stE # ws) = Some (exit_code stE, lg, ws) \<and>
    control lg = replicate (nat steps) (PtSingleStep 0, True) @ (PtCont 0, True) # map (\<lambda>st. (PtCont (if st div 2 ^ 16 = 4 then 0 else st div 2 ^ 8 mod 2 ^ 8), True)) (stops cw)"
    by (simp add: resume_signal_eq tracer_cli_main_def trace_run_def trace_loop_def trace_finish_def ptrace_def)
next
  assume "length sts < nat steps"
  from step_loop_ends [OF _ assms(7,9) this, of os pid peek 0 ws "trace_first os pid peek st []"] assms(1-6)
  show "\<exists>lg. tracer_cli_main os pid argv (WaitStatus st # map WaitStatus sts @ WaitStatus stE # ws) = Some (0, lg @ [Print (end_line stE)], ws) \<and>
    control lg = replicate (Suc (length sts)) (PtSingleStep 0, True)"
    by (auto simp: tracer_cli_main_def trace_run_def trace_loop_def)
qed

theorem trace_run_transparent_witness:
  "let os = \<lparr>to_ptrace = \<lambda>_ _ _. True, to_regs = \<lambda>_. \<lparr>rg_rip = 0, rg_rsp = 0, rg_rbp = 0, rg_rax = 0, rg_rbx = 0, rg_rcx = 0, rg_rdx = 0\<rparr>, to_peek = \<lambda>_ _. (0, False)\<rparr>
   in \<exists>lg. tracer_cli_main os 77 [''trace'', ''run'', ''--steps'', ''1'', ''--'', ''ls'']
        [WaitStatus 0x137f, WaitStatus 0x57f, WaitStatus 0x4057f, WaitFail True, WaitStatus 0xf7f, WaitStatus 0x300] = Some (3, lg, []) \<and>
      control lg = [(PtSingleStep 0, True), (PtCont 0, True), (PtCont 0, True), (PtCont 15, True)]"
proof -
  let ?os = "\<lparr>to_ptrace = \<lambda>_ _ _. True, to_regs = \<lambda>_. \<lparr>rg_rip = 0, rg_rsp = 0, rg_rbp = 0, rg_rax = 0, rg_rbx = 0, rg_rcx = 0, rg_rdx = 0\<rparr>, to_peek = \<lambda>_ _. (0, False)\<rparr>"
  have o: "run_options (drop 2 [''trace'', ''run'', ''--steps'', ''1'', ''--'', ''ls'']) 0 None = Some (1, None, [''ls''])"
    by (simp add: strtol10_def c_isspace_def c_isdigit_def dec_value_def)
  show ?thesis
    using trace_run_transparent [where argv = "[''trace'', ''run'', ''--steps'', ''1'', ''--'', ''ls'']" and pid = 77 and os = ?os and st = "0x137f"
        and sts = "[0x57f]" and cw = "[WaitStatus 0x4057f, WaitFail True, WaitStatus 0xf7f]" and stE = "0x300" and ws = "[]", OF _ _ o]
    unfolding Let_def by (simp add: WIFSTOPPED_def ends_def WIFEXITED_def exit_code_def WEXITSTATUS_def)
qed

text \<open>
  C40. A process the tracer has attached to, whatever the system answers. It is never resumed with
  \<open>PTRACE_CONT\<close> and never given a signal. When the first wait reports its stop, at most the
  requested number of steps is taken and then it is detached once, and the code says whether the
  detach succeeded; without a detach the process has ended during the steps, which was reported.
  When the first wait fails, also by an interruption, or reports no stop, the command returns 1 and
  neither steps nor detaches. The command returns when it has been given one answer more than the steps.
\<close>

theorem trace_attach_detaches:
  assumes "1 < length argv" "argv ! 1 = ''attach''" "attach_options (drop 3 argv) 0 None = Some (steps, peek)"
  shows "(nat steps < length ws \<longrightarrow> tracer_cli_main os forked argv ws \<noteq> None) \<and>
    (\<forall>code lg ws'. tracer_cli_main os forked argv ws = Some (code, lg, ws') \<and> (\<exists>pid. Pt pid PtAttach True \<in> set lg) \<longrightarrow>
      (if no_stop (hd ws) then code = 1 \<and> control lg = []
       else (\<exists>k f d. k + length f \<le> nat steps \<and> (f = [] \<or> f = [(PtSingleStep 0, False)]) \<and> control lg = replicate k (PtSingleStep 0, True) @ f @ d \<and>
         (d = [(PtDetach 0, code = 0)] \<and> (code = 0 \<or> code = 1) \<or> d = [] \<and> f = [] \<and> code = 0 \<and> reports_end lg))))"
proof (intro conjI allI impI)
  assume "nat steps < length ws"
  then have "trace_loop os pid steps peek True ws lg \<noteq> None" for pid lg by (rule trace_loop_returns)
  with assms show "tracer_cli_main os forked argv ws \<noteq> None"
    by (simp add: tracer_cli_main_def trace_attach_def ptrace_def Let_def split: prod.splits)
next
  fix code lg ws'
  assume r: "tracer_cli_main os forked argv ws = Some (code, lg, ws') \<and> (\<exists>pid. Pt pid PtAttach True \<in> set lg)"
  then obtain pid where t: "trace_loop os pid steps peek True ws [Pt pid PtAttach True] = Some (code, lg, ws')"
    using assms by (auto simp: tracer_cli_main_def trace_attach_def ptrace_def Let_def split: if_splits prod.splits)
  have c: "control [Pt pid PtAttach True] = []" by simp
  show "if no_stop (hd ws) then code = 1 \<and> control lg = []
    else (\<exists>k f d. k + length f \<le> nat steps \<and> (f = [] \<or> f = [(PtSingleStep 0, False)]) \<and> control lg = replicate k (PtSingleStep 0, True) @ f @ d \<and>
      (d = [(PtDetach 0, code = 0)] \<and> (code = 0 \<or> code = 1) \<or> d = [] \<and> f = [] \<and> code = 0 \<and> reports_end lg))"
    using trace_loop_no_stop [OF t c] trace_loop_attached [OF t c] by (cases "no_stop (hd ws)") (simp, (simp only: if_False, blast))
qed

theorem trace_attach_detaches_witness:
  "let os = \<lparr>to_ptrace = \<lambda>_ _ _. True, to_regs = \<lambda>_. \<lparr>rg_rip = 0, rg_rsp = 0, rg_rbp = 0, rg_rax = 0, rg_rbx = 0, rg_rcx = 0, rg_rdx = 0\<rparr>, to_peek = \<lambda>_ _. (0, False)\<rparr>
   in \<exists>lg. tracer_cli_main os 0 [''trace'', ''attach'', ''9''] [WaitStatus 0x137f] = Some (0, lg, []) \<and> control lg = [(PtDetach 0, True)]"
proof -
  let ?os = "\<lparr>to_ptrace = \<lambda>_ _ _. True, to_regs = \<lambda>_. \<lparr>rg_rip = 0, rg_rsp = 0, rg_rbp = 0, rg_rax = 0, rg_rbx = 0, rg_rcx = 0, rg_rdx = 0\<rparr>, to_peek = \<lambda>_ _. (0, False)\<rparr>"
  let ?run = "tracer_cli_main ?os 0 [''trace'', ''attach'', ''9''] [WaitStatus 0x137f]"
  have "strtol10 ''9'' = (9, [])" "to_c_int 9 = 9"
    by (simp_all add: strtol10_def c_isspace_def c_isdigit_def dec_value_def to_c_int_def)
  then obtain lg where lg: "?run = Some (0, lg, [])" "\<not> reports_end lg" "Pt 9 PtAttach True \<in> set lg"
    by (simp add: tracer_cli_main_def trace_attach_def trace_loop_def trace_finish_def trace_first_def show_state_def print_regs_def ptrace_def
        WIFSTOPPED_def reports_end_def Let_def)
  have "\<not> no_stop (hd [WaitStatus 0x137f])" by (simp add: WIFSTOPPED_def)
  then have "\<exists>k f d. k + length f \<le> nat 0 \<and> (f = [] \<or> f = [(PtSingleStep 0, False)]) \<and> control lg = replicate k (PtSingleStep 0, True) @ f @ d \<and>
      (d = [(PtDetach 0, 0 = (0 :: int))] \<and> (0 = (0 :: int) \<or> 0 = (1 :: int)) \<or> d = [] \<and> f = [] \<and> 0 = (0 :: int) \<and> reports_end lg)"
    using conjunct2 [OF trace_attach_detaches [of "[''trace'', ''attach'', ''9'']" 0 None "[WaitStatus 0x137f]" ?os 0]] lg by simp blast
  with lg show ?thesis unfolding Let_def by auto
qed

text \<open>
  A wait that is interrupted before the first stop ends the command although the process has been
  attached: it is left without a detach.
\<close>

theorem attach_left_behind:
  assumes "\<And>lg r. to_ptrace os lg 9 r"
  shows "\<exists>lg. tracer_cli_main os forked [''trace'', ''attach'', ''9''] (WaitFail True # ws) = Some (1, lg, ws) \<and>
    Pt 9 PtAttach True \<in> set lg \<and> (\<forall>pid s ok. Pt pid (PtDetach s) ok \<notin> set lg)"
proof -
  have "strtol10 ''9'' = (9, [])" "to_c_int 9 = 9"
    by (simp_all add: strtol10_def c_isspace_def c_isdigit_def dec_value_def to_c_int_def)
  with assms show ?thesis by (simp add: tracer_cli_main_def trace_attach_def trace_loop_def ptrace_def Let_def)
qed

text \<open>
  A process identifier is read as \<open>long\<close> and narrowed to \<open>pid_t\<close>: the number 4294967297 passes the
  check, and the tracer attaches to process 1.
\<close>

theorem attach_pid_truncated:
  "tracer_cli_main os forked [''trace'', ''attach'', ''4294967297''] ws = tracer_cli_main os forked [''trace'', ''attach'', ''1''] ws"
proof -
  have "strtol10 ''4294967297'' = (4294967297, [])" "strtol10 ''1'' = (1, [])"
    by (simp_all add: strtol10_def c_isspace_def c_isdigit_def dec_value_def)
  moreover have "to_c_int 4294967297 = to_c_int 1" by (simp add: to_c_int_def signed_take_bit_eq_take_bit_shift take_bit_eq_mod)
  ultimately show ?thesis by (simp add: tracer_cli_main_def trace_attach_def)
qed

text \<open>
  A signal that arrives during the single steps is reported but not passed on: with one step that is
  stopped by SIGTERM, both following requests carry no signal, and the program goes on without it.
\<close>

theorem step_swallows_signal:
  assumes "\<And>lg r. to_ptrace os lg 77 r"
  shows "\<exists>lg. tracer_cli_main os 77 [''trace'', ''run'', ''--steps'', ''1'', ''--'', ''ls''] [WaitStatus 0x137f, WaitStatus 0xf7f, WaitStatus 0] = Some (0, lg, []) \<and>
    Print (OutStep 1 15) \<in> set lg \<and> control lg = [(PtSingleStep 0, True), (PtCont 0, True)]"
proof -
  have "strtol10 ''1'' = (1, [])" by (simp add: strtol10_def c_isspace_def c_isdigit_def dec_value_def)
  with assms show ?thesis
    by (simp add: tracer_cli_main_def trace_run_def trace_loop_def trace_finish_def trace_first_def show_state_def print_regs_def ptrace_def
        WIFSTOPPED_def WIFEXITED_def WIFSIGNALED_def WSTOPSIG_def WEXITSTATUS_def Let_def)
qed

end
