(* ===== verification/Alloc_Demo.thy ===== *)
theory Alloc_Demo
  imports Allocator
begin

text \<open>
  The allocator demonstration of \<^verbatim>\<open>allocator/demo.c\<close>: three requests and releases by the main thread, then
  four threads that allocate, fill and release blocks of random sizes at the same time. The allocator
  takes its lock for each call, so a step of a thread is one call; the order of the steps, the random
  numbers and the answers of \<open>mmap\<close> are arbitrary. The lemmas on the threads are proved over the
  contract of \<open>Heap_Spec\<close>.
\<close>

section \<open>The threads\<close>

text \<open>
  A thread is about to allocate in its \<open>i\<close>-th iteration, or writes the \<open>n\<close> bytes at \<open>p\<close> and is about
  to release them, or has ended, and says whether it failed.
\<close>

datatype stress_pc = StAlloc nat | StFree nat nat nat | StEnd bool

definition stress_rounds :: nat where
  "stress_rounds = 2000"

text \<open>\<open>r\<close> is the number from \<open>rand_r\<close>. \<open>None\<close>: a call does not return.\<close>

fun stress_worker ::
  "('env \<Rightarrow> nat \<Rightarrow> 's \<Rightarrow> (nat option \<times> 's) option) \<Rightarrow> (nat option \<Rightarrow> 's \<Rightarrow> 's option) \<Rightarrow>
     'env \<Rightarrow> nat \<Rightarrow> stress_pc \<Rightarrow> 's \<Rightarrow> (stress_pc \<times> 's) option" where
  "stress_worker alloc release e r (StAlloc i) s =
     (let n = 1 + r mod 512
      in case alloc e n s of
           None \<Rightarrow> None
         | Some (None, s') \<Rightarrow> Some (StEnd True, s')
         | Some (Some p, s') \<Rightarrow> Some (StFree i p n, s'))"
| "stress_worker alloc release e r (StFree i p n) s =
     map_option (Pair (if i + 1 < stress_rounds then StAlloc (i + 1) else StEnd False)) (release (Some p) s)"
| "stress_worker alloc release e r (StEnd failed) s = Some (StEnd failed, s)"

text \<open>The states the threads can reach from the four of them at their start.\<close>

definition stress_start :: "stress_pc list" where
  "stress_start = replicate 4 (StAlloc 0)"

inductive stress_reach ::
  "('env \<Rightarrow> nat \<Rightarrow> 's \<Rightarrow> (nat option \<times> 's) option) \<Rightarrow> (nat option \<Rightarrow> 's \<Rightarrow> 's option) \<Rightarrow> ('env \<Rightarrow> 's \<Rightarrow> bool) \<Rightarrow>
     's \<Rightarrow> nat \<Rightarrow> stress_pc list \<Rightarrow> 's \<Rightarrow> bool"
  for alloc release env_ok s0 where
  st_start: "stress_reach alloc release env_ok s0 0 stress_start s0"
| st_step: "\<lbrakk>stress_reach alloc release env_ok s0 k ws s; j < length ws; \<forall>b. ws ! j \<noteq> StEnd b; env_ok e s;
     stress_worker alloc release e r (ws ! j) s = Some (w, s')\<rbrakk> \<Longrightarrow>
     stress_reach alloc release env_ok s0 (Suc k) (ws[j := w]) s'"

section \<open>The command\<close>

text \<open>
  The calls of the main thread before the threads start. \<open>os\<close> gives the answers of the system in a
  state of the heap.
\<close>

definition demo_prologue ::
  "('env \<Rightarrow> nat \<Rightarrow> 's \<Rightarrow> (nat option \<times> 's) option) \<Rightarrow> (nat option \<Rightarrow> 's \<Rightarrow> 's option) \<Rightarrow> ('s \<Rightarrow> 'env) \<Rightarrow>
     's \<Rightarrow> ((nat option \<times> nat option \<times> nat option) \<times> 's) option" where
  "demo_prologue alloc release os s = do {
     (a, s1) \<leftarrow> alloc (os s) 128 s;
     (b, s2) \<leftarrow> alloc (os s1) 256 s1;
     (c, s3) \<leftarrow> alloc (os s2) 512 s2;
     s4 \<leftarrow> release b s3;
     s5 \<leftarrow> release a s4;
     s6 \<leftarrow> release c s5;
     Some ((a, b, c), s6)
   }"

text \<open>The joins: the result when all threads have ended.\<close>

fun demo_result :: "stress_pc list \<Rightarrow> int option" where
  "demo_result [] = Some 0"
| "demo_result (StEnd failed # ws) = map_option (\<lambda>r. if failed then 1 else r) (demo_result ws)"
| "demo_result (_ # ws) = None"

section \<open>Facts about the threads\<close>

text \<open>The payload of a thread, given the size of its block.\<close>

fun stress_held :: "stress_pc \<Rightarrow> (nat \<times> nat) option" where
  "stress_held (StFree i p n) = Some (p, n)"
| "stress_held _ = None"

text \<open>
  Thread \<open>j\<close> holds the block \<open>bl j\<close>: large enough, in use, disjoint from the blocks of the others,
  and nothing else is in use.
\<close>

definition busy :: "stress_pc list \<Rightarrow> nat set" where
  "busy ws = {j. j < length ws \<and> stress_held (ws ! j) \<noteq> None}"

definition fits :: "nat \<times> nat \<Rightarrow> stress_pc \<Rightarrow> bool" where
  "fits b w \<longleftrightarrow> (\<exists>n. stress_held w = Some (fst b, n) \<and> 0 < n \<and> n \<le> snd b)"

definition apart :: "nat \<times> nat \<Rightarrow> nat \<times> nat \<Rightarrow> bool" where
  "apart b c \<longleftrightarrow> fst b + snd b \<le> fst c \<or> fst c + snd c \<le> fst b"

definition stress_owns :: "stress_pc list \<Rightarrow> (nat \<Rightarrow> nat \<times> nat) \<Rightarrow> (nat \<times> nat) set \<Rightarrow> bool" where
  "stress_owns ws bl L \<longleftrightarrow>
     L = bl ` busy ws \<and> (\<forall>j\<in>busy ws. fits (bl j) (ws ! j)) \<and> (\<forall>i\<in>busy ws. \<forall>j\<in>busy ws. i \<noteq> j \<longrightarrow> apart (bl i) (bl j))"

text \<open>Steps a thread still has to take.\<close>

fun stress_left :: "stress_pc \<Rightarrow> nat" where
  "stress_left (StAlloc i) = 2 * (stress_rounds - i)"
| "stress_left (StFree i p n) = 2 * (stress_rounds - i) - 1"
| "stress_left (StEnd b) = 0"

fun stress_pc_ok :: "stress_pc \<Rightarrow> bool" where
  "stress_pc_ok (StAlloc i) = (i < stress_rounds)"
| "stress_pc_ok (StFree i p n) = (i < stress_rounds)"
| "stress_pc_ok (StEnd b) = True"

lemma busy_update:
  "j < length ws \<Longrightarrow> busy (ws[j := w]) = (if stress_held w = None then busy ws - {j} else insert j (busy ws))"
  by (auto simp: busy_def nth_list_update)

lemma busy_less: "j \<in> busy ws \<Longrightarrow> j < length ws"
  by (simp add: busy_def)

lemma apart_sym: "apart b c \<Longrightarrow> apart c b"
  by (auto simp: apart_def)

lemma stress_owns_take:
  assumes own: "stress_owns ws bl L" and j: "j < length ws" "stress_held (ws ! j) = None" "stress_held w = Some (p, n)"
    and k: "0 < n" "n \<le> k" "\<forall>(q, i)\<in>L. p + k \<le> q \<or> q + i \<le> p"
  shows "stress_owns (ws[j := w]) (bl(j := (p, k))) (insert (p, k) L)"
proof -
  have L: "L = bl ` busy ws" using own by (simp add: stress_owns_def)
  have nj: "j \<notin> busy ws" using j(2) by (simp add: busy_def)
  have ap: "apart (p, k) (bl i)" if "i \<in> busy ws" for i
  proof -
    have "bl i \<in> L" using that by (simp add: L)
    with k(3) show ?thesis by (cases "bl i") (auto simp: apart_def)
  qed
  have b: "busy (ws[j := w]) = insert j (busy ws)" using j by (simp add: busy_update)
  have im: "(bl(j := (p, k))) ` busy ws = L" using nj L by (auto simp: image_iff)
  have "fits (p, k) w" using j(3) k by (simp add: fits_def)
  then show ?thesis
    unfolding stress_owns_def b using own nj ap j(1) apart_sym [OF ap] im
    by (auto simp: stress_owns_def nth_list_update)
qed

lemma stress_owns_drop:
  assumes own: "stress_owns ws bl L" and j: "j < length ws" "stress_held w = None"
  shows "stress_owns (ws[j := w]) bl (bl ` (busy ws - {j}))"
  using own j by (auto simp: stress_owns_def busy_update nth_list_update)

lemma stress_owns_others:
  assumes own: "stress_owns ws bl L"
  shows "bl ` (busy ws - {j}) = (if j \<in> busy ws then L - {bl j} else L)"
proof -
  have ne: "bl j \<noteq> bl i" if "i \<in> busy ws" "j \<in> busy ws" "i \<noteq> j" for i
    using own that by (force simp: stress_owns_def apart_def fits_def)
  have "bl ` (busy ws - {j}) = bl ` busy ws - {bl j}" if "j \<in> busy ws"
  proof (intro equalityI subsetI)
    fix b assume "b \<in> bl ` (busy ws - {j})"
    then obtain i where "b = bl i" "i \<in> busy ws" "i \<noteq> j" by blast
    with ne that show "b \<in> bl ` busy ws - {bl j}" by fastforce
  qed blast
  moreover have "L = bl ` busy ws" using own by (simp add: stress_owns_def)
  ultimately show ?thesis by simp
qed

lemma stress_owns_idle:
  assumes "stress_owns ws bl L" "j < length ws" "stress_held (ws ! j) = None" "stress_held w = None"
  shows "stress_owns (ws[j := w]) bl L"
  using stress_owns_drop [OF assms(1,2,4)] stress_owns_others [OF assms(1), of j] assms(3) by (simp add: busy_def)

lemma stress_worker_left:
  assumes "stress_worker alloc release e r w s = Some (w', s')" "\<forall>b. w \<noteq> StEnd b" "stress_pc_ok w"
  shows "stress_left w' < stress_left w \<and> stress_pc_ok w'"
  using assms by (cases w) (auto simp: Let_def split: option.splits if_splits prod.splits)

fun opt_payload :: "nat option \<Rightarrow> nat \<Rightarrow> (nat \<times> nat) set" where
  "opt_payload None k = {}"
| "opt_payload (Some p) k = {(p, k)}"

context heap_contract
begin

lemma stress_worker_step:
  assumes h: "holds s L" and own: "stress_owns ws bl L" and e: "env_ok e s" and j: "j < length ws"
  shows "\<exists>w s' bl' L'. stress_worker alloc release e r (ws ! j) s = Some (w, s') \<and> holds s' L' \<and> stress_owns (ws[j := w]) bl' L'"
proof (cases "ws ! j")
  case (StAlloc i)
  let ?n = "1 + r mod 512"
  have n: "0 < ?n" "?n \<le> 2 ^ 63" by (simp, rule order_trans [of _ 512]) simp_all
  from h e n show ?thesis
  proof (cases rule: alloc_cases)
    case (null s')
    then show ?thesis using StAlloc stress_owns_idle [OF own j, of "StEnd True"] by auto
  next
    case (payload p k s')
    then show ?thesis using StAlloc stress_owns_take [OF own j, of "StFree i p ?n" p ?n k] by auto
  qed
next
  case (StFree i p n)
  then have busy: "j \<in> busy ws" using j by (simp add: busy_def)
  then have b: "bl j \<in> L" "bl j = (p, snd (bl j))" using own StFree by (auto simp: stress_owns_def fits_def prod_eq_iff)
  then obtain s' where "release (Some p) s = Some s'" "holds s' (L - {bl j})"
    using release_law [OF h, of p "snd (bl j)"] by auto
  moreover have "stress_owns (ws[j := w]) bl (L - {bl j})" if "stress_held w = None" for w
    using stress_owns_drop [OF own j that] stress_owns_others [OF own, of j] busy by simp
  moreover let ?w = "if i + 1 < stress_rounds then StAlloc (i + 1) else StEnd False"
  have "stress_held ?w = None" by simp
  ultimately have "stress_worker alloc release e r (ws ! j) s = Some (?w, s') \<and> holds s' (L - {bl j}) \<and> stress_owns (ws[j := ?w]) bl (L - {bl j})"
    using StFree by simp
  then show ?thesis by blast
next
  case (StEnd b)
  then have "ws[j := StEnd b] = ws" using list_update_id [of ws j] by simp
  with StEnd h own show ?thesis by auto
qed

lemma stress_reach_owns:
  assumes "stress_reach alloc release env_ok s0 k ws s" "holds s0 {}"
  shows "length ws = 4 \<and> (\<exists>bl L. holds s L \<and> stress_owns ws bl L)"
  using assms
proof (induction rule: stress_reach.induct)
  case st_start
  have "busy stress_start = {}" by (auto simp: busy_def stress_start_def)
  with st_start show ?case by (auto simp: stress_owns_def stress_start_def)
next
  case (st_step k ws s j e r w s')
  then obtain bl L where "holds s L" "stress_owns ws bl L" by blast
  with st_step stress_worker_step [of s L ws bl e j r] show ?case by auto
qed

lemma stress_reach_left:
  assumes "stress_reach alloc release env_ok s0 k ws s"
  shows "k + sum_list (map stress_left ws) \<le> 16000 \<and> list_all stress_pc_ok ws"
  using assms
proof (induction rule: stress_reach.induct)
  case st_start
  have "map stress_left stress_start = replicate 4 4000" "list_all stress_pc_ok stress_start"
    by (simp_all add: stress_start_def stress_rounds_def list_all_iff)
  then show ?case by (simp add: sum_list_replicate)
next
  case (st_step k ws s j e r w s')
  have "stress_left w < stress_left (ws ! j) \<and> stress_pc_ok w"
    using stress_worker_left [OF st_step.hyps(5,3)] st_step by (simp add: list_all_length)
  moreover have "stress_left (ws ! j) \<le> sum_list (map stress_left ws)"
    using st_step.hyps(2) by (intro member_le_sum_list) simp_all
  moreover have "sum_list (map stress_left (ws[j := w])) = sum_list (map stress_left ws) + stress_left w - stress_left (ws ! j)"
    using st_step.hyps(2) by (simp add: map_update sum_list_update)
  ultimately show ?case using st_step by (auto simp: list_all_length nth_list_update)
qed

lemma request_opt:
  assumes "holds s L" "env_ok e s" "0 < n" "n \<le> 512"
  shows "\<exists>r s' k. alloc e n s = Some (r, s') \<and> holds s' (opt_payload r k \<union> L) \<and> opt_payload r k \<inter> L = {}"
proof -
  have n: "n \<le> 2 ^ 63" using assms(4) by (rule order_trans) simp
  from assms(1-3) n show ?thesis
  proof (cases rule: alloc_cases)
    case (payload p k s')
    have "(p, k) \<notin> L"
    proof
      assume "(p, k) \<in> L"
      with payload(4) have "k = 0" by fastforce
      with payload(2) assms(3) show False by simp
    qed
    with payload show ?thesis by (intro exI [of _ "Some p"] exI [of _ s'] exI [of _ k]) simp
  qed auto
qed

lemma release_opt:
  assumes "holds s (opt_payload r k \<union> L)" "opt_payload r k \<inter> L = {}"
  shows "\<exists>s'. release r s = Some s' \<and> holds s' L"
proof (cases r)
  case (Some p)
  then have "opt_payload r k \<union> L - {(p, k)} = L" using assms(2) by auto
  with Some release_law [OF assms(1), of p k] show ?thesis by auto
qed (use assms release_null in auto)

lemma demo_prologue_clean:
  assumes h: "holds s {}" and os: "\<And>s L. holds s L \<Longrightarrow> env_ok (os s) s"
  shows "\<exists>abc s'. demo_prologue alloc release os s = Some (abc, s') \<and> holds s' {}"
proof -
  obtain a s1 ka where a: "alloc (os s) 128 s = Some (a, s1)" "holds s1 (opt_payload a ka)"
    using request_opt [OF h os [OF h], of 128] by auto
  obtain b s2 kb where b: "alloc (os s1) 256 s1 = Some (b, s2)" "holds s2 (opt_payload b kb \<union> opt_payload a ka)"
      "opt_payload b kb \<inter> opt_payload a ka = {}"
    using request_opt [OF a(2) os [OF a(2)], of 256] by auto
  obtain c s3 kc where c: "alloc (os s2) 512 s2 = Some (c, s3)" "holds s3 (opt_payload c kc \<union> (opt_payload b kb \<union> opt_payload a ka))"
      "opt_payload c kc \<inter> (opt_payload b kb \<union> opt_payload a ka) = {}"
    using request_opt [OF b(2) os [OF b(2)], of 512] by auto
  obtain s4 where s4: "release b s3 = Some s4" "holds s4 (opt_payload a ka \<union> opt_payload c kc)"
    using release_opt [of s3 b kb "opt_payload a ka \<union> opt_payload c kc"] b(3) c(2,3) by (auto simp: Un_ac)
  obtain s5 where s5: "release a s4 = Some s5" "holds s5 (opt_payload c kc)"
    using release_opt [OF s4(2)] c(3) by auto
  obtain s6 where "release c s5 = Some s6" "holds s6 {}"
    using release_opt [of s5 c kc "{}"] s5(2) by auto
  with a(1) b(1) c(1) s4(1) s5(1) show ?thesis by (simp add: demo_prologue_def)
qed

end

section \<open>Properties\<close>

abbreviation mlrt_alloc :: "int \<times> (nat \<Rightarrow> nat option) \<Rightarrow> nat \<Rightarrow> allocator \<Rightarrow> (nat option \<times> allocator) option" where
  "mlrt_alloc \<equiv> \<lambda>e. my_malloc (fst e) (snd e)"

lemma demo_result_ended: "demo_result ws = Some c \<Longrightarrow> w \<in> set ws \<Longrightarrow> \<exists>b. w = StEnd b"
  by (induction ws arbitrary: c rule: demo_result.induct) auto

lemma demo_result_code: "demo_result ws = Some c \<Longrightarrow> c = (if StEnd True \<in> set ws then 1 else 0)"
  by (induction ws arbitrary: c rule: demo_result.induct) (auto split: if_splits)

lemma demo_result_idle:
  assumes "demo_result ws = Some c"
  shows "busy ws = {}"
proof -
  have "stress_held (ws ! j) = None" if "j < length ws" for j
    using demo_result_ended [OF assms, of "ws ! j"] that by auto
  then show ?thesis by (auto simp: busy_def)
qed

text \<open>
  C23. The demonstration, with any answers of \<open>mmap\<close> that respect the mapped memory. The main thread's
  calls return and leave nothing in use. From there, in every interleaving of the four threads, every
  call returns; the memory one thread fills never overlaps what another one fills; the threads end
  within 16000 calls in all; and when they have ended, nothing is in use and the command returns 1
  exactly if some thread got a null pointer.
\<close>

theorem alloc_demo_safe:
  assumes "\<And>s L. alloc_holds s L \<Longrightarrow> alloc_env_ok (os s) s"
  shows "\<exists>abc s1. demo_prologue mlrt_alloc my_free os allocator_init = Some (abc, s1) \<and> alloc_holds s1 {} \<and>
    (\<forall>k ws s. stress_reach mlrt_alloc my_free alloc_env_ok s1 k ws s \<longrightarrow>
       k \<le> 16000 \<and>
       (\<forall>e r j. alloc_env_ok e s \<and> j < length ws \<longrightarrow> stress_worker mlrt_alloc my_free e r (ws ! j) s \<noteq> None) \<and>
       (\<forall>i j p n q m. i < length ws \<and> j < length ws \<and> i \<noteq> j \<and> stress_held (ws ! i) = Some (p, n) \<and> stress_held (ws ! j) = Some (q, m) \<longrightarrow>
          p + n \<le> q \<or> q + m \<le> p) \<and>
       (\<forall>c. demo_result ws = Some c \<longrightarrow> alloc_holds s {} \<and> c = (if StEnd True \<in> set ws then 1 else 0)))"
proof -
  have "alloc_holds allocator_init {}"
    by (auto simp: alloc_holds_def alloc_inv_def rep_def allocator_init_def intro!: exI [of _ "[]"])
  then obtain abc s1 where s1: "demo_prologue mlrt_alloc my_free os allocator_init = Some (abc, s1)" "alloc_holds s1 {}"
    using mlrt_heap.demo_prologue_clean [of allocator_init os] assms by blast
  have "k \<le> 16000 \<and> (\<forall>e r j. alloc_env_ok e s \<and> j < length ws \<longrightarrow> stress_worker mlrt_alloc my_free e r (ws ! j) s \<noteq> None) \<and>
      (\<forall>i j p n q m. i < length ws \<and> j < length ws \<and> i \<noteq> j \<and> stress_held (ws ! i) = Some (p, n) \<and> stress_held (ws ! j) = Some (q, m) \<longrightarrow>
          p + n \<le> q \<or> q + m \<le> p) \<and>
      (\<forall>c. demo_result ws = Some c \<longrightarrow> alloc_holds s {} \<and> c = (if StEnd True \<in> set ws then 1 else 0))"
    if reach: "stress_reach mlrt_alloc my_free alloc_env_ok s1 k ws s" for k ws s
  proof (intro conjI allI impI)
    obtain bl L where own: "alloc_holds s L" "stress_owns ws bl L"
      using mlrt_heap.stress_reach_owns [OF reach s1(2)] by blast
    show "k \<le> 16000" using mlrt_heap.stress_reach_left [OF reach] by simp
    show "stress_worker mlrt_alloc my_free e r (ws ! j) s \<noteq> None" if "alloc_env_ok e s \<and> j < length ws" for e r j
      using mlrt_heap.stress_worker_step [OF own, of e j r] that by auto
    show "p + n \<le> q \<or> q + m \<le> p"
      if "i < length ws \<and> j < length ws \<and> i \<noteq> j \<and> stress_held (ws ! i) = Some (p, n) \<and> stress_held (ws ! j) = Some (q, m)" for i j p n q m
    proof -
      have "i \<in> busy ws" "j \<in> busy ws" "i \<noteq> j" using that by (auto simp: busy_def)
      then have "apart (bl i) (bl j)" "fits (bl i) (ws ! i)" "fits (bl j) (ws ! j)"
        using own(2) by (auto simp: stress_owns_def)
      with that show ?thesis by (auto simp: apart_def fits_def)
    qed
    show "alloc_holds s {}" if "demo_result ws = Some c" for c
      using own demo_result_idle [OF that] by (simp add: stress_owns_def)
    show "c = (if StEnd True \<in> set ws then 1 else 0)" if "demo_result ws = Some c" for c using demo_result_code [OF that] .
  qed
  with s1 show ?thesis by blast
qed

theorem alloc_demo_safe_witness:
  "let os = (\<lambda>s. (4096, \<lambda>len. if al_head s = None \<and> len \<le> 2 ^ 40 then Some 65536 else None))
   in alloc_env_ok (os allocator_init) allocator_init \<and>
     (\<exists>abc s1. demo_prologue mlrt_alloc my_free os allocator_init = Some (abc, s1) \<and> alloc_holds s1 {})"
proof -
  let ?os = "\<lambda>s :: allocator. (4096 :: int, \<lambda>len :: nat. if al_head s = None \<and> len \<le> 2 ^ 40 then Some (65536 :: nat) else None)"
  have ok: "alloc_env_ok (?os s) s" for s
  proof -
    have "mmap_fresh 4096 (snd (?os s)) xs" if "alloc_inv s xs" for xs
    proof (cases "al_head s = None")
      case True
      with that have "xs = []" by (cases xs) (simp_all add: alloc_inv_def rep_def)
      then show ?thesis by (auto simp: mmap_fresh_def page_size_def split: if_splits)
    qed (auto simp: mmap_fresh_def)
    then show ?thesis by (simp add: alloc_env_ok_def page_ok_def page_size_def)
  qed
  then show ?thesis using alloc_demo_safe [of ?os] unfolding Let_def by blast
qed

end
