(* ===== verification/Benchmark.thy ===== *)
theory Benchmark
  imports Rt_Demo Posix_IO
begin

text \<open>
  The measurements of \<^verbatim>\<open>benchmarks/benchmark.c\<close>: a periodic timer, messages through a socket pair and the
  ring buffer, run one after the other by the command. Clock readings and transfers are arguments;
  the numbers printed are the integers before their conversion to floating point.
\<close>

section \<open>Timer\<close>

text \<open>
  The loop over the clock readings after each sleep: sum and maximum of the deviations and the
  deadlines that were slept for. A sleep that is interrupted is repeated with the same deadline.
\<close>

fun timer_loop :: "u64 \<Rightarrow> u64 list \<Rightarrow> u64 \<Rightarrow> u64 \<Rightarrow> u64 \<Rightarrow> u64 \<times> u64 \<times> timespec list" where
  "timer_loop period_ns [] nxt acc mx = (acc, mx, [])"
| "timer_loop period_ns (actual # as) nxt acc mx =
     (let jitter = rt_jitter actual nxt;
          (t, m, ds) = timer_loop period_ns as (nxt + period_ns) (acc + jitter) (if jitter > mx then jitter else mx)
      in (t, m, ns_to_ts nxt # ds))"

definition timer_bench :: "int \<Rightarrow> u64 \<Rightarrow> u64 list \<Rightarrow> u64 \<times> u64 \<times> timespec list" where
  "timer_bench period_us start actuals =
     (let period_ns = of_int period_us * 1000 in timer_loop period_ns actuals (start + period_ns) 0 0)"

section \<open>Socket pair\<close>

text \<open>The inner read loop: a failed, interrupted or empty read ends the measurement.\<close>

fun sock_read_loop :: "rd_event list \<Rightarrow> nat \<Rightarrow> byte list \<Rightarrow> (bool \<times> byte list \<times> rd_event list) option" where
  "sock_read_loop es 0 inp = Some (True, inp, es)"
| "sock_read_loop [] (Suc n) inp = None"
| "sock_read_loop (e # es) (Suc n) inp =
     (case sys_read e (Suc n) inp of
        RdData bs \<Rightarrow> if bs = [] then Some (False, inp, es) else sock_read_loop es (Suc n - length bs) (drop (length bs) inp)
      | _ \<Rightarrow> Some (False, inp, es))"

definition sock_msg :: "byte list" where
  "sock_msg = replicate 64 0"

text \<open>\<open>inp\<close> is what has been written and not yet read.\<close>

fun sock_loop :: "nat \<Rightarrow> wr_event list \<Rightarrow> rd_event list \<Rightarrow> byte list \<Rightarrow> bool option" where
  "sock_loop 0 ws rs inp = Some True"
| "sock_loop (Suc i) [] rs inp = None"
| "sock_loop (Suc i) (w # ws) rs inp =
     (if sys_write w sock_msg \<noteq> WrCount 64 then Some False
      else
        (case sock_read_loop rs 64 (inp @ sock_msg) of
           None \<Rightarrow> None
         | Some (ok, inp', rs') \<Rightarrow> if ok then sock_loop i ws rs' inp' else Some False))"

text \<open>The return code and the descriptors closed; \<open>sv\<close> is what \<open>socketpair\<close> returns.\<close>

definition socketpair_bench :: "(int \<times> int) option \<Rightarrow> wr_event list \<Rightarrow> rd_event list \<Rightarrow> nat \<Rightarrow> (int \<times> int list) option" where
  "socketpair_bench sv ws rs iterations =
     (case sv of
        None \<Rightarrow> Some (1, [])
      | Some (a, b) \<Rightarrow> map_option (\<lambda>ok. (if ok then 0 else 1, [a, b])) (sock_loop iterations ws rs []))"

section \<open>Ring buffer\<close>

text \<open>The items popped, in order, and the ring; \<open>None\<close>: a push or pop failed.\<close>

fun ring_bench_loop :: "nat \<Rightarrow> u64 \<Rightarrow> mlrt_ring_buffer \<Rightarrow> (byte list list \<times> mlrt_ring_buffer) option" where
  "ring_bench_loop 0 i q = Some ([], q)"
| "ring_bench_loop (Suc n) i q =
     (case mlrt_ring_push (Some q) (Some (put_u64_le i)) 0 of
        (rc, q1) \<Rightarrow>
          if rc \<noteq> 0 then None
          else
            (case mlrt_ring_pop q1 True of
               (rc2, out, q2) \<Rightarrow>
                 if rc2 \<noteq> 0 then None
                 else map_option (\<lambda>(outs, q'). (the out # outs, q')) (ring_bench_loop n (i + 1) (the q2))))"

definition ring_bench :: "pthread_results \<Rightarrow> mlrt_ring_buffer \<Rightarrow> byte list \<Rightarrow> nat \<Rightarrow> int \<times> byte list list" where
  "ring_bench os uninit storage iterations =
     (case mlrt_ring_init os (Some uninit) (Some storage) 256 8 of
        (rc, rb, _) \<Rightarrow>
          if rc \<noteq> 0 then (1, [])
          else
            (case ring_bench_loop iterations 0 (the rb) of
               None \<Rightarrow> (1, [])
             | Some (outs, q) \<Rightarrow> (0, outs)))"

section \<open>The command\<close>

fun bench_options :: "int \<Rightarrow> int \<Rightarrow> string list \<Rightarrow> int + (int \<times> int)" where
  "bench_options iterations period_us [] = Inr (iterations, period_us)"
| "bench_options iterations period_us (a # as) =
     (if a = ''--iterations'' \<and> as \<noteq> [] then bench_options (atoi (hd as)) period_us (tl as)
      else if a = ''--timer-period-us'' \<and> as \<noteq> [] then bench_options iterations (atoi (hd as)) (tl as)
      else if a = ''--help'' then Inl 0
      else Inl 2)"

record bench_os =
  bo_start :: u64
  bo_actuals :: "nat \<Rightarrow> u64"
  bo_pair :: "(int \<times> int) option"
  bo_writes :: "wr_event list"
  bo_reads :: "rd_event list"
  bo_pthread :: pthread_results
  bo_ring :: mlrt_ring_buffer
  bo_storage :: "byte list"

datatype bench_out = BenchTimer "u64 \<times> u64 \<times> timespec list" | BenchSocket int "int list" | BenchRing int "byte list list"

definition benchmark_cli_main :: "bench_os \<Rightarrow> string list \<Rightarrow> (int \<times> bench_out list) option" where
  "benchmark_cli_main os args =
     (case bench_options 1000 1000 args of
        Inl code \<Rightarrow> Some (code, [])
      | Inr (iterations, period_us) \<Rightarrow>
          if iterations < 10 \<or> iterations > 1000000 \<or> period_us < 100 \<or> period_us > 100000 then Some (2, [])
          else
            let n = (if iterations < 5000 then iterations else 5000);
                timer = timer_bench period_us (bo_start os) (map (bo_actuals os) [0..<nat n])
            in (case socketpair_bench (bo_pair os) (bo_writes os) (bo_reads os) (nat iterations) of
                  None \<Rightarrow> None
                | Some (src, fds) \<Rightarrow>
                    if src \<noteq> 0 then Some (1, [BenchTimer timer, BenchSocket src fds])
                    else
                      (case ring_bench (bo_pthread os) (bo_ring os) (bo_storage os) (nat (iterations * 10)) of
                         (rrc, outs) \<Rightarrow>
                           Some (if rrc \<noteq> 0 then 1 else 0, [BenchTimer timer, BenchSocket src fds, BenchRing rrc outs]))))"

section \<open>Facts about the loops\<close>

lemma timer_loop_result:
  "timer_loop p as nxt acc mx =
     (acc + (\<Sum>i\<leftarrow>[0..<length as]. rt_jitter (as ! i) (nxt + of_nat i * p)),
      fold max (map (\<lambda>i. rt_jitter (as ! i) (nxt + of_nat i * p)) [0..<length as]) mx,
      map (\<lambda>i. ns_to_ts (nxt + of_nat i * p)) [0..<length as])"
proof (induction as arbitrary: nxt acc mx)
  case (Cons a as)
  have u: "[0..<length (a # as)] = 0 # map Suc [0..<length as]" by (simp add: map_Suc_upt upt_conv_Cons del: upt_Suc)
  have s: "nxt + p + of_nat i * p = nxt + of_nat (Suc i) * p" for i by (simp add: algebra_simps)
  have m: "(if rt_jitter a nxt > mx then rt_jitter a nxt else mx) = max (rt_jitter a nxt) mx" by (auto simp: max_def not_less)
  show ?case unfolding u timer_loop.simps Let_def Cons.IH s m by (simp add: o_def algebra_simps)
qed simp

lemma sock_read_ok:
  assumes "RdEintr \<notin> set es" "RdFail \<notin> set es" "n \<le> length es" "n \<le> length inp"
  shows "\<exists>es'. sock_read_loop es n inp = Some (True, drop n inp, es') \<and> length es \<le> length es' + n \<and> set es' \<subseteq> set es"
  using assms
proof (induction es arbitrary: n inp)
  case (Cons e es)
  show ?case
  proof (cases n)
    case (Suc m)
    obtain k where e: "e = RdChunk k" using Cons.prems(1,2) by (cases e) auto
    let ?j = "min (Suc k) n"
    have j: "0 < ?j" "?j \<le> n" "length (take ?j inp) = ?j" using Suc Cons.prems(4) by auto
    have "\<exists>es'. sock_read_loop es (n - ?j) (drop ?j inp) = Some (True, drop (n - ?j) (drop ?j inp), es') \<and>
        length es \<le> length es' + (n - ?j) \<and> set es' \<subseteq> set es"
      using Cons.prems j by (intro Cons.IH) auto
    moreover have "take ?j inp \<noteq> []" using j by auto
    ultimately show ?thesis using e Suc j by auto
  qed auto
qed simp

lemma sock_loop_ok:
  assumes "set ws \<subseteq> {w. sys_write w sock_msg = WrCount 64}" "n \<le> length ws" "RdEintr \<notin> set rs" "RdFail \<notin> set rs" "64 * n \<le> length rs"
  shows "sock_loop n ws rs [] = Some True"
  using assms
proof (induction n arbitrary: ws rs)
  case (Suc n)
  obtain w ws1 where w: "ws = w # ws1" "sys_write w sock_msg = WrCount 64" using Suc.prems(1,2) by (cases ws) auto
  obtain rs1 where r: "sock_read_loop rs 64 sock_msg = Some (True, [], rs1)" "length rs \<le> length rs1 + 64" "set rs1 \<subseteq> set rs"
    using sock_read_ok [of rs 64 sock_msg] Suc.prems(3-5) by (auto simp: sock_msg_def)
  have "sock_loop n ws1 rs1 [] = Some True" using Suc.prems w r by (intro Suc.IH) auto
  with w r show ?case by simp
qed simp

lemma ring_bench_loop_ok:
  assumes "ring_inv q" "rb_item_size q = 8" "ring_items q = []"
  shows "\<exists>q'. ring_bench_loop n i q = Some (map (\<lambda>k. put_u64_le (i + of_nat k)) [0..<n], q')"
  using assms
proof (induction n arbitrary: i q)
  case (Suc n)
  have cap: "0 < rb_capacity q" using Suc.prems(1) by (simp add: ring_inv_def)
  have x: "length (put_u64_le i) = rb_item_size q" using Suc.prems(2) by simp
  let ?q1 = "ring_store q (put_u64_le i)"
  have c: "rb_count q = 0" using Suc.prems(3) by simp
  have q1: "ring_inv ?q1" "ring_items ?q1 = [put_u64_le i]"
    using ring_store_spec [OF Suc.prems(1) _ x] c cap Suc.prems(3) by simp_all
  have push: "mlrt_ring_push (Some q) (Some (put_u64_le i)) 0 = (0, Some ?q1)"
    using c cap by (simp add: ring_push_api push_counts)
  obtain rc r q2 where p: "ring_pop_cs ?q1 = (rc, r, q2)" by (cases "ring_pop_cs ?q1")
  have pop: "rc = 0" "r = Some (put_u64_le i)" "ring_inv q2" "ring_items q2 = []"
    using ring.pop_some [OF q1(1) _ p] q1(2) by auto
  have sz: "rb_item_size q2 = 8" using ring_pop_cs_frame [OF p] Suc.prems(2) by simp
  obtain q' where rec: "ring_bench_loop n (i + 1) q2 = Some (map (\<lambda>k. put_u64_le (i + 1 + of_nat k)) [0..<n], q')"
    using Suc.IH [OF pop(3) sz pop(4), of "i + 1"] by blast
  have "[0..<Suc n] = 0 # map Suc [0..<n]" by (simp add: map_Suc_upt upt_conv_Cons del: upt_Suc)
  then have l: "map (\<lambda>k. put_u64_le (i + of_nat k)) [0..<Suc n] = put_u64_le i # map (\<lambda>k. put_u64_le (i + 1 + of_nat k)) [0..<n]"
    by (simp add: o_def add.assoc del: upt_Suc)
  show ?case unfolding l using push p pop(1,2) rec by (simp add: mlrt_ring_pop_def)
qed simp

lemma ring_bench_ok:
  assumes "pthread_ok os" "length storage = 2048"
  shows "ring_bench os uninit storage n = (0, map (\<lambda>k. put_u64_le (of_nat k)) [0..<n])"
proof -
  obtain q where i: "mlrt_ring_init os (Some uninit) (Some storage) 256 8 = (0, Some q, False)"
    using assms(1) by (auto simp: mlrt_ring_init_eq ring_args_ok_def SIZE_MAX_def)
  note q = ring_init_ok [OF i]
  show ?thesis using ring_bench_loop_ok [of q n 0] q i assms(2) by (auto simp: ring_bench_def)
qed

section \<open>Properties\<close>

text \<open>
  The benchmark command with valid arguments and calls that succeed: it returns 0; the timer slept
  for the deadlines at exact multiples of the period after the start, without drift, and its sum and
  maximum are those of the deviations from these deadlines; both ends of the socket pair are closed
  once; the ring gave back all items in order, ten for each iteration.
\<close>

theorem benchmark_outcome:
  assumes "bench_options 1000 1000 args = Inr (iterations, period_us)" "10 \<le> iterations" "iterations \<le> 1000000" "100 \<le> period_us" "period_us \<le> 100000"
    and "bo_pair os = Some (a, b)" "pthread_ok (bo_pthread os)" "length (bo_storage os) = 2048"
    and "set (bo_writes os) \<subseteq> {w. sys_write w sock_msg = WrCount 64}" "nat iterations \<le> length (bo_writes os)"
    and "RdEintr \<notin> set (bo_reads os)" "RdFail \<notin> set (bo_reads os)" "64 * nat iterations \<le> length (bo_reads os)"
  shows "let n = nat (min iterations 5000);
      deadline = (\<lambda>i. bo_start os + of_nat (Suc i) * (of_int period_us * 1000));
      jitters = map (\<lambda>i. rt_jitter (bo_actuals os i) (deadline i)) [0..<n]
    in benchmark_cli_main os args =
      Some (0, [BenchTimer (sum_list jitters, fold max jitters 0, map (\<lambda>i. ns_to_ts (deadline i)) [0..<n]),
                BenchSocket 0 [a, b], BenchRing 0 (map (\<lambda>k. put_u64_le (of_nat k)) [0..<nat (iterations * 10)])])"
proof -
  define n where "n = nat (min iterations 5000)"
  let ?p = "of_int period_us * 1000 :: u64"
  let ?jit = "\<lambda>i. rt_jitter (bo_actuals os i) (bo_start os + of_nat (Suc i) * ?p)"
  have d: "bo_start os + ?p + of_nat i * ?p = bo_start os + of_nat (Suc i) * ?p" for i by (simp add: algebra_simps)
  have m: "map (\<lambda>i. rt_jitter (map (bo_actuals os) [0..<n] ! i) (f i)) [0..<n] = map (\<lambda>i. rt_jitter (bo_actuals os i) (f i)) [0..<n]" for f :: "nat \<Rightarrow> u64"
    by (intro map_cong) simp_all
  have t: "timer_bench period_us (bo_start os) (map (bo_actuals os) [0..<n]) =
      (sum_list (map ?jit [0..<n]), fold max (map ?jit [0..<n]) 0, map (\<lambda>i. ns_to_ts (bo_start os + of_nat (Suc i) * ?p)) [0..<n])"
    unfolding timer_bench_def Let_def timer_loop_result length_map length_upt diff_zero m d by simp
  have s: "socketpair_bench (bo_pair os) (bo_writes os) (bo_reads os) (nat iterations) = Some (0, [a, b])"
    using sock_loop_ok [of "bo_writes os" "nat iterations" "bo_reads os"] assms(6,9-13) by (simp add: socketpair_bench_def)
  have n: "(if iterations < 5000 then iterations else 5000) = int n" using assms(2) by (simp add: n_def min_def)
  show ?thesis
    unfolding benchmark_cli_main_def assms(1) sum.case prod.case Let_def n_def [symmetric] n nat_int t s option.case
    using assms(2-5) ring_bench_ok [OF assms(7,8)] by simp
qed

theorem benchmark_outcome_witness:
  "let os = \<lparr>bo_start = 0, bo_actuals = (\<lambda>i. of_nat (Suc i) * 1000000 + 7), bo_pair = Some (3, 4), bo_writes = replicate 10 (WrChunk 99),
       bo_reads = replicate 640 (RdChunk 0), bo_pthread = \<lparr>mutex_init_rc = 0, condattr_init_rc = 0, condattr_setclock_rc = 0, cond_init_rc = 0\<rparr>,
       bo_ring = ring_reset [] 0 0, bo_storage = replicate 2048 0\<rparr>
   in \<exists>out. benchmark_cli_main os [''--iterations'', ''10''] = Some (0, out) \<and> BenchSocket 0 [3, 4] \<in> set out"
proof -
  let ?os = "\<lparr>bo_start = 0, bo_actuals = (\<lambda>i. of_nat (Suc i) * 1000000 + 7), bo_pair = Some (3, 4), bo_writes = replicate 10 (WrChunk 99),
       bo_reads = replicate 640 (RdChunk 0), bo_pthread = \<lparr>mutex_init_rc = 0, condattr_init_rc = 0, condattr_setclock_rc = 0, cond_init_rc = 0\<rparr>,
       bo_ring = ring_reset [] 0 0, bo_storage = replicate 2048 0\<rparr>"
  have o: "bench_options 1000 1000 [''--iterations'', ''10''] = Inr (10, 1000)"
    by (simp add: atoi_def strtol10_def c_isspace_def c_isdigit_def dec_value_def to_c_int_def)
  show ?thesis
    using benchmark_outcome [OF o, of ?os 3 4] unfolding Let_def by (simp add: pthread_ok_def sock_msg_def)
qed

end
