(* ===== verification/Collective_Model.thy ===== *)
theory Collective_Model
  imports Prelude "HOL-Library.Log_Nat"
begin

text \<open>
  The cost model of collective operations, \<^verbatim>\<open>collective_model.cpp\<close>: its options, the checks of their
  values and the predicted times of a ring and of a tree. A \<open>double\<close> is a rational number, and \<open>rnd\<close>,
  the rounding of the machine, is applied to the result of every operation the program performs;
  overflow to an infinity is not modelled. \<open>stod\<close> is the conversion of the C++ library: the message of
  its exception, or the value and the number of characters used.
\<close>

section \<open>Options\<close>

datatype double_val = Finite rat | NotFinite

type_synonym stod_fun = "string \<Rightarrow> string + double_val \<times> nat"

fun find_value :: "string \<Rightarrow> string list \<Rightarrow> string option" where
  "find_value key (a # b # rest) = (if key = a then Some b else find_value key (b # rest))"
| "find_value key _ = None"

definition col_arg :: "stod_fun \<Rightarrow> string list \<Rightarrow> string \<Rightarrow> rat \<Rightarrow> string + rat" where
  "col_arg stod argv key def =
     (case find_value key (tl argv) of
        None \<Rightarrow> Inr def
      | Some str \<Rightarrow>
          (case stod str of
             Inl what \<Rightarrow> Inl what
           | Inr (x, pos) \<Rightarrow>
               (case x of
                  Finite v \<Rightarrow> if pos \<noteq> length str then Inl (''invalid value for '' @ key) else Inr v
                | NotFinite \<Rightarrow> Inl (''invalid value for '' @ key))))"

section \<open>Times\<close>

definition col_bytes :: "(rat \<Rightarrow> rat) \<Rightarrow> rat \<Rightarrow> rat" where
  "col_bytes rnd tensor_mib = rnd (rnd (tensor_mib * 1024) * 1024)"

definition col_bw :: "(rat \<Rightarrow> rat) \<Rightarrow> rat \<Rightarrow> rat" where
  "col_bw rnd gbps = rnd (rnd (gbps * 1000000000) / 8)"

definition col_alpha :: "(rat \<Rightarrow> rat) \<Rightarrow> rat \<Rightarrow> rat" where
  "col_alpha rnd latency_us = rnd (latency_us * rnd (1 / 1000000))"

definition col_ring :: "(rat \<Rightarrow> rat) \<Rightarrow> rat \<Rightarrow> rat \<Rightarrow> rat \<Rightarrow> rat \<Rightarrow> rat" where
  "col_ring rnd ranks alpha bytes bw =
     rnd (rnd (2 * rnd (ranks - 1)) * rnd (alpha + rnd (bytes / rnd (ranks * bw))))"

text \<open>The logarithm of a whole number up to 4096 is far enough from the next whole number, or exact.\<close>

definition col_stages :: "rat \<Rightarrow> nat" where
  "col_stages ranks = ceillog2 (nat \<lfloor>ranks\<rfloor>)"

definition col_tree :: "(rat \<Rightarrow> rat) \<Rightarrow> rat \<Rightarrow> rat \<Rightarrow> rat \<Rightarrow> rat \<Rightarrow> rat" where
  "col_tree rnd stages alpha bytes bw = rnd (rnd (2 * stages) * rnd (alpha + rnd (bytes / bw)))"

definition col_wire_bytes :: "(rat \<Rightarrow> rat) \<Rightarrow> rat \<Rightarrow> rat \<Rightarrow> rat" where
  "col_wire_bytes rnd ranks bytes = rnd (rnd (rnd (2 * rnd (ranks - 1)) * bytes) / ranks)"

section \<open>The program\<close>

record col_report =
  cr_ranks :: nat
  cr_tensor_mib :: rat
  cr_gbps :: rat
  cr_latency_us :: rat
  cr_ring_ms :: rat
  cr_tree_ms :: rat
  cr_wire_bytes :: rat
  cr_stages :: nat

definition col_in_range :: "rat \<Rightarrow> rat \<Rightarrow> rat \<Rightarrow> rat \<Rightarrow> bool" where
  "col_in_range ranks tensor_mib gbps latency_us \<longleftrightarrow>
     \<not> (ranks < 2 \<or> ranks > 4096 \<or> ranks \<noteq> of_int \<lfloor>ranks\<rfloor> \<or> tensor_mib < 0 \<or> tensor_mib > 1048576 \<or> gbps \<le> 0 \<or> latency_us < 0)"

definition col_predict :: "(rat \<Rightarrow> rat) \<Rightarrow> rat \<Rightarrow> rat \<Rightarrow> rat \<Rightarrow> rat \<Rightarrow> col_report" where
  "col_predict rnd ranks tensor_mib gbps latency_us =
     (let bytes = col_bytes rnd tensor_mib; bw = col_bw rnd gbps; alpha = col_alpha rnd latency_us;
          ring = col_ring rnd ranks alpha bytes bw;
          stages = col_stages ranks;
          tree = col_tree rnd (of_nat stages) alpha bytes bw
      in \<lparr>cr_ranks = nat \<lfloor>ranks\<rfloor>, cr_tensor_mib = tensor_mib, cr_gbps = gbps, cr_latency_us = latency_us,
          cr_ring_ms = rnd (ring * 1000), cr_tree_ms = rnd (tree * 1000),
          cr_wire_bytes = col_wire_bytes rnd ranks bytes, cr_stages = stages\<rparr>)"

text \<open>The exit code with the report or the message of the exception.\<close>

definition col_main :: "stod_fun \<Rightarrow> (rat \<Rightarrow> rat) \<Rightarrow> string list \<Rightarrow> int \<times> (string + col_report)" where
  "col_main stod rnd argv =
     (case col_arg stod argv ''--ranks'' 8 of Inl e \<Rightarrow> (2, Inl e) | Inr ranks \<Rightarrow>
      case col_arg stod argv ''--tensor-mib'' 128 of Inl e \<Rightarrow> (2, Inl e) | Inr tensor_mib \<Rightarrow>
      case col_arg stod argv ''--gbps'' 100 of Inl e \<Rightarrow> (2, Inl e) | Inr gbps \<Rightarrow>
      case col_arg stod argv ''--latency-us'' 5 of Inl e \<Rightarrow> (2, Inl e) | Inr latency_us \<Rightarrow>
        if \<not> col_in_range ranks tensor_mib gbps latency_us
        then (2, Inl ''ranks must be integer [2,4096]; tensor>=0, link gbps>0, latency>=0'')
        else (0, Inr (col_predict rnd ranks tensor_mib gbps latency_us)))"

section \<open>Rounding\<close>

text \<open>What the theorems use of the rounding of \<open>double\<close>.\<close>

definition rounding :: "(rat \<Rightarrow> rat) \<Rightarrow> bool" where
  "rounding rnd \<longleftrightarrow> mono rnd \<and> rnd 0 = 0 \<and> (\<forall>x. rnd (rnd x) = rnd x)"

lemma rounding_mono: "rounding rnd \<Longrightarrow> x \<le> y \<Longrightarrow> rnd x \<le> rnd y"
  by (simp add: rounding_def monoD)

lemma rounding_nonneg: "rounding rnd \<Longrightarrow> 0 \<le> x \<Longrightarrow> 0 \<le> rnd x"
  by (metis rounding_def rounding_mono)

lemma rounding_idem: "rounding rnd \<Longrightarrow> rnd (rnd x) = rnd x"
  by (simp add: rounding_def)

text \<open>Rounding down to multiples of a binary fraction is such a rounding.\<close>

definition grid :: "nat \<Rightarrow> rat \<Rightarrow> rat" where
  "grid k x = of_int \<lfloor>x * 2 ^ k\<rfloor> / 2 ^ k"

lemma rounding_grid: "rounding (grid k)"
  by (auto simp: rounding_def grid_def mono_def divide_simps intro!: floor_mono mult_right_mono)

lemma rounding_id: "rounding (\<lambda>x. x)"
  by (simp add: rounding_def mono_def)

section \<open>Options and exit code\<close>

lemma col_main_ok:
  "col_main stod rnd argv = (0, r) \<longleftrightarrow>
    (\<exists>p s g l. col_arg stod argv ''--ranks'' 8 = Inr p \<and> col_arg stod argv ''--tensor-mib'' 128 = Inr s \<and>
       col_arg stod argv ''--gbps'' 100 = Inr g \<and> col_arg stod argv ''--latency-us'' 5 = Inr l \<and>
       col_in_range p s g l \<and> r = Inr (col_predict rnd p s g l))"
  by (auto simp: col_main_def split: sum.splits)

lemma col_in_range_nat:
  assumes "col_in_range p s g l"
  obtains n where "p = of_nat n" "2 \<le> n" "n \<le> 4096" "0 \<le> s" "0 < g" "0 \<le> l"
proof -
  have p: "p = of_int \<lfloor>p\<rfloor>" "2 \<le> p" "p \<le> 4096" "0 \<le> s" "0 < g" "0 \<le> l" using assms by (auto simp: col_in_range_def)
  then have f: "2 \<le> \<lfloor>p\<rfloor>" "\<lfloor>p\<rfloor> \<le> 4096" by (simp_all add: le_floor_iff floor_le_iff)
  have "p = of_nat (nat \<lfloor>p\<rfloor>)" using p(1) f(1) by simp
  then show thesis by (rule that) (use f p in \<open>simp_all add: nat_le_iff le_nat_iff\<close>)
qed

lemma col_predict_fields:
  "cr_ranks (col_predict rnd (of_nat n) s g l) = n" "cr_tensor_mib (col_predict rnd p s g l) = s"
  "cr_gbps (col_predict rnd p s g l) = g" "cr_latency_us (col_predict rnd p s g l) = l"
  by (simp_all add: col_predict_def Let_def)

text \<open>
  The command line: the program exits with 0 and a report exactly if every given option converts
  completely to a finite number and the four values are in range; otherwise it exits with 2, a
  message and no report.
\<close>

theorem col_main_outcome:
  "case col_main stod rnd argv of
     (c, Inr r) \<Rightarrow> c = 0 \<and> col_in_range (of_nat (cr_ranks r)) (cr_tensor_mib r) (cr_gbps r) (cr_latency_us r) \<and>
       r = col_predict rnd (of_nat (cr_ranks r)) (cr_tensor_mib r) (cr_gbps r) (cr_latency_us r) \<and> 2 \<le> cr_ranks r \<and> cr_ranks r \<le> 4096
   | (c, Inl e) \<Rightarrow> c = 2 \<and>
       \<not> (\<exists>p s g l. col_arg stod argv ''--ranks'' 8 = Inr p \<and> col_arg stod argv ''--tensor-mib'' 128 = Inr s \<and>
            col_arg stod argv ''--gbps'' 100 = Inr g \<and> col_arg stod argv ''--latency-us'' 5 = Inr l \<and> col_in_range p s g l)"
proof (cases "fst (col_main stod rnd argv) = 0")
  case True
  then obtain p s g l where m: "col_main stod rnd argv = (0, Inr (col_predict rnd p s g l))" and r: "col_in_range p s g l"
    using col_main_ok [of stod rnd argv "snd (col_main stod rnd argv)"] by (cases "col_main stod rnd argv") auto
  from r show ?thesis by (rule col_in_range_nat) (use m r in \<open>simp add: col_predict_fields\<close>)
qed (auto simp: col_main_def split: sum.splits if_splits)

section \<open>The predicted times\<close>

text \<open>A product or sum of larger numbers is not smaller, also after rounding.\<close>

lemma rnd_mult_le: "rounding rnd \<Longrightarrow> 0 \<le> c \<Longrightarrow> x \<le> y \<Longrightarrow> rnd (c * x) \<le> rnd (c * y)"
  by (simp add: rounding_mono mult_left_mono)

lemma rnd_div_le: "rounding rnd \<Longrightarrow> 0 \<le> x \<Longrightarrow> x \<le> y \<Longrightarrow> 0 < d \<Longrightarrow> d \<le> c \<Longrightarrow> rnd (x / c) \<le> rnd (y / d)"
  by (rule rounding_mono) (simp_all add: frac_le)

lemma col_bytes_le: "rounding rnd \<Longrightarrow> x \<le> y \<Longrightarrow> col_bytes rnd x \<le> col_bytes rnd y"
  by (simp add: col_bytes_def rounding_mono)

lemma col_bw_le: "rounding rnd \<Longrightarrow> x \<le> y \<Longrightarrow> col_bw rnd x \<le> col_bw rnd y"
  by (simp add: col_bw_def rounding_mono divide_right_mono)

lemma col_alpha_le: "rounding rnd \<Longrightarrow> x \<le> y \<Longrightarrow> col_alpha rnd x \<le> col_alpha rnd y"
  by (simp add: col_alpha_def rounding_mono mult_right_mono rounding_nonneg)

lemma col_bytes_nonneg: "rounding rnd \<Longrightarrow> 0 \<le> x \<Longrightarrow> 0 \<le> col_bytes rnd x"
  by (simp add: col_bytes_def rounding_nonneg)

lemma col_bw_fix: "rounding rnd \<Longrightarrow> rnd (col_bw rnd x) = col_bw rnd x"
  by (simp add: col_bw_def rounding_idem)

lemma col_ring_le:
  assumes r: "rounding rnd" and le: "a \<le> a'" "0 \<le> b" "b \<le> b'" "w' \<le> w" and w: "0 < w'" "rnd w' = w'" and p: "1 \<le> p"
  shows "col_ring rnd p a b w \<le> col_ring rnd p a' b' w'"
proof -
  have "w' \<le> p * w'" using p w(1) by (simp add: mult_le_cancel_right1)
  then have "0 < rnd (p * w')" using rounding_mono [OF r, of w' "p * w'"] w by simp
  moreover have "rnd (p * w') \<le> rnd (p * w)" using p le(4) by (intro rnd_mult_le [OF r]) auto
  ultimately have "rnd (b / rnd (p * w)) \<le> rnd (b' / rnd (p * w'))" using le by (intro rnd_div_le [OF r])
  then have "rnd (a + rnd (b / rnd (p * w))) \<le> rnd (a' + rnd (b' / rnd (p * w')))" using le(1) by (intro rounding_mono [OF r]) (rule add_mono)
  moreover have "0 \<le> rnd (2 * rnd (p - 1))" using p by (intro rounding_nonneg [OF r]) (simp add: rounding_nonneg [OF r])
  ultimately show ?thesis unfolding col_ring_def by (intro rnd_mult_le [OF r])
qed

lemma col_tree_le:
  assumes r: "rounding rnd" and le: "a \<le> a'" "0 \<le> b" "b \<le> b'" "w' \<le> w" and w: "0 < w'" and k: "0 \<le> k"
  shows "col_tree rnd k a b w \<le> col_tree rnd k a' b' w'"
proof -
  have "rnd (b / w) \<le> rnd (b' / w')" using le w by (intro rnd_div_le [OF r])
  then have "rnd (a + rnd (b / w)) \<le> rnd (a' + rnd (b' / w'))" using le(1) by (intro rounding_mono [OF r]) (rule add_mono)
  moreover have "0 \<le> rnd (2 * k)" using k by (intro rounding_nonneg [OF r]) simp
  ultimately show ?thesis unfolding col_tree_def by (intro rnd_mult_le [OF r])
qed

text \<open>
  Worse networks are not predicted to be faster, in the arithmetic of the machine: for the same number
  of ranks, a larger latency, a larger tensor and a slower link (whose bandwidth does not vanish) give
  times and transferred bytes that are not smaller.
\<close>

theorem col_predict_monotone:
  assumes "rounding rnd" "col_in_range p s g l" "s \<le> s'" "g' \<le> g" "l \<le> l'" "0 < col_bw rnd g'"
  shows "cr_ring_ms (col_predict rnd p s g l) \<le> cr_ring_ms (col_predict rnd p s' g' l') \<and>
    cr_tree_ms (col_predict rnd p s g l) \<le> cr_tree_ms (col_predict rnd p s' g' l') \<and>
    cr_wire_bytes (col_predict rnd p s g l) \<le> cr_wire_bytes (col_predict rnd p s' g' l')"
proof -
  let ?b = "col_bytes rnd s" and ?b' = "col_bytes rnd s'"
  have p: "1 \<le> p" "0 \<le> s" using assms(2) by (auto simp: col_in_range_def)
  note le = col_alpha_le [OF assms(1,5)] col_bytes_nonneg [OF assms(1) p(2)] col_bytes_le [OF assms(1,3)] col_bw_le [OF assms(1,4)]
  have "0 \<le> rnd (2 * rnd (p - 1))" using p by (intro rounding_nonneg [OF assms(1)]) (simp add: rounding_nonneg [OF assms(1)])
  from rnd_mult_le [OF assms(1) this le(3)] have "col_wire_bytes rnd p ?b \<le> col_wire_bytes rnd p ?b'"
    unfolding col_wire_bytes_def using p by (intro rounding_mono [OF assms(1)]) (simp add: divide_right_mono)
  with col_ring_le [OF assms(1) le assms(6) col_bw_fix [OF assms(1)] p(1)] col_tree_le [OF assms(1) le assms(6), of "of_nat (col_stages p)"] assms(1)
  show ?thesis by (simp add: col_predict_def Let_def rounding_mono mult_right_mono)
qed

theorem col_predict_monotone_witness:
  "cr_ring_ms (col_predict (grid 40) 8 1 100 5) \<le> cr_ring_ms (col_predict (grid 40) 8 2 10 6)"
proof -
  have "col_in_range 8 1 100 5" "0 < col_bw (grid 40) 10" by (simp_all add: col_in_range_def col_bw_def grid_def)
  then show ?thesis using col_predict_monotone [OF rounding_grid, of 8 1 100 5 2 10 6 40] by simp
qed

text \<open>
  What the formulas mean, with exact arithmetic: the time of the ring is that of \<open>2 (p - 1)\<close> steps in
  which each rank sends a \<open>p\<close>-th part of the tensor, and the reported bytes are those of these steps,
  at most twice the tensor; the time of the tree is that of twice the number of stages with the whole
  tensor, and that number is the least with which repeated doubling reaches all ranks. Without
  latency the ring is not slower than the tree, and for an empty tensor the tree is not slower.
\<close>

definition step_time :: "rat \<Rightarrow> rat \<Rightarrow> rat \<Rightarrow> rat" where
  "step_time latency_us gbps bytes = latency_us / 1000 + bytes * 8 / (gbps * 1000000)"

lemma stages_bounds:
  assumes "2 \<le> n"
  shows "1 \<le> ceillog2 n" "ceillog2 n \<le> n - 1" "n \<le> 2 ^ k \<longleftrightarrow> ceillog2 n \<le> k"
proof -
  have "n \<le> 2 ^ (n - 1)" using less_exp [of "n - 1"] assms by linarith
  then show "ceillog2 n \<le> n - 1" using assms by (simp add: ceillog2_le_iff)
  show "1 \<le> ceillog2 n" using assms by (simp add: ceillog2_ge_iff)
  show "n \<le> 2 ^ k \<longleftrightarrow> ceillog2 n \<le> k" using assms by (simp add: ceillog2_le_iff)
qed

lemma exact_ring: "0 < n \<Longrightarrow> 0 < g \<Longrightarrow> cr_ring_ms (col_predict (\<lambda>x. x) (of_nat n) s g l) = of_nat (2 * (n - 1)) * step_time l g (s * 1048576 / of_nat n)"
  by (simp add: col_predict_def Let_def col_ring_def col_alpha_def col_bw_def col_bytes_def step_time_def field_simps of_nat_diff)

lemma exact_tree: "cr_tree_ms (col_predict (\<lambda>x. x) (of_nat n) s g l) = of_nat (2 * ceillog2 n) * step_time l g (s * 1048576)"
  by (simp add: col_predict_def Let_def col_tree_def col_alpha_def col_bw_def col_bytes_def col_stages_def step_time_def field_simps)

theorem col_predict_exact:
  assumes "col_in_range (of_nat n) s g l" and r: "r = col_predict (\<lambda>x. x) (of_nat n) s g l"
  shows "cr_ring_ms r = (\<Sum>i < 2 * (n - 1). step_time l g (s * 1048576 / of_nat n)) \<and>
    cr_wire_bytes r = (\<Sum>i < 2 * (n - 1). s * 1048576 / of_nat n) \<and> cr_wire_bytes r \<le> 2 * (s * 1048576) \<and>
    cr_tree_ms r = (\<Sum>i < 2 * cr_stages r. step_time l g (s * 1048576)) \<and>
    (\<forall>k. n \<le> 2 ^ k \<longleftrightarrow> cr_stages r \<le> k) \<and>
    (l = 0 \<longrightarrow> cr_ring_ms r \<le> cr_tree_ms r) \<and> (s = 0 \<longrightarrow> cr_tree_ms r \<le> cr_ring_ms r)"
proof -
  obtain n: "2 \<le> n" "0 \<le> s" "0 < g" "0 \<le> l" using assms(1) by (auto elim: col_in_range_nat)
  have st: "cr_stages r = ceillog2 n" by (simp add: r col_predict_def Let_def col_stages_def)
  have w: "cr_wire_bytes r = of_nat (2 * (n - 1)) * (s * 1048576 / of_nat n)"
    using n(1) by (simp add: r col_predict_def Let_def col_wire_bytes_def col_bytes_def of_nat_diff)
  have le: "of_nat (2 * (n - 1)) * (x / of_nat n) \<le> 2 * x" if "0 \<le> x" for x :: rat
    using that n(1) by (simp add: field_simps of_nat_diff)
  have "cr_ring_ms r \<le> cr_tree_ms r" if "l = 0"
  proof -
    let ?x = "s * 1048576 * 8 / (g * 1000000)"
    have x: "0 \<le> ?x" using n by simp
    have "cr_ring_ms r = of_nat (2 * (n - 1)) * (?x / of_nat n)" using that n(1,3) by (simp add: r exact_ring step_time_def)
    also have "\<dots> \<le> 2 * ?x" using le [OF x] .
    also have "\<dots> \<le> of_nat (2 * ceillog2 n) * ?x" using stages_bounds(1) [OF n(1)] x by (intro mult_right_mono) auto
    finally show ?thesis using that by (simp add: r exact_tree step_time_def)
  qed
  moreover have "cr_tree_ms r \<le> cr_ring_ms r" if "s = 0"
  proof -
    have "of_nat (2 * ceillog2 n) * step_time l g 0 \<le> of_nat (2 * (n - 1)) * step_time l g 0"
      using stages_bounds(2) [OF n(1)] n by (intro mult_right_mono of_nat_mono) (simp_all add: step_time_def)
    then show ?thesis using that n by (simp add: r exact_ring exact_tree)
  qed
  moreover have "cr_ring_ms r = of_nat (2 * (n - 1)) * step_time l g (s * 1048576 / of_nat n)"
    "cr_tree_ms r = of_nat (2 * ceillog2 n) * step_time l g (s * 1048576)"
    using n(1,3) by (simp_all add: r exact_ring exact_tree)
  ultimately show ?thesis using le [of "s * 1048576"] n(2) stages_bounds(3) [OF n(1)]
    by (simp add: w st)
qed

theorem col_predict_exact_witness:
  "cr_stages (col_predict (\<lambda>x. x) 8 128 100 5) \<le> 3 \<and> cr_wire_bytes (col_predict (\<lambda>x. x) 8 128 100 5) = 14 * 16777216"
  using col_predict_exact [of 8 128 100 5 "col_predict (\<lambda>x. x) 8 128 100 5"] by (auto simp: col_in_range_def dest!: spec [of _ 3])

end
