(* ===== verification/Runtime_Cli.thy ===== *)
theory Runtime_Cli
  imports Elf_Tools
begin

text \<open>
  The entry point \<^verbatim>\<open>runtime/cli.c\<close> of \<^verbatim>\<open>mlrt\<close>, which selects one of the programs, and the logger
  \<^verbatim>\<open>runtime/logger.c\<close>.
\<close>

section \<open>Selection of the program\<close>

datatype mlrt_program =
    PrShell | PrElf | PrLoad | PrTrace | PrAllocDemo | PrServer | PrClient | PrRtDemo | PrEventDemo
  | PrSerialDemo | PrTargetSim | PrTarget | PrFw | PrBenchmark

definition mlrt_programs :: "(string \<times> mlrt_program) list" where
  "mlrt_programs =
     [(''shell'', PrShell), (''elf'', PrElf), (''load'', PrLoad), (''trace'', PrTrace), (''alloc-demo'', PrAllocDemo),
      (''server'', PrServer), (''client'', PrClient), (''rt-demo'', PrRtDemo), (''event-demo'', PrEventDemo),
      (''serial-demo'', PrSerialDemo), (''target-sim'', PrTargetSim), (''target'', PrTarget), (''fw'', PrFw),
      (''benchmark'', PrBenchmark)]"

text \<open>\<open>Inl\<close>: the exit code without a program. \<open>Inr\<close>: the program and the argument vector it is called with.\<close>

definition mlrt_main :: "string list \<Rightarrow> int + mlrt_program \<times> string list" where
  "mlrt_main argv =
     (if length argv < 2 then Inl 2
      else if argv ! 1 = ''help'' \<or> argv ! 1 = ''--help'' then Inl 0
      else if argv ! 1 = ''map'' then
        (if length argv < 3 then Inl 2 else Inr (PrElf, [''elf'', argv ! 2, ''--map'']))
      else
        (case map_of mlrt_programs (argv ! 1) of
           Some pr \<Rightarrow> Inr (pr, tl argv)
         | None \<Rightarrow> Inl 2))"

section \<open>Logger\<close>

datatype mlrt_log_level = MLRT_LOG_ERROR | MLRT_LOG_WARN | MLRT_LOG_INFO | MLRT_LOG_DEBUG | MLRT_LOG_TRACE

fun log_level_code :: "mlrt_log_level \<Rightarrow> nat" where
  "log_level_code MLRT_LOG_ERROR = 0"
| "log_level_code MLRT_LOG_WARN = 1"
| "log_level_code MLRT_LOG_INFO = 2"
| "log_level_code MLRT_LOG_DEBUG = 3"
| "log_level_code MLRT_LOG_TRACE = 4"

fun level_name :: "mlrt_log_level \<Rightarrow> string" where
  "level_name MLRT_LOG_ERROR = ''ERROR''"
| "level_name MLRT_LOG_WARN = ''WARN''"
| "level_name MLRT_LOG_INFO = ''INFO''"
| "level_name MLRT_LOG_DEBUG = ''DEBUG''"
| "level_name MLRT_LOG_TRACE = ''TRACE''"

text \<open>The level of the logger and what it has written to the error output.\<close>

record logger =
  g_level :: mlrt_log_level
  lg_written :: string

definition logger_init :: logger where
  "logger_init = \<lparr>g_level = MLRT_LOG_INFO, lg_written = []\<rparr>"

definition mlrt_log_set_level :: "mlrt_log_level \<Rightarrow> logger \<Rightarrow> logger" where
  "mlrt_log_set_level level l = l\<lparr>g_level := level\<rparr>"

definition padded :: "nat \<Rightarrow> nat \<Rightarrow> string" where
  "padded width n = replicate (width - length (dec n)) (CHR ''0'') @ dec n"

text \<open>Local time of a message: hour, minute, second and nanosecond.\<close>

record log_time =
  tm_hour :: nat
  tm_min :: nat
  tm_sec :: nat
  tm_nsec :: nat

definition log_prefix :: "log_time \<Rightarrow> nat \<Rightarrow> mlrt_log_level \<Rightarrow> string option \<Rightarrow> string" where
  "log_prefix t tid level module =
     ''['' @ padded 2 (tm_hour t) @ '':'' @ padded 2 (tm_min t) @ '':'' @ padded 2 (tm_sec t) @ ''.'' @ padded 3 (tm_nsec t div 1000000) @
     ''][''  @ (case module of None \<Rightarrow> ''CORE'' | Some m \<Rightarrow> m) @ ''][''  @ level_name level @ ''][tid='' @ dec tid @ ''] ''"

definition mlrt_log :: "log_time \<Rightarrow> nat \<Rightarrow> mlrt_log_level \<Rightarrow> string option \<Rightarrow> string \<Rightarrow> logger \<Rightarrow> logger" where
  "mlrt_log t tid level module msg l =
     (if log_level_code level > log_level_code (g_level l) then l
      else l\<lparr>lg_written := lg_written l @ log_prefix t tid level module @ msg @ [CHR 0x0A]\<rparr>)"

section \<open>Properties\<close>

text \<open>
  The command line. Every program name selects its program with the remaining arguments; \<open>map FILE\<close>
  is the ELF inspector with the option \<open>--map\<close>, whatever follows, and prints the memory map of the
  file and nothing else, or the error of opening it; help exits with 0, and everything else with 2.
\<close>

theorem mlrt_main_selects:
  "(\<forall>(name, pr)\<in>set mlrt_programs. mlrt_main (p # name # args) = Inr (pr, name # args)) \<and>
   mlrt_main (p # ''map'' # file # args) = Inr (PrElf, [''elf'', file, ''--map'']) \<and>
   elf_cli_main os env [''elf'', file, ''--map''] =
     (case elf_image_open os (env file) file (Some 256) of
        (rc, im, err, log) \<Rightarrow>
          if rc \<noteq> 0 then Some (1, [Out_Error err], log)
          else map_option (\<lambda>rows. (0, [Out_Map rows], snd (elf_image_close os im log))) (elf_print_memory_map im)) \<and>
   (\<forall>name. name \<notin> fst ` set mlrt_programs \<union> {''map'', ''help'', ''--help''} \<longrightarrow> mlrt_main (p # name # args) = Inl 2) \<and>
   mlrt_main [p] = Inl 2 \<and> mlrt_main [p, ''map''] = Inl 2 \<and> mlrt_main (p # ''help'' # args) = Inl 0"
proof (intro conjI)
  show "\<forall>(name, pr)\<in>set mlrt_programs. mlrt_main (p # name # args) = Inr (pr, name # args)"
    by (simp add: mlrt_main_def mlrt_programs_def)
  show "elf_cli_main os env [''elf'', file, ''--map''] =
     (case elf_image_open os (env file) file (Some 256) of
        (rc, im, err, log) \<Rightarrow>
          if rc \<noteq> 0 then Some (1, [Out_Error err], log)
          else map_option (\<lambda>rows. (0, [Out_Map rows], snd (elf_image_close os im log))) (elf_print_memory_map im))"
    by (cases "elf_image_open os (env file) file (Some 256)")
      (auto simp: elf_cli_main_def no_opts_def when_out_def Let_def option.map_comp split: Option.bind_split)
  show "\<forall>name. name \<notin> fst ` set mlrt_programs \<union> {''map'', ''help'', ''--help''} \<longrightarrow> mlrt_main (p # name # args) = Inl 2"
    by (simp add: mlrt_main_def flip: map_of_eq_None_iff)
qed (simp_all add: mlrt_main_def)

theorem mlrt_main_selects_witness:
  "(''fw'', PrFw) \<in> set mlrt_programs \<and> mlrt_main [''mlrt'', ''fw'', ''inspect''] = Inr (PrFw, [''fw'', ''inspect'']) \<and>
   ''dump'' \<notin> fst ` set mlrt_programs \<and> mlrt_main [''mlrt'', ''dump'', ''inspect''] = Inl 2"
proof -
  note sel = mlrt_main_selects [of "''mlrt''" "[''inspect'']"]
  have m: "(''fw'', PrFw) \<in> set mlrt_programs" "''dump'' \<notin> fst ` set mlrt_programs" by (simp_all add: mlrt_programs_def)
  moreover have "mlrt_main [''mlrt'', ''fw'', ''inspect''] = Inr (PrFw, [''fw'', ''inspect''])" using sel m(1) by fast
  moreover have "mlrt_main [''mlrt'', ''dump'', ''inspect''] = Inl 2" using sel m(2) by simp
  ultimately show ?thesis by simp
qed

text \<open>A call of the logger, and the line of a message.\<close>

datatype log_call = LogSet mlrt_log_level | LogMsg log_time nat mlrt_log_level "string option" string

fun log_step :: "log_call \<Rightarrow> logger \<Rightarrow> logger" where
  "log_step (LogSet level) = mlrt_log_set_level level"
| "log_step (LogMsg t tid level module msg) = mlrt_log t tid level module msg"

text \<open>The lines that are due: those of the messages at most as verbose as the level set before them.\<close>

fun log_due :: "mlrt_log_level \<Rightarrow> log_call list \<Rightarrow> string list" where
  "log_due lv [] = []"
| "log_due lv (LogSet level # cs) = log_due level cs"
| "log_due lv (LogMsg t tid level module msg # cs) =
     (if log_level_code level \<le> log_level_code lv then [log_prefix t tid level module @ msg @ [CHR 0x0A]] else []) @ log_due lv cs"

lemma log_calls_written: "lg_written (fold log_step cs l) = lg_written l @ concat (log_due (g_level l) cs)"
proof (induction cs arbitrary: l)
  case (Cons c cs)
  then show ?case by (cases c) (simp_all add: mlrt_log_set_level_def mlrt_log_def)
qed simp

text \<open>
  The logger writes, in the order of the calls, exactly the messages at most as verbose as the level
  in force, each as one line; at the start that are errors, warnings and information.
\<close>

theorem logger_writes_due: "lg_written (fold log_step cs logger_init) = concat (log_due MLRT_LOG_INFO cs)"
  by (simp add: log_calls_written logger_init_def)

end
