(* ===== verification/Spec2Isabelle.thy ===== *)
theory Spec2Isabelle
  imports Embedded_Protocol Ring_Buffer Nic_Model Net_Protocol Firmware_Image Target_Server Allocator Remote_Shell Shell_Session Elf_Tools Virtual_Uart Rt_Demo Fabric_Main Event_Loop Tracer Alloc_Demo Benchmark Collective_Model Runtime_Cli
begin

text \<open>
  Verification of the embedded systems runtime, the C program \<^verbatim>\<open>mlrt\<close> with its Linux execution
  tools and its simulated embedded target.

  \<^bold>\<open>Parts of the program and their theories.\<close> One theory models one source file or a few files
  that belong together; the records, data types and functions have the names of the C code.

  \<^item> \<open>Prelude\<close>: word types, slices and overwrites of byte lists, cyclic indices, and the locales \<open>codec\<close>,
    \<open>invariant_system\<close> and \<open>simulation\<close>. \<open>C_Strings\<close> and \<open>Posix_IO\<close>: what the
    sources use of the C library on strings and of \<open>read\<close>, \<open>write\<close>, \<open>recv\<close> and \<open>send\<close>, with the
    locales \<open>exact_reader\<close> and \<open>exact_writer\<close> that all retry loops of the program interpret.
  \<^item> \<open>Crc32\<close> and \<open>Embedded_Protocol\<close>: \<^verbatim>\<open>protocol/embedded_protocol.c\<close>, the checksum and the packets of
    the target: codec round trip, soundness of the decoder, detection of bursts of up to four bytes
    anywhere in a frame (with one placement of four bytes excepted, and shown to escape), transfer over
    descriptors.
  \<^item> \<open>Queue_Spec\<close> and \<open>Ring_Buffer\<close>: \<^verbatim>\<open>realtime/ring_buffer.c\<close>, the bounded queue over caller storage, as
    an interpretation of an abstract queue contract: order, losses, memory safety, blocking pop.
  \<^item> \<open>Nic_Model\<close>: \<^verbatim>\<open>firmware/nic_model.c\<close>, the descriptor rings of a network card; refinement of a
    loopback with two bounded queues, in every interleaving of driver and device.
  \<^item> \<open>Net_Protocol\<close>: \<^verbatim>\<open>network/protocol.c\<close>, length-prefixed frames.
  \<^item> \<open>Firmware_Image\<close>: \<^verbatim>\<open>firmware/image.c\<close>, images over a file map: packing and verification, update
    policy, tampering.
  \<^item> \<open>Target_Core\<close>, \<open>Target_Link\<close> and \<open>Target_Server\<close>: \<^verbatim>\<open>target/target_core.c\<close>, \<^verbatim>\<open>target_server.c\<close> and
    \<^verbatim>\<open>target_client.c\<close>: the packet handler, the threads of the target as a transition system over the
    ring buffer with the watchdog cycle in every interleaving, sessions over a socket built on the packet
    protocol with steps of the threads between requests, the server program from its socket to its exit or
    its end by SIGPIPE, and a client command through both ends.
  \<^item> \<open>Common\<close>: \<^verbatim>\<open>common/common.c\<close>. \<open>Allocator\<close>: \<^verbatim>\<open>allocator/allocator.c\<close>, the block list in a store of
    headers, related to a list of blocks by a path predicate; it interprets the contract of
    \<open>Heap_Spec\<close>, over which \<open>Alloc_Demo\<close> proves the threads of \<^verbatim>\<open>allocator/demo.c\<close> safe.
  \<^item> \<open>Shell_Parser\<close>, \<open>Shell_Jobs\<close>, \<open>Shell_History\<close>, \<open>Shell_Exec\<close>, \<open>Shell_Main\<close>: \<^verbatim>\<open>shell/parser.c\<close>,
    \<^verbatim>\<open>jobs.c\<close>, \<^verbatim>\<open>shell.c\<close> and \<^verbatim>\<open>main.c\<close>: from the tokenizer to the command line \<^verbatim>\<open>mlrt shell\<close>.
    \<open>Shell_Session\<close>: the signals of the shell and of its commands over a whole run.
  \<^item> \<open>Remote_Shell\<close>: \<^verbatim>\<open>network/server.c\<close> and \<^verbatim>\<open>network/client.c\<close>: it runs commands through
    \<open>Shell_Main\<close> and talks through \<open>Net_Protocol\<close>.
  \<^item> \<open>Elf_Parser\<close>, \<open>Loader\<close>, \<open>Elf_Tools\<close>: \<^verbatim>\<open>elf/elf_parser.c\<close>, \<^verbatim>\<open>loader/loader.c\<close> and the command
    lines over them: reads inside the file, segments in memory, and everything mapped or opened given
    back, over one log of system calls from opening the image to closing it.
  \<^item> \<open>Virtual_Uart\<close>: \<^verbatim>\<open>serial/virtual_uart.c\<close>, an exchange of packets over a pseudo terminal.
  \<^item> \<open>Rt_Demo\<close>: \<^verbatim>\<open>realtime/rt_demo.c\<close>, sensor, processing, watchdog and main thread over the ring buffer
    as a transition system: its report accounts for every sample, it shuts down, its alarms are
    genuine. \<open>Event_Loop\<close>: \<^verbatim>\<open>realtime/event_loop.c\<close>, the loop over ready descriptors and its clean-up.
    \<open>Benchmark\<close>: \<^verbatim>\<open>benchmarks/benchmark.c\<close>, over the ring buffer.
  \<^item> \<open>Tracer\<close>: \<^verbatim>\<open>tracer/tracer.c\<close>, which signals and which exit code pass through it, and detaching.
  \<^item> \<open>Datapath\<close>, \<open>Fabric_Transport\<close> and \<open>Fabric_Main\<close>: the C++ programs \<^verbatim>\<open>datapath.cpp\<close> and \<^verbatim>\<open>transport.cpp\<close> under
    \<^verbatim>\<open>projects\<close>: replay protection and counters of a packet filter; a transport benchmark between
    client and server, detection of damaged replies, percentiles, and the program around it with its
    sockets, threads and report; their checksums are that of \<open>Crc32\<close>. \<open>Collective_Model\<close>:
    \<^verbatim>\<open>collective_model.cpp\<close>, monotone predictions in rounded arithmetic and what the formulas mean in
    exact arithmetic.
  \<^item> \<open>Runtime_Cli\<close>: \<^verbatim>\<open>runtime/cli.c\<close>, which selects one of the programs above, and \<^verbatim>\<open>runtime/logger.c\<close>.

  \<^bold>\<open>How behaviour outside the program enters.\<close> The answers of the system are arguments. Transfers take
  a schedule, one event per system call (how many bytes are moved, an interruption, a failure). The
  shell and the loader take an oracle that answers each call in view of the log of the calls made
  before; the log is part of the result, and properties such as \<open>no pipe end leaks\<close> or \<open>nothing
  stays mapped\<close> are statements about it. Allocation is a predicate on sizes, so that every branch
  for lack of memory is in the functions. Threads are interleaved at their critical sections and
  atomic operations: the ring buffer and the network card by sequences of operations, the target and
  the real-time demo by steps of each thread, the remote shell server by the relation \<open>server_step\<close>,
  the allocator demo by the relation \<open>stress_reach\<close>. Logs of opened and closed descriptors are judged
  by \<open>fd_balance\<close> of \<open>Prelude\<close>.

  \<^bold>\<open>Results.\<close> Error codes are values; \<open>or_die\<close> and \<open>outcome\<close> add the end of the process by
  \<open>mlrt_die\<close>. \<open>None\<close> means one of two things, said at each function: a loop that has not returned
  (its schedule is used up, or, for the \<open>partial_function\<close>s of the shell, it retries for ever), or an
  access outside an object (\<open>Elf_Parser\<close>, \<open>Allocator\<close>). That the loops return is stated
  separately: enough successful calls let every transfer, capture, wait and blocking pop end.

  \<^bold>\<open>Numbers.\<close> Fields of fixed width are words; \<open>size_t\<close> arithmetic of the allocator, the loader and the
  history is on natural numbers with the wrap-around written out as \<open>wrap64\<close>. The theorems on the
  allocator and the loader assume sizes away from the end of the address space, and separate
  theorems show what the code does there. The history theorem assumes fewer than 2 to the 63rd lines.
  Counters of threads and of job numbers are unbounded.

  \<^bold>\<open>Groups of theorems.\<close> Round trips and soundness of codecs; refinement of abstract contracts (queue,
  loopback, session handlers, history); invariants of the interleaved systems; memory safety of ring
  buffer, capture buffer and table walks; resources (pipe ends, mappings, child processes); liveness
  of the loops; and defects of the code, each shown on the model: a watchdog age that wraps, packing
  a file onto itself, allocation and segment sizes that wrap, entry sizes of ELF tables that are not
  checked, commands echoed twice, job numbers and process identifiers that are truncated, output cut
  without a mark, threads abandoned when a later one cannot be started, an average over the wrong
  number of samples, a server that aborts when \<open>accept\<close> fails, signals lost during single steps, a
  process that is attached and not detached, a mapping whose address is not checked.

  \<^bold>\<open>Not modelled.\<close> Printed tables and usage texts where they carry no decision; floating-point
  representations (the sample value of the real-time demo is a parameter, printed averages are kept as
  sum and count, times are rational numbers, and the rounding in \<open>Collective_Model\<close> is a parameter); the
  end of a process by SIGPIPE other than the target server, and when a signal arrives (the shell is only told that the flag of its
  handler is up); the run of a loaded or traced program; socket
  options and addresses of the remote shell; the assembly samples under \<^verbatim>\<open>asm\<close>.

  \<^bold>\<open>Simplifications.\<close> The interleaved target starts from a start that succeeded, since its invariant
  is about running threads; a start that fails half way is in \<open>mlrt_target_start\<close>. The benchmark client is
  given the stream of replies as a whole, so that a deadlock of full socket buffers is not seen. Allocation
  is a predicate on sizes: two requests of the same size in one call have the same answer. All four
  threads of the allocator demo are created; the code does not check whether they are. A wait on a
  condition variable of the remote shell server is the guard of the step behind it, so that a missing
  wake-up would not be seen. In the loader a write to an address that is not mapped is not a fault; it
  happens only on a system that does not honour the fixed address.
\<close>

end
